(* ===== verification/Prelude.thy ===== *)
theory Prelude
  imports Complex_Main "HOL-Library.Multiset"
begin

text \<open>
  Shared vocabulary of the development: JavaScript numbers and array accesses, results that can be
  thrown errors, the generic lemmas on lists and order statistics that several components use, and
  the locale of step systems that the stateful components instantiate.
\<close>

section \<open>JavaScript numbers\<close>

text \<open>
  A JavaScript number is a finite value, \<open>NaN\<close>, or one of the infinities (the flag is the sign:
  \<open>True\<close> for plus). Finite values are exact reals: the rounding of IEEE doubles is not modelled,
  comparisons and integer arithmetic below \<open>2 ^ 53\<close> are exact in both. \<open>-0\<close> and \<open>+0\<close>
  are one value.
\<close>

datatype jsnum = Fin real | NaN | Infinite bool

text \<open>\<open>Number.isFinite\<close>.\<close>

fun is_finite :: "jsnum \<Rightarrow> bool" where
  "is_finite (Fin _) = True"
| "is_finite NaN = False"
| "is_finite (Infinite _) = False"

fun finite_value :: "jsnum \<Rightarrow> real option" where
  "finite_value (Fin x) = Some x"
| "finite_value NaN = None"
| "finite_value (Infinite _) = None"

text \<open>The first sample a finiteness loop stops at, and the values when there is none.\<close>

fun finite_values :: "jsnum list \<Rightarrow> jsnum + real list" where
  "finite_values [] = Inr []"
| "finite_values (x # xs) =
     (case finite_value x of
        None \<Rightarrow> Inl x
      | Some v \<Rightarrow> (case finite_values xs of Inl bad \<Rightarrow> Inl bad | Inr vs \<Rightarrow> Inr (v # vs)))"

lemma map_Fin_eq [simp]: "map Fin xs = map Fin ys \<longleftrightarrow> xs = ys"
  by (rule inj_map_eq_map) (simp add: inj_def)

lemma finite_values_map_Fin [simp]: "finite_values (map Fin vs) = Inr vs"
  by (induction vs) auto

lemma finite_values_InrD: "finite_values xs = Inr vs \<Longrightarrow> xs = map Fin vs"
proof (induction xs arbitrary: vs)
  case (Cons x xs)
  then show ?case
    by (cases x) (auto split: sum.splits)
qed simp

lemma finite_values_Inr_iff: "finite_values xs = Inr vs \<longleftrightarrow> xs = map Fin vs"
  by (auto dest: finite_values_InrD)

lemma finite_values_Inl_iff:
  "(\<exists>bad. finite_values xs = Inl bad) \<longleftrightarrow> (\<exists>x\<in>set xs. \<not> is_finite x)"
proof (induction xs)
  case (Cons x xs)
  then show ?case
    by (cases x; cases "finite_values xs") auto
qed simp

lemma finite_values_bad: "finite_values xs = Inl bad \<Longrightarrow> bad \<in> set xs \<and> \<not> is_finite bad"
proof (induction xs)
  case (Cons x xs)
  then show ?case
    by (cases x) (auto split: sum.splits)
qed simp

section \<open>Results that can be errors\<close>

text \<open>
  A computation that may throw returns \<open>Inl\<close> of the error. \<open>and_then\<close> runs the rest of a function
  after a call that may throw; \<open>sequence\<close> maps such a call over a list, stopping at the first throw.
\<close>

definition and_then :: "'e + 'a \<Rightarrow> ('a \<Rightarrow> 'e + 'b) \<Rightarrow> 'e + 'b" where
  "and_then r f = (case r of Inl e \<Rightarrow> Inl e | Inr x \<Rightarrow> f x)"

lemma and_then_simps [simp]: "and_then (Inl e) f = Inl e" "and_then (Inr x) f = f x"
  by (simp_all add: and_then_def)

lemma and_then_Inr_iff: "and_then r f = Inr y \<longleftrightarrow> (\<exists>x. r = Inr x \<and> f x = Inr y)"
  by (cases r) simp_all

fun sequence :: "('e + 'a) list \<Rightarrow> 'e + 'a list" where
  "sequence [] = Inr []"
| "sequence (r # rs) = and_then r (\<lambda>x. and_then (sequence rs) (\<lambda>xs. Inr (x # xs)))"

lemma sequence_map_Inr: "(\<And>x. x \<in> set xs \<Longrightarrow> f x = Inr (g x)) \<Longrightarrow> sequence (map f xs) = Inr (map g xs)"
  by (induction xs) auto

lemma sequence_Inr_iff: "sequence rs = Inr xs \<longleftrightarrow> rs = map Inr xs"
proof (induction rs arbitrary: xs)
  case (Cons r rs)
  then show ?case by (cases xs; cases r) (auto simp: and_then_Inr_iff)
qed auto

lemma sequence_Inl_mem: "sequence rs = Inl e \<Longrightarrow> Inl e \<in> set rs"
proof (induction rs)
  case (Cons r rs)
  then show ?case by (cases r; cases "sequence rs") auto
qed simp

section \<open>Array accesses\<close>

text \<open>
  An array element read or written by index. A read out of range is \<open>undefined\<close>, here
  \<open>None\<close>; a write out of range of a typed array has no effect.
\<close>

definition rd :: "'a list \<Rightarrow> int \<Rightarrow> 'a option" where
  "rd xs i = (if 0 \<le> i \<and> i < int (length xs) then Some (xs ! nat i) else None)"

definition wr :: "'a list \<Rightarrow> int \<Rightarrow> 'a \<Rightarrow> 'a list" where
  "wr xs i v = (if 0 \<le> i \<and> i < int (length xs) then xs[nat i := v] else xs)"

lemma length_wr [simp]: "length (wr xs i v) = length xs"
  by (simp add: wr_def)

lemma rd_Some_iff: "rd xs i = Some v \<longleftrightarrow> 0 \<le> i \<and> i < int (length xs) \<and> v = xs ! nat i"
  by (auto simp: rd_def)

lemma rd_None_iff: "rd xs i = None \<longleftrightarrow> \<not> (0 \<le> i \<and> i < int (length xs))"
  by (auto simp: rd_def)

lemma rd_in_range [simp]: "0 \<le> i \<Longrightarrow> i < int (length xs) \<Longrightarrow> rd xs i = Some (xs ! nat i)"
  by (simp add: rd_def)

lemma rd_wr:
  "0 \<le> i \<Longrightarrow> i < int (length xs) \<Longrightarrow> rd (wr xs i v) j = (if i = j then Some v else rd xs j)"
  by (auto simp: rd_def wr_def nth_list_update nat_eq_iff2)

text \<open>Exchanging two cells, the step every in-place partition is made of.\<close>

definition swap_cells :: "'a list \<Rightarrow> int \<Rightarrow> int \<Rightarrow> 'a list" where
  "swap_cells xs i j =
     (case (rd xs i, rd xs j) of (Some v, Some w) \<Rightarrow> wr (wr xs i w) j v | _ \<Rightarrow> xs)"

lemma length_swap_cells [simp]: "length (swap_cells xs i j) = length xs"
  by (simp add: swap_cells_def split: option.splits)

lemma mset_swap_cells [simp]: "mset (swap_cells xs i j) = mset xs"
  by (auto simp: swap_cells_def wr_def rd_def mset_swap split: option.splits)

lemma nth_swap_cells:
  "0 \<le> i \<Longrightarrow> i < int (length xs) \<Longrightarrow> 0 \<le> j \<Longrightarrow> j < int (length xs) \<Longrightarrow> 0 \<le> m \<Longrightarrow> m < int (length xs) \<Longrightarrow>
   swap_cells xs i j ! nat m =
     (if m = j then xs ! nat i else if m = i then xs ! nat j else xs ! nat m)"
  by (auto simp: swap_cells_def wr_def nth_list_update)

lemma rd_swap_cells:
  "0 \<le> i \<Longrightarrow> i < int (length xs) \<Longrightarrow> 0 \<le> j \<Longrightarrow> j < int (length xs) \<Longrightarrow>
   rd (swap_cells xs i j) m = (if m = j then rd xs i else if m = i then rd xs j else rd xs m)"
  by (auto simp: swap_cells_def rd_wr)

section \<open>Order statistics\<close>

lemma less_imp_le_pred: "(a::nat) < n \<Longrightarrow> a \<le> n - 1"
  by linarith

lemma sorted_nth_le: "sorted xs \<Longrightarrow> i \<le> j \<Longrightarrow> j < length xs \<Longrightarrow> xs ! i \<le> xs ! j"
  by (simp add: sorted_iff_nth_mono)

lemma sort_mset_eq: "mset xs = mset ys \<Longrightarrow> sort xs = sort ys"
  by (metis sorted_list_of_multiset_mset)

text \<open>A list partitioned about position \<open>k\<close> has its \<open>k\<close>-th order statistic there.\<close>

lemma sort_partitioned:
  fixes ys :: "'a::linorder list"
  assumes k: "k < length ys"
    and below: "\<And>j. j < k \<Longrightarrow> ys ! j \<le> ys ! k"
    and above: "\<And>j. k < j \<Longrightarrow> j < length ys \<Longrightarrow> ys ! k \<le> ys ! j"
  shows "sort ys = sort (take k ys) @ ys ! k # sort (drop (Suc k) ys)"
proof (rule properties_for_sort)
  have lo: "\<And>x. x \<in> set (take k ys) \<Longrightarrow> x \<le> ys ! k"
    using below k by (auto simp: in_set_conv_nth)
  have hi: "\<And>x. x \<in> set (drop (Suc k) ys) \<Longrightarrow> ys ! k \<le> x"
    using above k by (fastforce simp: in_set_conv_nth)
  then show "sorted (sort (take k ys) @ ys ! k # sort (drop (Suc k) ys))"
    using lo by (force simp: sorted_append)
  have "ys = take k ys @ ys ! k # drop (Suc k) ys"
    using k by (rule id_take_nth_drop)
  then have "mset ys = mset (take k ys @ ys ! k # drop (Suc k) ys)"
    by (rule arg_cong)
  then show "mset (sort (take k ys) @ ys ! k # sort (drop (Suc k) ys)) = mset ys"
    by simp
qed

lemma sort_partitioned_nth:
  fixes ys :: "'a::linorder list"
  assumes "k < length ys"
    and "\<And>j. j < k \<Longrightarrow> ys ! j \<le> ys ! k"
    and "\<And>j. k < j \<Longrightarrow> j < length ys \<Longrightarrow> ys ! k \<le> ys ! j"
  shows "sort ys ! k = ys ! k"
  using sort_partitioned[OF assms] assms(1) by (simp add: nth_append)

lemma sort_nth_Min_drop:
  fixes ys :: "'a::linorder list"
  assumes k: "Suc k < length ys"
    and below: "\<And>j. j < k \<Longrightarrow> ys ! j \<le> ys ! k"
    and above: "\<And>j. k < j \<Longrightarrow> j < length ys \<Longrightarrow> ys ! k \<le> ys ! j"
  shows "sort ys ! Suc k = Min (set (drop (Suc k) ys))"
proof -
  let ?t = "drop (Suc k) ys"
  have ne: "?t \<noteq> []" using k by simp
  then have "sort ?t \<noteq> []" by (metis mset_sort mset_zero_iff)
  then obtain m ms where ms: "sort ?t = m # ms" by (cases "sort ?t") auto
  have sd: "sorted (m # ms)" using sorted_sort[of ?t] by (simp add: ms)
  have st: "set (m # ms) = set ?t" by (metis ms set_sort)
  have "m = Min (set ?t)"
  proof (rule Min_eqI[symmetric])
    show "finite (set ?t)" by simp
    show "m \<in> set ?t" using st by auto
    fix y assume "y \<in> set ?t"
    then have "y \<in> set (m # ms)" using st by simp
    then show "m \<le> y" using sd by auto
  qed
  moreover have "sort ys ! Suc k = sort ?t ! 0"
    using sort_partitioned[of k ys] k below above by (simp add: nth_append)
  ultimately show ?thesis by (simp add: ms)
qed

lemma sort_nth_mem: "i < length xs \<Longrightarrow> sort xs ! i \<in> set xs"
  by (metis length_sort nth_mem set_sort)

lemma sort_map_mono:
  fixes f :: "'a::linorder \<Rightarrow> 'b::linorder"
  assumes "mono f"
  shows "sort (map f xs) = map f (sort xs)"
proof (rule properties_for_sort)
  show "mset (map f (sort xs)) = mset (map f xs)" by simp
  have "sorted_wrt (\<lambda>x y. f x \<le> f y) (sort xs)"
    by (rule sorted_wrt_mono_rel[OF _ sorted_sort]) (rule monoD[OF assms])
  then show "sorted (map f (sort xs))" by (simp add: sorted_map)
qed

section \<open>Step systems\<close>

text \<open>
  The stateful components are step relations. A component gives its start states, its steps and an
  invariant that the start states have and the steps keep; every reachable state then has it.
\<close>

inductive reaches :: "('s \<Rightarrow> 's \<Rightarrow> bool) \<Rightarrow> 's \<Rightarrow> 's \<Rightarrow> bool" for step where
  reaches_refl: "reaches step s s"
| reaches_step: "reaches step s t \<Longrightarrow> step t u \<Longrightarrow> reaches step s u"

locale step_system =
  fixes start :: "'s \<Rightarrow> bool"
    and step :: "'s \<Rightarrow> 's \<Rightarrow> bool"
    and inv :: "'s \<Rightarrow> bool"
  assumes inv_start: "start s \<Longrightarrow> inv s"
    and inv_step: "inv s \<Longrightarrow> step s t \<Longrightarrow> inv t"
begin

lemma inv_reaches: "reaches step s t \<Longrightarrow> inv s \<Longrightarrow> inv t"
  by (induction rule: reaches.induct) (auto intro: inv_step)

lemma inv_reachable: "start s \<Longrightarrow> reaches step s t \<Longrightarrow> inv t"
  by (blast intro: inv_start inv_reaches)

end

lemma reaches_trans: "reaches step t u \<Longrightarrow> reaches step s t \<Longrightarrow> reaches step s u"
  by (induction rule: reaches.induct) (auto intro: reaches_step)

end
