(* ===== verification/Suites.thy ===== *)
theory Suites
  imports Prelude "HOL-Library.List_Lexorder" "HOL-Library.Char_ord"
begin

text \<open>
  The benchmark suite registry of \<open>packages/schema/src/suites.ts\<close>, with the fio modes and
  the network probe targets its metric lists come from, and the contract between
  suites and the metric catalog of \<open>packages/schema/src/suite-contract.ts\<close>. Waves are linearly
  ordered by their place in \<open>BENCHMARK_WAVE_ORDER\<close>.
\<close>

section \<open>Waves\<close>

datatype benchmark_wave = SyntheticMemory | SyntheticSystem | Realworld

definition BENCHMARK_WAVE_ORDER :: "benchmark_wave list" where
  "BENCHMARK_WAVE_ORDER = [SyntheticMemory, SyntheticSystem, Realworld]"

text \<open>\<open>waveRank.get(wave)\<close>: the index of the wave in the order, absent for a wave outside it.\<close>

fun index_of :: "'a \<Rightarrow> 'a list \<Rightarrow> nat option" where
  "index_of x [] = None"
| "index_of x (y # ys) = (if x = y then Some 0 else map_option Suc (index_of x ys))"

definition requiredWaveRank :: "benchmark_wave \<Rightarrow> nat option" where
  "requiredWaveRank wave = index_of wave BENCHMARK_WAVE_ORDER"

fun wave_rank :: "benchmark_wave \<Rightarrow> nat" where
  "wave_rank SyntheticMemory = 0"
| "wave_rank SyntheticSystem = 1"
| "wave_rank Realworld = 2"

lemma requiredWaveRank_total [simp]: "requiredWaveRank wave = Some (wave_rank wave)"
  by (cases wave) (simp_all add: requiredWaveRank_def BENCHMARK_WAVE_ORDER_def)

lemma wave_rank_inj [simp]: "wave_rank v = wave_rank w \<longleftrightarrow> v = w"
  by (cases v; cases w) simp_all

lemma wave_in_order [simp]: "wave \<in> set BENCHMARK_WAVE_ORDER"
  by (cases wave) (simp_all add: BENCHMARK_WAVE_ORDER_def)

instantiation benchmark_wave :: linorder
begin

definition less_eq_benchmark_wave :: "benchmark_wave \<Rightarrow> benchmark_wave \<Rightarrow> bool" where
  "less_eq_benchmark_wave v w = (wave_rank v \<le> wave_rank w)"

definition less_benchmark_wave :: "benchmark_wave \<Rightarrow> benchmark_wave \<Rightarrow> bool" where
  "less_benchmark_wave v w = (wave_rank v < wave_rank w)"

instance
  by standard (auto simp: less_eq_benchmark_wave_def less_benchmark_wave_def)

end

lemma sorted_waves: "sorted_wrt (<) BENCHMARK_WAVE_ORDER"
  by (simp add: BENCHMARK_WAVE_ORDER_def less_benchmark_wave_def)

section \<open>The registry\<close>

text \<open>\<open>DIMENSIONS\<close> of \<open>metrics.ts\<close>, in its order.\<close>

datatype dimension = Lifecycle | ControlPlane | Cpu | Disk | Memory | Network | System | RealworldDimension | Economics

text \<open>The fio mode of \<open>fio-mode.ts\<close> and the scenario metrics.\<close>

datatype fio_direct_mode = Yes | No

definition DISK_FIO_DIRECT :: fio_direct_mode where
  "DISK_FIO_DIRECT = Yes"

definition fioDirectToken :: "fio_direct_mode \<Rightarrow> string" where
  "fioDirectToken mode = (case mode of Yes \<Rightarrow> ''_direct_yes_'' | No \<Rightarrow> ''_direct_no_'')"

definition FIO_SCENARIO_METRICS :: "string list" where
  "FIO_SCENARIO_METRICS =
    [''fio_type_sequential_read_engine_linux_aio_direct_yes_block_size_1mb_job_count_1_disk_target_default_test_directory_mb_per_s'',
     ''fio_type_sequential_read_engine_linux_aio_direct_yes_block_size_1mb_job_count_1_disk_target_default_test_directory_iops'',
     ''fio_type_sequential_write_engine_linux_aio_direct_yes_block_size_1mb_job_count_1_disk_target_default_test_directory_mb_per_s'',
     ''fio_type_sequential_write_engine_linux_aio_direct_yes_block_size_1mb_job_count_1_disk_target_default_test_directory_iops'',
     ''fio_type_random_read_engine_linux_aio_direct_yes_block_size_4kb_job_count_1_disk_target_default_test_directory_mb_per_s'',
     ''fio_type_random_read_engine_linux_aio_direct_yes_block_size_4kb_job_count_1_disk_target_default_test_directory_iops'',
     ''fio_type_random_write_engine_linux_aio_direct_yes_block_size_4kb_job_count_1_disk_target_default_test_directory_mb_per_s'',
     ''fio_type_random_write_engine_linux_aio_direct_yes_block_size_4kb_job_count_1_disk_target_default_test_directory_iops'',
     ''fio_type_sequential_read_engine_linux_aio_direct_no_block_size_1mb_job_count_1_disk_target_default_test_directory_mb_per_s'',
     ''fio_type_sequential_read_engine_linux_aio_direct_no_block_size_1mb_job_count_1_disk_target_default_test_directory_iops'',
     ''fio_type_sequential_write_engine_linux_aio_direct_no_block_size_1mb_job_count_1_disk_target_default_test_directory_mb_per_s'',
     ''fio_type_sequential_write_engine_linux_aio_direct_no_block_size_1mb_job_count_1_disk_target_default_test_directory_iops'',
     ''fio_type_random_read_engine_linux_aio_direct_no_block_size_4kb_job_count_1_disk_target_default_test_directory_mb_per_s'',
     ''fio_type_random_read_engine_linux_aio_direct_no_block_size_4kb_job_count_1_disk_target_default_test_directory_iops'',
     ''fio_type_random_write_engine_linux_aio_direct_no_block_size_4kb_job_count_1_disk_target_default_test_directory_mb_per_s'',
     ''fio_type_random_write_engine_linux_aio_direct_no_block_size_4kb_job_count_1_disk_target_default_test_directory_iops'']"

text \<open>\<open>String.prototype.includes\<close>, and \<open>replace\<close> of the first occurrence.\<close>

fun starts_with :: "string \<Rightarrow> string \<Rightarrow> bool" where
  "starts_with s [] = True"
| "starts_with [] (c # cs) = False"
| "starts_with (d # ds) (c # cs) = (c = d \<and> starts_with ds cs)"

fun contains_sub :: "string \<Rightarrow> string \<Rightarrow> bool" where
  "contains_sub [] t = (t = [])"
| "contains_sub (c # cs) t = (starts_with (c # cs) t \<or> contains_sub cs t)"

fun replace_first :: "string \<Rightarrow> string \<Rightarrow> string \<Rightarrow> string" where
  "replace_first t u [] = (if t = [] then u else [])"
| "replace_first t u (c # cs) =
     (if starts_with (c # cs) t then u @ drop (length t) (c # cs) else c # replace_first t u cs)"

definition fioModeTwin :: "string \<Rightarrow> string option" where
  "fioModeTwin metricId =
     (if \<not> starts_with metricId ''fio_'' then None
      else if contains_sub metricId ''_direct_yes_'' then Some (replace_first ''_direct_yes_'' ''_direct_no_'' metricId)
      else if contains_sub metricId ''_direct_no_'' then Some (replace_first ''_direct_no_'' ''_direct_yes_'' metricId)
      else None)"

definition diskFioMetrics :: "fio_direct_mode \<Rightarrow> string list" where
  "diskFioMetrics mode = filter (\<lambda>i. contains_sub i (fioDirectToken mode)) FIO_SCENARIO_METRICS"

definition mode_string :: "fio_direct_mode \<Rightarrow> string" where
  "mode_string mode = (case mode of Yes \<Rightarrow> ''Yes'' | No \<Rightarrow> ''No'')"

definition diskSuiteCommand :: "fio_direct_mode \<Rightarrow> string" where
  "diskSuiteCommand mode = ''BENCH_FIO_DIRECT='' @ mode_string mode @ '' mise run benchmark:disk:all''"

text \<open>The probe targets of \<open>network-probe-metrics.ts\<close>: id, url or domain, label.\<close>

record probe_target =
  pt_id :: string
  pt_key :: string
  pt_label :: string

definition NETWORK_LATENCY_TARGETS :: "probe_target list" where
  "NETWORK_LATENCY_TARGETS =
    [\<lparr>pt_id = ''network_https_github_com_total_ms'', pt_key = ''https://github.com/'', pt_label = ''github.com HTTPS''\<rparr>,
     \<lparr>pt_id = ''network_https_api_github_com_total_ms'', pt_key = ''https://api.github.com/'', pt_label = ''api.github.com HTTPS''\<rparr>,
     \<lparr>pt_id = ''network_https_raw_githubusercontent_com_total_ms'', pt_key = ''https://raw.githubusercontent.com/'', pt_label = ''raw.githubusercontent.com HTTPS''\<rparr>,
     \<lparr>pt_id = ''network_https_registry_npmjs_org_total_ms'', pt_key = ''https://registry.npmjs.org/'', pt_label = ''registry.npmjs.org HTTPS''\<rparr>,
     \<lparr>pt_id = ''network_https_pypi_org_total_ms'', pt_key = ''https://pypi.org/'', pt_label = ''pypi.org HTTPS''\<rparr>,
     \<lparr>pt_id = ''network_https_files_pythonhosted_org_total_ms'', pt_key = ''https://files.pythonhosted.org/'', pt_label = ''files.pythonhosted.org HTTPS''\<rparr>,
     \<lparr>pt_id = ''network_https_ghcr_io_v2_total_ms'', pt_key = ''https://ghcr.io/v2/'', pt_label = ''ghcr.io/v2 HTTPS''\<rparr>,
     \<lparr>pt_id = ''network_https_gcr_io_v2_total_ms'', pt_key = ''https://gcr.io/v2/'', pt_label = ''gcr.io/v2 HTTPS''\<rparr>,
     \<lparr>pt_id = ''network_https_auth_docker_io_registry_token_total_ms'', pt_key = ''https://auth.docker.io/token?service=registry.docker.io'', pt_label = ''auth.docker.io token HTTPS''\<rparr>,
     \<lparr>pt_id = ''network_https_crates_io_total_ms'', pt_key = ''https://crates.io/'', pt_label = ''crates.io HTTPS''\<rparr>,
     \<lparr>pt_id = ''network_https_index_crates_io_config_total_ms'', pt_key = ''https://index.crates.io/config.json'', pt_label = ''index.crates.io config HTTPS''\<rparr>]"

definition NETWORK_DNS_TARGETS :: "probe_target list" where
  "NETWORK_DNS_TARGETS =
    [\<lparr>pt_id = ''network_dns_cold_github_com_ms'', pt_key = ''github.com'', pt_label = ''github.com cold DNS''\<rparr>,
     \<lparr>pt_id = ''network_dns_cold_registry_npmjs_org_ms'', pt_key = ''registry.npmjs.org'', pt_label = ''registry.npmjs.org cold DNS''\<rparr>,
     \<lparr>pt_id = ''network_dns_cold_docker_io_ms'', pt_key = ''docker.io'', pt_label = ''docker.io cold DNS''\<rparr>,
     \<lparr>pt_id = ''network_dns_cold_pypi_org_ms'', pt_key = ''pypi.org'', pt_label = ''pypi.org cold DNS''\<rparr>,
     \<lparr>pt_id = ''network_dns_cold_rubygems_org_ms'', pt_key = ''rubygems.org'', pt_label = ''rubygems.org cold DNS''\<rparr>]"

definition NETWORK_DOWNLOAD_TARGET :: probe_target where
  "NETWORK_DOWNLOAD_TARGET = \<lparr>pt_id = ''network_download_node_v22_23_1_linux_x64_mbits_per_sec'', pt_key = ''https://nodejs.org/dist/v22.23.1/node-v22.23.1-linux-x64.tar.gz'', pt_label = ''Node 22 download''\<rparr>"

definition NETWORK_PROBE_METRIC_IDS :: "string list" where
  "NETWORK_PROBE_METRIC_IDS =
     map pt_id NETWORK_LATENCY_TARGETS @ map pt_id NETWORK_DNS_TARGETS @ [pt_id NETWORK_DOWNLOAD_TARGET]"

text \<open>\<open>uniqueTargets\<close>: the first repeated id or key rejects the table.\<close>

fun unique_targets :: "string \<Rightarrow> string list \<Rightarrow> string list \<Rightarrow> probe_target list \<Rightarrow> string + unit" where
  "unique_targets key ids keys [] = Inr ()"
| "unique_targets key ids keys (t # ts) =
     (if pt_id t \<in> set ids then Inl (''unique ids (repeated '' @ pt_id t @ '')'')
      else if pt_key t \<in> set keys then Inl (''unique '' @ key @ ''s (repeated '' @ pt_key t @ '')'')
      else unique_targets key (pt_id t # ids) (pt_key t # keys) ts)"

record suite =
  wave :: benchmark_wave
  setupPts :: bool
  setupNode :: bool
  setupJc :: bool
  commandTimeoutMinutes :: nat
  timeoutMinutes :: nat
  minDiskGb :: "nat option"
  ptsTimesToRun :: "nat option"
  ptsConverge :: bool
  defaultReplicas :: "nat option"
  dimensions :: "dimension list"
  suite_metrics :: "string list"
  suite_commands :: "string list"

definition SUITES :: "(string \<times> suite) list" where
  "SUITES =
    [(''cpu-node'', \<lparr>wave = SyntheticSystem, setupPts = True, setupNode = True, setupJc = False,
       commandTimeoutMinutes = 75, timeoutMinutes = 85, minDiskGb = None, ptsTimesToRun = Some 2,
       ptsConverge = True, defaultReplicas = Some 5, dimensions = [Cpu],
       suite_metrics = [''node_web_tooling_runs_per_s''],
       suite_commands = [''mise run benchmark:cpu:node'']\<rparr>),
     (''system'', \<lparr>wave = SyntheticSystem, setupPts = True, setupNode = False, setupJc = False,
       commandTimeoutMinutes = 55, timeoutMinutes = 65, minDiskGb = Some 5, ptsTimesToRun = Some 2,
       ptsConverge = False, defaultReplicas = Some 3, dimensions = [System],
       suite_metrics = [''pybench_milliseconds'',
         ''sqlite_speedtest_seconds'',
         ''git_seconds''],
       suite_commands = [''mise run benchmark:system:all'']\<rparr>),
     (''pgbench'', \<lparr>wave = SyntheticSystem, setupPts = True, setupNode = False, setupJc = False,
       commandTimeoutMinutes = 75, timeoutMinutes = 85, minDiskGb = Some 5, ptsTimesToRun = Some 2,
       ptsConverge = False, defaultReplicas = Some 3, dimensions = [System],
       suite_metrics = [''pgbench_scaling_factor_100_clients_50_mode_read_only'',
         ''pgbench_scaling_factor_100_clients_50_mode_read_only_average_latency'',
         ''pgbench_scaling_factor_100_clients_50_mode_read_write'',
         ''pgbench_scaling_factor_100_clients_50_mode_read_write_average_latency''],
       suite_commands = [''mise run benchmark:pgbench:all'']\<rparr>),
     (''memory'', \<lparr>wave = SyntheticMemory, setupPts = True, setupNode = False, setupJc = False,
       commandTimeoutMinutes = 30, timeoutMinutes = 40, minDiskGb = None, ptsTimesToRun = Some 2,
       ptsConverge = True, defaultReplicas = Some 3, dimensions = [Memory],
       suite_metrics = [''stream_type_copy'',
         ''stream_type_scale'',
         ''stream_type_add'',
         ''stream_type_triad''],
       suite_commands = [''mise run benchmark:memory:all'']\<rparr>),
     (''disk'', \<lparr>wave = SyntheticSystem, setupPts = True, setupNode = False, setupJc = False,
       commandTimeoutMinutes = 65, timeoutMinutes = 75, minDiskGb = Some 4, ptsTimesToRun = Some 2,
       ptsConverge = False, defaultReplicas = Some 3, dimensions = [Disk],
       suite_metrics = ''hardlink_bogo_ops_per_s'' # diskFioMetrics DISK_FIO_DIRECT,
       suite_commands = [diskSuiteCommand DISK_FIO_DIRECT]\<rparr>),
     (''network'', \<lparr>wave = SyntheticSystem, setupPts = True, setupNode = False, setupJc = True,
       commandTimeoutMinutes = 30, timeoutMinutes = 40, minDiskGb = None, ptsTimesToRun = Some 2,
       ptsConverge = False, defaultReplicas = Some 3, dimensions = [Network],
       suite_metrics = [''iperf_server_address_localhost_server_port_5201_duration_10_seconds_test_tcp_parallel_1'',
         ''iperf_server_address_localhost_server_port_5201_duration_10_seconds_test_tcp_parallel_10'',
         ''iperf_server_address_localhost_server_port_5201_duration_10_seconds_test_udp_10000mbit_objective_parallel_1'',
         ''iperf_wan_direction_download'',
         ''iperf_wan_direction_upload''] @
         NETWORK_PROBE_METRIC_IDS,
       suite_commands = [''mise run benchmark:network:suite'']\<rparr>),
     (''realworld-mastra'', \<lparr>wave = Realworld, setupPts = True, setupNode = True, setupJc = False,
       commandTimeoutMinutes = 80, timeoutMinutes = 90, minDiskGb = Some 30, ptsTimesToRun = Some 1,
       ptsConverge = False, defaultReplicas = Some 12, dimensions = [RealworldDimension],
       suite_metrics = [''realworld_mastra_task_git_clone'',
         ''realworld_mastra_task_cold_install'',
         ''realworld_mastra_task_lint_format'',
         ''realworld_mastra_task_build_core'',
         ''realworld_mastra_task_test_core''],
       suite_commands = [''REALWORLD_TASK_TIMEOUT_SECONDS=2400 mise run benchmark:realworld:pts:mastra'']\<rparr>),
     (''realworld-better-auth'', \<lparr>wave = Realworld, setupPts = True, setupNode = True, setupJc = False,
       commandTimeoutMinutes = 80, timeoutMinutes = 90, minDiskGb = Some 10, ptsTimesToRun = Some 1,
       ptsConverge = False, defaultReplicas = Some 12, dimensions = [RealworldDimension],
       suite_metrics = [''realworld_better_auth_task_git_clone'',
         ''realworld_better_auth_task_cold_install'',
         ''realworld_better_auth_task_lint_biome'',
         ''realworld_better_auth_task_lint_deps_knip'',
         ''realworld_better_auth_task_lint_format'',
         ''realworld_better_auth_task_lint_spell'',
         ''realworld_better_auth_task_lint_types'',
         ''realworld_better_auth_task_lint_packages'',
         ''realworld_better_auth_task_typecheck'',
         ''realworld_better_auth_task_build''],
       suite_commands = [''mise run benchmark:realworld:pts:better-auth'']\<rparr>),
     (''realworld-openclaw'', \<lparr>wave = Realworld, setupPts = True, setupNode = True, setupJc = False,
       commandTimeoutMinutes = 80, timeoutMinutes = 90, minDiskGb = Some 25, ptsTimesToRun = Some 1,
       ptsConverge = False, defaultReplicas = Some 12, dimensions = [RealworldDimension],
       suite_metrics = [''realworld_openclaw_task_git_clone'',
         ''realworld_openclaw_task_cold_install'',
         ''realworld_openclaw_task_lint_oxlint'',
         ''realworld_openclaw_task_lint_extensions_all'',
         ''realworld_openclaw_task_typecheck'',
         ''realworld_openclaw_task_test_types''],
       suite_commands = [''mise run benchmark:realworld:pts:openclaw'']\<rparr>)]"

text \<open>\<open>None\<close> is the throw for a suite the registry does not have.\<close>

definition benchmarkWave :: "string \<Rightarrow> benchmark_wave option" where
  "benchmarkWave name = map_option wave (map_of SUITES name)"

definition WORKFLOW_TIMEOUT_MARGIN_MINUTES :: nat where
  "WORKFLOW_TIMEOUT_MARGIN_MINUTES = 15"

definition BENCH_JOB_CEILING_MINUTES :: nat where
  "BENCH_JOB_CEILING_MINUTES = 330"

section \<open>The contract between suites and the catalog\<close>

datatype suite_contract_violation =
    Uncatalogued string string
  | OffDimension string string dimension
  | EmptyDimension string dimension

record suite_contract =
  sc_dimensions :: "dimension list"
  sc_metrics :: "string list"

datatype direction = HIB | LIB

record pts_source =
  pts_test :: string
  pts_description :: "string option"
  pts_scale :: "string option"

text \<open>\<open>metricDefSchema\<close>, less the label, the description and the source link.\<close>

record metric_def =
  md_id :: string
  md_dimension :: dimension
  md_unit :: string
  md_direction :: direction
  md_headline :: bool
  md_pts :: "pts_source option"
  md_derived :: bool

text \<open>\<open>new Map(catalog.map(...))\<close>: a repeated id keeps its last entry.\<close>

definition dimensionById :: "metric_def list \<Rightarrow> string \<Rightarrow> dimension option" where
  "dimensionById catalog = map_of (rev (map (\<lambda>m. (md_id m, md_dimension m)) catalog))"

text \<open>The metrics of one suite, with the set of the dimensions covered so far.\<close>

fun metric_violations :: "(string \<Rightarrow> dimension option) \<Rightarrow> string \<Rightarrow> dimension list \<Rightarrow> string list \<Rightarrow>
  dimension list \<Rightarrow> suite_contract_violation list \<times> dimension list" where
  "metric_violations dims name declared [] covered = ([], covered)"
| "metric_violations dims name declared (m # ms) covered =
     (case dims m of
        None \<Rightarrow> (let (vs, c) = metric_violations dims name declared ms covered in (Uncatalogued name m # vs, c))
      | Some d \<Rightarrow>
          if d \<notin> set declared
          then (let (vs, c) = metric_violations dims name declared ms covered in (OffDimension name m d # vs, c))
          else metric_violations dims name declared ms (covered @ [d]))"

text \<open>A set filled from a list iterates in the order of first insertion.\<close>

definition insertion_order :: "'a list \<Rightarrow> 'a list" where
  "insertion_order xs = rev (remdups (rev xs))"

lemma set_insertion_order [simp]: "set (insertion_order xs) = set xs"
  by (simp add: insertion_order_def)

lemma distinct_insertion_order [simp]: "distinct (insertion_order xs)"
  by (simp add: insertion_order_def)

lemma insertion_order_Nil [simp]: "insertion_order [] = []"
  by (simp add: insertion_order_def)

lemma insertion_order_snoc:
  "insertion_order (xs @ [x]) = (if x \<in> set xs then insertion_order xs else insertion_order xs @ [x])"
  by (simp add: insertion_order_def)

definition one_suite_violations :: "(string \<Rightarrow> dimension option) \<Rightarrow> string \<times> suite_contract \<Rightarrow> suite_contract_violation list" where
  "one_suite_violations dims entry =
     (case entry of (name, contract) \<Rightarrow>
        let declared = insertion_order (sc_dimensions contract);
            (vs, covered) = metric_violations dims name declared (sc_metrics contract) []
        in vs @ map (EmptyDimension name) (filter (\<lambda>d. d \<notin> set covered) declared))"

definition suiteContractViolations :: "(string \<times> suite_contract) list \<Rightarrow> metric_def list \<Rightarrow> suite_contract_violation list" where
  "suiteContractViolations suites catalog =
     concat (map (one_suite_violations (dimensionById catalog)) suites)"

definition dimension_string :: "dimension \<Rightarrow> string" where
  "dimension_string d =
     (case d of Lifecycle \<Rightarrow> ''lifecycle'' | ControlPlane \<Rightarrow> ''control-plane'' | Cpu \<Rightarrow> ''cpu'' | Disk \<Rightarrow> ''disk''
      | Memory \<Rightarrow> ''memory'' | Network \<Rightarrow> ''network'' | System \<Rightarrow> ''system''
      | RealworldDimension \<Rightarrow> ''realworld'' | Economics \<Rightarrow> ''economics'')"

definition quoted :: "string \<Rightarrow> string" where
  "quoted s = [CHR 0x22] @ s @ [CHR 0x22]"

fun describeSuiteContractViolation :: "suite_contract_violation \<Rightarrow> string" where
  "describeSuiteContractViolation (Uncatalogued name m) =
     ''suite '' @ quoted name @ '' declares metric '' @ quoted m @ '', which is not in the Metric Catalog''"
| "describeSuiteContractViolation (OffDimension name m d) =
     ''suite '' @ quoted name @ '' declares metric '' @ quoted m @ '' on undeclared dimension '' @ quoted (dimension_string d)"
| "describeSuiteContractViolation (EmptyDimension name d) =
     ''suite '' @ quoted name @ '' declares dimension '' @ quoted (dimension_string d) @ '' but emits no metric on it''"

definition assertSuiteContract :: "(string \<times> suite_contract) list \<Rightarrow> metric_def list \<Rightarrow> suite_contract_violation list + unit" where
  "assertSuiteContract suites catalog =
     (let violations = suiteContractViolations suites catalog
      in if violations = [] then Inr () else Inl violations)"

text \<open>The runtime half: what a suite emitted on a dimension that it does not declare.\<close>

fun emission_loop :: "(string \<Rightarrow> dimension option) \<Rightarrow> dimension list \<Rightarrow> string list \<Rightarrow> string list \<Rightarrow> (string \<times> dimension) list" where
  "emission_loop dims declared [] seen = []"
| "emission_loop dims declared (m # ms) seen =
     (if m \<in> set seen then emission_loop dims declared ms seen
      else case dims m of
             None \<Rightarrow> emission_loop dims declared ms (m # seen)
           | Some d \<Rightarrow>
               if d \<in> set declared then emission_loop dims declared ms (m # seen)
               else (m, d) # emission_loop dims declared ms (m # seen))"

definition offDimensionEmissions :: "string \<Rightarrow> string list \<Rightarrow> (string \<times> suite_contract) list \<Rightarrow> metric_def list \<Rightarrow> (string \<times> dimension) list" where
  "offDimensionEmissions name emitted suites catalog =
     (case map_of suites name of
        None \<Rightarrow> []
      | Some contract \<Rightarrow> emission_loop (dimensionById catalog) (sc_dimensions contract) emitted [])"

section \<open>Lemmas\<close>

lemma metric_violations_spec:
  "metric_violations dims name declared ms covered = (vs, c) \<Longrightarrow>
   (vs = [] \<longleftrightarrow> (\<forall>m\<in>set ms. \<exists>d\<in>set declared. dims m = Some d)) \<and>
   set c = set covered \<union> {d \<in> set declared. \<exists>m\<in>set ms. dims m = Some d}"
proof (induction ms arbitrary: covered vs c)
  case (Cons m ms)
  then show ?case
    by (auto split: option.splits if_splits prod.splits)
qed auto

lemma one_suite_violations_empty:
  "one_suite_violations dims (name, contract) = [] \<longleftrightarrow>
     (\<forall>m\<in>set (sc_metrics contract). \<exists>d\<in>set (sc_dimensions contract). dims m = Some d) \<and>
     (\<forall>d\<in>set (sc_dimensions contract). \<exists>m\<in>set (sc_metrics contract). dims m = Some d)"
proof -
  obtain vs c where r: "metric_violations dims name (insertion_order (sc_dimensions contract)) (sc_metrics contract) [] = (vs, c)"
    by fastforce
  show ?thesis
    using metric_violations_spec[OF r] r
    by (auto simp: one_suite_violations_def filter_empty_conv)
qed

lemma emission_loop_spec:
  "set (emission_loop dims declared ms seen) =
     {(m, d). m \<in> set ms - set seen \<and> dims m = Some d \<and> d \<notin> set declared} \<and>
   distinct (map fst (emission_loop dims declared ms seen))"
proof (induction ms arbitrary: seen)
  case (Cons m ms)
  have "fst ` set (emission_loop dims declared ms (m # seen)) \<subseteq> - {m}"
    using Cons[of "m # seen"] by auto
  then show ?case using Cons[of seen] Cons[of "m # seen"] by (auto split: option.splits)
qed simp

section \<open>Properties\<close>

text \<open>
  The load check of the registries passes exactly when every metric a suite declares is
  catalogued on one of the suite's dimensions and every dimension of a suite is backed by one of its
  metrics.
\<close>

theorem assertSuiteContract_iff:
  "assertSuiteContract suites catalog = Inr () \<longleftrightarrow>
     (\<forall>(name, c)\<in>set suites.
        (\<forall>m\<in>set (sc_metrics c). \<exists>d\<in>set (sc_dimensions c). dimensionById catalog m = Some d) \<and>
        (\<forall>d\<in>set (sc_dimensions c). \<exists>m\<in>set (sc_metrics c). dimensionById catalog m = Some d))"
proof -
  have "assertSuiteContract suites catalog = Inr () \<longleftrightarrow>
      (\<forall>(name, c)\<in>set suites. one_suite_violations (dimensionById catalog) (name, c) = [])"
    by (auto simp: assertSuiteContract_def suiteContractViolations_def Let_def)
  then show ?thesis by (simp only: one_suite_violations_empty)
qed

theorem assertSuiteContract_iff_witness:
  "assertSuiteContract [(''s'', \<lparr>sc_dimensions = [Cpu], sc_metrics = [''m'']\<rparr>)] [\<lparr>md_id = ''m'', md_dimension = Cpu, md_unit = ''ms'', md_direction = LIB, md_headline = True, md_pts = None, md_derived = False\<rparr>] = Inr ()"
  unfolding assertSuiteContract_iff by (simp add: dimensionById_def)

text \<open>
  The runtime check reports each off-dimension metric of a registered suite exactly once, skipping
  ids outside the catalog.
\<close>

theorem offDimensionEmissions_exact:
  "set (offDimensionEmissions name emitted suites catalog) =
     {(m, d). m \<in> set emitted \<and> dimensionById catalog m = Some d \<and>
        (\<exists>c. map_of suites name = Some c \<and> d \<notin> set (sc_dimensions c))} \<and>
   distinct (map fst (offDimensionEmissions name emitted suites catalog))"
  using emission_loop_spec[of "dimensionById catalog" _ emitted "[]"]
  by (auto simp: offDimensionEmissions_def split: option.splits)

text \<open>
  Every registered suite fits one job with the host margin, leaves its command room inside the
  sandbox lifetime, runs at least one replica, and only STREAM is collected in the first wave.
\<close>

theorem registry_fits_one_job:
  "distinct (map fst SUITES) \<and>
   (\<forall>(name, s)\<in>set SUITES.
      commandTimeoutMinutes s < timeoutMinutes s \<and>
      timeoutMinutes s + WORKFLOW_TIMEOUT_MARGIN_MINUTES \<le> BENCH_JOB_CEILING_MINUTES \<and>
      (\<exists>r. defaultReplicas s = Some r \<and> 0 < r) \<and>
      (benchmarkWave name = Some SyntheticMemory \<longleftrightarrow> name = ''memory''))"
  by (simp add: SUITES_def benchmarkWave_def WORKFLOW_TIMEOUT_MARGIN_MINUTES_def BENCH_JOB_CEILING_MINUTES_def)

text \<open>
  The two fio modes name the same scenarios: each scenario of one mode has its twin in the other, at
  the same place of the list, and the disk suite runs exactly the scenarios of the fixed mode.
\<close>

theorem fio_scenarios_paired:
  "map fioModeTwin (diskFioMetrics Yes) = map Some (diskFioMetrics No) \<and>
   map fioModeTwin (diskFioMetrics No) = map Some (diskFioMetrics Yes) \<and>
   set FIO_SCENARIO_METRICS = set (diskFioMetrics Yes) \<union> set (diskFioMetrics No) \<and>
   distinct FIO_SCENARIO_METRICS"
proof -
  have "map fioModeTwin (diskFioMetrics Yes) = map Some (diskFioMetrics No)" by code_simp
  moreover have "map fioModeTwin (diskFioMetrics No) = map Some (diskFioMetrics Yes)" by code_simp
  moreover have "list_all (\<lambda>i. contains_sub i (fioDirectToken Yes) \<or> contains_sub i (fioDirectToken No)) FIO_SCENARIO_METRICS"
    by code_simp
  then have "set FIO_SCENARIO_METRICS = set (diskFioMetrics Yes) \<union> set (diskFioMetrics No)"
    by (auto simp: diskFioMetrics_def list_all_iff)
  moreover have "distinct FIO_SCENARIO_METRICS" by code_simp
  ultimately show ?thesis by blast
qed

text \<open>A target table is accepted exactly when no id and no key repeats; the tables of the catalog are.\<close>

lemma unique_targets_iff:
  "unique_targets key ids keys ts = Inr () \<longleftrightarrow>
     distinct (map pt_id ts) \<and> set (map pt_id ts) \<inter> set ids = {} \<and>
     distinct (map pt_key ts) \<and> set (map pt_key ts) \<inter> set keys = {}"
  by (induction ts arbitrary: ids keys) auto

theorem probe_tables_unique:
  "unique_targets ''url'' [] [] NETWORK_LATENCY_TARGETS = Inr () \<and> unique_targets ''domain'' [] [] NETWORK_DNS_TARGETS = Inr () \<and>
   distinct NETWORK_PROBE_METRIC_IDS"
proof -
  have "unique_targets ''url'' [] [] NETWORK_LATENCY_TARGETS = Inr ()" by code_simp
  moreover have "unique_targets ''domain'' [] [] NETWORK_DNS_TARGETS = Inr ()" by code_simp
  moreover have "distinct NETWORK_PROBE_METRIC_IDS" by code_simp
  ultimately show ?thesis by blast
qed

end
