(* ===== verification/PlanModel.thy ===== *)
theory PlanModel
  imports Suites
begin

text \<open>
  The experiment plan as data (\<open>packages/schema/src/experiment.ts\<close>) and what planning and
  verification share: the bounds of the schemas, eligibility, calendar dates, decimal numerals,
  grouping by key and chunking. The identifier and date patterns of the arktype parsers are not
  modelled: a record here has the fields its parser requires, and \<open>cell_schema\<close>,
  \<open>capacity_schema\<close> and \<open>batch_schema\<close> state the bounds on the values.
\<close>

section \<open>Data\<close>

record target_spec =
  vcpus :: real
  memoryGb :: real
  diskGb :: "real option"

record gpu_spec =
  gpu_model :: string
  gpu_count :: nat

record experiment_exclusion =
  ex_metricId :: string
  ex_workloadRevision :: string
  ex_reason :: string
  ex_owner :: string
  ex_issue :: string
  ex_expires :: string

record experiment_cell =
  c_id :: string
  c_provider :: string
  c_quotaDomain :: string
  c_suite :: string
  c_replicate :: nat
  c_workloadRevision :: string
  c_artifactIdentity :: string
  c_environmentRevision :: string
  c_target :: target_spec
  c_gpu :: "gpu_spec option"
  c_metrics :: "string list"
  c_exclusions :: "experiment_exclusion list"
  c_passes :: nat
  c_startupMinutes :: real
  c_workloadMinutes :: real
  c_finishMinutes :: real

record account_capacity =
  cap_sandboxes :: jsnum
  cap_vcpus :: "jsnum option"
  cap_memoryGb :: "jsnum option"
  cap_gpus :: "nat option"

record experiment_account =
  acc_quotaDomain :: string
  acc_capacity :: account_capacity

record experiment_batch =
  b_id :: string
  b_quotaDomain :: string
  b_wave :: "benchmark_wave option"
  b_cells :: "string list"
  b_maxConcurrency :: nat
  b_budgetMinutes :: real

record experiment_round =
  r_id :: string
  r_quotaDomain :: string
  r_wave :: "benchmark_wave option"
  r_batches :: "string list"

text \<open>The body that the digest covers, and the plan with its digest.\<close>

record plan_body =
  p_id :: string
  p_sha :: string
  p_createdOn :: string
  p_cells :: "experiment_cell list"
  p_batches :: "experiment_batch list"
  p_accounts :: "experiment_account list"
  p_rounds :: "experiment_round list"
  p_maxPremeasurementRetries :: nat

record experiment_plan = plan_body +
  p_digest :: string

text \<open>
  What the code takes from outside these components: \<open>evidenceDigest\<close> (SHA-256 of the canonical
  JSON) for each shape of value that is digested, the sort key of \<open>localeCompare\<close>, and the vendor a
  provider is registered under.
\<close>

record services =
  targetDigest :: "target_spec \<Rightarrow> string"
  allocationDigest :: "string \<times> target_spec \<times> gpu_spec option \<times> string \<times> real \<Rightarrow> string"
  cohortDigest :: "string \<times> string list \<times> experiment_exclusion list \<times> string \<times> nat \<Rightarrow> string"
  planDigest :: "plan_body \<Rightarrow> string"
  collation :: "string \<Rightarrow> string"
  vendorOf :: "string \<Rightarrow> string"

datatype plan_error =
    InvalidCapacity string
  | TargetExceedsCapacity string
  | ReplicateTooLong string
  | UnknownSuite string
  | SchemaRejected
  | PlanDigestMismatch
  | InvalidCreationDate
  | MixedTargets
  | SplitVendor string
  | DuplicateCell
  | DuplicateLogicalReplicate
  | NoEligibleWork
  | DuplicateQuotaDomain
  | InvalidBatchCapacity string
  | DuplicateBatch
  | InvalidBatchAssignment string
  | BatchMixesWaves string
  | BatchWaveDisagrees string
  | BatchesOutOfOrder string
  | BatchExceedsBudget string
  | CellsMissingFromBatches
  | InvalidRound string
  | InvalidRoundAssignment string
  | RoundMixesWaves string
  | RoundWaveDisagrees string
  | RoundsOutOfOrder string
  | BatchesMissingFromRounds
  | InconsistentCohort string
  | DuplicateRequiredMetric
  | InvalidExclusion string string

section \<open>Eligibility\<close>

definition excluded_metric :: "experiment_cell \<Rightarrow> string \<Rightarrow> bool" where
  "excluded_metric cell metric \<longleftrightarrow> list_ex (\<lambda>entry. ex_metricId entry = metric) (c_exclusions cell)"

definition cell_eligible :: "experiment_cell \<Rightarrow> bool" where
  "cell_eligible cell \<longleftrightarrow> list_ex (\<lambda>metric. \<not> excluded_metric cell metric) (c_metrics cell)"

definition suite_wave :: "experiment_cell \<Rightarrow> plan_error + benchmark_wave" where
  "suite_wave cell =
     (case benchmarkWave (c_suite cell) of None \<Rightarrow> Inl (UnknownSuite (c_suite cell)) | Some w \<Rightarrow> Inr w)"

text \<open>\<open>startupMinutes + workloadMinutes + finishMinutes + 15\<close>.\<close>

definition cell_budget :: "experiment_cell \<Rightarrow> real" where
  "cell_budget cell = c_startupMinutes cell + c_workloadMinutes cell + c_finishMinutes cell + 15"

section \<open>Decimal numerals\<close>

definition digit_char :: "nat \<Rightarrow> char" where
  "digit_char d = char_of (48 + d)"

fun nat_string :: "nat \<Rightarrow> string" where
  "nat_string n = (if n < 10 then [digit_char n] else nat_string (n div 10) @ [digit_char (n mod 10)])"

declare nat_string.simps [simp del]

definition digit_value :: "char \<Rightarrow> nat" where
  "digit_value c = of_char c - 48"

definition string_nat :: "string \<Rightarrow> nat" where
  "string_nat s = foldl (\<lambda>n c. 10 * n + digit_value c) 0 s"

lemma digit_value_char: "d < 10 \<Longrightarrow> digit_value (digit_char d) = d"
  by (simp add: digit_value_def digit_char_def)

lemma string_nat_string: "string_nat (nat_string n) = n"
proof (induction n rule: nat_string.induct)
  case (1 n)
  show ?case
  proof (cases "n < 10")
    case True
    then show ?thesis by (subst nat_string.simps) (simp add: string_nat_def digit_value_char)
  next
    case False
    then show ?thesis
      using 1 by (subst nat_string.simps) (simp add: string_nat_def digit_value_char)
  qed
qed

lemma nat_string_inj [simp]: "nat_string m = nat_string n \<longleftrightarrow> m = n"
  by (metis string_nat_string)

section \<open>Dates\<close>

definition is_digit :: "char \<Rightarrow> bool" where
  "is_digit c \<longleftrightarrow> 48 \<le> (of_char c :: nat) \<and> (of_char c :: nat) \<le> 57"

definition leap_year :: "nat \<Rightarrow> bool" where
  "leap_year y \<longleftrightarrow> (4 dvd y \<and> \<not> 100 dvd y) \<or> 400 dvd y"

definition days_in_month :: "nat \<Rightarrow> nat \<Rightarrow> nat" where
  "days_in_month y m =
     (if m = 2 then (if leap_year y then 29 else 28)
      else if m \<in> {4, 6, 9, 11} then 30 else 31)"

text \<open>A \<open>YYYY-MM-DD\<close> string that \<open>Date\<close> parses and prints back unchanged.\<close>

definition validDate :: "string \<Rightarrow> bool" where
  "validDate date \<longleftrightarrow>
     length date = 10 \<and> date ! 4 = CHR ''-'' \<and> date ! 7 = CHR ''-'' \<and>
     list_all is_digit (take 4 date) \<and> list_all is_digit (take 2 (drop 5 date)) \<and> list_all is_digit (drop 8 date) \<and>
     (let y = string_nat (take 4 date); m = string_nat (take 2 (drop 5 date)); d = string_nat (drop 8 date)
      in 1 \<le> m \<and> m \<le> 12 \<and> 1 \<le> d \<and> d \<le> days_in_month y m)"

section \<open>Capacities\<close>

text \<open>\<open>Number.MAX_SAFE_INTEGER\<close>, arktype's \<open>number.safe > 0\<close> and \<open>number.integer >= 1\<close>.\<close>

definition max_safe :: real where
  "max_safe = 2 ^ 53 - 1"

fun safe_positive :: "jsnum \<Rightarrow> bool" where
  "safe_positive (Fin x) = (0 < x \<and> x \<le> max_safe)"
| "safe_positive _ = False"

fun positive_integer :: "jsnum \<Rightarrow> bool" where
  "positive_integer (Fin x) = (x = of_int \<lfloor>x\<rfloor> \<and> 1 \<le> x)"
| "positive_integer _ = False"

definition capacity_schema :: "account_capacity \<Rightarrow> bool" where
  "capacity_schema capacity \<longleftrightarrow>
     positive_integer (cap_sandboxes capacity) \<and>
     pred_option safe_positive (cap_vcpus capacity) \<and> pred_option safe_positive (cap_memoryGb capacity)"

definition safe_minutes :: "real \<Rightarrow> bool" where
  "safe_minutes x \<longleftrightarrow> 0 < x \<and> x \<le> max_safe"

definition target_schema :: "target_spec \<Rightarrow> bool" where
  "target_schema t \<longleftrightarrow> safe_minutes (vcpus t) \<and> safe_minutes (memoryGb t) \<and> pred_option safe_minutes (diskGb t)"

definition gpu_schema :: "gpu_spec \<Rightarrow> bool" where
  "gpu_schema g \<longleftrightarrow> gpu_model g \<noteq> [] \<and> 0 < gpu_count g"

definition cell_schema :: "experiment_cell \<Rightarrow> bool" where
  "cell_schema cell \<longleftrightarrow>
     c_suite cell \<noteq> [] \<and> c_workloadRevision cell \<noteq> [] \<and> c_artifactIdentity cell \<noteq> [] \<and>
     c_environmentRevision cell \<noteq> [] \<and> target_schema (c_target cell) \<and> pred_option gpu_schema (c_gpu cell) \<and>
     c_metrics cell \<noteq> [] \<and> 1 \<le> c_passes cell \<and>
     safe_minutes (c_startupMinutes cell) \<and> safe_minutes (c_workloadMinutes cell) \<and>
     safe_minutes (c_finishMinutes cell)"

definition batch_schema :: "experiment_batch \<Rightarrow> bool" where
  "batch_schema batch \<longleftrightarrow> b_cells batch \<noteq> [] \<and> 1 \<le> b_maxConcurrency batch \<and> safe_minutes (b_budgetMinutes batch)"

text \<open>\<open>limit ?? Infinity\<close>, compared with a demand: absent is no limit.\<close>

fun exceeds :: "real \<Rightarrow> jsnum option \<Rightarrow> bool" where
  "exceeds demand None = False"
| "exceeds demand (Some (Fin limit)) = (limit < demand)"
| "exceeds demand (Some NaN) = False"
| "exceeds demand (Some (Infinite positive)) = (\<not> positive)"

section \<open>Grouping and chunking\<close>

text \<open>Groups in the order of their first member, the members in the order of the list.\<close>

fun add_to_group :: "'k \<Rightarrow> 'a \<Rightarrow> ('k \<times> 'a list) list \<Rightarrow> ('k \<times> 'a list) list" where
  "add_to_group k x [] = [(k, [x])]"
| "add_to_group k x ((k', xs) # gs) = (if k = k' then (k', xs @ [x]) # gs else (k', xs) # add_to_group k x gs)"

definition group_by :: "('a \<Rightarrow> 'k) \<Rightarrow> 'a list \<Rightarrow> ('k \<times> 'a list) list" where
  "group_by key xs = foldl (\<lambda>gs x. add_to_group (key x) x gs) [] xs"

lemma add_to_group_map:
  assumes "distinct ks"
  shows "add_to_group k x (map (\<lambda>k. (k, f k)) ks) =
    (if k \<in> set ks then map (\<lambda>j. (j, if j = k then f j @ [x] else f j)) ks
     else map (\<lambda>k. (k, f k)) ks @ [(k, [x])])"
  using assms by (induction ks) auto

lemma group_by_map:
  "group_by key xs = map (\<lambda>k. (k, filter (\<lambda>x. key x = k) xs)) (insertion_order (map key xs))"
proof (induction xs rule: rev_induct)
  case Nil
  then show ?case by (simp add: group_by_def)
next
  case (snoc x xs)
  have "group_by key (xs @ [x]) = add_to_group (key x) x (group_by key xs)" by (simp add: group_by_def)
  then show ?case
    using snoc by (auto simp: add_to_group_map insertion_order_snoc filter_empty_conv image_iff)
qed

text \<open>\<open>for (offset = 0; offset < length; offset += size) slice(offset, offset + size)\<close>.\<close>

function chunks :: "nat \<Rightarrow> 'a list \<Rightarrow> 'a list list" where
  "chunks n xs = (if xs = [] \<or> n = 0 then [] else take n xs # chunks n (drop n xs))"
  by pat_completeness auto
termination by (relation "measure (\<lambda>(n, xs). length xs)") auto

declare chunks.simps [simp del]

lemma concat_chunks: "0 < n \<Longrightarrow> concat (chunks n xs) = xs"
proof (induction n xs rule: chunks.induct)
  case (1 n xs)
  then show ?case by (subst chunks.simps) auto
qed

lemma chunks_mem: "c \<in> set (chunks n xs) \<Longrightarrow> c \<noteq> [] \<and> length c \<le> n \<and> set c \<subseteq> set xs"
proof (induction n xs arbitrary: c rule: chunks.induct)
  case (1 n xs)
  show ?case
  proof (cases "xs = [] \<or> n = 0")
    case True
    then show ?thesis using "1.prems" by (simp add: chunks.simps[of n xs])
  next
    case False
    then consider "c = take n xs" | "c \<in> set (chunks n (drop n xs))"
      using "1.prems" by (auto simp: chunks.simps[of n xs])
    then show ?thesis
    proof cases
      case 1
      then show ?thesis using False by (auto dest: in_set_takeD)
    next
      case 2
      then show ?thesis using "1.IH"[OF False, of c] by (auto dest: in_set_dropD)
    qed
  qed
qed

lemma chunks_nonempty: "0 < n \<Longrightarrow> xs \<noteq> [] \<Longrightarrow> chunks n xs \<noteq> []"
  by (subst chunks.simps) simp

end
