(* ===== verification/PlanVerifier.thy ===== *)
theory PlanVerifier
  imports PlanModel
begin

text \<open>
  \<open>verifyExperimentPlan\<close> of \<open>packages/results/src/lib/experiment.ts\<close>: the checks in the order of
  the code, each throw an error value. The lemmas give the state of the batch and round loops in
  closed form, the property the schedule of every accepted plan.
\<close>

section \<open>Cells\<close>

text \<open>The first loop: one target for all, one quota domain per vendor.\<close>

fun verify_targets :: "services \<Rightarrow> experiment_cell \<Rightarrow> (string \<rightharpoonup> string) \<Rightarrow> experiment_cell list \<Rightarrow> plan_error + unit" where
  "verify_targets S first quotaDomains [] = Inr ()"
| "verify_targets S first quotaDomains (cell # cells) =
     (if targetDigest S (c_target cell) \<noteq> targetDigest S (c_target first) then Inl MixedTargets
      else
        let vendor = vendorOf S (c_provider cell)
        in case quotaDomains vendor of
             Some q \<Rightarrow>
               if q \<noteq> c_quotaDomain cell then Inl (SplitVendor vendor)
               else verify_targets S first (quotaDomains(vendor \<mapsto> c_quotaDomain cell)) cells
           | None \<Rightarrow> verify_targets S first (quotaDomains(vendor \<mapsto> c_quotaDomain cell)) cells)"

definition logical_replicate :: "experiment_cell \<Rightarrow> string" where
  "logical_replicate cell = c_provider cell @ ''/'' @ c_suite cell @ ''/'' @ nat_string (c_replicate cell)"

definition find_cell :: "plan_body \<Rightarrow> string \<Rightarrow> experiment_cell option" where
  "find_cell plan i = map_of (map (\<lambda>c. (c_id c, c)) (p_cells plan)) i"

definition find_account :: "plan_body \<Rightarrow> string \<Rightarrow> account_capacity option" where
  "find_account plan q = map_of (map (\<lambda>a. (acc_quotaDomain a, acc_capacity a)) (p_accounts plan)) q"

section \<open>Batches\<close>

record batch_state =
  assigned :: "string set"
  batchIds :: "string set"
  batchWaves :: "string \<rightharpoonup> benchmark_wave"
  lastBatchWaveRank :: "string \<rightharpoonup> nat"

fun assign_cells :: "plan_body \<Rightarrow> experiment_batch \<Rightarrow> string set \<Rightarrow> string list \<Rightarrow> plan_error + string set" where
  "assign_cells plan batch seen [] = Inr seen"
| "assign_cells plan batch seen (i # ids) =
     (case find_cell plan i of
        None \<Rightarrow> Inl (InvalidBatchAssignment i)
      | Some cell \<Rightarrow>
          if \<not> cell_eligible cell \<or> i \<in> seen \<or> c_quotaDomain cell \<noteq> b_quotaDomain batch
          then Inl (InvalidBatchAssignment i)
          else assign_cells plan batch (insert i seen) ids)"

text \<open>The one element of \<open>new Set(waves)\<close>, or the error when it has none or several.\<close>

fun single_wave :: "plan_error \<Rightarrow> benchmark_wave list \<Rightarrow> plan_error + benchmark_wave" where
  "single_wave e ws = (case insertion_order ws of [w] \<Rightarrow> Inr w | _ \<Rightarrow> Inl e)"

declare single_wave.simps [simp del]

definition gpu_demand :: "experiment_cell \<Rightarrow> nat" where
  "gpu_demand cell = (case c_gpu cell of None \<Rightarrow> 0 | Some g \<Rightarrow> gpu_count g)"

definition gpu_limit :: "account_capacity \<Rightarrow> nat" where
  "gpu_limit capacity = (case cap_gpus capacity of None \<Rightarrow> 0 | Some g \<Rightarrow> g)"

definition max_member_budget :: "experiment_cell list \<Rightarrow> real" where
  "max_member_budget members = foldl max 0 (map cell_budget members)"

text \<open>The resource and time test of a batch against its account; the first member is the sample.\<close>

definition batch_fits :: "account_capacity \<Rightarrow> experiment_batch \<Rightarrow> experiment_cell list \<Rightarrow> bool" where
  "batch_fits capacity batch members \<longleftrightarrow>
     (case members of
        [] \<Rightarrow> False
      | sample # _ \<Rightarrow>
          \<not> gpu_limit capacity < gpu_demand sample * b_maxConcurrency batch \<and>
          \<not> exceeds (vcpus (c_target sample) * real (b_maxConcurrency batch)) (cap_vcpus capacity) \<and>
          \<not> exceeds (memoryGb (c_target sample) * real (b_maxConcurrency batch)) (cap_memoryGb capacity) \<and>
          \<not> b_budgetMinutes batch <
              of_int \<lceil>real (length members) / real (b_maxConcurrency batch)\<rceil> * max_member_budget members)"

text \<open>\<open>batch.maxConcurrency > account.sandboxes\<close>: a comparison with NaN is false.\<close>

fun more_than :: "nat \<Rightarrow> jsnum \<Rightarrow> bool" where
  "more_than n (Fin x) = (x < real n)"
| "more_than n NaN = False"
| "more_than n (Infinite positive) = (\<not> positive)"

definition verify_batch :: "plan_body \<Rightarrow> batch_state \<Rightarrow> experiment_batch \<Rightarrow> plan_error + batch_state" where
  "verify_batch plan st batch =
     (case find_account plan (b_quotaDomain batch) of
        None \<Rightarrow> Inl (InvalidBatchCapacity (b_id batch))
      | Some capacity \<Rightarrow>
          if more_than (b_maxConcurrency batch) (cap_sandboxes capacity) \<or> b_cells batch = [] \<or>
             real BENCH_JOB_CEILING_MINUTES < b_budgetMinutes batch
          then Inl (InvalidBatchCapacity (b_id batch))
          else if b_id batch \<in> batchIds st then Inl DuplicateBatch
          else
            and_then (assign_cells plan batch (assigned st) (b_cells batch)) (\<lambda>seen.
            let members = List.map_filter (find_cell plan) (b_cells batch) in
            and_then (sequence (map suite_wave members)) (\<lambda>waves.
            and_then (single_wave (BatchMixesWaves (b_id batch)) waves) (\<lambda>inferred.
              if b_wave batch \<noteq> None \<and> b_wave batch \<noteq> Some inferred then Inl (BatchWaveDisagrees (b_id batch))
              else
                let effective = (case b_wave batch of None \<Rightarrow> inferred | Some w \<Rightarrow> w);
                    rank = wave_rank effective
                in if (case lastBatchWaveRank st (b_quotaDomain batch) of None \<Rightarrow> False | Some r \<Rightarrow> rank < r)
                   then Inl (BatchesOutOfOrder (b_id batch))
                   else if \<not> batch_fits capacity batch members then Inl (BatchExceedsBudget (b_id batch))
                   else Inr \<lparr>assigned = seen, batchIds = insert (b_id batch) (batchIds st),
                          batchWaves = (batchWaves st)(b_id batch \<mapsto> effective),
                          lastBatchWaveRank = (lastBatchWaveRank st)(b_quotaDomain batch \<mapsto> rank)\<rparr>))))"

fun verify_batches :: "plan_body \<Rightarrow> batch_state \<Rightarrow> experiment_batch list \<Rightarrow> plan_error + batch_state" where
  "verify_batches plan st [] = Inr st"
| "verify_batches plan st (batch # batches) =
     and_then (verify_batch plan st batch) (\<lambda>st'. verify_batches plan st' batches)"

definition no_batches :: batch_state where
  "no_batches = \<lparr>assigned = {}, batchIds = {}, batchWaves = Map.empty, lastBatchWaveRank = Map.empty\<rparr>"

section \<open>Rounds\<close>

record round_state =
  scheduled :: "string set"
  roundIds :: "string set"
  lastRoundWaveRank :: "string \<rightharpoonup> nat"

fun schedule_batches :: "plan_body \<Rightarrow> (string \<rightharpoonup> benchmark_wave) \<Rightarrow> experiment_round \<Rightarrow> string set \<Rightarrow> string list \<Rightarrow>
  plan_error + (string set \<times> benchmark_wave list)" where
  "schedule_batches plan waves rnd seen [] = Inr (seen, [])"
| "schedule_batches plan waves rnd seen (i # ids) =
     (case find (\<lambda>b. b_id b = i) (p_batches plan) of
        None \<Rightarrow> Inl (InvalidRoundAssignment i)
      | Some batch \<Rightarrow>
          if b_quotaDomain batch \<noteq> r_quotaDomain rnd \<or> i \<in> seen then Inl (InvalidRoundAssignment i)
          else case waves i of
                 None \<Rightarrow> Inl (InvalidRoundAssignment i)
               | Some w \<Rightarrow>
                   and_then (schedule_batches plan waves rnd (insert i seen) ids) (\<lambda>(seen', ws). Inr (seen', w # ws)))"

definition verify_round :: "plan_body \<Rightarrow> (string \<rightharpoonup> benchmark_wave) \<Rightarrow> round_state \<Rightarrow> experiment_round \<Rightarrow> plan_error + round_state" where
  "verify_round plan waves st rnd =
     (if r_id rnd \<in> roundIds st \<or> 256 < length (r_batches rnd) then Inl (InvalidRound (r_id rnd))
      else
        and_then (schedule_batches plan waves rnd (scheduled st) (r_batches rnd)) (\<lambda>(seen, ws).
        and_then (single_wave (RoundMixesWaves (r_id rnd)) ws) (\<lambda>inferred.
          if r_wave rnd \<noteq> None \<and> r_wave rnd \<noteq> Some inferred then Inl (RoundWaveDisagrees (r_id rnd))
          else
            let effective = (case r_wave rnd of None \<Rightarrow> inferred | Some w \<Rightarrow> w);
                rank = wave_rank effective
            in if (case lastRoundWaveRank st (r_quotaDomain rnd) of None \<Rightarrow> False | Some r \<Rightarrow> rank < r)
               then Inl (RoundsOutOfOrder (r_id rnd))
               else Inr \<lparr>scheduled = seen, roundIds = insert (r_id rnd) (roundIds st),
                      lastRoundWaveRank = (lastRoundWaveRank st)(r_quotaDomain rnd \<mapsto> rank)\<rparr>)))"

fun verify_rounds :: "plan_body \<Rightarrow> (string \<rightharpoonup> benchmark_wave) \<Rightarrow> round_state \<Rightarrow> experiment_round list \<Rightarrow> plan_error + round_state" where
  "verify_rounds plan waves st [] = Inr st"
| "verify_rounds plan waves st (rnd # rounds) =
     and_then (verify_round plan waves st rnd) (\<lambda>st'. verify_rounds plan waves st' rounds)"

definition no_rounds :: round_state where
  "no_rounds = \<lparr>scheduled = {}, roundIds = {}, lastRoundWaveRank = Map.empty\<rparr>"

section \<open>Cohorts and exclusions\<close>

definition cohort_evidence :: "services \<Rightarrow> experiment_cell \<Rightarrow> string" where
  "cohort_evidence S cell =
     cohortDigest S (c_workloadRevision cell, sort (c_metrics cell),
       sort_key (\<lambda>e. collation S (ex_metricId e)) (c_exclusions cell),
       c_environmentRevision cell, c_passes cell)"

fun verify_exclusions :: "plan_body \<Rightarrow> experiment_cell \<Rightarrow> string set \<Rightarrow> experiment_exclusion list \<Rightarrow> plan_error + unit" where
  "verify_exclusions plan cell excluded [] = Inr ()"
| "verify_exclusions plan cell excluded (e # es) =
     (if \<not> validDate (ex_expires e) \<or> ex_workloadRevision e \<noteq> c_workloadRevision cell \<or>
         ex_metricId e \<notin> set (c_metrics cell) \<or> ex_expires e \<le> p_createdOn plan \<or> ex_metricId e \<in> excluded
      then Inl (InvalidExclusion (c_id cell) (ex_metricId e))
      else verify_exclusions plan cell (insert (ex_metricId e) excluded) es)"

fun verify_cohorts :: "services \<Rightarrow> plan_body \<Rightarrow> (string \<rightharpoonup> string) \<Rightarrow> experiment_cell list \<Rightarrow> plan_error + unit" where
  "verify_cohorts S plan cohorts [] = Inr ()"
| "verify_cohorts S plan cohorts (cell # cells) =
     (if (case cohorts (c_suite cell) of None \<Rightarrow> False | Some d \<Rightarrow> d \<noteq> cohort_evidence S cell)
      then Inl (InconsistentCohort (c_suite cell))
      else if \<not> distinct (c_metrics cell) then Inl DuplicateRequiredMetric
      else and_then (verify_exclusions plan cell {} (c_exclusions cell)) (\<lambda>_.
             verify_cohorts S plan (cohorts(c_suite cell \<mapsto> cohort_evidence S cell)) cells))"

section \<open>The verifier\<close>

text \<open>\<open>experimentPlanSchema\<close>, less the patterns of identifiers and dates.\<close>

definition plan_schema :: "plan_body \<Rightarrow> bool" where
  "plan_schema plan \<longleftrightarrow>
     p_cells plan \<noteq> [] \<and> p_batches plan \<noteq> [] \<and> p_accounts plan \<noteq> [] \<and> p_rounds plan \<noteq> [] \<and>
     list_all (\<lambda>a. capacity_schema (acc_capacity a)) (p_accounts plan) \<and>
     list_all cell_schema (p_cells plan) \<and> list_all batch_schema (p_batches plan) \<and>
     list_all (\<lambda>r. r_batches r \<noteq> []) (p_rounds plan)"

text \<open>What is checked of the request part of a plan, before and after its schedule.\<close>

definition verify_request :: "services \<Rightarrow> plan_body \<Rightarrow> plan_error + unit" where
  "verify_request S plan =
     (if \<not> validDate (p_createdOn plan) then Inl InvalidCreationDate
      else and_then (verify_targets S (hd (p_cells plan)) Map.empty (p_cells plan)) (\<lambda>_.
        if \<not> distinct (map c_id (p_cells plan)) then Inl DuplicateCell
        else if \<not> distinct (map logical_replicate (p_cells plan)) then Inl DuplicateLogicalReplicate
        else if \<not> list_ex cell_eligible (p_cells plan) then Inl NoEligibleWork
        else if \<not> distinct (map acc_quotaDomain (p_accounts plan)) then Inl DuplicateQuotaDomain
        else Inr ()))"

definition verify_schedule :: "plan_body \<Rightarrow> plan_error + unit" where
  "verify_schedule plan =
     and_then (verify_batches plan no_batches (p_batches plan)) (\<lambda>st.
       if card (assigned st) \<noteq> length (filter cell_eligible (p_cells plan)) then Inl CellsMissingFromBatches
       else and_then (verify_rounds plan (batchWaves st) no_rounds (p_rounds plan)) (\<lambda>rt.
         if card (scheduled rt) \<noteq> length (p_batches plan) then Inl BatchesMissingFromRounds else Inr ()))"

definition verifyExperimentPlan :: "services \<Rightarrow> experiment_plan \<Rightarrow> plan_error + experiment_plan" where
  "verifyExperimentPlan S plan =
     (let body = plan_body.truncate plan
      in if \<not> plan_schema body then Inl SchemaRejected
         else if planDigest S body \<noteq> p_digest plan then Inl PlanDigestMismatch
         else and_then (verify_request S body) (\<lambda>_.
              and_then (verify_schedule body) (\<lambda>_.
              and_then (verify_cohorts S body Map.empty (p_cells body)) (\<lambda>_. Inr plan))))"

section \<open>The batch loop in closed form\<close>

lemma assign_cells_Inr:
  "assign_cells plan batch seen ids = Inr seen' \<longleftrightarrow>
     seen' = seen \<union> set ids \<and> distinct ids \<and> set ids \<inter> seen = {} \<and>
     (\<forall>i\<in>set ids. \<exists>cell. find_cell plan i = Some cell \<and> cell_eligible cell \<and> c_quotaDomain cell = b_quotaDomain batch)"
proof (induction ids arbitrary: "seen")
  case (Cons i ids)
  then show ?case by (auto split: option.splits)
qed auto

lemma single_wave_Inr: "single_wave e ws = Inr w \<longleftrightarrow> ws \<noteq> [] \<and> set ws = {w}"
proof
  assume "single_wave e ws = Inr w"
  then have "insertion_order ws = [w]" by (auto simp: single_wave.simps split: list.splits)
  then have "set ws = {w}" by (metis empty_set list.simps(15) set_insertion_order)
  then show "ws \<noteq> [] \<and> set ws = {w}" by auto
next
  assume "ws \<noteq> [] \<and> set ws = {w}"
  then have "set (insertion_order ws) = {w}" "distinct (insertion_order ws)" by simp_all
  then have "insertion_order ws = [w]"
    by (metis card.empty card_insert_disjoint distinct_card empty_iff finite.emptyI length_0_conv length_Suc_conv
        list.set(1) list.set(2) list.set_intros(1) singletonD)
  then show "single_wave e ws = Inr w" by (simp add: single_wave.simps)
qed

text \<open>What one accepted batch satisfies, independent of the loop state.\<close>

definition batch_members :: "plan_body \<Rightarrow> experiment_batch \<Rightarrow> experiment_cell list" where
  "batch_members plan batch = List.map_filter (find_cell plan) (b_cells batch)"

definition batch_valid :: "plan_body \<Rightarrow> experiment_batch \<Rightarrow> benchmark_wave \<Rightarrow> bool" where
  "batch_valid plan batch w \<longleftrightarrow>
     (\<exists>capacity. find_account plan (b_quotaDomain batch) = Some capacity \<and>
        \<not> more_than (b_maxConcurrency batch) (cap_sandboxes capacity) \<and> b_cells batch \<noteq> [] \<and>
        b_budgetMinutes batch \<le> real BENCH_JOB_CEILING_MINUTES \<and> distinct (b_cells batch) \<and>
        (\<forall>i\<in>set (b_cells batch). \<exists>cell. find_cell plan i = Some cell \<and> cell_eligible cell \<and>
           c_quotaDomain cell = b_quotaDomain batch) \<and>
        (\<forall>cell\<in>set (batch_members plan batch). benchmarkWave (c_suite cell) = Some w) \<and>
        (b_wave batch = None \<or> b_wave batch = Some w) \<and>
        batch_fits capacity batch (batch_members plan batch))"

lemma suite_wave_Inr: "suite_wave cell = Inr w \<longleftrightarrow> benchmarkWave (c_suite cell) = Some w"
  by (auto simp: suite_wave_def split: option.splits)

lemma sequence_suite_wave:
  "sequence (map suite_wave cells) = Inr ws \<longleftrightarrow> map (\<lambda>c. benchmarkWave (c_suite c)) cells = map Some ws"
proof (induction cells arbitrary: ws)
  case (Cons c cells)
  then show ?case by (cases ws) (auto simp: and_then_Inr_iff suite_wave_Inr)
qed auto

lemma verify_batch_Inr:
  "verify_batch plan st batch = Inr st' \<longleftrightarrow>
     (\<exists>w. batch_valid plan batch w \<and> b_id batch \<notin> batchIds st \<and> set (b_cells batch) \<inter> assigned st = {} \<and>
        (\<forall>r. lastBatchWaveRank st (b_quotaDomain batch) = Some r \<longrightarrow> r \<le> wave_rank w) \<and>
        st' = \<lparr>assigned = assigned st \<union> set (b_cells batch), batchIds = insert (b_id batch) (batchIds st),
               batchWaves = (batchWaves st)(b_id batch \<mapsto> w),
               lastBatchWaveRank = (lastBatchWaveRank st)(b_quotaDomain batch \<mapsto> wave_rank w)\<rparr>)"
proof -
  let ?m = "batch_members plan batch"
  have waves: "(\<exists>ws. sequence (map suite_wave ?m) = Inr ws \<and> single_wave e ws = Inr w) \<longleftrightarrow>
      ?m \<noteq> [] \<and> (\<forall>cell\<in>set ?m. benchmarkWave (c_suite cell) = Some w)" for e w
  proof
    assume "\<exists>ws. sequence (map suite_wave ?m) = Inr ws \<and> single_wave e ws = Inr w"
    then obtain ws where ws: "map (\<lambda>c. benchmarkWave (c_suite c)) ?m = map Some ws" "ws \<noteq> []" "set ws = {w}"
      by (auto simp: sequence_suite_wave single_wave_Inr)
    have "(\<lambda>c. benchmarkWave (c_suite c)) ` set ?m = Some ` set ws" using ws(1) by (metis list.set_map)
    then show "?m \<noteq> [] \<and> (\<forall>cell\<in>set ?m. benchmarkWave (c_suite cell) = Some w)"
      using ws by auto
  next
    assume a: "?m \<noteq> [] \<and> (\<forall>cell\<in>set ?m. benchmarkWave (c_suite cell) = Some w)"
    then have "map (\<lambda>c. benchmarkWave (c_suite c)) ?m = replicate (length ?m) (Some w)"
      by (intro replicate_eqI) auto
    then have "map (\<lambda>c. benchmarkWave (c_suite c)) ?m = map Some (replicate (length ?m) w)"
      by (simp add: map_replicate)
    then show "\<exists>ws. sequence (map suite_wave ?m) = Inr ws \<and> single_wave e ws = Inr w"
      using a by (intro exI[of _ "replicate (length ?m) w"]) (simp add: sequence_suite_wave single_wave_Inr)
  qed
  have step: "verify_batch plan st batch = Inr st' \<longleftrightarrow>
     (\<exists>capacity seen w. find_account plan (b_quotaDomain batch) = Some capacity \<and>
        \<not> more_than (b_maxConcurrency batch) (cap_sandboxes capacity) \<and> b_cells batch \<noteq> [] \<and>
        b_budgetMinutes batch \<le> real BENCH_JOB_CEILING_MINUTES \<and> b_id batch \<notin> batchIds st \<and>
        assign_cells plan batch (assigned st) (b_cells batch) = Inr seen \<and>
        (\<exists>ws. sequence (map suite_wave ?m) = Inr ws \<and> single_wave (BatchMixesWaves (b_id batch)) ws = Inr w) \<and>
        (b_wave batch = None \<or> b_wave batch = Some w) \<and>
        (\<forall>r. lastBatchWaveRank st (b_quotaDomain batch) = Some r \<longrightarrow> r \<le> wave_rank w) \<and>
        batch_fits capacity batch ?m \<and>
        st' = \<lparr>assigned = seen, batchIds = insert (b_id batch) (batchIds st),
               batchWaves = (batchWaves st)(b_id batch \<mapsto> w),
               lastBatchWaveRank = (lastBatchWaveRank st)(b_quotaDomain batch \<mapsto> wave_rank w)\<rparr>)"
    unfolding verify_batch_def Let_def batch_members_def
    by (cases "find_account plan (b_quotaDomain batch)"; cases "b_wave batch";
        cases "lastBatchWaveRank st (b_quotaDomain batch)")
      (auto simp: and_then_Inr_iff not_less split: if_splits)
  have ne: "batch_fits capacity batch ?m \<Longrightarrow> ?m \<noteq> []" for capacity by (auto simp: batch_fits_def)
  show ?thesis
    unfolding step waves assign_cells_Inr batch_valid_def using ne by (auto simp: Int_commute)
qed

text \<open>Waves never go back within one quota domain.\<close>

definition wave_sorted :: "('a \<Rightarrow> string) \<Rightarrow> ('a \<times> benchmark_wave) list \<Rightarrow> bool" where
  "wave_sorted domain_of ps \<longleftrightarrow> sorted_wrt (\<lambda>p q. domain_of (fst p) = domain_of (fst q) \<longrightarrow> wave_rank (snd p) \<le> wave_rank (snd q)) ps"

definition after_last :: "('a \<Rightarrow> string) \<Rightarrow> (string \<rightharpoonup> nat) \<Rightarrow> ('a \<times> benchmark_wave) list \<Rightarrow> bool" where
  "after_last domain_of last_rank ps \<longleftrightarrow>
     (\<forall>p\<in>set ps. \<forall>r. last_rank (domain_of (fst p)) = Some r \<longrightarrow> r \<le> wave_rank (snd p))"

lemma wave_sorted_Cons:
  "wave_sorted d ((x, w) # ps) \<and> after_last d m ((x, w) # ps) \<longleftrightarrow>
     wave_sorted d ps \<and> after_last d (m(d x \<mapsto> wave_rank w)) ps \<and>
     (\<forall>r. m (d x) = Some r \<longrightarrow> r \<le> wave_rank w)"
  unfolding wave_sorted_def after_last_def by (auto dest: order_trans)

text \<open>New with respect to \<open>A\<close>: no repetition and nothing of \<open>A\<close>.\<close>

definition fresh :: "'a set \<Rightarrow> 'a list \<Rightarrow> bool" where
  "fresh A xs \<longleftrightarrow> distinct xs \<and> set xs \<inter> A = {}"

lemma fresh_append: "fresh A (xs @ ys) \<longleftrightarrow> fresh A xs \<and> fresh (A \<union> set xs) ys"
  by (auto simp: fresh_def)

lemma fresh_Cons: "fresh A (x # xs) \<longleftrightarrow> x \<notin> A \<and> fresh (insert x A) xs"
  by (auto simp: fresh_def)

lemma fresh_Nil [simp]: "fresh A []"
  by (simp add: fresh_def)

definition batches_valid :: "plan_body \<Rightarrow> batch_state \<Rightarrow> experiment_batch list \<Rightarrow> benchmark_wave list \<Rightarrow> bool" where
  "batches_valid plan st bs ws \<longleftrightarrow>
     list_all2 (batch_valid plan) bs ws \<and>
     fresh (batchIds st) (map b_id bs) \<and> fresh (assigned st) (concat (map b_cells bs)) \<and>
     wave_sorted b_quotaDomain (zip bs ws) \<and> after_last b_quotaDomain (lastBatchWaveRank st) (zip bs ws)"

definition batches_result :: "batch_state \<Rightarrow> batch_state \<Rightarrow> experiment_batch list \<Rightarrow> benchmark_wave list \<Rightarrow> bool" where
  "batches_result st st' bs ws \<longleftrightarrow>
     assigned st' = assigned st \<union> set (concat (map b_cells bs)) \<and>
     batchIds st' = batchIds st \<union> set (map b_id bs) \<and>
     (\<forall>(b, w)\<in>set (zip bs ws). batchWaves st' (b_id b) = Some w) \<and>
     (\<forall>i. i \<notin> set (map b_id bs) \<longrightarrow> batchWaves st' i = batchWaves st i)"

definition after_batch :: "batch_state \<Rightarrow> experiment_batch \<Rightarrow> benchmark_wave \<Rightarrow> batch_state" where
  "after_batch st batch w =
     \<lparr>assigned = assigned st \<union> set (b_cells batch), batchIds = insert (b_id batch) (batchIds st),
      batchWaves = (batchWaves st)(b_id batch \<mapsto> w),
      lastBatchWaveRank = (lastBatchWaveRank st)(b_quotaDomain batch \<mapsto> wave_rank w)\<rparr>"

lemma batch_valid_distinct: "batch_valid plan b w \<Longrightarrow> distinct (b_cells b)"
  by (auto simp: batch_valid_def)

lemma batches_valid_Cons:
  "batches_valid plan st (b # bs) (w # ws) \<longleftrightarrow>
     batch_valid plan b w \<and> b_id b \<notin> batchIds st \<and> set (b_cells b) \<inter> assigned st = {} \<and>
     (\<forall>r. lastBatchWaveRank st (b_quotaDomain b) = Some r \<longrightarrow> r \<le> wave_rank w) \<and>
     batches_valid plan (after_batch st b w) bs ws"
proof -
  have "fresh (assigned st) (concat (map b_cells (b # bs))) \<longleftrightarrow>
      distinct (b_cells b) \<and> set (b_cells b) \<inter> assigned st = {} \<and>
      fresh (assigned st \<union> set (b_cells b)) (concat (map b_cells bs))"
    by (simp add: fresh_append) (simp add: fresh_def)
  then show ?thesis
    using wave_sorted_Cons[of b_quotaDomain b w "zip bs ws" "lastBatchWaveRank st"] batch_valid_distinct[of plan b w]
    unfolding batches_valid_def after_batch_def by (simp add: fresh_Cons) meson
qed

lemma verify_batch_after:
  "verify_batch plan st b = Inr st' \<longleftrightarrow>
     (\<exists>w. batch_valid plan b w \<and> b_id b \<notin> batchIds st \<and> set (b_cells b) \<inter> assigned st = {} \<and>
        (\<forall>r. lastBatchWaveRank st (b_quotaDomain b) = Some r \<longrightarrow> r \<le> wave_rank w) \<and> st' = after_batch st b w)"
  unfolding verify_batch_Inr after_batch_def ..

lemma batches_result_Cons:
  assumes "batches_result (after_batch st b w) st' bs ws" "b_id b \<notin> set (map b_id bs)"
  shows "batches_result st st' (b # bs) (w # ws)"
  using assms unfolding batches_result_def after_batch_def by auto

lemma verify_batches_dest:
  "verify_batches plan st bs = Inr st' \<Longrightarrow> \<exists>ws. batches_valid plan st bs ws \<and> batches_result st st' bs ws"
proof (induction bs arbitrary: st)
  case Nil
  then show ?case
    by (intro exI[of _ "[]"]) (simp add: batches_valid_def batches_result_def wave_sorted_def after_last_def)
next
  case (Cons b bs)
  obtain st1 where st1: "verify_batch plan st b = Inr st1" "verify_batches plan st1 bs = Inr st'"
    using Cons.prems by (auto simp: and_then_Inr_iff)
  obtain w where w: "batch_valid plan b w" "b_id b \<notin> batchIds st" "set (b_cells b) \<inter> assigned st = {}"
    "\<forall>r. lastBatchWaveRank st (b_quotaDomain b) = Some r \<longrightarrow> r \<le> wave_rank w" "st1 = after_batch st b w"
    using st1(1) unfolding verify_batch_after by blast
  obtain ws where ws: "batches_valid plan st1 bs ws" "batches_result st1 st' bs ws"
    using Cons.IH[OF st1(2)] by blast
  have "b_id b \<notin> set (map b_id bs)" using ws(1) w(5) by (auto simp: batches_valid_def after_batch_def fresh_def)
  then show ?case
    using w ws batches_valid_Cons[of plan st b bs w ws] batches_result_Cons[of st b w st' bs ws] by blast
qed

lemma verify_batches_intro:
  "batches_valid plan st bs ws \<Longrightarrow> \<exists>st'. verify_batches plan st bs = Inr st' \<and> batches_result st st' bs ws"
proof (induction bs arbitrary: st ws)
  case Nil
  then show ?case by (simp add: batches_result_def)
next
  case (Cons b bs)
  then obtain w ws' where ws: "ws = w # ws'" by (cases ws) (auto simp: batches_valid_def)
  note v = Cons.prems[unfolded ws batches_valid_Cons]
  obtain st' where st': "verify_batches plan (after_batch st b w) bs = Inr st'"
    "batches_result (after_batch st b w) st' bs ws'"
    using Cons.IH v by blast
  have "verify_batch plan st b = Inr (after_batch st b w)" unfolding verify_batch_after using v by blast
  moreover have "b_id b \<notin> set (map b_id bs)" using Cons.prems by (auto simp: batches_valid_def ws fresh_def)
  ultimately show ?case using st' batches_result_Cons ws by auto
qed

section \<open>The round loop in closed form\<close>

definition find_batch :: "plan_body \<Rightarrow> string \<Rightarrow> experiment_batch option" where
  "find_batch plan i = find (\<lambda>b. b_id b = i) (p_batches plan)"

lemma schedule_batches_Inr:
  "schedule_batches plan waves rnd seen ids = Inr (seen', ws) \<longleftrightarrow>
     seen' = seen \<union> set ids \<and> distinct ids \<and> set ids \<inter> seen = {} \<and> map waves ids = map Some ws \<and>
     (\<forall>i\<in>set ids. \<exists>b. find_batch plan i = Some b \<and> b_quotaDomain b = r_quotaDomain rnd)"
proof (induction ids arbitrary: seen ws)
  case (Cons i ids)
  show ?case
    by (cases ws) (auto simp: find_batch_def and_then_Inr_iff Cons split: option.splits)
qed auto

definition round_valid :: "plan_body \<Rightarrow> (string \<rightharpoonup> benchmark_wave) \<Rightarrow> experiment_round \<Rightarrow> benchmark_wave \<Rightarrow> bool" where
  "round_valid plan waves rnd w \<longleftrightarrow>
     length (r_batches rnd) \<le> 256 \<and> r_batches rnd \<noteq> [] \<and> distinct (r_batches rnd) \<and>
     (\<forall>i\<in>set (r_batches rnd). waves i = Some w \<and>
        (\<exists>b. find_batch plan i = Some b \<and> b_quotaDomain b = r_quotaDomain rnd)) \<and>
     (r_wave rnd = None \<or> r_wave rnd = Some w)"

definition after_round :: "round_state \<Rightarrow> experiment_round \<Rightarrow> benchmark_wave \<Rightarrow> round_state" where
  "after_round st rnd w =
     \<lparr>scheduled = scheduled st \<union> set (r_batches rnd), roundIds = insert (r_id rnd) (roundIds st),
      lastRoundWaveRank = (lastRoundWaveRank st)(r_quotaDomain rnd \<mapsto> wave_rank w)\<rparr>"

lemma map_Some_single:
  "(\<exists>ws. map waves ids = map Some ws \<and> ws \<noteq> [] \<and> set ws = {w}) \<longleftrightarrow> ids \<noteq> [] \<and> (\<forall>i\<in>set ids. waves i = Some w)"
proof
  assume "\<exists>ws. map waves ids = map Some ws \<and> ws \<noteq> [] \<and> set ws = {w}"
  then obtain ws where ws: "map waves ids = map Some ws" "ws \<noteq> []" "set ws = {w}" by blast
  have "waves ` set ids = Some ` set ws" using ws(1) by (metis list.set_map)
  then show "ids \<noteq> [] \<and> (\<forall>i\<in>set ids. waves i = Some w)" using ws by auto
next
  assume a: "ids \<noteq> [] \<and> (\<forall>i\<in>set ids. waves i = Some w)"
  then have "map waves ids = replicate (length ids) (Some w)" by (intro replicate_eqI) auto
  then show "\<exists>ws. map waves ids = map Some ws \<and> ws \<noteq> [] \<and> set ws = {w}"
    using a by (intro exI[of _ "replicate (length ids) w"]) (simp add: map_replicate)
qed

lemma verify_round_after:
  "verify_round plan waves st rnd = Inr st' \<longleftrightarrow>
     (\<exists>w. round_valid plan waves rnd w \<and> r_id rnd \<notin> roundIds st \<and> set (r_batches rnd) \<inter> scheduled st = {} \<and>
        (\<forall>r. lastRoundWaveRank st (r_quotaDomain rnd) = Some r \<longrightarrow> r \<le> wave_rank w) \<and> st' = after_round st rnd w)"
proof -
  have "verify_round plan waves st rnd = Inr st' \<longleftrightarrow>
     (\<exists>seen w. r_id rnd \<notin> roundIds st \<and> length (r_batches rnd) \<le> 256 \<and>
        (\<exists>ws. schedule_batches plan waves rnd (scheduled st) (r_batches rnd) = Inr (seen, ws) \<and>
           single_wave (RoundMixesWaves (r_id rnd)) ws = Inr w) \<and>
        (r_wave rnd = None \<or> r_wave rnd = Some w) \<and>
        (\<forall>r. lastRoundWaveRank st (r_quotaDomain rnd) = Some r \<longrightarrow> r \<le> wave_rank w) \<and>
        st' = \<lparr>scheduled = seen, roundIds = insert (r_id rnd) (roundIds st),
               lastRoundWaveRank = (lastRoundWaveRank st)(r_quotaDomain rnd \<mapsto> wave_rank w)\<rparr>)"
    unfolding verify_round_def Let_def
    by (cases "r_wave rnd"; cases "lastRoundWaveRank st (r_quotaDomain rnd)")
      (auto simp: and_then_Inr_iff not_less split: if_splits)
  also have "\<dots> \<longleftrightarrow> (\<exists>w. round_valid plan waves rnd w \<and> r_id rnd \<notin> roundIds st \<and> set (r_batches rnd) \<inter> scheduled st = {} \<and>
        (\<forall>r. lastRoundWaveRank st (r_quotaDomain rnd) = Some r \<longrightarrow> r \<le> wave_rank w) \<and> st' = after_round st rnd w)"
    unfolding schedule_batches_Inr single_wave_Inr round_valid_def after_round_def
    using map_Some_single[of waves "r_batches rnd"] by (auto; metis)
  finally show ?thesis .
qed

definition rounds_valid :: "plan_body \<Rightarrow> (string \<rightharpoonup> benchmark_wave) \<Rightarrow> round_state \<Rightarrow> experiment_round list \<Rightarrow> benchmark_wave list \<Rightarrow> bool" where
  "rounds_valid plan waves st rs ws \<longleftrightarrow>
     list_all2 (round_valid plan waves) rs ws \<and>
     fresh (roundIds st) (map r_id rs) \<and> fresh (scheduled st) (concat (map r_batches rs)) \<and>
     wave_sorted r_quotaDomain (zip rs ws) \<and> after_last r_quotaDomain (lastRoundWaveRank st) (zip rs ws)"

lemma rounds_valid_Cons:
  "rounds_valid plan waves st (r # rs) (w # ws) \<longleftrightarrow>
     round_valid plan waves r w \<and> r_id r \<notin> roundIds st \<and> set (r_batches r) \<inter> scheduled st = {} \<and>
     (\<forall>k. lastRoundWaveRank st (r_quotaDomain r) = Some k \<longrightarrow> k \<le> wave_rank w) \<and>
     rounds_valid plan waves (after_round st r w) rs ws"
proof -
  have "fresh (scheduled st) (concat (map r_batches (r # rs))) \<longleftrightarrow>
      distinct (r_batches r) \<and> set (r_batches r) \<inter> scheduled st = {} \<and>
      fresh (scheduled st \<union> set (r_batches r)) (concat (map r_batches rs))"
    by (simp add: fresh_append) (simp add: fresh_def)
  moreover have "round_valid plan waves r w \<Longrightarrow> distinct (r_batches r)" by (simp add: round_valid_def)
  ultimately show ?thesis
    using wave_sorted_Cons[of r_quotaDomain r w "zip rs ws" "lastRoundWaveRank st"]
    unfolding rounds_valid_def after_round_def by (simp add: fresh_Cons) meson
qed

lemma verify_rounds_Inr:
  "(\<exists>st'. verify_rounds plan waves st rs = Inr st' \<and> scheduled st' = seen') \<longleftrightarrow>
     (\<exists>ws. rounds_valid plan waves st rs ws) \<and> seen' = scheduled st \<union> set (concat (map r_batches rs))"
proof (induction rs arbitrary: st)
  case Nil
  show ?case
    by (auto simp: rounds_valid_def wave_sorted_def after_last_def)
next
  case (Cons r rs)
  have "(\<exists>st'. verify_rounds plan waves st (r # rs) = Inr st' \<and> scheduled st' = seen') \<longleftrightarrow>
      (\<exists>w. round_valid plan waves r w \<and> r_id r \<notin> roundIds st \<and> set (r_batches r) \<inter> scheduled st = {} \<and>
        (\<forall>k. lastRoundWaveRank st (r_quotaDomain r) = Some k \<longrightarrow> k \<le> wave_rank w) \<and>
        (\<exists>st'. verify_rounds plan waves (after_round st r w) rs = Inr st' \<and> scheduled st' = seen'))"
    by (auto simp: and_then_Inr_iff verify_round_after)
  also have "\<dots> \<longleftrightarrow> (\<exists>w ws. rounds_valid plan waves st (r # rs) (w # ws)) \<and>
      seen' = scheduled st \<union> set (concat (map r_batches (r # rs)))"
    unfolding Cons.IH rounds_valid_Cons by (auto simp: after_round_def)
  also have "(\<exists>w ws. rounds_valid plan waves st (r # rs) (w # ws)) \<longleftrightarrow> (\<exists>ws. rounds_valid plan waves st (r # rs) ws)"
  proof
    assume "\<exists>ws. rounds_valid plan waves st (r # rs) ws"
    then obtain ws where ws: "rounds_valid plan waves st (r # rs) ws" by blast
    then show "\<exists>w ws. rounds_valid plan waves st (r # rs) (w # ws)"
      by (cases ws) (auto simp: rounds_valid_def)
  qed blast
  finally show ?case .
qed

section \<open>Accepted plans\<close>

lemma find_cell_Some:
  assumes "distinct (map c_id (p_cells plan))"
  shows "find_cell plan i = Some c \<longleftrightarrow> c \<in> set (p_cells plan) \<and> c_id c = i"
proof -
  have "distinct (map fst (map (\<lambda>c. (c_id c, c)) (p_cells plan)))" using assms by (simp add: comp_def)
  then show ?thesis unfolding find_cell_def by (subst map_of_eq_Some_iff) auto
qed

lemma find_batch_Some: "find_batch plan i = Some b \<Longrightarrow> b \<in> set (p_batches plan) \<and> b_id b = i"
  by (auto simp: find_batch_def find_Some_iff)

lemma max_member_budget_ge: "c \<in> set members \<Longrightarrow> cell_budget c \<le> max_member_budget members"
proof -
  have ge: "a \<le> foldl max a xs" for a :: real and xs
    by (induction xs arbitrary: a) (auto intro: order_trans[OF max.cobounded1])
  have "x \<in> set xs \<Longrightarrow> x \<le> foldl max a xs" for x a :: real and xs
    by (induction xs arbitrary: a) (auto intro: order_trans[OF max.cobounded2 ge])
  then show "c \<in> set members \<Longrightarrow> cell_budget c \<le> max_member_budget members"
    unfolding max_member_budget_def by simp
qed

lemma verify_schedule_Inr:
  assumes "verify_schedule plan = Inr ()"
  shows "\<exists>ws vs waves. batches_valid plan no_batches (p_batches plan) ws \<and>
    (\<forall>(b, w)\<in>set (zip (p_batches plan) ws). waves (b_id b) = Some w) \<and>
    card (set (concat (map b_cells (p_batches plan)))) = length (filter cell_eligible (p_cells plan)) \<and>
    rounds_valid plan waves no_rounds (p_rounds plan) vs \<and>
    card (set (concat (map r_batches (p_rounds plan)))) = length (p_batches plan)"
proof -
  obtain st rt where st: "verify_batches plan no_batches (p_batches plan) = Inr st"
    "card (assigned st) = length (filter cell_eligible (p_cells plan))"
    "verify_rounds plan (batchWaves st) no_rounds (p_rounds plan) = Inr rt"
    "card (scheduled rt) = length (p_batches plan)"
    using assms by (auto simp: verify_schedule_def and_then_Inr_iff split: if_splits)
  obtain ws where ws: "batches_valid plan no_batches (p_batches plan) ws"
    "batches_result no_batches st (p_batches plan) ws"
    using verify_batches_dest[OF st(1)] by blast
  have as: "assigned st = set (concat (map b_cells (p_batches plan)))"
    using ws(2) by (simp add: batches_result_def no_batches_def)
  obtain vs where vs: "rounds_valid plan (batchWaves st) no_rounds (p_rounds plan) vs"
    "scheduled rt = set (concat (map r_batches (p_rounds plan)))"
    using verify_rounds_Inr[of plan "batchWaves st" no_rounds "p_rounds plan" "scheduled rt"] st(3)
    by (auto simp: no_rounds_def)
  have "\<forall>(b, w)\<in>set (zip (p_batches plan) ws). batchWaves st (b_id b) = Some w"
    using ws(2) by (simp add: batches_result_def)
  then show ?thesis using ws(1) vs st(2,4) as by metis
qed

lemma accepted_parts:
  assumes "verifyExperimentPlan S plan = Inr p"
  defines "body \<equiv> plan_body.truncate plan"
  shows "p = plan" "verify_schedule body = Inr ()" "distinct (map c_id (p_cells body))"
    "p_cells body = p_cells plan" "p_batches body = p_batches plan" "p_rounds body = p_rounds plan"
    "verify_request S body = Inr ()" "plan_schema body"
  using assms
  by (auto simp: verifyExperimentPlan_def and_then_Inr_iff verify_request_def Let_def plan_body.defs split: if_splits)

text \<open>The waves of the cells of a batch.\<close>

definition batch_runs :: "experiment_plan \<Rightarrow> experiment_batch \<Rightarrow> benchmark_wave \<Rightarrow> bool" where
  "batch_runs plan b w \<longleftrightarrow>
     (\<forall>i\<in>set (b_cells b). \<exists>c\<in>set (p_cells plan). c_id c = i \<and> cell_eligible c \<and>
        c_quotaDomain c = b_quotaDomain b \<and> benchmarkWave (c_suite c) = Some w \<and>
        of_int \<lceil>real (length (b_cells b)) / real (b_maxConcurrency b)\<rceil> * cell_budget c \<le> b_budgetMinutes b)"

lemma map_filter_all: "\<forall>x\<in>set xs. f x \<noteq> None \<Longrightarrow> List.map_filter f xs = map (\<lambda>x. the (f x)) xs"
  by (induction xs) (auto simp: List.map_filter_def)

lemma batch_valid_runs:
  assumes "distinct (map c_id (p_cells body))" "p_cells body = p_cells plan" "batch_valid body b w"
  shows "batch_runs plan b w \<and> b_budgetMinutes b \<le> real BENCH_JOB_CEILING_MINUTES"
proof -
  have mem: "batch_members body b = map (\<lambda>i. the (find_cell body i)) (b_cells b)"
    unfolding batch_members_def by (rule map_filter_all) (use assms(3) in \<open>auto simp: batch_valid_def\<close>)
  have fits: "of_int \<lceil>real (length (b_cells b)) / real (b_maxConcurrency b)\<rceil> * max_member_budget (batch_members body b)
      \<le> b_budgetMinutes b"
  proof -
    obtain capacity where fit: "batch_fits capacity b (batch_members body b)"
      using assms(3) by (auto simp: batch_valid_def)
    have "length (batch_members body b) = length (b_cells b)" by (simp add: mem)
    then show ?thesis using fit by (auto simp: batch_fits_def not_less split: list.splits)
  qed
  have "\<exists>c\<in>set (p_cells plan). c_id c = i \<and> cell_eligible c \<and>
        c_quotaDomain c = b_quotaDomain b \<and> benchmarkWave (c_suite c) = Some w \<and>
        of_int \<lceil>real (length (b_cells b)) / real (b_maxConcurrency b)\<rceil> * cell_budget c \<le> b_budgetMinutes b"
    if i: "i \<in> set (b_cells b)" for i
  proof -
    obtain c where c: "find_cell body i = Some c" "cell_eligible c" "c_quotaDomain c = b_quotaDomain b"
      using assms(3) i by (auto simp: batch_valid_def)
    then have m: "c \<in> set (batch_members body b)" using i by (auto simp: mem image_iff intro!: bexI[of _ i])
    have "(0::real) \<le> of_int \<lceil>real (length (b_cells b)) / real (b_maxConcurrency b)\<rceil>"
      using order_trans[OF _ le_of_int_ceiling] by (metis divide_nonneg_nonneg of_nat_0_le_iff)
    then have "of_int \<lceil>real (length (b_cells b)) / real (b_maxConcurrency b)\<rceil> * cell_budget c \<le> b_budgetMinutes b"
      using mult_left_mono[OF max_member_budget_ge[OF m]] fits by (meson order_trans)
    moreover have "benchmarkWave (c_suite c) = Some w" using assms(3) m by (auto simp: batch_valid_def)
    moreover have "c \<in> set (p_cells plan)" "c_id c = i" using find_cell_Some[OF assms(1), of i c] c(1) assms(2) by simp_all
    ultimately show ?thesis using c(2,3) by blast
  qed
  then show ?thesis using assms(3) by (auto simp: batch_runs_def batch_valid_def)
qed

lemma list_all2_left: "list_all2 P xs ys \<Longrightarrow> x \<in> set xs \<Longrightarrow> \<exists>y. P x y"
  by (metis in_set_conv_nth list_all2_nthD)

lemma valid_ids_eligible:
  assumes "distinct (map c_id (p_cells plan))" "batches_valid plan no_batches (p_batches plan) ws"
    and "card (set (concat (map b_cells (p_batches plan)))) = length (filter cell_eligible (p_cells plan))"
  shows "set (concat (map b_cells (p_batches plan))) = c_id ` {c \<in> set (p_cells plan). cell_eligible c}"
proof (rule card_subset_eq)
  show "finite (c_id ` {c \<in> set (p_cells plan). cell_eligible c})" by simp
  show "set (concat (map b_cells (p_batches plan))) \<subseteq> c_id ` {c \<in> set (p_cells plan). cell_eligible c}"
  proof
    fix i assume "i \<in> set (concat (map b_cells (p_batches plan)))"
    then obtain b where b: "b \<in> set (p_batches plan)" "i \<in> set (b_cells b)" by auto
    then obtain w where "batch_valid plan b w"
      using list_all2_left[of "batch_valid plan" _ ws b] assms(2) unfolding batches_valid_def by blast
    then obtain c where "find_cell plan i = Some c" "cell_eligible c" using b(2) by (auto simp: batch_valid_def)
    then show "i \<in> c_id ` {c \<in> set (p_cells plan). cell_eligible c}"
      using find_cell_Some[OF assms(1), of i c] by auto
  qed
  have "distinct (filter cell_eligible (p_cells plan))" using assms(1) by (simp add: distinct_map)
  moreover have "inj_on c_id {c \<in> set (p_cells plan). cell_eligible c}"
    using assms(1) by (auto simp: distinct_map inj_on_def)
  ultimately show "card (set (concat (map b_cells (p_batches plan)))) = card (c_id ` {c \<in> set (p_cells plan). cell_eligible c})"
    using assms(3) distinct_card[of "filter cell_eligible (p_cells plan)"] by (simp add: card_image)
qed

lemma valid_ids_batches:
  assumes "rounds_valid plan waves no_rounds (p_rounds plan) vs" "distinct (map b_id (p_batches plan))"
    and "card (set (concat (map r_batches (p_rounds plan)))) = length (p_batches plan)"
  shows "set (concat (map r_batches (p_rounds plan))) = b_id ` set (p_batches plan)"
proof (rule card_subset_eq)
  show "finite (b_id ` set (p_batches plan))" by simp
  show "set (concat (map r_batches (p_rounds plan))) \<subseteq> b_id ` set (p_batches plan)"
  proof
    fix i assume "i \<in> set (concat (map r_batches (p_rounds plan)))"
    then obtain r where r: "r \<in> set (p_rounds plan)" "i \<in> set (r_batches r)" by auto
    then obtain w where "round_valid plan waves r w"
      using list_all2_left[of "round_valid plan waves" _ vs r] assms(1) unfolding rounds_valid_def by blast
    then obtain b where "find_batch plan i = Some b" using r(2) by (auto simp: round_valid_def)
    then show "i \<in> b_id ` set (p_batches plan)" using find_batch_Some by blast
  qed
  show "card (set (concat (map r_batches (p_rounds plan)))) = card (b_id ` set (p_batches plan))"
    using assms(2,3) by (simp add: distinct_map card_image distinct_card)
qed

section \<open>Properties\<close>

text \<open>
  Property C8. Every plan the verifier accepts schedules its eligible work exactly once: the batches
  partition the eligible cells, each batch within one quota domain, one wave and the time it budgets
  (never more than the job ceiling), the rounds partition the batches, and within a quota domain no
  batch comes after a batch of a later wave.
\<close>

theorem accepted_plan_schedules_once:
  assumes "verifyExperimentPlan S plan = Inr p"
  shows "p = plan \<and>
    distinct (concat (map b_cells (p_batches plan))) \<and>
    set (concat (map b_cells (p_batches plan))) = c_id ` {c \<in> set (p_cells plan). cell_eligible c} \<and>
    distinct (concat (map r_batches (p_rounds plan))) \<and>
    set (concat (map r_batches (p_rounds plan))) = b_id ` set (p_batches plan) \<and>
    (\<exists>ws. length ws = length (p_batches plan) \<and>
       (\<forall>k<length ws. batch_runs plan (p_batches plan ! k) (ws ! k) \<and>
          b_budgetMinutes (p_batches plan ! k) \<le> real BENCH_JOB_CEILING_MINUTES) \<and>
       (\<forall>k l. k < l \<and> l < length ws \<and> b_quotaDomain (p_batches plan ! k) = b_quotaDomain (p_batches plan ! l) \<longrightarrow>
          ws ! k \<le> ws ! l))"
proof -
  let ?body = "plan_body.truncate plan"
  note parts = accepted_parts[OF assms]
  obtain ws vs waves where v: "batches_valid ?body no_batches (p_batches ?body) ws"
    "card (set (concat (map b_cells (p_batches ?body)))) = length (filter cell_eligible (p_cells ?body))"
    "rounds_valid ?body waves no_rounds (p_rounds ?body) vs"
    "card (set (concat (map r_batches (p_rounds ?body)))) = length (p_batches ?body)"
    using verify_schedule_Inr[OF parts(2)] by blast
  have len: "length ws = length (p_batches plan)"
    using v(1) parts(5) by (auto simp: batches_valid_def dest: list_all2_lengthD)
  have d: "distinct (concat (map b_cells (p_batches plan)))" "distinct (map b_id (p_batches ?body))"
    "distinct (concat (map r_batches (p_rounds plan)))"
    using v(1,3) parts(5,6) by (auto simp: batches_valid_def rounds_valid_def fresh_def)
  have each: "batch_valid ?body (p_batches plan ! k) (ws ! k)" if "k < length ws" for k
    using v(1) that len parts(5) by (auto simp: batches_valid_def list_all2_conv_all_nth)
  have order: "ws ! k \<le> ws ! l"
    if "k < l" "l < length ws" "b_quotaDomain (p_batches plan ! k) = b_quotaDomain (p_batches plan ! l)" for k l
    using v(1) that len parts(5)
    by (auto simp: batches_valid_def wave_sorted_def sorted_wrt_iff_nth_less less_eq_benchmark_wave_def)
  have "set (concat (map b_cells (p_batches plan))) = c_id ` {c \<in> set (p_cells plan). cell_eligible c}"
    using valid_ids_eligible[OF parts(3) v(1,2)] parts(4,5) by simp
  moreover have "set (concat (map r_batches (p_rounds plan))) = b_id ` set (p_batches plan)"
    using valid_ids_batches[OF v(3) d(2) v(4)] parts(5,6) by simp
  moreover have "batch_runs plan (p_batches plan ! k) (ws ! k)"
    "b_budgetMinutes (p_batches plan ! k) \<le> real BENCH_JOB_CEILING_MINUTES" if "k < length ws" for k
    using batch_valid_runs[OF parts(3,4) each[OF that]] by blast+
  ultimately show ?thesis
    using parts(1) d(1,3) len order by (intro conjI exI[of _ ws] allI impI) auto
qed

text \<open>A plan of two cells in two waves, for the witnesses; every digest is empty.\<close>

definition example_services :: services where
  "example_services = \<lparr>targetDigest = (\<lambda>_. []), allocationDigest = (\<lambda>_. []), cohortDigest = (\<lambda>_. []),
     planDigest = (\<lambda>_. []), collation = (\<lambda>s. s), vendorOf = (\<lambda>p. p)\<rparr>"

definition example_cell :: "string \<Rightarrow> string \<Rightarrow> experiment_cell" where
  "example_cell i suite_name = \<lparr>c_id = i, c_provider = ''p'', c_quotaDomain = ''q'', c_suite = suite_name, c_replicate = 0,
     c_workloadRevision = ''w'', c_artifactIdentity = ''a'', c_environmentRevision = ''e'',
     c_target = \<lparr>vcpus = 4, memoryGb = 8, diskGb = None\<rparr>, c_gpu = None, c_metrics = [''m''], c_exclusions = [],
     c_passes = 1, c_startupMinutes = 5, c_workloadMinutes = 40, c_finishMinutes = 5\<rparr>"

definition example_batch :: "string \<Rightarrow> string \<Rightarrow> experiment_batch" where
  "example_batch i c = \<lparr>b_id = i, b_quotaDomain = ''q'', b_wave = None, b_cells = [c], b_maxConcurrency = 1, b_budgetMinutes = 65\<rparr>"

definition example_plan :: experiment_plan where
  "example_plan = \<lparr>p_id = ''x'', p_sha = ''s'', p_createdOn = ''2026-07-01'',
     p_cells = [example_cell ''c1'' ''disk'', example_cell ''c0'' ''memory''],
     p_batches = [example_batch ''b0'' ''c0'', example_batch ''b1'' ''c1''],
     p_accounts = [\<lparr>acc_quotaDomain = ''q'', acc_capacity = \<lparr>cap_sandboxes = Fin 1, cap_vcpus = None, cap_memoryGb = None, cap_gpus = None\<rparr>\<rparr>],
     p_rounds = [\<lparr>r_id = ''r0'', r_quotaDomain = ''q'', r_wave = None, r_batches = [''b0'']\<rparr>,
                 \<lparr>r_id = ''r1'', r_quotaDomain = ''q'', r_wave = None, r_batches = [''b1'']\<rparr>],
     p_maxPremeasurementRetries = 0, p_digest = []\<rparr>"

lemmas example_defs = example_services_def example_cell_def example_batch_def example_plan_def

lemma example_waves: "benchmarkWave ''disk'' = Some SyntheticSystem" "benchmarkWave ''memory'' = Some SyntheticMemory"
  by (simp_all add: benchmarkWave_def SUITES_def)

lemma example_date: "validDate ''2026-07-01''"
  by code_simp

lemma example_numeral: "nat_string 0 = ''0''"
  by code_simp

lemma example_schema: "plan_schema (plan_body.truncate example_plan)"
  by (simp add: plan_schema_def example_defs plan_body.defs cell_schema_def batch_schema_def capacity_schema_def
      target_schema_def safe_minutes_def max_safe_def)

lemma example_request: "verify_request example_services (plan_body.truncate example_plan) = Inr ()"
  by (simp add: verify_request_def example_defs plan_body.defs example_date logical_replicate_def example_numeral
      cell_eligible_def excluded_metric_def)

lemma example_schedule: "verify_schedule (plan_body.truncate example_plan) = Inr ()"
  by (simp add: verify_schedule_def verify_batch_def verify_round_def no_batches_def no_rounds_def example_defs plan_body.defs
      find_account_def find_cell_def cell_eligible_def excluded_metric_def List.map_filter_def suite_wave_def example_waves
      single_wave.simps insertion_order_def batch_fits_def gpu_demand_def gpu_limit_def max_member_budget_def cell_budget_def
      BENCH_JOB_CEILING_MINUTES_def Let_def)

lemma example_accepted: "verifyExperimentPlan example_services example_plan = Inr example_plan"
  using example_schema example_request example_schedule
  by (simp add: verifyExperimentPlan_def Let_def)
    (simp add: example_defs plan_body.defs cohort_evidence_def)

lemma accepted_plan_schedules_once_witness:
  "set (concat (map b_cells (p_batches example_plan))) = c_id ` {c \<in> set (p_cells example_plan). cell_eligible c}"
  using accepted_plan_schedules_once[OF example_accepted] by blast

text \<open>A batch of two cells, the second with a GPU demand, in an account without GPUs.\<close>

definition gpu_batch_plan :: experiment_plan where
  "gpu_batch_plan = example_plan\<lparr>
     p_cells := [example_cell ''c0'' ''disk'', (example_cell ''c1'' ''disk'')\<lparr>c_replicate := 1, c_gpu := Some \<lparr>gpu_model = ''H100'', gpu_count = 8\<rparr>\<rparr>],
     p_batches := [(example_batch ''b0'' ''c0'')\<lparr>b_cells := [''c0'', ''c1''], b_budgetMinutes := 130\<rparr>],
     p_rounds := [\<lparr>r_id = ''r0'', r_quotaDomain = ''q'', r_wave = None, r_batches = [''b0'']\<rparr>]\<rparr>"

text \<open>
  The resource test of a batch reads the GPU demand of its first member alone: the plan above puts a cell
  that needs eight GPUs into a batch of an account that has none, and is accepted.
\<close>

theorem gpu_demand_of_first_member_only:
  "verifyExperimentPlan example_services gpu_batch_plan = Inr gpu_batch_plan \<and>
   (\<exists>capacity c. find_account (plan_body.truncate gpu_batch_plan) ''q'' = Some capacity \<and>
      find_cell (plan_body.truncate gpu_batch_plan) ''c1'' = Some c \<and>
      ''c1'' \<in> set (b_cells (hd (p_batches gpu_batch_plan))) \<and> gpu_limit capacity < gpu_demand c)"
proof -
  have numeral: "nat_string 0 = ''0''" "nat_string (Suc 0) = ''1''" by code_simp+
  have schema: "plan_schema (plan_body.truncate gpu_batch_plan)"
    by (simp add: gpu_batch_plan_def plan_schema_def example_defs plan_body.defs cell_schema_def batch_schema_def
        capacity_schema_def target_schema_def gpu_schema_def safe_minutes_def max_safe_def)
  have request: "verify_request example_services (plan_body.truncate gpu_batch_plan) = Inr ()"
    by (simp add: gpu_batch_plan_def verify_request_def example_defs plan_body.defs example_date logical_replicate_def
        numeral cell_eligible_def excluded_metric_def)
  have schedule: "verify_schedule (plan_body.truncate gpu_batch_plan) = Inr ()"
    by (simp add: gpu_batch_plan_def verify_schedule_def verify_batch_def verify_round_def no_batches_def no_rounds_def
        example_defs plan_body.defs find_account_def find_cell_def cell_eligible_def excluded_metric_def List.map_filter_def
        suite_wave_def example_waves single_wave.simps insertion_order_def batch_fits_def gpu_demand_def gpu_limit_def
        max_member_budget_def cell_budget_def BENCH_JOB_CEILING_MINUTES_def Let_def)
  have "verifyExperimentPlan example_services gpu_batch_plan = Inr gpu_batch_plan"
    using schema request schedule
    by (simp add: verifyExperimentPlan_def Let_def)
      (simp add: gpu_batch_plan_def example_defs plan_body.defs cohort_evidence_def)
  then show ?thesis
    by (simp add: gpu_batch_plan_def example_defs plan_body.defs find_account_def find_cell_def gpu_limit_def gpu_demand_def)
qed

end
