(* ===== verification/Planner.thy ===== *)
theory Planner
  imports PlanVerifier
begin

text \<open>
  \<open>planExperiment\<close> of \<open>apps/cli/src/lib/experiment-plan.ts\<close>: account policy, admission of the
  eligible cells, grouping, batches, rounds and the call of the verifier on the result. The lemmas
  show that the schedule it makes passes every check of \<open>PlanVerifier\<close>.
\<close>

section \<open>Requests and policy\<close>

record plan_request =
  q_id :: string
  q_sha :: string
  q_createdOn :: string
  q_cells :: "experiment_cell list"
  q_maxPremeasurementRetries :: "nat option"

type_synonym account_policy = "string \<rightharpoonup> account_capacity"

definition ROUND_BATCH_LIMIT :: nat where
  "ROUND_BATCH_LIMIT = 64"

text \<open>\<open>policy[quotaDomain] ?? { sandboxes: 1 }\<close>.\<close>

definition capacity_of :: "account_policy \<Rightarrow> string \<Rightarrow> account_capacity" where
  "capacity_of policy q =
     (case policy q of
        Some capacity \<Rightarrow> capacity
      | None \<Rightarrow> \<lparr>cap_sandboxes = Fin 1, cap_vcpus = None, cap_memoryGb = None, cap_gpus = None\<rparr>)"

text \<open>\<open>Number.isSafeInteger\<close>, and a share that is absent or finite and positive.\<close>

fun safe_count :: "jsnum \<Rightarrow> int option" where
  "safe_count (Fin x) = (if x = of_int \<lfloor>x\<rfloor> \<and> \<bar>x\<bar> \<le> max_safe then Some \<lfloor>x\<rfloor> else None)"
| "safe_count _ = None"

fun share_value :: "jsnum option \<Rightarrow> real option option" where
  "share_value None = Some None"
| "share_value (Some (Fin x)) = (if 0 < x then Some (Some x) else None)"
| "share_value (Some _) = None"

text \<open>\<open>Math.floor((limit ?? Infinity) / demand)\<close>, without a bound when the limit is absent.\<close>

definition share :: "real option \<Rightarrow> real \<Rightarrow> int option" where
  "share limit demand = map_option (\<lambda>v. \<lfloor>v / demand\<rfloor>) limit"

definition gpu_share :: "account_capacity \<Rightarrow> experiment_cell \<Rightarrow> int option" where
  "gpu_share capacity cell = map_option (\<lambda>g. int (gpu_limit capacity div gpu_count g)) (c_gpu cell)"

definition min_share :: "int \<Rightarrow> int option \<Rightarrow> int" where
  "min_share n s = (case s of None \<Rightarrow> n | Some m \<Rightarrow> min n m)"

section \<open>Admission of a cell\<close>

record prepared =
  pr_cell :: experiment_cell
  pr_cap :: nat
  pr_budget :: real
  pr_wave :: benchmark_wave
  pr_identity :: string

definition allocation :: "experiment_cell \<Rightarrow> string \<times> target_spec \<times> gpu_spec option \<times> string \<times> real" where
  "allocation cell =
     (c_quotaDomain cell, c_target cell, c_gpu cell, c_environmentRevision cell, c_startupMinutes cell)"

definition allocationIdentity :: "services \<Rightarrow> experiment_cell \<Rightarrow> string" where
  "allocationIdentity S cell = allocationDigest S (allocation cell)"

definition prepare_cell :: "services \<Rightarrow> account_policy \<Rightarrow> experiment_cell \<Rightarrow> plan_error + prepared" where
  "prepare_cell S policy cell =
     (let capacity = capacity_of policy (c_quotaDomain cell)
      in case (safe_count (cap_sandboxes capacity), share_value (cap_vcpus capacity), share_value (cap_memoryGb capacity)) of
           (Some sandboxes, Some cpu, Some memory) \<Rightarrow>
             if sandboxes < 1 then Inl (InvalidCapacity (c_quotaDomain cell))
             else
               let cap = min_share (min_share (min_share sandboxes (share cpu (vcpus (c_target cell))))
                           (share memory (memoryGb (c_target cell)))) (gpu_share capacity cell)
               in if cap < 1 then Inl (TargetExceedsCapacity (c_id cell))
                  else if real BENCH_JOB_CEILING_MINUTES < cell_budget cell then Inl (ReplicateTooLong (c_id cell))
                  else and_then (suite_wave cell) (\<lambda>w.
                    Inr \<lparr>pr_cell = cell, pr_cap = nat cap, pr_budget = cell_budget cell, pr_wave = w,
                      pr_identity = allocationIdentity S cell\<rparr>)
         | _ \<Rightarrow> Inl (InvalidCapacity (c_quotaDomain cell)))"

text \<open>
  The stable sort by wave. Its comparator looks up both suites, so with two cells or more an unknown
  suite is thrown here (which one is named first depends on the engine), with one cell it is not.
\<close>

definition order_cells :: "experiment_cell list \<Rightarrow> plan_error + experiment_cell list" where
  "order_cells cells =
     (if length cells < 2 then Inr cells
      else and_then (sequence (map suite_wave cells)) (\<lambda>_.
        Inr (sort_key (\<lambda>c. case benchmarkWave (c_suite c) of Some w \<Rightarrow> wave_rank w | None \<Rightarrow> 0) cells)))"

section \<open>Batches and rounds\<close>

text \<open>Elements pushed one by one, each made from the length of the array it is pushed on.\<close>

definition push_numbered :: "(nat \<Rightarrow> 'a \<Rightarrow> 'b) \<Rightarrow> 'b list \<Rightarrow> 'a list \<Rightarrow> 'b list" where
  "push_numbered mk acc xs = foldl (\<lambda>ys x. ys @ [mk (length ys) x]) acc xs"

definition group_key :: "prepared \<Rightarrow> string \<times> benchmark_wave \<times> string" where
  "group_key entry = (c_quotaDomain (pr_cell entry), pr_wave entry, pr_identity entry)"

definition group_budget :: "prepared list \<Rightarrow> real" where
  "group_budget grp = (case grp of [] \<Rightarrow> 0 | p # ps \<Rightarrow> foldl max (pr_budget p) (map pr_budget ps))"

definition affordable :: "real \<Rightarrow> nat" where
  "affordable budget = nat (max 1 \<lfloor>real BENCH_JOB_CEILING_MINUTES / budget\<rfloor>)"

text \<open>The chunks of one group, each with the first entry and the budget of the group.\<close>

definition group_chunks :: "prepared list \<Rightarrow> (prepared \<times> real \<times> prepared list) list" where
  "group_chunks grp =
     (case grp of
        [] \<Rightarrow> []
      | first # _ \<Rightarrow>
          let budget = group_budget grp; size = min (length grp) (pr_cap first * affordable budget)
          in map (\<lambda>chunk. (first, budget, chunk)) (chunks size grp))"

definition make_batch :: "nat \<Rightarrow> prepared \<times> real \<times> prepared list \<Rightarrow> experiment_batch" where
  "make_batch n stub =
     (case stub of (first, budget, chunk) \<Rightarrow>
        \<lparr>b_id = ''batch-'' @ nat_string n, b_quotaDomain = c_quotaDomain (pr_cell first), b_wave = Some (pr_wave first),
         b_cells = map (\<lambda>e. c_id (pr_cell e)) chunk, b_maxConcurrency = pr_cap first,
         b_budgetMinutes = of_int \<lceil>real (length chunk) / real (pr_cap first)\<rceil> * budget\<rparr>)"

definition plan_batches :: "prepared list \<Rightarrow> experiment_batch list" where
  "plan_batches entries = push_numbered make_batch [] (concat (map (\<lambda>g. group_chunks (snd g)) (group_by group_key entries)))"

definition make_round :: "nat \<Rightarrow> string \<times> benchmark_wave \<times> experiment_batch list \<Rightarrow> experiment_round" where
  "make_round n stub =
     (case stub of (q, w, bs) \<Rightarrow>
        \<lparr>r_id = ''round-'' @ nat_string n, r_quotaDomain = q, r_wave = Some w, r_batches = map b_id bs\<rparr>)"

definition round_chunks :: "experiment_batch list \<Rightarrow> string \<Rightarrow> benchmark_wave \<Rightarrow> (string \<times> benchmark_wave \<times> experiment_batch list) list" where
  "round_chunks batches q w =
     map (\<lambda>bs. (q, w, bs)) (chunks ROUND_BATCH_LIMIT (filter (\<lambda>b. b_quotaDomain b = q \<and> b_wave b = Some w) batches))"

definition domains_of :: "experiment_cell list \<Rightarrow> string list" where
  "domains_of cells = insertion_order (map c_quotaDomain cells)"

definition plan_rounds :: "experiment_cell list \<Rightarrow> experiment_batch list \<Rightarrow> experiment_round list" where
  "plan_rounds cells batches =
     push_numbered make_round []
       (concat (map (\<lambda>q. concat (map (round_chunks batches q) BENCHMARK_WAVE_ORDER)) (domains_of cells)))"

section \<open>The planner\<close>

definition draft_plan :: "services \<Rightarrow> account_policy \<Rightarrow> plan_request \<Rightarrow> plan_error + plan_body" where
  "draft_plan S policy request =
     (if \<not> list_all cell_schema (q_cells request) then Inl SchemaRejected
      else
        let cells = q_cells request
        in and_then (order_cells (filter cell_eligible cells)) (\<lambda>ordered.
           and_then (sequence (map (prepare_cell S policy) ordered)) (\<lambda>entries.
             let batches = plan_batches entries
             in Inr \<lparr>p_id = q_id request, p_sha = q_sha request, p_createdOn = q_createdOn request, p_cells = cells,
                  p_batches = batches,
                  p_accounts = map (\<lambda>q. \<lparr>acc_quotaDomain = q, acc_capacity = capacity_of policy q\<rparr>) (domains_of cells),
                  p_rounds = plan_rounds cells batches,
                  p_maxPremeasurementRetries =
                    (case q_maxPremeasurementRetries request of None \<Rightarrow> 0 | Some n \<Rightarrow> n)\<rparr>)))"

definition planExperiment :: "services \<Rightarrow> account_policy \<Rightarrow> plan_request \<Rightarrow> plan_error + experiment_plan" where
  "planExperiment S policy request =
     and_then (draft_plan S policy request) (\<lambda>body.
       verifyExperimentPlan S (plan_body.extend body (experiment_plan.fields (planDigest S body))))"

section \<open>Pushing, grouping and partitioning\<close>

lemma push_numbered_eq:
  "push_numbered mk acc xs = acc @ map (\<lambda>(i, x). mk i x) (enumerate (length acc) xs)"
proof (induction xs arbitrary: acc)
  case (Cons x xs)
  have "push_numbered mk acc (x # xs) = push_numbered mk (acc @ [mk (length acc) x]) xs"
    by (simp add: push_numbered_def)
  then show ?case using Cons[of "acc @ [mk (length acc) x]"] by simp
qed (simp add: push_numbered_def)

lemma push_numbered_map:
  assumes "\<And>i x. f (mk i x) = g x"
  shows "map f (push_numbered mk [] xs) = map g xs"
proof -
  have "map f (map (\<lambda>(i, x). mk i x) (enumerate n xs)) = map g xs" for n
    by (induction xs arbitrary: n) (auto simp: assms)
  then show ?thesis by (simp add: push_numbered_eq)
qed

lemma push_numbered_ids:
  assumes "\<And>i x. f (mk i x) = g i"
  shows "map f (push_numbered mk [] xs) = map g [0..<length xs]"
proof -
  have "map f (map (\<lambda>(i, x). mk i x) (enumerate n xs)) = map g [n..<n + length xs]" for n
  proof (induction xs arbitrary: n)
    case (Cons x xs)
    have "[n..<n + length (x # xs)] = n # [Suc n..<Suc n + length xs]"
      by (simp add: upt_conv_Cons del: upt_Suc)
    then show ?case using Cons[of "Suc n"] by (simp add: assms del: upt_Suc)
  qed simp
  then show ?thesis by (simp add: push_numbered_eq)
qed

lemma push_numbered_mem: "y \<in> set (push_numbered mk [] xs) \<Longrightarrow> \<exists>i. \<exists>x\<in>set xs. y = mk i x"
  unfolding push_numbered_eq by (force simp: in_set_enumerate_eq)

lemma sorted_wrt_insertion_order: "sorted_wrt P xs \<Longrightarrow> sorted_wrt P (insertion_order xs)"
proof -
  have "sorted_wrt Q ys \<Longrightarrow> sorted_wrt Q (remdups ys)" for Q and ys :: "'a list"
    by (induction ys) auto
  then show "sorted_wrt P xs \<Longrightarrow> sorted_wrt P (insertion_order xs)"
    by (simp add: insertion_order_def sorted_wrt_rev)
qed

lemma mset_partition:
  assumes "distinct ks" "key ` set xs \<subseteq> set ks"
  shows "mset (concat (map (\<lambda>k. filter (\<lambda>x. key x = k) xs) ks)) = mset xs"
  using assms(2)
proof (induction xs)
  case Nil
  then show ?case by (induction ks) auto
next
  case (Cons x xs)
  have "distinct ks \<Longrightarrow> mset (concat (map (\<lambda>k. filter (\<lambda>y. key y = k) (x # xs)) ks)) =
      mset (concat (map (\<lambda>k. filter (\<lambda>y. key y = k) xs) ks)) + (if key x \<in> set ks then {#x#} else {#})" for ks
    by (induction ks) auto
  then show ?case using assms(1) Cons by auto
qed

lemma sorted_wrt_concat:
  assumes "sorted_wrt R ks" "\<And>k x y. k \<in> set ks \<Longrightarrow> x \<in> set (f k) \<Longrightarrow> y \<in> set (f k) \<Longrightarrow> P x y"
    and "\<And>j k x y. R j k \<Longrightarrow> x \<in> set (f j) \<Longrightarrow> y \<in> set (f k) \<Longrightarrow> P x y"
  shows "sorted_wrt P (concat (map f ks))"
  using assms
proof (induction ks)
  case (Cons k ks)
  have "sorted_wrt P ys" if "\<And>x y. x \<in> set ys \<Longrightarrow> y \<in> set ys \<Longrightarrow> P x y" for ys
    using that by (induction ys) auto
  then have "sorted_wrt P (f k)" using Cons.prems(2)[of k] by simp
  moreover have "P x y" if "x \<in> set (f k)" "j \<in> set ks" "y \<in> set (f j)" for x y j
    using Cons.prems(1,3) that by auto
  moreover have "sorted_wrt P (concat (map f ks))"
    by (rule Cons.IH) (use Cons.prems in auto)
  ultimately show ?case by (auto simp: sorted_wrt_append)
qed simp

lemma group_by_mem:
  assumes "(k, g) \<in> set (group_by key xs)"
  shows "g = filter (\<lambda>x. key x = k) xs \<and> g \<noteq> []"
  using assms by (auto simp: group_by_map filter_empty_conv)

lemma mset_group_by: "mset (concat (map snd (group_by key xs))) = mset xs"
proof -
  have "map snd (group_by key xs) = map (\<lambda>k. filter (\<lambda>x. key x = k) xs) (insertion_order (map key xs))"
    by (simp add: group_by_map)
  then show ?thesis by (simp add: mset_partition)
qed

section \<open>Admitted entries\<close>

definition entry_ok :: "services \<Rightarrow> account_policy \<Rightarrow> prepared \<Rightarrow> bool" where
  "entry_ok S policy e \<longleftrightarrow>
     (let cell = pr_cell e; capacity = capacity_of policy (c_quotaDomain cell)
      in cell_schema cell \<and> pr_budget e = cell_budget cell \<and> benchmarkWave (c_suite cell) = Some (pr_wave e) \<and>
         pr_identity e = allocationIdentity S cell \<and> 1 \<le> pr_cap e \<and>
         cell_budget cell \<le> real BENCH_JOB_CEILING_MINUTES \<and>
         \<not> more_than (pr_cap e) (cap_sandboxes capacity) \<and>
         \<not> gpu_limit capacity < gpu_demand cell * pr_cap e \<and>
         \<not> exceeds (vcpus (c_target cell) * real (pr_cap e)) (cap_vcpus capacity) \<and>
         \<not> exceeds (memoryGb (c_target cell) * real (pr_cap e)) (cap_memoryGb capacity))"

lemma min_share_le: "min_share n s \<le> n" "s = Some m \<Longrightarrow> min_share n s \<le> m"
  by (auto simp: min_share_def split: option.splits)

lemma safe_count_more: "safe_count x = Some n \<Longrightarrow> 0 \<le> m \<Longrightarrow> m \<le> n \<Longrightarrow> \<not> more_than (nat m) x"
proof (cases x)
  case (Fin r)
  assume "safe_count x = Some n" "0 \<le> m" "m \<le> n"
  then have "n = \<lfloor>r\<rfloor>" "real_of_int m \<le> real_of_int n" "0 \<le> m" using Fin by (auto split: if_splits)
  then have "real (nat m) \<le> r" by linarith
  then show ?thesis using Fin by simp
qed simp_all

lemma share_exceeds:
  assumes "share_value limit = Some v" "0 < demand" "\<And>m. share v demand = Some m \<Longrightarrow> n \<le> m" "0 \<le> n"
  shows "\<not> exceeds (demand * real (nat n)) limit"
proof (cases limit)
  case (Some l)
  then obtain x where x: "l = Fin x" "v = Some x" using assms(1) by (cases l) (auto split: if_splits)
  then have "n \<le> \<lfloor>x / demand\<rfloor>" using assms(3) by (simp add: share_def)
  then have "real_of_int n \<le> x / demand" by linarith
  then have "demand * real_of_int n \<le> x" using assms(2) by (simp add: field_simps)
  then show ?thesis using assms(4) x Some by simp
qed simp

lemma prepare_cell_ok:
  assumes "prepare_cell S policy cell = Inr e" "cell_schema cell"
  shows "pr_cell e = cell \<and> entry_ok S policy e"
proof -
  let ?capacity = "capacity_of policy (c_quotaDomain cell)"
  obtain n cpu memory where n: "safe_count (cap_sandboxes ?capacity) = Some n"
    "share_value (cap_vcpus ?capacity) = Some cpu" "share_value (cap_memoryGb ?capacity) = Some memory"
    using assms(1) by (auto simp: prepare_cell_def Let_def split: option.splits)
  define a where "a = min_share n (share cpu (vcpus (c_target cell)))"
  define b where "b = min_share a (share memory (memoryGb (c_target cell)))"
  define cap where "cap = min_share b (gpu_share ?capacity cell)"
  have e: "1 \<le> cap" "cell_budget cell \<le> real BENCH_JOB_CEILING_MINUTES" "benchmarkWave (c_suite cell) = Some (pr_wave e)"
    "e = \<lparr>pr_cell = cell, pr_cap = nat cap, pr_budget = cell_budget cell, pr_wave = pr_wave e,
      pr_identity = allocationIdentity S cell\<rparr>"
    using assms(1) n unfolding prepare_cell_def Let_def cap_def b_def a_def
    by (auto simp: and_then_Inr_iff suite_wave_Inr split: if_splits)
  have le: "cap \<le> b" "b \<le> a" "a \<le> n" unfolding cap_def b_def a_def by (rule min_share_le)+
  have "cap \<le> m" if "share cpu (vcpus (c_target cell)) = Some m" for m
    using min_share_le(2)[OF that, of n] le unfolding a_def by linarith
  moreover have "cap \<le> m" if "share memory (memoryGb (c_target cell)) = Some m" for m
    using min_share_le(2)[OF that, of a] le unfolding b_def by linarith
  moreover have "0 < vcpus (c_target cell)" "0 < memoryGb (c_target cell)"
    using assms(2) by (auto simp: cell_schema_def target_schema_def safe_minutes_def)
  ultimately have "\<not> exceeds (vcpus (c_target cell) * real (nat cap)) (cap_vcpus ?capacity)"
    "\<not> exceeds (memoryGb (c_target cell) * real (nat cap)) (cap_memoryGb ?capacity)"
    using share_exceeds n(2,3) e(1) by simp_all
  moreover have "gpu_demand cell * nat cap \<le> gpu_limit ?capacity"
  proof (cases "c_gpu cell")
    case (Some g)
    then have "cap \<le> int (gpu_limit ?capacity div gpu_count g)"
      unfolding cap_def by (intro min_share_le(2)) (simp add: gpu_share_def)
    then have "nat cap \<le> gpu_limit ?capacity div gpu_count g" by linarith
    then have "gpu_count g * nat cap \<le> gpu_limit ?capacity"
      by (meson mult_le_mono2 order_trans times_div_less_eq_dividend)
    then show ?thesis using Some by (simp add: gpu_demand_def)
  qed (simp add: gpu_demand_def)
  moreover have "\<not> more_than (nat cap) (cap_sandboxes ?capacity)"
    using safe_count_more[OF n(1)] e(1) le by simp
  ultimately show ?thesis
    using e assms(2) unfolding entry_ok_def Let_def
    by (metis (no_types, lifting) not_less prepared.select_convs(1,2,3,5) nat_mono nat_1 One_nat_def)
qed

lemma order_cells_Inr:
  assumes "order_cells cells = Inr ordered"
  shows "mset ordered = mset cells \<and>
    sorted_wrt (\<lambda>a b. \<forall>v w. benchmarkWave (c_suite a) = Some v \<longrightarrow> benchmarkWave (c_suite b) = Some w \<longrightarrow> v \<le> w) ordered"
proof (cases "length cells < 2")
  case True
  then show ?thesis using assms by (cases cells) (auto simp: order_cells_def)
next
  case False
  let ?rank = "\<lambda>c. case benchmarkWave (c_suite c) of Some w \<Rightarrow> wave_rank w | None \<Rightarrow> 0"
  have ordered: "ordered = sort_key ?rank cells" using assms False by (auto simp: order_cells_def and_then_Inr_iff)
  have "sorted (map ?rank ordered)" unfolding ordered by simp
  then have "sorted_wrt (\<lambda>a b. ?rank a \<le> ?rank b) ordered" by (simp add: sorted_map)
  then have "sorted_wrt (\<lambda>a b. \<forall>v w. benchmarkWave (c_suite a) = Some v \<longrightarrow> benchmarkWave (c_suite b) = Some w \<longrightarrow> v \<le> w) ordered"
    by (rule sorted_wrt_mono_rel[rotated]) (auto simp: less_eq_benchmark_wave_def)
  then show ?thesis by (simp add: ordered)
qed

definition admitted :: "services \<Rightarrow> account_policy \<Rightarrow> experiment_cell list \<Rightarrow> prepared list \<Rightarrow> bool" where
  "admitted S policy cells entries \<longleftrightarrow>
     mset (map pr_cell entries) = mset (filter cell_eligible cells) \<and>
     (\<forall>e\<in>set entries. entry_ok S policy e) \<and> sorted_wrt (\<lambda>a b. pr_wave a \<le> pr_wave b) entries"

lemma draft_plan_admitted:
  assumes "draft_plan S policy request = Inr body"
  shows "\<exists>entries. admitted S policy (q_cells request) entries \<and> p_cells body = q_cells request \<and>
    p_batches body = plan_batches entries \<and> p_rounds body = plan_rounds (q_cells request) (plan_batches entries) \<and>
    p_accounts body = map (\<lambda>q. \<lparr>acc_quotaDomain = q, acc_capacity = capacity_of policy q\<rparr>) (domains_of (q_cells request))"
proof -
  obtain ordered entries where o: "list_all cell_schema (q_cells request)"
    "order_cells (filter cell_eligible (q_cells request)) = Inr ordered"
    "sequence (map (prepare_cell S policy) ordered) = Inr entries"
    "p_cells body = q_cells request \<and> p_batches body = plan_batches entries \<and>
     p_rounds body = plan_rounds (q_cells request) (plan_batches entries) \<and>
     p_accounts body = map (\<lambda>q. \<lparr>acc_quotaDomain = q, acc_capacity = capacity_of policy q\<rparr>) (domains_of (q_cells request))"
    using assms by (auto simp: draft_plan_def Let_def and_then_Inr_iff split: if_splits)
  note ordered = order_cells_Inr[OF o(2)]
  have schema: "cell_schema c" if "c \<in> set ordered" for c
  proof -
    have "set ordered = set (filter cell_eligible (q_cells request))" using ordered by (metis mset_eq_setD)
    then show ?thesis using that o(1) by (simp add: list_all_iff)
  qed
  have each: "list_all2 (\<lambda>c e. prepare_cell S policy c = Inr e) ordered entries"
    using o(3) by (auto simp: sequence_Inr_iff list_all2_conv_all_nth list_eq_iff_nth_eq)
  have ok: "pr_cell e = c \<and> entry_ok S policy e" if "(c, e) \<in> set (zip ordered entries)" for c e
    using each that schema prepare_cell_ok[of S policy c e] by (auto simp: list_all2_iff dest: set_zip_leftD)
  have len: "length ordered = length entries" using each by (rule list_all2_lengthD)
  have nth: "pr_cell (entries ! i) = ordered ! i" "entry_ok S policy (entries ! i)" if "i < length entries" for i
  proof -
    have "(ordered ! i, entries ! i) \<in> set (zip ordered entries)" using that len by (auto simp: set_zip)
    then show "pr_cell (entries ! i) = ordered ! i" "entry_ok S policy (entries ! i)" using ok by blast+
  qed
  then have cells: "map pr_cell entries = ordered" using len by (auto intro: nth_equalityI)
  have all: "\<forall>e\<in>set entries. entry_ok S policy e" using nth(2) by (auto simp: in_set_conv_nth)
  have "sorted_wrt (\<lambda>a b. \<forall>v w. benchmarkWave (c_suite (pr_cell a)) = Some v \<longrightarrow> benchmarkWave (c_suite (pr_cell b)) = Some w \<longrightarrow> v \<le> w) entries"
    using ordered unfolding cells[symmetric] by (simp add: sorted_wrt_map)
  then have "sorted_wrt (\<lambda>a b. pr_wave a \<le> pr_wave b) entries"
    by (rule sorted_wrt_mono_rel[rotated]) (use all in \<open>auto simp: entry_ok_def Let_def\<close>)
  then have "admitted S policy (q_cells request) entries"
    using cells ordered all by (auto simp: admitted_def)
  then show ?thesis using o(4) by blast
qed

section \<open>Chunks of a group\<close>

lemma foldl_max_ge: "(x::real) = a \<or> x \<in> set xs \<Longrightarrow> x \<le> foldl max a xs"
proof (induction xs arbitrary: a)
  case (Cons y ys)
  have ge: "b \<le> foldl max b ys" for b :: real
    by (induction ys arbitrary: b) (auto intro: order_trans[OF max.cobounded1])
  show ?case
  proof (cases "x \<in> set ys")
    case True
    then show ?thesis using Cons.IH[of "max a y"] by simp
  next
    case False
    then have "x \<le> max a y" using Cons.prems by auto
    then show ?thesis using order_trans[OF _ ge[of "max a y"]] by simp
  qed
qed simp

lemma foldl_max_mem: "foldl max (a::real) xs \<in> insert a (set xs)"
proof (induction xs arbitrary: a)
  case (Cons y ys)
  then show ?case using Cons[of "max a y"] by (auto simp: max_def split: if_splits)
qed simp

lemma group_budget_ge: "e \<in> set g \<Longrightarrow> pr_budget e \<le> group_budget g"
  by (cases g) (auto simp: group_budget_def intro!: foldl_max_ge)

lemma group_budget_mem: "g \<noteq> [] \<Longrightarrow> \<exists>e\<in>set g. group_budget g = pr_budget e"
proof (cases g)
  case (Cons p ps)
  then show ?thesis using foldl_max_mem[of "pr_budget p" "map pr_budget ps"] by (auto simp: group_budget_def)
qed simp

lemma affordable_budget:
  assumes "0 < budget" "budget \<le> real BENCH_JOB_CEILING_MINUTES"
  shows "real (affordable budget) * budget \<le> real BENCH_JOB_CEILING_MINUTES \<and> 1 \<le> affordable budget"
proof -
  have "1 \<le> real BENCH_JOB_CEILING_MINUTES / budget" using assms by simp
  then have one: "1 \<le> \<lfloor>real BENCH_JOB_CEILING_MINUTES / budget\<rfloor>" by linarith
  then have "real (affordable budget) = of_int \<lfloor>real BENCH_JOB_CEILING_MINUTES / budget\<rfloor>"
    by (simp add: affordable_def max_def)
  then have "real (affordable budget) \<le> real BENCH_JOB_CEILING_MINUTES / budget" by linarith
  then have "real (affordable budget) * budget \<le> real BENCH_JOB_CEILING_MINUTES" using assms(1) by (simp add: field_simps)
  moreover have "1 \<le> affordable budget" using one unfolding affordable_def by linarith
  ultimately show ?thesis by blast
qed

lemma ceiling_windows: "0 < cap \<Longrightarrow> n \<le> cap * k \<Longrightarrow> real_of_int \<lceil>real n / real cap\<rceil> \<le> real k"
proof -
  assume "0 < cap" "n \<le> cap * k"
  then have "real n \<le> real cap * real k" by (metis of_nat_le_iff of_nat_mult)
  then have "real n / real cap \<le> real k" using \<open>0 < cap\<close> by (simp add: field_simps)
  then have "\<lceil>real n / real cap\<rceil> \<le> int k" by (simp add: ceiling_le_iff)
  then show ?thesis by linarith
qed

definition stub_ok :: "prepared list \<Rightarrow> prepared \<times> real \<times> prepared list \<Rightarrow> bool" where
  "stub_ok entries stub \<longleftrightarrow>
     (case stub of (first, budget, chunk) \<Rightarrow>
        first \<in> set entries \<and> chunk \<noteq> [] \<and> 0 < budget \<and>
        (\<forall>e\<in>set chunk. e \<in> set entries \<and> group_key e = group_key first \<and> pr_budget e \<le> budget) \<and>
        of_int \<lceil>real (length chunk) / real (pr_cap first)\<rceil> * budget \<le> real BENCH_JOB_CEILING_MINUTES)"

definition entries_bounded :: "prepared list \<Rightarrow> bool" where
  "entries_bounded entries \<longleftrightarrow>
     (\<forall>e\<in>set entries. 1 \<le> pr_cap e \<and> 0 < pr_budget e \<and> pr_budget e \<le> real BENCH_JOB_CEILING_MINUTES)"

lemma admitted_bounded: "admitted S policy cells entries \<Longrightarrow> entries_bounded entries"
  by (auto simp: admitted_def entries_bounded_def entry_ok_def Let_def cell_schema_def safe_minutes_def cell_budget_def)

lemma group_chunks_ok:
  assumes "entries_bounded entries" "(k, g) \<in> set (group_by group_key entries)"
  shows "concat (map (\<lambda>stub. snd (snd stub)) (group_chunks g)) = g \<and>
    (\<forall>stub\<in>set (group_chunks g). stub_ok entries stub \<and> group_key (fst stub) = k)"
proof -
  have g: "g = filter (\<lambda>x. group_key x = k) entries" "g \<noteq> []" using group_by_mem[OF assms(2)] by blast+
  obtain first rest where fr: "g = first # rest" using g(2) by (cases g) auto
  have sub: "e \<in> set entries \<and> group_key e = k" if "e \<in> set g" for e using that g(1) by simp
  then have first: "first \<in> set entries" "group_key first = k" using fr by auto
  obtain e where e: "e \<in> set g" "group_budget g = pr_budget e" using group_budget_mem[OF g(2)] by blast
  have b: "0 < group_budget g" "group_budget g \<le> real BENCH_JOB_CEILING_MINUTES"
    using e sub assms(1) by (auto simp: entries_bounded_def)
  note aff = affordable_budget[OF b]
  have cap: "1 \<le> pr_cap first" using first assms(1) by (auto simp: entries_bounded_def)
  define size_of where "size_of = min (length g) (pr_cap first * affordable (group_budget g))"
  have pos: "0 < size_of" using cap aff g(2) by (simp add: size_of_def)
  have chunks: "group_chunks g = map (\<lambda>chunk. (first, group_budget g, chunk)) (chunks size_of g)"
    by (simp add: group_chunks_def fr size_of_def Let_def)
  have "stub_ok entries (first, group_budget g, chunk)" if c: "chunk \<in> set (chunks size_of g)" for chunk
  proof -
    note m = chunks_mem[OF c]
    have "length chunk \<le> pr_cap first * affordable (group_budget g)" using m by (simp add: size_of_def)
    then have "of_int \<lceil>real (length chunk) / real (pr_cap first)\<rceil> \<le> real (affordable (group_budget g))"
      using cap by (intro ceiling_windows) auto
    then have "of_int \<lceil>real (length chunk) / real (pr_cap first)\<rceil> * group_budget g \<le> real (affordable (group_budget g)) * group_budget g"
      using b(1) by (intro mult_right_mono) auto
    then have "of_int \<lceil>real (length chunk) / real (pr_cap first)\<rceil> * group_budget g \<le> real BENCH_JOB_CEILING_MINUTES"
      using aff by linarith
    then show ?thesis
      using m first b(1) sub group_budget_ge[of _ g] by (auto simp: stub_ok_def)
  qed
  then show ?thesis
    using concat_chunks[OF pos, of g] first by (auto simp: chunks comp_def)
qed

definition all_stubs :: "prepared list \<Rightarrow> (prepared \<times> real \<times> prepared list) list" where
  "all_stubs entries = concat (map (\<lambda>g. group_chunks (snd g)) (group_by group_key entries))"

lemma all_stubs_ok:
  assumes "entries_bounded entries"
  shows "mset (concat (map (\<lambda>stub. snd (snd stub)) (all_stubs entries))) = mset entries \<and>
    (\<forall>stub\<in>set (all_stubs entries). stub_ok entries stub)"
proof -
  have "concat (map (\<lambda>stub. snd (snd stub)) (concat (map (\<lambda>g. group_chunks (snd g)) gs))) = concat (map snd gs)"
    if "set gs \<subseteq> set (group_by group_key entries)" for gs
    using that
  proof (induction gs)
    case (Cons p gs)
    then show ?case using group_chunks_ok[OF assms, of "fst p" "snd p"] by simp
  qed simp
  then have "concat (map (\<lambda>stub. snd (snd stub)) (all_stubs entries)) = concat (map snd (group_by group_key entries))"
    by (simp add: all_stubs_def)
  then show ?thesis
    using mset_group_by[of group_key entries] group_chunks_ok[OF assms] by (auto simp: all_stubs_def)
qed

lemma all_stubs_sorted:
  assumes "entries_bounded entries" "sorted_wrt (\<lambda>a b. pr_wave a \<le> pr_wave b) entries"
  shows "sorted_wrt (\<lambda>s t. pr_wave (fst s) \<le> pr_wave (fst t)) (all_stubs entries)"
  unfolding all_stubs_def
proof (rule sorted_wrt_concat)
  have "sorted_wrt (\<lambda>j k. fst (snd j) \<le> fst (snd k)) (map group_key entries)"
    using assms(2) by (simp add: sorted_wrt_map group_key_def)
  then have keys: "sorted_wrt (\<lambda>j k. fst (snd j) \<le> fst (snd k)) (insertion_order (map group_key entries))"
    by (rule sorted_wrt_insertion_order)
  show "sorted_wrt (\<lambda>g h. (g \<in> set (group_by group_key entries) \<and> h \<in> set (group_by group_key entries)) \<and>
      fst (snd (fst g)) \<le> fst (snd (fst h))) (group_by group_key entries)"
    by (rule sorted_wrt_mono_rel[of _ "\<lambda>g h. fst (snd (fst g)) \<le> fst (snd (fst h))"])
      (use keys in \<open>auto simp: group_by_map sorted_wrt_map\<close>)
next
  fix g x y
  assume "g \<in> set (group_by group_key entries)" "x \<in> set (group_chunks (snd g))" "y \<in> set (group_chunks (snd g))"
  then have "group_key (fst x) = group_key (fst y)" using group_chunks_ok[OF assms(1), of "fst g" "snd g"] by auto
  then show "pr_wave (fst x) \<le> pr_wave (fst y)" by (simp add: group_key_def)
next
  fix g h x y
  assume a: "(g \<in> set (group_by group_key entries) \<and> h \<in> set (group_by group_key entries)) \<and> fst (snd (fst g)) \<le> fst (snd (fst h))"
    "x \<in> set (group_chunks (snd g))" "y \<in> set (group_chunks (snd h))"
  then have "group_key (fst x) = fst g" "group_key (fst y) = fst h"
    using group_chunks_ok[OF assms(1), of "fst g" "snd g"] group_chunks_ok[OF assms(1), of "fst h" "snd h"] by auto
  then have "pr_wave (fst x) = fst (snd (fst g))" "pr_wave (fst y) = fst (snd (fst h))"
    unfolding group_key_def by (metis fst_conv snd_conv)+
  then show "pr_wave (fst x) \<le> pr_wave (fst y)" using a(1) by simp
qed

section \<open>The batches pass the verifier\<close>

definition same_demand :: "prepared list \<Rightarrow> bool" where
  "same_demand entries \<longleftrightarrow>
     (\<forall>e\<in>set entries. \<forall>f\<in>set entries. group_key e = group_key f \<longrightarrow>
        c_target (pr_cell e) = c_target (pr_cell f) \<and> c_gpu (pr_cell e) = c_gpu (pr_cell f))"

definition drafted :: "services \<Rightarrow> account_policy \<Rightarrow> plan_body \<Rightarrow> prepared list \<Rightarrow> bool" where
  "drafted S policy body entries \<longleftrightarrow>
     admitted S policy (p_cells body) entries \<and> p_batches body = plan_batches entries \<and>
     p_rounds body = plan_rounds (p_cells body) (plan_batches entries) \<and>
     p_accounts body = map (\<lambda>q. \<lparr>acc_quotaDomain = q, acc_capacity = capacity_of policy q\<rparr>) (domains_of (p_cells body)) \<and>
     distinct (map c_id (p_cells body)) \<and>
     same_demand entries"

lemma drafted_entry:
  assumes "drafted S policy body entries" "e \<in> set entries"
  shows "pr_cell e \<in> set (p_cells body) \<and> cell_eligible (pr_cell e) \<and> entry_ok S policy e \<and>
    find_cell body (c_id (pr_cell e)) = Some (pr_cell e)"
proof -
  have "mset (map pr_cell entries) = mset (filter cell_eligible (p_cells body))"
    using assms(1) by (simp add: drafted_def admitted_def)
  then have "pr_cell ` set entries = set (filter cell_eligible (p_cells body))"
    by (metis list.set_map mset_eq_setD)
  then have "pr_cell e \<in> set (filter cell_eligible (p_cells body))" using assms(2) by blast
  then show ?thesis
    using assms find_cell_Some[of body] by (simp add: drafted_def admitted_def)
qed

lemma drafted_account:
  assumes "drafted S policy body entries" "c \<in> set (p_cells body)"
  shows "find_account body (c_quotaDomain c) = Some (capacity_of policy (c_quotaDomain c))"
proof -
  have "find_account body = map_of (map (\<lambda>q. (q, capacity_of policy q)) (domains_of (p_cells body)))"
    using assms(1) by (simp add: find_account_def[abs_def] drafted_def comp_def)
  then show ?thesis using assms(2) by (simp add: map_of_map_restrict domains_of_def)
qed

lemma make_batch_simps [simp]:
  "b_id (make_batch i (first, budget, chunk)) = ''batch-'' @ nat_string i"
  "b_quotaDomain (make_batch i (first, budget, chunk)) = c_quotaDomain (pr_cell first)"
  "b_wave (make_batch i (first, budget, chunk)) = Some (pr_wave first)"
  "b_cells (make_batch i (first, budget, chunk)) = map (\<lambda>e. c_id (pr_cell e)) chunk"
  "b_maxConcurrency (make_batch i (first, budget, chunk)) = pr_cap first"
  "b_budgetMinutes (make_batch i (first, budget, chunk)) = of_int \<lceil>real (length chunk) / real (pr_cap first)\<rceil> * budget"
  by (simp_all add: make_batch_def)

lemma max_member_budget_le:
  assumes "\<forall>c\<in>set members. cell_budget c \<le> m" "0 \<le> m"
  shows "max_member_budget members \<le> m"
  using foldl_max_mem[of 0 "map cell_budget members"] assms by (auto simp: max_member_budget_def)

lemma drafted_batch_valid:
  assumes "drafted S policy body entries" "stub_ok entries stub" "distinct (b_cells (make_batch i stub))"
  shows "batch_valid body (make_batch i stub) (pr_wave (fst stub))"
proof -
  obtain first budget chunk where stub: "stub = (first, budget, chunk)" by (cases stub) auto
  let ?b = "make_batch i stub"
  have ok: "first \<in> set entries" "chunk \<noteq> []" "0 < budget"
    "of_int \<lceil>real (length chunk) / real (pr_cap first)\<rceil> * budget \<le> real BENCH_JOB_CEILING_MINUTES"
    using assms(2) by (simp_all add: stub_ok_def stub)
  have member: "e \<in> set entries \<and> group_key e = group_key first \<and> pr_budget e \<le> budget" if "e \<in> set chunk" for e
    using assms(2) that by (simp add: stub_ok_def stub)
  note first = drafted_entry[OF assms(1) ok(1)]
  have fok: "\<not> more_than (pr_cap first) (cap_sandboxes (capacity_of policy (c_quotaDomain (pr_cell first))))"
    using first by (simp add: entry_ok_def Let_def)
  have same: "c_quotaDomain (pr_cell e) = c_quotaDomain (pr_cell first)" "pr_wave e = pr_wave first"
    "c_target (pr_cell e) = c_target (pr_cell first)" "c_gpu (pr_cell e) = c_gpu (pr_cell first)"
    if "e \<in> set chunk" for e
  proof -
    note m = member[OF that]
    show "c_quotaDomain (pr_cell e) = c_quotaDomain (pr_cell first)" "pr_wave e = pr_wave first"
      using m by (simp_all add: group_key_def)
    have "same_demand entries" using assms(1) by (simp add: drafted_def)
    then show "c_target (pr_cell e) = c_target (pr_cell first)" "c_gpu (pr_cell e) = c_gpu (pr_cell first)"
      using m ok(1) unfolding same_demand_def by blast+
  qed
  have members: "batch_members body ?b = map pr_cell chunk"
  proof -
    have "List.map_filter (find_cell body) (map (\<lambda>e. c_id (pr_cell e)) chunk) =
        map (\<lambda>i. the (find_cell body i)) (map (\<lambda>e. c_id (pr_cell e)) chunk)"
      by (rule map_filter_all) (use drafted_entry[OF assms(1)] member in auto)
    then show ?thesis using drafted_entry[OF assms(1)] member by (simp add: batch_members_def stub)
  qed
  have "pr_budget e = cell_budget (pr_cell e)" if "e \<in> set chunk" for e
    using drafted_entry[OF assms(1)] member[OF that] by (simp add: entry_ok_def Let_def)
  then have "max_member_budget (map pr_cell chunk) \<le> budget"
    using member ok(3) by (intro max_member_budget_le) auto
  moreover have "(0::real) \<le> of_int \<lceil>real (length chunk) / real (pr_cap first)\<rceil>"
    using order_trans[OF _ le_of_int_ceiling] by (metis divide_nonneg_nonneg of_nat_0_le_iff)
  ultimately have time: "of_int \<lceil>real (length chunk) / real (pr_cap first)\<rceil> * max_member_budget (map pr_cell chunk)
      \<le> of_int \<lceil>real (length chunk) / real (pr_cap first)\<rceil> * budget"
    by (rule mult_left_mono)
  obtain e es where chunk: "chunk = e # es" using ok(2) by (cases chunk) auto
  have dom: "b_quotaDomain ?b = c_quotaDomain (pr_cell first)" by (simp add: stub)
  show ?thesis
    unfolding batch_valid_def members dom
  proof (intro exI[of _ "capacity_of policy (c_quotaDomain (pr_cell first))"] conjI ballI)
    show "find_account body (c_quotaDomain (pr_cell first)) = Some (capacity_of policy (c_quotaDomain (pr_cell first)))"
      using drafted_account[OF assms(1)] first by blast
    show "batch_fits (capacity_of policy (c_quotaDomain (pr_cell first))) ?b (map pr_cell chunk)"
      using first time same[of e]
      by (simp add: batch_fits_def stub chunk entry_ok_def Let_def gpu_demand_def not_less)
    show "b_wave ?b = None \<or> b_wave ?b = Some (pr_wave (fst stub))" by (simp add: stub)
    show "\<not> more_than (b_maxConcurrency ?b) (cap_sandboxes (capacity_of policy (c_quotaDomain (pr_cell first))))"
      using fok by (simp add: stub)
    show "b_cells ?b \<noteq> []" "b_budgetMinutes ?b \<le> real BENCH_JOB_CEILING_MINUTES" using ok by (simp_all add: stub)
    show "distinct (b_cells ?b)" by (rule assms(3))
  next
    fix i assume "i \<in> set (b_cells ?b)"
    then obtain e where e: "e \<in> set chunk" "i = c_id (pr_cell e)" by (auto simp: stub)
    have "find_cell body i = Some (pr_cell e)" "cell_eligible (pr_cell e)"
      using drafted_entry[OF assms(1), of e] member[OF e(1)] e(2) by simp_all
    then show "\<exists>cell. find_cell body i = Some cell \<and> cell_eligible cell \<and> c_quotaDomain cell = c_quotaDomain (pr_cell first)"
      using same(1)[OF e(1)] by blast
  next
    fix cell assume "cell \<in> set (map pr_cell chunk)"
    then obtain e where e: "e \<in> set chunk" "cell = pr_cell e" by auto
    then have "benchmarkWave (c_suite cell) = Some (pr_wave e)"
      using drafted_entry[OF assms(1), of e] member[OF e(1)] by (simp add: entry_ok_def Let_def)
    then show "benchmarkWave (c_suite cell) = Some (pr_wave (fst stub))" using same(2)[OF e(1)] by (simp add: stub)
  qed
qed

definition stub_waves :: "prepared list \<Rightarrow> benchmark_wave list" where
  "stub_waves entries = map (\<lambda>stub. pr_wave (fst stub)) (all_stubs entries)"

lemma plan_batches_nth:
  "i < length (all_stubs entries) \<Longrightarrow> plan_batches entries ! i = make_batch i (all_stubs entries ! i)"
  by (simp add: plan_batches_def all_stubs_def push_numbered_eq nth_enumerate_eq)

lemma plan_batches_ids:
  "map b_id (plan_batches entries) = map (\<lambda>i. ''batch-'' @ nat_string i) [0..<length (all_stubs entries)]"
  unfolding plan_batches_def all_stubs_def by (rule push_numbered_ids) (simp add: make_batch_def split: prod.splits)

lemma length_plan_batches [simp]: "length (plan_batches entries) = length (all_stubs entries)"
  using arg_cong[OF plan_batches_ids[of entries], of length] by simp

lemma distinct_batch_ids: "distinct (map b_id (plan_batches entries))"
  unfolding plan_batches_ids by (simp add: distinct_map inj_on_def)

lemma plan_batches_cells:
  assumes "entries_bounded entries"
  shows "mset (concat (map b_cells (plan_batches entries))) = mset (map (\<lambda>e. c_id (pr_cell e)) entries)"
proof -
  have "map b_cells (plan_batches entries) = map (\<lambda>stub. map (\<lambda>e. c_id (pr_cell e)) (snd (snd stub))) (all_stubs entries)"
    unfolding plan_batches_def all_stubs_def by (rule push_numbered_map) (simp add: make_batch_def split: prod.splits)
  then have "concat (map b_cells (plan_batches entries)) =
      map (\<lambda>e. c_id (pr_cell e)) (concat (map (\<lambda>stub. snd (snd stub)) (all_stubs entries)))"
    by (simp add: map_concat comp_def)
  then show ?thesis using all_stubs_ok[OF assms] by (metis mset_map)
qed

lemma drafted_ids:
  assumes "drafted S policy body entries"
  shows "mset (map (\<lambda>e. c_id (pr_cell e)) entries) = mset (map c_id (filter cell_eligible (p_cells body)))"
proof -
  have "mset (map pr_cell entries) = mset (filter cell_eligible (p_cells body))"
    using assms by (simp add: drafted_def admitted_def)
  then have "image_mset c_id (mset (map pr_cell entries)) = image_mset c_id (mset (filter cell_eligible (p_cells body)))" by simp
  then show ?thesis by (simp add: image_mset.compositionality comp_def)
qed

lemma drafted_cells_distinct:
  assumes "drafted S policy body entries"
  shows "distinct (concat (map b_cells (plan_batches entries)))"
proof -
  have b: "entries_bounded entries" using assms by (auto simp: drafted_def dest: admitted_bounded)
  have "distinct (map c_id (filter cell_eligible (p_cells body)))"
    using assms by (auto simp: drafted_def distinct_map intro: inj_on_subset)
  then show ?thesis
    using plan_batches_cells[OF b] drafted_ids[OF assms] by (metis mset_eq_imp_distinct_iff)
qed

lemma wave_sorted_zip:
  assumes "length xs = length ws"
    and "\<And>i j. i < j \<Longrightarrow> j < length xs \<Longrightarrow> d (xs ! i) = d (xs ! j) \<Longrightarrow> ws ! i \<le> ws ! j"
  shows "wave_sorted d (zip xs ws)"
  using assms by (simp add: wave_sorted_def sorted_wrt_iff_nth_less less_eq_benchmark_wave_def)

lemma drafted_batches_valid:
  assumes "drafted S policy body entries"
  shows "batches_valid body no_batches (plan_batches entries) (stub_waves entries)"
proof -
  let ?bs = "plan_batches entries" and ?stubs = "all_stubs entries"
  have adm: "admitted S policy (p_cells body) entries" using assms by (simp add: drafted_def)
  note b = admitted_bounded[OF adm]
  have d: "distinct (b_cells (?bs ! i))" if "i < length ?stubs" for i
    using drafted_cells_distinct[OF assms] that by (auto simp: distinct_concat_iff)
  have "batch_valid body (?bs ! i) (stub_waves entries ! i)" if i: "i < length ?stubs" for i
    using drafted_batch_valid[OF assms, of "?stubs ! i" i] all_stubs_ok[OF b] d[OF i] i
    by (simp add: plan_batches_nth stub_waves_def)
  then have "list_all2 (batch_valid body) ?bs (stub_waves entries)"
    by (simp add: list_all2_conv_all_nth stub_waves_def)
  moreover have "wave_sorted b_quotaDomain (zip ?bs (stub_waves entries))"
  proof (rule wave_sorted_zip)
    fix i j assume "i < j" "j < length ?bs"
    moreover have "sorted_wrt (\<lambda>s t. pr_wave (fst s) \<le> pr_wave (fst t)) ?stubs"
      using all_stubs_sorted[OF b] adm by (simp add: admitted_def)
    ultimately show "stub_waves entries ! i \<le> stub_waves entries ! j"
      by (simp add: stub_waves_def sorted_wrt_iff_nth_less)
  qed (simp add: stub_waves_def)
  ultimately show ?thesis
    using distinct_batch_ids[of entries] drafted_cells_distinct[OF assms]
    by (simp add: batches_valid_def no_batches_def fresh_def after_last_def)
qed

section \<open>The rounds pass the verifier\<close>

definition all_round_stubs :: "string list \<Rightarrow> experiment_batch list \<Rightarrow> (string \<times> benchmark_wave \<times> experiment_batch list) list" where
  "all_round_stubs domains batches =
     concat (map (\<lambda>(q, w). round_chunks batches q w) (List.product domains BENCHMARK_WAVE_ORDER))"

lemma plan_rounds_stubs: "plan_rounds cells batches = push_numbered make_round [] (all_round_stubs (domains_of cells) batches)"
proof -
  have "concat (map (\<lambda>(q, w). round_chunks batches q w) (List.product qs ws)) =
      concat (map (\<lambda>q. concat (map (round_chunks batches q) ws)) qs)" for qs ws
    by (induction qs) (auto simp: comp_def)
  then show ?thesis by (simp add: plan_rounds_def all_round_stubs_def)
qed

lemma round_chunks_mem:
  assumes "(q', w', chunk) \<in> set (round_chunks batches q w)"
  shows "q' = q \<and> w' = w \<and> chunk \<noteq> [] \<and> length chunk \<le> ROUND_BATCH_LIMIT \<and>
    (\<forall>b\<in>set chunk. b \<in> set batches \<and> b_quotaDomain b = q \<and> b_wave b = Some w)"
  using assms chunks_mem[of chunk ROUND_BATCH_LIMIT] by (fastforce simp: round_chunks_def)

lemma round_chunks_key: "x \<in> set (round_chunks batches q w) \<Longrightarrow> fst x = q \<and> fst (snd x) = w"
  by (auto simp: round_chunks_def)

lemma round_chunks_concat:
  "concat (map (\<lambda>r. snd (snd r)) (round_chunks batches q w)) = filter (\<lambda>b. (b_quotaDomain b, b_wave b) = (q, Some w)) batches"
  by (simp add: round_chunks_def comp_def concat_chunks ROUND_BATCH_LIMIT_def)

lemma all_round_stubs_mset:
  assumes "distinct domains" "\<And>b. b \<in> set batches \<Longrightarrow> b_quotaDomain b \<in> set domains \<and> b_wave b \<noteq> None"
  shows "mset (concat (map (\<lambda>r. snd (snd r)) (all_round_stubs domains batches))) = mset batches"
proof -
  let ?key = "\<lambda>b. (b_quotaDomain b, b_wave b)"
  let ?ks = "map (\<lambda>(q, w). (q, Some w)) (List.product domains BENCHMARK_WAVE_ORDER)"
  have "concat (map (\<lambda>r. snd (snd r)) (concat (map (\<lambda>(q, w). round_chunks batches q w) ps))) =
      concat (map (\<lambda>k. filter (\<lambda>b. ?key b = k) batches) (map (\<lambda>(q, w). (q, Some w)) ps))" for ps
    by (induction ps) (auto simp: round_chunks_concat)
  then have "concat (map (\<lambda>r. snd (snd r)) (all_round_stubs domains batches)) =
      concat (map (\<lambda>k. filter (\<lambda>b. ?key b = k) batches) ?ks)"
    unfolding all_round_stubs_def .
  moreover have "distinct ?ks"
    using assms(1) by (auto simp: distinct_map distinct_product inj_on_def BENCHMARK_WAVE_ORDER_def)
  moreover have "?key ` set batches \<subseteq> set ?ks"
  proof
    fix k assume "k \<in> ?key ` set batches"
    then obtain b where k: "b \<in> set batches" "k = (b_quotaDomain b, b_wave b)" by auto
    then obtain w where "b_wave b = Some w" using assms(2)[OF k(1)] by blast
    with k have b: "b \<in> set batches" "k = (b_quotaDomain b, Some w)" by simp_all
    then have "(b_quotaDomain b, w) \<in> set (List.product domains BENCHMARK_WAVE_ORDER)" using assms(2) by simp
    then show "k \<in> set ?ks" using b(2) by force
  qed
  ultimately show ?thesis by (simp only: mset_partition)
qed

lemma all_round_stubs_sorted:
  assumes "distinct domains"
  shows "sorted_wrt (\<lambda>r s. fst r = fst s \<longrightarrow> fst (snd r) \<le> fst (snd s)) (all_round_stubs domains batches)"
  unfolding all_round_stubs_def
proof (rule sorted_wrt_concat)
  show "sorted_wrt (\<lambda>p q. fst p = fst q \<longrightarrow> snd p \<le> snd q) (List.product domains BENCHMARK_WAVE_ORDER)"
    using assms
  proof (induction domains)
    case (Cons q qs)
    have "sorted_wrt (\<lambda>p q. fst p = fst q \<longrightarrow> snd p \<le> snd q) (map (Pair q) BENCHMARK_WAVE_ORDER)"
      by (simp add: BENCHMARK_WAVE_ORDER_def less_eq_benchmark_wave_def)
    then show ?case using Cons by (auto simp: sorted_wrt_append)
  qed simp
next
  fix p x y assume "x \<in> set (case p of (q, w) \<Rightarrow> round_chunks batches q w)" "y \<in> set (case p of (q, w) \<Rightarrow> round_chunks batches q w)"
  then have "fst (snd x) = snd p" "fst (snd y) = snd p" by (cases p; simp add: round_chunks_key)+
  then show "fst x = fst y \<longrightarrow> fst (snd x) \<le> fst (snd y)" by simp
next
  fix p p' x y assume le: "fst p = fst p' \<longrightarrow> snd p \<le> snd p'"
    and "x \<in> set (case p of (q, w) \<Rightarrow> round_chunks batches q w)" "y \<in> set (case p' of (q, w) \<Rightarrow> round_chunks batches q w)"
  then have "fst x = fst p \<and> fst (snd x) = snd p" "fst y = fst p' \<and> fst (snd y) = snd p'"
    by (cases p; cases p'; simp add: round_chunks_key)+
  then show "fst x = fst y \<longrightarrow> fst (snd x) \<le> fst (snd y)" using le by simp
qed

lemma make_round_simps [simp]:
  "r_id (make_round i (q, w, bs)) = ''round-'' @ nat_string i"
  "r_quotaDomain (make_round i (q, w, bs)) = q"
  "r_wave (make_round i (q, w, bs)) = Some w"
  "r_batches (make_round i (q, w, bs)) = map b_id bs"
  by (simp_all add: make_round_def)

lemma find_batch_distinct:
  assumes "distinct (map b_id (p_batches body))" "b \<in> set (p_batches body)"
  shows "find_batch body (b_id b) = Some b"
proof -
  have "distinct (map b_id bs) \<Longrightarrow> b \<in> set bs \<Longrightarrow> find (\<lambda>x. b_id x = b_id b) bs = Some b" for bs
    by (induction bs) auto
  then show ?thesis using assms by (simp add: find_batch_def)
qed

lemma plan_rounds_ids: "map r_id (plan_rounds cells batches) = map (\<lambda>i. ''round-'' @ nat_string i)
    [0..<length (all_round_stubs (domains_of cells) batches)]"
  unfolding plan_rounds_stubs by (rule push_numbered_ids) (simp add: make_round_def split: prod.splits)

lemma plan_rounds_batches: "map r_batches (plan_rounds cells batches) = map (\<lambda>r. map b_id (snd (snd r))) (all_round_stubs (domains_of cells) batches)"
  unfolding plan_rounds_stubs by (rule push_numbered_map) (simp add: make_round_def split: prod.splits)

lemma plan_rounds_nth:
  "i < length (all_round_stubs (domains_of cells) batches) \<Longrightarrow>
   plan_rounds cells batches ! i = make_round i (all_round_stubs (domains_of cells) batches ! i)"
  by (simp add: plan_rounds_stubs push_numbered_eq nth_enumerate_eq)

lemma length_plan_rounds [simp]: "length (plan_rounds cells batches) = length (all_round_stubs (domains_of cells) batches)"
  using arg_cong[OF plan_rounds_ids[of cells batches], of length] by simp

text \<open>What the rounds rely on: batches of the plan, in domains of its cells, each with a wave.\<close>

definition round_material :: "plan_body \<Rightarrow> (string \<rightharpoonup> benchmark_wave) \<Rightarrow> experiment_batch list \<Rightarrow> bool" where
  "round_material body waves batches \<longleftrightarrow>
     p_batches body = batches \<and> distinct (map b_id batches) \<and>
     (\<forall>b\<in>set batches. b_quotaDomain b \<in> c_quotaDomain ` set (p_cells body) \<and> b_wave b \<noteq> None \<and> waves (b_id b) = b_wave b)"

lemma rounds_partition:
  assumes "round_material body waves batches"
  shows "mset (concat (map r_batches (plan_rounds (p_cells body) batches))) = mset (map b_id batches)"
proof -
  have "concat (map r_batches (plan_rounds (p_cells body) batches)) =
      map b_id (concat (map (\<lambda>r. snd (snd r)) (all_round_stubs (domains_of (p_cells body)) batches)))"
    by (simp add: plan_rounds_batches map_concat comp_def)
  moreover have "mset (concat (map (\<lambda>r. snd (snd r)) (all_round_stubs (domains_of (p_cells body)) batches))) = mset batches"
    by (rule all_round_stubs_mset) (use assms in \<open>auto simp: round_material_def domains_of_def\<close>)
  ultimately show ?thesis by (metis mset_map)
qed

lemma rounds_valid_plan:
  assumes "round_material body waves batches"
  shows "rounds_valid body waves no_rounds (plan_rounds (p_cells body) batches)
    (map (\<lambda>r. fst (snd r)) (all_round_stubs (domains_of (p_cells body)) batches))"
proof -
  let ?rs = "plan_rounds (p_cells body) batches" and ?stubs = "all_round_stubs (domains_of (p_cells body)) batches"
  have d: "distinct (map b_id batches)" "p_batches body = batches" using assms by (simp_all add: round_material_def)
  have dc: "distinct (concat (map r_batches ?rs))" using rounds_partition[OF assms] d(1) by (metis mset_eq_imp_distinct_iff)
  have "round_valid body waves (?rs ! i) (fst (snd (?stubs ! i)))" if i: "i < length ?stubs" for i
  proof -
    obtain q w bs where stub: "?stubs ! i = (q, w, bs)" by (cases "?stubs ! i") auto
    then have "(q, w, bs) \<in> set ?stubs" using i by (metis nth_mem)
    then obtain q' w' where "(q, w, bs) \<in> set (round_chunks batches q' w')" by (auto simp: all_round_stubs_def)
    note m = round_chunks_mem[OF this]
    have r: "?rs ! i = make_round i (q, w, bs)" using plan_rounds_nth[OF i] stub by simp
    have "?rs ! i \<in> set ?rs" using i by simp
    then have "distinct (r_batches (?rs ! i))" using dc by (auto simp: distinct_concat_iff)
    moreover have "waves (b_id b) = Some w \<and> (\<exists>b'. find_batch body (b_id b) = Some b' \<and> b_quotaDomain b' = q)"
      if "b \<in> set bs" for b
      using m that assms find_batch_distinct[of body b] d by (auto simp: round_material_def)
    ultimately show ?thesis
      using m by (auto simp: r stub round_valid_def ROUND_BATCH_LIMIT_def)
  qed
  then have "list_all2 (round_valid body waves) ?rs (map (\<lambda>r. fst (snd r)) ?stubs)"
    by (simp add: list_all2_conv_all_nth)
  moreover have "wave_sorted r_quotaDomain (zip ?rs (map (\<lambda>r. fst (snd r)) ?stubs))"
  proof (rule wave_sorted_zip)
    fix i j assume ij: "i < j" "j < length ?rs" "r_quotaDomain (?rs ! i) = r_quotaDomain (?rs ! j)"
    have q: "r_quotaDomain (?rs ! k) = fst (?stubs ! k)" if "k < length ?stubs" for k
      using plan_rounds_nth[OF that] by (cases "?stubs ! k") simp
    have "fst (?stubs ! i) = fst (?stubs ! j)" using ij q[of i] q[of j] by simp
    moreover have "sorted_wrt (\<lambda>r s. fst r = fst s \<longrightarrow> fst (snd r) \<le> fst (snd s)) ?stubs"
      by (rule all_round_stubs_sorted) (simp add: domains_of_def)
    ultimately show "map (\<lambda>r. fst (snd r)) ?stubs ! i \<le> map (\<lambda>r. fst (snd r)) ?stubs ! j"
      using ij by (simp add: sorted_wrt_iff_nth_less)
  qed simp
  moreover have "distinct (map r_id ?rs)" unfolding plan_rounds_ids by (simp add: distinct_map inj_on_def)
  ultimately show ?thesis
    using dc by (simp add: rounds_valid_def no_rounds_def fresh_def after_last_def)
qed

section \<open>The schedule of a draft\<close>

lemma drafted_schedule:
  assumes "drafted S policy body entries"
  shows "verify_schedule body = Inr ()"
proof -
  let ?bs = "plan_batches entries"
  have batches: "p_batches body = ?bs" "p_rounds body = plan_rounds (p_cells body) ?bs"
    using assms by (simp_all add: drafted_def)
  have bounded: "entries_bounded entries" using assms by (auto simp: drafted_def dest: admitted_bounded)
  obtain st where st: "verify_batches body no_batches ?bs = Inr st" "batches_result no_batches st ?bs (stub_waves entries)"
    using verify_batches_intro[OF drafted_batches_valid[OF assms]] by blast
  have "assigned st = set (concat (map b_cells ?bs))" using st(2) by (simp add: batches_result_def no_batches_def)
  then have "card (assigned st) = length (concat (map b_cells ?bs))"
    using distinct_card[OF drafted_cells_distinct[OF assms]] by simp
  also have "\<dots> = length (filter cell_eligible (p_cells body))"
    using plan_batches_cells[OF bounded] drafted_ids[OF assms] by (metis length_map mset_eq_length)
  finally have assigned: "card (assigned st) = length (filter cell_eligible (p_cells body))" .
  have "b_quotaDomain b \<in> c_quotaDomain ` set (p_cells body) \<and> b_wave b \<noteq> None \<and> batchWaves st (b_id b) = b_wave b"
    if "b \<in> set ?bs" for b
  proof -
    obtain i where i: "i < length (all_stubs entries)" "b = ?bs ! i" using \<open>b \<in> set ?bs\<close> by (auto simp: in_set_conv_nth)
    obtain first budget chunk where stub: "all_stubs entries ! i = (first, budget, chunk)" by (cases "all_stubs entries ! i") auto
    have "stub_ok entries (all_stubs entries ! i)" using all_stubs_ok[OF bounded] i(1) nth_mem by blast
    then have "first \<in> set entries" by (simp add: stub stub_ok_def)
    then have "c_quotaDomain (pr_cell first) \<in> c_quotaDomain ` set (p_cells body)" using drafted_entry[OF assms] by blast
    moreover have "(?bs ! i, stub_waves entries ! i) \<in> set (zip ?bs (stub_waves entries))"
      using i(1) by (auto simp: set_zip stub_waves_def)
    then have "batchWaves st (b_id b) = Some (stub_waves entries ! i)"
      using st(2) i(2) by (auto simp: batches_result_def)
    ultimately show ?thesis
      using i by (simp add: plan_batches_nth stub stub_waves_def)
  qed
  then have material: "round_material body (batchWaves st) ?bs"
    using batches(1) distinct_batch_ids by (simp add: round_material_def)
  then have "\<exists>rt. verify_rounds body (batchWaves st) no_rounds (p_rounds body) = Inr rt \<and>
      scheduled rt = set (concat (map r_batches (p_rounds body)))"
    using rounds_valid_plan[OF material] verify_rounds_Inr[of body "batchWaves st" no_rounds "p_rounds body"]
    by (auto simp: batches(2) no_rounds_def)
  then obtain rt where rt: "verify_rounds body (batchWaves st) no_rounds (p_rounds body) = Inr rt"
    "scheduled rt = set (concat (map r_batches (p_rounds body)))" by blast
  have "mset (concat (map r_batches (p_rounds body))) = mset (map b_id ?bs)"
    using rounds_partition[OF material] batches(2) by simp
  then have "card (scheduled rt) = length ?bs"
    unfolding rt(2) by (metis distinct_batch_ids distinct_card length_map mset_eq_imp_distinct_iff mset_eq_length)
  then show ?thesis
    using st(1) assigned rt(1) by (simp add: verify_schedule_def batches(1))
qed

lemma draft_plan_drafted:
  assumes "draft_plan S policy request = Inr body" "distinct (map c_id (q_cells request))"
    and inj: "inj_on (allocationDigest S) (allocation ` set (filter cell_eligible (q_cells request)))"
  shows "\<exists>entries. drafted S policy body entries"
proof -
  obtain entries where e: "admitted S policy (q_cells request) entries" "p_cells body = q_cells request"
    "p_batches body = plan_batches entries" "p_rounds body = plan_rounds (q_cells request) (plan_batches entries)"
    "p_accounts body = map (\<lambda>q. \<lparr>acc_quotaDomain = q, acc_capacity = capacity_of policy q\<rparr>) (domains_of (q_cells request))"
    using draft_plan_admitted[OF assms(1)] by blast
  have cells: "pr_cell ` set entries = set (filter cell_eligible (q_cells request))"
    using e(1) unfolding admitted_def by (metis list.set_map mset_eq_setD)
  have "c_target (pr_cell x) = c_target (pr_cell y) \<and> c_gpu (pr_cell x) = c_gpu (pr_cell y)"
    if "x \<in> set entries" "y \<in> set entries" "group_key x = group_key y" for x y
  proof -
    have "allocationIdentity S (pr_cell x) = allocationIdentity S (pr_cell y)"
      using that e(1) by (simp add: group_key_def admitted_def entry_ok_def Let_def)
    moreover have "allocation (pr_cell x) \<in> allocation ` set (filter cell_eligible (q_cells request))"
      "allocation (pr_cell y) \<in> allocation ` set (filter cell_eligible (q_cells request))"
      using that(1,2) cells by blast+
    ultimately have "allocation (pr_cell x) = allocation (pr_cell y)"
      using inj unfolding allocationIdentity_def inj_on_def by blast
    then show ?thesis by (simp add: allocation_def)
  qed
  then have "same_demand entries" unfolding same_demand_def by blast
  then have "drafted S policy body entries" using e assms(2) by (simp add: drafted_def)
  then show ?thesis ..
qed

section \<open>Properties\<close>

text \<open>
  Property C6. When the cells of a request have distinct ids and the digest does not confuse two of its
  allocations, the planner makes no schedule its verifier rejects: whatever the account policy, the batches
  and rounds of a draft pass every batch, round and completeness check. (Without distinct ids a draft can
  be made and is rejected, as it should be.)
\<close>

theorem planned_schedule_verifies:
  assumes "draft_plan S policy request = Inr body" "distinct (map c_id (q_cells request))"
    and "inj_on (allocationDigest S) (allocation ` set (filter cell_eligible (q_cells request)))"
  shows "verify_schedule body = Inr ()"
  using draft_plan_drafted[OF assms] drafted_schedule by blast

text \<open>
  Property C7. Planning succeeds exactly when every cell can be admitted, the result is well formed,
  and the request-level and cohort checks pass; the schedule is never the reason of a failure.
\<close>

theorem planExperiment_succeeds_iff:
  assumes "inj_on (allocationDigest S) (allocation ` set (filter cell_eligible (q_cells request)))"
  shows "(\<exists>plan. planExperiment S policy request = Inr plan) \<longleftrightarrow>
    (\<exists>body. draft_plan S policy request = Inr body \<and> plan_schema body \<and> verify_request S body = Inr () \<and>
       verify_cohorts S body Map.empty (p_cells body) = Inr ())"
proof -
  have truncate: "plan_body.truncate (plan_body.extend body (experiment_plan.fields d)) = body" for body d
    by (cases body) (simp add: plan_body.defs experiment_plan.defs)
  have digest: "p_digest (plan_body.extend body (experiment_plan.fields d)) = d" for body d
    by (cases body) (simp add: plan_body.defs experiment_plan.defs)
  have schedule: "verify_schedule body = Inr ()"
    if "draft_plan S policy request = Inr body" "verify_request S body = Inr ()" for body
  proof -
    have "p_cells body = q_cells request" using draft_plan_admitted[OF that(1)] by blast
    then have "distinct (map c_id (q_cells request))"
      using that(2) by (auto simp: verify_request_def and_then_Inr_iff split: if_splits)
    then show ?thesis using draft_plan_drafted[OF that(1) _ assms] drafted_schedule by blast
  qed
  show ?thesis
    unfolding planExperiment_def and_then_Inr_iff verifyExperimentPlan_def Let_def truncate digest
    using schedule by (auto simp: and_then_Inr_iff split: if_splits)
qed

text \<open>
  Every round of a draft stays within the approval unit: it is not empty, has at most 64
  batches, and all of them are of its quota domain and its wave.
\<close>

theorem planned_rounds_bounded:
  assumes "draft_plan S policy request = Inr body" "r \<in> set (p_rounds body)"
  shows "r_batches r \<noteq> [] \<and> length (r_batches r) \<le> 64 \<and>
    (\<forall>i\<in>set (r_batches r). \<exists>b\<in>set (p_batches body). b_id b = i \<and> b_quotaDomain b = r_quotaDomain r \<and> b_wave b = r_wave r)"
proof -
  obtain entries where e: "p_batches body = plan_batches entries"
    "p_rounds body = plan_rounds (q_cells request) (plan_batches entries)"
    using draft_plan_admitted[OF assms(1)] by blast
  obtain i where i: "i < length (all_round_stubs (domains_of (q_cells request)) (p_batches body))" "r = p_rounds body ! i"
    using assms(2) e by (auto simp: in_set_conv_nth)
  obtain q w bs where stub: "all_round_stubs (domains_of (q_cells request)) (p_batches body) ! i = (q, w, bs)"
    by (cases "all_round_stubs (domains_of (q_cells request)) (p_batches body) ! i") auto
  then have "(q, w, bs) \<in> set (all_round_stubs (domains_of (q_cells request)) (p_batches body))" using i(1) by (metis nth_mem)
  then obtain q' w' where "(q, w, bs) \<in> set (round_chunks (p_batches body) q' w')" by (auto simp: all_round_stubs_def)
  note m = round_chunks_mem[OF this]
  have "r = make_round i (q, w, bs)" using plan_rounds_nth[of i] i e stub by simp
  then show ?thesis using m by (auto simp: ROUND_BATCH_LIMIT_def)
qed

text \<open>The request of the example plan, and the draft it gets under the default policy.\<close>

definition example_request :: plan_request where
  "example_request = \<lparr>q_id = ''x'', q_sha = ''s'', q_createdOn = ''2026-07-01'',
     q_cells = [example_cell ''c1'' ''disk'', example_cell ''c0'' ''memory''], q_maxPremeasurementRetries = None\<rparr>"

definition example_draft :: plan_body where
  "example_draft = \<lparr>p_id = ''x'', p_sha = ''s'', p_createdOn = ''2026-07-01'',
     p_cells = [example_cell ''c1'' ''disk'', example_cell ''c0'' ''memory''],
     p_batches = [(example_batch ''batch-0'' ''c0'')\<lparr>b_wave := Some SyntheticMemory\<rparr>,
                  (example_batch ''batch-1'' ''c1'')\<lparr>b_wave := Some SyntheticSystem\<rparr>],
     p_accounts = [\<lparr>acc_quotaDomain = ''q'', acc_capacity = \<lparr>cap_sandboxes = Fin 1, cap_vcpus = None, cap_memoryGb = None, cap_gpus = None\<rparr>\<rparr>],
     p_rounds = [\<lparr>r_id = ''round-0'', r_quotaDomain = ''q'', r_wave = Some SyntheticMemory, r_batches = [''batch-0'']\<rparr>,
                 \<lparr>r_id = ''round-1'', r_quotaDomain = ''q'', r_wave = Some SyntheticSystem, r_batches = [''batch-1'']\<rparr>],
     p_maxPremeasurementRetries = 0\<rparr>"

lemma example_prepare:
  "prepare_cell example_services Map.empty (example_cell i suite_name) =
    (case benchmarkWave suite_name of
       None \<Rightarrow> Inl (UnknownSuite suite_name)
     | Some w \<Rightarrow> Inr \<lparr>pr_cell = example_cell i suite_name, pr_cap = 1, pr_budget = 65, pr_wave = w, pr_identity = []\<rparr>)"
  by (simp add: prepare_cell_def capacity_of_def example_cell_def max_safe_def share_def min_share_def gpu_share_def
      cell_budget_def BENCH_JOB_CEILING_MINUTES_def suite_wave_def allocationIdentity_def example_services_def Let_def
      split: option.splits)

lemma example_cell_schema: "suite_name \<noteq> [] \<Longrightarrow> cell_schema (example_cell i suite_name) \<and> cell_eligible (example_cell i suite_name)"
  by (simp add: example_cell_def cell_schema_def target_schema_def safe_minutes_def max_safe_def cell_eligible_def excluded_metric_def)

lemma example_order:
  "order_cells [example_cell ''c1'' ''disk'', example_cell ''c0'' ''memory''] =
    Inr [example_cell ''c0'' ''memory'', example_cell ''c1'' ''disk'']"
  by (simp add: order_cells_def suite_wave_def example_cell_def example_waves)

lemma example_numerals: "nat_string 0 = ''0''" "nat_string (Suc 0) = ''1''"
  by code_simp+

lemma example_batches:
  "plan_batches
    [\<lparr>pr_cell = example_cell ''c0'' ''memory'', pr_cap = 1, pr_budget = 65, pr_wave = SyntheticMemory, pr_identity = []\<rparr>,
     \<lparr>pr_cell = example_cell ''c1'' ''disk'', pr_cap = 1, pr_budget = 65, pr_wave = SyntheticSystem, pr_identity = []\<rparr>] =
   p_batches example_draft"
  by (simp add: plan_batches_def group_by_def group_key_def group_chunks_def group_budget_def affordable_def
      BENCH_JOB_CEILING_MINUTES_def push_numbered_def make_batch_def chunks.simps example_numerals example_draft_def
      example_batch_def example_cell_def)

lemma example_rounds: "plan_rounds (q_cells example_request) (p_batches example_draft) = p_rounds example_draft"
  by (simp add: plan_rounds_def domains_of_def insertion_order_def round_chunks_def BENCHMARK_WAVE_ORDER_def push_numbered_def
      make_round_def chunks.simps ROUND_BATCH_LIMIT_def example_numerals example_request_def example_draft_def example_batch_def
      example_cell_def)

lemma example_drafted: "draft_plan example_services Map.empty example_request = Inr example_draft"
proof -
  have "q_cells example_request = [example_cell ''c1'' ''disk'', example_cell ''c0'' ''memory'']"
    by (simp add: example_request_def)
  then show ?thesis
    using example_batches example_rounds example_cell_schema[of "''disk''"] example_cell_schema[of "''memory''"]
    by (simp add: draft_plan_def example_order example_prepare example_waves Let_def)
      (simp add: example_draft_def example_request_def domains_of_def insertion_order_def capacity_of_def example_cell_def)
qed

lemma example_injective:
  "inj_on (allocationDigest example_services) (allocation ` set (filter cell_eligible (q_cells example_request)))"
  by (auto simp: inj_on_def example_request_def example_cell_def allocation_def)

lemma planned_schedule_verifies_witness: "verify_schedule example_draft = Inr ()"
  by (rule planned_schedule_verifies[OF example_drafted _ example_injective])
    (simp add: example_request_def example_cell_def)

lemma planExperiment_succeeds_iff_witness: "\<exists>plan. planExperiment example_services Map.empty example_request = Inr plan"
proof -
  have "plan_schema example_draft"
    by (simp add: plan_schema_def example_draft_def example_defs cell_schema_def batch_schema_def capacity_schema_def
        target_schema_def safe_minutes_def max_safe_def)
  moreover have "verify_request example_services example_draft = Inr ()"
    by (simp add: verify_request_def example_draft_def example_defs example_date logical_replicate_def example_numeral
        cell_eligible_def excluded_metric_def)
  moreover have "verify_cohorts example_services example_draft Map.empty (p_cells example_draft) = Inr ()"
    by (simp add: example_draft_def example_defs cohort_evidence_def)
  ultimately show ?thesis
    unfolding planExperiment_succeeds_iff[OF example_injective] using example_drafted by blast
qed

lemma planned_rounds_bounded_witness: "length (r_batches (hd (p_rounds example_draft))) \<le> 64"
  using planned_rounds_bounded[OF example_drafted, of "hd (p_rounds example_draft)"] by (simp add: example_draft_def)

end
