(* ===== verification/OrderStats.thy ===== *)
theory OrderStats
  imports Prelude
begin

text \<open>
  The order statistics of \<open>packages/schema/src/analysis.ts\<close>: the R-7 percentile of a sorted sample
  set, the in-place selection \<open>selectNth\<close> with its three-way partition, and \<open>medianInPlace\<close>.
  Selection is modelled on the buffer it permutes, with every read checked; the results show that no
  read is out of range, that the loops end, and that the selected value is the order statistic the
  sorted path would read.
\<close>

section \<open>R-7 percentiles\<close>

text \<open>
  \<open>percentile(sorted, p)\<close>. \<open>sorted[lo] ?? NaN\<close> and \<open>sorted[hi] ?? loValue\<close> are the two
  \<open>case\<close>s; with \<open>loValue\<close> NaN the result is NaN.
\<close>

definition percentile :: "real list \<Rightarrow> real \<Rightarrow> jsnum" where
  "percentile sorted_xs p =
     (let h = (real (length sorted_xs) - 1) * p;
          lo = \<lfloor>h\<rfloor>;
          hi = \<lceil>h\<rceil>
      in case rd sorted_xs lo of
           None \<Rightarrow> NaN
         | Some loValue \<Rightarrow>
             (let hiValue = (case rd sorted_xs hi of None \<Rightarrow> loValue | Some v \<Rightarrow> v)
              in Fin (loValue + (h - of_int lo) * (hiValue - loValue))))"

text \<open>The finite value a percentile of a non-empty set has.\<close>

definition quantile :: "real list \<Rightarrow> real \<Rightarrow> real" where
  "quantile xs p =
     (let h = (real (length xs) - 1) * p
      in xs ! nat \<lfloor>h\<rfloor> + (h - of_int \<lfloor>h\<rfloor>) * (xs ! nat \<lceil>h\<rceil> - xs ! nat \<lfloor>h\<rfloor>))"

lemma percentile_index:
  assumes "n \<noteq> 0" "0 \<le> p" "p \<le> 1"
  shows "0 \<le> \<lfloor>(real n - 1) * p\<rfloor>" "\<lfloor>(real n - 1) * p\<rfloor> \<le> \<lceil>(real n - 1) * p\<rceil>"
    "\<lceil>(real n - 1) * p\<rceil> < int n"
proof -
  have n1: "0 \<le> real n - 1" using assms(1) by simp
  then show "0 \<le> \<lfloor>(real n - 1) * p\<rfloor>" using assms(2) by simp
  show "\<lfloor>(real n - 1) * p\<rfloor> \<le> \<lceil>(real n - 1) * p\<rceil>" by linarith
  have "(real n - 1) * p \<le> real n - 1"
    using mult_left_le[OF assms(3) n1] by simp
  then show "\<lceil>(real n - 1) * p\<rceil> < int n" by linarith
qed

lemma percentile_nat_index:
  assumes "n \<noteq> 0" "0 \<le> p" "p \<le> 1"
  shows "nat \<lfloor>(real n - 1) * p\<rfloor> \<le> nat \<lceil>(real n - 1) * p\<rceil>"
    "nat \<lceil>(real n - 1) * p\<rceil> < n" "nat \<lfloor>(real n - 1) * p\<rfloor> < n"
proof -
  note ix = percentile_index[OF assms]
  show "nat \<lfloor>(real n - 1) * p\<rfloor> \<le> nat \<lceil>(real n - 1) * p\<rceil>"
    by (rule nat_mono[OF ix(2)])
  show "nat \<lceil>(real n - 1) * p\<rceil> < n" "nat \<lfloor>(real n - 1) * p\<rfloor> < n"
    using ix by linarith+
qed

lemma percentile_quantile:
  assumes "xs \<noteq> []" "0 \<le> p" "p \<le> 1"
  shows "percentile xs p = Fin (quantile xs p)"
proof -
  note ix = percentile_index[of "length xs" p]
  have "rd xs \<lfloor>(real (length xs) - 1) * p\<rfloor> = Some (xs ! nat \<lfloor>(real (length xs) - 1) * p\<rfloor>)"
    using ix assms by (intro rd_in_range) (simp_all, linarith)
  moreover have "rd xs \<lceil>(real (length xs) - 1) * p\<rceil> = Some (xs ! nat \<lceil>(real (length xs) - 1) * p\<rceil>)"
    using ix assms by (intro rd_in_range) (auto intro: order_trans)
  ultimately show ?thesis by (simp add: percentile_def quantile_def Let_def)
qed

lemma percentile_empty: "percentile [] p = NaN"
  by (simp add: percentile_def rd_def Let_def)

text \<open>Interpolating between two neighbours of a sorted list stays between them.\<close>

lemma frac_weight: "0 \<le> (h::real) - of_int \<lfloor>h\<rfloor>" "h - of_int \<lfloor>h\<rfloor> \<le> 1"
  by linarith+

lemma quantile_between:
  assumes "sorted xs" "xs \<noteq> []" "0 \<le> p" "p \<le> 1"
  shows "xs ! nat \<lfloor>(real (length xs) - 1) * p\<rfloor> \<le> quantile xs p"
    "quantile xs p \<le> xs ! nat \<lceil>(real (length xs) - 1) * p\<rceil>"
proof -
  define h where "h = (real (length xs) - 1) * p"
  note ix = percentile_nat_index[of "length xs" p, folded h_def]
  have le: "xs ! nat \<lfloor>h\<rfloor> \<le> xs ! nat \<lceil>h\<rceil>"
    using ix assms by (intro sorted_nth_le) auto
  have w: "0 \<le> h - of_int \<lfloor>h\<rfloor>" "h - of_int \<lfloor>h\<rfloor> \<le> 1"
    by (rule frac_weight)+
  show "xs ! nat \<lfloor>(real (length xs) - 1) * p\<rfloor> \<le> quantile xs p"
    using le w by (simp add: quantile_def Let_def flip: h_def)
  have "(h - of_int \<lfloor>h\<rfloor>) * (xs ! nat \<lceil>h\<rceil> - xs ! nat \<lfloor>h\<rfloor>) \<le> xs ! nat \<lceil>h\<rceil> - xs ! nat \<lfloor>h\<rfloor>"
    using le w by (simp add: mult_left_le_one_le)
  then show "quantile xs p \<le> xs ! nat \<lceil>(real (length xs) - 1) * p\<rceil>"
    by (simp add: quantile_def Let_def flip: h_def)
qed

lemma quantile_bounds:
  assumes "sorted xs" "xs \<noteq> []" "0 \<le> p" "p \<le> 1"
  shows "xs ! 0 \<le> quantile xs p" "quantile xs p \<le> xs ! (length xs - 1)"
proof -
  note ix = percentile_nat_index[of "length xs" p]
  have "xs ! 0 \<le> xs ! nat \<lfloor>(real (length xs) - 1) * p\<rfloor>"
    using ix assms by (intro sorted_nth_le) auto
  with quantile_between(1)[OF assms] show "xs ! 0 \<le> quantile xs p" by linarith
  have "nat \<lceil>(real (length xs) - 1) * p\<rceil> \<le> length xs - 1"
    by (rule less_imp_le_pred, rule ix(2)) (use assms in auto)
  then have "xs ! nat \<lceil>(real (length xs) - 1) * p\<rceil> \<le> xs ! (length xs - 1)"
    by (rule sorted_nth_le[OF assms(1)]) (use assms in simp)
  with quantile_between(2)[OF assms] show "quantile xs p \<le> xs ! (length xs - 1)" by linarith
qed

lemma quantile_0: "quantile xs 0 = xs ! 0"
  by (simp add: quantile_def)

lemma quantile_1: "xs \<noteq> [] \<Longrightarrow> quantile xs 1 = xs ! (length xs - 1)"
proof -
  assume "xs \<noteq> []"
  then have "real (length xs) - 1 = of_int (int (length xs) - 1)" by simp
  moreover have "nat (int (length xs) - 1) = length xs - 1" by linarith
  ultimately show ?thesis
    by (simp add: quantile_def Let_def del: of_int_diff)
qed

text \<open>Percentiles grow with \<open>p\<close>.\<close>

lemma quantile_mono:
  assumes s: "sorted xs" and ne: "xs \<noteq> []" and p: "0 \<le> p" "p \<le> q" "q \<le> 1"
  shows "quantile xs p \<le> quantile xs q"
proof -
  define n where "n = real (length xs) - 1"
  have n0: "0 \<le> n" using ne by (simp add: n_def Suc_leI)
  define h where "h = n * p"
  define g where "g = n * q"
  have hg: "h \<le> g" using p n0 by (simp add: h_def g_def mult_left_mono)
  note ih = percentile_nat_index[of "length xs" p, folded n_def h_def]
  note ig = percentile_nat_index[of "length xs" q, folded n_def g_def]
  have q0: "0 \<le> q" "p \<le> 1" using p by auto
  show ?thesis
  proof (cases "\<lfloor>h\<rfloor> = \<lfloor>g\<rfloor>")
    case True
    show ?thesis
    proof (cases "g = of_int \<lfloor>g\<rfloor>")
      case True
      have "of_int \<lfloor>h\<rfloor> \<le> h" by (rule of_int_floor_le)
      with True \<open>\<lfloor>h\<rfloor> = \<lfloor>g\<rfloor>\<close> hg have "h = g" by linarith
      then show ?thesis
        by (simp add: quantile_def Let_def flip: n_def h_def g_def)
    next
      case False
      then have cg: "\<lceil>g\<rceil> = \<lfloor>g\<rfloor> + 1" by linarith
      have le: "xs ! nat \<lfloor>g\<rfloor> \<le> xs ! nat \<lceil>g\<rceil>"
        using ig ne q0 p s by (intro sorted_nth_le) auto
      show ?thesis
      proof (cases "h = of_int \<lfloor>h\<rfloor>")
        case hint: True
        have "quantile xs p = xs ! nat \<lfloor>h\<rfloor>"
          using hint by (simp add: quantile_def Let_def flip: n_def h_def)
        then show ?thesis
          using quantile_between(1)[OF s ne q0(1) p(3)] True by (simp flip: n_def g_def)
      next
        case hint: False
        then have ch: "\<lceil>h\<rceil> = \<lceil>g\<rceil>" using True cg by linarith
        have "(h - of_int \<lfloor>h\<rfloor>) * (xs ! nat \<lceil>g\<rceil> - xs ! nat \<lfloor>g\<rfloor>)
            \<le> (g - of_int \<lfloor>g\<rfloor>) * (xs ! nat \<lceil>g\<rceil> - xs ! nat \<lfloor>g\<rfloor>)"
          using le hg True by (intro mult_right_mono) auto
        then show ?thesis
          using True ch by (simp add: quantile_def Let_def flip: n_def h_def g_def)
      qed
    qed
  next
    case False
    then have "\<lceil>h\<rceil> \<le> \<lfloor>g\<rfloor>" using hg by linarith
    then have "nat \<lceil>h\<rceil> \<le> nat \<lfloor>g\<rfloor>" by (rule nat_mono)
    then have "xs ! nat \<lceil>h\<rceil> \<le> xs ! nat \<lfloor>g\<rfloor>"
      using ih ig ne p q0 s by (intro sorted_nth_le) auto
    then show ?thesis
      using quantile_between(2)[OF s ne p(1) q0(2)] quantile_between(1)[OF s ne q0(1) p(3)]
      by (simp flip: n_def h_def g_def)
  qed
qed

section \<open>Three-way partition and selection\<close>

text \<open>
  The inner loop of \<open>selectNth\<close>: \<open>[lo, lt)\<close> is below the pivot, \<open>[lt, i)\<close> equals it,
  \<open>(gt, hi]\<close> is above it. The indices are integers, since \<open>gt--\<close> may step below zero. An
  element that is neither below nor above the pivot is skipped.
\<close>

function dnf :: "'a::linorder \<Rightarrow> 'a list \<Rightarrow> int \<Rightarrow> int \<Rightarrow> int \<Rightarrow> ('a list \<times> int \<times> int) option" where
  "dnf pivot buffer lt i gt =
     (if i \<le> gt then
        (case rd buffer i of
           None \<Rightarrow> None
         | Some v \<Rightarrow>
             if v < pivot then
               (case rd buffer lt of
                  None \<Rightarrow> None
                | Some w \<Rightarrow> dnf pivot (wr (wr buffer i w) lt v) (lt + 1) (i + 1) gt)
             else if pivot < v then
               (case rd buffer gt of
                  None \<Rightarrow> None
                | Some w \<Rightarrow> dnf pivot (wr (wr buffer i w) gt v) lt i (gt - 1))
             else dnf pivot buffer lt (i + 1) gt)
      else Some (buffer, lt, gt))"
  by pat_completeness auto
termination
  by (relation "measure (\<lambda>(_, _, _, i, gt). nat (gt + 1 - i))") auto

declare dnf.simps [simp del]

text \<open>The median of the first, middle and last key, in the code's order of comparisons.\<close>

definition median3 :: "'a::linorder \<Rightarrow> 'a \<Rightarrow> 'a \<Rightarrow> 'a" where
  "median3 x y z =
     (if x < y then (if y < z then y else if x < z then z else x)
      else if x < z then x else if y < z then z else y)"

lemma median3_cases: "median3 x y z = x \<or> median3 x y z = y \<or> median3 x y z = z"
  by (simp add: median3_def)

definition holds_on :: "'a list \<Rightarrow> int \<Rightarrow> int \<Rightarrow> ('a \<Rightarrow> bool) \<Rightarrow> bool" where
  "holds_on buffer a b P \<longleftrightarrow> (\<forall>j. a \<le> j \<and> j < b \<longrightarrow> P (buffer ! nat j))"

text \<open>What the inner loop keeps: the three zones, and an element equal to the pivot not yet passed.\<close>

definition dnf_inv :: "'a::linorder list \<Rightarrow> 'a \<Rightarrow> int \<Rightarrow> int \<Rightarrow> int \<Rightarrow> int \<Rightarrow> int \<Rightarrow> bool" where
  "dnf_inv buffer pivot lo hi lt i gt \<longleftrightarrow>
     0 \<le> lo \<and> lo \<le> lt \<and> lt \<le> i \<and> i \<le> gt + 1 \<and> gt \<le> hi \<and> hi < int (length buffer) \<and>
     holds_on buffer lo lt (\<lambda>v. v < pivot) \<and>
     holds_on buffer lt i (\<lambda>v. v = pivot) \<and>
     holds_on buffer (gt + 1) (hi + 1) (\<lambda>v. pivot < v) \<and>
     (\<exists>j. lt \<le> j \<and> j \<le> gt \<and> buffer ! nat j = pivot)"

definition same_outside :: "'a list \<Rightarrow> 'a list \<Rightarrow> int \<Rightarrow> int \<Rightarrow> bool" where
  "same_outside xs ys lo hi \<longleftrightarrow>
     mset ys = mset xs \<and> length ys = length xs \<and>
     (\<forall>j. 0 \<le> j \<and> j < int (length xs) \<and> (j < lo \<or> hi < j) \<longrightarrow> ys ! nat j = xs ! nat j)"

lemma same_outside_refl [simp]: "same_outside xs xs lo hi"
  by (simp add: same_outside_def)

lemma same_outside_trans:
  "same_outside xs ys lo hi \<Longrightarrow> same_outside ys zs lo' hi' \<Longrightarrow> lo \<le> lo' \<Longrightarrow> hi' \<le> hi \<Longrightarrow>
   same_outside xs zs lo hi"
  by (auto simp: same_outside_def)

lemma same_outside_swap:
  assumes "lo \<le> i" "i \<le> hi" "lo \<le> j" "j \<le> hi" "0 \<le> lo" "hi < int (length xs)"
  shows "same_outside xs (swap_cells xs i j) lo hi"
  using assms by (auto simp: same_outside_def nth_swap_cells)

lemma wr_wr_swap:
  "rd xs i = Some v \<Longrightarrow> rd xs j = Some w \<Longrightarrow> wr (wr xs i w) j v = swap_cells xs i j"
  by (simp add: swap_cells_def)

lemma dnf_inv_below:
  assumes inv: "dnf_inv buffer pivot lo hi lt i gt" and "i \<le> gt" "buffer ! nat i < pivot"
  shows "dnf_inv (swap_cells buffer i lt) pivot lo hi (lt + 1) (i + 1) gt"
proof -
  from inv obtain j where j: "lt \<le> j" "j \<le> gt" "buffer ! nat j = pivot"
    by (auto simp: dnf_inv_def)
  have jw: "(lt + 1 \<le> (if j = lt then i else j)) \<and> (if j = lt then i else j) \<le> gt \<and>
      swap_cells buffer i lt ! nat (if j = lt then i else j) = pivot"
    using inv assms(2,3) j by (auto simp: dnf_inv_def nth_swap_cells)
  have "holds_on (swap_cells buffer i lt) lo (lt + 1) (\<lambda>v. v < pivot)"
    using inv assms(2,3) by (auto simp: dnf_inv_def holds_on_def nth_swap_cells)
  moreover have "holds_on (swap_cells buffer i lt) (lt + 1) (i + 1) (\<lambda>v. v = pivot)"
    using inv assms(2,3) by (auto simp: dnf_inv_def holds_on_def nth_swap_cells)
  moreover have "holds_on (swap_cells buffer i lt) (gt + 1) (hi + 1) (\<lambda>v. pivot < v)"
    using inv assms(2,3) by (auto simp: dnf_inv_def holds_on_def nth_swap_cells)
  ultimately show ?thesis
    using inv assms(2) jw by (auto simp: dnf_inv_def)
qed

lemma dnf_inv_above:
  assumes inv: "dnf_inv buffer pivot lo hi lt i gt" and "i \<le> gt" "pivot < buffer ! nat i"
  shows "dnf_inv (swap_cells buffer i gt) pivot lo hi lt i (gt - 1)"
proof -
  from inv obtain j where j: "lt \<le> j" "j \<le> gt" "buffer ! nat j = pivot"
    by (auto simp: dnf_inv_def)
  have jw: "lt \<le> (if j = gt then i else j) \<and> (if j = gt then i else j) \<le> gt - 1 \<and>
      swap_cells buffer i gt ! nat (if j = gt then i else j) = pivot"
    using inv assms(2,3) j by (auto simp: dnf_inv_def nth_swap_cells)
  have "holds_on (swap_cells buffer i gt) lo lt (\<lambda>v. v < pivot)"
    using inv assms(2,3) by (auto simp: dnf_inv_def holds_on_def nth_swap_cells)
  moreover have "holds_on (swap_cells buffer i gt) lt i (\<lambda>v. v = pivot)"
    using inv assms(2,3) by (auto simp: dnf_inv_def holds_on_def nth_swap_cells)
  moreover have "holds_on (swap_cells buffer i gt) gt (hi + 1) (\<lambda>v. pivot < v)"
    using inv assms(2,3) by (auto simp: dnf_inv_def holds_on_def nth_swap_cells)
  ultimately show ?thesis
    using inv assms(2) jw by (auto simp: dnf_inv_def)
qed

lemma dnf_inv_equal:
  assumes inv: "dnf_inv buffer pivot lo hi lt i gt" and "i \<le> gt" "buffer ! nat i = pivot"
  shows "dnf_inv buffer pivot lo hi lt (i + 1) gt"
  using assms by (auto simp: dnf_inv_def holds_on_def zle_add1_eq_le order_le_less)

text \<open>The loop reads no cell out of range, ends, and leaves the three zones complete.\<close>

lemma dnf_correct:
  assumes "dnf_inv buffer pivot lo hi lt i gt"
  shows "\<exists>b l g. dnf pivot buffer lt i gt = Some (b, l, g) \<and> same_outside buffer b lo hi \<and>
           dnf_inv b pivot lo hi l (g + 1) g"
  using assms
proof (induction pivot buffer lt i gt rule: dnf.induct)
  case (1 pivot buffer lt i gt)
  note inv = "1.prems"
  show ?case
  proof (cases "i \<le> gt")
    case False
    with inv have "i = gt + 1" by (simp add: dnf_inv_def)
    with False inv show ?thesis by (subst dnf.simps) auto
  next
    case ig: True
    with inv have ri: "rd buffer i = Some (buffer ! nat i)" and rl: "rd buffer lt = Some (buffer ! nat lt)"
      and rg: "rd buffer gt = Some (buffer ! nat gt)"
      by (auto simp: dnf_inv_def)
    consider "buffer ! nat i < pivot" | "pivot < buffer ! nat i" | "buffer ! nat i = pivot"
      by (rule linorder_cases)
    then show ?thesis
    proof cases
      case 1
      have so: "same_outside buffer (swap_cells buffer i lt) lo hi"
        using inv ig by (intro same_outside_swap) (auto simp: dnf_inv_def)
      have eq: "dnf pivot buffer lt i gt = dnf pivot (swap_cells buffer i lt) (lt + 1) (i + 1) gt"
        using ig 1 ri rl wr_wr_swap[OF ri rl] by (subst dnf.simps) simp
      show ?thesis
        using "1.IH"(1)[OF ig ri 1 rl] dnf_inv_below[OF inv ig 1] so wr_wr_swap[OF ri rl]
        unfolding eq by (metis same_outside_trans order_refl)
    next
      case 2
      have so: "same_outside buffer (swap_cells buffer i gt) lo hi"
        using inv ig by (intro same_outside_swap) (auto simp: dnf_inv_def)
      have eq: "dnf pivot buffer lt i gt = dnf pivot (swap_cells buffer i gt) lt i (gt - 1)"
        using ig 2 order_less_not_sym[OF 2] ri rg wr_wr_swap[OF ri rg] by (subst dnf.simps) simp
      show ?thesis
        using "1.IH"(2)[OF ig ri _ 2 rg] dnf_inv_above[OF inv ig 2] so wr_wr_swap[OF ri rg] 2
        unfolding eq by (metis same_outside_trans order_refl order_less_not_sym)
    next
      case 3
      have eq: "dnf pivot buffer lt i gt = dnf pivot buffer lt (i + 1) gt"
        using ig 3 ri by (subst dnf.simps) simp
      show ?thesis
        using "1.IH"(3)[OF ig ri] dnf_inv_equal[OF inv ig 3] 3 unfolding eq by simp
    qed
  qed
qed

text \<open>The pivot is one of three elements of the range, so the first state satisfies the invariant.\<close>

lemma dnf_inv_start:
  assumes "lo < hi" and "rd buffer lo = Some x" and "rd buffer ((lo + hi) div 2) = Some y"
    and "rd buffer hi = Some z"
  shows "dnf_inv buffer (median3 x y z) lo hi lo lo hi"
proof -
  have "\<exists>j. lo \<le> j \<and> j \<le> hi \<and> buffer ! nat j = median3 x y z"
    using median3_cases[of x y z]
  proof (elim disjE)
    assume "median3 x y z = x" then show ?thesis using assms by (auto simp: rd_Some_iff)
  next
    assume "median3 x y z = y" then show ?thesis
      using assms by (intro exI[of _ "(lo + hi) div 2"]) (auto simp: rd_Some_iff)
  next
    assume "median3 x y z = z" then show ?thesis
      using assms by (intro exI[of _ hi]) (auto simp: rd_Some_iff)
  qed
  then show ?thesis using assms by (auto simp: dnf_inv_def holds_on_def rd_Some_iff)
qed

lemma dnf_from_start:
  assumes "lo < hi" and "rd buffer lo = Some x" and "rd buffer ((lo + hi) div 2) = Some y"
    and "rd buffer hi = Some z"
    and "dnf (median3 x y z) buffer lo lo hi = Some (b, l, g)"
  shows "same_outside buffer b lo hi" "dnf_inv b (median3 x y z) lo hi l (g + 1) g"
  using dnf_correct[OF dnf_inv_start[OF assms(1-4)]] assms(5) by auto

text \<open>The outer loop of \<open>selectNth\<close>.\<close>

function select_loop :: "'a::linorder list \<Rightarrow> int \<Rightarrow> int \<Rightarrow> int \<Rightarrow> ('a \<times> 'a list) option" where
  "select_loop buffer lo hi k =
     (if lo < hi then
        (case rd buffer lo of None \<Rightarrow> None | Some x \<Rightarrow>
         case rd buffer ((lo + hi) div 2) of None \<Rightarrow> None | Some y \<Rightarrow>
         case rd buffer hi of None \<Rightarrow> None | Some z \<Rightarrow>
         case dnf (median3 x y z) buffer lo lo hi of
           None \<Rightarrow> None
         | Some (b, lt, gt) \<Rightarrow>
             if k < lt then select_loop b lo (lt - 1) k
             else if gt < k then select_loop b (gt + 1) hi k
             else Some (median3 x y z, b))
      else (case rd buffer k of None \<Rightarrow> None | Some v \<Rightarrow> Some (v, buffer)))"
  by pat_completeness auto
termination
proof (relation "measure (\<lambda>(_, lo, hi, _). nat (hi - lo))", goal_cases)
  case (2 buffer lo hi k x y z r b r' lt gt)
  then have "dnf_inv b (median3 x y z) lo hi lt (gt + 1) gt"
    using dnf_from_start(2) by blast
  then show ?case using 2 by (auto simp: dnf_inv_def)
next
  case (3 buffer lo hi k x y z r b r' lt gt)
  then have "dnf_inv b (median3 x y z) lo hi lt (gt + 1) gt"
    using dnf_from_start(2) by blast
  then show ?case using 3 by (auto simp: dnf_inv_def)
qed simp

declare select_loop.simps [simp del]

definition selectNth :: "'a::linorder list \<Rightarrow> int \<Rightarrow> int \<Rightarrow> ('a \<times> 'a list) option" where
  "selectNth buffer len k = select_loop buffer 0 (len - 1) k"

text \<open>What the outer loop keeps: everything left of the window is below it, everything right above.\<close>

definition select_inv :: "'a::linorder list \<Rightarrow> int \<Rightarrow> int \<Rightarrow> int \<Rightarrow> int \<Rightarrow> bool" where
  "select_inv buffer n lo hi k \<longleftrightarrow>
     0 \<le> lo \<and> lo \<le> k \<and> k \<le> hi \<and> hi < n \<and> n \<le> int (length buffer) \<and>
     (\<forall>a b. 0 \<le> a \<and> a < lo \<and> lo \<le> b \<and> b < n \<longrightarrow> buffer ! nat a \<le> buffer ! nat b) \<and>
     (\<forall>a b. 0 \<le> a \<and> a \<le> hi \<and> hi < b \<and> b < n \<longrightarrow> buffer ! nat a \<le> buffer ! nat b)"

lemma same_outside_parts:
  assumes so: "same_outside xs ys lo hi" and lo: "0 \<le> lo" and hi: "hi < int (length xs)" "lo \<le> hi + 1"
  shows "take (nat lo) ys = take (nat lo) xs" "drop (nat (hi + 1)) ys = drop (nat (hi + 1)) xs"
    "mset (drop (nat lo) (take (nat (hi + 1)) ys)) = mset (drop (nat lo) (take (nat (hi + 1)) xs))"
proof -
  have len: "length ys = length xs" and m: "mset ys = mset xs"
    using so by (auto simp: same_outside_def)
  have eq: "ys ! j = xs ! j" if "j < length xs" "int j < lo \<or> hi < int j" for j
    using so that unfolding same_outside_def by (metis nat_int of_nat_0_le_iff of_nat_less_iff)
  show t: "take (nat lo) ys = take (nat lo) xs"
    using lo hi len by (intro nth_equalityI) (auto intro!: eq)
  show d: "drop (nat (hi + 1)) ys = drop (nat (hi + 1)) xs"
    using lo hi len by (intro nth_equalityI) (auto intro!: eq)
  have split: "mset zs = mset (take (nat lo) zs) + mset (drop (nat lo) (take (nat (hi + 1)) zs))
      + mset (drop (nat (hi + 1)) zs)" for zs :: "'a list"
  proof -
    have "take (nat lo) zs = take (nat lo) (take (nat (hi + 1)) zs)"
      using hi lo by (simp add: min_absorb1 nat_mono)
    then show ?thesis
      by (metis append_take_drop_id mset_append)
  qed
  show "mset (drop (nat lo) (take (nat (hi + 1)) ys)) = mset (drop (nat lo) (take (nat (hi + 1)) xs))"
    using split[of ys] split[of xs] m t d by simp
qed

lemma same_outside_mem:
  assumes so: "same_outside xs ys lo hi" and lo: "0 \<le> lo" and hi: "hi < int (length xs)"
    and j: "lo \<le> j" "j \<le> hi"
  shows "\<exists>m. lo \<le> m \<and> m \<le> hi \<and> ys ! nat j = xs ! nat m"
proof -
  have len: "length ys = length xs" using so by (simp add: same_outside_def)
  let ?seg = "\<lambda>zs. drop (nat lo) (take (nat (hi + 1)) zs)"
  have "?seg ys ! (nat j - nat lo) = ys ! nat j"
    using lo hi j len by simp
  moreover have "nat j - nat lo < length (?seg ys)"
    using lo hi j len by simp
  ultimately have "ys ! nat j \<in> set (?seg ys)" by (metis nth_mem)
  also have "set (?seg ys) = set (?seg xs)"
    using same_outside_parts(3)[OF so lo hi] j by (metis add_increasing2 set_mset_mset order_trans zero_le_one)
  finally obtain i where "i < length (?seg xs)" "ys ! nat j = ?seg xs ! i"
    by (auto simp: in_set_conv_nth)
  then show ?thesis
    using lo hi by (intro exI[of _ "lo + int i"]) (auto simp: nat_add_distrib)
qed

lemma select_inv_narrow:
  assumes inv: "select_inv buffer n lo hi k" and "lo < hi"
    and so: "same_outside buffer b lo hi" and zones: "dnf_inv b p lo hi lt (gt + 1) gt"
  shows "k < lt \<Longrightarrow> select_inv b n lo (lt - 1) k" "gt < k \<Longrightarrow> select_inv b n (gt + 1) hi k"
    "select_inv b n lo hi k"
proof -
  have r: "0 \<le> lo" "lo \<le> k" "k \<le> hi" "hi < n" "n \<le> int (length buffer)" "length b = length buffer"
    and left: "\<And>x y. 0 \<le> x \<Longrightarrow> x < lo \<Longrightarrow> lo \<le> y \<Longrightarrow> y < n \<Longrightarrow> buffer ! nat x \<le> buffer ! nat y"
    and right: "\<And>x y. 0 \<le> x \<Longrightarrow> x \<le> hi \<Longrightarrow> hi < y \<Longrightarrow> y < n \<Longrightarrow> buffer ! nat x \<le> buffer ! nat y"
    using inv so by (auto simp: select_inv_def same_outside_def)
  have keep: "b ! nat j = buffer ! nat j" if "0 \<le> j" "j < n" "j < lo \<or> hi < j" for j
    using so that r by (auto simp: same_outside_def)
  have mem: "\<exists>m. lo \<le> m \<and> m \<le> hi \<and> b ! nat j = buffer ! nat m" if "lo \<le> j" "j \<le> hi" for j
    using same_outside_mem[OF so r(1) _ that] r by simp
  have left': "b ! nat x \<le> b ! nat y" if "0 \<le> x" "x < lo" "lo \<le> y" "y < n" for x y
  proof (cases "y \<le> hi")
    case True
    then obtain m where "lo \<le> m" "m \<le> hi" "b ! nat y = buffer ! nat m" using mem \<open>lo \<le> y\<close> by blast
    then show ?thesis using left[of x m] keep[of x] that r by simp
  next
    case False
    then show ?thesis using left[of x y] keep[of x] keep[of y] that r by simp
  qed
  have right': "b ! nat x \<le> b ! nat y" if "0 \<le> x" "x \<le> hi" "hi < y" "y < n" for x y
  proof (cases "lo \<le> x")
    case True
    then obtain m where "lo \<le> m" "m \<le> hi" "b ! nat x = buffer ! nat m" using mem \<open>x \<le> hi\<close> by blast
    then show ?thesis using right[of m y] keep[of y] that r by simp
  next
    case False
    then show ?thesis using right[of x y] keep[of x] keep[of y] that r by simp
  qed
  show "select_inv b n lo hi k"
    using r left' right' by (simp add: select_inv_def)
  have z: "lo \<le> lt" "lt \<le> gt" "gt \<le> hi"
    using zones by (auto simp: dnf_inv_def)
  have zb: "\<And>j. lo \<le> j \<Longrightarrow> j < lt \<Longrightarrow> b ! nat j < p" "\<And>j. lt \<le> j \<Longrightarrow> j \<le> gt \<Longrightarrow> b ! nat j = p"
    "\<And>j. gt < j \<Longrightarrow> j \<le> hi \<Longrightarrow> p < b ! nat j"
    using zones by (auto simp: dnf_inv_def holds_on_def)
  have cross: "b ! nat x \<le> b ! nat y" if "lo \<le> x" "x < lt \<and> lt \<le> y \<or> x \<le> gt \<and> gt < y" "y \<le> hi" for x y
    using that zb(1)[of x] zb(2)[of x] zb(2)[of y] zb(3)[of y] z
    by (metis linorder_not_le nle_le order_less_imp_le order_less_trans order_le_less_trans)
  show "select_inv b n lo (lt - 1) k" if "k < lt"
    using r z left' right' cross that unfolding select_inv_def
    by (smt (verit) order_refl)
  show "select_inv b n (gt + 1) hi k" if "gt < k"
    using r z left' right' cross that unfolding select_inv_def
    by (smt (verit) order_refl)
qed

text \<open>The selected cell holds the result, with nothing larger before it and nothing smaller after.\<close>

definition selected :: "'a::linorder list \<Rightarrow> int \<Rightarrow> int \<Rightarrow> 'a \<Rightarrow> bool" where
  "selected b n k v \<longleftrightarrow>
     b ! nat k = v \<and> (\<forall>j. 0 \<le> j \<and> j < k \<longrightarrow> b ! nat j \<le> v) \<and> (\<forall>j. k < j \<and> j < n \<longrightarrow> v \<le> b ! nat j)"

lemma select_loop_correct:
  assumes "select_inv buffer n lo hi k"
  shows "\<exists>v b. select_loop buffer lo hi k = Some (v, b) \<and> same_outside buffer b lo hi \<and> selected b n k v"
  using assms
proof (induction buffer lo hi k rule: select_loop.induct)
  case (1 buffer lo hi k)
  note inv = "1.prems"
  show ?case
  proof (cases "lo < hi")
    case False
    with inv have k: "lo = k" "hi = k" "0 \<le> k" "k < n" "n \<le> int (length buffer)"
      by (auto simp: select_inv_def)
    have "selected buffer n k (buffer ! nat k)"
      using inv k by (auto simp: select_inv_def selected_def)
    with False k show ?thesis by (subst select_loop.simps) simp
  next
    case lh: True
    define x where "x = buffer ! nat lo"
    define y where "y = buffer ! nat ((lo + hi) div 2)"
    define z where "z = buffer ! nat hi"
    have rs: "rd buffer lo = Some x" "rd buffer ((lo + hi) div 2) = Some y" "rd buffer hi = Some z"
      using inv lh unfolding x_def y_def z_def by (auto simp: select_inv_def)
    define p where "p = median3 x y z"
    obtain b lt gt where d: "dnf p buffer lo lo hi = Some (b, lt, gt)"
      and so: "same_outside buffer b lo hi" and zones: "dnf_inv b p lo hi lt (gt + 1) gt"
      using dnf_correct[OF dnf_inv_start[OF lh rs]] unfolding p_def by blast
    note narrow = select_inv_narrow[OF inv lh so zones]
    have sl: "select_loop buffer lo hi k =
        (if k < lt then select_loop b lo (lt - 1) k
         else if gt < k then select_loop b (gt + 1) hi k else Some (p, b))"
      using lh rs d by (subst select_loop.simps) (simp add: p_def)
    have z: "lo \<le> lt" "lt \<le> gt" "gt \<le> hi" using zones by (auto simp: dnf_inv_def)
    consider "k < lt" | "\<not> k < lt" "gt < k" | "lt \<le> k" "k \<le> gt" by linarith
    then show ?thesis
    proof cases
      case 1
      then show ?thesis
        using "1.IH"(1)[OF lh rs] d narrow(1) z so unfolding sl p_def
        by (fastforce intro: same_outside_trans)
    next
      case 2
      then show ?thesis
        using "1.IH"(2)[OF lh rs] d narrow(2) z so unfolding sl p_def
        by (fastforce intro: same_outside_trans)
    next
      case 3
      have zb: "\<And>j. lo \<le> j \<Longrightarrow> j < lt \<Longrightarrow> b ! nat j < p" "\<And>j. lt \<le> j \<Longrightarrow> j \<le> gt \<Longrightarrow> b ! nat j = p"
        "\<And>j. gt < j \<Longrightarrow> j \<le> hi \<Longrightarrow> p < b ! nat j"
        using zones by (auto simp: dnf_inv_def holds_on_def)
      have i3: "0 \<le> lo" "lo \<le> k" "k \<le> hi"
        "\<And>x y. 0 \<le> x \<Longrightarrow> x < lo \<Longrightarrow> lo \<le> y \<Longrightarrow> y < n \<Longrightarrow> b ! nat x \<le> b ! nat y"
        "\<And>x y. 0 \<le> x \<Longrightarrow> x \<le> hi \<Longrightarrow> hi < y \<Longrightarrow> y < n \<Longrightarrow> b ! nat x \<le> b ! nat y" "hi < n"
        using narrow(3) by (auto simp: select_inv_def)
      have bk: "b ! nat k = p" using zb(2) 3 by blast
      have "b ! nat j \<le> p" if "0 \<le> j" "j < k" for j
        using that i3(4)[of j k] i3 zb(1)[of j] zb(2)[of j] bk 3
        by (metis linorder_not_le order_less_imp_le order_refl order_le_less_trans order_less_le_trans)
      moreover have "p \<le> b ! nat j" if "k < j" "j < n" for j
        using that i3(5)[of k j] i3 zb(3)[of j] zb(2)[of j] bk 3
        by (metis linorder_not_le order_less_imp_le order_refl order_le_less_trans order_less_le_trans)
      ultimately have "selected b n k p" using bk by (simp add: selected_def)
      with 3 so show ?thesis unfolding sl by simp
    qed
  qed
qed

section \<open>The selection interface\<close>

text \<open>
  What a caller of a selection routine relies on: it returns the \<open>k\<close>-th order statistic of the
  first \<open>n\<close> cells, only permutes those cells, and leaves them partitioned about \<open>k\<close>.
\<close>

locale order_statistic =
  fixes sel :: "'a::linorder list \<Rightarrow> int \<Rightarrow> int \<Rightarrow> ('a \<times> 'a list) option"
  assumes sel_returns: "0 \<le> k \<Longrightarrow> k < n \<Longrightarrow> n \<le> int (length buffer) \<Longrightarrow> \<exists>v b. sel buffer n k = Some (v, b)"
    and sel_value: "0 \<le> k \<Longrightarrow> k < n \<Longrightarrow> n \<le> int (length buffer) \<Longrightarrow> sel buffer n k = Some (v, b) \<Longrightarrow>
      v = sort (take (nat n) buffer) ! nat k"
    and sel_permutes: "0 \<le> k \<Longrightarrow> k < n \<Longrightarrow> n \<le> int (length buffer) \<Longrightarrow> sel buffer n k = Some (v, b) \<Longrightarrow>
      mset (take (nat n) b) = mset (take (nat n) buffer) \<and> drop (nat n) b = drop (nat n) buffer"
    and sel_partitions: "0 \<le> k \<Longrightarrow> k < n \<Longrightarrow> n \<le> int (length buffer) \<Longrightarrow> sel buffer n k = Some (v, b) \<Longrightarrow>
      selected b n k v"
begin

lemma sel_length:
  assumes "0 \<le> k" "k < n" "n \<le> int (length buffer)" "sel buffer n k = Some (v, b)"
  shows "length b = length buffer"
proof -
  have "length (take (nat n) b) = length (take (nat n) buffer)"
    using sel_permutes[OF assms] mset_eq_length by blast
  moreover have "length (drop (nat n) b) = length (drop (nat n) buffer)"
    using sel_permutes[OF assms] by simp
  ultimately show ?thesis using assms(1-3) by simp
qed

text \<open>The statistic after the selected one is the least of the cells behind it.\<close>

lemma next_statistic:
  assumes "0 \<le> k" "k + 1 < n" "n \<le> int (length buffer)" "sel buffer n k = Some (v, b)"
  shows "sort (take (nat n) buffer) ! nat (k + 1) = Min (set (drop (nat (k + 1)) (take (nat n) b)))"
proof -
  have k: "k < n" using assms(2) by simp
  let ?ys = "take (nat n) b"
  have len: "length ?ys = nat n"
    using sel_length[OF assms(1) k assms(3,4)] assms(3) by simp
  have p: "selected b n k v" by (rule sel_partitions[OF assms(1) k assms(3,4)])
  have idx: "?ys ! j = b ! nat (int j)" if "j < nat n" for j using that by simp
  have "sort ?ys ! Suc (nat k) = Min (set (drop (Suc (nat k)) ?ys))"
  proof (rule sort_nth_Min_drop)
    show "Suc (nat k) < length ?ys" using len assms(1,2) by simp
    fix j
    show "j < nat k \<Longrightarrow> ?ys ! j \<le> ?ys ! nat k"
      using p assms(1,2) by (auto simp: selected_def zless_nat_conj dest: spec[of _ "int j"])
    show "nat k < j \<Longrightarrow> j < length ?ys \<Longrightarrow> ?ys ! nat k \<le> ?ys ! j"
      using p assms(1,2) len by (auto simp: selected_def dest: spec[of _ "int j"])
  qed
  moreover have "sort ?ys = sort (take (nat n) buffer)"
    by (rule sort_mset_eq) (use sel_permutes[OF assms(1) k assms(3,4)] in blast)
  moreover have "nat (k + 1) = Suc (nat k)" using assms(1) by simp
  ultimately show ?thesis by simp
qed

end

lemma selectNth_correct:
  assumes "0 \<le> k" "k < n" "n \<le> int (length buffer)"
  shows "\<exists>v b. selectNth buffer n k = Some (v, b) \<and> same_outside buffer b 0 (n - 1) \<and> selected b n k v"
  unfolding selectNth_def by (rule select_loop_correct) (use assms in \<open>simp add: select_inv_def\<close>)

lemma selected_sort:
  assumes "0 \<le> k" "k < n" "n \<le> int (length buffer)"
    and so: "same_outside buffer b 0 (n - 1)" and p: "selected b n k v"
  shows "v = sort (take (nat n) buffer) ! nat k"
    "mset (take (nat n) b) = mset (take (nat n) buffer) \<and> drop (nat n) b = drop (nat n) buffer"
proof -
  show perm: "mset (take (nat n) b) = mset (take (nat n) buffer) \<and> drop (nat n) b = drop (nat n) buffer"
    using same_outside_parts(2,3)[OF so] assms(1-3) by simp
  have len: "length (take (nat n) b) = nat n"
    using so assms(3) by (simp add: same_outside_def)
  have "sort (take (nat n) b) ! nat k = take (nat n) b ! nat k"
  proof (rule sort_partitioned_nth)
    show "nat k < length (take (nat n) b)" using len assms by simp
    fix j
    show "j < nat k \<Longrightarrow> take (nat n) b ! j \<le> take (nat n) b ! nat k"
      using p assms(1,2) by (auto simp: selected_def dest: spec[of _ "int j"])
    show "nat k < j \<Longrightarrow> j < length (take (nat n) b) \<Longrightarrow> take (nat n) b ! nat k \<le> take (nat n) b ! j"
      using p assms(1,2) len by (auto simp: selected_def dest: spec[of _ "int j"])
  qed
  moreover have "take (nat n) b ! nat k = v"
    using p assms(1,2) by (simp add: selected_def)
  moreover have "sort (take (nat n) b) = sort (take (nat n) buffer)"
    by (rule sort_mset_eq) (use perm in blast)
  ultimately show "v = sort (take (nat n) buffer) ! nat k" by simp
qed

interpretation quickselect: order_statistic "selectNth :: 'a::linorder list \<Rightarrow> _"
proof
  fix k n :: int and buffer b :: "'a list" and v :: 'a
  assume r: "0 \<le> k" "k < n" "n \<le> int (length buffer)"
  note correct = selectNth_correct[OF r]
  show "\<exists>v b. selectNth buffer n k = Some (v, b)" using correct by blast
  assume "selectNth buffer n k = Some (v, b)"
  then have so: "same_outside buffer b 0 (n - 1)" and p: "selected b n k v" using correct by auto
  show "v = sort (take (nat n) buffer) ! nat k" by (rule selected_sort(1)[OF r so p])
  show "mset (take (nat n) b) = mset (take (nat n) buffer) \<and> drop (nat n) b = drop (nat n) buffer"
    by (rule selected_sort(2)[OF r so p])
  show "selected b n k v" by (rule p)
qed

section \<open>The in-place median\<close>

text \<open>The scan for the least cell of the tail.\<close>

function min_scan :: "real list \<Rightarrow> int \<Rightarrow> int \<Rightarrow> real \<Rightarrow> real option" where
  "min_scan buffer len i hiValue =
     (if i < len then
        (case rd buffer i of
           None \<Rightarrow> None
         | Some v \<Rightarrow> min_scan buffer len (i + 1) (if v < hiValue then v else hiValue))
      else Some hiValue)"
  by pat_completeness auto
termination
  by (relation "measure (\<lambda>(_, len, i, _). nat (len - i))") auto

declare min_scan.simps [simp del]

definition medianInPlace :: "real list \<Rightarrow> int \<Rightarrow> (real \<times> real list) option" where
  "medianInPlace buffer len =
     (let h = of_int (len - 1) * (1 / 2); lo = \<lfloor>h\<rfloor>
      in case selectNth buffer len lo of
           None \<Rightarrow> None
         | Some (loValue, b) \<Rightarrow>
             if h = of_int lo then Some (loValue + 0, b)
             else (case rd b (lo + 1) of
                     None \<Rightarrow> None
                   | Some v \<Rightarrow>
                       (case min_scan b len (lo + 2) v of
                          None \<Rightarrow> None
                        | Some hiValue \<Rightarrow> Some (loValue + (h - of_int lo) * (hiValue - loValue), b))))"

lemma min_scan_Min:
  assumes "0 \<le> i" "len \<le> int (length buffer)"
  shows "min_scan buffer len i m = Some (Min (insert m (set (drop (nat i) (take (nat len) buffer)))))"
  using assms
proof (induction buffer len i m rule: min_scan.induct)
  case (1 buffer len i m)
  show ?case
  proof (cases "i < len")
    case False
    then have "drop (nat i) (take (nat len) buffer) = []" using 1 by simp
    then show ?thesis using False by (subst min_scan.simps) simp
  next
    case True
    then have r: "rd buffer i = Some (buffer ! nat i)" using "1.prems" by simp
    have "nat i < length (take (nat len) buffer)" using True "1.prems" by simp
    then have d: "drop (nat i) (take (nat len) buffer) =
        buffer ! nat i # drop (nat (i + 1)) (take (nat len) buffer)"
      using "1.prems" True by (simp add: nat_add_distrib Cons_nth_drop_Suc[symmetric])
    let ?t = "set (drop (nat (i + 1)) (take (nat len) buffer))"
    have "min_scan buffer len i m = min_scan buffer len (i + 1) (min m (buffer ! nat i))"
      using True r by (subst min_scan.simps) (simp add: min_def)
    also have "\<dots> = Some (Min (insert (min m (buffer ! nat i)) ?t))"
      using "1.IH"[OF True r] "1.prems" by (simp add: min_def split: if_splits)
    also have "Min (insert (min m (buffer ! nat i)) ?t) = Min (insert m (insert (buffer ! nat i) ?t))"
      by (cases "?t = {}") (simp_all add: min.assoc)
    finally show ?thesis by (simp add: d)
  qed
qed

lemma medianInPlace_correct:
  assumes n: "1 \<le> n" "n \<le> int (length buffer)"
  shows "\<exists>b. medianInPlace buffer n = Some (quantile (sort (take (nat n) buffer)) (1 / 2), b) \<and>
    mset (take (nat n) b) = mset (take (nat n) buffer) \<and> drop (nat n) b = drop (nat n) buffer"
proof -
  define h where "h = of_int (n - 1) * (1 / 2 :: real)"
  define k where "k = \<lfloor>h\<rfloor>"
  let ?s = "sort (take (nat n) buffer)"
  have k: "0 \<le> k" "k < n"
    using n by (auto simp: k_def h_def floor_less_iff)
  have len_s: "length ?s = nat n" using n by simp
  obtain v b where sel: "selectNth buffer n k = Some (v, b)"
    using quickselect.sel_returns[OF k n(2)] by blast
  note spec = k n(2) sel
  have v: "v = ?s ! nat k" by (rule quickselect.sel_value[OF spec])
  have perm: "mset (take (nat n) b) = mset (take (nat n) buffer) \<and> drop (nat n) b = drop (nat n) buffer"
    by (rule quickselect.sel_permutes[OF spec])
  have lb: "length b = length buffer" by (rule quickselect.sel_length[OF spec])
  have q: "quantile ?s (1 / 2) = ?s ! nat k + (h - of_int k) * (?s ! nat \<lceil>h\<rceil> - ?s ! nat k)"
    using n by (simp add: quantile_def Let_def len_s h_def k_def)
  note unfold = medianInPlace_def[of buffer n, unfolded Let_def, folded h_def, folded k_def]
  show ?thesis
  proof (cases "h = of_int k")
    case True
    then have "medianInPlace buffer n = Some (v, b)"
      unfolding unfold sel by simp
    then show ?thesis using q v True perm by simp
  next
    case False
    then have c: "\<lceil>h\<rceil> = k + 1" unfolding k_def by linarith
    have kn: "k + 1 < n"
    proof -
      have "of_int (k + 1) < (h + 1::real)"
        using False of_int_floor_le[of h] unfolding k_def by linarith
      also have "h + 1 \<le> of_int n"
      proof -
        have "1 \<le> (of_int n :: real)" using n(1) by simp
        then show ?thesis by (simp add: h_def field_simps)
      qed
      finally show ?thesis by (simp only: of_int_less_iff)
    qed
    have r: "rd b (k + 1) = Some (b ! nat (k + 1))" using k kn n lb by simp
    let ?t = "drop (nat (k + 1)) (take (nat n) b)"
    have "nat (k + 1) < length (take (nat n) b)" using k kn n lb by simp
    then have t: "?t = b ! nat (k + 1) # drop (nat (k + 2)) (take (nat n) b)"
      using k kn by (simp add: Cons_nth_drop_Suc[symmetric] nat_add_distrib)
    have "min_scan b n (k + 2) (b ! nat (k + 1)) = Some (Min (set ?t))"
      using min_scan_Min[of "k + 2" n b] k n lb by (simp add: t)
    also have "Min (set ?t) = ?s ! nat (k + 1)"
      by (rule quickselect.next_statistic[symmetric, OF k(1) kn n(2) sel])
    finally have "medianInPlace buffer n =
        Some (v + (h - of_int k) * (?s ! nat (k + 1) - v), b)"
      unfolding unfold sel using False r by simp
    then show ?thesis using q v c perm by simp
  qed
qed

section \<open>Properties\<close>

text \<open>
  Property C1. \<open>selectNth\<close> on a buffer prefix returns, without reading outside the buffer, exactly
  the element the sorted prefix has at index \<open>k\<close>; it only permutes the prefix, leaves the rest of
  the buffer alone, and leaves nothing larger before position \<open>k\<close> and nothing smaller after it.
\<close>

theorem selectNth_order_statistic:
  fixes buffer :: "'a::linorder list"
  assumes "0 \<le> k" and "k < n" and "n \<le> int (length buffer)"
  shows "\<exists>v b. selectNth buffer n k = Some (v, b) \<and> v = sort (take (nat n) buffer) ! nat k \<and>
    mset (take (nat n) b) = mset (take (nat n) buffer) \<and> drop (nat n) b = drop (nat n) buffer \<and>
    (\<forall>j. 0 \<le> j \<and> j < k \<longrightarrow> b ! nat j \<le> v) \<and> (\<forall>j. k < j \<and> j < n \<longrightarrow> v \<le> b ! nat j)"
proof -
  obtain v b where sel: "selectNth buffer n k = Some (v, b)"
    using quickselect.sel_returns[OF assms] by blast
  note spec = assms sel
  show ?thesis
    using sel quickselect.sel_value[OF spec] quickselect.sel_permutes[OF spec]
      quickselect.sel_partitions[OF spec] by (auto simp: selected_def)
qed

theorem selectNth_order_statistic_witness:
  "\<exists>v b. selectNth [7, 3, 5, 3 :: int] 4 2 = Some (v, b) \<and> v = 5"
  using selectNth_order_statistic[of 2 4 "[7, 3, 5, 3 :: int]"] by auto

text \<open>
  Property C2. \<open>medianInPlace\<close> computes the very value the sorted path computes: the R-7 percentile
  of the sorted prefix at one half, for even and odd lengths alike, again permuting only the prefix.
\<close>

theorem medianInPlace_equals_percentile:
  assumes "1 \<le> n" and "n \<le> int (length buffer)"
  shows "\<exists>m b. medianInPlace buffer n = Some (m, b) \<and>
    percentile (sort (take (nat n) buffer)) (1 / 2) = Fin m \<and>
    mset (take (nat n) b) = mset (take (nat n) buffer) \<and> drop (nat n) b = drop (nat n) buffer"
proof -
  have "sort (take (nat n) buffer) \<noteq> []"
    using assms by (metis length_0_conv length_sort length_take min_def nat_0_iff not_one_le_zero
        of_nat_0 order_trans linorder_not_le zle_int nat_le_iff)
  then show ?thesis
    using medianInPlace_correct[OF assms] percentile_quantile[of _ "1 / 2"] by auto
qed

theorem medianInPlace_equals_percentile_witness:
  "\<exists>m b. medianInPlace [4, 1, 3, 2] 4 = Some (m, b) \<and> m = 5 / 2"
  using medianInPlace_equals_percentile[of 4 "[4, 1, 3, 2]"]
  by (auto simp: percentile_def rd_def Let_def)

end
