(* ===== verification/Aggregates.thy ===== *)
theory Aggregates
  imports OrderStats
begin

text \<open>
  \<open>percentileOf\<close> and \<open>aggregate\<close> of \<open>packages/schema/src/analysis.ts\<close>, with the validation that
  guards them, and the values every surface reports: \<open>sandboxMedianOf\<close> and \<open>reportedMedianOf\<close>.
  \<open>aggregate\<close> runs Welford's recurrence over the sorted samples; the lemmas show that the
  recurrence is the textbook mean and sum of squared deviations.
\<close>

section \<open>Errors\<close>

text \<open>
  What the functions of the file throw; the strings are the name of the function that throws.
  \<open>UndefinedRead\<close> is not thrown by the code: it marks a run in which an array read gave
  \<open>undefined\<close>, which the code would silently turn into \<open>NaN\<close>. The lemmas show that it does not
  happen.
\<close>

datatype analysis_error =
    EmptySamples string
  | NonFiniteSample string jsnum
  | BadFraction jsnum
  | BadLevel string jsnum
  | BadResamples string jsnum
  | NoReplicates string
  | EmptySide string
  | UndefinedRead

section \<open>Validation\<close>

text \<open>\<open>assertFiniteSamples\<close>: the samples as reals when every one is finite and there is one.\<close>

definition assertFiniteSamples :: "string \<Rightarrow> jsnum list \<Rightarrow> analysis_error + real list" where
  "assertFiniteSamples fn samples =
     (if samples = [] then Inl (EmptySamples fn)
      else case finite_values samples of
             Inl bad \<Rightarrow> Inl (NonFiniteSample fn bad)
           | Inr xs \<Rightarrow> Inr xs)"

lemma assertFiniteSamples_Inr_iff:
  "assertFiniteSamples fn samples = Inr xs \<longleftrightarrow> xs \<noteq> [] \<and> samples = map Fin xs"
  by (auto simp: assertFiniteSamples_def finite_values_Inr_iff split: sum.splits)

lemma assertFiniteSamples_Fin [simp]:
  "xs \<noteq> [] \<Longrightarrow> assertFiniteSamples fn (map Fin xs) = Inr xs"
  by (simp add: assertFiniteSamples_Inr_iff)

text \<open>\<open>!(p >= 0 && p <= 1)\<close>: NaN and the infinities fail the test too.\<close>

fun in_unit :: "jsnum \<Rightarrow> bool" where
  "in_unit (Fin p) = (0 \<le> p \<and> p \<le> 1)"
| "in_unit NaN = False"
| "in_unit (Infinite _) = False"

fun percentile_js :: "real list \<Rightarrow> jsnum \<Rightarrow> jsnum" where
  "percentile_js xs (Fin p) = percentile xs p"
| "percentile_js xs NaN = NaN"
| "percentile_js xs (Infinite _) = NaN"

section \<open>Percentiles of an unsorted set\<close>

definition percentileOf :: "jsnum list \<Rightarrow> jsnum \<Rightarrow> analysis_error + jsnum" where
  "percentileOf samples p =
     (if samples = [] then Inl (EmptySamples ''percentileOf'')
      else if \<not> in_unit p then Inl (BadFraction p)
      else case finite_values samples of
             Inl bad \<Rightarrow> Inl (NonFiniteSample ''percentileOf'' bad)
           | Inr xs \<Rightarrow> Inr (percentile_js (sort xs) p))"

text \<open>The median of a finite non-empty set, as the callers below use it.\<close>

definition median :: "real list \<Rightarrow> real" where
  "median xs = quantile (sort xs) (1 / 2)"

lemma sort_eq_Nil [simp]: "sort xs = [] \<longleftrightarrow> xs = []"
  by (metis mset_sort mset_zero_iff)

lemma percentileOf_finite:
  "xs \<noteq> [] \<Longrightarrow> 0 \<le> p \<Longrightarrow> p \<le> 1 \<Longrightarrow> percentileOf (map Fin xs) (Fin p) = Inr (Fin (quantile (sort xs) p))"
  by (simp add: percentileOf_def percentile_quantile)

lemma percentileOf_median: "xs \<noteq> [] \<Longrightarrow> percentileOf (map Fin xs) (Fin (1 / 2)) = Inr (Fin (median xs))"
  by (simp add: percentileOf_finite median_def)

lemma median_mset: "mset xs = mset ys \<Longrightarrow> median xs = median ys"
  unfolding median_def by (metis sort_mset_eq)

lemma sort_first_le: "x \<in> set xs \<Longrightarrow> sort xs ! 0 \<le> (x::'a::linorder)"
  by (metis in_set_conv_nth length_sort set_sort sorted_nth_le sorted_sort zero_le)

lemma sort_last_ge: "x \<in> set xs \<Longrightarrow> (x::'a::linorder) \<le> sort xs ! (length xs - Suc 0)"
proof -
  assume "x \<in> set xs"
  then obtain i where "i < length xs" "sort xs ! i = x"
    by (metis in_set_conv_nth length_sort set_sort)
  then show ?thesis using sorted_nth_le[OF sorted_sort[of xs], of i "length xs - Suc 0"] by simp
qed

lemma sort_first_Min: "xs \<noteq> [] \<Longrightarrow> sort xs ! 0 = Min (set (xs::'a::linorder list))"
  by (rule Min_eqI[symmetric]) (auto intro: sort_first_le sort_nth_mem)

lemma sort_last_Max: "xs \<noteq> [] \<Longrightarrow> sort xs ! (length xs - Suc 0) = Max (set (xs::'a::linorder list))"
  by (rule Max_eqI[symmetric]) (auto intro: sort_last_ge sort_nth_mem)

lemma quantile_sort_bounds:
  assumes "xs \<noteq> []" "0 \<le> p" "p \<le> 1"
  shows "Min (set xs) \<le> quantile (sort xs) p" "quantile (sort xs) p \<le> Max (set xs)"
  using quantile_bounds[of "sort xs" p] assms by (simp_all add: sort_first_Min sort_last_Max)

lemma median_bounds: "xs \<noteq> [] \<Longrightarrow> Min (set xs) \<le> median xs \<and> median xs \<le> Max (set xs)"
  unfolding median_def using quantile_sort_bounds[of xs "1 / 2"] by simp

section \<open>The canonical distribution\<close>

record aggregates =
  p50 :: jsnum
  p95 :: jsnum
  agg_mean :: real
  stdev :: real
  agg_min :: jsnum
  agg_max :: jsnum
  agg_n :: nat

text \<open>One iteration of Welford's loop on \<open>(mean, m2, n)\<close>.\<close>

fun welford :: "real \<times> real \<times> nat \<Rightarrow> real list \<Rightarrow> real \<times> real \<times> nat" where
  "welford (mean, m2, n) [] = (mean, m2, n)"
| "welford (mean, m2, n) (sample # samples) =
     (let n' = n + 1;
          delta = sample - mean;
          mean' = mean + delta / real n';
          m2' = m2 + delta * (sample - mean')
      in welford (mean', m2', n') samples)"

definition aggregate :: "jsnum list \<Rightarrow> analysis_error + aggregates" where
  "aggregate samples =
     (if samples = [] then Inl (EmptySamples ''aggregate'')
      else case finite_values samples of
             Inl bad \<Rightarrow> Inl (NonFiniteSample ''aggregate'' bad)
           | Inr xs \<Rightarrow>
               (let sorted_xs = sort xs;
                    (mean, m2, n) = welford (0, 0, 0) sorted_xs
                in Inr \<lparr>p50 = percentile sorted_xs (1 / 2),
                        p95 = percentile sorted_xs (95 / 100),
                        agg_mean = mean,
                        stdev = sqrt (if 1 < n then m2 / (real n - 1) else 0),
                        agg_min = percentile sorted_xs 0,
                        agg_max = percentile sorted_xs 1,
                        agg_n = n\<rparr>))"

text \<open>
  The recurrence in closed form. With \<open>S\<close> the sum and \<open>Q\<close> the sum of squares of the samples
  seen so far, \<open>n * mean = S\<close> and \<open>n * m2 = n * Q - S\<^sup>2\<close>.
\<close>

definition welford_inv :: "real list \<Rightarrow> real \<times> real \<times> nat \<Rightarrow> bool" where
  "welford_inv xs s \<longleftrightarrow>
     (case s of (mean, m2, n) \<Rightarrow>
        n = length xs \<and> real n * mean = sum_list xs \<and>
        real n * m2 = real n * (\<Sum>x\<leftarrow>xs. x\<^sup>2) - (sum_list xs)\<^sup>2)"

lemma welford_step_algebra:
  fixes n mean m2 x S Q :: real
  assumes n: "0 \<le> n" and mean: "n * mean = S" and m2: "n * m2 = n * Q - S\<^sup>2"
    and zero: "n = 0 \<Longrightarrow> mean = 0 \<and> m2 = 0 \<and> Q = 0 \<and> S = 0"
  defines "mean' \<equiv> mean + (x - mean) / (n + 1)"
  shows "(n + 1) * mean' = S + x"
    and "(n + 1) * (m2 + (x - mean) * (x - mean')) = (n + 1) * (Q + x\<^sup>2) - (S + x)\<^sup>2"
proof -
  have n1: "n + 1 \<noteq> 0" using n by simp
  show m': "(n + 1) * mean' = S + x"
    using n1 mean by (simp add: mean'_def field_simps)
  have q: "m2 = Q - n * mean\<^sup>2"
  proof (cases "n = 0")
    case True then show ?thesis using zero by simp
  next
    case False
    have "n * m2 = n * (Q - n * mean\<^sup>2)"
      using m2 mean by (simp add: power2_eq_square algebra_simps)
    with False show ?thesis by simp
  qed
  have "(n + 1) * (m2 + (x - mean) * (x - mean')) =
      (n + 1) * m2 + (x - mean) * ((n + 1) * x - (n + 1) * mean')"
    by (simp add: algebra_simps)
  also have "\<dots> = (n + 1) * (Q - n * mean\<^sup>2) + (x - mean) * ((n + 1) * x - (n * mean + x))"
    using m' mean q by simp
  also have "\<dots> = (n + 1) * (Q + x\<^sup>2) - (n * mean + x)\<^sup>2"
    by (simp add: power2_eq_square algebra_simps)
  finally show "(n + 1) * (m2 + (x - mean) * (x - mean')) = (n + 1) * (Q + x\<^sup>2) - (S + x)\<^sup>2"
    using mean by simp
qed

lemma welford_run:
  assumes "welford_inv xs (mean, m2, n)" and "n = 0 \<Longrightarrow> mean = 0 \<and> m2 = 0"
  shows "welford_inv (xs @ ys) (welford (mean, m2, n) ys)"
  using assms
proof (induction ys arbitrary: xs mean m2 n)
  case Nil
  then show ?case by simp
next
  case (Cons y ys)
  define mean' where "mean' = mean + (y - mean) / (real n + 1)"
  define m2' where "m2' = m2 + (y - mean) * (y - mean')"
  have facts: "n = length xs" "real n * mean = sum_list xs"
    "real n * m2 = real n * (\<Sum>x\<leftarrow>xs. x\<^sup>2) - (sum_list xs)\<^sup>2"
    using Cons.prems(1) by (auto simp: welford_inv_def)
  have zero: "real n = 0 \<Longrightarrow> mean = 0 \<and> m2 = 0 \<and> (\<Sum>x\<leftarrow>xs. x\<^sup>2) = 0 \<and> sum_list xs = 0"
    using Cons.prems(2) facts(1) by simp
  note alg = welford_step_algebra[OF _ facts(2,3) zero, of y]
  have "welford_inv (xs @ [y]) (mean', m2', n + 1)"
    using alg facts(1) by (simp add: welford_inv_def mean'_def m2'_def add.commute)
  then have "welford_inv ((xs @ [y]) @ ys) (welford (mean', m2', n + 1) ys)"
    by (rule Cons.IH) simp
  then show ?case by (simp add: mean'_def m2'_def Let_def add.commute)
qed

lemma welford_from_zero: "welford_inv ys (welford (0, 0, 0) ys)"
  using welford_run[of "[]" 0 0 0 ys] by (simp add: welford_inv_def)

text \<open>The sum of squared deviations about a value, and about the mean.\<close>

definition mean_of :: "real list \<Rightarrow> real" where
  "mean_of xs = sum_list xs / real (length xs)"

lemma sum_sq_dev: "(\<Sum>x\<leftarrow>xs. (x - c)\<^sup>2) = (\<Sum>x\<leftarrow>xs. x\<^sup>2) - 2 * c * sum_list xs + real (length xs) * c\<^sup>2"
  for c :: real
  by (induction xs) (simp_all add: power2_eq_square algebra_simps)

lemma welford_result:
  assumes "xs \<noteq> []" and "welford (0, 0, 0) xs = (mean, m2, n)"
  shows "n = length xs" "mean = mean_of xs" "m2 = (\<Sum>x\<leftarrow>xs. (x - mean_of xs)\<^sup>2)"
proof -
  have inv: "n = length xs" "real n * mean = sum_list xs"
    "real n * m2 = real n * (\<Sum>x\<leftarrow>xs. x\<^sup>2) - (sum_list xs)\<^sup>2"
    using welford_from_zero[of xs] assms(2) by (auto simp: welford_inv_def)
  show "n = length xs" by (rule inv(1))
  have n0: "real n \<noteq> 0" using inv(1) assms(1) by simp
  show m: "mean = mean_of xs" using inv(1,2) n0 by (simp add: mean_of_def field_simps)
  have "real n * (\<Sum>x\<leftarrow>xs. (x - mean_of xs)\<^sup>2) =
      real n * (\<Sum>x\<leftarrow>xs. x\<^sup>2) - 2 * (real n * mean_of xs) * sum_list xs + (real n * mean_of xs)\<^sup>2"
    unfolding sum_sq_dev by (simp add: inv(1) power2_eq_square algebra_simps)
  also have "\<dots> = real n * m2"
    using inv m by (simp add: power2_eq_square)
  finally show "m2 = (\<Sum>x\<leftarrow>xs. (x - mean_of xs)\<^sup>2)" using n0 by simp
qed

lemma mean_of_mset: "mset xs = mset ys \<Longrightarrow> mean_of xs = mean_of ys"
  unfolding mean_of_def by (metis mset_eq_length sum_mset_sum_list)

lemma sum_list_mset: "mset xs = mset ys \<Longrightarrow> (\<Sum>x\<leftarrow>xs. f x) = (\<Sum>x\<leftarrow>ys. f x :: real)"
  by (metis mset_map sum_mset_sum_list)

lemma aggregate_finite:
  assumes "xs \<noteq> []"
  shows "aggregate (map Fin xs) = Inr
    \<lparr>p50 = Fin (median xs), p95 = Fin (quantile (sort xs) (95 / 100)), agg_mean = mean_of xs,
     stdev = (if length xs = 1 then 0
              else sqrt ((\<Sum>x\<leftarrow>xs. (x - mean_of xs)\<^sup>2) / (real (length xs) - 1))),
     agg_min = Fin (Min (set xs)), agg_max = Fin (Max (set xs)), agg_n = length xs\<rparr>"
proof -
  obtain mean m2 n where w: "welford (0, 0, 0) (sort xs) = (mean, m2, n)"
    by (metis prod_cases3)
  have ne: "sort xs \<noteq> []" using assms by simp
  have ms: "mset (sort xs) = mset xs" by simp
  note res = welford_result[OF ne w]
  have "n = length xs" "mean = mean_of xs" "m2 = (\<Sum>x\<leftarrow>xs. (x - mean_of xs)\<^sup>2)"
    using res mean_of_mset[OF ms] sum_list_mset[OF ms] by simp_all
  moreover have "1 < length xs \<longleftrightarrow> length xs \<noteq> 1" using assms by (cases xs) auto
  ultimately show ?thesis
    using assms w
    by (simp add: aggregate_def Let_def percentile_quantile median_def quantile_0 quantile_1
        sort_first_Min sort_last_Max)
qed

section \<open>The reported value of a metric\<close>

text \<open>
  One sandbox's samples, and a metric with its samples, distribution and provenance. Host ids are keys
  of the provider's mixtures; \<open>mr_derived\<close> is the marker of a computed metric.
\<close>

datatype sample_source = RawString | AggregateValue

record replicate_slice =
  rep_index :: nat
  rep_samples :: "jsnum list"
  rep_ptsSampleSource :: "sample_source option"
  rep_hostHardwareId :: "string option"
  rep_hostNetworkId :: "string option"

record metric_result =
  metricId :: string
  samples :: "jsnum list"
  aggregates_of :: aggregates
  mr_sourceFile :: "string option"
  mr_appVersion :: "string option"
  mr_arguments :: "string option"
  mr_ptsSampleSource :: "sample_source option"
  replicates :: "replicate_slice list option"
  mr_hostHardwareId :: "string option"
  mr_hostNetworkId :: "string option"
  mr_derived :: bool

text \<open>A slice and a metric of samples alone.\<close>

definition plain_slice :: "nat \<Rightarrow> jsnum list \<Rightarrow> replicate_slice" where
  "plain_slice i xs = \<lparr>rep_index = i, rep_samples = xs, rep_ptsSampleSource = None, rep_hostHardwareId = None, rep_hostNetworkId = None\<rparr>"

definition plain_metric :: "string \<Rightarrow> jsnum list \<Rightarrow> aggregates \<Rightarrow> replicate_slice list option \<Rightarrow> metric_result" where
  "plain_metric i xs a reps = \<lparr>metricId = i, samples = xs, aggregates_of = a, mr_sourceFile = None, mr_appVersion = None,
     mr_arguments = None, mr_ptsSampleSource = None, replicates = reps, mr_hostHardwareId = None, mr_hostNetworkId = None,
     mr_derived = False\<rparr>"

definition assertReplicates :: "string \<Rightarrow> jsnum list list \<Rightarrow> analysis_error + real list list" where
  "assertReplicates fn reps =
     (if reps = [] then Inl (NoReplicates fn)
      else sequence (map (assertFiniteSamples fn) reps))"

definition sandboxMedians :: "jsnum list list \<Rightarrow> analysis_error + jsnum list" where
  "sandboxMedians reps = sequence (map (\<lambda>replicate. percentileOf replicate (Fin (1 / 2))) reps)"

definition sandboxMedianOf :: "jsnum list list \<Rightarrow> analysis_error + jsnum" where
  "sandboxMedianOf reps =
     and_then (assertReplicates ''sandboxMedianOf'' reps) (\<lambda>_.
     and_then (sandboxMedians reps) (\<lambda>medians. percentileOf medians (Fin (1 / 2))))"

definition reportedMedianOf :: "metric_result \<Rightarrow> analysis_error + jsnum" where
  "reportedMedianOf result =
     (case replicates result of
        Some reps \<Rightarrow> sandboxMedianOf (map rep_samples reps)
      | None \<Rightarrow> Inr (p50 (aggregates_of result)))"

text \<open>Replicates as the code accepts them: at least one, each with at least one finite sample.\<close>

definition valid_reps :: "real list list \<Rightarrow> bool" where
  "valid_reps reps \<longleftrightarrow> reps \<noteq> [] \<and> (\<forall>r\<in>set reps. r \<noteq> [])"

lemma assertReplicates_Fin [simp]:
  "valid_reps reps \<Longrightarrow> assertReplicates fn (map (map Fin) reps) = Inr reps"
  unfolding assertReplicates_def valid_reps_def
  by (simp add: sequence_map_Inr[where g = "\<lambda>r. r", simplified] comp_def)

lemma sandboxMedians_Fin:
  "valid_reps reps \<Longrightarrow> sandboxMedians (map (map Fin) reps) = Inr (map Fin (map median reps))"
  unfolding sandboxMedians_def valid_reps_def
  by (simp add: comp_def percentileOf_median sequence_map_Inr[where g = "\<lambda>r. Fin (median r)"])

lemma sandboxMedianOf_Fin:
  assumes "valid_reps reps"
  shows "sandboxMedianOf (map (map Fin) reps) = Inr (Fin (median (map median reps)))"
proof -
  have "map median reps \<noteq> []" using assms by (simp add: valid_reps_def)
  then show ?thesis
    using assms by (simp add: sandboxMedianOf_def sandboxMedians_Fin percentileOf_median del: map_map)
qed

lemma median_singleton: "median [x] = x"
  by (simp add: median_def quantile_def)

section \<open>Properties\<close>

text \<open>
  Property C5. On finite samples \<open>aggregate\<close> returns the canonical distribution: the Welford loop
  computes the arithmetic mean and the sample standard deviation (divisor \<open>n - 1\<close>, zero for one
  sample), the two percentiles are those of the sorted samples, and minimum, maximum and count are
  those of the sample set.
\<close>

theorem aggregate_is_distribution:
  assumes "xs \<noteq> []"
  shows "aggregate (map Fin xs) = Inr
    \<lparr>p50 = Fin (quantile (sort xs) (1 / 2)), p95 = Fin (quantile (sort xs) (95 / 100)),
     agg_mean = sum_list xs / real (length xs),
     stdev = (if length xs = 1 then 0
              else sqrt ((\<Sum>x\<leftarrow>xs. (x - sum_list xs / real (length xs))\<^sup>2) / (real (length xs) - 1))),
     agg_min = Fin (Min (set xs)), agg_max = Fin (Max (set xs)), agg_n = length xs\<rparr>"
  using aggregate_finite[OF assms] by (simp add: mean_of_def median_def)

theorem aggregate_is_distribution_witness:
  "\<exists>a. aggregate [Fin 3, Fin 1, Fin 8] = Inr a \<and> agg_mean a = 4 \<and> agg_min a = Fin 1 \<and> stdev a = sqrt 13"
  using aggregate_is_distribution[of "[3, 1, 8]"] by simp

lemma aggregate_total_facts:
  shows "(\<exists>a. aggregate ss = Inr a) \<longleftrightarrow> ss \<noteq> [] \<and> (\<forall>s\<in>set ss. is_finite s)"
    and "aggregate ss = Inr a \<Longrightarrow> mset ss = mset ts \<Longrightarrow> aggregate ts = Inr a"
    and "aggregate ss = Inr a \<Longrightarrow> \<exists>lo m q hi. agg_min a = Fin lo \<and> p50 a = Fin m \<and> p95 a = Fin q \<and>
           agg_max a = Fin hi \<and> lo \<le> m \<and> m \<le> q \<and> q \<le> hi \<and> 0 \<le> stdev a"
proof -
  have dest: "\<exists>xs. ss = map Fin xs \<and> xs \<noteq> []" if "aggregate ss = Inr a" for ss a
    using that by (auto simp: aggregate_def finite_values_Inr_iff split: if_splits sum.splits)
  have fin: "(\<forall>s\<in>set ss. is_finite s) \<longleftrightarrow> (\<exists>xs. ss = map Fin xs)"
    using finite_values_Inl_iff[of ss] finite_values_Inr_iff[of ss]
    by (cases "finite_values ss") auto
  show "(\<exists>a. aggregate ss = Inr a) \<longleftrightarrow> ss \<noteq> [] \<and> (\<forall>s\<in>set ss. is_finite s)"
    unfolding fin using dest aggregate_finite by fastforce
  assume agg: "aggregate ss = Inr a"
  obtain xs where xs: "ss = map Fin xs" "xs \<noteq> []" using dest[OF agg] by blast
  show "aggregate ts = Inr a" if "mset ss = mset ts"
  proof -
    have "\<forall>s\<in>set ts. is_finite s" using that xs by (metis fin mset_eq_setD set_mset_mset)
    then obtain ys where ys: "ts = map Fin ys"
      using finite_values_Inl_iff[of ts] finite_values_Inr_iff[of ts] by (cases "finite_values ts") auto
    have "mset xs = mset ys"
    proof -
      have "image_mset Fin (mset xs) = image_mset Fin (mset ys)" using that xs ys by simp
      then have "image_mset finite_value (image_mset Fin (mset xs)) = image_mset finite_value (image_mset Fin (mset ys))"
        by simp
      then have "image_mset the (image_mset Some (mset xs)) = image_mset the (image_mset Some (mset ys))"
        by (simp add: multiset.map_comp comp_def)
      then show ?thesis by (simp add: multiset.map_comp comp_def)
    qed
    then have "sort xs = sort ys" and "ys \<noteq> []" using xs sort_mset_eq by (blast, auto)
    then have "aggregate (map Fin ys) = aggregate (map Fin xs)"
      using xs by (simp add: aggregate_def)
    then show ?thesis using agg xs ys by simp
  qed
  have b: "Min (set xs) \<le> median xs" using median_bounds[OF xs(2)] by simp
  have c: "median xs \<le> quantile (sort xs) (95 / 100)"
    unfolding median_def by (rule quantile_mono) (use xs in auto)
  have d: "quantile (sort xs) (95 / 100) \<le> Max (set xs)"
    by (rule quantile_sort_bounds(2)) (use xs in auto)
  have e: "0 \<le> (\<Sum>x\<leftarrow>xs. (x - mean_of xs)\<^sup>2)" by (rule sum_list_nonneg) auto
  have "1 \<le> real (length xs)" using xs(2) by (simp add: Suc_le_eq)
  then show "\<exists>lo m q hi. agg_min a = Fin lo \<and> p50 a = Fin m \<and> p95 a = Fin q \<and>
           agg_max a = Fin hi \<and> lo \<le> m \<and> m \<le> q \<and> q \<le> hi \<and> 0 \<le> stdev a"
    using agg aggregate_finite[OF xs(2)] xs(1) b c d e by auto
qed

text \<open>
  \<open>aggregate\<close> throws exactly when the sample set is empty or holds a NaN or an infinity,
  so no such value reaches a run; what it returns does not depend on the order of the samples, and
  its fields are ordered \<open>min \<le> p50 \<le> p95 \<le> max\<close> with a non-negative deviation.
\<close>

theorem aggregate_total_ordered:
  "((\<exists>a. aggregate ss = Inr a) \<longleftrightarrow> ss \<noteq> [] \<and> (\<forall>s\<in>set ss. is_finite s)) \<and>
   (\<forall>a ts. aggregate ss = Inr a \<and> mset ss = mset ts \<longrightarrow> aggregate ts = Inr a) \<and>
   (\<forall>a. aggregate ss = Inr a \<longrightarrow>
      (\<exists>lo m q hi. agg_min a = Fin lo \<and> p50 a = Fin m \<and> p95 a = Fin q \<and> agg_max a = Fin hi \<and>
         lo \<le> m \<and> m \<le> q \<and> q \<le> hi \<and> 0 \<le> stdev a))"
  by (intro conjI allI impI; (elim conjE)?) (fact aggregate_total_facts)+

theorem aggregate_total_ordered_witness:
  "(\<exists>a. aggregate [Fin 2, Fin 1] = Inr a) \<and> aggregate [Fin 1, Fin 2] = aggregate [Fin 2, Fin 1] \<and>
   \<not> (\<exists>a. aggregate [Fin 1, NaN] = Inr a)"
proof -
  note all = aggregate_total_ordered[of "[Fin 2, Fin 1]"]
  have "\<exists>a. aggregate [Fin 2, Fin 1] = Inr a" by (rule all[THEN conjunct1, THEN iffD2]) simp
  then obtain a where a: "aggregate [Fin 2, Fin 1] = Inr a" by blast
  have "mset [Fin 2, Fin 1] = mset [Fin 1, Fin 2]" by simp
  then have "aggregate [Fin 1, Fin 2] = Inr a" using all a by blast
  moreover have "\<not> (\<exists>a. aggregate [Fin 1, NaN] = Inr a)"
    using aggregate_total_ordered[of "[Fin 1, NaN]", THEN conjunct1] by simp
  ultimately show ?thesis using a by simp
qed

text \<open>
  The reported value of a metric with replicate sandboxes is the median of the
  per-sandbox medians, each sandbox counting once whatever its number of trials; it lies between the
  least and the greatest sample, and when every sandbox contributed one sample (the realworld suites)
  it is the pooled percentile that a metric without replicates reports.
\<close>

theorem reportedMedianOf_replicates:
  assumes "replicates result = Some slices" "map rep_samples slices = map (map Fin) reps" "valid_reps reps"
  shows "\<exists>m. reportedMedianOf result = Inr (Fin m) \<and> m = median (map median reps) \<and>
    Min (\<Union> (set (map set reps))) \<le> m \<and> m \<le> Max (\<Union> (set (map set reps))) \<and>
    ((\<forall>r\<in>set reps. length r = 1) \<longrightarrow> m = median (concat reps))"
proof -
  let ?all = "\<Union> (set (map set reps))"
  let ?ms = "map median reps"
  have eq: "reportedMedianOf result = Inr (Fin (median ?ms))"
    using sandboxMedianOf_Fin[OF assms(3)] assms(1,2) by (simp add: reportedMedianOf_def)
  have ne: "?ms \<noteq> []" using assms(3) by (simp add: valid_reps_def)
  have fin: "finite ?all" by auto
  have each: "Min ?all \<le> median r \<and> median r \<le> Max ?all" if "r \<in> set reps" for r
  proof -
    have ner: "set r \<noteq> {}" "r \<noteq> []" using that assms(3) by (auto simp: valid_reps_def)
    have sub: "set r \<subseteq> ?all" using that by auto
    show ?thesis
      using median_bounds[OF ner(2)] Min_antimono[OF sub ner(1) fin] Max_mono[OF sub ner(1) fin]
      by linarith
  qed
  have "Min ?all \<le> Min (set ?ms)" using each ne by (subst Min_ge_iff) auto
  moreover have "Max (set ?ms) \<le> Max ?all" using each ne by (subst Max_le_iff) auto
  moreover have "?ms = concat reps" if "\<forall>r\<in>set reps. length r = 1"
    using that by (induction reps) (auto simp: length_Suc_conv median_singleton)
  ultimately show ?thesis
    using eq median_bounds[OF ne] by auto
qed

theorem reportedMedianOf_replicates_witness:
  "\<exists>m. reportedMedianOf (plain_metric ''m'' []
       \<lparr>p50 = NaN, p95 = NaN, agg_mean = 0, stdev = 0, agg_min = NaN, agg_max = NaN, agg_n = 0\<rparr>
       (Some [plain_slice 0 [Fin 4], plain_slice 1 [Fin 1, Fin 3]]))
     = Inr (Fin m) \<and> m = median [median [4], median [1, 3]]"
  using reportedMedianOf_replicates[of _ "[plain_slice 0 [Fin 4], plain_slice 1 [Fin 1, Fin 3]]" "[[4], [1, 3]]"]
  by (fastforce simp: valid_reps_def plain_metric_def plain_slice_def)

end
