(* ===== verification/RunModel.thy ===== *)
theory RunModel
  imports Aggregates PlanModel
begin

text \<open>
  The published document, a Run (\<open>packages/schema/src/run.ts\<close>), with the artifact attribution of
  \<open>artifact-evidence.ts\<close>, the repair manifest, the unstarted batches and the cleanup recoveries it
  can carry. The records are what the field types of the schemas admit; the \<open>..._narrow\<close> functions
  are the cross-field checks, each rejection one value. String patterns (digests, dates, URLs) are
  not modelled.
\<close>

section \<open>Checks in order\<close>

text \<open>A narrow that stops at the first failing condition: the pairs say when to reject and how.\<close>

fun reject_first :: "(bool \<times> 'e) list \<Rightarrow> 'e + unit" where
  "reject_first [] = Inr ()"
| "reject_first ((bad, e) # checks) = (if bad then Inl e else reject_first checks)"

lemma reject_first_Inr: "reject_first checks = Inr () \<longleftrightarrow> (\<forall>(bad, e)\<in>set checks. \<not> bad)"
proof (induction checks)
  case (Cons c checks)
  then show ?case by (cases c) (auto split: if_splits)
qed simp

text \<open>The same over a list, element by element.\<close>

fun reject_each :: "('a \<Rightarrow> 'e + unit) \<Rightarrow> 'a list \<Rightarrow> 'e + unit" where
  "reject_each f [] = Inr ()"
| "reject_each f (x # xs) = and_then (f x) (\<lambda>_. reject_each f xs)"

lemma reject_each_Inr: "reject_each f xs = Inr () \<longleftrightarrow> (\<forall>x\<in>set xs. f x = Inr ())"
  by (induction xs) (auto simp: and_then_Inr_iff)

section \<open>Artifact attribution\<close>

datatype artifact = NoArtifact | Image string | Baked string | Mirror string | Built string

record guest_fingerprint =
  fp_imageName :: string
  fp_imageVersion :: string

datatype artifact_provenance =
    RequestFallback artifact
  | DriverReported artifact artifact
  | GuestFingerprint artifact guest_fingerprint "artifact option"

fun requested :: "artifact_provenance \<Rightarrow> artifact" where
  "requested (RequestFallback a) = a"
| "requested (DriverReported a r) = a"
| "requested (GuestFingerprint a f r) = a"

fun reported :: "artifact_provenance \<Rightarrow> artifact option" where
  "reported (RequestFallback a) = None"
| "reported (DriverReported a r) = Some r"
| "reported (GuestFingerprint a f r) = r"

fun artifact_kind :: "artifact \<Rightarrow> string" where
  "artifact_kind NoArtifact = ''none''"
| "artifact_kind (Image r) = ''image''"
| "artifact_kind (Baked r) = ''baked''"
| "artifact_kind (Mirror r) = ''mirror''"
| "artifact_kind (Built r) = ''built''"

fun artifact_ref :: "artifact \<Rightarrow> string option" where
  "artifact_ref NoArtifact = None"
| "artifact_ref (Image r) = Some r"
| "artifact_ref (Baked r) = Some r"
| "artifact_ref (Mirror r) = Some r"
| "artifact_ref (Built r) = Some r"

text \<open>The narrow of \<open>artifactProvenanceSchema\<close>: a report agrees with the request.\<close>

definition provenance_narrow :: "artifact_provenance \<Rightarrow> bool" where
  "provenance_narrow p \<longleftrightarrow>
     (case reported p of
        None \<Rightarrow> True
      | Some r \<Rightarrow>
          artifact_kind r = artifact_kind (requested p) \<and>
          (artifact_ref (requested p) \<noteq> None \<and> artifact_ref r \<noteq> None \<longrightarrow> artifact_ref r = artifact_ref (requested p)))"

record cost_cell =
  cc_runId :: string
  cc_providerId :: string
  cc_suite :: string
  cc_replicateIndex :: "nat option"

record artifact_evidence =
  ae_cell :: cost_cell
  ae_sandboxId :: string
  ae_provenance :: artifact_provenance

definition artifactVerified :: "artifact_evidence \<Rightarrow> bool" where
  "artifactVerified e \<longleftrightarrow> (case ae_provenance e of RequestFallback a \<Rightarrow> False | _ \<Rightarrow> True)"

definition effectiveArtifact :: "artifact_provenance \<Rightarrow> artifact" where
  "effectiveArtifact p = (case reported p of Some r \<Rightarrow> r | None \<Rightarrow> requested p)"

text \<open>The identity of a cell, its fields joined by NUL.\<close>

definition NUL :: char where
  "NUL = CHR 0x00"

definition providerCostCellKey :: "cost_cell \<Rightarrow> string" where
  "providerCostCellKey c =
     cc_runId c @ [NUL] @ cc_providerId c @ [NUL] @ cc_suite c @ [NUL] @
     (case cc_replicateIndex c of None \<Rightarrow> ''single'' | Some i \<Rightarrow> nat_string i)"

section \<open>Gaps and their causes\<close>

datatype gap_scope = SuiteGap | OperationGap

datatype gap_outcome = Skipped | FailedGap

datatype gap_cause =
    DiskShortfall real real
  | MissingCredentials "string list"
  | SandboxCreateFailed "string option"
  | SandboxLost string "nat option"
  | StepTimeout string real
  | StepFailed string "int option"
  | MetricsUnrecorded "string list" nat
  | DuplicateValueDedup "string list"
  | UnsupportedOperation "string option"
  | MeasurementDisabled "string option"

fun cause_narrow :: "gap_cause \<Rightarrow> bool" where
  "cause_narrow (DiskShortfall freeGb requiredGb) = (\<not> requiredGb \<le> freeGb)"
| "cause_narrow (StepFailed step code) = (code \<noteq> Some 0)"
| "cause_narrow (MetricsUnrecorded ids declared) = (length ids \<le> declared)"
| "cause_narrow _ = True"

fun gapOutcomeOfCause :: "gap_cause \<Rightarrow> gap_outcome" where
  "gapOutcomeOfCause (DiskShortfall f r) = Skipped"
| "gapOutcomeOfCause (MissingCredentials vs) = Skipped"
| "gapOutcomeOfCause (UnsupportedOperation d) = Skipped"
| "gapOutcomeOfCause (MeasurementDisabled d) = Skipped"
| "gapOutcomeOfCause _ = FailedGap"

record result_gap =
  gap_scope_of :: gap_scope
  gap_id :: string
  gap_outcome_of :: gap_outcome
  gap_reason :: string
  gap_cause_of :: "gap_cause option"

definition is_unsupported :: "gap_cause \<Rightarrow> bool" where
  "is_unsupported c \<longleftrightarrow> (case c of UnsupportedOperation d \<Rightarrow> True | _ \<Rightarrow> False)"

definition gap_narrow :: "result_gap \<Rightarrow> bool" where
  "gap_narrow g \<longleftrightarrow>
     (case gap_cause_of g of
        None \<Rightarrow> True
      | Some c \<Rightarrow>
          cause_narrow c \<and> gapOutcomeOfCause c = gap_outcome_of g \<and>
          (is_unsupported c \<longrightarrow> gap_scope_of g = OperationGap))"

section \<open>Metric results\<close>

datatype metric_violation =
    EmptySamples
  | AggregatesInvalid
  | SamplesNotFinite
  | CountDisagrees
  | AggregateValueNotSingle
  | OriginNotOnReplicates
  | DerivedWithReplicates
  | HostIdsWithReplicates
  | LoneReplicate
  | RepeatedReplicateIndex
  | PooledCountDisagrees
  | PooledSamplesDisagree

definition js_real :: "jsnum \<Rightarrow> real" where
  "js_real x = (case x of Fin v \<Rightarrow> v | _ \<Rightarrow> 0)"

text \<open>
  The schema of a distribution: every order statistic is finite, the deviation is not negative and at
  least one sample was counted (mean and deviation are reals here, so they are finite).
\<close>

definition aggregatesSchema :: "aggregates \<Rightarrow> bool" where
  "aggregatesSchema a \<longleftrightarrow>
     is_finite (p50 a) \<and> is_finite (p95 a) \<and> 0 \<le> stdev a \<and> is_finite (agg_min a) \<and> is_finite (agg_max a) \<and>
     0 < agg_n a"

lemma aggregate_schema: "aggregate xs = Inr a \<Longrightarrow> aggregatesSchema a"
proof -
  assume agg: "aggregate xs = Inr a"
  obtain lo m q hi where "agg_min a = Fin lo" "p50 a = Fin m" "p95 a = Fin q" "agg_max a = Fin hi" "0 \<le> stdev a"
    using aggregate_total_facts(3)[OF agg] by blast
  moreover have "0 < agg_n a"
    using agg aggregate_finite by (auto simp: aggregate_def finite_values_Inr_iff split: if_splits sum.splits)
  ultimately show ?thesis by (simp add: aggregatesSchema_def)
qed

text \<open>The loop over the replicates, with the indices seen so far.\<close>

fun replicate_loop :: "nat set \<Rightarrow> replicate_slice list \<Rightarrow> metric_violation + unit" where
  "replicate_loop seen [] = Inr ()"
| "replicate_loop seen (r # rs) =
     (if rep_index r \<in> seen then Inl RepeatedReplicateIndex
      else if \<not> list_all is_finite (rep_samples r) then Inl SamplesNotFinite
      else if rep_ptsSampleSource r = Some AggregateValue \<and> length (rep_samples r) \<noteq> 1 then Inl AggregateValueNotSingle
      else replicate_loop (insert (rep_index r) seen) rs)"

definition pooled_check :: "jsnum list \<Rightarrow> jsnum list \<Rightarrow> metric_violation + unit" where
  "pooled_check pooled xs =
     reject_first
       [(length pooled \<noteq> length xs, PooledCountDisagrees),
        (sort (map js_real pooled) \<noteq> sort (map js_real xs), PooledSamplesDisagree)]"

definition replicates_narrow :: "jsnum list \<Rightarrow> replicate_slice list \<Rightarrow> metric_violation + unit" where
  "replicates_narrow xs reps =
     (if length reps < 2 then Inl LoneReplicate
      else and_then (replicate_loop {} reps) (\<lambda>_. pooled_check (concat (map rep_samples reps)) xs))"

definition metric_narrow :: "metric_result \<Rightarrow> metric_violation + unit" where
  "metric_narrow m =
     and_then
       (reject_first
         [(samples m = [] \<or> (\<exists>reps. replicates m = Some reps \<and> list_ex (\<lambda>r. rep_samples r = []) reps), EmptySamples),
          (\<not> aggregatesSchema (aggregates_of m), AggregatesInvalid),
          (\<not> list_all is_finite (samples m), SamplesNotFinite),
          (agg_n (aggregates_of m) \<noteq> length (samples m), CountDisagrees),
          (mr_ptsSampleSource m = Some AggregateValue \<and> length (samples m) \<noteq> 1, AggregateValueNotSingle),
          (mr_ptsSampleSource m \<noteq> None \<and> (mr_derived m \<or> replicates m \<noteq> None), OriginNotOnReplicates),
          (mr_derived m \<and> replicates m \<noteq> None, DerivedWithReplicates),
          (replicates m \<noteq> None \<and> (mr_hostHardwareId m \<noteq> None \<or> mr_hostNetworkId m \<noteq> None), HostIdsWithReplicates)])
       (\<lambda>_. case replicates m of None \<Rightarrow> Inr () | Some reps \<Rightarrow> replicates_narrow (samples m) reps)"

section \<open>Provider runs\<close>

datatype spec_value = SpecNumber real | SpecText string

text \<open>Observed specs and the specs of a mixture: the fields present, with their values.\<close>

type_synonym specs = "(string \<times> spec_value) list"

record hardware_mixture =
  hw_count :: nat
  hw_specs :: specs
  hw_specMatched :: "bool option"

record network_mixture =
  nw_count :: nat
  nw_specs :: specs

record observed_mixtures =
  om_sandboxes :: nat
  om_hostHardware :: "(string \<times> hardware_mixture) list"
  om_hostNetwork :: "(string \<times> network_mixture) list"

definition mixtures_narrow :: "observed_mixtures \<Rightarrow> bool" where
  "mixtures_narrow om \<longleftrightarrow>
     1 \<le> om_sandboxes om \<and>
     list_all (\<lambda>(i, h). 1 \<le> hw_count h \<and> hw_specs h \<noteq> []) (om_hostHardware om) \<and>
     list_all (\<lambda>(i, n). 1 \<le> nw_count n \<and> nw_specs n \<noteq> []) (om_hostNetwork om) \<and>
     sum_list (map (\<lambda>(i, h). hw_count h) (om_hostHardware om)) \<le> om_sandboxes om \<and>
     sum_list (map (\<lambda>(i, n). nw_count n) (om_hostNetwork om)) \<le> om_sandboxes om"

datatype host_source = SystemProvider | ResultFileToJson

record host_metadata =
  hm_source :: host_source
  hm_sourceFile :: string
  hm_fields :: "(string \<times> string) list"
  hm_sandboxes :: "nat option"
  hm_hostHardwareId :: "string option"
  hm_hostNetworkId :: "string option"

record uncatalogued_result =
  un_id :: string
  un_value :: jsnum
  un_unit :: "string option"
  un_sourceFile :: string

text \<open>Of the cost evidence of a sandbox the checks read the cell and the sandbox; the other fields are their canonical text.\<close>

record cost_record =
  cost_cell_of :: cost_cell
  cost_sandboxId :: "string option"
  cost_rest :: string

record provider_run =
  pv_id :: string
  pv_costEvidence :: "cost_record list option"
  pv_artifactEvidence :: "artifact_evidence list option"
  pv_validated :: bool
  pv_specMatched :: "bool option"
  pv_observedSpecs :: specs
  pv_observedMixtures :: "observed_mixtures option"
  pv_hostMetadata :: "host_metadata list option"
  pv_metrics :: "metric_result list"
  pv_suitesCovered :: "string list"
  pv_gaps :: "result_gap list"
  pv_uncatalogued :: "uncatalogued_result list"

datatype provider_violation =
    ValidatedWithoutMetrics
  | VerdictWithoutSpecs
  | DanglingHostId string
  | VerdictKinderThanMachines
  | BadMetric metric_violation
  | BadGap
  | BadMixtures
  | BadArtifact

definition hardware_ids :: "provider_run \<Rightarrow> string list" where
  "hardware_ids p = (case pv_observedMixtures p of None \<Rightarrow> [] | Some om \<Rightarrow> map fst (om_hostHardware om))"

definition network_ids :: "provider_run \<Rightarrow> string list" where
  "network_ids p = (case pv_observedMixtures p of None \<Rightarrow> [] | Some om \<Rightarrow> map fst (om_hostNetwork om))"

definition resolves :: "string list \<Rightarrow> string option \<Rightarrow> bool" where
  "resolves ids i \<longleftrightarrow> (case i of None \<Rightarrow> True | Some k \<Rightarrow> k \<in> set ids)"

definition metric_ids_resolve :: "provider_run \<Rightarrow> metric_result \<Rightarrow> provider_violation + unit" where
  "metric_ids_resolve p m =
     reject_first
       [(\<not> resolves (hardware_ids p) (mr_hostHardwareId m), DanglingHostId (metricId m)),
        (\<not> resolves (network_ids p) (mr_hostNetworkId m), DanglingHostId (metricId m)),
        (list_ex (\<lambda>r. \<not> resolves (hardware_ids p) (rep_hostHardwareId r) \<or> \<not> resolves (network_ids p) (rep_hostNetworkId r))
           (case replicates m of None \<Rightarrow> [] | Some reps \<Rightarrow> reps), DanglingHostId (metricId m))]"

definition host_ids_resolve :: "provider_run \<Rightarrow> host_metadata \<Rightarrow> provider_violation + unit" where
  "host_ids_resolve p h =
     reject_first
       [(\<not> resolves (hardware_ids p) (hm_hostHardwareId h), DanglingHostId (hm_sourceFile h)),
        (\<not> resolves (network_ids p) (hm_hostNetworkId h), DanglingHostId (hm_sourceFile h))]"

text \<open>The field schemas first (metrics, gaps, mixtures), then the four narrows in their order.\<close>

definition provider_narrow :: "provider_run \<Rightarrow> provider_violation + unit" where
  "provider_narrow p =
     and_then (reject_each (\<lambda>m. case metric_narrow m of Inl v \<Rightarrow> Inl (BadMetric v) | Inr _ \<Rightarrow> Inr ()) (pv_metrics p)) (\<lambda>_.
     and_then (reject_first
         [(list_ex (\<lambda>g. \<not> gap_narrow g) (pv_gaps p), BadGap),
          (\<not> pred_option mixtures_narrow (pv_observedMixtures p), BadMixtures),
          (\<not> pred_option (list_all (\<lambda>e. provenance_narrow (ae_provenance e))) (pv_artifactEvidence p), BadArtifact),
          (pv_validated p \<and> pv_metrics p = [], ValidatedWithoutMetrics),
          (pv_specMatched p \<noteq> None \<and> pv_observedSpecs p = [], VerdictWithoutSpecs)]) (\<lambda>_.
     and_then (reject_each (metric_ids_resolve p) (pv_metrics p)) (\<lambda>_.
     and_then (reject_each (host_ids_resolve p) (case pv_hostMetadata p of None \<Rightarrow> [] | Some hs \<Rightarrow> hs)) (\<lambda>_.
       if list_ex (\<lambda>(i, h). hw_specMatched h = Some False)
            (case pv_observedMixtures p of None \<Rightarrow> [] | Some om \<Rightarrow> om_hostHardware om) \<and>
          pv_specMatched p \<noteq> Some False
       then Inl VerdictKinderThanMachines else Inr ()))))"

definition providerReportedNothing :: "provider_run \<Rightarrow> bool" where
  "providerReportedNothing p \<longleftrightarrow>
     pv_metrics p = [] \<and> pv_suitesCovered p = [] \<and> pv_gaps p = [] \<and> pv_uncatalogued p = [] \<and>
     pv_observedSpecs p = [] \<and> (case pv_hostMetadata p of None \<Rightarrow> True | Some hs \<Rightarrow> hs = []) \<and>
     (case pv_costEvidence p of None \<Rightarrow> True | Some cs \<Rightarrow> cs = []) \<and>
     (case pv_artifactEvidence p of None \<Rightarrow> True | Some es \<Rightarrow> es = [])"

definition providerStatusText :: "provider_run \<Rightarrow> string" where
  "providerStatusText p =
     (if pv_validated p then ''validated'' else ''pending'') @
     (if providerReportedNothing p then '' (no shard data)'' else [])"

section \<open>Experiment linkage\<close>

datatype cell_status = Complete | Missing | Failed | Cancelled | Excluded

datatype trial_source = TrialRawString | SingleTrialValue | TrialAggregateValue | Unverified

record pass_shortfall =
  ps_providerId :: string
  ps_metricId :: string
  ps_source :: trial_source
  ps_observed :: "nat option"
  ps_expected :: nat

record partial_cell =
  pc_id :: string
  pc_provider :: string
  pc_suite :: string
  pc_replicate :: nat
  pc_attemptId :: "string option"
  pc_status :: cell_status
  pc_plannedMetrics :: "string list"
  pc_passes :: nat
  pc_missingMetrics :: "string list"
  pc_excludedMetrics :: "string list"
  pc_retainedMetrics :: "string list"
  pc_passShortfalls :: "pass_shortfall list option"

record partial_coverage =
  pa_planned :: nat
  pa_complete :: nat
  pa_incomplete :: nat
  pa_excluded :: nat
  pa_cells :: "partial_cell list"

record experiment_repair =
  xr_sourceRun :: string
  xr_sourceSha :: string
  xr_sourcePlanDigest :: string
  xr_sourceAttemptsDigest :: string
  xr_recoveryRun :: string
  xr_recoveryPlanDigest :: string
  xr_operator :: string
  xr_reason :: string
  xr_cells :: "(string \<times> string option) list"

record job_step =
  js_number :: nat
  js_name :: string
  js_conclusion :: string

record unstarted_batch =
  ub_planDigest :: string
  ub_sourceSha :: string
  ub_batchId :: string
  ub_cellIds :: "string list"
  ub_operator :: string
  ub_workflow_id :: nat
  ub_workflow_attempt :: nat
  ub_workflow_sha :: string
  ub_workflow_login :: string
  ub_job_run_id :: nat
  ub_job_run_attempt :: nat
  ub_job_sha :: string
  ub_job_name :: string
  ub_job_steps :: "job_step list"
  ub_journal_recordsDigest :: string

datatype recovery_observation =
    SandboxObservation string string
  | RuncloudNamedSandbox string string
  | ModalApp string string string

record cleanup_recovery =
  cr_attemptId :: string
  cr_cellId :: string
  cr_planDigest :: string
  cr_attemptDigest :: string
  cr_workflowRun :: string
  cr_sourceSha :: string
  cr_confirmedAt :: string
  cr_operator :: string
  cr_observation :: recovery_observation

record experiment_link =
  ex_planDigest :: string
  ex_cohortDigest :: "string option"
  ex_attemptIds :: "string list"
  ex_cleanupRecoveries :: "cleanup_recovery list option"
  ex_repair :: "experiment_repair option"
  ex_unstartedBatches :: "unstarted_batch list option"
  ex_partial :: "partial_coverage option"

record run_doc =
  run_version :: nat
  run_id :: string
  run_sha :: string
  run_generatedAt :: string
  run_sourceRunUrl :: "string option"
  run_replicateIndex :: "nat option"
  run_experiment :: "experiment_link option"
  run_targetSpec :: target_spec
  run_providers :: "provider_run list"

definition UNSTARTED_BATCH_SOURCE_REVISION :: string where
  "UNSTARTED_BATCH_SOURCE_REVISION = ''8d12320592d858202f46648b903bf4e5a75d086f''"

definition UNSTARTED_BATCH_WORKFLOW_REVISION :: string where
  "UNSTARTED_BATCH_WORKFLOW_REVISION = ''de63d929211cd0b416372e11f1dd71e63b99fa0d''"

datatype run_violation =
    BadProvider provider_violation
  | LinkFields
  | ExperimentLinkage
  | RepairNotBound
  | UnstartedNotBound
  | RecoveriesNotLinked
  | PartialLinkage
  | RepeatedAttemptIds
  | PartialCounts
  | PartialAttempts
  | PartialCell string
  | ReplicateBeforeV3
  | DescriptionBeforeV4
  | CostEvidenceVersion
  | ArtifactEvidenceVersion
  | UnattributedMetrics
  | CostEvidenceForeign
  | ArtifactEvidenceForeign
  | RepeatedArtifactCell
  | ReusedSandbox
  | SeveralArtifacts
  | ShardAndAggregate

section \<open>The narrow of a Run\<close>

definition repair_bound :: "run_doc \<Rightarrow> experiment_link \<Rightarrow> experiment_repair \<Rightarrow> bool" where
  "repair_bound run x repair \<longleftrightarrow>
     xr_sourceRun repair = run_id run \<and> xr_sourceSha repair = run_sha run \<and>
     xr_sourcePlanDigest repair = ex_planDigest x \<and> xr_sourceRun repair \<noteq> xr_recoveryRun repair \<and>
     distinct (map fst (xr_cells repair))"

definition unstarted_cell_ok :: "experiment_repair \<Rightarrow> partial_coverage \<Rightarrow> string \<Rightarrow> bool" where
  "unstarted_cell_ok repair partial i \<longleftrightarrow>
     list_ex (\<lambda>c. fst c = i) (xr_cells repair) \<and>
     (case find (\<lambda>c. pc_id c = i) (pa_cells partial) of
        None \<Rightarrow> False
      | Some cell \<Rightarrow> pc_provider cell = ''vercel'' \<and> pc_status cell = Missing \<and> pc_attemptId cell = None \<and>
                     pc_retainedMetrics cell = [])"

definition unstarted_receipt_ok :: "run_doc \<Rightarrow> experiment_repair \<Rightarrow> partial_coverage \<Rightarrow> unstarted_batch \<Rightarrow> bool" where
  "unstarted_receipt_ok run repair partial r \<longleftrightarrow>
     ub_planDigest r = xr_recoveryPlanDigest repair \<and> ub_sourceSha r = run_sha run \<and>
     ub_sourceSha r = UNSTARTED_BATCH_SOURCE_REVISION \<and> nat_string (ub_workflow_id r) = xr_recoveryRun repair \<and>
     ub_job_run_id r = ub_workflow_id r \<and> ub_job_run_attempt r = ub_workflow_attempt r \<and>
     ub_job_sha r = ub_workflow_sha r \<and> ub_workflow_sha r = UNSTARTED_BATCH_WORKFLOW_REVISION \<and>
     ub_operator r = xr_operator repair \<and> ub_workflow_login r = xr_operator repair \<and>
     list_all (unstarted_cell_ok repair partial) (ub_cellIds r)"

definition unstarted_bound :: "run_doc \<Rightarrow> experiment_link \<Rightarrow> unstarted_batch list \<Rightarrow> bool" where
  "unstarted_bound run x unstarted \<longleftrightarrow>
     (case (ex_repair x, ex_partial x) of
        (Some repair, Some partial) \<Rightarrow>
          distinct (map ub_batchId unstarted) \<and> distinct (concat (map ub_cellIds unstarted)) \<and>
          list_all (unstarted_receipt_ok run repair partial) unstarted
      | _ \<Rightarrow> False)"

definition recovery_ok :: "run_doc \<Rightarrow> experiment_link \<Rightarrow> partial_coverage \<Rightarrow> cleanup_recovery \<Rightarrow> bool" where
  "recovery_ok run x partial r \<longleftrightarrow>
     (let replacement = (case ex_repair x of None \<Rightarrow> None
                         | Some repair \<Rightarrow> if list_ex (\<lambda>c. fst c = cr_cellId r) (xr_cells repair) then Some repair else None)
      in cr_planDigest r = (case replacement of Some repair \<Rightarrow> xr_recoveryPlanDigest repair | None \<Rightarrow> ex_planDigest x) \<and>
         cr_workflowRun r = (case replacement of Some repair \<Rightarrow> xr_recoveryRun repair | None \<Rightarrow> run_id run) \<and>
         cr_sourceSha r = run_sha run \<and>
         (case find (\<lambda>c. pc_attemptId c = Some (cr_attemptId r)) (pa_cells partial) of
            None \<Rightarrow> False
          | Some cell \<Rightarrow> pc_id cell = cr_cellId r \<and> pc_status cell = Failed \<and> pc_retainedMetrics cell = []))"

definition recoveries_linked :: "run_doc \<Rightarrow> experiment_link \<Rightarrow> cleanup_recovery list \<Rightarrow> bool" where
  "recoveries_linked run x recoveries \<longleftrightarrow>
     (case ex_partial x of
        None \<Rightarrow> False
      | Some partial \<Rightarrow>
          distinct (map cr_attemptId recoveries) \<and> list_all (recovery_ok run x partial) recoveries)"

definition partial_attempt_ids :: "partial_coverage \<Rightarrow> string list" where
  "partial_attempt_ids partial = List.map_filter pc_attemptId (pa_cells partial)"

definition partial_counts_ok :: "partial_coverage \<Rightarrow> bool" where
  "partial_counts_ok partial \<longleftrightarrow>
     length (pa_cells partial) = pa_planned partial \<and> distinct (map pc_id (pa_cells partial)) \<and>
     length (filter (\<lambda>c. pc_status c = Complete) (pa_cells partial)) = pa_complete partial \<and>
     length (filter (\<lambda>c. pc_status c = Excluded) (pa_cells partial)) = pa_excluded partial \<and>
     pa_complete partial + pa_incomplete partial + pa_excluded partial = pa_planned partial"

definition partial_attempts_ok :: "experiment_link \<Rightarrow> partial_coverage \<Rightarrow> bool" where
  "partial_attempts_ok x partial \<longleftrightarrow>
     distinct (partial_attempt_ids partial) \<and>
     length (partial_attempt_ids partial) = length (ex_attemptIds x) \<and>
     set (partial_attempt_ids partial) \<subseteq> set (ex_attemptIds x)"

definition partial_cell_ok :: "partial_cell \<Rightarrow> bool" where
  "partial_cell_ok cell \<longleftrightarrow>
     distinct (pc_plannedMetrics cell) \<and> distinct (pc_missingMetrics cell) \<and> distinct (pc_excludedMetrics cell) \<and>
     distinct (pc_retainedMetrics cell) \<and>
     set (pc_missingMetrics cell @ pc_excludedMetrics cell @ pc_retainedMetrics cell) \<subseteq> set (pc_plannedMetrics cell) \<and>
     set (pc_retainedMetrics cell) \<inter> (set (pc_missingMetrics cell) \<union> set (pc_excludedMetrics cell)) = {} \<and>
     (pc_retainedMetrics cell \<noteq> [] \<longrightarrow> pc_attemptId cell \<noteq> None) \<and>
     (pc_status cell = Complete \<longrightarrow>
        pc_missingMetrics cell = [] \<and>
        length (pc_retainedMetrics cell) + length (pc_excludedMetrics cell) = length (pc_plannedMetrics cell))"

text \<open>The bounds of the fields of the linkage, checked before its narrow.\<close>

definition partial_fields :: "partial_coverage \<Rightarrow> bool" where
  "partial_fields partial \<longleftrightarrow>
     1 \<le> pa_planned partial \<and> 1 \<le> pa_incomplete partial \<and>
     list_all (\<lambda>c. pc_plannedMetrics c \<noteq> [] \<and> 1 \<le> pc_passes c) (pa_cells partial)"

definition link_fields :: "experiment_link \<Rightarrow> bool" where
  "link_fields x \<longleftrightarrow>
     ex_attemptIds x \<noteq> [] \<and> ex_cleanupRecoveries x \<noteq> Some [] \<and> ex_unstartedBatches x \<noteq> Some [] \<and>
     pred_option partial_fields (ex_partial x)"

definition experiment_narrow :: "run_doc \<Rightarrow> run_violation + unit" where
  "experiment_narrow run =
     (if (7 \<le> run_version run) \<noteq> (run_experiment run \<noteq> None) then Inl ExperimentLinkage
      else case run_experiment run of
             None \<Rightarrow> Inr ()
           | Some x \<Rightarrow>
               and_then (reject_first
                 [(\<not> pred_option (repair_bound run x) (ex_repair x), RepairNotBound),
                  (\<not> pred_option (unstarted_bound run x) (ex_unstartedBatches x), UnstartedNotBound),
                  (\<not> pred_option (recoveries_linked run x) (ex_cleanupRecoveries x), RecoveriesNotLinked),
                  ((run_version run = 8) \<noteq> (ex_partial x \<noteq> None), PartialLinkage),
                  (\<not> distinct (ex_attemptIds x), RepeatedAttemptIds),
                  (\<not> pred_option partial_counts_ok (ex_partial x), PartialCounts),
                  (\<not> pred_option (partial_attempts_ok x) (ex_partial x), PartialAttempts)])
               (\<lambda>_. reject_each (\<lambda>c. if partial_cell_ok c then Inr () else Inl (PartialCell (pc_id c)))
                      (case ex_partial x of None \<Rightarrow> [] | Some partial \<Rightarrow> pa_cells partial)))"

definition has_replicates :: "run_doc \<Rightarrow> bool" where
  "has_replicates run \<longleftrightarrow> list_ex (\<lambda>p. list_ex (\<lambda>m. replicates m \<noteq> None) (pv_metrics p)) (run_providers run)"

definition described_by_v4 :: "provider_run \<Rightarrow> bool" where
  "described_by_v4 p \<longleftrightarrow>
     pv_observedMixtures p \<noteq> None \<or> list_ex (\<lambda>g. gap_cause_of g \<noteq> None) (pv_gaps p) \<or>
     list_ex mr_derived (pv_metrics p) \<or>
     list_ex (\<lambda>h. hm_sandboxes h \<noteq> None \<or> hm_hostHardwareId h \<noteq> None \<or> hm_hostNetworkId h \<noteq> None)
       (case pv_hostMetadata p of None \<Rightarrow> [] | Some hs \<Rightarrow> hs)"

definition cell_of_run :: "run_doc \<Rightarrow> provider_run \<Rightarrow> cost_cell \<Rightarrow> bool" where
  "cell_of_run run p c \<longleftrightarrow>
     cc_runId c = run_id run \<and> cc_providerId c = pv_id p \<and>
     (run_replicateIndex run \<noteq> None \<longrightarrow> cc_replicateIndex c = run_replicateIndex run)"

text \<open>The loop over artifact evidence, with the cells, sandboxes and effective artifact seen so far.\<close>

fun artifact_loop :: "run_doc \<Rightarrow> provider_run \<Rightarrow> string set \<Rightarrow> string set \<Rightarrow> artifact option \<Rightarrow> artifact_evidence list \<Rightarrow>
  run_violation + unit" where
  "artifact_loop run p cells sandboxes effective [] = Inr ()"
| "artifact_loop run p cells sandboxes effective (e # es) =
     (let key = providerCostCellKey (ae_cell e); current = effectiveArtifact (ae_provenance e)
      in if \<not> cell_of_run run p (ae_cell e) then Inl ArtifactEvidenceForeign
         else if key \<in> cells then Inl RepeatedArtifactCell
         else if ae_sandboxId e \<in> sandboxes then Inl ReusedSandbox
         else if effective \<noteq> None \<and> effective \<noteq> Some current then Inl SeveralArtifacts
         else artifact_loop run p (insert key cells) (insert (ae_sandboxId e) sandboxes) (Some current) es)"

definition provider_versions :: "run_doc \<Rightarrow> provider_run \<Rightarrow> run_violation + unit" where
  "provider_versions run p =
     and_then (reject_first
       [((run_version run < 5) \<noteq> (pv_costEvidence p = None), CostEvidenceVersion),
        ((run_version run < 6) \<noteq> (pv_artifactEvidence p = None), ArtifactEvidenceVersion),
        (6 \<le> run_version run \<and> pv_metrics p \<noteq> [] \<and> (pv_artifactEvidence p = None \<or> pv_artifactEvidence p = Some []),
         UnattributedMetrics),
        (list_ex (\<lambda>c. \<not> cell_of_run run p (cost_cell_of c)) (case pv_costEvidence p of None \<Rightarrow> [] | Some cs \<Rightarrow> cs),
         CostEvidenceForeign)])
     (\<lambda>_. artifact_loop run p {} {} None (case pv_artifactEvidence p of None \<Rightarrow> [] | Some es \<Rightarrow> es))"

definition run_narrow :: "run_doc \<Rightarrow> run_violation + unit" where
  "run_narrow run =
     and_then (reject_each (\<lambda>p. case provider_narrow p of Inl v \<Rightarrow> Inl (BadProvider v) | Inr _ \<Rightarrow> Inr ()) (run_providers run)) (\<lambda>_.
     and_then (if pred_option link_fields (run_experiment run) then Inr () else Inl LinkFields) (\<lambda>_.
     and_then (experiment_narrow run) (\<lambda>_.
     and_then (reject_first
       [(run_version run < 3 \<and> (run_replicateIndex run \<noteq> None \<or> has_replicates run), ReplicateBeforeV3),
        (run_version run < 4 \<and> list_ex described_by_v4 (run_providers run), DescriptionBeforeV4)]) (\<lambda>_.
     and_then (reject_each (provider_versions run) (run_providers run)) (\<lambda>_.
       if run_replicateIndex run \<noteq> None \<and> has_replicates run then Inl ShardAndAggregate else Inr ())))))"

definition parseRun :: "run_doc \<Rightarrow> run_violation + run_doc" where
  "parseRun run = and_then (run_narrow run) (\<lambda>_. Inr run)"

section \<open>The index of runs\<close>

definition runDocumentPath :: "string \<Rightarrow> nat option \<Rightarrow> string" where
  "runDocumentPath i replicate_index =
     ''runs/'' @ i @ (case replicate_index of None \<Rightarrow> [] | Some k \<Rightarrow> ''-r'' @ nat_string k) @ ''.json''"

definition runDocumentPaths :: "string \<Rightarrow> nat option \<Rightarrow> string list" where
  "runDocumentPaths i replicate_index =
     (case replicate_index of
        None \<Rightarrow> [runDocumentPath i None]
      | Some k \<Rightarrow> [runDocumentPath i (Some k), runDocumentPath i None])"

record index_entry =
  ie_runId :: string
  ie_generatedAt :: string
  ie_path :: string
  ie_replicateIndex :: "nat option"

definition entry_narrow :: "index_entry \<Rightarrow> bool" where
  "entry_narrow e \<longleftrightarrow> ie_path e \<in> set (runDocumentPaths (ie_runId e) (ie_replicateIndex e))"

text \<open>Each entry against the one before it.\<close>

fun newest_first :: "index_entry list \<Rightarrow> bool" where
  "newest_first (e # f # es) = (\<not> ie_generatedAt e < ie_generatedAt f \<and> newest_first (f # es))"
| "newest_first es = True"

definition parseRunIndex :: "index_entry list \<Rightarrow> index_entry list option" where
  "parseRunIndex entries = (if list_all entry_narrow entries \<and> newest_first entries then Some entries else None)"

section \<open>Lemmas\<close>

lemma replicate_loop_Inr:
  "replicate_loop seen reps = Inr () \<longleftrightarrow>
     distinct (map rep_index reps) \<and> rep_index ` set reps \<inter> seen = {} \<and>
     (\<forall>r\<in>set reps. list_all is_finite (rep_samples r) \<and>
        (rep_ptsSampleSource r = Some AggregateValue \<longrightarrow> length (rep_samples r) = 1))"
  by (induction reps arbitrary: "seen") auto

lemma finite_js_real: "list_all is_finite xs \<Longrightarrow> xs = map Fin (map js_real xs)"
proof (induction xs)
  case (Cons x xs)
  then show ?case by (cases x) (auto simp: js_real_def)
qed simp

lemma sort_js_real_eq:
  assumes "list_all is_finite xs" "list_all is_finite ys"
  shows "sort (map js_real xs) = sort (map js_real ys) \<longleftrightarrow> mset xs = mset ys"
proof
  assume "sort (map js_real xs) = sort (map js_real ys)"
  then have "mset (map js_real xs) = mset (map js_real ys)" by (metis mset_sort)
  then have "mset (map Fin (map js_real xs)) = mset (map Fin (map js_real ys))" by (metis mset_map)
  then show "mset xs = mset ys" using finite_js_real[OF assms(1)] finite_js_real[OF assms(2)] by metis
next
  assume "mset xs = mset ys"
  then have "mset (map js_real xs) = mset (map js_real ys)" by simp
  then show "sort (map js_real xs) = sort (map js_real ys)" by (rule sort_mset_eq)
qed

lemma metric_narrow_Inr:
  "metric_narrow m = Inr () \<longleftrightarrow>
     samples m \<noteq> [] \<and> aggregatesSchema (aggregates_of m) \<and> list_all is_finite (samples m) \<and>
     agg_n (aggregates_of m) = length (samples m) \<and>
     (mr_ptsSampleSource m = Some AggregateValue \<longrightarrow> length (samples m) = 1) \<and>
     (mr_ptsSampleSource m \<noteq> None \<longrightarrow> \<not> mr_derived m \<and> replicates m = None) \<and>
     (\<forall>reps. replicates m = Some reps \<longrightarrow>
        \<not> mr_derived m \<and> mr_hostHardwareId m = None \<and> mr_hostNetworkId m = None \<and>
        2 \<le> length reps \<and> distinct (map rep_index reps) \<and>
        (\<forall>r\<in>set reps. rep_samples r \<noteq> [] \<and> list_all is_finite (rep_samples r) \<and>
           (rep_ptsSampleSource r = Some AggregateValue \<longrightarrow> length (rep_samples r) = 1)) \<and>
        mset (samples m) = mset (concat (map rep_samples reps)))"
proof (cases "replicates m")
  case None
  then show ?thesis by (auto simp: metric_narrow_def and_then_Inr_iff reject_first_Inr)
next
  case (Some reps)
  have pooled: "pooled_check (concat (map rep_samples reps)) (samples m) = Inr () \<longleftrightarrow>
      mset (samples m) = mset (concat (map rep_samples reps))"
    if "list_all is_finite (samples m)" "\<forall>r\<in>set reps. list_all is_finite (rep_samples r)"
  proof -
    have "list_all is_finite (concat (map rep_samples reps))" using that(2) by (auto simp: list_all_iff)
    then show ?thesis
      using sort_js_real_eq[of "concat (map rep_samples reps)" "samples m"] that(1)
      by (auto simp: pooled_check_def dest: mset_eq_length)
  qed
  show ?thesis
    using Some pooled
    by (auto simp: metric_narrow_def replicates_narrow_def and_then_Inr_iff reject_first_Inr replicate_loop_Inr list_ex_iff)
qed

section \<open>Properties\<close>

text \<open>
  A metric result with a replicate breakdown passes its narrow exactly when the pooled
  samples are, as a multiset, the union of at least two sandboxes with distinct indices, all finite,
  with one sample where only an aggregate value is known, and no marker of a computed or single-host
  metric: the reported distribution and the breakdown can never disagree.
\<close>

theorem metric_breakdown_consistent:
  assumes "replicates m = Some reps"
  shows "metric_narrow m = Inr () \<longleftrightarrow>
     samples m \<noteq> [] \<and> aggregatesSchema (aggregates_of m) \<and> agg_n (aggregates_of m) = length (samples m) \<and>
     list_all is_finite (samples m) \<and> mset (samples m) = mset (concat (map rep_samples reps)) \<and>
     2 \<le> length reps \<and> distinct (map rep_index reps) \<and>
     (\<forall>r\<in>set reps. rep_samples r \<noteq> [] \<and> (rep_ptsSampleSource r = Some AggregateValue \<longrightarrow> length (rep_samples r) = 1)) \<and>
     mr_ptsSampleSource m = None \<and> \<not> mr_derived m \<and> mr_hostHardwareId m = None \<and> mr_hostNetworkId m = None"
proof -
  have "list_all is_finite (rep_samples r)"
    if "list_all is_finite (samples m)" "mset (samples m) = mset (concat (map rep_samples reps))" "r \<in> set reps" for r
  proof -
    have "set (samples m) = set (concat (map rep_samples reps))" using that(2) by (rule mset_eq_setD)
    then show ?thesis using that(1,3) by (auto simp: list_all_iff)
  qed
  then show ?thesis unfolding metric_narrow_Inr using assms by auto
qed

lemma metric_breakdown_consistent_witness:
  "metric_narrow (plain_metric ''m'' [Fin 1, Fin 4, Fin 3]
     \<lparr>p50 = Fin 3, p95 = Fin 4, agg_mean = 8 / 3, stdev = 0, agg_min = Fin 1, agg_max = Fin 4, agg_n = 3\<rparr>
     (Some [plain_slice 0 [Fin 4], plain_slice 1 [Fin 1, Fin 3]])) = Inr ()"
  by (subst metric_breakdown_consistent) (auto simp: plain_metric_def plain_slice_def aggregatesSchema_def)

text \<open>
  In a Run with partial coverage that parses, every cell accounts for its planned metrics:
  the retained ones are planned and neither missing nor excluded, a complete cell's retained and
  excluded metrics are exactly its planned ones, and the attempts of the cells are exactly the attempts
  of the experiment, each used by one cell.
\<close>

theorem partial_coverage_accounts:
  assumes "parseRun run = Inr run'" "run_experiment run = Some x" "ex_partial x = Some partial"
  shows "(\<forall>c\<in>set (pa_cells partial).
      set (pc_retainedMetrics c) \<subseteq> set (pc_plannedMetrics c) - set (pc_missingMetrics c) - set (pc_excludedMetrics c) \<and>
      (pc_status c = Complete \<longrightarrow> set (pc_retainedMetrics c) \<union> set (pc_excludedMetrics c) = set (pc_plannedMetrics c))) \<and>
    distinct (partial_attempt_ids partial) \<and> set (partial_attempt_ids partial) = set (ex_attemptIds x) \<and>
    pa_complete partial + pa_incomplete partial + pa_excluded partial = length (pa_cells partial)"
proof -
  have narrow: "experiment_narrow run = Inr ()"
    using assms(1) by (auto simp: parseRun_def run_narrow_def and_then_Inr_iff)
  have cells: "\<forall>c\<in>set (pa_cells partial). partial_cell_ok c" and counts: "partial_counts_ok partial"
    and attempts: "partial_attempts_ok x partial" and ids: "distinct (ex_attemptIds x)"
    using narrow assms(2,3)
    by (auto simp: experiment_narrow_def and_then_Inr_iff reject_first_Inr reject_each_Inr split: if_splits)
  have complete: "set (pc_retainedMetrics c) \<union> set (pc_excludedMetrics c) = set (pc_plannedMetrics c)"
    if c: "c \<in> set (pa_cells partial)" "pc_status c = Complete" for c
  proof (rule card_subset_eq)
    have ok: "partial_cell_ok c" using cells c(1) by blast
    show "finite (set (pc_plannedMetrics c))" by simp
    show "set (pc_retainedMetrics c) \<union> set (pc_excludedMetrics c) \<subseteq> set (pc_plannedMetrics c)"
      using ok by (auto simp: partial_cell_ok_def)
    have "card (set (pc_retainedMetrics c) \<union> set (pc_excludedMetrics c)) =
        length (pc_retainedMetrics c) + length (pc_excludedMetrics c)"
      using ok by (subst card_Un_disjoint) (auto simp: partial_cell_ok_def distinct_card)
    then show "card (set (pc_retainedMetrics c) \<union> set (pc_excludedMetrics c)) = card (set (pc_plannedMetrics c))"
      using ok c(2) by (simp add: partial_cell_ok_def distinct_card)
  qed
  have "set (partial_attempt_ids partial) = set (ex_attemptIds x)"
    using attempts ids by (intro card_subset_eq) (auto simp: partial_attempts_ok_def distinct_card)
  then show ?thesis
    using cells complete counts attempts
    by (auto simp: partial_cell_ok_def partial_counts_ok_def partial_attempts_ok_def)
qed

text \<open>A partial Run of one complete and one failed cell, for the witness.\<close>

definition example_partial :: partial_coverage where
  "example_partial = \<lparr>pa_planned = 2, pa_complete = 1, pa_incomplete = 1, pa_excluded = 0,
     pa_cells = [\<lparr>pc_id = ''c0'', pc_provider = ''p'', pc_suite = ''memory'', pc_replicate = 0, pc_attemptId = Some ''a0'',
         pc_status = Complete, pc_plannedMetrics = [''m'', ''n''], pc_passes = 1, pc_missingMetrics = [],
         pc_excludedMetrics = [''n''], pc_retainedMetrics = [''m''], pc_passShortfalls = None\<rparr>,
       \<lparr>pc_id = ''c1'', pc_provider = ''p'', pc_suite = ''disk'', pc_replicate = 0, pc_attemptId = Some ''a1'',
         pc_status = Failed, pc_plannedMetrics = [''m''], pc_passes = 1, pc_missingMetrics = [''m''],
         pc_excludedMetrics = [], pc_retainedMetrics = [], pc_passShortfalls = None\<rparr>]\<rparr>"

definition example_link :: experiment_link where
  "example_link = \<lparr>ex_planDigest = ''d'', ex_cohortDigest = None, ex_attemptIds = [''a0'', ''a1''], ex_cleanupRecoveries = None,
     ex_repair = None, ex_unstartedBatches = None, ex_partial = Some example_partial\<rparr>"

definition example_run :: run_doc where
  "example_run = \<lparr>run_version = 8, run_id = ''1'', run_sha = ''s'', run_generatedAt = ''2026-07-01T00:00:00Z'',
     run_sourceRunUrl = None, run_replicateIndex = None, run_experiment = Some example_link,
     run_targetSpec = \<lparr>vcpus = 4, memoryGb = 8, diskGb = None\<rparr>, run_providers = []\<rparr>"

lemma example_run_parses: "parseRun example_run = Inr example_run"
  by (simp add: parseRun_def run_narrow_def link_fields_def partial_fields_def experiment_narrow_def example_run_def example_link_def example_partial_def
      partial_counts_ok_def partial_attempts_ok_def partial_attempt_ids_def List.map_filter_def partial_cell_ok_def
      has_replicates_def)

lemma partial_coverage_accounts_witness:
  "set (partial_attempt_ids example_partial) = {''a0'', ''a1''}"
proof -
  have "run_experiment example_run = Some example_link" "ex_partial example_link = Some example_partial"
    by (simp_all add: example_run_def example_link_def)
  from partial_coverage_accounts[OF example_run_parses this] show ?thesis by (simp add: example_link_def)
qed

definition one_artifact :: "artifact option \<Rightarrow> artifact_evidence list \<Rightarrow> bool" where
  "one_artifact effective es \<longleftrightarrow>
     (\<exists>a. (effective = None \<or> effective = Some a) \<and> (\<forall>e\<in>set es. effectiveArtifact (ae_provenance e) = a))"

lemma one_artifact_Cons:
  "one_artifact effective (e # es) \<longleftrightarrow>
     (effective = None \<or> effective = Some (effectiveArtifact (ae_provenance e))) \<and>
     one_artifact (Some (effectiveArtifact (ae_provenance e))) es"
  by (auto simp: one_artifact_def)

lemma artifact_loop_Inr:
  "artifact_loop run p cells sandboxes effective es = Inr () \<longleftrightarrow>
     (\<forall>e\<in>set es. cell_of_run run p (ae_cell e)) \<and>
     distinct (map (\<lambda>e. providerCostCellKey (ae_cell e)) es) \<and>
     (\<lambda>e. providerCostCellKey (ae_cell e)) ` set es \<inter> cells = {} \<and>
     distinct (map ae_sandboxId es) \<and> ae_sandboxId ` set es \<inter> sandboxes = {} \<and> one_artifact effective es"
proof (induction es arbitrary: cells sandboxes effective)
  case Nil
  then show ?case by (cases effective) (auto simp: one_artifact_def)
next
  case (Cons e es)
  show ?case
    unfolding artifact_loop.simps Let_def one_artifact_Cons
    by (cases "cell_of_run run p (ae_cell e)"; cases "providerCostCellKey (ae_cell e) \<in> cells";
        cases "ae_sandboxId e \<in> sandboxes") (auto simp: Cons)
qed

text \<open>
  The artifact evidence of a Run that parses from version 6 on attributes each sandbox to
  one cell of that Run and provider, one cell to one sandbox, and one artifact to the whole provider.
\<close>

theorem artifact_evidence_attributes:
  assumes "parseRun run = Inr run'" "6 \<le> run_version run" "p \<in> set (run_providers run)"
  shows "\<exists>es a. pv_artifactEvidence p = Some es \<and> (pv_metrics p \<noteq> [] \<longrightarrow> es \<noteq> []) \<and>
    (\<forall>e\<in>set es. cc_runId (ae_cell e) = run_id run \<and> cc_providerId (ae_cell e) = pv_id p \<and>
       effectiveArtifact (ae_provenance e) = a) \<and>
    distinct (map (\<lambda>e. providerCostCellKey (ae_cell e)) es) \<and> distinct (map ae_sandboxId es)"
proof -
  have versions: "provider_versions run p = Inr ()"
    using assms(1,3) by (auto simp: parseRun_def run_narrow_def and_then_Inr_iff reject_each_Inr)
  then obtain es where es: "pv_artifactEvidence p = Some es" "pv_metrics p \<noteq> [] \<longrightarrow> es \<noteq> []"
    using assms(2)
    by (cases "pv_artifactEvidence p") (auto simp: provider_versions_def and_then_Inr_iff split: if_splits)
  have "artifact_loop run p {} {} None es = Inr ()"
    using versions es(1) by (simp add: provider_versions_def and_then_Inr_iff)
  then have loop: "\<forall>e\<in>set es. cell_of_run run p (ae_cell e)" "distinct (map (\<lambda>e. providerCostCellKey (ae_cell e)) es)"
    "distinct (map ae_sandboxId es)" "one_artifact None es"
    unfolding artifact_loop_Inr by blast+
  obtain a where "\<forall>e\<in>set es. effectiveArtifact (ae_provenance e) = a" using loop(4) by (auto simp: one_artifact_def)
  then show ?thesis using es loop(1-3) by (auto simp: cell_of_run_def)
qed

definition example_evidence :: artifact_evidence where
  "example_evidence = \<lparr>ae_cell = \<lparr>cc_runId = ''1'', cc_providerId = ''p'', cc_suite = ''memory'', cc_replicateIndex = Some 0\<rparr>,
     ae_sandboxId = ''sb'', ae_provenance = DriverReported (Image ''i'') (Image ''i'')\<rparr>"

definition example_provider :: provider_run where
  "example_provider = \<lparr>pv_id = ''p'', pv_costEvidence = Some [], pv_artifactEvidence = Some [example_evidence], pv_validated = True,
     pv_specMatched = None, pv_observedSpecs = [], pv_observedMixtures = None, pv_hostMetadata = None,
     pv_metrics = [plain_metric ''m'' [Fin 1] \<lparr>p50 = Fin 1, p95 = Fin 1, agg_mean = 1, stdev = 0, agg_min = Fin 1, agg_max = Fin 1, agg_n = 1\<rparr> None],
     pv_suitesCovered = [''memory''], pv_gaps = [], pv_uncatalogued = []\<rparr>"

lemma artifact_evidence_attributes_witness: "\<exists>es. pv_artifactEvidence example_provider = Some es \<and> es \<noteq> []"
proof -
  have "parseRun (example_run\<lparr>run_providers := [example_provider]\<rparr>) = Inr (example_run\<lparr>run_providers := [example_provider]\<rparr>)"
    by (simp add: parseRun_def run_narrow_def link_fields_def partial_fields_def experiment_narrow_def example_run_def example_link_def
      example_partial_def provenance_narrow_def partial_counts_ok_def partial_attempts_ok_def partial_attempt_ids_def List.map_filter_def partial_cell_ok_def
      has_replicates_def provider_narrow_def provider_versions_def example_provider_def example_evidence_def
      metric_narrow_def aggregatesSchema_def plain_metric_def metric_ids_resolve_def resolves_def cell_of_run_def)
  from artifact_evidence_attributes[OF this, of example_provider]
  show ?thesis by (auto simp: example_run_def example_provider_def)
qed

lemma newest_first_sorted: "newest_first es \<longleftrightarrow> sorted_wrt (\<lambda>e f. ie_generatedAt f \<le> ie_generatedAt e) es"
proof (induction es rule: newest_first.induct)
  case (1 e f es)
  then show ?case by (auto simp: not_less intro: order_trans)
qed auto

text \<open>
  A parsed index is ordered newest first throughout, not between neighbours only, and each
  of its paths is a name of its run's identity.
\<close>

theorem run_index_newest_first:
  "parseRunIndex entries = Some parsed \<longleftrightarrow>
     parsed = entries \<and> sorted_wrt (\<lambda>e f. ie_generatedAt f \<le> ie_generatedAt e) entries \<and>
     (\<forall>e\<in>set entries. ie_path e = runDocumentPath (ie_runId e) (ie_replicateIndex e) \<or>
        ie_path e = runDocumentPath (ie_runId e) None)"
proof -
  have "entry_narrow e \<longleftrightarrow> ie_path e = runDocumentPath (ie_runId e) (ie_replicateIndex e) \<or>
      ie_path e = runDocumentPath (ie_runId e) None" for e
    by (cases "ie_replicateIndex e") (auto simp: entry_narrow_def runDocumentPaths_def)
  then show ?thesis by (auto simp: parseRunIndex_def newest_first_sorted list_all_iff)
qed

lemma run_index_newest_first_witness:
  "\<exists>e f. parseRunIndex [e, f] = Some [e, f] \<and> ie_generatedAt f < ie_generatedAt e"
proof -
  define e where "e = \<lparr>ie_runId = ''2'', ie_generatedAt = ''b'', ie_path = runDocumentPath ''2'' (Some 0), ie_replicateIndex = Some 0\<rparr>"
  define f where "f = \<lparr>ie_runId = ''1'', ie_generatedAt = ''a'', ie_path = runDocumentPath ''1'' None, ie_replicateIndex = None\<rparr>"
  have "parseRunIndex [e, f] = Some [e, f]"
    by (simp only: run_index_newest_first) (simp add: e_def f_def)
  then show ?thesis by (intro exI[of _ e] exI[of _ f]) (simp add: e_def f_def)
qed

end
