(* ===== verification/Evidence.thy ===== *)
theory Evidence
  imports RunModel PlanVerifier
begin

text \<open>
  The terminal evidence of an experiment (\<open>packages/schema/src/experiment.ts\<close>): attempts, execution
  and cleanup receipts, retained allocations, and the predicates on them of
  \<open>packages/results/src/lib/experiment.ts\<close>.
\<close>

section \<open>Receipts\<close>

datatype exec_phase = CreatePhase | SetupPhase | BenchmarkPhase | CollectPhase

record exec_step =
  st_phase :: exec_phase
  st_label :: string
  st_exitCode :: "int option"
  st_allowFailure :: "bool option"

datatype detached_state =
    LaunchPending | LaunchAccepted | Running | ObservationUnavailable | DetachedCompleted | DeadlineExceeded | CollectionFailed

record detached_step =
  dt_phase :: exec_phase
  dt_label :: string
  dt_exitCode :: "int option"
  dt_allowFailure :: "bool option"
  dt_state :: detached_state

record execution_receipt =
  xe_executionId :: string
  xe_runId :: string
  xe_replicateIndex :: "nat option"
  xe_provider :: string
  xe_suite :: string
  xe_sandboxId :: string
  xe_steps :: "exec_step list"
  xe_detached :: "detached_step list"
  xe_primaryFailure :: "string option"

record cleanup_receipt =
  cl_executionId :: string
  cl_completed :: bool
  cl_confirmedAbsent :: bool

datatype attempt_outcome = CompletedAttempt | FailedAttempt | CancelledAttempt

datatype attempt_cleanup = ConfirmedCleanup | UnresolvedCleanup | NotAllocated

datatype attempt_completion = KnownSuccess | KnownFailure | UnknownCompletion

record experiment_attempt =
  at_id :: string
  at_cellId :: string
  at_planDigest :: string
  at_sha :: string
  at_workloadRevision :: string
  at_environmentRevision :: string
  at_artifactIdentity :: string
  at_passes :: nat
  at_workflowRun :: string
  at_sequence :: nat
  at_previousAttempt :: "string option"
  at_outcome :: attempt_outcome
  at_measurementStarted :: bool
  at_retryable :: bool
  at_cleanup :: attempt_cleanup
  at_completion :: attempt_completion
  at_runDigest :: "string option"
  at_rawDigest :: "string option"
  at_diagnostic :: "string option"

record retained_allocation =
  al_account :: string
  al_attempt :: string
  al_cellId :: string
  al_planDigest :: string
  al_provider :: string
  al_sandboxId :: string

record pts_trial =
  tr_providerId :: string
  tr_metricId :: string
  tr_source :: trial_source
  tr_observed :: "nat option"

record attempt_with_run =
  aw_evidence :: experiment_attempt
  aw_run :: "run_doc option"
  aw_execution :: "execution_receipt option"
  aw_cleanup :: "cleanup_receipt option"
  aw_cleanupRecovery :: "cleanup_recovery option"
  aw_allocation :: "retained_allocation option"
  aw_ptsTrials :: "pts_trial list option"

section \<open>Steps\<close>

text \<open>
  The values of a map filled in order: one per key, in the order of first insertion, each the last
  entry of its key.
\<close>

definition last_by_key :: "('a \<Rightarrow> 'k) \<Rightarrow> 'a list \<Rightarrow> 'a list" where
  "last_by_key key xs = map (\<lambda>k. last (filter (\<lambda>x. key x = k) xs)) (insertion_order (map key xs))"

definition finalSteps :: "exec_step list \<Rightarrow> exec_step list" where
  "finalSteps steps = last_by_key (\<lambda>s. (st_phase s, st_label s)) steps"

definition finalDetached :: "detached_step list \<Rightarrow> detached_step list" where
  "finalDetached steps = last_by_key (\<lambda>s. (dt_phase s, dt_label s)) steps"

definition stepAccepted :: "int option \<Rightarrow> bool option \<Rightarrow> bool" where
  "stepAccepted exitCode allowFailure \<longleftrightarrow> exitCode = Some 0 \<or> (allowFailure = Some True \<and> exitCode \<noteq> None)"

lemma last_by_key_mem:
  "y \<in> set (last_by_key key xs) \<longleftrightarrow>
     (\<exists>as bs. xs = as @ y # bs \<and> (\<forall>b\<in>set bs. key b \<noteq> key y))"
proof
  assume "y \<in> set (last_by_key key xs)"
  then obtain k where k: "k \<in> key ` set xs" "y = last (filter (\<lambda>x. key x = k) xs)"
    by (auto simp: last_by_key_def)
  then have "\<exists>x\<in>set xs. key x = k" by auto
  then obtain as z bs where z: "xs = as @ z # bs" "key z = k" "\<forall>b\<in>set bs. key b \<noteq> k"
    using split_list_last_prop[of xs "\<lambda>x. key x = k"] by blast
  then have "filter (\<lambda>x. key x = k) xs = filter (\<lambda>x. key x = k) as @ [z]" by (auto simp: filter_empty_conv)
  then have "y = z" using k(2) by simp
  then show "\<exists>as bs. xs = as @ y # bs \<and> (\<forall>b\<in>set bs. key b \<noteq> key y)" using z by blast
next
  assume "\<exists>as bs. xs = as @ y # bs \<and> (\<forall>b\<in>set bs. key b \<noteq> key y)"
  then obtain as bs where xs: "xs = as @ y # bs" "\<forall>b\<in>set bs. key b \<noteq> key y" by blast
  then have "filter (\<lambda>x. key x = key y) xs = filter (\<lambda>x. key x = key y) as @ [y]"
    by (auto simp: filter_empty_conv)
  then have "y = last (filter (\<lambda>x. key x = key y) xs)" by simp
  moreover have "key y \<in> key ` set xs" using xs(1) by simp
  ultimately show "y \<in> set (last_by_key key xs)" unfolding last_by_key_def by auto
qed

section \<open>Attempts\<close>

text \<open>Admission stopped before the harness: a failed attempt with no Run, receipts or allocation.\<close>

definition isUnallocatedFailureWithoutRun :: "attempt_with_run \<Rightarrow> bool" where
  "isUnallocatedFailureWithoutRun a \<longleftrightarrow>
     aw_run a = None \<and> at_runDigest (aw_evidence a) = None \<and> at_outcome (aw_evidence a) = FailedAttempt \<and>
     \<not> at_measurementStarted (aw_evidence a) \<and> at_completion (aw_evidence a) \<noteq> KnownSuccess \<and>
     at_cleanup (aw_evidence a) = NotAllocated \<and> aw_execution a = None \<and> aw_cleanup a = None"

definition failedBeforeExecution :: "attempt_with_run \<Rightarrow> bool" where
  "failedBeforeExecution a \<longleftrightarrow>
     \<not> at_measurementStarted (aw_evidence a) \<and> aw_execution a = None \<and> aw_cleanup a = None"

text \<open>
  What the evaluation takes from outside: the digests of a Run, an artifact, a cell, an attempt with
  its recovery and a receipt, and the metric catalog.
\<close>

record evidence_services = services +
  runDigest :: "run_doc \<Rightarrow> string"
  artifactDigest :: "artifact \<Rightarrow> string"
  cellDigest :: "experiment_cell \<Rightarrow> string"
  attemptDigest :: "experiment_attempt \<Rightarrow> string"
  attemptsDigest :: "(experiment_attempt \<times> cleanup_recovery option) list \<Rightarrow> string"
  recordsDigest :: "string list \<Rightarrow> string"
  receiptDigest :: "unstarted_batch \<Rightarrow> string"
  repairDigest :: "experiment_repair \<Rightarrow> string"
  metricOf :: "string \<Rightarrow> metric_def option"

text \<open>Stable sorts by \<open>localeCompare\<close> of a string.\<close>

definition locale_sort :: "('m) services_scheme \<Rightarrow> ('a \<Rightarrow> string) \<Rightarrow> 'a list \<Rightarrow> 'a list" where
  "locale_sort S f xs = sort_key (\<lambda>x. collation S (f x)) xs"

lemma sort_key_permuted:
  assumes "mset xs = mset ys" "distinct (map f xs)"
  shows "sort_key f xs = sort_key f ys"
proof -
  have "map f (sort_key f zs) = sort (map f zs)" for zs
    by (rule properties_for_sort[symmetric]) simp_all
  moreover have "mset (map f xs) = mset (map f ys)" using assms(1) by simp
  ultimately have eq: "map f (sort_key f xs) = map f (sort_key f ys)" by (metis sort_mset_eq)
  show ?thesis
  proof (rule map_inj_on)
    show "map f (sort_key f xs) = map f (sort_key f ys)" by (rule eq)
    have "set ys = set xs" using assms(1) by (metis mset_eq_setD)
    then show "inj_on f (set (sort_key f xs) \<union> set (sort_key f ys))" using assms(2) by (simp add: distinct_map)
  qed
qed

end
