(* ===== verification/Coverage.thy ===== *)
theory Coverage
  imports Evidence
begin

text \<open>
  \<open>evaluateExperiment\<close> of \<open>packages/results/src/lib/experiment.ts\<close>: attempts judged against the frozen
  plan. A report has one status per cell, the conflicts and the attempts selected; the properties
  say what a complete cell rests on, that the order of the attempts does not matter, and that the
  report fits the partial coverage section of a Run.
\<close>

section \<open>Reports\<close>

datatype conflict =
    DuplicateAttempt string
  | ProvenanceMismatch string
  | PolicyMismatch string
  | ShardMismatch string
  | UnexpectedExecution string
  | UnauthorizedRetry string

record cell_report =
  cv_id :: string
  cv_status :: cell_status
  cv_missingMetrics :: "string list"
  cv_excludedMetrics :: "string list"
  cv_attemptId :: "string option"
  cv_retainedMetrics :: "string list option"
  cv_passShortfalls :: "pass_shortfall list option"

record coverage_report =
  rp_planDigest :: string
  rp_complete :: bool
  rp_selectedAttempts :: "string list"
  rp_cells :: "cell_report list"
  rp_conflicts :: "conflict list"

datatype experiment_error =
    PlanRejected plan_error
  | RunRejected run_violation

section \<open>Provenance of the attempts\<close>

definition provenance_conflicts :: "evidence_services \<Rightarrow> experiment_plan \<Rightarrow> string set \<Rightarrow> attempt_with_run \<Rightarrow> conflict list" where
  "provenance_conflicts S plan ids a =
     (let e = aw_evidence a; cell = find (\<lambda>c. c_id c = at_cellId e) (p_cells plan)
      in (if at_id e \<in> ids then [DuplicateAttempt (at_id e)] else []) @
         (if at_cellId e \<notin> set (map c_id (p_cells plan)) \<or> at_workflowRun e \<noteq> p_id plan \<or>
             at_planDigest e \<noteq> p_digest plan \<or> at_sha e \<noteq> p_sha plan
          then [ProvenanceMismatch (at_id e)] else []) @
         (case cell of
            None \<Rightarrow> []
          | Some c \<Rightarrow>
              if at_workloadRevision e \<noteq> c_workloadRevision c \<or> at_environmentRevision e \<noteq> c_environmentRevision c \<or>
                 at_artifactIdentity e \<noteq> c_artifactIdentity c \<or> at_passes e \<noteq> c_passes c
              then [PolicyMismatch (at_id e)] else []) @
         (case aw_run a of
            None \<Rightarrow> []
          | Some run \<Rightarrow>
              if (case cell of
                    None \<Rightarrow> True
                  | Some c \<Rightarrow> run_sha run \<noteq> p_sha plan \<or> run_id run \<noteq> p_id plan \<or>
                              targetDigest S (run_targetSpec run) \<noteq> targetDigest S (c_target c) \<or>
                              Some (runDigest S run) \<noteq> at_runDigest e)
              then [ShardMismatch (at_id e)] else []))"

fun provenance_loop :: "evidence_services \<Rightarrow> experiment_plan \<Rightarrow> string set \<Rightarrow> attempt_with_run list \<Rightarrow>
  run_violation + conflict list" where
  "provenance_loop S plan ids [] = Inr []"
| "provenance_loop S plan ids (a # as) =
     and_then (case aw_run a of None \<Rightarrow> Inr () | Some run \<Rightarrow> run_narrow run) (\<lambda>_.
     and_then (provenance_loop S plan (insert (at_id (aw_evidence a)) ids) as) (\<lambda>cs.
       Inr (provenance_conflicts S plan ids a @ cs)))"

section \<open>One cell\<close>

definition lineage_of :: "evidence_services \<Rightarrow> attempt_with_run list \<Rightarrow> experiment_cell \<Rightarrow> attempt_with_run list" where
  "lineage_of S attempts cell =
     sort_key (\<lambda>a. at_sequence (aw_evidence a))
       (locale_sort S (\<lambda>a. at_id (aw_evidence a)) (filter (\<lambda>a. at_cellId (aw_evidence a) = c_id cell) attempts))"

text \<open>The loop over a lineage: the index and the attempt before it.\<close>

fun lineage_links :: "nat \<Rightarrow> experiment_attempt option \<Rightarrow> experiment_attempt list \<Rightarrow> bool" where
  "lineage_links index previous [] = True"
| "lineage_links index previous (current # rest) =
     (at_sequence current = index \<and>
      (case previous of
         Some p \<Rightarrow> at_previousAttempt current = Some (at_id p) \<and> at_outcome p = FailedAttempt \<and>
                   \<not> at_measurementStarted p \<and> at_retryable p \<and> at_cleanup p \<noteq> UnresolvedCleanup
       | None \<Rightarrow> at_previousAttempt current = None) \<and>
      lineage_links (Suc index) (Some current) rest)"

definition valid_lineage :: "experiment_plan \<Rightarrow> attempt_with_run list \<Rightarrow> bool" where
  "valid_lineage plan lineage \<longleftrightarrow>
     length lineage \<le> p_maxPremeasurementRetries plan + 1 \<and> lineage_links 0 None (map aw_evidence lineage)"

definition excluded_metrics :: "experiment_cell \<Rightarrow> string list" where
  "excluded_metrics cell = map ex_metricId (c_exclusions cell)"

definition eligible_metrics :: "experiment_cell \<Rightarrow> string list" where
  "eligible_metrics cell = filter (\<lambda>i. i \<notin> set (excluded_metrics cell)) (c_metrics cell)"

definition provider_of :: "experiment_cell \<Rightarrow> attempt_with_run option \<Rightarrow> provider_run option" where
  "provider_of cell chosen =
     Option.bind (Option.bind chosen aw_run) (\<lambda>run. find (\<lambda>p. pv_id p = c_provider cell) (run_providers run))"

definition artifact_of :: "experiment_cell \<Rightarrow> provider_run option \<Rightarrow> artifact_evidence option" where
  "artifact_of cell provider =
     Option.bind (Option.bind provider pv_artifactEvidence)
       (find (\<lambda>e. cc_suite (ae_cell e) = c_suite cell \<and> cc_replicateIndex (ae_cell e) = Some (c_replicate cell)))"

definition metrics_of :: "provider_run option \<Rightarrow> metric_result list" where
  "metrics_of provider = (case provider of None \<Rightarrow> [] | Some p \<Rightarrow> pv_metrics p)"

text \<open>What is known of the trials of one PTS metric.\<close>

definition trial_entry :: "evidence_services \<Rightarrow> experiment_cell \<Rightarrow> attempt_with_run option \<Rightarrow> metric_result \<Rightarrow> pass_shortfall" where
  "trial_entry S cell chosen m =
     (let known = (\<lambda>source observed. \<lparr>ps_providerId = c_provider cell, ps_metricId = metricId m, ps_source = source,
                     ps_observed = observed, ps_expected = c_passes cell\<rparr>)
      in if metricOf S (metricId m) = None then known Unverified None
         else case Option.bind chosen aw_ptsTrials of
                Some trials \<Rightarrow>
                  (case find (\<lambda>t. tr_providerId t = c_provider cell \<and> tr_metricId t = metricId m) trials of
                     Some t \<Rightarrow> known (tr_source t) (tr_observed t)
                   | None \<Rightarrow> known Unverified None)
              | None \<Rightarrow>
                  (case mr_ptsSampleSource m of
                     Some RawString \<Rightarrow> known TrialRawString (Some (length (samples m)))
                   | Some AggregateValue \<Rightarrow> known TrialAggregateValue None
                   | None \<Rightarrow> known Unverified None))"

definition falls_short :: "pass_shortfall \<Rightarrow> bool" where
  "falls_short e \<longleftrightarrow>
     (if ps_source e = SingleTrialValue then ps_observed e \<noteq> Some 1 \<or> ps_expected e \<noteq> 1
      else ps_source e \<noteq> TrialRawString \<or> ps_observed e \<noteq> Some (ps_expected e))"

definition pass_shortfalls :: "evidence_services \<Rightarrow> experiment_cell \<Rightarrow> attempt_with_run option \<Rightarrow> pass_shortfall list" where
  "pass_shortfalls S cell chosen =
     filter falls_short
       (map (trial_entry S cell chosen)
         (filter (\<lambda>m. metricId m \<in> set (eligible_metrics cell) \<and>
                      (case metricOf S (metricId m) of None \<Rightarrow> True | Some d \<Rightarrow> md_pts d \<noteq> None))
           (metrics_of (provider_of cell chosen))))"

definition SUB_MILLISECOND_DNS :: "string list" where
  "SUB_MILLISECOND_DNS = map pt_id NETWORK_DNS_TARGETS"

definition real_sample :: "string \<Rightarrow> jsnum \<Rightarrow> bool" where
  "real_sample i x \<longleftrightarrow>
     (case finite_value x of None \<Rightarrow> False | Some v \<Rightarrow> 0 < v \<or> (v = 0 \<and> i \<in> set SUB_MILLISECOND_DNS))"

definition measured_metrics :: "evidence_services \<Rightarrow> experiment_cell \<Rightarrow> attempt_with_run option \<Rightarrow> string list" where
  "measured_metrics S cell chosen =
     map metricId
       (filter (\<lambda>m. samples m \<noteq> [] \<and> list_all (real_sample (metricId m)) (samples m) \<and>
                    metricId m \<notin> set (map ps_metricId (pass_shortfalls S cell chosen)))
         (metrics_of (provider_of cell chosen)))"

definition receiptsConfirmSuccess :: "experiment_plan \<Rightarrow> experiment_cell \<Rightarrow> attempt_with_run option \<Rightarrow> bool" where
  "receiptsConfirmSuccess plan cell chosen \<longleftrightarrow>
     (case (Option.bind chosen aw_execution, Option.bind chosen aw_cleanup) of
        (Some execution, Some cleanup) \<Rightarrow>
          xe_runId execution = p_id plan \<and> xe_provider execution = c_provider cell \<and> xe_suite execution = c_suite cell \<and>
          xe_replicateIndex execution = Some (c_replicate cell) \<and>
          cl_executionId cleanup = xe_executionId execution \<and> cl_completed cleanup \<and> cl_confirmedAbsent cleanup \<and>
          xe_primaryFailure execution = None \<and>
          list_ex (\<lambda>s. st_phase s = BenchmarkPhase) (xe_steps execution) \<and>
          list_ex (\<lambda>s. st_phase s = CollectPhase) (xe_steps execution) \<and>
          list_all (\<lambda>s. stepAccepted (st_exitCode s) (st_allowFailure s)) (finalSteps (xe_steps execution)) \<and>
          list_all (\<lambda>s. dt_state s = DetachedCompleted \<and> stepAccepted (dt_exitCode s) (dt_allowFailure s))
            (finalDetached (xe_detached execution)) \<and>
          map_option ae_sandboxId (artifact_of cell (provider_of cell chosen)) = Some (xe_sandboxId execution)
      | _ \<Rightarrow> False)"

definition unrecorded_gap :: "result_gap \<Rightarrow> bool" where
  "unrecorded_gap g \<longleftrightarrow> (case gap_cause_of g of Some (MetricsUnrecorded ids declared) \<Rightarrow> True | _ \<Rightarrow> False)"

definition unrecorded_ids :: "result_gap \<Rightarrow> string list" where
  "unrecorded_ids g = (case gap_cause_of g of Some (MetricsUnrecorded ids declared) \<Rightarrow> ids | _ \<Rightarrow> [])"

definition evidence_confirms :: "experiment_attempt \<Rightarrow> bool" where
  "evidence_confirms e \<longleftrightarrow>
     at_outcome e = CompletedAttempt \<and> at_completion e = KnownSuccess \<and> at_measurementStarted e \<and>
     at_cleanup e = ConfirmedCleanup \<and> at_rawDigest e \<noteq> None"

definition artifact_attributed :: "evidence_services \<Rightarrow> experiment_cell \<Rightarrow> artifact_evidence \<Rightarrow> bool" where
  "artifact_attributed S cell e \<longleftrightarrow>
     (requested (ae_provenance e) = NoArtifact \<or> artifactVerified e) \<and>
     artifactDigest S (effectiveArtifact (ae_provenance e)) = c_artifactIdentity cell"

definition measurementVerified :: "evidence_services \<Rightarrow> experiment_plan \<Rightarrow> experiment_cell \<Rightarrow> attempt_with_run option \<Rightarrow> bool" where
  "measurementVerified S plan cell chosen \<longleftrightarrow>
     receiptsConfirmSuccess plan cell chosen \<and>
     (case chosen of
        None \<Rightarrow> False
      | Some a \<Rightarrow>
          evidence_confirms (aw_evidence a) \<and>
          (case aw_run a of
             None \<Rightarrow> False
           | Some run \<Rightarrow>
               list_all (\<lambda>p. pv_id p = c_provider cell \<or> providerReportedNothing p) (run_providers run) \<and>
               pred_option (artifact_attributed S cell) (artifact_of cell (provider_of cell chosen)) \<and>
               artifact_of cell (provider_of cell chosen) \<noteq> None \<and>
               run_replicateIndex run = Some (c_replicate cell) \<and>
               (case provider_of cell chosen of
                  None \<Rightarrow> False
                | Some p \<Rightarrow>
                    c_suite cell \<in> set (pv_suitesCovered p) \<and>
                    list_all (\<lambda>g. gap_scope_of g = SuiteGap \<and> gap_id g = c_suite cell \<and> unrecorded_gap g) (pv_gaps p))))"

definition missing_metrics :: "evidence_services \<Rightarrow> experiment_cell \<Rightarrow> attempt_with_run option \<Rightarrow> string list" where
  "missing_metrics S cell chosen = filter (\<lambda>i. i \<notin> set (measured_metrics S cell chosen)) (eligible_metrics cell)"

definition completed :: "evidence_services \<Rightarrow> experiment_plan \<Rightarrow> experiment_cell \<Rightarrow> attempt_with_run option \<Rightarrow> bool" where
  "completed S plan cell chosen \<longleftrightarrow>
     measurementVerified S plan cell chosen \<and> missing_metrics S cell chosen = [] \<and>
     (case provider_of cell chosen of
        None \<Rightarrow> False
      | Some p \<Rightarrow> list_all (\<lambda>g. unrecorded_gap g \<and> set (unrecorded_ids g) \<subseteq> set (excluded_metrics cell)) (pv_gaps p))"

definition last_attempt :: "attempt_with_run list \<Rightarrow> attempt_with_run option" where
  "last_attempt lineage = (if lineage = [] then None else Some (last lineage))"

definition cell_status_of :: "evidence_services \<Rightarrow> experiment_plan \<Rightarrow> experiment_cell \<Rightarrow> attempt_with_run list \<Rightarrow> cell_status" where
  "cell_status_of S plan cell lineage =
     (case last_attempt lineage of
        None \<Rightarrow> Missing
      | Some a \<Rightarrow>
          if completed S plan cell (Some a) \<and> valid_lineage plan lineage then Complete
          else if at_outcome (aw_evidence a) = CancelledAttempt then Cancelled
          else Failed)"

definition evaluate_cell :: "evidence_services \<Rightarrow> experiment_plan \<Rightarrow> attempt_with_run list \<Rightarrow> experiment_cell \<Rightarrow>
  conflict list \<times> cell_report" where
  "evaluate_cell S plan attempts cell =
     (let lineage = lineage_of S attempts cell
      in if eligible_metrics cell = []
         then (if lineage = [] then [] else [UnexpectedExecution (c_id cell)],
               \<lparr>cv_id = c_id cell, cv_status = Excluded, cv_missingMetrics = [], cv_excludedMetrics = excluded_metrics cell,
                cv_attemptId = None, cv_retainedMetrics = None, cv_passShortfalls = None\<rparr>)
         else
           let chosen = last_attempt lineage; shortfalls = pass_shortfalls S cell chosen
           in (if valid_lineage plan lineage then [] else [UnauthorizedRetry (c_id cell)],
               \<lparr>cv_id = c_id cell, cv_status = cell_status_of S plan cell lineage,
                cv_missingMetrics = missing_metrics S cell chosen, cv_excludedMetrics = excluded_metrics cell,
                cv_attemptId = map_option (\<lambda>a. at_id (aw_evidence a)) chosen,
                cv_retainedMetrics = Some (if measurementVerified S plan cell chosen \<and> valid_lineage plan lineage
                  then filter (\<lambda>i. i \<in> set (measured_metrics S cell chosen)) (eligible_metrics cell) else []),
                cv_passShortfalls = (if shortfalls = [] then None else Some shortfalls)\<rparr>))"

definition selected_ids :: "cell_report list \<Rightarrow> string list" where
  "selected_ids cells = List.map_filter cv_attemptId (filter (\<lambda>c. cv_status c = Complete) cells)"

definition settled :: "cell_report \<Rightarrow> bool" where
  "settled c \<longleftrightarrow> cv_status c = Complete \<or> cv_status c = Excluded"

definition evaluateExperiment :: "evidence_services \<Rightarrow> experiment_plan \<Rightarrow> attempt_with_run list \<Rightarrow>
  experiment_error + coverage_report" where
  "evaluateExperiment S plan attempts =
     (case verifyExperimentPlan (services.truncate S) plan of
        Inl e \<Rightarrow> Inl (PlanRejected e)
      | Inr _ \<Rightarrow>
          (case provenance_loop S plan {} (locale_sort S (\<lambda>a. at_id (aw_evidence a)) attempts) of
             Inl v \<Rightarrow> Inl (RunRejected v)
           | Inr provenance \<Rightarrow>
               let results = map (evaluate_cell S plan attempts) (p_cells plan);
                   cells = map snd results;
                   conflicts = provenance @ concat (map fst results)
               in Inr \<lparr>rp_planDigest = p_digest plan, rp_complete = (conflicts = [] \<and> list_all settled cells),
                       rp_selectedAttempts = selected_ids cells, rp_cells = cells, rp_conflicts = conflicts\<rparr>))"

section \<open>Lemmas\<close>

lemma set_lineage_of:
  "set (lineage_of S attempts cell) = {a \<in> set attempts. at_cellId (aw_evidence a) = c_id cell}"
  by (simp add: lineage_of_def locale_sort_def)

lemma locale_sort_permuted:
  assumes "mset xs = mset ys" "distinct (map (\<lambda>x. collation S (f x)) xs)"
  shows "locale_sort S f xs = locale_sort S f ys"
  unfolding locale_sort_def by (rule sort_key_permuted[OF assms])

lemma lineage_of_permuted:
  assumes "mset attempts = mset attempts'" "distinct (map (\<lambda>a. collation S (at_id (aw_evidence a))) attempts)"
  shows "lineage_of S attempts cell = lineage_of S attempts' cell"
proof -
  let ?P = "\<lambda>a. at_cellId (aw_evidence a) = c_id cell"
  have "mset (filter ?P attempts) = mset (filter ?P attempts')" using assms(1) by simp
  moreover have "distinct (map (\<lambda>a. collation S (at_id (aw_evidence a))) (filter ?P attempts))"
    using assms(2) by (rule distinct_map_filter)
  ultimately show ?thesis unfolding lineage_of_def by (simp only: locale_sort_permuted)
qed

text \<open>May \<open>b\<close> follow \<open>a\<close> in a lineage?\<close>

definition may_follow :: "experiment_attempt \<Rightarrow> experiment_attempt \<Rightarrow> bool" where
  "may_follow a b \<longleftrightarrow>
     at_previousAttempt b = Some (at_id a) \<and> at_outcome a = FailedAttempt \<and> \<not> at_measurementStarted a \<and>
     at_retryable a \<and> at_cleanup a \<noteq> UnresolvedCleanup"

lemma all_nat_cases: "(\<forall>k. Q k) \<longleftrightarrow> Q 0 \<and> (\<forall>k. Q (Suc k))"
  by (metis nat.exhaust)


lemma lineage_links_nth:
  "lineage_links i previous es \<longleftrightarrow>
     (\<forall>k<length es. at_sequence (es ! k) = i + k) \<and>
     (\<forall>k. Suc k < length es \<longrightarrow> may_follow (es ! k) (es ! Suc k)) \<and>
     (es \<noteq> [] \<longrightarrow> (case previous of None \<Rightarrow> at_previousAttempt (hd es) = None | Some p \<Rightarrow> may_follow p (hd es)))"
proof (induction es arbitrary: i previous)
  case (Cons e es)
  have seq: "(\<forall>k<length (e # es). at_sequence ((e # es) ! k) = i + k) \<longleftrightarrow>
      at_sequence e = i \<and> (\<forall>k<length es. at_sequence (es ! k) = Suc i + k)"
  proof
    assume l: "\<forall>k<length (e # es). at_sequence ((e # es) ! k) = i + k"
    then have "at_sequence ((e # es) ! Suc k) = i + Suc k" if "k < length es" for k
      using l[rule_format, of "Suc k"] that by (simp only: length_Cons Suc_less_eq)
    moreover have "at_sequence e = i" using l by force
    ultimately show "at_sequence e = i \<and> (\<forall>k<length es. at_sequence (es ! k) = Suc i + k)" by simp
  next
    assume r: "at_sequence e = i \<and> (\<forall>k<length es. at_sequence (es ! k) = Suc i + k)"
    show "\<forall>k<length (e # es). at_sequence ((e # es) ! k) = i + k"
    proof (intro allI impI)
      fix k assume "k < length (e # es)"
      then show "at_sequence ((e # es) ! k) = i + k" using r by (cases k) auto
    qed
  qed
  have follow: "(\<forall>k. Suc k < length (e # es) \<longrightarrow> may_follow ((e # es) ! k) ((e # es) ! Suc k)) \<longleftrightarrow>
      (es \<noteq> [] \<longrightarrow> may_follow e (hd es)) \<and> (\<forall>k. Suc k < length es \<longrightarrow> may_follow (es ! k) (es ! Suc k))"
    by (subst all_nat_cases) (cases es; simp)
  show ?case
    unfolding seq follow lineage_links.simps Cons.IH by (cases previous) (auto simp: may_follow_def)
qed simp

lemma lineage_ordered:
  assumes "lineage_links 0 None (map aw_evidence lineage)" "a \<in> set lineage" "b \<in> set lineage"
    "at_sequence (aw_evidence a) < at_sequence (aw_evidence b)"
  shows "at_outcome (aw_evidence a) = FailedAttempt \<and> \<not> at_measurementStarted (aw_evidence a) \<and>
    at_retryable (aw_evidence a) \<and> at_cleanup (aw_evidence a) \<noteq> UnresolvedCleanup"
proof -
  let ?es = "map aw_evidence lineage"
  note links = assms(1)[unfolded lineage_links_nth]
  obtain k l where kl: "k < length lineage" "lineage ! k = a" "l < length lineage" "lineage ! l = b"
    using assms(2,3) by (auto simp: in_set_conv_nth)
  have "\<forall>m<length ?es. at_sequence (?es ! m) = 0 + m" using links by blast
  then have "at_sequence (?es ! k) = k" "at_sequence (?es ! l) = l" using kl(1,3) by auto
  then have "k < l" using assms(4) kl by auto
  then have "may_follow (?es ! k) (?es ! Suc k)" using links kl(3) by simp
  then show ?thesis using kl by (simp add: may_follow_def)
qed

lemma evaluateExperiment_Inr:
  assumes "evaluateExperiment S plan attempts = Inr report"
  obtains provenance where
    "verifyExperimentPlan (services.truncate S) plan = Inr plan"
    "provenance_loop S plan {} (locale_sort S (\<lambda>a. at_id (aw_evidence a)) attempts) = Inr provenance"
    "rp_cells report = map (\<lambda>c. snd (evaluate_cell S plan attempts c)) (p_cells plan)"
    "rp_conflicts report = provenance @ concat (map (\<lambda>c. fst (evaluate_cell S plan attempts c)) (p_cells plan))"
    "rp_selectedAttempts report = selected_ids (rp_cells report)"
    "rp_complete report \<longleftrightarrow> rp_conflicts report = [] \<and> list_all settled (rp_cells report)"
    "rp_planDigest report = p_digest plan"
proof -
  have "verifyExperimentPlan (services.truncate S) plan = Inr plan"
  proof (cases "verifyExperimentPlan (services.truncate S) plan")
    case (Inr p)
    then show ?thesis using accepted_parts(1)[OF Inr] by simp
  qed (use assms in \<open>simp add: evaluateExperiment_def\<close>)
  then show thesis
    using assms that by (auto simp: evaluateExperiment_def Let_def comp_def split: sum.splits)
qed


section \<open>Properties\<close>

text \<open>
  Property C10. Of attempts whose ids collate apart, the order of arrival does not matter: any permutation of them gets the same
  report, so no order of artifacts can select a sample. (Attempts with the same id are a conflict, and
  which of them is reported as the duplicate does follow the order.)
\<close>

theorem evaluation_order_independent:
  assumes "mset attempts = mset attempts'" "distinct (map (\<lambda>a. collation S (at_id (aw_evidence a))) attempts)"
  shows "evaluateExperiment S plan attempts = evaluateExperiment S plan attempts'"
proof -
  have cells: "evaluate_cell S plan attempts = evaluate_cell S plan attempts'"
    unfolding evaluate_cell_def[abs_def] lineage_of_permuted[OF assms] ..
  have sorted: "locale_sort S (\<lambda>a. at_id (aw_evidence a)) attempts = locale_sort S (\<lambda>a. at_id (aw_evidence a)) attempts'"
    by (rule locale_sort_permuted[OF assms])
  show ?thesis unfolding evaluateExperiment_def cells sorted ..
qed

text \<open>
  Measurements are never retaken: in a report without conflicts, an attempt of an eligible
  cell that was followed by a later one failed before its measurement began, was retryable and left no
  unresolved allocation, and no cell has more attempts than the plan allows.
\<close>

theorem measured_attempts_never_superseded:
  assumes "evaluateExperiment S plan attempts = Inr report" "rp_conflicts report = []"
    and "cell \<in> set (p_cells plan)" "eligible_metrics cell \<noteq> []"
    and "a \<in> set attempts" "b \<in> set attempts" "at_cellId (aw_evidence a) = c_id cell" "at_cellId (aw_evidence b) = c_id cell"
    and "at_sequence (aw_evidence a) < at_sequence (aw_evidence b)"
  shows "at_outcome (aw_evidence a) = FailedAttempt \<and> \<not> at_measurementStarted (aw_evidence a) \<and>
    at_retryable (aw_evidence a) \<and> at_cleanup (aw_evidence a) \<noteq> UnresolvedCleanup \<and>
    length (filter (\<lambda>x. at_cellId (aw_evidence x) = c_id cell) attempts) \<le> p_maxPremeasurementRetries plan + 1"
proof -
  let ?lineage = "lineage_of S attempts cell"
  obtain provenance where "rp_conflicts report = provenance @ concat (map (\<lambda>c. fst (evaluate_cell S plan attempts c)) (p_cells plan))"
    by (rule evaluateExperiment_Inr[OF assms(1)])
  then have "fst (evaluate_cell S plan attempts cell) = []" using assms(2,3) by simp
  then have valid: "valid_lineage plan ?lineage"
    using assms(4) by (simp add: evaluate_cell_def Let_def split: if_splits)
  have "a \<in> set ?lineage" "b \<in> set ?lineage" using assms(5-8) by (simp_all add: set_lineage_of)
  moreover have "length ?lineage = length (filter (\<lambda>x. at_cellId (aw_evidence x) = c_id cell) attempts)"
    by (simp add: lineage_of_def locale_sort_def)
  ultimately show ?thesis
    using lineage_ordered[of ?lineage a b] valid assms(9) by (simp add: valid_lineage_def)
qed









section \<open>A complete experiment\<close>

text \<open>One cell, one failed admission and its retry that measured, for the witnesses.\<close>

definition one_cell_plan :: experiment_plan where
  "one_cell_plan = example_plan\<lparr>p_cells := [example_cell ''c0'' ''memory''], p_batches := [example_batch ''b0'' ''c0''],
     p_rounds := [\<lparr>r_id = ''r0'', r_quotaDomain = ''q'', r_wave = None, r_batches = [''b0'']\<rparr>],
     p_maxPremeasurementRetries := 1\<rparr>"

definition example_metric :: metric_def where
  "example_metric = \<lparr>md_id = ''m'', md_dimension = Memory, md_unit = ''ms'', md_direction = LIB, md_headline = False,
     md_pts = None, md_derived = False\<rparr>"

definition example_evidence_services :: evidence_services where
  "example_evidence_services = services.extend example_services
     (evidence_services.fields (\<lambda>run. ''run'') (\<lambda>artifact. ''a'') (\<lambda>cell. []) (\<lambda>attempt. [])
       (\<lambda>attempts. []) (\<lambda>records. []) (\<lambda>receipt. []) (\<lambda>repair. []) (\<lambda>metric. Some example_metric))"

definition shard_run :: run_doc where
  "shard_run = \<lparr>run_version = 6, run_id = ''x'', run_sha = ''s'', run_generatedAt = ''2026-07-01T00:00:00Z'',
     run_sourceRunUrl = None, run_replicateIndex = Some 0, run_experiment = None,
     run_targetSpec = \<lparr>vcpus = 4, memoryGb = 8, diskGb = None\<rparr>,
     run_providers = [example_provider\<lparr>pv_artifactEvidence := Some [example_evidence\<lparr>ae_cell :=
       \<lparr>cc_runId = ''x'', cc_providerId = ''p'', cc_suite = ''memory'', cc_replicateIndex = Some 0\<rparr>\<rparr>]\<rparr>]\<rparr>"

definition failed_admission :: attempt_with_run where
  "failed_admission = \<lparr>aw_evidence = \<lparr>at_id = ''a0'', at_cellId = ''c0'', at_planDigest = [], at_sha = ''s'', at_workloadRevision = ''w'',
       at_environmentRevision = ''e'', at_artifactIdentity = ''a'', at_passes = 1, at_workflowRun = ''x'', at_sequence = 0,
       at_previousAttempt = None, at_outcome = FailedAttempt, at_measurementStarted = False, at_retryable = True,
       at_cleanup = NotAllocated, at_completion = KnownFailure, at_runDigest = None, at_rawDigest = Some ''raw'', at_diagnostic = None\<rparr>,
     aw_run = None, aw_execution = None, aw_cleanup = None, aw_cleanupRecovery = None, aw_allocation = None, aw_ptsTrials = None\<rparr>"

definition example_execution :: execution_receipt where
  "example_execution = \<lparr>xe_executionId = ''x1'', xe_runId = ''x'', xe_replicateIndex = Some 0, xe_provider = ''p'', xe_suite = ''memory'',
     xe_sandboxId = ''sb'', xe_steps = [\<lparr>st_phase = BenchmarkPhase, st_label = ''stream'', st_exitCode = Some 1, st_allowFailure = None\<rparr>,
       \<lparr>st_phase = BenchmarkPhase, st_label = ''stream'', st_exitCode = Some 0, st_allowFailure = None\<rparr>,
       \<lparr>st_phase = CollectPhase, st_label = ''collect'', st_exitCode = Some 0, st_allowFailure = None\<rparr>],
     xe_detached = [], xe_primaryFailure = None\<rparr>"

definition measured_retry :: attempt_with_run where
  "measured_retry = failed_admission\<lparr>aw_evidence := (aw_evidence failed_admission)\<lparr>at_id := ''a1'', at_sequence := 1,
       at_previousAttempt := Some ''a0'', at_outcome := CompletedAttempt, at_measurementStarted := True,
       at_cleanup := ConfirmedCleanup, at_completion := KnownSuccess, at_runDigest := Some ''run''\<rparr>,
     aw_run := Some shard_run, aw_execution := Some example_execution,
     aw_cleanup := Some \<lparr>cl_executionId = ''x1'', cl_completed = True, cl_confirmedAbsent = True\<rparr>\<rparr>"

definition example_attempts :: "attempt_with_run list" where
  "example_attempts = [measured_retry, failed_admission]"

definition example_report :: coverage_report where
  "example_report = \<lparr>rp_planDigest = [], rp_complete = True, rp_selectedAttempts = [''a1''],
     rp_cells = [\<lparr>cv_id = ''c0'', cv_status = Complete, cv_missingMetrics = [], cv_excludedMetrics = [], cv_attemptId = Some ''a1'',
       cv_retainedMetrics = Some [''m''], cv_passShortfalls = None\<rparr>], rp_conflicts = []\<rparr>"

lemmas coverage_example_defs = one_cell_plan_def example_plan_def example_cell_def example_batch_def example_evidence_services_def
  example_services_def services.defs evidence_services.defs

lemma one_cell_accepted: "verifyExperimentPlan example_services one_cell_plan = Inr one_cell_plan"
proof -
  have schema: "plan_schema (plan_body.truncate one_cell_plan)"
    by (simp add: plan_schema_def coverage_example_defs plan_body.defs cell_schema_def batch_schema_def capacity_schema_def
        target_schema_def safe_minutes_def max_safe_def)
  have request: "verify_request example_services (plan_body.truncate one_cell_plan) = Inr ()"
    by (simp add: verify_request_def coverage_example_defs plan_body.defs example_date cell_eligible_def excluded_metric_def)
  have schedule: "verify_schedule (plan_body.truncate one_cell_plan) = Inr ()"
    by (simp add: verify_schedule_def verify_batch_def verify_round_def no_batches_def no_rounds_def coverage_example_defs
        plan_body.defs find_account_def find_cell_def cell_eligible_def excluded_metric_def List.map_filter_def suite_wave_def
        example_waves single_wave.simps insertion_order_def batch_fits_def gpu_demand_def gpu_limit_def max_member_budget_def
        cell_budget_def BENCH_JOB_CEILING_MINUTES_def Let_def)
  show ?thesis
    using schema request schedule
    by (simp add: verifyExperimentPlan_def Let_def) (simp add: coverage_example_defs plan_body.defs cohort_evidence_def)
qed

lemma example_services_truncate: "services.truncate example_evidence_services = example_services"
  by (simp add: example_evidence_services_def example_services_def services.defs evidence_services.defs)

lemma example_collation [simp]: "collation example_evidence_services = (\<lambda>s. s)"
  by (simp add: example_evidence_services_def example_services_def services.defs evidence_services.defs)

lemma shard_run_parses: "run_narrow shard_run = Inr ()"
  by (simp add: run_narrow_def provenance_narrow_def experiment_narrow_def shard_run_def has_replicates_def provider_narrow_def provider_versions_def
      example_provider_def example_evidence_def metric_narrow_def aggregatesSchema_def plain_metric_def metric_ids_resolve_def resolves_def
      cell_of_run_def)

lemma example_sorted: "locale_sort example_evidence_services (\<lambda>a. at_id (aw_evidence a)) example_attempts = [failed_admission, measured_retry]"
  by (simp add: locale_sort_def example_attempts_def measured_retry_def failed_admission_def)

lemma example_provenance:
  "provenance_loop example_evidence_services one_cell_plan {} [failed_admission, measured_retry] = Inr []"
proof -
  have "aw_run failed_admission = None" "aw_run measured_retry = Some shard_run"
    by (simp_all add: failed_admission_def measured_retry_def)
  then show ?thesis
    using shard_run_parses
    by (simp add: provenance_conflicts_def Let_def)
      (simp add: failed_admission_def measured_retry_def shard_run_def coverage_example_defs)
qed

lemma example_lineage:
  "lineage_of example_evidence_services example_attempts (example_cell ''c0'' ''memory'') = [failed_admission, measured_retry]"
  by (simp add: lineage_of_def locale_sort_def example_attempts_def measured_retry_def failed_admission_def example_cell_def)

lemma example_valid: "valid_lineage one_cell_plan [failed_admission, measured_retry]"
  by (simp add: valid_lineage_def measured_retry_def failed_admission_def one_cell_plan_def)

lemma example_eligible: "eligible_metrics (example_cell ''c0'' ''memory'') = [''m'']" "excluded_metrics (example_cell ''c0'' ''memory'') = []"
  by (simp_all add: eligible_metrics_def excluded_metrics_def example_cell_def)

lemma example_row:
  "\<exists>p. provider_of (example_cell ''c0'' ''memory'') (Some measured_retry) = Some p \<and> pv_id p = ''p'' \<and>
     pv_metrics p = pv_metrics example_provider \<and> pv_gaps p = [] \<and> pv_suitesCovered p = [''memory''] \<and>
     map_option ae_sandboxId (artifact_of (example_cell ''c0'' ''memory'') (Some p)) = Some ''sb'' \<and>
     pred_option (artifact_attributed example_evidence_services (example_cell ''c0'' ''memory'')) (artifact_of (example_cell ''c0'' ''memory'') (Some p))"
  by (simp add: provider_of_def measured_retry_def shard_run_def example_provider_def example_cell_def artifact_of_def
      example_evidence_def artifact_attributed_def artifactVerified_def example_evidence_services_def services.defs
      evidence_services.defs example_services_def)

lemma example_shortfalls: "pass_shortfalls example_evidence_services (example_cell ''c0'' ''memory'') (Some measured_retry) = []"
  by (simp add: pass_shortfalls_def filter_empty_conv example_evidence_services_def services.defs evidence_services.defs
      example_services_def example_metric_def)

lemma example_measured: "measured_metrics example_evidence_services (example_cell ''c0'' ''memory'') (Some measured_retry) = [''m'']"
proof -
  obtain p where "provider_of (example_cell ''c0'' ''memory'') (Some measured_retry) = Some p" "pv_metrics p = pv_metrics example_provider"
    using example_row by blast
  then show ?thesis
    by (simp add: measured_metrics_def example_shortfalls metrics_of_def example_provider_def plain_metric_def real_sample_def)
qed

lemma example_receipts: "receiptsConfirmSuccess one_cell_plan (example_cell ''c0'' ''memory'') (Some measured_retry)"
proof -
  obtain p where p: "provider_of (example_cell ''c0'' ''memory'') (Some measured_retry) = Some p"
    "map_option ae_sandboxId (artifact_of (example_cell ''c0'' ''memory'') (Some p)) = Some ''sb''"
    using example_row by blast
  show ?thesis
    unfolding receiptsConfirmSuccess_def p
    by (simp add: p measured_retry_def example_execution_def one_cell_plan_def example_plan_def example_cell_def
        finalSteps_def finalDetached_def last_by_key_def insertion_order_def stepAccepted_def)
qed

lemma example_verified: "measurementVerified example_evidence_services one_cell_plan (example_cell ''c0'' ''memory'') (Some measured_retry)"
proof -
  obtain p where p: "provider_of (example_cell ''c0'' ''memory'') (Some measured_retry) = Some p" "pv_gaps p = []" "pv_suitesCovered p = [''memory'']"
    "map_option ae_sandboxId (artifact_of (example_cell ''c0'' ''memory'') (Some p)) = Some ''sb''"
    "pred_option (artifact_attributed example_evidence_services (example_cell ''c0'' ''memory'')) (artifact_of (example_cell ''c0'' ''memory'') (Some p))"
    using example_row by blast
  have "artifact_of (example_cell ''c0'' ''memory'') (Some p) \<noteq> None" using p(4) by auto
  moreover have "evidence_confirms (aw_evidence measured_retry)" "aw_run measured_retry = Some shard_run"
    by (simp_all add: evidence_confirms_def measured_retry_def failed_admission_def)
  moreover have "list_all (\<lambda>p. pv_id p = c_provider (example_cell ''c0'' ''memory'') \<or> providerReportedNothing p) (run_providers shard_run)"
    "run_replicateIndex shard_run = Some (c_replicate (example_cell ''c0'' ''memory''))"
    by (simp_all add: shard_run_def example_provider_def example_cell_def)
  moreover have "c_suite (example_cell ''c0'' ''memory'') = ''memory''" by (simp add: example_cell_def)
  ultimately show ?thesis
    using example_receipts p by (simp add: measurementVerified_def)
qed

lemma example_evaluated: "evaluateExperiment example_evidence_services one_cell_plan example_attempts = Inr example_report"
proof -
  let ?cell = "example_cell ''c0'' ''memory''"
  obtain p where p: "provider_of ?cell (Some measured_retry) = Some p" "pv_gaps p = []" using example_row by blast
  have missing: "missing_metrics example_evidence_services ?cell (Some measured_retry) = []"
    by (simp add: missing_metrics_def example_measured example_eligible)
  have "completed example_evidence_services one_cell_plan ?cell (Some measured_retry)"
    using example_verified missing p by (simp add: completed_def)
  then have "cell_status_of example_evidence_services one_cell_plan ?cell [failed_admission, measured_retry] = Complete"
    using example_valid by (simp add: cell_status_of_def last_attempt_def)
  moreover have "at_id (aw_evidence measured_retry) = ''a1''" "c_id ?cell = ''c0''"
    by (simp_all add: measured_retry_def example_cell_def)
  ultimately have "evaluate_cell example_evidence_services one_cell_plan example_attempts ?cell = ([], hd (rp_cells example_report))"
    using example_valid example_verified missing
    by (simp add: evaluate_cell_def Let_def example_eligible example_lineage last_attempt_def example_shortfalls example_measured
        example_report_def)
  moreover have "p_cells one_cell_plan = [?cell]" "p_digest one_cell_plan = []"
    by (simp_all add: one_cell_plan_def example_plan_def)
  ultimately show ?thesis
    unfolding evaluateExperiment_def example_services_truncate one_cell_accepted example_sorted example_provenance sum.case
    by (simp add: example_report_def selected_ids_def List.map_filter_def settled_def)
qed

lemma evaluation_order_independent_witness:
  "evaluateExperiment example_evidence_services one_cell_plan [failed_admission, measured_retry] = Inr example_report"
proof -
  have "mset example_attempts = mset [failed_admission, measured_retry]" by (simp add: example_attempts_def)
  moreover have "distinct (map (\<lambda>a. collation example_evidence_services (at_id (aw_evidence a))) example_attempts)"
    by (simp add: example_attempts_def measured_retry_def failed_admission_def)
  ultimately have "evaluateExperiment example_evidence_services one_cell_plan example_attempts =
      evaluateExperiment example_evidence_services one_cell_plan [failed_admission, measured_retry]"
    by (rule evaluation_order_independent)
  then show ?thesis using example_evaluated by simp
qed

lemma measured_attempts_never_superseded_witness: "\<not> at_measurementStarted (aw_evidence failed_admission)"
proof -
  have "example_cell ''c0'' ''memory'' \<in> set (p_cells one_cell_plan)" "rp_conflicts example_report = []"
    by (simp_all add: one_cell_plan_def example_report_def)
  moreover have "failed_admission \<in> set example_attempts" "measured_retry \<in> set example_attempts"
    "at_cellId (aw_evidence failed_admission) = c_id (example_cell ''c0'' ''memory'')"
    "at_cellId (aw_evidence measured_retry) = c_id (example_cell ''c0'' ''memory'')"
    "at_sequence (aw_evidence failed_admission) < at_sequence (aw_evidence measured_retry)"
    by (simp_all add: example_attempts_def measured_retry_def failed_admission_def example_cell_def)
  ultimately show ?thesis
    using measured_attempts_never_superseded[OF example_evaluated, of "example_cell ''c0'' ''memory''" failed_admission measured_retry]
    by (simp add: example_eligible)
qed


end
