(* ===== verification/Economics.thy ===== *)
theory Economics
  imports RunModel Suites
begin

text \<open>
  Prices: the pricing schema of \<open>packages/schema/src/provider-pricing.ts\<close>, the hourly cost at a
  target spec (\<open>providers.ts\<close>), the harness metrics (\<open>harness-metrics.ts\<close>) and the economics
  metrics derived from both (\<open>economics.ts\<close>).
\<close>

section \<open>Pricing\<close>

datatype spec_dimension = Vcpus | MemoryGb | DiskGb

record quantity_term =
  qt_dimension :: spec_dimension
  qt_unitsPerTargetUnit :: real

text \<open>A maximum has at least two terms.\<close>

datatype quantity_rule =
    LinearRule quantity_term
  | MaxRule quantity_term quantity_term "quantity_term list"

record pricing_component =
  co_id :: string
  co_resource :: string
  co_usdPerUnitHour :: real
  co_quantityRule :: quantity_rule

datatype target_hourly_cost =
    ExactCost "string list"
  | UsageDependent string
  | PlanDependent string

datatype provider_pricing =
    Published "pricing_component list" target_hourly_cost
  | Unavailable string

text \<open>The bounds of the fields, then the narrow: unique components, exact costs that name components.\<close>

fun rule_terms :: "quantity_rule \<Rightarrow> quantity_term list" where
  "rule_terms (LinearRule t) = [t]"
| "rule_terms (MaxRule t u ts) = t # u # ts"

definition component_schema :: "pricing_component \<Rightarrow> bool" where
  "component_schema c \<longleftrightarrow>
     co_id c \<noteq> [] \<and> 0 \<le> co_usdPerUnitHour c \<and> list_all (\<lambda>t. 0 < qt_unitsPerTargetUnit t) (rule_terms (co_quantityRule c))"

fun exact_ids_narrow :: "string list \<Rightarrow> string list \<Rightarrow> string list \<Rightarrow> bool" where
  "exact_ids_narrow components exact [] = True"
| "exact_ids_narrow components exact (i # ids) =
     (i \<notin> set exact \<and> i \<in> set components \<and> exact_ids_narrow components (i # exact) ids)"

fun pricing_narrow :: "provider_pricing \<Rightarrow> bool" where
  "pricing_narrow (Published components cost) =
     (components \<noteq> [] \<and> list_all component_schema components \<and> distinct (map co_id components) \<and>
      (case cost of ExactCost ids \<Rightarrow> ids \<noteq> [] \<and> exact_ids_narrow (map co_id components) [] ids | _ \<Rightarrow> True))"
| "pricing_narrow (Unavailable reason) = True"

section \<open>The hourly cost at a target spec\<close>

datatype pricing_error =
    MissingDimension string
  | UnknownComponent string
  | EconomicsAnalysis analysis_error

fun target_units :: "target_spec \<Rightarrow> spec_dimension \<Rightarrow> real option" where
  "target_units spec Vcpus = Some (vcpus spec)"
| "target_units spec MemoryGb = Some (memoryGb spec)"
| "target_units spec DiskGb = diskGb spec"

definition quantityFor :: "string \<Rightarrow> target_spec \<Rightarrow> quantity_term \<Rightarrow> pricing_error + real" where
  "quantityFor component spec t =
     (case target_units spec (qt_dimension t) of
        None \<Rightarrow> Inl (MissingDimension component)
      | Some units \<Rightarrow> Inr (units * qt_unitsPerTargetUnit t))"

definition pricingQuantityAtTargetSpec :: "pricing_component \<Rightarrow> target_spec \<Rightarrow> pricing_error + real" where
  "pricingQuantityAtTargetSpec c spec =
     (case co_quantityRule c of
        LinearRule t \<Rightarrow> quantityFor (co_id c) spec t
      | MaxRule t u ts \<Rightarrow>
          and_then (quantityFor (co_id c) spec t) (\<lambda>q.
          and_then (sequence (map (quantityFor (co_id c) spec) (u # ts))) (\<lambda>qs.
            Inr (fold max qs q))))"

text \<open>The components as a map from their ids: of two with one id the later one counts.\<close>

fun cost_loop :: "pricing_component list \<Rightarrow> target_spec \<Rightarrow> real \<Rightarrow> string list \<Rightarrow> pricing_error + real" where
  "cost_loop components spec acc [] = Inr acc"
| "cost_loop components spec acc (i # ids) =
     (case find (\<lambda>c. co_id c = i) (rev components) of
        None \<Rightarrow> Inl (UnknownComponent i)
      | Some c \<Rightarrow>
          and_then (pricingQuantityAtTargetSpec c spec) (\<lambda>q.
            cost_loop components spec (acc + co_usdPerUnitHour c * q) ids))"

fun hourlyCostAtTargetSpec :: "provider_pricing \<Rightarrow> target_spec \<Rightarrow> pricing_error + real option" where
  "hourlyCostAtTargetSpec (Published components (ExactCost ids)) spec =
     and_then (cost_loop components spec 0 ids) (\<lambda>c. Inr (Some c))"
| "hourlyCostAtTargetSpec _ spec = Inr None"

definition TARGET_SPEC :: target_spec where
  "TARGET_SPEC = \<lparr>vcpus = 4, memoryGb = 8, diskGb = Some 40\<rparr>"

section \<open>Harness and economics metrics\<close>

record harness_ids =
  hid_spawn :: string
  hid_coldStart :: string
  hid_firstExec :: string
  hid_exec :: string
  hid_snapshot :: string
  hid_teardown :: string
  hid_controlPlaneInfo :: string
  hid_controlPlaneList :: string
  hid_execPayload64k :: string

definition HARNESS_METRIC_IDS :: harness_ids where
  "HARNESS_METRIC_IDS =
     \<lparr>hid_spawn = ''lifecycle_spawn_ms'', hid_coldStart = ''lifecycle_cold_start_ms'',
      hid_firstExec = ''lifecycle_time_to_first_exec_ms'', hid_exec = ''lifecycle_exec_ms'',
      hid_snapshot = ''lifecycle_snapshot_ms'', hid_teardown = ''lifecycle_teardown_ms'',
      hid_controlPlaneInfo = ''control_plane_info_ms'', hid_controlPlaneList = ''control_plane_list_ms'',
      hid_execPayload64k = ''control_plane_exec_payload_64k_ms''\<rparr>"

definition ms_metric :: "string \<Rightarrow> dimension \<Rightarrow> bool \<Rightarrow> metric_def" where
  "ms_metric i d headline = \<lparr>md_id = i, md_dimension = d, md_unit = ''ms'', md_direction = LIB, md_headline = headline,
     md_pts = None, md_derived = False\<rparr>"

definition harnessMetrics :: "metric_def list" where
  "harnessMetrics =
     [ms_metric (hid_spawn HARNESS_METRIC_IDS) Lifecycle False,
      ms_metric (hid_coldStart HARNESS_METRIC_IDS) Lifecycle True,
      ms_metric (hid_firstExec HARNESS_METRIC_IDS) Lifecycle False,
      ms_metric (hid_exec HARNESS_METRIC_IDS) Lifecycle False,
      ms_metric (hid_snapshot HARNESS_METRIC_IDS) Lifecycle False,
      ms_metric (hid_teardown HARNESS_METRIC_IDS) Lifecycle False,
      ms_metric (hid_controlPlaneInfo HARNESS_METRIC_IDS) ControlPlane True,
      ms_metric (hid_controlPlaneList HARNESS_METRIC_IDS) ControlPlane False,
      ms_metric (hid_execPayload64k HARNESS_METRIC_IDS) ControlPlane False]"

definition LIFECYCLE_METRIC_IDS :: "string list" where
  "LIFECYCLE_METRIC_IDS = map md_id (filter (\<lambda>d. md_dimension d = Lifecycle) harnessMetrics)"

record economics_ids =
  eid_usdPerHour :: string
  eid_usdPerLifecycle :: string
  eid_usdPerComputeRun :: string

definition ECONOMICS_METRIC_IDS :: economics_ids where
  "ECONOMICS_METRIC_IDS = \<lparr>eid_usdPerHour = ''usd_per_hour'', eid_usdPerLifecycle = ''usd_per_lifecycle'',
     eid_usdPerComputeRun = ''usd_per_compute_run''\<rparr>"

definition derived_metric :: "string \<Rightarrow> string \<Rightarrow> bool \<Rightarrow> metric_def" where
  "derived_metric i unit headline = \<lparr>md_id = i, md_dimension = Economics, md_unit = unit, md_direction = LIB,
     md_headline = headline, md_pts = None, md_derived = True\<rparr>"

definition economicsMetrics :: "metric_def list" where
  "economicsMetrics =
     [derived_metric (eid_usdPerHour ECONOMICS_METRIC_IDS) ''USD/hr'' True,
      derived_metric (eid_usdPerLifecycle ECONOMICS_METRIC_IDS) ''USD'' False,
      derived_metric (eid_usdPerComputeRun ECONOMICS_METRIC_IDS) ''USD'' False]"

section \<open>Costs of a run\<close>

definition MS_PER_HOUR :: real where
  "MS_PER_HOUR = 3600000"

definition burstCostPerRun :: "real \<Rightarrow> real \<Rightarrow> real" where
  "burstCostPerRun hourlyUsd runtimeMs = hourlyUsd * (runtimeMs / MS_PER_HOUR)"

definition amortizedCostPerRun :: "real \<Rightarrow> real \<Rightarrow> jsnum" where
  "amortizedCostPerRun monthlyUsd runsPerMonth =
     (if 0 < runsPerMonth then Fin (monthlyUsd / runsPerMonth) else Infinite True)"

definition amortizationBreakEvenRunsPerMonth :: "real \<Rightarrow> real \<Rightarrow> real \<Rightarrow> jsnum" where
  "amortizationBreakEvenRunsPerMonth monthlyUsd hourlyUsd runtimeMs =
     (let burst = burstCostPerRun hourlyUsd runtimeMs
      in if 0 < burst then Fin (monthlyUsd / burst) else Infinite True)"

definition economicsResult :: "string \<Rightarrow> real \<Rightarrow> pricing_error + metric_result" where
  "economicsResult i value =
     (case aggregate [Fin value] of
        Inl e \<Rightarrow> Inl (EconomicsAnalysis e)
      | Inr a \<Rightarrow> Inr ((plain_metric i [Fin value] a None)\<lparr>mr_derived := True\<rparr>))"

text \<open>A measured metric is its id with the mean of its samples.\<close>

definition lifecycle_means :: "(string \<times> real) list \<Rightarrow> real list" where
  "lifecycle_means measured = map snd (filter (\<lambda>m. fst m \<in> set LIFECYCLE_METRIC_IDS) measured)"

definition positive_runtime :: "jsnum option \<Rightarrow> real option" where
  "positive_runtime runtimeMs =
     Option.bind (Option.bind runtimeMs finite_value) (\<lambda>r. if 0 < r then Some r else None)"

definition deriveEconomics :: "provider_pricing \<Rightarrow> (string \<times> real) list \<Rightarrow> jsnum option \<Rightarrow> target_spec \<Rightarrow>
  pricing_error + metric_result list" where
  "deriveEconomics pricing measured runtimeMs spec =
     and_then (hourlyCostAtTargetSpec pricing spec) (\<lambda>cost.
       case cost of
         None \<Rightarrow> Inr []
       | Some hourly \<Rightarrow>
           sequence
             ([economicsResult (eid_usdPerHour ECONOMICS_METRIC_IDS) hourly] @
              (if lifecycle_means measured = [] then []
               else [economicsResult (eid_usdPerLifecycle ECONOMICS_METRIC_IDS)
                       (burstCostPerRun hourly (sum_list (lifecycle_means measured)))]) @
              (case positive_runtime runtimeMs of
                 None \<Rightarrow> []
               | Some r \<Rightarrow> [economicsResult (eid_usdPerComputeRun ECONOMICS_METRIC_IDS) (burstCostPerRun hourly r)])))"

section \<open>Lemmas\<close>

lemma sequence_mono:
  assumes "sequence (map f xs) = Inr as" "sequence (map g xs) = Inr bs"
    "\<And>x a b. x \<in> set xs \<Longrightarrow> f x = Inr a \<Longrightarrow> g x = Inr b \<Longrightarrow> a \<le> (b::real)"
  shows "list_all2 (\<le>) as bs"
  using assms
proof (induction xs arbitrary: as bs)
  case (Cons x xs)
  then obtain a as' b bs' where "as = a # as'" "f x = Inr a" "sequence (map f xs) = Inr as'"
    "bs = b # bs'" "g x = Inr b" "sequence (map g xs) = Inr bs'"
    by (auto simp: and_then_Inr_iff)
  then show ?case using Cons.IH[of as' bs'] Cons.prems(3) by (auto intro: Cons.prems(3)[of x a b])
qed simp

lemma fold_max_mono: "list_all2 (\<le>) as bs \<Longrightarrow> a \<le> b \<Longrightarrow> fold max as a \<le> fold max bs (b::real)"
  by (induction as bs arbitrary: a b rule: list_all2_induct) (auto simp: max.coboundedI1 max.coboundedI2)

lemma fold_max_ge: "a \<le> fold max as (a::real)"
  by (induction as arbitrary: a) (auto intro: order_trans[OF max.cobounded2])

lemma find_mem: "find P xs = Some x \<Longrightarrow> x \<in> set xs"
  by (induction xs) (auto split: if_splits)

text \<open>A spec no larger in any dimension both have.\<close>

definition spec_le :: "target_spec \<Rightarrow> target_spec \<Rightarrow> bool" where
  "spec_le s t \<longleftrightarrow>
     (\<forall>d u v. target_units s d = Some u \<longrightarrow> target_units t d = Some v \<longrightarrow> 0 \<le> u \<and> u \<le> v)"

lemma quantityFor_mono:
  assumes "quantityFor i s t = Inr a" "quantityFor j s' t = Inr b" "spec_le s s'" "0 < qt_unitsPerTargetUnit t"
  shows "0 \<le> a \<and> a \<le> b"
proof -
  obtain u v where "target_units s (qt_dimension t) = Some u" "target_units s' (qt_dimension t) = Some v"
    "a = u * qt_unitsPerTargetUnit t" "b = v * qt_unitsPerTargetUnit t"
    using assms(1,2) by (auto simp: quantityFor_def split: option.splits)
  then show ?thesis using assms(3,4) by (auto simp: spec_le_def intro!: mult_right_mono)
qed

lemma quantity_mono:
  assumes "pricingQuantityAtTargetSpec c s = Inr a" "pricingQuantityAtTargetSpec c s' = Inr b" "spec_le s s'"
    "component_schema c"
  shows "0 \<le> a \<and> a \<le> b"
proof (cases "co_quantityRule c")
  case (LinearRule t)
  then show ?thesis
    using assms quantityFor_mono[of "co_id c" s t a "co_id c" s' b] by (simp add: pricingQuantityAtTargetSpec_def component_schema_def)
next
  case (MaxRule t u ts)
  have pos: "\<forall>t'\<in>set (t # u # ts). 0 < qt_unitsPerTargetUnit t'"
    using assms(4) MaxRule by (simp add: component_schema_def list_all_iff)
  obtain q qs q' qs' where q: "quantityFor (co_id c) s t = Inr q" "quantityFor (co_id c) s' t = Inr q'"
    and qs: "sequence (map (quantityFor (co_id c) s) (u # ts)) = Inr qs"
      "sequence (map (quantityFor (co_id c) s') (u # ts)) = Inr qs'"
    and ab: "a = fold max qs q" "b = fold max qs' q'"
    using assms(1,2) MaxRule by (simp only: pricingQuantityAtTargetSpec_def quantity_rule.case and_then_Inr_iff) blast
  have "0 \<le> q \<and> q \<le> q'" using quantityFor_mono[OF q assms(3)] pos by simp
  moreover have "list_all2 (\<le>) qs qs'"
    using qs by (rule sequence_mono) (use quantityFor_mono[OF _ _ assms(3)] pos in auto)
  ultimately show ?thesis using ab fold_max_mono fold_max_ge[of q qs] by auto
qed

lemma cost_loop_mono:
  assumes "cost_loop cs s acc ids = Inr a" "cost_loop cs s' acc' ids = Inr b" "spec_le s s'" "list_all component_schema cs"
    "0 \<le> acc" "acc \<le> acc'"
  shows "0 \<le> a \<and> a \<le> b"
  using assms
proof (induction ids arbitrary: acc acc')
  case (Cons i ids)
  from Cons.prems(1) obtain c where c: "find (\<lambda>c. co_id c = i) (rev cs) = Some c" by (cases "find (\<lambda>c. co_id c = i) (rev cs)") auto
  obtain q q' where q: "pricingQuantityAtTargetSpec c s = Inr q" "cost_loop cs s (acc + co_usdPerUnitHour c * q) ids = Inr a"
    "pricingQuantityAtTargetSpec c s' = Inr q'" "cost_loop cs s' (acc' + co_usdPerUnitHour c * q') ids = Inr b"
    using Cons.prems(1,2) c by (auto simp: and_then_Inr_iff)
  have "c \<in> set cs" using find_mem[OF c] by simp
  then have schema: "component_schema c" "0 \<le> co_usdPerUnitHour c"
    using Cons.prems(4) by (auto simp: list_all_iff component_schema_def)
  have "0 \<le> q \<and> q \<le> q'" using quantity_mono[OF q(1,3) Cons.prems(3) schema(1)] .
  then have "0 \<le> co_usdPerUnitHour c * q \<and> co_usdPerUnitHour c * q \<le> co_usdPerUnitHour c * q'"
    using schema(2) by (simp add: mult_left_mono)
  then show ?case using Cons.IH[OF q(2,4) Cons.prems(3,4)] Cons.prems(5,6) by linarith
qed simp

lemma exact_ids_known: "exact_ids_narrow ks seen ids \<Longrightarrow> set ids \<subseteq> set ks"
  by (induction ids arbitrary: "seen") auto

lemma sequence_total: "(\<And>x. x \<in> set xs \<Longrightarrow> \<exists>y. f x = Inr y) \<Longrightarrow> \<exists>ys. sequence (map f xs) = Inr ys"
  by (induction xs) fastforce+

lemma quantity_total:
  assumes "diskGb s \<noteq> None"
  shows "\<exists>q. pricingQuantityAtTargetSpec c s = Inr q"
proof -
  have units: "\<exists>u. target_units s d = Some u" for d using assms by (cases d) auto
  have one: "\<exists>q. quantityFor i s t = Inr q" for i t using units[of "qt_dimension t"] by (auto simp: quantityFor_def)
  show ?thesis
  proof (cases "co_quantityRule c")
    case (LinearRule t)
    then show ?thesis using one by (simp add: pricingQuantityAtTargetSpec_def)
  next
    case (MaxRule t u ts)
    obtain q qs where "quantityFor (co_id c) s t = Inr q" "sequence (map (quantityFor (co_id c) s) (u # ts)) = Inr qs"
      using one sequence_total[of "u # ts" "quantityFor (co_id c) s"] by blast
    then show ?thesis using MaxRule by (simp del: sequence.simps list.map add: pricingQuantityAtTargetSpec_def)
  qed
qed

lemma cost_loop_total:
  assumes "set ids \<subseteq> co_id ` set cs" "diskGb s \<noteq> None"
  shows "\<exists>c. cost_loop cs s acc ids = Inr c"
  using assms(1)
proof (induction ids arbitrary: acc)
  case (Cons i ids)
  then have "find (\<lambda>c. co_id c = i) (rev cs) \<noteq> None" by (auto simp: find_None_iff)
  then obtain c where c: "find (\<lambda>c. co_id c = i) (rev cs) = Some c" by blast
  obtain q where "pricingQuantityAtTargetSpec c s = Inr q" using quantity_total[OF assms(2)] by blast
  then show ?case using c Cons by simp
qed simp

lemma economicsResult_Inr:
  "\<exists>m. economicsResult i v = Inr m \<and> metricId m = i \<and> samples m = [Fin v] \<and> mr_derived m \<and> metric_narrow m = Inr () \<and>
     mr_hostHardwareId m = None \<and> mr_hostNetworkId m = None \<and> replicates m = None"
proof -
  obtain a where a: "aggregate [Fin v] = Inr a" "agg_n a = 1" using aggregate_finite[of "[v]"] by auto
  then show ?thesis using aggregate_schema[OF a(1)]
    by (simp add: economicsResult_def plain_metric_def metric_narrow_def)
qed

lemma economics_rows:
  "map (\<lambda>(i, v). economicsResult i v) rs = map Inr rows \<Longrightarrow>
   map metricId rows = map fst rs \<and>
   list_all (\<lambda>m. mr_derived m \<and> length (samples m) = 1 \<and> metric_narrow m = Inr ()) rows \<and>
   list_all (\<lambda>m. mr_hostHardwareId m = None \<and> mr_hostNetworkId m = None \<and> replicates m = None) rows"
proof (induction rs arbitrary: rows)
  case (Cons r rs)
  then obtain m ms where "rows = m # ms" by (cases rows) auto
  moreover obtain i v where "r = (i, v)" by (cases r)
  ultimately show ?case using Cons economicsResult_Inr[of i v] by auto
qed simp

section \<open>Properties\<close>

text \<open>
  An exact hourly cost of accepted pricing exists at every spec with a disk size, is not
  negative, and never falls when the spec grows.
\<close>

theorem hourly_cost_monotone:
  assumes "pricing_narrow pricing" "spec_le small large" "diskGb small \<noteq> None" "diskGb large \<noteq> None"
  shows "(\<exists>a b. hourlyCostAtTargetSpec pricing small = Inr (Some a) \<and> hourlyCostAtTargetSpec pricing large = Inr (Some b) \<and>
            0 \<le> a \<and> a \<le> b) \<or>
         (hourlyCostAtTargetSpec pricing small = Inr None \<and> hourlyCostAtTargetSpec pricing large = Inr None)"
proof (cases "\<exists>cs ids. pricing = Published cs (ExactCost ids)")
  case True
  then obtain cs ids where p: "pricing = Published cs (ExactCost ids)" by blast
  then have schema: "list_all component_schema cs" "set ids \<subseteq> co_id ` set cs"
    using assms(1) exact_ids_known[of "map co_id cs" "[]" ids] by auto
  obtain a b where "cost_loop cs small 0 ids = Inr a" "cost_loop cs large 0 ids = Inr b"
    using cost_loop_total[OF schema(2)] assms(3,4) by blast
  then show ?thesis using cost_loop_mono[of cs small 0 ids a large 0 b] assms(2) schema(1) p by simp
next
  case False
  then show ?thesis by (cases pricing; cases "case pricing of Published cs c \<Rightarrow> c | _ \<Rightarrow> UsageDependent []") auto
qed

definition example_pricing :: provider_pricing where
  "example_pricing = Published
     [\<lparr>co_id = ''cpu'', co_resource = ''cpu'', co_usdPerUnitHour = 1 / 20, co_quantityRule = LinearRule \<lparr>qt_dimension = Vcpus, qt_unitsPerTargetUnit = 1\<rparr>\<rparr>,
      \<lparr>co_id = ''mem'', co_resource = ''memory'', co_usdPerUnitHour = 1 / 100,
       co_quantityRule = MaxRule \<lparr>qt_dimension = MemoryGb, qt_unitsPerTargetUnit = 1\<rparr> \<lparr>qt_dimension = Vcpus, qt_unitsPerTargetUnit = 4\<rparr> []\<rparr>]
     (ExactCost [''cpu'', ''mem''])"

lemma example_pricing_narrow: "pricing_narrow example_pricing"
  by (simp add: example_pricing_def component_schema_def)

lemma hourly_cost_monotone_witness:
  "\<exists>a. hourlyCostAtTargetSpec example_pricing TARGET_SPEC = Inr (Some a) \<and> 0 \<le> a"
proof -
  have self: "spec_le TARGET_SPEC TARGET_SPEC"
    unfolding spec_le_def
  proof (intro allI impI)
    fix d u v
    assume "target_units TARGET_SPEC d = Some u" "target_units TARGET_SPEC d = Some v"
    then show "0 \<le> u \<and> u \<le> v" by (cases d) (auto simp: TARGET_SPEC_def)
  qed
  have disk: "diskGb TARGET_SPEC \<noteq> None" by (simp add: TARGET_SPEC_def)
  have "hourlyCostAtTargetSpec example_pricing TARGET_SPEC \<noteq> Inr None"
    by (simp add: example_pricing_def pricingQuantityAtTargetSpec_def quantityFor_def TARGET_SPEC_def)
  then show ?thesis using hourly_cost_monotone[OF example_pricing_narrow self disk disk] by blast
qed

text \<open>
  The break-even point of a reserved box against pay-per-use: with a positive burst cost,
  the amortized run is cheaper than the burst run exactly above the break-even number of runs a month.
\<close>

theorem break_even_separates:
  assumes "0 < burstCostPerRun hourlyUsd runtimeMs" "0 < runs"
  shows "\<exists>n c. amortizationBreakEvenRunsPerMonth monthlyUsd hourlyUsd runtimeMs = Fin n \<and>
    amortizedCostPerRun monthlyUsd runs = Fin c \<and>
    (c < burstCostPerRun hourlyUsd runtimeMs \<longleftrightarrow> n < runs) \<and> (c = burstCostPerRun hourlyUsd runtimeMs \<longleftrightarrow> n = runs)"
proof -
  let ?burst = "burstCostPerRun hourlyUsd runtimeMs"
  have "monthlyUsd / runs < ?burst \<longleftrightarrow> monthlyUsd / ?burst < runs"
    using assms by (simp add: pos_divide_less_eq mult.commute)
  moreover have "monthlyUsd / runs = ?burst \<longleftrightarrow> monthlyUsd / ?burst = runs"
    using assms by (auto simp: field_simps)
  ultimately show ?thesis
    using assms by (simp add: amortizationBreakEvenRunsPerMonth_def amortizedCostPerRun_def)
qed

lemma break_even_separates_witness:
  "\<exists>n c. amortizationBreakEvenRunsPerMonth 720 1 3600000 = Fin n \<and> amortizedCostPerRun 720 1000 = Fin c \<and> (c < 1 \<longleftrightarrow> n < 1000)"
  using break_even_separates[of 1 3600000 1000 720] by (auto simp: burstCostPerRun_def MS_PER_HOUR_def)

lemma deriveEconomics_facts:
  assumes "deriveEconomics pricing measured runtimeMs spec = Inr rows"
  shows "(rows = [] \<longleftrightarrow> hourlyCostAtTargetSpec pricing spec = Inr None) \<and>
    distinct (map metricId rows) \<and> set (map metricId rows) \<subseteq> set (map md_id economicsMetrics) \<and>
    list_all (\<lambda>m. mr_derived m \<and> length (samples m) = 1 \<and> metric_narrow m = Inr ()) rows \<and>
    list_all (\<lambda>m. mr_hostHardwareId m = None \<and> mr_hostNetworkId m = None \<and> replicates m = None) rows"
proof -
  obtain cost where cost: "hourlyCostAtTargetSpec pricing spec = Inr cost"
    using assms by (auto simp: deriveEconomics_def and_then_Inr_iff)
  show ?thesis
  proof (cases cost)
    case None
    then show ?thesis using assms cost by (simp add: deriveEconomics_def)
  next
    case (Some hourly)
    let ?rows = "[(eid_usdPerHour ECONOMICS_METRIC_IDS, hourly)] @
       (if lifecycle_means measured = [] then []
        else [(eid_usdPerLifecycle ECONOMICS_METRIC_IDS, burstCostPerRun hourly (sum_list (lifecycle_means measured)))]) @
       (case positive_runtime runtimeMs of None \<Rightarrow> []
        | Some r \<Rightarrow> [(eid_usdPerComputeRun ECONOMICS_METRIC_IDS, burstCostPerRun hourly r)])"
    have "map (\<lambda>(i, v). economicsResult i v) ?rows =
        [economicsResult (eid_usdPerHour ECONOMICS_METRIC_IDS) hourly] @
        (if lifecycle_means measured = [] then []
         else [economicsResult (eid_usdPerLifecycle ECONOMICS_METRIC_IDS)
                 (burstCostPerRun hourly (sum_list (lifecycle_means measured)))]) @
        (case positive_runtime runtimeMs of
           None \<Rightarrow> []
         | Some r \<Rightarrow> [economicsResult (eid_usdPerComputeRun ECONOMICS_METRIC_IDS) (burstCostPerRun hourly r)])"
      by (simp split: option.split)
    then have "sequence (map (\<lambda>(i, v). economicsResult i v) ?rows) = Inr rows"
      using assms cost Some by (simp only: deriveEconomics_def and_then_simps option.case)
    then have rows: "map (\<lambda>(i, v). economicsResult i v) ?rows = map Inr rows" by (simp only: sequence_Inr_iff)
    note economics_rows[OF rows]
    moreover have "distinct (map fst ?rows)" "set (map fst ?rows) \<subseteq> set (map md_id economicsMetrics)"
      by (auto simp: ECONOMICS_METRIC_IDS_def economicsMetrics_def derived_metric_def split: option.splits)
    moreover have "rows \<noteq> []" using rows by auto
    ultimately show ?thesis using cost Some by simp
  qed
qed

text \<open>
  The derived rows: none without a deterministic hourly cost, else the hourly cost first,
  then at most one row per further economics metric; every row is marked derived, holds one sample and
  passes the metric checks of a Run.
\<close>

theorem deriveEconomics_rows:
  assumes "deriveEconomics pricing measured runtimeMs spec = Inr rows"
  shows "(rows = [] \<longleftrightarrow> hourlyCostAtTargetSpec pricing spec = Inr None) \<and>
    distinct (map metricId rows) \<and> set (map metricId rows) \<subseteq> set (map md_id economicsMetrics) \<and>
    list_all (\<lambda>m. mr_derived m \<and> length (samples m) = 1 \<and> metric_narrow m = Inr ()) rows"
  using deriveEconomics_facts[OF assms] by blast

lemma deriveEconomics_rows_witness:
  "\<exists>rows. deriveEconomics example_pricing [(''lifecycle_spawn_ms'', 1000)] None TARGET_SPEC = Inr rows \<and> rows \<noteq> []"
proof -
  obtain a where a: "hourlyCostAtTargetSpec example_pricing TARGET_SPEC = Inr (Some a)"
    by (rule that[of "9 / 25"]) (simp add: example_pricing_def pricingQuantityAtTargetSpec_def quantityFor_def TARGET_SPEC_def)
  obtain m n where mn: "economicsResult (eid_usdPerHour ECONOMICS_METRIC_IDS) a = Inr m"
    "economicsResult (eid_usdPerLifecycle ECONOMICS_METRIC_IDS)
       (burstCostPerRun a (sum_list (lifecycle_means [(''lifecycle_spawn_ms'', 1000)]))) = Inr n"
    using economicsResult_Inr by meson
  have "\<exists>rows. deriveEconomics example_pricing [(''lifecycle_spawn_ms'', 1000)] None TARGET_SPEC = Inr rows"
    using a mn by (simp add: deriveEconomics_def positive_runtime_def)
  then obtain rows where rows: "deriveEconomics example_pricing [(''lifecycle_spawn_ms'', 1000)] None TARGET_SPEC = Inr rows" by blast
  then show ?thesis using deriveEconomics_rows[OF rows] a by auto
qed

end
