(* ===== verification/Mixtures.thy ===== *)
theory Mixtures
  imports Evidence Economics "HOL-Library.AList" "HOL-Library.Product_Lexorder"
begin

text \<open>
  The counted heterogeneity of a provider (\<open>packages/results/src/lib/observed-mixtures.ts\<close>): the
  machines and networks its sandboxes reported, each with the number of sandboxes, the representative
  reading and the folded host records. The lemmas show that the counts are the counts of the readings,
  so that the order in which shards arrive does not matter.
\<close>

text \<open>
  What the merge takes from outside: the truncated content digest of a projected reading, the digest
  of a host record's identity, the canonical text of a gap cause and the pricing of a provider.
\<close>

record merge_services = evidence_services +
  contentId :: "specs \<Rightarrow> string"
  hostKey :: "host_source \<times> string \<times> string option \<times> string option \<times> (string \<times> string) list \<Rightarrow> string"
  causeKey :: "gap_cause \<Rightarrow> string"
  pricingOf :: "string \<Rightarrow> provider_pricing option"

datatype merge_error =
    HashCollision string
  | ConflictingCost string
  | CostSandboxReused string
  | ConflictingArtifact string
  | ArtifactSandboxReused string
  | BadAggregate analysis_error
  | BadEconomics pricing_error
  | CompletedExperiment
  | NoShards
  | MixedVersions
  | ShardIdentity
  | ShardTarget
  | MergedRunRejected run_violation

section \<open>The verdict on a reading\<close>

definition number_spec :: "specs \<Rightarrow> string \<Rightarrow> real option" where
  "number_spec specs key = (case map_of specs key of Some (SpecNumber v) \<Rightarrow> Some v | _ \<Rightarrow> None)"

definition computeSpecMatched :: "specs \<Rightarrow> bool option" where
  "computeSpecMatched specs =
     (case (number_spec specs ''vcpus'', number_spec specs ''memoryGb'') of
        (Some v, Some m) \<Rightarrow> Some (v = vcpus TARGET_SPEC \<and> \<bar>m - memoryGb TARGET_SPEC\<bar> \<le> memoryGb TARGET_SPEC * (1 / 10))
      | _ \<Rightarrow> None)"

section \<open>Categories of a reading\<close>

definition HOST_HARDWARE_SPEC_KEYS :: "string list" where
  "HOST_HARDWARE_SPEC_KEYS =
     [''vcpus'', ''memoryGb'', ''diskGb'', ''hostVcpus'', ''hostMemoryGb'', ''cpuModel'', ''cpuMicroarch'', ''cpuMhz'',
      ''kernel'', ''os'', ''virtualization'', ''detectedIsolation'', ''isolationClass'', ''isolationConfidence'',
      ''machineVmm'', ''containerRuntime'', ''manufacturer'', ''productName'', ''biosVendor'']"

definition HOST_NETWORK_SPEC_KEYS :: "string list" where
  "HOST_NETWORK_SPEC_KEYS =
     [''egressOrg'', ''egressAsn'', ''egressOrgName'', ''networkPrefix'', ''city'', ''region'', ''country'', ''location'',
      ''timezone'', ''asnSource'', ''geoSource'']"

text \<open>
  A reading projected on the keys of a category, in key order, with its content id; none when the
  reading discloses none of them. The canonical text is the projection itself.
\<close>

definition projection :: "specs \<Rightarrow> string list \<Rightarrow> specs" where
  "projection specs keys =
     sort_key fst (List.map_filter (\<lambda>k. map_option (Pair k) (map_of specs k)) keys)"

definition categoryOf :: "(specs \<Rightarrow> string) \<Rightarrow> specs \<Rightarrow> string list \<Rightarrow> (string \<times> specs) option" where
  "categoryOf digest specs keys =
     (let entries = projection specs keys in if entries = [] then None else Some (digest entries, entries))"

section \<open>Counting\<close>

text \<open>The map from ids, in the order they were first seen, to a count and the projection.\<close>

fun tally_loop :: "(specs \<Rightarrow> string) \<Rightarrow> string list \<Rightarrow> (string \<times> nat \<times> specs) list \<Rightarrow> specs list \<Rightarrow>
  merge_error + (string \<times> nat \<times> specs) list" where
  "tally_loop digest keys acc [] = Inr acc"
| "tally_loop digest keys acc (reading # readings) =
     (case categoryOf digest reading keys of
        None \<Rightarrow> tally_loop digest keys acc readings
      | Some (i, entries) \<Rightarrow>
          (case map_of acc i of
             Some (n, s) \<Rightarrow>
               if s \<noteq> entries then Inl (HashCollision i)
               else tally_loop digest keys (AList.update i (Suc n, s) acc) readings
           | None \<Rightarrow> tally_loop digest keys (AList.update i (1, entries) acc) readings))"

text \<open>Most common first, ties by id.\<close>

definition byDominance :: "('a \<Rightarrow> nat) \<Rightarrow> (string \<times> 'a) list \<Rightarrow> (string \<times> 'a) list" where
  "byDominance n entries = sort_key (\<lambda>(i, e). (- int (n e), i)) entries"

definition tallyCategory :: "(specs \<Rightarrow> string) \<Rightarrow> specs list \<Rightarrow> string list \<Rightarrow> merge_error + (string \<times> nat \<times> specs) list" where
  "tallyCategory digest readings keys = and_then (tally_loop digest keys [] readings) (\<lambda>acc. Inr (byDominance fst acc))"

definition hardware_entry :: "string \<times> nat \<times> specs \<Rightarrow> string \<times> hardware_mixture" where
  "hardware_entry e = (case e of (i, n, s) \<Rightarrow> (i, \<lparr>hw_count = n, hw_specs = s, hw_specMatched = computeSpecMatched s\<rparr>))"

definition network_entry :: "string \<times> nat \<times> specs \<Rightarrow> string \<times> network_mixture" where
  "network_entry e = (case e of (i, n, s) \<Rightarrow> (i, \<lparr>nw_count = n, nw_specs = s\<rparr>))"

definition buildObservedMixtures :: "(specs \<Rightarrow> string) \<Rightarrow> specs list \<Rightarrow> merge_error + observed_mixtures option" where
  "buildObservedMixtures digest readings =
     (if readings = [] then Inr None
      else and_then (tallyCategory digest readings HOST_HARDWARE_SPEC_KEYS) (\<lambda>hardware.
           and_then (tallyCategory digest readings HOST_NETWORK_SPEC_KEYS) (\<lambda>network.
             Inr (Some \<lparr>om_sandboxes = length readings, om_hostHardware = map hardware_entry hardware,
                        om_hostNetwork = map network_entry network\<rparr>))))"

text \<open>The ids one reading falls under: hardware and network.\<close>

type_synonym mixture_ids = "string option \<times> string option"

definition observedMixtureIds :: "(specs \<Rightarrow> string) \<Rightarrow> specs \<Rightarrow> mixture_ids" where
  "observedMixtureIds digest specs =
     (map_option fst (categoryOf digest specs HOST_HARDWARE_SPEC_KEYS),
      map_option fst (categoryOf digest specs HOST_NETWORK_SPEC_KEYS))"

text \<open>The specs of the dominant machine, then those of the dominant network.\<close>

definition representativeSpecs :: "observed_mixtures \<Rightarrow> specs" where
  "representativeSpecs om =
     (case byDominance hw_count (om_hostHardware om) of [] \<Rightarrow> [] | (i, h) # es \<Rightarrow> hw_specs h) @
     (case byDominance nw_count (om_hostNetwork om) of [] \<Rightarrow> [] | (i, n) # es \<Rightarrow> nw_specs n)"

section \<open>Host records\<close>

definition ends_with :: "string \<Rightarrow> string \<Rightarrow> bool" where
  "ends_with s suffix \<longleftrightarrow> length suffix \<le> length s \<and> drop (length s - length suffix) s = suffix"

definition VOLATILE_HOST_METADATA_PATH_SUFFIXES :: "string list" where
  "VOLATILE_HOST_METADATA_PATH_SUFFIXES = [''.timestamp'']"

definition isVolatileHostMetadataPath :: "string \<Rightarrow> bool" where
  "isVolatileHostMetadataPath path \<longleftrightarrow> list_ex (ends_with path) VOLATILE_HOST_METADATA_PATH_SUFFIXES"

definition stable_fields :: "host_metadata \<Rightarrow> (string \<times> string) list" where
  "stable_fields r = filter (\<lambda>f. \<not> isVolatileHostMetadataPath (fst f)) (hm_fields r)"

definition host_identity :: "merge_services \<Rightarrow> host_metadata \<times> mixture_ids \<Rightarrow> string" where
  "host_identity S input =
     (case input of (r, (hw, nw)) \<Rightarrow>
        hostKey S (hm_source r, hm_sourceFile r, hw, nw, sort_key (\<lambda>f. collation S (fst f)) (stable_fields r)))"

text \<open>A first record keeps its fields and gains the ids; a further one raises the count and drops the stamps.\<close>

definition with_ids :: "mixture_ids \<Rightarrow> host_metadata \<Rightarrow> host_metadata" where
  "with_ids ids r = r\<lparr>
     hm_hostHardwareId := (case fst ids of None \<Rightarrow> hm_hostHardwareId r | Some i \<Rightarrow> Some i),
     hm_hostNetworkId := (case snd ids of None \<Rightarrow> hm_hostNetworkId r | Some i \<Rightarrow> Some i)\<rparr>"

fun fold_host_loop :: "merge_services \<Rightarrow> (string \<times> host_metadata) list \<Rightarrow> (host_metadata \<times> mixture_ids) list \<Rightarrow>
  (string \<times> host_metadata) list" where
  "fold_host_loop S acc [] = acc"
| "fold_host_loop S acc ((r, ids) # inputs) =
     (let key = host_identity S (r, ids)
      in fold_host_loop S
           (case map_of acc key of
              Some existing \<Rightarrow>
                AList.update key
                  (existing\<lparr>hm_sandboxes := Some (Suc (case hm_sandboxes existing of None \<Rightarrow> 1 | Some n \<Rightarrow> n)),
                            hm_fields := stable_fields r\<rparr>) acc
            | None \<Rightarrow> AList.update key (with_ids ids (r\<lparr>hm_sandboxes := Some 1\<rparr>)) acc)
           inputs)"

definition foldHostMetadata :: "merge_services \<Rightarrow> (host_metadata \<times> mixture_ids) list \<Rightarrow> host_metadata list" where
  "foldHostMetadata S inputs = map snd (fold_host_loop S [] inputs)"

section \<open>Lemmas\<close>

definition category_id :: "(specs \<Rightarrow> string) \<Rightarrow> string list \<Rightarrow> specs \<Rightarrow> string option" where
  "category_id digest keys r = map_option fst (categoryOf digest r keys)"

definition counted :: "(specs \<Rightarrow> string) \<Rightarrow> string list \<Rightarrow> specs list \<Rightarrow> string \<Rightarrow> nat" where
  "counted digest keys readings i = length (filter (\<lambda>r. category_id digest keys r = Some i) readings)"

lemma category_idI: "categoryOf digest r keys = Some (i, e) \<Longrightarrow> category_id digest keys r = Some i"
  by (simp add: category_id_def)

lemma category_id_None: "categoryOf digest r keys = None \<Longrightarrow> category_id digest keys r = None"
  by (simp add: category_id_def)

lemma category_id_Some: "category_id digest keys r = Some i \<longleftrightarrow> categoryOf digest r keys = Some (i, projection r keys)"
  by (auto simp: category_id_def categoryOf_def Let_def)

lemma categoryOf_projection: "categoryOf digest r keys = Some (i, e) \<Longrightarrow> e = projection r keys \<and> e \<noteq> []"
  by (auto simp: categoryOf_def Let_def split: if_splits)

text \<open>The counts of the readings seen: every id once, its count, and one projection for all of them.\<close>

definition tally_inv :: "(specs \<Rightarrow> string) \<Rightarrow> string list \<Rightarrow> (string \<times> nat \<times> specs) list \<Rightarrow> specs list \<Rightarrow> bool" where
  "tally_inv digest keys acc readings \<longleftrightarrow>
     distinct (map fst acc) \<and>
     (\<forall>i. (case map_of acc i of
             None \<Rightarrow> counted digest keys readings i = 0
           | Some (n, s) \<Rightarrow> n = counted digest keys readings i \<and> 0 < n \<and>
               (\<forall>r\<in>set readings. category_id digest keys r = Some i \<longrightarrow> projection r keys = s)))"

lemma tally_inv_distinct: "tally_inv digest keys acc rs \<Longrightarrow> distinct (map fst acc)"
  by (simp add: tally_inv_def)

lemma tally_inv_None: "tally_inv digest keys acc rs \<Longrightarrow> map_of acc i = None \<Longrightarrow> counted digest keys rs i = 0"
  unfolding tally_inv_def by (drule conjunct2, drule spec[of _ i], simp)

lemma tally_inv_Some:
  assumes "tally_inv digest keys acc rs" "map_of acc i = Some (n, s)"
  shows "n = counted digest keys rs i" "0 < counted digest keys rs i"
    "r \<in> set rs \<Longrightarrow> category_id digest keys r = Some i \<Longrightarrow> projection r keys = s"
proof -
  have "case map_of acc i of None \<Rightarrow> counted digest keys rs i = 0
      | Some (n, s) \<Rightarrow> n = counted digest keys rs i \<and> 0 < n \<and>
          (\<forall>r\<in>set rs. category_id digest keys r = Some i \<longrightarrow> projection r keys = s)"
    using assms(1) unfolding tally_inv_def by blast
  then show "n = counted digest keys rs i" "0 < counted digest keys rs i"
    "r \<in> set rs \<Longrightarrow> category_id digest keys r = Some i \<Longrightarrow> projection r keys = s"
    using assms(2) by auto
qed

lemma counted_pos: "0 < counted digest keys rs i \<Longrightarrow> \<exists>r\<in>set rs. category_id digest keys r = Some i"
  by (auto simp: counted_def filter_empty_conv)

lemma tally_inv_Nil: "tally_inv digest keys [] []"
  by (simp add: tally_inv_def counted_def)

lemma counted_snoc:
  "counted digest keys (rs @ [r]) i = counted digest keys rs i + (if category_id digest keys r = Some i then 1 else 0)"
  by (simp add: counted_def)

lemma tally_inv_skip:
  assumes "tally_inv digest keys acc rs" "categoryOf digest r keys = None"
  shows "tally_inv digest keys acc (rs @ [r])"
proof -
  have "counted digest keys (rs @ [r]) i = counted digest keys rs i" for i
    by (simp add: counted_snoc category_id_None[OF assms(2)])
  moreover have "(\<forall>r'\<in>set (rs @ [r]). category_id digest keys r' = Some i \<longrightarrow> projection r' keys = s) \<longleftrightarrow>
      (\<forall>r'\<in>set rs. category_id digest keys r' = Some i \<longrightarrow> projection r' keys = s)" for i s
    using category_id_None[OF assms(2)] by auto
  ultimately show ?thesis using assms(1) by (simp only: tally_inv_def simp_thms)
qed

lemma counted_0: "counted digest keys rs i = 0 \<Longrightarrow> r \<in> set rs \<Longrightarrow> category_id digest keys r \<noteq> Some i"
  by (auto simp: counted_def filter_empty_conv)

lemma tally_inv_update:
  assumes inv: "tally_inv digest keys acc rs" and c: "categoryOf digest r keys = Some (i, e)"
    and n: "map_of acc i = Some (n, e) \<or> (map_of acc i = None \<and> n = 0)"
  shows "tally_inv digest keys (AList.update i (Suc n, e) acc) (rs @ [r])"
proof -
  have cid: "category_id digest keys r = Some i" and e: "e = projection r keys"
    using category_idI[OF c] categoryOf_projection[OF c] by auto
  have per: "case map_of (AList.update i (Suc n, e) acc) j of
             None \<Rightarrow> counted digest keys (rs @ [r]) j = 0
           | Some (n, s) \<Rightarrow> n = counted digest keys (rs @ [r]) j \<and> 0 < n \<and>
               (\<forall>r'\<in>set (rs @ [r]). category_id digest keys r' = Some j \<longrightarrow> projection r' keys = s)" for j
  proof (cases "j = i")
    case True
    have "n = counted digest keys rs i \<and> (\<forall>r\<in>set rs. category_id digest keys r = Some i \<longrightarrow> projection r keys = e)"
      using n tally_inv_Some[OF inv] tally_inv_None[OF inv] counted_0[of digest keys rs i] by metis
    then show ?thesis using True cid e by (simp add: update_conv' counted_snoc)
  next
    case False
    have "case map_of acc j of
             None \<Rightarrow> counted digest keys rs j = 0
           | Some (n, s) \<Rightarrow> n = counted digest keys rs j \<and> 0 < n \<and>
               (\<forall>r\<in>set rs. category_id digest keys r = Some j \<longrightarrow> projection r keys = s)"
      using inv by (simp add: tally_inv_def)
    then show ?thesis using False cid by (auto simp: update_conv' counted_snoc split: option.splits)
  qed
  have "distinct (map fst (AList.update i (Suc n, e) acc))" using inv by (simp add: tally_inv_def distinct_update)
  then show ?thesis using per unfolding tally_inv_def by blast
qed

lemma tally_loop_inv:
  assumes "tally_inv digest keys acc rs" "tally_loop digest keys acc readings = Inr acc'"
  shows "tally_inv digest keys acc' (rs @ readings)"
  using assms
proof (induction readings arbitrary: acc rs)
  case (Cons r readings)
  show ?case
  proof (cases "categoryOf digest r keys")
    case None
    then show ?thesis using Cons.IH[OF tally_inv_skip[OF Cons.prems(1) None]] Cons.prems(2) by simp
  next
    case (Some ie)
    obtain i e where ie: "ie = (i, e)" by fastforce
    obtain n where n: "map_of acc i = Some (n, e) \<or> (map_of acc i = None \<and> n = 0)"
      "tally_loop digest keys (AList.update i (Suc n, e) acc) readings = Inr acc'"
      using Cons.prems(2) Some ie by (cases "map_of acc i") (auto split: if_splits)
    show ?thesis
      using Cons.IH[OF tally_inv_update[OF Cons.prems(1) _ n(1)] n(2), of r] Some ie by simp
  qed
qed simp

text \<open>No two readings of one id differ.\<close>

definition no_collision :: "(specs \<Rightarrow> string) \<Rightarrow> string list \<Rightarrow> specs list \<Rightarrow> bool" where
  "no_collision digest keys rs \<longleftrightarrow>
     (\<forall>r\<in>set rs. \<forall>r'\<in>set rs. category_id digest keys r \<noteq> None \<and> category_id digest keys r = category_id digest keys r' \<longrightarrow>
        projection r keys = projection r' keys)"

lemma tally_inv_no_collision: "tally_inv digest keys acc rs \<Longrightarrow> no_collision digest keys rs"
  unfolding no_collision_def
proof (intro ballI impI)
  fix r r'
  assume inv: "tally_inv digest keys acc rs" and mem: "r \<in> set rs" "r' \<in> set rs"
    and same: "category_id digest keys r \<noteq> None \<and> category_id digest keys r = category_id digest keys r'"
  obtain i where i: "category_id digest keys r = Some i" using same by blast
  then have i': "category_id digest keys r' = Some i" using same by simp
  obtain n s where "map_of acc i = Some (n, s)"
    using tally_inv_None[OF inv, of i] counted_0[of digest keys rs i r] mem i by (cases "map_of acc i") auto
  then show "projection r keys = projection r' keys"
    using tally_inv_Some(3)[OF inv] mem i i' by metis
qed

lemma tally_loop_total:
  assumes "tally_inv digest keys acc rs" "no_collision digest keys (rs @ readings)"
  shows "\<exists>acc'. tally_loop digest keys acc readings = Inr acc'"
  using assms
proof (induction readings arbitrary: acc rs)
  case (Cons r readings)
  have nc: "no_collision digest keys ((rs @ [r]) @ readings)" using Cons.prems(2) by simp
  show ?case
  proof (cases "categoryOf digest r keys")
    case None
    then show ?thesis using Cons.IH[OF tally_inv_skip[OF Cons.prems(1) None] nc] by simp
  next
    case (Some ie)
    obtain i e where ie: "ie = (i, e)" by fastforce
    note facts = category_idI[of digest r keys i e] categoryOf_projection[of digest r keys i e]
    show ?thesis
    proof (cases "map_of acc i")
      case None
      have "tally_inv digest keys (AList.update i (Suc 0, e) acc) (rs @ [r])"
        by (rule tally_inv_update[OF Cons.prems(1)]) (use Some ie None in auto)
      from Cons.IH[OF this nc] show ?thesis using Some ie None by simp
    next
      fix ns assume m: "map_of acc i = Some ns"
      obtain n s where ns: "ns = (n, s)" by fastforce
      note at_i = tally_inv_Some[OF Cons.prems(1), of i n s]
      obtain r' where r': "r' \<in> set rs" "category_id digest keys r' = Some i"
        using counted_pos at_i(2) m ns by blast
      then have "projection r' keys = projection r keys"
        using Cons.prems(2) facts Some ie by (auto simp: no_collision_def)
      then have se: "s = e" using at_i(3)[of r'] r' facts Some ie m ns by auto
      have "tally_inv digest keys (AList.update i (Suc n, e) acc) (rs @ [r])"
        by (rule tally_inv_update[OF Cons.prems(1)]) (use Some ie m ns se in auto)
      from Cons.IH[OF this nc] show ?thesis using Some ie m ns se by simp
    qed
  qed
qed simp

lemma tally_inv_set:
  assumes "tally_inv digest keys acc rs"
  shows "set acc = {(i, n, s). 0 < counted digest keys rs i \<and> n = counted digest keys rs i \<and>
    (\<exists>r\<in>set rs. category_id digest keys r = Some i \<and> projection r keys = s) \<and>
    (\<forall>r\<in>set rs. category_id digest keys r = Some i \<longrightarrow> projection r keys = s)}"
proof -
  have dist: "distinct (map fst acc)" using assms by (simp add: tally_inv_def)
  have "(i, n, s) \<in> set acc \<longleftrightarrow> 0 < counted digest keys rs i \<and> n = counted digest keys rs i \<and>
    (\<exists>r\<in>set rs. category_id digest keys r = Some i \<and> projection r keys = s) \<and>
    (\<forall>r\<in>set rs. category_id digest keys r = Some i \<longrightarrow> projection r keys = s)" for i n s
  proof (cases "map_of acc i")
    case None
    then have "counted digest keys rs i = 0" by (rule tally_inv_None[OF assms])
    moreover have "(i, n, s) \<notin> set acc" using None by (force simp: map_of_eq_None_iff)
    ultimately show ?thesis by simp
  next
    case (Some v)
    obtain m t where mt: "v = (m, t)" by fastforce
    then have m: "map_of acc i = Some (m, t)" using Some by simp
    note f = tally_inv_Some[OF assms m]
    obtain r where r: "r \<in> set rs" "category_id digest keys r = Some i" using counted_pos[OF f(2)] by blast
    have "(i, n, s) \<in> set acc \<longleftrightarrow> n = m \<and> s = t"
      using m map_of_eq_Some_iff[OF dist, of i "(n, s)"] by auto
    then show ?thesis using f r by metis
  qed
  then show ?thesis by auto
qed

lemma byDominance_permuted:
  assumes "mset es = mset es'" "distinct (map fst es)"
  shows "byDominance n es = byDominance n es'"
  unfolding byDominance_def
proof (rule sort_key_permuted[OF assms(1)])
  have "distinct (map snd (map (\<lambda>(i, e). (- int (n e), i)) es))" using assms(2) by (simp add: comp_def case_prod_beta)
  then show "distinct (map (\<lambda>(i, e). (- int (n e), i)) es)" by (metis distinct_map)
qed

lemma counted_mset: "mset rs = mset rs' \<Longrightarrow> counted digest keys rs i = counted digest keys rs' i"
  unfolding counted_def by (metis mset_filter size_mset)

lemma tallyCategory_permuted:
  assumes perm: "mset rs = mset rs'" and r: "tallyCategory digest rs keys = Inr es"
  shows "tallyCategory digest rs' keys = Inr es"
proof -
  obtain acc where acc: "tally_loop digest keys [] rs = Inr acc" "es = byDominance fst acc"
    using r by (auto simp: tallyCategory_def and_then_Inr_iff)
  have inv: "tally_inv digest keys acc rs" using tally_loop_inv[OF tally_inv_Nil acc(1)] by simp
  have sets: "set rs = set rs'" using perm by (metis mset_eq_setD)
  then have "no_collision digest keys rs'" using tally_inv_no_collision[OF inv] by (simp add: no_collision_def)
  then obtain acc' where acc': "tally_loop digest keys [] rs' = Inr acc'"
    using tally_loop_total[OF tally_inv_Nil, of digest keys rs'] by auto
  have inv': "tally_inv digest keys acc' rs'" using tally_loop_inv[OF tally_inv_Nil acc'] by simp
  have "set acc = set acc'"
    unfolding tally_inv_set[OF inv] tally_inv_set[OF inv'] sets counted_mset[OF perm] ..
  moreover have "distinct (map fst acc)" "distinct (map fst acc')" using inv inv' by (simp_all add: tally_inv_def)
  ultimately have "mset acc = mset acc'" "distinct (map fst acc)" by (metis distinct_map set_eq_iff_mset_eq_distinct, simp)
  then show ?thesis using acc acc' byDominance_permuted[of acc acc' fst] by (simp add: tallyCategory_def)
qed

lemma sum_counted:
  assumes "finite I"
  shows "(\<Sum>i\<in>I. counted digest keys rs i) = length (filter (\<lambda>r. \<exists>i\<in>I. category_id digest keys r = Some i) rs)"
proof (induction rs)
  case (Cons r rs)
  have "(\<Sum>i\<in>I. counted digest keys (r # rs) i) =
      (\<Sum>i\<in>I. (if category_id digest keys r = Some i then 1 else 0) + counted digest keys rs i)"
    by (rule sum.cong) (auto simp: counted_def)
  also have "\<dots> = (\<Sum>i\<in>I. if category_id digest keys r = Some i then 1 else 0) + (\<Sum>i\<in>I. counted digest keys rs i)"
    by (simp add: sum.distrib)
  also have "(\<Sum>i\<in>I. if category_id digest keys r = Some i then 1 else 0) =
      (if \<exists>i\<in>I. category_id digest keys r = Some i then 1 else (0::nat))"
    using assms by (cases "category_id digest keys r") (auto simp: sum.delta)
  finally show ?case using Cons.IH by simp
qed (simp add: counted_def)

lemma tallyCategory_facts:
  assumes "tallyCategory digest rs keys = Inr es"
  shows "distinct (map fst es)"
    "set es = {(i, n, s). 0 < counted digest keys rs i \<and> n = counted digest keys rs i \<and>
      (\<exists>r\<in>set rs. category_id digest keys r = Some i \<and> projection r keys = s) \<and>
      (\<forall>r\<in>set rs. category_id digest keys r = Some i \<longrightarrow> projection r keys = s)}"
    "sum_list (map (fst \<circ> snd) es) \<le> length rs"
proof -
  obtain acc where acc: "tally_loop digest keys [] rs = Inr acc" "es = byDominance fst acc"
    using assms by (auto simp: tallyCategory_def and_then_Inr_iff)
  have inv: "tally_inv digest keys acc rs" using tally_loop_inv[OF tally_inv_Nil acc(1)] by simp
  have mset: "mset es = mset acc" using acc(2) by (simp add: byDominance_def)
  then have sets: "set es = set acc" by (metis mset_eq_setD)
  have "mset (map fst es) = mset (map fst acc)" using mset by simp
  then show dist: "distinct (map fst es)" using tally_inv_distinct[OF inv] by (metis mset_eq_imp_distinct_iff)
  show set_es: "set es = {(i, n, s). 0 < counted digest keys rs i \<and> n = counted digest keys rs i \<and>
      (\<exists>r\<in>set rs. category_id digest keys r = Some i \<and> projection r keys = s) \<and>
      (\<forall>r\<in>set rs. category_id digest keys r = Some i \<longrightarrow> projection r keys = s)}"
    unfolding sets by (rule tally_inv_set[OF inv])
  have "map (fst \<circ> snd) es = map (counted digest keys rs) (map fst es)"
    using set_es by auto
  then have "sum_list (map (fst \<circ> snd) es) = sum_list (map (counted digest keys rs) (map fst es))" by (rule arg_cong)
  also have "\<dots> = (\<Sum>i\<in>set (map fst es). counted digest keys rs i)" by (rule sum_list_distinct_conv_sum_set[OF dist])
  also have "\<dots> \<le> length rs" by (subst sum_counted) auto
  finally show "sum_list (map (fst \<circ> snd) es) \<le> length rs" .
qed

lemma projection_nonempty: "category_id digest keys r = Some i \<Longrightarrow> projection r keys \<noteq> []"
  by (auto simp: category_id_Some categoryOf_def Let_def split: if_splits)

lemma buildObservedMixtures_Inr:
  assumes "buildObservedMixtures digest rs = Inr (Some om)"
  obtains hw nw where "tallyCategory digest rs HOST_HARDWARE_SPEC_KEYS = Inr hw"
    "tallyCategory digest rs HOST_NETWORK_SPEC_KEYS = Inr nw" "rs \<noteq> []"
    "om = \<lparr>om_sandboxes = length rs, om_hostHardware = map hardware_entry hw, om_hostNetwork = map network_entry nw\<rparr>"
  using assms by (auto simp: buildObservedMixtures_def and_then_Inr_iff split: if_splits)

lemma entry_simps [simp]:
  "fst (hardware_entry e) = fst e" "hw_count (snd (hardware_entry e)) = fst (snd e)" "hw_specs (snd (hardware_entry e)) = snd (snd e)"
  "hw_specMatched (snd (hardware_entry e)) = computeSpecMatched (snd (snd e))"
  "fst (network_entry e) = fst e" "nw_count (snd (network_entry e)) = fst (snd e)" "nw_specs (snd (network_entry e)) = snd (snd e)"
  by (simp_all add: hardware_entry_def network_entry_def split: prod.split)

lemma case_entry:
  "(case hardware_entry e of (i, h) \<Rightarrow> P i h) = P (fst e) (snd (hardware_entry e))"
  "(case network_entry e of (i, n) \<Rightarrow> Q i n) = Q (fst e) (snd (network_entry e))"
  by (simp_all add: case_prod_beta)

text \<open>Every reading's ids are keys of the mixtures of the readings.\<close>

lemma mixture_ids_resolve:
  assumes "buildObservedMixtures digest rs = Inr (Some om)" "r \<in> set rs"
  shows "resolves (map fst (om_hostHardware om)) (fst (observedMixtureIds digest r))"
    "resolves (map fst (om_hostNetwork om)) (snd (observedMixtureIds digest r))"
proof -
  obtain hw nw where t: "tallyCategory digest rs HOST_HARDWARE_SPEC_KEYS = Inr hw"
    "tallyCategory digest rs HOST_NETWORK_SPEC_KEYS = Inr nw"
    "om = \<lparr>om_sandboxes = length rs, om_hostHardware = map hardware_entry hw, om_hostNetwork = map network_entry nw\<rparr>"
    using buildObservedMixtures_Inr[OF assms(1)] by metis
  have mem: "i \<in> fst ` set es" if tc: "tallyCategory digest rs keys = Inr es" and ci: "category_id digest keys r = Some i" for keys es i
  proof -
    obtain acc where acc: "tally_loop digest keys [] rs = Inr acc"
      using tc by (auto simp: tallyCategory_def and_then_Inr_iff)
    have inv: "tally_inv digest keys acc rs" using tally_loop_inv[OF tally_inv_Nil acc] by simp
    have "0 < counted digest keys rs i" using assms(2) ci counted_0[of digest keys rs i r] by (cases "counted digest keys rs i") auto
    moreover have "\<forall>r'\<in>set rs. category_id digest keys r' = Some i \<longrightarrow> projection r' keys = projection r keys"
      using tally_inv_no_collision[OF inv] assms(2) ci unfolding no_collision_def by (metis option.distinct(1))
    ultimately have "(i, counted digest keys rs i, projection r keys) \<in> set es"
      unfolding tallyCategory_facts(2)[OF tc] using assms(2) ci by blast
    then show ?thesis by force
  qed
  show "resolves (map fst (om_hostHardware om)) (fst (observedMixtureIds digest r))"
    using mem[OF t(1)] t(3)
    by (cases "category_id digest HOST_HARDWARE_SPEC_KEYS r")
      (auto simp: resolves_def observedMixtureIds_def category_id_def comp_def image_iff)
  show "resolves (map fst (om_hostNetwork om)) (snd (observedMixtureIds digest r))"
    using mem[OF t(2)] t(3)
    by (cases "category_id digest HOST_NETWORK_SPEC_KEYS r")
      (auto simp: resolves_def observedMixtureIds_def category_id_def comp_def image_iff)
qed

lemma mixtures_narrow_built:
  assumes "buildObservedMixtures digest rs = Inr (Some om)"
  shows "mixtures_narrow om"
proof -
  obtain hw nw where t: "tallyCategory digest rs HOST_HARDWARE_SPEC_KEYS = Inr hw"
    "tallyCategory digest rs HOST_NETWORK_SPEC_KEYS = Inr nw" "rs \<noteq> []"
    "om = \<lparr>om_sandboxes = length rs, om_hostHardware = map hardware_entry hw, om_hostNetwork = map network_entry nw\<rparr>"
    using buildObservedMixtures_Inr[OF assms] by metis
  have each: "1 \<le> fst (snd e) \<and> snd (snd e) \<noteq> []" if "tallyCategory digest rs keys = Inr es" "e \<in> set es" for keys es e
    using that(2) projection_nonempty unfolding tallyCategory_facts(2)[OF that(1)] by fastforce
  have sums: "sum_list (map (fst \<circ> snd) es) \<le> length rs" if "tallyCategory digest rs keys = Inr es" for keys es
    using tallyCategory_facts(3)[OF that] .
  have "1 \<le> length rs" using t(3) by (cases rs) auto
  then show ?thesis
    using each[OF t(1)] each[OF t(2)] sums[OF t(1)] sums[OF t(2)] t(4)
    by (auto simp: mixtures_narrow_def list_all_iff case_entry comp_def)
qed

section \<open>Properties\<close>

text \<open>The order of the document: more sandboxes first, equal counts by id.\<close>

definition dominates :: "('a \<Rightarrow> nat) \<Rightarrow> string \<times> 'a \<Rightarrow> string \<times> 'a \<Rightarrow> bool" where
  "dominates n x y \<longleftrightarrow> n (snd y) < n (snd x) \<or> n (snd x) = n (snd y) \<and> fst x < fst y"

lemma byDominance_sorted:
  assumes "distinct (map fst es)"
  shows "sorted_wrt (dominates n) (byDominance n es)"
proof -
  let ?key = "\<lambda>(i, e). (- int (n e), i :: string)"
  have sorted: "sorted (map ?key (byDominance n es))" unfolding byDominance_def by (rule sorted_sort_key)
  have "mset (map fst (byDominance n es)) = mset (map fst es)" by (simp add: byDominance_def)
  then have "distinct (map fst (byDominance n es))" using assms by (metis mset_eq_imp_distinct_iff)
  moreover have "map snd (map ?key (byDominance n es)) = map fst (byDominance n es)" by (simp add: case_prod_beta)
  ultimately have "distinct (map ?key (byDominance n es))" by (metis distinct_map)
  then have "sorted_wrt (<) (map ?key (byDominance n es))" using sorted by (simp add: strict_sorted_iff)
  then show ?thesis
    unfolding sorted_wrt_map by (rule sorted_wrt_mono_rel[rotated]) (auto simp: dominates_def case_prod_beta)
qed

lemma tallyCategory_sorted:
  assumes "tallyCategory digest rs keys = Inr es"
  shows "sorted_wrt (dominates fst) es"
proof -
  obtain acc where acc: "tally_loop digest keys [] rs = Inr acc" "es = byDominance fst acc"
    using assms by (auto simp: tallyCategory_def and_then_Inr_iff)
  then show ?thesis using byDominance_sorted tally_inv_distinct[OF tally_loop_inv[OF tally_inv_Nil acc(1)]] by simp
qed

lemma tallyCategory_entry:
  assumes "tallyCategory digest rs keys = Inr es"
  shows "(i, n, s) \<in> set es \<longleftrightarrow> (\<exists>r\<in>set rs. category_id digest keys r = Some i) \<and>
    n = length (filter (\<lambda>r. category_id digest keys r = Some i) rs) \<and>
    (\<forall>r\<in>set rs. category_id digest keys r = Some i \<longrightarrow> projection r keys = s)"
  unfolding tallyCategory_facts(2)[OF assms] by (auto simp: counted_def filter_empty_conv)

text \<open>
  Property C17. The mixtures of a provider count its readings and pass the checks of the schema: the
  hardware listed is exactly the hardware some reading hashes to, with the number of those readings as
  its count, the specs every one of them discloses, so that two different machines are never folded
  into one, and the verdict on those specs; likewise for networks; and both are listed in dominance
  order, the larger count first and equal counts by id.
\<close>

theorem mixtures_count_readings:
  assumes "buildObservedMixtures digest readings = Inr (Some om)"
  shows "mixtures_narrow om \<and> om_sandboxes om = length readings \<and>
    sorted_wrt (dominates hw_count) (om_hostHardware om) \<and> sorted_wrt (dominates nw_count) (om_hostNetwork om) \<and>
    (\<forall>i h. (i, h) \<in> set (om_hostHardware om) \<longleftrightarrow>
       (\<exists>r\<in>set readings. fst (observedMixtureIds digest r) = Some i) \<and>
       hw_count h = length (filter (\<lambda>r. fst (observedMixtureIds digest r) = Some i) readings) \<and>
       (\<forall>r\<in>set readings. fst (observedMixtureIds digest r) = Some i \<longrightarrow> projection r HOST_HARDWARE_SPEC_KEYS = hw_specs h) \<and>
       hw_specMatched h = computeSpecMatched (hw_specs h)) \<and>
    (\<forall>i w. (i, w) \<in> set (om_hostNetwork om) \<longleftrightarrow>
       (\<exists>r\<in>set readings. snd (observedMixtureIds digest r) = Some i) \<and>
       nw_count w = length (filter (\<lambda>r. snd (observedMixtureIds digest r) = Some i) readings) \<and>
       (\<forall>r\<in>set readings. snd (observedMixtureIds digest r) = Some i \<longrightarrow> projection r HOST_NETWORK_SPEC_KEYS = nw_specs w))"
proof -
  obtain hw nw where t: "tallyCategory digest readings HOST_HARDWARE_SPEC_KEYS = Inr hw"
    "tallyCategory digest readings HOST_NETWORK_SPEC_KEYS = Inr nw"
    "om = \<lparr>om_sandboxes = length readings, om_hostHardware = map hardware_entry hw, om_hostNetwork = map network_entry nw\<rparr>"
    using buildObservedMixtures_Inr[OF assms] by metis
  have ids: "fst (observedMixtureIds digest r) = category_id digest HOST_HARDWARE_SPEC_KEYS r"
    "snd (observedMixtureIds digest r) = category_id digest HOST_NETWORK_SPEC_KEYS r" for r
    by (simp_all add: observedMixtureIds_def category_id_def)
  have "(\<lambda>x y. dominates hw_count (hardware_entry x) (hardware_entry y)) = dominates fst"
    "(\<lambda>x y. dominates nw_count (network_entry x) (network_entry y)) = dominates fst"
    by (simp_all add: fun_eq_iff dominates_def)
  then have sorted: "sorted_wrt (dominates hw_count) (om_hostHardware om)" "sorted_wrt (dominates nw_count) (om_hostNetwork om)"
    using tallyCategory_sorted[OF t(1)] tallyCategory_sorted[OF t(2)] t(3) by (simp_all add: sorted_wrt_map)
  have hw: "(i, h) \<in> set (om_hostHardware om) \<longleftrightarrow>
      (i, hw_count h, hw_specs h) \<in> set hw \<and> hw_specMatched h = computeSpecMatched (hw_specs h)" for i h
    using t(3) by (cases h) (force simp: hardware_entry_def)
  have nw: "(i, w) \<in> set (om_hostNetwork om) \<longleftrightarrow> (i, nw_count w, nw_specs w) \<in> set nw" for i w
    using t(3) by (cases w) (force simp: network_entry_def)
  show ?thesis
    unfolding hw nw ids tallyCategory_entry[OF t(1)] tallyCategory_entry[OF t(2)]
    using sorted mixtures_narrow_built[OF assms] t(3) by simp
qed

text \<open>
  The order in which shards arrive never shows in the mixtures: permuted readings that
  merge give the same document, and one order merges exactly when the other does.
\<close>

theorem mixtures_order_independent:
  assumes "mset readings = mset readings'"
  shows "buildObservedMixtures digest readings = Inr om \<longleftrightarrow> buildObservedMixtures digest readings' = Inr om"
proof -
  have one: "buildObservedMixtures digest rs' = Inr om"
    if perm: "mset rs = mset rs'" and b: "buildObservedMixtures digest rs = Inr om" for rs rs'
  proof (cases om)
    case None
    then have "rs = []" using b by (auto simp: buildObservedMixtures_def and_then_Inr_iff split: if_splits)
    then show ?thesis using perm None by (simp add: buildObservedMixtures_def)
  next
    case (Some m)
    obtain hw nw where t: "tallyCategory digest rs HOST_HARDWARE_SPEC_KEYS = Inr hw"
      "tallyCategory digest rs HOST_NETWORK_SPEC_KEYS = Inr nw" "rs \<noteq> []"
      "m = \<lparr>om_sandboxes = length rs, om_hostHardware = map hardware_entry hw, om_hostNetwork = map network_entry nw\<rparr>"
      using buildObservedMixtures_Inr[OF b[unfolded Some]] by metis
    have "rs' \<noteq> []" "length rs' = length rs" using perm t(3) by (auto dest: mset_eq_length)
    then show ?thesis
      using tallyCategory_permuted[OF perm t(1)] tallyCategory_permuted[OF perm t(2)] t(4) Some
      by (simp add: buildObservedMixtures_def)
  qed
  show ?thesis using one[OF assms] one[OF assms[symmetric]] by blast
qed

definition example_readings :: "specs list" where
  "example_readings =
     [[(''vcpus'', SpecNumber 4), (''memoryGb'', SpecNumber 8)], [(''cpuModel'', SpecText ''x'')],
      [(''memoryGb'', SpecNumber 8), (''vcpus'', SpecNumber 4)]]"

lemma example_mixtures:
  "buildObservedMixtures (\<lambda>s. fst (hd s)) example_readings = Inr (Some
     \<lparr>om_sandboxes = 3,
      om_hostHardware =
        [(''memoryGb'', \<lparr>hw_count = 2, hw_specs = [(''memoryGb'', SpecNumber 8), (''vcpus'', SpecNumber 4)], hw_specMatched = Some True\<rparr>),
         (''cpuModel'', \<lparr>hw_count = 1, hw_specs = [(''cpuModel'', SpecText ''x'')], hw_specMatched = None\<rparr>)],
      om_hostNetwork = []\<rparr>)"
  by (simp add: buildObservedMixtures_def example_readings_def tallyCategory_def categoryOf_def projection_def List.map_filter_def
      HOST_HARDWARE_SPEC_KEYS_def HOST_NETWORK_SPEC_KEYS_def byDominance_def hardware_entry_def computeSpecMatched_def
      number_spec_def TARGET_SPEC_def)

lemma mixtures_count_readings_witness:
  "\<exists>om. buildObservedMixtures (\<lambda>s. fst (hd s)) example_readings = Inr (Some om) \<and> mixtures_narrow om \<and>
    map (\<lambda>(i, h). (i, hw_count h)) (om_hostHardware om) = [(''memoryGb'', 2), (''cpuModel'', 1)] \<and>
    sorted_wrt (dominates hw_count) (om_hostHardware om)"
  using mixtures_count_readings[OF example_mixtures] example_mixtures by simp

lemma mixtures_order_independent_witness:
  "\<exists>om. buildObservedMixtures (\<lambda>s. fst (hd s)) (rev example_readings) = Inr (Some om) \<and> om_sandboxes om = 3"
proof -
  have "mset example_readings = mset (rev example_readings)" by simp
  from mixtures_order_independent[OF this] example_mixtures
  have "buildObservedMixtures (\<lambda>s. fst (hd s)) (rev example_readings) =
    Inr (Some \<lparr>om_sandboxes = 3,
      om_hostHardware =
        [(''memoryGb'', \<lparr>hw_count = 2, hw_specs = [(''memoryGb'', SpecNumber 8), (''vcpus'', SpecNumber 4)], hw_specMatched = Some True\<rparr>),
         (''cpuModel'', \<lparr>hw_count = 1, hw_specs = [(''cpuModel'', SpecText ''x'')], hw_specMatched = None\<rparr>)],
      om_hostNetwork = []\<rparr>)" by blast
  then show ?thesis by simp
qed

end
