(* ===== verification/Merge.thy ===== *)
theory Merge
  imports Mixtures
begin

text \<open>
  \<open>packages/results/src/lib/aggregate.ts\<close>: the shards of one run, one sandbox each, merged into the
  Run that is published. The properties say that what the merge builds passes the schema's checks and
  keeps the samples of every replicate, and how it folds the verdicts.
\<close>

section \<open>One metric\<close>

type_synonym contribution = "metric_result \<times> mixture_ids"

definition isDerivedMetric :: "merge_services \<Rightarrow> metric_result \<Rightarrow> bool" where
  "isDerivedMetric S m \<longleftrightarrow> mr_derived m \<or> (case metricOf S (metricId m) of None \<Rightarrow> False | Some d \<Rightarrow> md_derived d)"

definition with_metric_ids :: "mixture_ids \<Rightarrow> metric_result \<Rightarrow> metric_result" where
  "with_metric_ids ids m = m\<lparr>
     mr_hostHardwareId := (case fst ids of None \<Rightarrow> mr_hostHardwareId m | Some i \<Rightarrow> Some i),
     mr_hostNetworkId := (case snd ids of None \<Rightarrow> mr_hostNetworkId m | Some i \<Rightarrow> Some i)\<rparr>"

definition metric_slice :: "nat \<times> contribution \<Rightarrow> replicate_slice" where
  "metric_slice c = (case c of (i, (m, ids)) \<Rightarrow>
     \<lparr>rep_index = i, rep_samples = samples m, rep_ptsSampleSource = mr_ptsSampleSource m,
      rep_hostHardwareId = fst ids, rep_hostNetworkId = snd ids\<rparr>)"

text \<open>The contributions by replicate; a read of an empty map would give \<open>undefined\<close>.\<close>

definition mergeMetricReplicates :: "(nat \<times> contribution) list \<Rightarrow> merge_error + metric_result" where
  "mergeMetricReplicates byReplicate =
     (case sort_key fst byReplicate of
        [] \<Rightarrow> Inl (BadAggregate UndefinedRead)
      | [(i, (m, ids))] \<Rightarrow> Inr (with_metric_ids ids m)
      | (i, (m, ids)) # c # cs \<Rightarrow>
          let reps = map metric_slice ((i, (m, ids)) # c # cs); pooled = concat (map rep_samples reps)
          in case aggregate pooled of
               Inl e \<Rightarrow> Inl (BadAggregate e)
             | Inr a \<Rightarrow> Inr (m\<lparr>samples := pooled, aggregates_of := a, mr_ptsSampleSource := None, replicates := Some reps\<rparr>))"

section \<open>What one slice adds\<close>

text \<open>The metrics by id and replicate: within one replicate the first of an id stays.\<close>

fun add_metrics :: "merge_services \<Rightarrow> nat \<Rightarrow> mixture_ids \<Rightarrow> (string \<times> (nat \<times> contribution) list) list \<Rightarrow>
  metric_result list \<Rightarrow> (string \<times> (nat \<times> contribution) list) list" where
  "add_metrics S index ids acc [] = acc"
| "add_metrics S index ids acc (m # ms) =
     (if isDerivedMetric S m then add_metrics S index ids acc ms
      else
        let byReplicate = (case map_of acc (metricId m) of None \<Rightarrow> [] | Some cs \<Rightarrow> cs)
        in add_metrics S index ids
             (if index \<in> set (map fst byReplicate) then acc
              else AList.update (metricId m) (byReplicate @ [(index, (m, ids))]) acc) ms)"

definition scope_text :: "gap_scope \<Rightarrow> string" where
  "scope_text s = (case s of SuiteGap \<Rightarrow> ''suite'' | OperationGap \<Rightarrow> ''operation'')"

definition outcome_text :: "gap_outcome \<Rightarrow> string" where
  "outcome_text oc = (case oc of Skipped \<Rightarrow> ''skipped'' | FailedGap \<Rightarrow> ''failed'')"

definition gap_key :: "result_gap \<Rightarrow> string" where
  "gap_key g =
     scope_text (gap_scope_of g) @ [NUL] @ gap_id g @ [NUL] @ outcome_text (gap_outcome_of g) @ [NUL] @ gap_reason g"

definition preferCause :: "merge_services \<Rightarrow> gap_cause option \<Rightarrow> gap_cause \<Rightarrow> bool" where
  "preferCause S current new \<longleftrightarrow> (case current of None \<Rightarrow> True | Some c \<Rightarrow> causeKey S new < causeKey S c)"

fun add_gaps :: "merge_services \<Rightarrow> (string \<times> result_gap) list \<Rightarrow> result_gap list \<Rightarrow> (string \<times> result_gap) list" where
  "add_gaps S acc [] = acc"
| "add_gaps S acc (g # gs) =
     add_gaps S
       (case map_of acc (gap_key g) of
          None \<Rightarrow> AList.update (gap_key g) g acc
        | Some existing \<Rightarrow>
            (case gap_cause_of g of
               None \<Rightarrow> acc
             | Some c \<Rightarrow> if preferCause S (gap_cause_of existing) c
                         then AList.update (gap_key g) (existing\<lparr>gap_cause_of := Some c\<rparr>) acc else acc))
       gs"

fun add_stragglers :: "uncatalogued_result list \<Rightarrow> uncatalogued_result list \<Rightarrow> uncatalogued_result list" where
  "add_stragglers acc [] = acc"
| "add_stragglers acc (u # us) = add_stragglers (if un_id u \<in> set (map un_id acc) then acc else acc @ [u]) us"

definition foldVerdict :: "bool option \<Rightarrow> bool option \<Rightarrow> bool option" where
  "foldVerdict current new =
     (if new = Some False \<or> current = Some False then Some False else if new = Some True then Some True else current)"

text \<open>Evidence by cell, one record each, and by sandbox, one cell each.\<close>

fun add_evidence :: "('r \<Rightarrow> cost_cell) \<Rightarrow> ('r \<Rightarrow> string option) \<Rightarrow> (string \<Rightarrow> merge_error) \<Rightarrow> (string \<Rightarrow> merge_error) \<Rightarrow>
  (string \<times> 'r) list \<times> (string \<times> string) list \<Rightarrow> 'r list \<Rightarrow> merge_error + (string \<times> 'r) list \<times> (string \<times> string) list" where
  "add_evidence cell sandbox conflicting reused st [] = Inr st"
| "add_evidence cell sandbox conflicting reused (cells, sandboxes) (r # rs) =
     (let key = providerCostCellKey (cell r)
      in if (case map_of cells key of None \<Rightarrow> False | Some existing \<Rightarrow> existing \<noteq> r) then Inl (conflicting key)
         else
           let cells' = (if map_of cells key = None then AList.update key r cells else cells)
           in case sandbox r of
                None \<Rightarrow> add_evidence cell sandbox conflicting reused (cells', sandboxes) rs
              | Some sb \<Rightarrow>
                  if (case map_of sandboxes sb of None \<Rightarrow> False | Some prior \<Rightarrow> prior \<noteq> key) then Inl (reused sb)
                  else add_evidence cell sandbox conflicting reused (cells', AList.update sb key sandboxes) rs)"

definition add_cost :: "(string \<times> cost_record) list \<times> (string \<times> string) list \<Rightarrow> cost_record list \<Rightarrow>
  merge_error + (string \<times> cost_record) list \<times> (string \<times> string) list" where
  "add_cost = add_evidence cost_cell_of cost_sandboxId ConflictingCost CostSandboxReused"

definition add_artifacts :: "(string \<times> artifact_evidence) list \<times> (string \<times> string) list \<Rightarrow> artifact_evidence list \<Rightarrow>
  merge_error + (string \<times> artifact_evidence) list \<times> (string \<times> string) list" where
  "add_artifacts = add_evidence ae_cell (\<lambda>e. Some (ae_sandboxId e)) ConflictingArtifact ArtifactSandboxReused"

record merge_state =
  ms_metrics :: "(string \<times> (nat \<times> contribution) list) list"
  ms_gaps :: "(string \<times> result_gap) list"
  ms_suites :: "string list"
  ms_uncatalogued :: "uncatalogued_result list"
  ms_specMatched :: "bool option"
  ms_readings :: "specs list"
  ms_hosts :: "(host_metadata \<times> mixture_ids) list"
  ms_cost :: "(string \<times> cost_record) list \<times> (string \<times> string) list"
  ms_artifacts :: "(string \<times> artifact_evidence) list \<times> (string \<times> string) list"

definition empty_merge :: merge_state where
  "empty_merge = \<lparr>ms_metrics = [], ms_gaps = [], ms_suites = [], ms_uncatalogued = [], ms_specMatched = None, ms_readings = [],
     ms_hosts = [], ms_cost = ([], []), ms_artifacts = ([], [])\<rparr>"

definition option_list :: "'a list option \<Rightarrow> 'a list" where
  "option_list xs = (case xs of None \<Rightarrow> [] | Some ys \<Rightarrow> ys)"

definition merge_slice :: "merge_services \<Rightarrow> merge_state \<Rightarrow> provider_run \<times> nat \<Rightarrow> merge_error + merge_state" where
  "merge_slice S st entry =
     (case entry of (slice, index) \<Rightarrow>
        let ids = observedMixtureIds (contentId S) (pv_observedSpecs slice)
        in and_then (add_cost (ms_cost st) (option_list (pv_costEvidence slice))) (\<lambda>cost.
           and_then (add_artifacts (ms_artifacts st) (option_list (pv_artifactEvidence slice))) (\<lambda>artifacts.
             Inr \<lparr>ms_metrics = add_metrics S index ids (ms_metrics st) (pv_metrics slice),
                  ms_gaps = add_gaps S (ms_gaps st) (pv_gaps slice),
                  ms_suites = ms_suites st @ pv_suitesCovered slice,
                  ms_uncatalogued = add_stragglers (ms_uncatalogued st) (pv_uncatalogued slice),
                  ms_specMatched = foldVerdict (ms_specMatched st) (pv_specMatched slice),
                  ms_readings = ms_readings st @ (if providerReportedNothing slice then [] else [pv_observedSpecs slice]),
                  ms_hosts = ms_hosts st @ map (\<lambda>r. (r, ids)) (option_list (pv_hostMetadata slice)),
                  ms_cost = cost, ms_artifacts = artifacts\<rparr>)))"

fun merge_slices :: "merge_services \<Rightarrow> merge_state \<Rightarrow> (provider_run \<times> nat) list \<Rightarrow> merge_error + merge_state" where
  "merge_slices S st [] = Inr st"
| "merge_slices S st (e # es) = and_then (merge_slice S st e) (\<lambda>st'. merge_slices S st' es)"

section \<open>One provider\<close>

definition merged_verdict :: "bool option \<Rightarrow> observed_mixtures option \<Rightarrow> bool option" where
  "merged_verdict verdict mixtures =
     fold (\<lambda>(i, h) v. foldVerdict v (hw_specMatched h))
       (case mixtures of None \<Rightarrow> [] | Some om \<Rightarrow> om_hostHardware om) verdict"

definition with_economics :: "merge_services \<Rightarrow> string \<Rightarrow> target_spec \<Rightarrow> metric_result list \<Rightarrow> merge_error + metric_result list" where
  "with_economics S providerId spec metrics =
     (case pricingOf S providerId of
        None \<Rightarrow> Inr metrics
      | Some pricing \<Rightarrow>
          if metrics = [] then Inr metrics
          else (case deriveEconomics pricing (map (\<lambda>m. (metricId m, agg_mean (aggregates_of m))) metrics) None spec of
                  Inl e \<Rightarrow> Inl (BadEconomics e)
                | Inr rows \<Rightarrow> Inr (metrics @ rows)))"

definition evidence_order :: "merge_services \<Rightarrow> cost_cell \<Rightarrow> string \<Rightarrow> string \<times> int \<times> string" where
  "evidence_order S c sandbox =
     (collation S (cc_suite c), (case cc_replicateIndex c of None \<Rightarrow> - 1 | Some i \<Rightarrow> int i), collation S sandbox)"

definition mergeProvider :: "merge_services \<Rightarrow> string \<Rightarrow> (provider_run \<times> nat) list \<Rightarrow> target_spec \<Rightarrow> bool \<Rightarrow>
  merge_error + provider_run" where
  "mergeProvider S providerId entries spec emitArtifactEvidence =
     and_then (merge_slices S empty_merge entries) (\<lambda>st.
     and_then (sequence (map (\<lambda>(i, byReplicate). mergeMetricReplicates byReplicate) (ms_metrics st))) (\<lambda>measured.
     and_then (buildObservedMixtures (contentId S) (ms_readings st)) (\<lambda>mixtures.
     and_then (with_economics S providerId spec measured) (\<lambda>metrics.
       Inr \<lparr>pv_id = providerId,
            pv_costEvidence = Some (sort_key (\<lambda>c. evidence_order S (cost_cell_of c)
              (case cost_sandboxId c of None \<Rightarrow> [] | Some sb \<Rightarrow> sb)) (map snd (fst (ms_cost st)))),
            pv_artifactEvidence = (if emitArtifactEvidence
              then Some (sort_key (\<lambda>e. evidence_order S (ae_cell e) (ae_sandboxId e)) (map snd (fst (ms_artifacts st)))) else None),
            pv_validated = (metrics \<noteq> []),
            pv_specMatched = merged_verdict (ms_specMatched st) mixtures,
            pv_observedSpecs = (case mixtures of None \<Rightarrow> [] | Some om \<Rightarrow> representativeSpecs om),
            pv_observedMixtures = mixtures,
            pv_hostMetadata = (let hosts = foldHostMetadata S (ms_hosts st) in if hosts = [] then None else Some hosts),
            pv_metrics = locale_sort S metricId metrics,
            pv_suitesCovered = locale_sort S (\<lambda>s. s) (insertion_order (ms_suites st)),
            pv_gaps = map snd (ms_gaps st),
            pv_uncatalogued = ms_uncatalogued st\<rparr>))))"

section \<open>All shards\<close>

definition shard_agrees :: "run_doc \<Rightarrow> run_doc \<Rightarrow> merge_error + unit" where
  "shard_agrees first run =
     reject_first
       [(run_id run \<noteq> run_id first \<or> run_sha run \<noteq> run_sha first, ShardIdentity),
        (run_targetSpec run \<noteq> run_targetSpec first, ShardTarget)]"

definition provider_slices :: "run_doc list \<Rightarrow> string \<Rightarrow> (provider_run \<times> nat) list" where
  "provider_slices runs i =
     concat (map (\<lambda>run. map (\<lambda>slice. (slice, case run_replicateIndex run of None \<Rightarrow> 0 | Some k \<Rightarrow> k))
       (filter (\<lambda>p. pv_id p = i) (run_providers run))) runs)"

definition merged_providers :: "merge_services \<Rightarrow> run_doc list \<Rightarrow> string list" where
  "merged_providers S runs = locale_sort S (\<lambda>s. s) (insertion_order (concat (map (\<lambda>run. map pv_id (run_providers run)) runs)))"

fun first_defined :: "('a \<Rightarrow> 'b option) \<Rightarrow> 'a list \<Rightarrow> 'b option" where
  "first_defined f [] = None"
| "first_defined f (x # xs) = (case f x of None \<Rightarrow> first_defined f xs | Some y \<Rightarrow> Some y)"

definition merged_document :: "merge_services \<Rightarrow> run_doc \<Rightarrow> run_doc list \<Rightarrow> bool \<Rightarrow> provider_run list \<Rightarrow> run_doc" where
  "merged_document S first runs emit providers = \<lparr>run_version = (if emit then 6 else 5), run_id = run_id first, run_sha = run_sha first,
     run_generatedAt = last (locale_sort S (\<lambda>s. s) (map run_generatedAt runs)),
     run_sourceRunUrl = first_defined run_sourceRunUrl runs, run_replicateIndex = None,
     run_experiment = None, run_targetSpec = run_targetSpec first, run_providers = providers\<rparr>"

definition aggregateRuns :: "merge_services \<Rightarrow> run_doc list \<Rightarrow> merge_error + run_doc" where
  "aggregateRuns S runs =
     (if list_ex (\<lambda>run. run_experiment run \<noteq> None) runs then Inl CompletedExperiment
      else case runs of
        [] \<Rightarrow> Inl NoShards
      | first # _ \<Rightarrow>
          let emit = list_all (\<lambda>run. 6 \<le> run_version run) runs
          in if \<not> emit \<and> list_ex (\<lambda>run. 6 \<le> run_version run) runs then Inl MixedVersions
             else and_then (reject_each (shard_agrees first) runs) (\<lambda>_.
                  and_then (sequence (map (\<lambda>i. mergeProvider S i (provider_slices runs i) (run_targetSpec first) emit)
                    (merged_providers S runs))) (\<lambda>providers.
                    case parseRun (merged_document S first runs emit providers) of
                      Inl v \<Rightarrow> Inl (MergedRunRejected v)
                    | Inr run \<Rightarrow> Inr run)))"

lemma aggregateRuns_Inr:
  assumes "aggregateRuns S runs = Inr run"
  obtains first emit providers where "first = hd runs"
    "sequence (map (\<lambda>i. mergeProvider S i (provider_slices runs i) (run_targetSpec first) emit) (merged_providers S runs)) = Inr providers"
    "run = merged_document S first runs emit providers" "run_narrow run = Inr ()"
proof (cases runs)
  case (Cons first rest)
  define emit where "emit = list_all (\<lambda>run. 6 \<le> run_version run) runs"
  have "and_then (reject_each (shard_agrees first) runs) (\<lambda>_.
      and_then (sequence (map (\<lambda>i. mergeProvider S i (provider_slices runs i) (run_targetSpec first) emit) (merged_providers S runs)))
        (\<lambda>providers. case parseRun (merged_document S first runs emit providers) of
           Inl v \<Rightarrow> Inl (MergedRunRejected v) | Inr run \<Rightarrow> Inr run)) = Inr run"
    using assms unfolding aggregateRuns_def emit_def Cons by (simp only: list.case Let_def sum.distinct split: if_split_asm)
  then obtain x providers where p: "sequence (map (\<lambda>i. mergeProvider S i (provider_slices runs i) (run_targetSpec first) emit)
      (merged_providers S runs)) = Inr providers"
    "(case parseRun (merged_document S first runs emit providers) of Inl v \<Rightarrow> Inl (MergedRunRejected v) | Inr run \<Rightarrow> Inr run) = Inr run"
    unfolding and_then_Inr_iff by blast
  show thesis
    by (rule that[OF _ p(1)]) (use Cons p(2) in \<open>auto simp: parseRun_def and_then_Inr_iff split: sum.splits\<close>)
qed (use assms in \<open>simp add: aggregateRuns_def\<close>)

section \<open>Lemmas: the pass over the slices\<close>

lemma merge_slice_Inr:
  assumes "merge_slice S st (slice, index) = Inr st'"
  shows "ms_metrics st' = add_metrics S index (observedMixtureIds (contentId S) (pv_observedSpecs slice)) (ms_metrics st) (pv_metrics slice)"
    "ms_gaps st' = add_gaps S (ms_gaps st) (pv_gaps slice)"
    "ms_specMatched st' = foldVerdict (ms_specMatched st) (pv_specMatched slice)"
    "ms_readings st' = ms_readings st @ (if providerReportedNothing slice then [] else [pv_observedSpecs slice])"
    "ms_hosts st' = ms_hosts st @ map (\<lambda>r. (r, observedMixtureIds (contentId S) (pv_observedSpecs slice))) (option_list (pv_hostMetadata slice))"
    "add_artifacts (ms_artifacts st) (option_list (pv_artifactEvidence slice)) = Inr (ms_artifacts st')"
    "add_cost (ms_cost st) (option_list (pv_costEvidence slice)) = Inr (ms_cost st')"
  using assms by (auto simp: merge_slice_def Let_def and_then_Inr_iff)

lemma merge_slices_induct [consumes 1, case_names start step]:
  assumes "merge_slices S st es = Inr st'" "P [] st"
    "\<And>before e s s'. set (before @ [e]) \<subseteq> set es \<Longrightarrow> P before s \<Longrightarrow> merge_slice S s e = Inr s' \<Longrightarrow> P (before @ [e]) s'"
  shows "P es st'"
proof -
  have "P (before @ es') st'" if "merge_slices S s es' = Inr st'" "P before s" "set (before @ es') \<subseteq> set es" for before es' s
    using that
  proof (induction es' arbitrary: before s)
    case (Cons e es')
    from Cons.prems(1) obtain s' where "merge_slice S s e = Inr s'" "merge_slices S s' es' = Inr st'"
      by (auto simp: and_then_Inr_iff)
    then show ?case using Cons.IH[of s' "before @ [e]"] Cons.prems assms(3)[of before e s s'] by simp
  qed simp
  from this[OF assms(1,2)] show ?thesis by simp
qed

text \<open>The metrics by id: every contribution is a metric of a slice, with that slice's ids.\<close>

definition metrics_inv :: "merge_services \<Rightarrow> (provider_run \<times> nat) list \<Rightarrow> (string \<times> (nat \<times> contribution) list) list \<Rightarrow> bool" where
  "metrics_inv S es acc \<longleftrightarrow>
     (\<forall>(i, cs)\<in>set acc. cs \<noteq> [] \<and> distinct (map fst cs) \<and>
        (\<forall>(k, (m, ids))\<in>set cs. \<exists>slice. (slice, k) \<in> set es \<and> m \<in> set (pv_metrics slice) \<and> metricId m = i \<and>
           ids = observedMixtureIds (contentId S) (pv_observedSpecs slice) \<and> \<not> isDerivedMetric S m))"

lemma set_AList_update: "x \<in> set (AList.update k v al) \<Longrightarrow> x = (k, v) \<or> x \<in> set al"
  by (induction al) (auto split: if_splits)

lemma add_metrics_inv:
  assumes "metrics_inv S es acc" "(slice, index) \<in> set es" "set ms \<subseteq> set (pv_metrics slice)"
  shows "metrics_inv S es (add_metrics S index (observedMixtureIds (contentId S) (pv_observedSpecs slice)) acc ms)"
  using assms(1,3)
proof (induction ms arbitrary: acc)
  case (Cons m ms)
  let ?ids = "observedMixtureIds (contentId S) (pv_observedSpecs slice)"
  let ?cs = "case map_of acc (metricId m) of None \<Rightarrow> [] | Some cs \<Rightarrow> cs"
  show ?case
  proof (cases "isDerivedMetric S m \<or> index \<in> set (map fst ?cs)")
    case True
    then show ?thesis using Cons by (auto simp: Let_def)
  next
    case False
    have old: "distinct (map fst ?cs) \<and> (\<forall>(k, (m', ids))\<in>set ?cs. \<exists>slice. (slice, k) \<in> set es \<and> m' \<in> set (pv_metrics slice) \<and>
        metricId m' = metricId m \<and> ids = observedMixtureIds (contentId S) (pv_observedSpecs slice) \<and> \<not> isDerivedMetric S m')"
    proof (cases "map_of acc (metricId m)")
      case (Some cs)
      then have "(metricId m, cs) \<in> set acc" by (rule map_of_SomeD)
      then show ?thesis using Cons.prems(1) Some unfolding metrics_inv_def by fastforce
    qed simp
    have "metrics_inv S es (AList.update (metricId m) (?cs @ [(index, (m, ?ids))]) acc)"
      unfolding metrics_inv_def
    proof (rule ballI)
      fix x assume "x \<in> set (AList.update (metricId m) (?cs @ [(index, (m, ?ids))]) acc)"
      from set_AList_update[OF this]
      show "case x of (i, cs) \<Rightarrow> cs \<noteq> [] \<and> distinct (map fst cs) \<and>
        (\<forall>(k, (m, ids))\<in>set cs. \<exists>slice. (slice, k) \<in> set es \<and> m \<in> set (pv_metrics slice) \<and> metricId m = i \<and>
           ids = observedMixtureIds (contentId S) (pv_observedSpecs slice) \<and> \<not> isDerivedMetric S m)"
      proof
        assume "x = (metricId m, ?cs @ [(index, (m, ?ids))])"
        then show ?thesis using old False assms(2) Cons.prems(2) by auto
      next
        assume "x \<in> set acc"
        then show ?thesis using Cons.prems(1) by (auto simp: metrics_inv_def)
      qed
    qed
    from Cons.IH[OF this] show ?thesis using False Cons.prems(2) by (simp add: Let_def)
  qed
qed simp

lemma metrics_inv_mono: "metrics_inv S es acc \<Longrightarrow> set es \<subseteq> set es' \<Longrightarrow> metrics_inv S es' acc"
  unfolding metrics_inv_def by fast

lemma merge_metrics_inv:
  assumes "merge_slices S empty_merge es = Inr st"
  shows "metrics_inv S es (ms_metrics st)"
  using assms
proof (induction rule: merge_slices_induct)
  case start
  then show ?case by (simp add: metrics_inv_def empty_merge_def)
next
  case (step before e s s')
  obtain slice index where e: "e = (slice, index)" by fastforce
  have "metrics_inv S (before @ [e]) (ms_metrics s)" using step.IH(1) by (rule metrics_inv_mono) auto
  from add_metrics_inv[OF this, of slice index "pv_metrics slice"]
  show ?case using merge_slice_Inr(1)[of S s slice index s'] step.hyps e step.prems by simp
qed

text \<open>The gaps: a gap text without NUL is determined by its key.\<close>

definition clean_gap :: "result_gap \<Rightarrow> bool" where
  "clean_gap g \<longleftrightarrow> NUL \<notin> set (gap_id g) \<and> NUL \<notin> set (gap_reason g)"

lemma append_sep_eq:
  assumes "x \<notin> set as" "x \<notin> set bs"
  shows "as @ x # cs = bs @ x # ds \<longleftrightarrow> as = bs \<and> cs = ds"
  using assms by (auto simp: append_eq_append_conv2 append_eq_Cons_conv Cons_eq_append_conv)

lemma gap_key_inj:
  assumes "gap_key g = gap_key h" "clean_gap g" "clean_gap h"
  shows "gap_scope_of g = gap_scope_of h \<and> gap_id g = gap_id h \<and> gap_outcome_of g = gap_outcome_of h \<and> gap_reason g = gap_reason h"
proof -
  have clean: "NUL \<notin> set (scope_text x)" "NUL \<notin> set (outcome_text y)" for x y
    by (auto simp: NUL_def scope_text_def outcome_text_def split: gap_scope.split gap_outcome.split)
  have "scope_text (gap_scope_of g) = scope_text (gap_scope_of h) \<and> gap_id g = gap_id h \<and>
      outcome_text (gap_outcome_of g) = outcome_text (gap_outcome_of h) \<and> gap_reason g = gap_reason h"
    using assms append_sep_eq[OF clean(1) clean(1)] append_sep_eq[OF clean(2) clean(2)]
      append_sep_eq[of NUL "gap_id g" "gap_id h"]
    by (simp add: gap_key_def clean_gap_def)
  then show ?thesis by (simp add: scope_text_def outcome_text_def split: gap_scope.splits gap_outcome.splits)
qed

definition gaps_inv :: "(string \<times> result_gap) list \<Rightarrow> bool" where
  "gaps_inv acc \<longleftrightarrow> (\<forall>(k, g)\<in>set acc. k = gap_key g \<and> gap_narrow g \<and> clean_gap g)"

lemma add_gaps_inv:
  assumes "gaps_inv acc" "\<forall>g\<in>set gs. gap_narrow g \<and> clean_gap g"
  shows "gaps_inv (add_gaps S acc gs)"
  using assms
proof (induction gs arbitrary: acc)
  case (Cons g gs)
  have update: "gaps_inv (AList.update (gap_key g) h acc)" if "gap_key h = gap_key g" "gap_narrow h" "clean_gap h" for h
    unfolding gaps_inv_def
  proof (rule ballI)
    fix x assume "x \<in> set (AList.update (gap_key g) h acc)"
    from set_AList_update[OF this] show "case x of (k, g) \<Rightarrow> k = gap_key g \<and> gap_narrow g \<and> clean_gap g"
      using that Cons.prems(1) by (auto simp: gaps_inv_def)
  qed
  show ?case
  proof (cases "map_of acc (gap_key g)")
    case None
    then show ?thesis using Cons.IH[OF update[of g]] Cons.prems(2) by simp
  next
    case (Some existing)
    then have "(gap_key g, existing) \<in> set acc" by (rule map_of_SomeD)
    then have ex: "gap_key existing = gap_key g" "gap_narrow existing" "clean_gap existing"
      using Cons.prems(1) by (auto simp: gaps_inv_def)
    show ?thesis
    proof (cases "gap_cause_of g")
      case None
      then show ?thesis using Some Cons by simp
    next
      fix c assume c: "gap_cause_of g = Some c"
      have same: "gap_scope_of existing = gap_scope_of g" "gap_outcome_of existing = gap_outcome_of g"
        using gap_key_inj[OF ex(1,3)] Cons.prems(2) by auto
      have "gaps_inv (AList.update (gap_key g) (existing\<lparr>gap_cause_of := Some c\<rparr>) acc)"
      proof (rule update)
        show "gap_key (existing\<lparr>gap_cause_of := Some c\<rparr>) = gap_key g" using ex(1) by (simp add: gap_key_def)
        show "gap_narrow (existing\<lparr>gap_cause_of := Some c\<rparr>)" using Cons.prems(2) c same by (auto simp: gap_narrow_def)
        show "clean_gap (existing\<lparr>gap_cause_of := Some c\<rparr>)" using ex(3) by (simp add: clean_gap_def)
      qed
      then show ?thesis using Some c Cons.IH Cons.prems by simp
    qed
  qed
qed simp

lemma merge_gaps_inv:
  assumes "merge_slices S empty_merge es = Inr st" "\<forall>(slice, k)\<in>set es. \<forall>g\<in>set (pv_gaps slice). gap_narrow g \<and> clean_gap g"
  shows "gaps_inv (ms_gaps st)"
  using assms(1)
proof (induction rule: merge_slices_induct)
  case start
  then show ?case by (simp add: gaps_inv_def empty_merge_def)
next
  case (step before e s s')
  obtain slice index where e: "e = (slice, index)" by fastforce
  have "\<forall>g\<in>set (pv_gaps slice). gap_narrow g \<and> clean_gap g" using assms(2) step.hyps e by fastforce
  then show ?case using merge_slice_Inr(2)[of S s slice index s'] step e add_gaps_inv by simp
qed

text \<open>The verdicts, readings and host records are those of the slices, in order.\<close>

lemma foldVerdict_simps [simp]:
  "foldVerdict v (Some False) = Some False" "foldVerdict (Some False) v = Some False"
  "foldVerdict v None = v" "v \<noteq> Some False \<Longrightarrow> foldVerdict v (Some True) = Some True"
  by (cases v; auto simp: foldVerdict_def)+

lemma merge_fields:
  assumes "merge_slices S empty_merge es = Inr st"
  shows "ms_specMatched st = fold (\<lambda>(slice, k) v. foldVerdict v (pv_specMatched slice)) es None"
    "ms_readings st = concat (map (\<lambda>(slice, k). if providerReportedNothing slice then [] else [pv_observedSpecs slice]) es)"
    "ms_hosts st = concat (map (\<lambda>(slice, k). map (\<lambda>r. (r, observedMixtureIds (contentId S) (pv_observedSpecs slice)))
       (option_list (pv_hostMetadata slice))) es)"
proof -
  have "ms_specMatched st = fold (\<lambda>(slice, k) v. foldVerdict v (pv_specMatched slice)) es None \<and>
    ms_readings st = concat (map (\<lambda>(slice, k). if providerReportedNothing slice then [] else [pv_observedSpecs slice]) es) \<and>
    ms_hosts st = concat (map (\<lambda>(slice, k). map (\<lambda>r. (r, observedMixtureIds (contentId S) (pv_observedSpecs slice)))
       (option_list (pv_hostMetadata slice))) es)"
    using assms
  proof (induction rule: merge_slices_induct)
    case start
    then show ?case by (simp add: empty_merge_def)
  next
    case (step before e s s')
    obtain slice index where e: "e = (slice, index)" by fastforce
    have "merge_slice S s (slice, index) = Inr s'" using step e by simp
    note m = merge_slice_Inr(3,4,5)[OF this]
    show ?case using step.IH m e by simp
  qed
  then show "ms_specMatched st = fold (\<lambda>(slice, k) v. foldVerdict v (pv_specMatched slice)) es None"
    "ms_readings st = concat (map (\<lambda>(slice, k). if providerReportedNothing slice then [] else [pv_observedSpecs slice]) es)"
    "ms_hosts st = concat (map (\<lambda>(slice, k). map (\<lambda>r. (r, observedMixtureIds (contentId S) (pv_observedSpecs slice)))
       (option_list (pv_hostMetadata slice))) es)" by blast+
qed

lemma merge_reading:
  assumes "merge_slices S empty_merge es = Inr st" "(slice, k) \<in> set es" "\<not> providerReportedNothing slice"
  shows "pv_observedSpecs slice \<in> set (ms_readings st)"
  using assms(2,3) unfolding merge_fields(2)[OF assms(1)] by force

lemma add_evidence_records:
  assumes "add_evidence cell sandbox cf ru st rs = Inr st'"
  shows "snd ` set (fst st') \<subseteq> snd ` set (fst st) \<union> set rs"
  using assms
proof (induction rs arbitrary: st)
  case (Cons r rs)
  obtain cells sandboxes where st: "st = (cells, sandboxes)" by fastforce
  let ?key = "providerCostCellKey (cell r)"
  let ?cells = "if map_of cells ?key = None then AList.update ?key r cells else cells"
  obtain sandboxes' where rest: "add_evidence cell sandbox cf ru (?cells, sandboxes') rs = Inr st'"
    using Cons.prems st by (auto simp: Let_def split: if_splits option.splits)
  have "snd ` set ?cells \<subseteq> snd ` set cells \<union> {r}" by (auto dest!: set_AList_update split: if_splits)
  moreover have "snd ` set (fst st') \<subseteq> snd ` set ?cells \<union> set rs" using Cons.IH[OF rest] by (simp only: fst_conv)
  ultimately have "snd ` set (fst st') \<subseteq> snd ` set cells \<union> {r} \<union> set rs" by blast
  then show ?case using st by (simp add: Un_commute)
qed simp

lemma merge_artifacts_from:
  assumes "merge_slices S empty_merge es = Inr st"
  shows "snd ` set (fst (ms_artifacts st)) \<subseteq> (\<Union>(slice, k)\<in>set es. set (option_list (pv_artifactEvidence slice)))"
  using assms
proof (induction rule: merge_slices_induct)
  case start
  then show ?case by (simp add: empty_merge_def)
next
  case (step before e s s')
  obtain slice index where e: "e = (slice, index)" by fastforce
  have "add_artifacts (ms_artifacts s) (option_list (pv_artifactEvidence slice)) = Inr (ms_artifacts s')"
    using merge_slice_Inr(6)[of S s slice index s'] step e by simp
  from add_evidence_records[OF this[unfolded add_artifacts_def]] show ?case using step.IH e by auto
qed

section \<open>Lemmas: the merged row\<close>

lemma with_ids_simps [simp]:
  "metricId (with_metric_ids ids m) = metricId m" "samples (with_metric_ids ids m) = samples m"
  "aggregates_of (with_metric_ids ids m) = aggregates_of m" "mr_ptsSampleSource (with_metric_ids ids m) = mr_ptsSampleSource m"
  "replicates (with_metric_ids ids m) = replicates m" "mr_derived (with_metric_ids ids m) = mr_derived m"
  by (simp_all add: with_metric_ids_def)

text \<open>A shard's row: no replicates, no host ids, and a verdict only with a reading of the machine.\<close>

definition shard_metric :: "metric_result \<Rightarrow> bool" where
  "shard_metric m \<longleftrightarrow> replicates m = None \<and> mr_hostHardwareId m = None \<and> mr_hostNetworkId m = None"

definition shard_row :: "provider_run \<Rightarrow> bool" where
  "shard_row p \<longleftrightarrow>
     provider_narrow p = Inr () \<and> list_all shard_metric (pv_metrics p) \<and> list_all clean_gap (pv_gaps p) \<and>
     list_all (\<lambda>h. hm_hostHardwareId h = None \<and> hm_hostNetworkId h = None) (option_list (pv_hostMetadata p)) \<and>
     (pv_specMatched p = None \<or> projection (pv_observedSpecs p) HOST_HARDWARE_SPEC_KEYS \<noteq> [])"

lemma and_then_unit: "and_then r f = Inr y \<longleftrightarrow> r = Inr () \<and> f () = Inr y"
  by (cases r) auto

lemma reject_each_wrapped:
  "reject_each (\<lambda>x. case f x of Inl e \<Rightarrow> Inl (c e) | Inr _ \<Rightarrow> Inr ()) xs = Inr () \<longleftrightarrow> (\<forall>x\<in>set xs. f x = Inr ())"
proof -
  have "(case f x of Inl e \<Rightarrow> Inl (c e) | Inr _ \<Rightarrow> Inr ()) = Inr () \<longleftrightarrow> f x = Inr ()" for x
    by (cases "f x") auto
  then show ?thesis unfolding reject_each_Inr by blast
qed

lemma provider_narrow_Inr:
  "provider_narrow p = Inr () \<longleftrightarrow>
     (\<forall>m\<in>set (pv_metrics p). metric_narrow m = Inr ()) \<and> (\<forall>g\<in>set (pv_gaps p). gap_narrow g) \<and>
     pred_option mixtures_narrow (pv_observedMixtures p) \<and>
     pred_option (list_all (\<lambda>e. provenance_narrow (ae_provenance e))) (pv_artifactEvidence p) \<and>
     (pv_validated p \<longrightarrow> pv_metrics p \<noteq> []) \<and> (pv_specMatched p \<noteq> None \<longrightarrow> pv_observedSpecs p \<noteq> []) \<and>
     (\<forall>m\<in>set (pv_metrics p). metric_ids_resolve p m = Inr ()) \<and>
     (\<forall>h\<in>set (option_list (pv_hostMetadata p)). host_ids_resolve p h = Inr ()) \<and>
     (\<forall>om. pv_observedMixtures p = Some om \<longrightarrow> (\<exists>(i, h)\<in>set (om_hostHardware om). hw_specMatched h = Some False) \<longrightarrow>
        pv_specMatched p = Some False)"
proof -
  have last: "(if list_ex (\<lambda>(i, h). hw_specMatched h = Some False)
        (case pv_observedMixtures p of None \<Rightarrow> [] | Some om \<Rightarrow> om_hostHardware om) \<and> pv_specMatched p \<noteq> Some False
      then Inl VerdictKinderThanMachines else Inr ()) = (Inr () :: provider_violation + unit) \<longleftrightarrow>
      (\<forall>om. pv_observedMixtures p = Some om \<longrightarrow> (\<exists>(i, h)\<in>set (om_hostHardware om). hw_specMatched h = Some False) \<longrightarrow>
        pv_specMatched p = Some False)"
    by (cases "pv_observedMixtures p") (auto simp: list_ex_iff)
  show ?thesis
    unfolding provider_narrow_def and_then_unit reject_each_wrapped reject_each_Inr reject_first_Inr last option_list_def
    by (auto simp: list_ex_iff)
qed

lemma provider_narrow_parts:
  assumes "provider_narrow p = Inr ()"
  shows "m \<in> set (pv_metrics p) \<Longrightarrow> metric_narrow m = Inr ()" "g \<in> set (pv_gaps p) \<Longrightarrow> gap_narrow g"
    "pv_specMatched p \<noteq> None \<Longrightarrow> pv_observedSpecs p \<noteq> []"
    "e \<in> set (option_list (pv_artifactEvidence p)) \<Longrightarrow> provenance_narrow (ae_provenance e)"
proof -
  note parts = assms[unfolded provider_narrow_Inr]
  show "m \<in> set (pv_metrics p) \<Longrightarrow> metric_narrow m = Inr ()" "g \<in> set (pv_gaps p) \<Longrightarrow> gap_narrow g"
    "pv_specMatched p \<noteq> None \<Longrightarrow> pv_observedSpecs p \<noteq> []" using parts by blast+
  have "pred_option (list_all (\<lambda>e. provenance_narrow (ae_provenance e))) (pv_artifactEvidence p)" using parts by blast
  then show "e \<in> set (option_list (pv_artifactEvidence p)) \<Longrightarrow> provenance_narrow (ae_provenance e)"
    by (cases "pv_artifactEvidence p") (auto simp: option_list_def list_all_iff)
qed

lemma sort_key_facts: "mset (sort_key f xs) = mset xs" "set (sort_key f xs) = set xs" "length (sort_key f xs) = length xs"
  by simp_all

lemma distinct_map_sort_key: "distinct (map g (sort_key f xs)) \<longleftrightarrow> distinct (map g xs)"
  by (metis mset_eq_imp_distinct_iff mset_map mset_sort)

text \<open>The merge of one metric's contributions is a metric the schema accepts, with ids that resolve.\<close>

lemma mergeMetric_single:
  assumes "length cs = 1" "mergeMetricReplicates cs = Inr m"
  shows "\<exists>k m0 ids. (k, (m0, ids)) \<in> set cs \<and> m = with_metric_ids ids m0"
proof -
  obtain c where cs: "cs = [c]" using assms(1) by (cases cs) auto
  then show ?thesis using assms(2) by (auto simp: mergeMetricReplicates_def split: prod.splits)
qed

lemma mergeMetric_many:
  assumes "2 \<le> length cs" "mergeMetricReplicates cs = Inr m"
  shows "\<exists>k m0 ids a. (k, (m0, ids)) \<in> set cs \<and>
    aggregate (concat (map rep_samples (map metric_slice (sort_key fst cs)))) = Inr a \<and>
    m = m0\<lparr>samples := concat (map rep_samples (map metric_slice (sort_key fst cs))), aggregates_of := a,
           mr_ptsSampleSource := None, replicates := Some (map metric_slice (sort_key fst cs))\<rparr>"
proof -
  have "2 \<le> length (sort_key fst cs)" using assms(1) by simp
  then obtain k m0 ids c rest where s: "sort_key fst cs = (k, (m0, ids)) # c # rest"
    by (cases "sort_key fst cs" rule: remdups_adj.cases) auto
  then have mem: "(k, (m0, ids)) \<in> set cs" by (metis list.set_intros(1) set_sort)
  let ?reps = "map metric_slice (sort_key fst cs)"
  have "(case aggregate (concat (map rep_samples ?reps)) of
      Inl e \<Rightarrow> Inl (BadAggregate e)
    | Inr a \<Rightarrow> Inr (m0\<lparr>samples := concat (map rep_samples ?reps), aggregates_of := a, mr_ptsSampleSource := None,
        replicates := Some ?reps\<rparr>)) = Inr m"
    using assms(2) unfolding mergeMetricReplicates_def s by (simp only: list.case prod.case Let_def)
  then obtain a where "aggregate (concat (map rep_samples ?reps)) = Inr a"
    "m = m0\<lparr>samples := concat (map rep_samples ?reps), aggregates_of := a, mr_ptsSampleSource := None, replicates := Some ?reps\<rparr>"
    by (cases "aggregate (concat (map rep_samples ?reps))") simp_all
  then show ?thesis using mem by blast
qed

lemma aggregate_n: "aggregate xs = Inr a \<Longrightarrow> agg_n a = length xs"
  using aggregate_finite by (auto simp: aggregate_def finite_values_Inr_iff split: if_splits sum.splits)

lemma mergeMetric_accepted:
  assumes merge: "mergeMetricReplicates cs = Inr m" and "cs \<noteq> []" "distinct (map fst cs)"
    and each: "\<And>k m0 ids. (k, (m0, ids)) \<in> set cs \<Longrightarrow> metric_narrow m0 = Inr () \<and> shard_metric m0 \<and> \<not> mr_derived m0 \<and>
      resolves hw (fst ids) \<and> resolves nw (snd ids)"
  shows "metric_narrow m = Inr () \<and> resolves hw (mr_hostHardwareId m) \<and> resolves nw (mr_hostNetworkId m) \<and>
    (\<forall>reps. replicates m = Some reps \<longrightarrow>
       (\<forall>r\<in>set reps. resolves hw (rep_hostHardwareId r) \<and> resolves nw (rep_hostNetworkId r)))"
proof (cases "length cs = 1")
  case True
  obtain k m0 ids where c: "(k, (m0, ids)) \<in> set cs" "m = with_metric_ids ids m0" using mergeMetric_single[OF True merge] by blast
  note f = each[OF c(1)]
  then have "metric_narrow m = Inr ()" using c(2) by (simp add: metric_narrow_Inr shard_metric_def)
  then show ?thesis
    using f c(2) by (auto simp: with_metric_ids_def shard_metric_def resolves_def split: option.splits)
next
  case False
  then have two: "2 \<le> length cs" using assms(2) by (cases cs; cases "tl cs") auto
  define reps where "reps = map metric_slice (sort_key fst cs)"
  define pooled where "pooled = concat (map rep_samples reps)"
  obtain k m0 ids a where c: "(k, (m0, ids)) \<in> set cs" "aggregate pooled = Inr a"
    "m = m0\<lparr>samples := pooled, aggregates_of := a, mr_ptsSampleSource := None, replicates := Some reps\<rparr>"
    using mergeMetric_many[OF two merge] unfolding pooled_def reps_def by blast
  note f = each[OF c(1)]
  have fields: "samples m = pooled" "aggregates_of m = a" "mr_ptsSampleSource m = None" "replicates m = Some reps"
    "\<not> mr_derived m" "mr_hostHardwareId m = None" "mr_hostNetworkId m = None"
    using c(3) f by (simp_all add: shard_metric_def)
  have slices: "rep_samples r \<noteq> [] \<and> list_all is_finite (rep_samples r) \<and>
      (rep_ptsSampleSource r = Some AggregateValue \<longrightarrow> length (rep_samples r) = 1) \<and>
      resolves hw (rep_hostHardwareId r) \<and> resolves nw (rep_hostNetworkId r)" if mem: "r \<in> set reps" for r
  proof -
    obtain k' m' ids' where r: "(k', (m', ids')) \<in> set cs" "r = metric_slice (k', (m', ids'))"
      using mem unfolding reps_def by force
    then show ?thesis using each[OF r(1)] by (simp add: metric_slice_def metric_narrow_Inr)
  qed
  have "map rep_index reps = map fst (sort_key fst cs)" by (simp add: reps_def metric_slice_def split: prod.split)
  then have indices: "distinct (map rep_index reps)" using assms(3) distinct_map_sort_key by metis
  have len: "2 \<le> length reps" using two by (simp add: reps_def)
  then obtain r where "r \<in> set reps" by (cases reps) auto
  then have nonempty: "pooled \<noteq> []" using slices unfolding pooled_def by fastforce
  have finite: "list_all is_finite pooled" using slices unfolding pooled_def by (auto simp: list_all_iff)
  have "metric_narrow m = Inr ()"
    unfolding metric_narrow_Inr fields
    using nonempty finite aggregate_n[OF c(2)] aggregate_schema[OF c(2)] len indices slices fields(5) pooled_def by simp
  then show ?thesis using fields slices by (simp add: resolves_def)
qed

text \<open>Host records: a folded record has the ids of one of its inputs.\<close>

definition hosts_inv :: "(host_metadata \<times> mixture_ids) list \<Rightarrow> (string \<times> host_metadata) list \<Rightarrow> bool" where
  "hosts_inv inputs acc \<longleftrightarrow>
     (\<forall>(k, h)\<in>set acc. \<exists>(r, ids)\<in>set inputs. hm_hostHardwareId h = fst ids \<and> hm_hostNetworkId h = snd ids)"

lemma hosts_inv_update:
  assumes "hosts_inv inputs acc" "(r, ids) \<in> set inputs" "hm_hostHardwareId h = fst ids" "hm_hostNetworkId h = snd ids"
  shows "hosts_inv inputs (AList.update k h acc)"
  unfolding hosts_inv_def
proof (rule ballI)
  fix x assume "x \<in> set (AList.update k h acc)"
  from set_AList_update[OF this]
  show "case x of (k, h) \<Rightarrow> \<exists>(r, ids)\<in>set inputs. hm_hostHardwareId h = fst ids \<and> hm_hostNetworkId h = snd ids"
  proof
    assume "x = (k, h)"
    then show ?thesis using assms(2-4) by auto
  next
    assume "x \<in> set acc"
    then show ?thesis using assms(1) by (auto simp: hosts_inv_def)
  qed
qed

lemma fold_host_loop_inv:
  assumes "hosts_inv inputs acc" "set rest \<subseteq> set inputs"
    "\<forall>(r, ids)\<in>set inputs. hm_hostHardwareId r = None \<and> hm_hostNetworkId r = None"
  shows "hosts_inv inputs (fold_host_loop S acc rest)"
  using assms(1,2)
proof (induction rest arbitrary: acc)
  case (Cons x rest)
  obtain r ids where x: "x = (r, ids)" by (cases x)
  have mem: "(r, ids) \<in> set inputs" using Cons.prems(2) x by simp
  then have none: "hm_hostHardwareId r = None" "hm_hostNetworkId r = None" using assms(3) by auto
  let ?key = "host_identity S (r, ids)"
  show ?case
  proof (cases "map_of acc ?key")
    case None
    have "hosts_inv inputs (AList.update ?key (with_ids ids (r\<lparr>hm_sandboxes := Some 1\<rparr>)) acc)"
      by (rule hosts_inv_update[OF Cons.prems(1) mem]) (auto simp: with_ids_def none split: option.split)
    then show ?thesis using Cons.IH Cons.prems(2) x None by (simp add: Let_def)
  next
    case (Some existing)
    obtain r' ids' where old: "(r', ids') \<in> set inputs" "hm_hostHardwareId existing = fst ids'" "hm_hostNetworkId existing = snd ids'"
      using map_of_SomeD[OF Some] Cons.prems(1) unfolding hosts_inv_def by force
    have "hosts_inv inputs (AList.update ?key
        (existing\<lparr>hm_sandboxes := Some (Suc (case hm_sandboxes existing of None \<Rightarrow> 1 | Some n \<Rightarrow> n)), hm_fields := stable_fields r\<rparr>) acc)"
      by (rule hosts_inv_update[OF Cons.prems(1) old(1)]) (simp_all add: old)
    then show ?thesis using Cons.IH Cons.prems(2) x Some by (simp add: Let_def)
  qed
qed simp

lemma foldHostMetadata_ids:
  assumes "h \<in> set (foldHostMetadata S inputs)"
    "\<forall>(r, ids)\<in>set inputs. hm_hostHardwareId r = None \<and> hm_hostNetworkId r = None"
  shows "\<exists>(r, ids)\<in>set inputs. hm_hostHardwareId h = fst ids \<and> hm_hostNetworkId h = snd ids"
proof -
  have "hosts_inv inputs (fold_host_loop S [] inputs)"
    by (rule fold_host_loop_inv[OF _ order.refl assms(2)]) (simp add: hosts_inv_def)
  then show ?thesis using assms(1) by (auto simp: foldHostMetadata_def hosts_inv_def)
qed

text \<open>The fold of verdicts: one false is final, else one true decides.\<close>

lemma fold_verdict:
  "fold (\<lambda>x v. foldVerdict v (f x)) xs v =
     (if v = Some False \<or> (\<exists>x\<in>set xs. f x = Some False) then Some False
      else if v = Some True \<or> (\<exists>x\<in>set xs. f x = Some True) then Some True else None)"
proof (induction xs arbitrary: v)
  case Nil
  then show ?case by (cases v) auto
next
  case (Cons x xs)
  then show ?case by (cases v; cases "f x") (auto simp: foldVerdict_def)
qed

lemma merged_verdict_fold:
  "merged_verdict v mixtures = fold (\<lambda>e v. foldVerdict v (hw_specMatched (snd e)))
     (case mixtures of None \<Rightarrow> [] | Some om \<Rightarrow> om_hostHardware om) v"
  by (simp add: merged_verdict_def split_def)

lemma slices_verdict_fold:
  "fold (\<lambda>(slice, k) v. foldVerdict v (pv_specMatched slice)) es v = fold (\<lambda>e v. foldVerdict v (pv_specMatched (fst e))) es v"
  by (simp add: split_def)

lemma slice_ids_resolve:
  assumes "merge_slices S empty_merge es = Inr st" "buildObservedMixtures (contentId S) (ms_readings st) = Inr mixtures"
    "(slice, k) \<in> set es" "\<not> providerReportedNothing slice"
  shows "\<exists>om. mixtures = Some om \<and>
    resolves (map fst (om_hostHardware om)) (fst (observedMixtureIds (contentId S) (pv_observedSpecs slice))) \<and>
    resolves (map fst (om_hostNetwork om)) (snd (observedMixtureIds (contentId S) (pv_observedSpecs slice)))"
proof -
  have mem: "pv_observedSpecs slice \<in> set (ms_readings st)" by (rule merge_reading[OF assms(1,3,4)])
  then have "mixtures \<noteq> None" using assms(2) by (auto simp: buildObservedMixtures_def and_then_Inr_iff split: if_splits)
  then obtain om where om: "mixtures = Some om" by blast
  show ?thesis using mixture_ids_resolve[OF assms(2)[unfolded om] mem] om by blast
qed

lemma measured_accepted:
  assumes "merge_slices S empty_merge es = Inr st" "buildObservedMixtures (contentId S) (ms_readings st) = Inr mixtures"
    "\<forall>(slice, k)\<in>set es. shard_row slice"
    "sequence (map (\<lambda>(i, byReplicate). mergeMetricReplicates byReplicate) (ms_metrics st)) = Inr measured"
    "m \<in> set measured"
  shows "\<exists>om. mixtures = Some om \<and> metric_narrow m = Inr () \<and>
    resolves (map fst (om_hostHardware om)) (mr_hostHardwareId m) \<and> resolves (map fst (om_hostNetwork om)) (mr_hostNetworkId m) \<and>
    (\<forall>reps. replicates m = Some reps \<longrightarrow> (\<forall>r\<in>set reps. resolves (map fst (om_hostHardware om)) (rep_hostHardwareId r) \<and>
       resolves (map fst (om_hostNetwork om)) (rep_hostNetworkId r)))"
proof -
  have "map (\<lambda>(i, byReplicate). mergeMetricReplicates byReplicate) (ms_metrics st) = map Inr measured"
    using assms(4) by (simp only: sequence_Inr_iff)
  then have "Inr m \<in> set (map (\<lambda>(i, byReplicate). mergeMetricReplicates byReplicate) (ms_metrics st))" using assms(5) by simp
  then obtain i cs where ics: "(i, cs) \<in> set (ms_metrics st)" "mergeMetricReplicates cs = Inr m" by auto
  have inv: "cs \<noteq> []" "distinct (map fst cs)" "\<forall>(k, (m, ids))\<in>set cs. \<exists>slice. (slice, k) \<in> set es \<and> m \<in> set (pv_metrics slice) \<and>
      metricId m = i \<and> ids = observedMixtureIds (contentId S) (pv_observedSpecs slice) \<and> \<not> isDerivedMetric S m"
    using merge_metrics_inv[OF assms(1)] ics(1) unfolding metrics_inv_def by auto
  have from_slice: "\<exists>om. mixtures = Some om \<and> metric_narrow m0 = Inr () \<and> shard_metric m0 \<and> \<not> mr_derived m0 \<and>
      resolves (map fst (om_hostHardware om)) (fst ids) \<and> resolves (map fst (om_hostNetwork om)) (snd ids)"
    if c: "(k, (m0, ids)) \<in> set cs" for k m0 ids
  proof -
    obtain slice where s: "(slice, k) \<in> set es" "m0 \<in> set (pv_metrics slice)"
      "ids = observedMixtureIds (contentId S) (pv_observedSpecs slice)" "\<not> isDerivedMetric S m0"
      using inv(3) c by fastforce
    have row: "shard_row slice" using assms(3) s(1) by auto
    then have "metric_narrow m0 = Inr ()" "shard_metric m0"
      using s(2) provider_narrow_parts(1) by (auto simp: shard_row_def list_all_iff)
    moreover have "\<not> providerReportedNothing slice" using s(2) by (auto simp: providerReportedNothing_def)
    ultimately show ?thesis using slice_ids_resolve[OF assms(1,2) s(1)] s(3,4) by (auto simp: isDerivedMetric_def)
  qed
  obtain c where "c \<in> set cs" using inv(1) by (cases cs) auto
  then have "(fst c, (fst (snd c), snd (snd c))) \<in> set cs" by simp
  then obtain om where om: "mixtures = Some om" using from_slice by blast
  have "metric_narrow m = Inr () \<and>
    resolves (map fst (om_hostHardware om)) (mr_hostHardwareId m) \<and> resolves (map fst (om_hostNetwork om)) (mr_hostNetworkId m) \<and>
    (\<forall>reps. replicates m = Some reps \<longrightarrow> (\<forall>r\<in>set reps. resolves (map fst (om_hostHardware om)) (rep_hostHardwareId r) \<and>
       resolves (map fst (om_hostNetwork om)) (rep_hostNetworkId r)))"
  proof (rule mergeMetric_accepted[OF ics(2) inv(1,2)])
    fix k m0 ids assume c: "(k, (m0, ids)) \<in> set cs"
    show "metric_narrow m0 = Inr () \<and> shard_metric m0 \<and> \<not> mr_derived m0 \<and>
      resolves (map fst (om_hostHardware om)) (fst ids) \<and> resolves (map fst (om_hostNetwork om)) (snd ids)"
      using from_slice[OF c] om by auto
  qed
  then show ?thesis using om by blast
qed

lemma mergeProvider_Inr:
  assumes "mergeProvider S pid es spec emit = Inr p"
  obtains st measured metrics where "merge_slices S empty_merge es = Inr st"
    "sequence (map (\<lambda>(i, byReplicate). mergeMetricReplicates byReplicate) (ms_metrics st)) = Inr measured"
    "buildObservedMixtures (contentId S) (ms_readings st) = Inr (pv_observedMixtures p)"
    "with_economics S pid spec measured = Inr metrics"
    "pv_id p = pid" "pv_validated p \<longleftrightarrow> metrics \<noteq> []" "set (pv_metrics p) = set metrics" "pv_gaps p = map snd (ms_gaps st)"
    "pv_specMatched p = merged_verdict (ms_specMatched st) (pv_observedMixtures p)"
    "pv_observedSpecs p = (case pv_observedMixtures p of None \<Rightarrow> [] | Some om \<Rightarrow> representativeSpecs om)"
    "option_list (pv_hostMetadata p) = foldHostMetadata S (ms_hosts st)"
    "set (option_list (pv_artifactEvidence p)) \<subseteq> snd ` set (fst (ms_artifacts st))"
    "mset (pv_metrics p) = mset metrics"
proof -
  obtain st measured mixtures metrics where parts: "merge_slices S empty_merge es = Inr st"
    "sequence (map (\<lambda>(i, byReplicate). mergeMetricReplicates byReplicate) (ms_metrics st)) = Inr measured"
    "buildObservedMixtures (contentId S) (ms_readings st) = Inr mixtures" "with_economics S pid spec measured = Inr metrics"
    using assms unfolding mergeProvider_def and_then_Inr_iff by blast
  have p: "p = \<lparr>pv_id = pid,
            pv_costEvidence = Some (sort_key (\<lambda>c. evidence_order S (cost_cell_of c)
              (case cost_sandboxId c of None \<Rightarrow> [] | Some sb \<Rightarrow> sb)) (map snd (fst (ms_cost st)))),
            pv_artifactEvidence = (if emit
              then Some (sort_key (\<lambda>e. evidence_order S (ae_cell e) (ae_sandboxId e)) (map snd (fst (ms_artifacts st)))) else None),
            pv_validated = (metrics \<noteq> []),
            pv_specMatched = merged_verdict (ms_specMatched st) mixtures,
            pv_observedSpecs = (case mixtures of None \<Rightarrow> [] | Some om \<Rightarrow> representativeSpecs om),
            pv_observedMixtures = mixtures,
            pv_hostMetadata = (let hosts = foldHostMetadata S (ms_hosts st) in if hosts = [] then None else Some hosts),
            pv_metrics = locale_sort S metricId metrics,
            pv_suitesCovered = locale_sort S (\<lambda>s. s) (insertion_order (ms_suites st)),
            pv_gaps = map snd (ms_gaps st), pv_uncatalogued = ms_uncatalogued st\<rparr>"
    using assms unfolding mergeProvider_def parts and_then_simps by simp
  show thesis
    by (rule that[OF parts(1,2)]) (use parts p in \<open>simp_all add: locale_sort_def option_list_def Let_def\<close>)
qed

lemma representativeSpecs_nonempty:
  assumes "mixtures_narrow om" "om_hostHardware om \<noteq> []"
  shows "representativeSpecs om \<noteq> []"
proof -
  obtain i h es where d: "byDominance hw_count (om_hostHardware om) = (i, h) # es"
    using assms(2) by (metis byDominance_def length_0_conv length_sort neq_Nil_conv surj_pair)
  then have "(i, h) \<in> set (om_hostHardware om)" by (metis byDominance_def list.set_intros(1) set_sort)
  then have "hw_specs h \<noteq> []" using assms(1) by (auto simp: mixtures_narrow_def list_all_iff)
  then show ?thesis using d by (simp add: representativeSpecs_def)
qed

lemma merged_has_specs:
  assumes st: "merge_slices S empty_merge es = Inr st" and b: "buildObservedMixtures (contentId S) (ms_readings st) = Inr mixtures"
    and rows: "\<forall>(slice, k)\<in>set es. shard_row slice" and v: "merged_verdict (ms_specMatched st) mixtures \<noteq> None"
  shows "\<exists>om. mixtures = Some om \<and> representativeSpecs om \<noteq> []"
proof -
  have "\<exists>om. mixtures = Some om \<and> om_hostHardware om \<noteq> []"
  proof (cases "ms_specMatched st = None")
    case True
    show ?thesis
    proof (rule ccontr)
      assume "\<not> ?thesis"
      then have "(case mixtures of None \<Rightarrow> [] | Some om \<Rightarrow> om_hostHardware om) = []" by (auto split: option.splits)
      then show False using v True unfolding merged_verdict_fold by simp
    qed
  next
    case False
    have "\<exists>e\<in>set es. pv_specMatched (fst e) \<noteq> None"
    proof (rule ccontr)
      assume "\<not> ?thesis"
      then have "\<forall>e\<in>set es. pv_specMatched (fst e) = None" by auto
      then show False using False unfolding merge_fields(1)[OF st] slices_verdict_fold fold_verdict by simp
    qed
    then obtain slice k where s: "(slice, k) \<in> set es" "pv_specMatched slice \<noteq> None" by auto
    then have row: "shard_row slice" using rows by auto
    then have hw: "projection (pv_observedSpecs slice) HOST_HARDWARE_SPEC_KEYS \<noteq> []" and "pv_observedSpecs slice \<noteq> []"
      using s(2) provider_narrow_parts(3) by (auto simp: shard_row_def)
    then have "\<not> providerReportedNothing slice" by (simp add: providerReportedNothing_def)
    from slice_ids_resolve[OF st b s(1) this] obtain om where om: "mixtures = Some om"
      "resolves (map fst (om_hostHardware om)) (fst (observedMixtureIds (contentId S) (pv_observedSpecs slice)))" by blast
    moreover have "fst (observedMixtureIds (contentId S) (pv_observedSpecs slice)) \<noteq> None"
      using hw by (simp add: observedMixtureIds_def categoryOf_def Let_def)
    ultimately show ?thesis by (cases "om_hostHardware om") (auto simp: resolves_def)
  qed
  then show ?thesis using representativeSpecs_nonempty mixtures_narrow_built b by blast
qed

section \<open>Properties\<close>

text \<open>
  Property C15. Merging never builds a row the schema rejects: when every slice is an accepted shard row,
  the merged provider passes every check of its schema - consistent metrics, pairings of gaps and
  causes, counted mixtures, resolving host ids, and a verdict no kinder than its machines.
\<close>

theorem merged_row_accepted:
  assumes merge: "mergeProvider S providerId entries spec emit = Inr p" and rows: "list_all (\<lambda>e. shard_row (fst e)) entries"
  shows "provider_narrow p = Inr ()"
proof -
  obtain st measured metrics where st: "merge_slices S empty_merge entries = Inr st"
    and measured: "sequence (map (\<lambda>(i, byReplicate). mergeMetricReplicates byReplicate) (ms_metrics st)) = Inr measured"
    and build: "buildObservedMixtures (contentId S) (ms_readings st) = Inr (pv_observedMixtures p)"
    and eco: "with_economics S providerId spec measured = Inr metrics"
    and p: "pv_validated p \<longleftrightarrow> metrics \<noteq> []" "set (pv_metrics p) = set metrics" "pv_gaps p = map snd (ms_gaps st)"
      "pv_specMatched p = merged_verdict (ms_specMatched st) (pv_observedMixtures p)"
      "pv_observedSpecs p = (case pv_observedMixtures p of None \<Rightarrow> [] | Some om \<Rightarrow> representativeSpecs om)"
      "option_list (pv_hostMetadata p) = foldHostMetadata S (ms_hosts st)"
      "set (option_list (pv_artifactEvidence p)) \<subseteq> snd ` set (fst (ms_artifacts st))"
    using mergeProvider_Inr[OF merge] by metis
  have rows': "\<forall>(slice, k)\<in>set entries. shard_row slice" using rows by (auto simp: list_all_iff)
  have metric: "metric_narrow m = Inr () \<and> metric_ids_resolve p m = Inr ()" if m: "m \<in> set metrics" for m
  proof (cases "m \<in> set measured")
    case True
    from measured_accepted[OF st build rows' measured True]
    show ?thesis
      by (cases "replicates m") (auto simp: metric_ids_resolve_def hardware_ids_def network_ids_def list_ex_iff)
  next
    case False
    obtain pricing rows where "deriveEconomics pricing (map (\<lambda>m. (metricId m, agg_mean (aggregates_of m))) measured) None spec = Inr rows"
      "m \<in> set rows"
      using eco m False by (auto simp: with_economics_def split: option.splits if_splits sum.splits)
    then show ?thesis
      using deriveEconomics_facts by (fastforce simp: metric_ids_resolve_def resolves_def list_all_iff)
  qed
  have gaps: "gap_narrow g" if "g \<in> set (pv_gaps p)" for g
  proof -
    have "\<forall>(slice, k)\<in>set entries. \<forall>g\<in>set (pv_gaps slice). gap_narrow g \<and> clean_gap g"
      using rows' provider_narrow_parts(2) by (fastforce simp: shard_row_def list_all_iff)
    from merge_gaps_inv[OF st this] show ?thesis using that p(3) by (auto simp: gaps_inv_def)
  qed
  have artifacts: "provenance_narrow (ae_provenance e)" if "e \<in> set (option_list (pv_artifactEvidence p))" for e
  proof -
    have "e \<in> (\<Union>(slice, k)\<in>set entries. set (option_list (pv_artifactEvidence slice)))"
      using that p(7) merge_artifacts_from[OF st] by blast
    then obtain slice k where "(slice, k) \<in> set entries" "e \<in> set (option_list (pv_artifactEvidence slice))" by auto
    then show ?thesis using rows' provider_narrow_parts(4) by (auto simp: shard_row_def)
  qed
  have hosts: "host_ids_resolve p h = Inr ()" if h: "h \<in> set (option_list (pv_hostMetadata p))" for h
  proof -
    have none: "\<forall>(r, ids)\<in>set (ms_hosts st). hm_hostHardwareId r = None \<and> hm_hostNetworkId r = None"
      using rows' unfolding merge_fields(3)[OF st] by (fastforce simp: shard_row_def list_all_iff)
    obtain r ids where r: "(r, ids) \<in> set (ms_hosts st)" "hm_hostHardwareId h = fst ids" "hm_hostNetworkId h = snd ids"
      using foldHostMetadata_ids[OF _ none, of h S] h p(6) by auto
    then obtain slice k where s: "(slice, k) \<in> set entries" "r \<in> set (option_list (pv_hostMetadata slice))"
      "ids = observedMixtureIds (contentId S) (pv_observedSpecs slice)"
      unfolding merge_fields(3)[OF st] by auto
    then have "\<not> providerReportedNothing slice"
      by (auto simp: providerReportedNothing_def option_list_def split: option.splits)
    from slice_ids_resolve[OF st build s(1) this] show ?thesis
      using r(2,3) s(3) by (auto simp: host_ids_resolve_def hardware_ids_def network_ids_def)
  qed
  have "pred_option (list_all (\<lambda>e. provenance_narrow (ae_provenance e))) (pv_artifactEvidence p)"
    using artifacts by (cases "pv_artifactEvidence p") (auto simp: option_list_def list_all_iff)
  moreover have "pred_option mixtures_narrow (pv_observedMixtures p)"
    using mixtures_narrow_built build by (cases "pv_observedMixtures p") auto
  moreover have "pv_specMatched p \<noteq> None \<longrightarrow> pv_observedSpecs p \<noteq> []"
    using merged_has_specs[OF st build rows'] p(4,5) by auto
  moreover have "pv_specMatched p = Some False"
    if "pv_observedMixtures p = Some om" "\<exists>(i, h)\<in>set (om_hostHardware om). hw_specMatched h = Some False" for om
  proof -
    have "\<exists>e\<in>set (om_hostHardware om). hw_specMatched (snd e) = Some False" using that(2) by force
    then show ?thesis using that(1) unfolding p(4) merged_verdict_fold fold_verdict by simp
  qed
  moreover have "pv_validated p \<longrightarrow> pv_metrics p \<noteq> []" using p(1,2) by auto
  ultimately show ?thesis unfolding provider_narrow_Inr using metric gaps hosts p(2) by blast
qed

text \<open>
  Property C16. The verdict of a merged provider is false exactly when some shard or some machine missed
  the target, and true exactly when none missed it and some shard or machine met it; the order in which
  the shards arrive plays no part.
\<close>

theorem merged_verdict_sticky:
  assumes "mergeProvider S providerId entries spec emit = Inr p"
  shows "let verdicts = map (\<lambda>e. pv_specMatched (fst e)) entries @
             (case pv_observedMixtures p of None \<Rightarrow> [] | Some om \<Rightarrow> map (\<lambda>e. hw_specMatched (snd e)) (om_hostHardware om))
         in (pv_specMatched p = Some False \<longleftrightarrow> Some False \<in> set verdicts) \<and>
            (pv_specMatched p = Some True \<longleftrightarrow> Some False \<notin> set verdicts \<and> Some True \<in> set verdicts)"
proof -
  obtain st measured metrics where st: "merge_slices S empty_merge entries = Inr st"
    and v: "pv_specMatched p = merged_verdict (ms_specMatched st) (pv_observedMixtures p)"
    using mergeProvider_Inr[OF assms] by metis
  let ?verdicts = "map (\<lambda>e. pv_specMatched (fst e)) entries @
    (case pv_observedMixtures p of None \<Rightarrow> [] | Some om \<Rightarrow> map (\<lambda>e. hw_specMatched (snd e)) (om_hostHardware om))"
  have "pv_specMatched p = fold (\<lambda>n v. foldVerdict v n) ?verdicts None"
    unfolding v merged_verdict_fold merge_fields(1)[OF st] slices_verdict_fold
    by (cases "pv_observedMixtures p") (simp_all add: fold_map comp_def)
  then have "pv_specMatched p = (if Some False \<in> set ?verdicts then Some False else if Some True \<in> set ?verdicts then Some True else None)"
    using fold_verdict[of "\<lambda>n. n" ?verdicts None] by (simp del: set_append)
  then show ?thesis by (simp add: Let_def del: set_append)
qed

section \<open>Every cluster is kept\<close>

text \<open>
  What the slices measured of one metric, in their order, with replicate and host ids; and, of those, the
  first reading of each replicate.
\<close>

definition measurements :: "merge_services \<Rightarrow> (provider_run \<times> nat) list \<Rightarrow> string \<Rightarrow> (nat \<times> contribution) list" where
  "measurements S entries i =
     concat (map (\<lambda>(slice, k). map (\<lambda>m. (k, (m, observedMixtureIds (contentId S) (pv_observedSpecs slice))))
       (filter (\<lambda>m. metricId m = i \<and> \<not> isDerivedMetric S m) (pv_metrics slice))) entries)"

fun first_of_each :: "('k \<times> 'v) list \<Rightarrow> ('k \<times> 'v) list" where
  "first_of_each [] = []"
| "first_of_each (x # xs) = x # first_of_each (filter (\<lambda>y. fst y \<noteq> fst x) xs)"

lemma first_of_each_keys: "fst ` set (first_of_each xs) = fst ` set xs"
  by (induction xs rule: first_of_each.induct) (auto simp: image_iff)

lemma first_of_each_snoc:
  "first_of_each (xs @ [x]) = (if fst x \<in> fst ` set xs then first_of_each xs else first_of_each xs @ [x])"
proof (induction xs rule: first_of_each.induct)
  case (2 y ys)
  have "fst x \<in> fst ` set (filter (\<lambda>z. fst z \<noteq> fst y) ys) \<longleftrightarrow> fst x \<in> fst ` set ys \<and> fst x \<noteq> fst y" by force
  then show ?case using 2 by (cases "fst x = fst y") auto
qed simp

lemma first_of_each_facts: "set (first_of_each xs) \<subseteq> set xs" "distinct (map fst (first_of_each xs))"
  "first_of_each xs = [] \<longleftrightarrow> xs = []"
proof -
  show sub: "set (first_of_each xs) \<subseteq> set xs" by (induction xs rule: first_of_each.induct) auto
  show "distinct (map fst (first_of_each xs))"
  proof (induction xs rule: first_of_each.induct)
    case (2 x xs)
    have "fst x \<notin> fst ` set (first_of_each (filter (\<lambda>y. fst y \<noteq> fst x) xs))" unfolding first_of_each_keys by auto
    then show ?case using 2 by simp
  qed simp
  show "first_of_each xs = [] \<longleftrightarrow> xs = []" by (cases xs) simp_all
qed

lemma first_of_each_map_of: "map_of (first_of_each xs) = map_of xs"
proof (induction xs rule: first_of_each.induct)
  case (2 x xs)
  show ?case
  proof
    fix k
    have "map_of (filter (\<lambda>y. fst y \<noteq> fst x) xs) k = map_of xs k" if "k \<noteq> fst x"
      using that by (induction xs) auto
    then show "map_of (first_of_each (x # xs)) k = map_of (x # xs) k" using 2 by simp
  qed
qed simp

text \<open>The map the merge builds holds, under each id, the first reading of each replicate.\<close>

definition kept :: "(string \<times> (nat \<times> contribution) list) list \<Rightarrow> string \<Rightarrow> (nat \<times> contribution) list" where
  "kept acc i = (case map_of acc i of None \<Rightarrow> [] | Some cs \<Rightarrow> cs)"

lemma add_metrics_kept:
  assumes "\<And>i. kept acc i = first_of_each (xs i)"
  shows "kept (add_metrics S index ids acc ms) i =
    first_of_each (xs i @ map (\<lambda>m. (index, (m, ids))) (filter (\<lambda>m. metricId m = i \<and> \<not> isDerivedMetric S m) ms))"
  using assms
proof (induction ms arbitrary: acc xs)
  case (Cons m ms)
  show ?case
  proof (cases "isDerivedMetric S m")
    case False
    let ?x = "(index, (m, ids))"
    let ?acc = "if index \<in> set (map fst (kept acc (metricId m))) then acc
      else AList.update (metricId m) (kept acc (metricId m) @ [?x]) acc"
    have "kept ?acc j = first_of_each (if j = metricId m then xs j @ [?x] else xs j)" for j
      using Cons.prems[of j] Cons.prems[of "metricId m"] first_of_each_keys[of "xs (metricId m)"]
      by (auto simp: first_of_each_snoc kept_def update_conv')
    note ih = Cons.IH[OF this]
    have "add_metrics S index ids acc (m # ms) = add_metrics S index ids ?acc ms" using False by (simp add: Let_def kept_def)
    then show ?thesis using ih False by (cases "i = metricId m") (simp_all add: eq_commute)
  qed (use Cons in simp)
qed simp

lemma merge_kept:
  assumes "merge_slices S empty_merge es = Inr st"
  shows "\<forall>i. kept (ms_metrics st) i = first_of_each (measurements S es i)"
  using assms
proof (induction rule: merge_slices_induct)
  case start
  then show ?case by (simp add: empty_merge_def kept_def measurements_def)
next
  case (step before e s s')
  obtain slice index where e: "e = (slice, index)" by fastforce
  then have "merge_slice S s (slice, index) = Inr s'" using step by simp
  note m = merge_slice_Inr(1)[OF this]
  show ?case unfolding m using add_metrics_kept[of "ms_metrics s" "measurements S before"] step.IH(1) e
    by (simp add: measurements_def)
qed

lemma add_metrics_distinct: "distinct (map fst acc) \<Longrightarrow> distinct (map fst (add_metrics S index ids acc ms))"
  by (induction ms arbitrary: acc) (simp_all add: Let_def distinct_update)

lemma merge_metrics_distinct: "merge_slices S empty_merge es = Inr st \<Longrightarrow> distinct (map fst (ms_metrics st))"
proof (induction rule: merge_slices_induct)
  case (step before e s s')
  obtain slice index where e: "e = (slice, index)" by fastforce
  then have "merge_slice S s (slice, index) = Inr s'" using step by simp
  then show ?case using merge_slice_Inr(1) add_metrics_distinct step.IH by metis
qed (simp add: empty_merge_def)

lemma filter_by_key: "distinct (map f xs) \<Longrightarrow> x \<in> set xs \<Longrightarrow> filter (\<lambda>y. f y = f x) xs = [x]"
proof (induction xs)
  case (Cons y ys)
  show ?case
  proof (cases "x = y")
    case True
    then show ?thesis using Cons.prems(1) by (auto simp: filter_empty_conv image_iff)
  next
    case False
    then show ?thesis using Cons by (auto simp: image_iff)
  qed
qed simp

text \<open>
  The metric that stands for the readings of several sandboxes: one reading is published with the ids of
  its machine; several are pooled by ascending replicate, each kept as a cluster of the breakdown with the
  ids of its machine, and aggregated over the pool.
\<close>

definition stands_for :: "(nat \<times> contribution) list \<Rightarrow> metric_result \<Rightarrow> bool" where
  "stands_for clusters m \<longleftrightarrow>
     (let ordered = sort_key fst clusters in
      samples m = concat (map (\<lambda>(k, (m0, ids)). samples m0) ordered) \<and>
      (case replicates m of
         None \<Rightarrow> (\<exists>k m0 ids. clusters = [(k, (m0, ids))] \<and> m = with_metric_ids ids m0)
       | Some reps \<Rightarrow> 2 \<le> length clusters \<and> aggregate (samples m) = Inr (aggregates_of m) \<and>
           map (\<lambda>r. (rep_index r, rep_samples r, rep_hostHardwareId r, rep_hostNetworkId r)) reps =
             map (\<lambda>(k, (m0, ids)). (k, samples m0, fst ids, snd ids)) ordered))"

lemma mergeMetric_stands_for:
  assumes merge: "mergeMetricReplicates cs = Inr m"
    and each: "\<And>k m0 ids. (k, (m0, ids)) \<in> set cs \<Longrightarrow> metricId m0 = i \<and> replicates m0 = None \<and> \<not> mr_derived m0"
  shows "metricId m = i \<and> \<not> mr_derived m \<and> stands_for cs m"
proof -
  consider "cs = []" | k m0 ids where "cs = [(k, (m0, ids))]" | "2 \<le> length cs"
    by (cases cs rule: remdups_adj.cases) auto
  then show ?thesis
  proof cases
    case 1
    then show ?thesis using merge by (simp add: mergeMetricReplicates_def)
  next
    case 2
    then have m: "m = with_metric_ids ids m0" using merge by (simp add: mergeMetricReplicates_def)
    then have "samples m = samples m0" "metricId m = metricId m0" "replicates m = replicates m0" "mr_derived m = mr_derived m0"
      by (simp_all add: with_metric_ids_def)
    then show ?thesis using m 2 each[of k m0 ids] by (simp add: stands_for_def)
  next
    case 3
    let ?reps = "map metric_slice (sort_key fst cs)"
    obtain k m0 ids a where m: "(k, (m0, ids)) \<in> set cs" "aggregate (concat (map rep_samples ?reps)) = Inr a"
      "m = m0\<lparr>samples := concat (map rep_samples ?reps), aggregates_of := a, mr_ptsSampleSource := None, replicates := Some ?reps\<rparr>"
      using mergeMetric_many[OF 3 merge] by blast
    have fields: "rep_samples \<circ> metric_slice = (\<lambda>(k, (m0, ids)). samples m0)"
      "(\<lambda>r. (rep_index r, rep_samples r, rep_hostHardwareId r, rep_hostNetworkId r)) \<circ> metric_slice =
       (\<lambda>(k, (m0, ids)). (k, samples m0, fst ids, snd ids))"
      by (simp_all add: fun_eq_iff metric_slice_def)
    show ?thesis using m 3 each[OF m(1)] by (auto simp: stands_for_def fields metric_slice_def)
  qed
qed

lemma with_economics_derived:
  assumes "with_economics S i spec ms = Inr ms'"
  shows "filter (\<lambda>m. \<not> mr_derived m) ms' = filter (\<lambda>m. \<not> mr_derived m) ms"
proof -
  have "filter (\<lambda>m. \<not> mr_derived m) rows = []" if "deriveEconomics pricing xs None spec = Inr rows" for pricing xs rows
    using deriveEconomics_facts[OF that] by (auto simp: list_all_iff filter_empty_conv)
  then show ?thesis using assms by (auto simp: with_economics_def split: option.splits if_splits sum.splits)
qed

lemma with_economics_keeps: "with_economics S i spec ms = Inr ms' \<Longrightarrow> set ms \<subseteq> set ms'"
  by (auto simp: with_economics_def split: option.splits if_splits sum.splits)

text \<open>
  Property C14. The merge of a provider's shard rows keeps the first reading of every replicate index and
  invents none: a metric that no slice measured is not in the merged row (derived metrics are computed
  anew), and a measured one is there exactly once, standing for the first reading of each replicate index.
  Its samples are the samples of those readings, replicate after replicate, its breakdown gives each
  replicate its own samples and the ids of its own machine, and its distribution is that of the pool.
  Within one replicate index a repeated metric counts as a duplicate, also when its readings come from
  different sandboxes, and only its first reading is kept.
\<close>

theorem merge_keeps_clusters:
  assumes merge: "mergeProvider S providerId entries spec emit = Inr p" and rows: "list_all (\<lambda>e. shard_row (fst e)) entries"
  shows "let clusters = first_of_each (measurements S entries i);
             published = filter (\<lambda>m. metricId m = i \<and> \<not> mr_derived m) (pv_metrics p)
    in if clusters = [] then published = []
       else \<exists>m. published = [m] \<and> stands_for clusters m"
proof -
  obtain st measured metrics where st: "merge_slices S empty_merge entries = Inr st"
    and measured: "sequence (map (\<lambda>(i, byReplicate). mergeMetricReplicates byReplicate) (ms_metrics st)) = Inr measured"
    and eco: "with_economics S providerId spec measured = Inr metrics" "mset (pv_metrics p) = mset metrics"
    using mergeProvider_Inr[OF merge] by metis
  have merged: "map (mergeMetricReplicates \<circ> snd) (ms_metrics st) = map Inr measured"
    using measured by (simp add: sequence_Inr_iff comp_def case_prod_unfold)
  have inv: "metrics_inv S entries (ms_metrics st)" by (rule merge_metrics_inv[OF st])
  have each: "metricId m = fst e \<and> \<not> mr_derived m \<and> stands_for (snd e) m"
    if e: "e \<in> set (ms_metrics st)" "mergeMetricReplicates (snd e) = Inr m" for e m
  proof (rule mergeMetric_stands_for[OF e(2)])
    fix k m1 ids assume c: "(k, (m1, ids)) \<in> set (snd e)"
    have "\<exists>slice. (slice, k) \<in> set entries \<and> m1 \<in> set (pv_metrics slice) \<and> metricId m1 = fst e \<and> \<not> isDerivedMetric S m1"
      using inv e(1) c unfolding metrics_inv_def by (cases e) fastforce
    then show "metricId m1 = fst e \<and> replicates m1 = None \<and> \<not> mr_derived m1"
      using rows by (auto simp: list_all_iff shard_row_def shard_metric_def isDerivedMetric_def)
  qed
  have len: "length measured = length (ms_metrics st)" using merged by (metis length_map)
  have at: "n < length measured \<Longrightarrow> mergeMetricReplicates (snd (ms_metrics st ! n)) = Inr (measured ! n)" for n
    using merged len by (metis comp_apply nth_map)
  have ids: "map metricId measured = map fst (ms_metrics st)"
    by (rule nth_equalityI) (use len at each in auto)
  have measured_facts: "\<not> mr_derived m \<and> stands_for (kept (ms_metrics st) (metricId m)) m" if "m \<in> set measured" for m
  proof -
    obtain n where n: "n < length measured" "m = measured ! n" using \<open>m \<in> set measured\<close> by (metis in_set_conv_nth)
    have e: "ms_metrics st ! n \<in> set (ms_metrics st)" using n(1) len by simp
    have "map_of (ms_metrics st) (fst (ms_metrics st ! n)) = Some (snd (ms_metrics st ! n))"
      using merge_metrics_distinct[OF st] e by (simp add: map_of_eq_Some_iff)
    then show ?thesis using each[OF e at[OF n(1)]] n(2) by (simp add: kept_def)
  qed
  have published: "mset (filter (\<lambda>m. metricId m = i \<and> \<not> mr_derived m) (pv_metrics p)) =
      mset (filter (\<lambda>m. metricId m = i) measured)"
  proof -
    have "filter (\<lambda>m. metricId m = i \<and> \<not> mr_derived m) metrics = filter (\<lambda>m. metricId m = i) (filter (\<lambda>m. \<not> mr_derived m) metrics)"
      by (simp add: conj_commute)
    also have "\<dots> = filter (\<lambda>m. metricId m = i) measured"
      unfolding with_economics_derived[OF eco(1)] using measured_facts by (auto intro: filter_cong)
    finally show ?thesis using eco(2) by (metis mset_filter)
  qed
  let ?clusters = "first_of_each (measurements S entries i)"
  have kept: "kept (ms_metrics st) i = ?clusters" using merge_kept[OF st] by simp
  have "i \<notin> fst ` set (ms_metrics st)" if "?clusters = []"
  proof
    assume "i \<in> fst ` set (ms_metrics st)"
    then obtain cs where cs: "map_of (ms_metrics st) i = Some cs"
      by (cases "map_of (ms_metrics st) i") (auto simp: map_of_eq_None_iff)
    then have "cs \<noteq> []" using map_of_SomeD[OF cs] inv by (auto simp: metrics_inv_def)
    then show False using that kept cs by (simp add: kept_def)
  qed
  then have none: "filter (\<lambda>m. metricId m = i) measured = []" if "?clusters = []"
    using that ids by (metis (mono_tags, lifting) filter_empty_conv image_eqI image_set)
  have "\<exists>m\<in>set measured. metricId m = i" if "?clusters \<noteq> []"
  proof -
    have "kept (ms_metrics st) i \<noteq> []" using that kept by simp
    then have "i \<in> fst ` set (ms_metrics st)" by (auto simp: kept_def split: option.splits dest: map_of_SomeD intro: rev_image_eqI)
    then have "i \<in> set (map metricId measured)" unfolding ids by simp
    then show ?thesis by auto
  qed
  moreover have dist: "distinct (map metricId measured)" unfolding ids by (rule merge_metrics_distinct[OF st])
  ultimately have one: "\<exists>m. filter (\<lambda>m. metricId m = i) measured = [m] \<and> stands_for ?clusters m" if "?clusters \<noteq> []"
    using filter_by_key[OF dist] measured_facts kept that by metis
  show ?thesis
  proof (cases "?clusters = []")
    case True
    then have "filter (\<lambda>m. metricId m = i \<and> \<not> mr_derived m) (pv_metrics p) = []"
      using published none by (simp only: mset.simps(1) mset_zero_iff)
    then show ?thesis using True by (simp only: Let_def if_True simp_thms)
  next
    case False
    then obtain m where m: "filter (\<lambda>m. metricId m = i) measured = [m]" "stands_for ?clusters m" using one by blast
    then have "filter (\<lambda>m. metricId m = i \<and> \<not> mr_derived m) (pv_metrics p) = [m]"
      using published by (metis mset_single_iff_right mset.simps add_mset_eq_single)
    then show ?thesis using m(2) False by (simp only: Let_def if_False) blast
  qed
qed

text \<open>Two sandboxes of one provider that measured one metric, for the witnesses.\<close>

definition example_merge_services :: merge_services where
  "example_merge_services = \<lparr>targetDigest = (\<lambda>_. []), allocationDigest = (\<lambda>_. []), cohortDigest = (\<lambda>_. []), planDigest = (\<lambda>_. []),
     collation = (\<lambda>s. s), vendorOf = (\<lambda>s. s), runDigest = (\<lambda>_. []), artifactDigest = (\<lambda>_. []), cellDigest = (\<lambda>_. []),
     attemptDigest = (\<lambda>_. []), attemptsDigest = (\<lambda>_. []), recordsDigest = (\<lambda>_. []), receiptDigest = (\<lambda>_. []),
     repairDigest = (\<lambda>_. []), metricOf = (\<lambda>_. None), contentId = (\<lambda>s. fst (hd s)), hostKey = (\<lambda>_. []), causeKey = (\<lambda>_. []),
     pricingOf = (\<lambda>_. None)\<rparr>"

definition shard_slice :: "real \<Rightarrow> provider_run" where
  "shard_slice x = \<lparr>pv_id = ''p'', pv_costEvidence = Some [], pv_artifactEvidence = Some [], pv_validated = True,
     pv_specMatched = Some True, pv_observedSpecs = [(''vcpus'', SpecNumber 4), (''memoryGb'', SpecNumber 8)],
     pv_observedMixtures = None, pv_hostMetadata = None,
     pv_metrics = [plain_metric ''m'' [Fin x] \<lparr>p50 = Fin x, p95 = Fin x, agg_mean = x, stdev = 0, agg_min = Fin x, agg_max = Fin x, agg_n = 1\<rparr> None],
     pv_suitesCovered = [''memory''], pv_gaps = [], pv_uncatalogued = []\<rparr>"

definition example_slices :: "(provider_run \<times> nat) list" where
  "example_slices = [(shard_slice 1, 0), (shard_slice 3, 1)]"

lemma example_shard_row: "shard_row (shard_slice x)"
  by (simp add: shard_row_def shard_slice_def provider_narrow_def metric_narrow_def aggregatesSchema_def plain_metric_def metric_ids_resolve_def
      resolves_def shard_metric_def option_list_def projection_def List.map_filter_def HOST_HARDWARE_SPEC_KEYS_def)

lemma example_merges: "\<exists>p. mergeProvider example_merge_services ''p'' example_slices TARGET_SPEC True = Inr p"
proof -
  obtain a where "aggregate [Fin 1, Fin 3] = Inr a" using aggregate_finite[of "[1, 3]"] by auto
  then show ?thesis
    by (simp add: mergeProvider_def example_slices_def shard_slice_def merge_slice_def Let_def empty_merge_def add_cost_def
        add_artifacts_def option_list_def plain_metric_def isDerivedMetric_def example_merge_services_def mergeMetricReplicates_def
        metric_slice_def providerReportedNothing_def buildObservedMixtures_def tallyCategory_def categoryOf_def projection_def
        List.map_filter_def HOST_HARDWARE_SPEC_KEYS_def HOST_NETWORK_SPEC_KEYS_def with_economics_def byDominance_def
        hardware_entry_def)
qed

lemma merged_row_accepted_witness:
  "\<exists>p. mergeProvider example_merge_services ''p'' example_slices TARGET_SPEC True = Inr p \<and> provider_narrow p = Inr ()"
proof -
  have "list_all (\<lambda>e. shard_row (fst e)) example_slices" by (simp add: example_slices_def example_shard_row)
  then show ?thesis using example_merges merged_row_accepted by blast
qed

lemma merged_verdict_sticky_witness:
  "\<exists>p. mergeProvider example_merge_services ''p'' example_slices TARGET_SPEC True = Inr p \<and>
    (pv_specMatched p = Some False \<or> pv_specMatched p = Some True)"
proof -
  obtain p where p: "mergeProvider example_merge_services ''p'' example_slices TARGET_SPEC True = Inr p" using example_merges by blast
  have "Some True \<in> set (map (\<lambda>e. pv_specMatched (fst e)) example_slices)" by (simp add: example_slices_def shard_slice_def)
  then show ?thesis using merged_verdict_sticky[OF p] p by (auto simp: Let_def)
qed

lemma merge_keeps_clusters_witness:
  "\<exists>p m. mergeProvider example_merge_services ''p'' example_slices TARGET_SPEC True = Inr p \<and> m \<in> set (pv_metrics p) \<and>
    samples m = [Fin 1, Fin 3] \<and>
    (\<exists>reps. replicates m = Some reps \<and> map (\<lambda>r. (rep_index r, rep_samples r)) reps = [(0, [Fin 1]), (1, [Fin 3])])"
proof -
  obtain p where p: "mergeProvider example_merge_services ''p'' example_slices TARGET_SPEC True = Inr p" using example_merges by blast
  have rows: "list_all (\<lambda>e. shard_row (fst e)) example_slices" by (simp add: example_slices_def example_shard_row)
  let ?cs = "first_of_each (measurements example_merge_services example_slices ''m'')"
  have cs: "map (\<lambda>(k, (m, ids)). (k, samples m)) ?cs = [(0, [Fin 1]), (1, [Fin 3])]"
    by (simp add: measurements_def example_slices_def shard_slice_def plain_metric_def isDerivedMetric_def example_merge_services_def)
  then have "?cs \<noteq> []" by auto
  then obtain m where m: "filter (\<lambda>m. metricId m = ''m'' \<and> \<not> mr_derived m) (pv_metrics p) = [m]" "stands_for ?cs m"
    using merge_keeps_clusters[OF p rows, of "''m''"] by (auto simp: Let_def)
  have "m \<in> set (pv_metrics p)" using m(1) by (metis filter_is_subset list.set_intros(1) subsetD)
  moreover obtain m0 m1 ids0 ids1 where two: "?cs = [(0, (m0, ids0)), (1, (m1, ids1))]" "samples m0 = [Fin 1]" "samples m1 = [Fin 3]"
    using cs by (auto simp: map_eq_Cons_conv)
  then have "samples m = [Fin 1, Fin 3]" using m(2) by (simp add: stands_for_def Let_def)
  moreover have "\<exists>reps. replicates m = Some reps \<and> map (\<lambda>r. (rep_index r, rep_samples r)) reps = [(0, [Fin 1]), (1, [Fin 3])]"
    using m(2) two by (auto simp: stands_for_def Let_def map_eq_Cons_conv split: option.splits)
  ultimately show ?thesis using p by (intro exI[of _ p] exI[of _ m] conjI)
qed

end
