(* ===== verification/Publication.thy ===== *)
theory Publication
  imports Coverage Merge Texts
begin

text \<open>
  From coverage to the published Run (the second half of \<open>packages/results/src/lib/experiment.ts\<close>): what
  blocks a publication, the reviewed cleanup recoveries, the rendering of complete and partial Runs,
  and the repair of an experiment by a second one.
\<close>

text \<open>Further services: the digest of the comparison cohorts and \<open>Date.parse\<close>.\<close>

record publication_services = merge_services +
  cohortsDigest :: "(string \<times> target_spec \<times> string \<times> string \<times> nat \<times> string list) list \<Rightarrow> string"
  dateParse :: "string \<Rightarrow> jsnum"

section \<open>Texts\<close>

definition status_text :: "cell_status \<Rightarrow> string" where
  "status_text s = (case s of Complete \<Rightarrow> ''complete'' | Missing \<Rightarrow> ''missing'' | Failed \<Rightarrow> ''failed''
     | Cancelled \<Rightarrow> ''cancelled'' | Excluded \<Rightarrow> ''excluded'')"

definition source_text :: "trial_source \<Rightarrow> string" where
  "source_text s = (case s of TrialRawString \<Rightarrow> ''raw-string'' | SingleTrialValue \<Rightarrow> ''single-trial-value''
     | TrialAggregateValue \<Rightarrow> ''aggregate-value'' | Unverified \<Rightarrow> ''unverified'')"

fun conflict_text :: "conflict \<Rightarrow> string" where
  "conflict_text (DuplicateAttempt i) = ''duplicate attempt: '' @ i"
| "conflict_text (ProvenanceMismatch i) = ''attempt provenance mismatch: '' @ i"
| "conflict_text (PolicyMismatch i) = ''attempt execution policy mismatch: '' @ i"
| "conflict_text (ShardMismatch i) = ''attempt shard mismatch: '' @ i"
| "conflict_text (UnexpectedExecution i) = ''unexpected execution of excluded cell: '' @ i"
| "conflict_text (UnauthorizedRetry i) = ''unauthorized retry lineage: '' @ i"

text \<open>The rank of the statuses that fall short; the others have none.\<close>

definition shortfall_rank :: "cell_status \<Rightarrow> nat option" where
  "shortfall_rank s = (case s of Failed \<Rightarrow> Some 0 | Cancelled \<Rightarrow> Some 1 | Missing \<Rightarrow> Some 2 | _ \<Rightarrow> None)"

definition short_cells :: "publication_services \<Rightarrow> cell_report list \<Rightarrow> cell_report list" where
  "short_cells S cells =
     sort_key (\<lambda>c. (case shortfall_rank (cv_status c) of None \<Rightarrow> 3 | Some r \<Rightarrow> r, collation S (cv_id c)))
       (filter (\<lambda>c. shortfall_rank (cv_status c) \<noteq> None) cells)"

definition status_tally :: "cell_report list \<Rightarrow> string list" where
  "status_tally cells =
     map (\<lambda>(s, n). s @ ''='' @ nat_string n)
       (sort_key (\<lambda>(s, n). s @ '','' @ nat_string n)
         (map (\<lambda>s. (status_text s, length (filter (\<lambda>c. cv_status c = s) cells))) (insertion_order (map cv_status cells))))"

definition shortfall_text :: "pass_shortfall \<Rightarrow> string" where
  "shortfall_text e = ps_metricId e @ '':'' @ (case ps_observed e of None \<Rightarrow> ''unknown'' | Some n \<Rightarrow> nat_string n) @ ''/'' @
     nat_string (ps_expected e) @ ''('' @ source_text (ps_source e) @ '')''"

definition cell_line :: "cell_report \<Rightarrow> string" where
  "cell_line c = status_text (cv_status c) @ '': '' @ cv_id c @
     (if cv_status c \<noteq> Missing \<and> cv_missingMetrics c \<noteq> [] then '' missing='' @ join_with '','' (cv_missingMetrics c) else []) @
     (case cv_passShortfalls c of
        None \<Rightarrow> []
      | Some es \<Rightarrow> if es = [] then [] else '' passes='' @ join_with '','' (map shortfall_text es))"

text \<open>The ellipsis as its UTF-8 bytes.\<close>

definition ELLIPSIS :: string where
  "ELLIPSIS = [CHR 0xE2, CHR 0x80, CHR 0xA6]"

definition describeCoverageShortfall :: "publication_services \<Rightarrow> coverage_report \<Rightarrow> nat \<Rightarrow> string list" where
  "describeCoverageShortfall S report limit =
     (let short = short_cells S (rp_cells report)
      in [''coverage: '' @ join_with '' '' (status_tally (rp_cells report))] @
         map (\<lambda>c. ''conflict: '' @ conflict_text c) (rp_conflicts report) @
         map cell_line (take limit short) @
         (if limit < length short
          then [ELLIPSIS @ '' and '' @ nat_string (length short - limit) @ '' more incomplete cell(s)''] else []))"

section \<open>What blocks a publication\<close>

datatype publication_blocker =
    ConflictingEvidence nat
  | MissingAttempts nat
  | MissingRun string
  | MissingRawDigest string
  | UnresolvedAllocation string
  | NoVerifiedMeasurements

fun blocker_text :: "publication_blocker \<Rightarrow> string" where
  "blocker_text (ConflictingEvidence n) = ''conflicting evidence: '' @ nat_string n @ '' conflict(s)''"
| "blocker_text (MissingAttempts n) = ''missing attempts: '' @ nat_string n @ '' cell(s)''"
| "blocker_text (MissingRun i) = ''missing Run: '' @ i"
| "blocker_text (MissingRawDigest i) = ''missing raw digest: '' @ i"
| "blocker_text (UnresolvedAllocation i) = ''unresolved cleanup: '' @ i"
| "blocker_text NoVerifiedMeasurements = ''no verified measurements''"

definition attempt_blockers :: "attempt_with_run \<Rightarrow> publication_blocker list" where
  "attempt_blockers a =
     (if aw_run a = None \<and> \<not> isUnallocatedFailureWithoutRun a then [MissingRun (at_id (aw_evidence a))] else []) @
     (if at_rawDigest (aw_evidence a) = None then [MissingRawDigest (at_id (aw_evidence a))] else []) @
     (if at_cleanup (aw_evidence a) = UnresolvedCleanup \<and> aw_cleanupRecovery a = None
      then [UnresolvedAllocation (at_id (aw_evidence a))] else [])"

definition retained_of :: "cell_report \<Rightarrow> string list" where
  "retained_of c = (case cv_retainedMetrics c of None \<Rightarrow> [] | Some ms \<Rightarrow> ms)"

definition partialPublicationBlockers :: "coverage_report \<Rightarrow> attempt_with_run list \<Rightarrow> string list \<Rightarrow> publication_blocker list" where
  "partialPublicationBlockers coverage attempts unstarted =
     (let missing = length (filter (\<lambda>c. cv_status c = Missing \<and> cv_id c \<notin> set unstarted) (rp_cells coverage))
      in (if rp_conflicts coverage \<noteq> [] then [ConflictingEvidence (length (rp_conflicts coverage))] else []) @
         (if 0 < missing then [MissingAttempts missing] else []) @
         concat (map attempt_blockers attempts) @
         (if \<not> list_ex (\<lambda>c. retained_of c \<noteq> []) (rp_cells coverage) then [NoVerifiedMeasurements] else []))"

record experiment_aggregation =
  ag_coverage :: coverage_report
  ag_blockers :: "publication_blocker list option"
  ag_run :: "run_doc option"

definition describeIncompleteExperiment :: "publication_services \<Rightarrow> experiment_aggregation \<Rightarrow> string list" where
  "describeIncompleteExperiment S a =
     map (\<lambda>b. ''publication blocked: '' @ blocker_text b) (case ag_blockers a of None \<Rightarrow> [] | Some bs \<Rightarrow> bs) @
     describeCoverageShortfall S (ag_coverage a) 20"

section \<open>Reviewed cleanup recoveries\<close>

datatype publication_error =
    Evaluation experiment_error
  | RecoveryNotBound
  | RecoverySandboxDiffers
  | NotReviewedRuncloud
  | NotReviewedModal
  | AnchorMissing
  | AllocationNotBound
  | ShardNotAttributed
  | MergeFailed merge_error
  | AttemptCellMissing string
  | CoverageCellMissing string
  | PublishedRunRejected run_violation
  | RepairBlocked "publication_blocker list"
  | UnstartedUnverified
  | RepairDigestMismatch
  | RepairSelectionMismatch
  | RepairChangesPolicy string
  | RecoveryCellMissing string

definition MODAL_CREATED_REQUEST_REVISION :: string where
  "MODAL_CREATED_REQUEST_REVISION = ''845a0f19b3aa3bda32f0ec988c1d1c188c9e260f''"

definition RUNCLOUD_AMBIGUOUS_CREATE_REVISION :: string where
  "RUNCLOUD_AMBIGUOUS_CREATE_REVISION = ''f571eec3dc1378680f223a365d586f61a4fc6658''"

definition cell_of_plan :: "experiment_plan \<Rightarrow> string \<Rightarrow> experiment_cell option" where
  "cell_of_plan plan i = find (\<lambda>c. c_id c = i) (p_cells plan)"

text \<open>The pattern of a caller-owned name: the prefix and a lower-case UUID.\<close>

fun hex_groups :: "nat list \<Rightarrow> string \<Rightarrow> bool" where
  "hex_groups [] s = (s = [])"
| "hex_groups [n] s = (length s = n \<and> list_all is_hex s)"
| "hex_groups (n # k # ns) s =
     (length (take n s) = n \<and> list_all is_hex (take n s) \<and>
      (case drop n s of [] \<Rightarrow> False | c # rest \<Rightarrow> c = CHR ''-'' \<and> hex_groups (k # ns) rest))"

definition caller_owned_name :: "string \<Rightarrow> bool" where
  "caller_owned_name s \<longleftrightarrow>
     starts_with s ''sandbox-benchmarks-'' \<and> hex_groups [8, 4, 4, 4, 12] (drop (length ''sandbox-benchmarks-'') s)"

text \<open>The em dash of the diagnostic as its UTF-8 bytes.\<close>

definition EM_DASH :: string where
  "EM_DASH = [CHR 0xE2, CHR 0x80, CHR 0x94]"

definition runcloud_prefix :: "string \<Rightarrow> string \<Rightarrow> string" where
  "runcloud_prefix suite i =
     ''Suite '' @ [CHR 0x22] @ suite @ [CHR 0x22] @ '' failed on runcloud '' @ EM_DASH @
     '' recorded as a failed gap in experiment/attempts/'' @ i @
     ''/run.json: computesdk create failed: run.cloud create failed ambiguously (run.cloud create did not settle within 30000ms) and reconciliation could not establish its outcome (no allocation visible during reconciliation), so it is unknown whether a sandbox was allocated; if one was it carries the name ''"

definition runcloud_suffix :: string where
  "runcloud_suffix = '' and manual cleanup may be required; cleanup failed: runcloud ComputeSDK failed-create recovery cleanup callback failed''"

definition between :: "string \<Rightarrow> string \<Rightarrow> string \<Rightarrow> string" where
  "between prefix suffix s = take (length s - length suffix - length prefix) (drop (length prefix) s)"

definition runcloudAmbiguousCreateName :: "experiment_plan \<Rightarrow> attempt_with_run \<Rightarrow> string option" where
  "runcloudAmbiguousCreateName plan a =
     (let e = aw_evidence a
      in case (cell_of_plan plan (at_cellId e), at_diagnostic e) of
           (Some cell, Some diagnostic) \<Rightarrow>
             if p_sha plan \<noteq> RUNCLOUD_AMBIGUOUS_CREATE_REVISION \<or> at_sha e \<noteq> p_sha plan \<or> c_provider cell \<noteq> ''runcloud'' \<or>
                c_quotaDomain cell \<noteq> ''runcloud'' \<or> at_outcome e \<noteq> FailedAttempt \<or> at_cleanup e \<noteq> UnresolvedCleanup \<or>
                \<not> failedBeforeExecution a \<or> aw_allocation a \<noteq> None \<or> diagnostic = [] then None
             else
               let prefix = runcloud_prefix (c_suite cell) (at_id e); name = between prefix runcloud_suffix diagnostic
               in if starts_with diagnostic prefix \<and> ends_with diagnostic runcloud_suffix \<and> caller_owned_name name
                  then Some name else None
         | _ \<Rightarrow> None)"

text \<open>The name is read exactly from the diagnostics that carry one, and the pattern admits the kit's names.\<close>

lemma starts_with_append [simp]: "starts_with (p @ s) p"
  by (induction p) auto

lemma runcloud_name_read:
  assumes "cell_of_plan plan (at_cellId (aw_evidence a)) = Some cell" "c_provider cell = ''runcloud''" "c_quotaDomain cell = ''runcloud''"
    and "p_sha plan = RUNCLOUD_AMBIGUOUS_CREATE_REVISION" "at_sha (aw_evidence a) = p_sha plan"
    and "at_outcome (aw_evidence a) = FailedAttempt" "at_cleanup (aw_evidence a) = UnresolvedCleanup"
    and "failedBeforeExecution a" "aw_allocation a = None" "caller_owned_name name"
    and "at_diagnostic (aw_evidence a) = Some (runcloud_prefix (c_suite cell) (at_id (aw_evidence a)) @ name @ runcloud_suffix)"
  shows "runcloudAmbiguousCreateName plan a = Some name"
proof -
  let ?p = "runcloud_prefix (c_suite cell) (at_id (aw_evidence a))"
  have "between ?p runcloud_suffix (?p @ name @ runcloud_suffix) = name" by (simp add: between_def)
  moreover have "ends_with (?p @ name @ runcloud_suffix) runcloud_suffix" by (simp add: ends_with_def)
  moreover have "?p \<noteq> []" by (simp add: runcloud_prefix_def)
  ultimately show ?thesis using assms by (simp add: runcloudAmbiguousCreateName_def Let_def)
qed

lemma caller_owned_example: "caller_owned_name ''sandbox-benchmarks-0123abcd-0123-4567-89ab-0123456789ab''"
  by (simp add: caller_owned_name_def is_hex_def)

definition verifiedRetainedAllocation :: "experiment_plan \<Rightarrow> attempt_with_run \<Rightarrow> publication_error + retained_allocation" where
  "verifiedRetainedAllocation plan a =
     (let e = aw_evidence a
      in case (aw_allocation a, cell_of_plan plan (at_cellId e)) of
           (Some al, Some cell) \<Rightarrow>
             if at_rawDigest e = None \<or> al_attempt al \<noteq> at_id e \<or> al_cellId al \<noteq> c_id cell \<or> al_planDigest al \<noteq> p_digest plan \<or>
                al_planDigest al \<noteq> at_planDigest e \<or> al_account al \<noteq> c_quotaDomain cell \<or> al_provider al \<noteq> c_provider cell
             then Inl AllocationNotBound else Inr al
         | _ \<Rightarrow> Inl AllocationNotBound)"

definition originalSandboxId :: "experiment_plan \<Rightarrow> attempt_with_run \<Rightarrow> publication_error + string option" where
  "originalSandboxId plan a =
     (case aw_execution a of
        Some x \<Rightarrow> Inr (if Some (xe_provider x) = map_option c_provider (cell_of_plan plan (at_cellId (aw_evidence a)))
                        then Some (xe_sandboxId x) else None)
      | None \<Rightarrow>
          if \<not> failedBeforeExecution a \<or> aw_allocation a = None then Inr None
          else and_then (verifiedRetainedAllocation plan a) (\<lambda>al. Inr (Some (al_sandboxId al))))"

definition js_less :: "jsnum \<Rightarrow> jsnum \<Rightarrow> bool" where
  "js_less a b \<longleftrightarrow>
     (case (a, b) of
        (Fin x, Fin y) \<Rightarrow> x < y
      | (Fin x, Infinite up) \<Rightarrow> up
      | (Infinite up, Fin y) \<Rightarrow> \<not> up
      | (Infinite u, Infinite v) \<Rightarrow> \<not> u \<and> v
      | _ \<Rightarrow> False)"

definition MODAL_DIAGNOSTIC :: string where
  "MODAL_DIAGNOSTIC = ''modal-gvisor ComputeSDK created-request preparation and verification callback failed; cleanup failed: modal-gvisor ComputeSDK lifecycle destroy callback failed''"

text \<open>Does the recovery bind the original failed attempt?\<close>

definition recovery_bound :: "publication_services \<Rightarrow> experiment_plan \<Rightarrow> attempt_with_run \<Rightarrow> cleanup_recovery \<Rightarrow> bool" where
  "recovery_bound S plan a r \<longleftrightarrow>
     (let e = aw_evidence a
      in at_outcome e = FailedAttempt \<and> at_cleanup e = UnresolvedCleanup \<and> at_rawDigest e \<noteq> None \<and> at_runDigest e \<noteq> None \<and>
         aw_run a \<noteq> None \<and> cr_attemptId r = at_id e \<and> cr_cellId r = at_cellId e \<and> cr_planDigest r = p_digest plan \<and>
         cr_planDigest r = at_planDigest e \<and> cr_attemptDigest r = attemptDigest S e \<and> cr_workflowRun r = p_id plan \<and>
         cr_workflowRun r = at_workflowRun e \<and> cr_sourceSha r = p_sha plan \<and> cr_sourceSha r = at_sha e \<and>
         \<not> js_less (dateParse S (cr_confirmedAt r)) (dateParse S (p_createdOn plan @ ''T00:00:00Z'')))"

definition verifyCleanupRecovery :: "publication_services \<Rightarrow> experiment_plan \<Rightarrow> attempt_with_run \<Rightarrow> cleanup_recovery \<Rightarrow>
  publication_error + unit" where
  "verifyCleanupRecovery S plan a r =
     (case cell_of_plan plan (at_cellId (aw_evidence a)) of
        None \<Rightarrow> Inl RecoveryNotBound
      | Some cell \<Rightarrow>
          if \<not> recovery_bound S plan a r then Inl RecoveryNotBound
          else case cr_observation r of
            SandboxObservation provider sandbox \<Rightarrow>
              if provider \<noteq> c_provider cell then Inl RecoverySandboxDiffers
              else and_then (originalSandboxId plan a) (\<lambda>original.
                     if original = Some sandbox then Inr () else Inl RecoverySandboxDiffers)
          | RuncloudNamedSandbox name sandbox \<Rightarrow>
              if runcloudAmbiguousCreateName plan a = Some name then Inr () else Inl NotReviewedRuncloud
          | ModalApp app anchor environment \<Rightarrow>
              if c_provider cell \<noteq> ''modal-gvisor'' \<or> c_quotaDomain cell \<noteq> ''modal'' \<or>
                 at_sha (aw_evidence a) \<noteq> MODAL_CREATED_REQUEST_REVISION \<or> \<not> failedBeforeExecution a \<or>
                 (case at_diagnostic (aw_evidence a) of None \<Rightarrow> True | Some d \<Rightarrow> \<not> ends_with d MODAL_DIAGNOSTIC)
              then Inl NotReviewedModal else Inr ())"

section \<open>Rendering\<close>

definition planned_cell_of :: "experiment_plan \<Rightarrow> attempt_with_run \<Rightarrow> experiment_cell option" where
  "planned_cell_of plan a = cell_of_plan plan (at_cellId (aw_evidence a))"

text \<open>The metrics of an attempt that are published: those of the coverage in a partial Run, else the eligible ones.\<close>

definition published_metrics :: "experiment_plan \<Rightarrow> coverage_report \<Rightarrow> bool \<Rightarrow> attempt_with_run \<Rightarrow> string list" where
  "published_metrics plan coverage partial a =
     (if partial
      then (case find (\<lambda>c. cv_id c = at_cellId (aw_evidence a)) (rp_cells coverage) of None \<Rightarrow> [] | Some c \<Rightarrow> retained_of c)
      else (case planned_cell_of plan a of None \<Rightarrow> [] | Some cell \<Rightarrow> eligible_metrics cell))"

definition omitted_metrics :: "experiment_plan \<Rightarrow> coverage_report \<Rightarrow> bool \<Rightarrow> attempt_with_run \<Rightarrow> string list" where
  "omitted_metrics plan coverage partial a =
     (case planned_cell_of plan a of
        None \<Rightarrow> []
      | Some cell \<Rightarrow> filter (\<lambda>i. i \<notin> set (published_metrics plan coverage partial a) \<and> i \<notin> set (excluded_metrics cell)) (c_metrics cell))"

definition withheld_gap :: "experiment_cell \<Rightarrow> string list \<Rightarrow> result_gap" where
  "withheld_gap cell omitted = \<lparr>gap_scope_of = SuiteGap, gap_id = c_suite cell, gap_outcome_of = FailedGap,
     gap_reason = ''Partial publication withheld unverified measurements: '' @ join_with '', '' omitted, gap_cause_of = None\<rparr>"

definition publish_provider :: "experiment_plan \<Rightarrow> experiment_cell option \<Rightarrow> bool \<Rightarrow> string list \<Rightarrow> string list \<Rightarrow> provider_run \<Rightarrow> provider_run" where
  "publish_provider plan cell partial eligible omitted p =
     (let own = (Some (pv_id p) = map_option c_provider cell); kept = filter (\<lambda>m. metricId m \<in> set eligible) (pv_metrics p)
      in p\<lparr>pv_costEvidence := map_option (map (\<lambda>e. e\<lparr>cost_cell_of := (cost_cell_of e)\<lparr>cc_runId := p_id plan\<rparr>\<rparr>)) (pv_costEvidence p),
           pv_artifactEvidence := map_option (map (\<lambda>e. e\<lparr>ae_cell := (ae_cell e)\<lparr>cc_runId := p_id plan\<rparr>\<rparr>)) (pv_artifactEvidence p),
           pv_metrics := (if own then kept else []), pv_validated := (own \<and> kept \<noteq> []),
           pv_gaps := (if partial \<and> own \<and> omitted \<noteq> []
             then pv_gaps p @ (case cell of None \<Rightarrow> [] | Some c \<Rightarrow> [withheld_gap c omitted]) else pv_gaps p)\<rparr>)"

definition publish_shard :: "experiment_plan \<Rightarrow> coverage_report \<Rightarrow> bool \<Rightarrow> attempt_with_run \<Rightarrow> publication_error + run_doc" where
  "publish_shard plan coverage partial a =
     (case aw_run a of
        None \<Rightarrow> Inl ShardNotAttributed
      | Some run \<Rightarrow>
          if run_version run < 6 then Inl ShardNotAttributed
          else Inr (run\<lparr>run_id := p_id plan,
             run_providers := map (publish_provider plan (planned_cell_of plan a) partial
               (published_metrics plan coverage partial a) (omitted_metrics plan coverage partial a)) (run_providers run)\<rparr>))"

definition blank_provider :: "string \<Rightarrow> provider_run" where
  "blank_provider i = \<lparr>pv_id = i, pv_costEvidence = Some [], pv_artifactEvidence = Some [], pv_validated = False, pv_specMatched = None,
     pv_observedSpecs = [], pv_observedMixtures = None, pv_hostMetadata = None, pv_metrics = [], pv_suitesCovered = [],
     pv_gaps = [], pv_uncatalogued = []\<rparr>"

definition admission_gap :: "experiment_cell \<Rightarrow> attempt_with_run \<Rightarrow> result_gap" where
  "admission_gap cell a = \<lparr>gap_scope_of = SuiteGap, gap_id = c_suite cell, gap_outcome_of = FailedGap,
     gap_reason = c_id cell @ '': '' @ (case at_diagnostic (aw_evidence a) of
       None \<Rightarrow> ''Admission failed before allocation; no measurements were produced.'' | Some d \<Rightarrow> d), gap_cause_of = None\<rparr>"

text \<open>A gap pushed onto the row of a provider, which is added when no shard reported it.\<close>

fun push_gap :: "string \<Rightarrow> result_gap \<Rightarrow> provider_run list \<Rightarrow> provider_run list" where
  "push_gap i g [] = [(blank_provider i)\<lparr>pv_gaps := [g]\<rparr>]"
| "push_gap i g (p # ps) = (if pv_id p = i then p\<lparr>pv_gaps := pv_gaps p @ [g]\<rparr> # ps else p # push_gap i g ps)"

fun admission_gaps :: "experiment_plan \<Rightarrow> provider_run list \<Rightarrow> attempt_with_run list \<Rightarrow> publication_error + provider_run list" where
  "admission_gaps plan ps [] = Inr ps"
| "admission_gaps plan ps (a # as) =
     (case planned_cell_of plan a of
        None \<Rightarrow> Inl (AttemptCellMissing (at_cellId (aw_evidence a)))
      | Some cell \<Rightarrow> admission_gaps plan (push_gap (c_provider cell) (admission_gap cell a) ps) as)"

definition cohort_of :: "publication_services \<Rightarrow> experiment_cell \<Rightarrow> string \<times> target_spec \<times> string \<times> string \<times> nat \<times> string list" where
  "cohort_of S cell = (c_suite cell, c_target cell, c_workloadRevision cell, c_environmentRevision cell, c_passes cell,
     sort (eligible_metrics cell))"

definition cohorts_of :: "publication_services \<Rightarrow> experiment_plan \<Rightarrow> (string \<times> target_spec \<times> string \<times> string \<times> nat \<times> string list) list" where
  "cohorts_of S plan = locale_sort S fst (map (cohort_of S) (last_by_key c_suite (p_cells plan)))"

definition partial_cell_of :: "experiment_plan \<Rightarrow> cell_report \<Rightarrow> publication_error + partial_cell" where
  "partial_cell_of plan c =
     (case cell_of_plan plan (cv_id c) of
        None \<Rightarrow> Inl (CoverageCellMissing (cv_id c))
      | Some planned \<Rightarrow> Inr \<lparr>pc_id = cv_id c, pc_provider = c_provider planned, pc_suite = c_suite planned,
          pc_replicate = c_replicate planned, pc_attemptId = cv_attemptId c, pc_status = cv_status c,
          pc_plannedMetrics = c_metrics planned, pc_passes = c_passes planned, pc_missingMetrics = cv_missingMetrics c,
          pc_excludedMetrics = cv_excludedMetrics c, pc_retainedMetrics = retained_of c, pc_passShortfalls = cv_passShortfalls c\<rparr>)"

definition partial_section :: "experiment_plan \<Rightarrow> coverage_report \<Rightarrow> publication_error + partial_coverage" where
  "partial_section plan coverage =
     and_then (sequence (map (partial_cell_of plan) (rp_cells coverage))) (\<lambda>cells.
       Inr \<lparr>pa_planned = length (p_cells plan),
            pa_complete = length (filter (\<lambda>c. cv_status c = Complete) (rp_cells coverage)),
            pa_incomplete = length (filter (\<lambda>c. \<not> settled c) (rp_cells coverage)),
            pa_excluded = length (filter (\<lambda>c. cv_status c = Excluded) (rp_cells coverage)), pa_cells = cells\<rparr>)"

definition recoveries_of :: "publication_services \<Rightarrow> attempt_with_run list \<Rightarrow> cleanup_recovery list option" where
  "recoveries_of S chosen =
     (let rs = List.map_filter aw_cleanupRecovery chosen in if rs = [] then None else Some (locale_sort S cr_attemptId rs))"

definition selected_attempt_ids :: "coverage_report \<Rightarrow> bool \<Rightarrow> string list" where
  "selected_attempt_ids coverage partial =
     (if partial then List.map_filter cv_attemptId (rp_cells coverage) else rp_selectedAttempts coverage)"

definition selected_attempts :: "publication_services \<Rightarrow> coverage_report \<Rightarrow> bool \<Rightarrow> attempt_with_run list \<Rightarrow> attempt_with_run list" where
  "selected_attempts S coverage partial attempts =
     locale_sort S (\<lambda>a. at_cellId (aw_evidence a))
       (filter (\<lambda>a. at_id (aw_evidence a) \<in> set (selected_attempt_ids coverage partial)) attempts)"

definition experiment_link_of :: "publication_services \<Rightarrow> experiment_plan \<Rightarrow> coverage_report \<Rightarrow> bool \<Rightarrow> experiment_repair option \<Rightarrow>
  unstarted_batch list \<Rightarrow> attempt_with_run list \<Rightarrow> publication_error + experiment_link" where
  "experiment_link_of S plan coverage partial repair unstarted chosen =
     and_then (if partial then and_then (partial_section plan coverage) (\<lambda>p. Inr (Some p)) else Inr None) (\<lambda>part.
       Inr \<lparr>ex_planDigest = p_digest plan, ex_cohortDigest = Some (cohortsDigest S (cohorts_of S plan)),
            ex_attemptIds = selected_attempt_ids coverage partial, ex_cleanupRecoveries = recoveries_of S chosen,
            ex_repair = repair, ex_unstartedBatches = (if unstarted = [] then None else Some unstarted), ex_partial = part\<rparr>)"

definition merge_shards :: "publication_services \<Rightarrow> run_doc list \<Rightarrow> publication_error + run_doc" where
  "merge_shards S runs =
     (case aggregateRuns (merge_services.truncate S) runs of Inl e \<Rightarrow> Inl (MergeFailed e) | Inr run \<Rightarrow> Inr run)"

definition renderExperiment :: "publication_services \<Rightarrow> experiment_plan \<Rightarrow> attempt_with_run list \<Rightarrow> coverage_report \<Rightarrow> bool \<Rightarrow>
  experiment_repair option \<Rightarrow> unstarted_batch list \<Rightarrow> publication_error + experiment_aggregation" where
  "renderExperiment S plan attempts coverage partial repair unstarted =
     (let chosen = selected_attempts S coverage partial attempts
      in and_then (sequence (map (publish_shard plan coverage partial)
             (filter (\<lambda>a. \<not> (partial \<and> isUnallocatedFailureWithoutRun a)) chosen))) (\<lambda>runs.
         and_then (merge_shards S runs) (\<lambda>merged.
         and_then (admission_gaps plan (run_providers merged) (filter isUnallocatedFailureWithoutRun chosen)) (\<lambda>providers.
         and_then (experiment_link_of S plan coverage partial repair unstarted chosen) (\<lambda>link.
           case parseRun (merged\<lparr>run_version := (if partial then 8 else 7), run_experiment := Some link,
               run_providers := locale_sort S pv_id providers\<rparr>) of
             Inl v \<Rightarrow> Inl (PublishedRunRejected v)
           | Inr run \<Rightarrow> Inr \<lparr>ag_coverage = coverage, ag_blockers = None, ag_run = Some run\<rparr>)))))"

section \<open>Aggregation\<close>

definition anchored :: "experiment_plan \<Rightarrow> attempt_with_run list \<Rightarrow> string \<Rightarrow> bool" where
  "anchored plan attempts anchor \<longleftrightarrow>
     list_ex (\<lambda>a. at_planDigest (aw_evidence a) = p_digest plan \<and> at_sha (aw_evidence a) = p_sha plan \<and>
       (case aw_execution a of None \<Rightarrow> False | Some x \<Rightarrow> xe_provider x = ''modal-gvisor'' \<and> xe_sandboxId x = anchor)) attempts"

definition check_recovery :: "publication_services \<Rightarrow> experiment_plan \<Rightarrow> attempt_with_run list \<Rightarrow> attempt_with_run \<Rightarrow>
  publication_error + unit" where
  "check_recovery S plan attempts a =
     (case aw_cleanupRecovery a of
        None \<Rightarrow> Inr ()
      | Some r \<Rightarrow>
          and_then (verifyCleanupRecovery S plan a r) (\<lambda>_.
            case cr_observation r of
              ModalApp app anchor environment \<Rightarrow> if anchored plan attempts anchor then Inr () else Inl AnchorMissing
            | _ \<Rightarrow> Inr ()))"

definition evaluate :: "publication_services \<Rightarrow> experiment_plan \<Rightarrow> attempt_with_run list \<Rightarrow> publication_error + coverage_report" where
  "evaluate S plan attempts =
     (case evaluateExperiment (evidence_services.truncate S) plan attempts of Inl e \<Rightarrow> Inl (Evaluation e) | Inr r \<Rightarrow> Inr r)"

definition aggregateExperiment :: "publication_services \<Rightarrow> experiment_plan \<Rightarrow> attempt_with_run list \<Rightarrow> bool \<Rightarrow>
  publication_error + experiment_aggregation" where
  "aggregateExperiment S plan attempts allowPartial =
     and_then (evaluate S plan attempts) (\<lambda>coverage.
     and_then (reject_each (check_recovery S plan attempts) attempts) (\<lambda>_.
       let partial = (\<not> rp_complete coverage \<and> allowPartial); blockers = partialPublicationBlockers coverage attempts []
       in if \<not> rp_complete coverage \<and> (\<not> partial \<or> blockers \<noteq> [])
          then Inr \<lparr>ag_coverage = coverage, ag_blockers = (if blockers = [] then None else Some blockers), ag_run = None\<rparr>
          else renderExperiment S plan attempts coverage partial None []))"

section \<open>Repair\<close>

definition repairAttemptsDigest :: "publication_services \<Rightarrow> attempt_with_run list \<Rightarrow> string" where
  "repairAttemptsDigest S attempts =
     attemptsDigest S (locale_sort S (\<lambda>e. at_id (fst e)) (map (\<lambda>a. (aw_evidence a, aw_cleanupRecovery a)) attempts))"

definition blocks_repair :: "publication_blocker \<Rightarrow> bool" where
  "blocks_repair b \<longleftrightarrow> (case b of MissingAttempts n \<Rightarrow> False | NoVerifiedMeasurements \<Rightarrow> False | _ \<Rightarrow> True)"

definition blocker_list :: "experiment_aggregation \<Rightarrow> publication_blocker list" where
  "blocker_list a = (case ag_blockers a of None \<Rightarrow> [] | Some bs \<Rightarrow> bs)"

definition repairableCoverage :: "publication_services \<Rightarrow> experiment_plan \<Rightarrow> attempt_with_run list \<Rightarrow> publication_error + coverage_report" where
  "repairableCoverage S plan attempts =
     and_then (aggregateExperiment S plan attempts True) (\<lambda>result.
       let blockers = filter blocks_repair (blocker_list result)
       in if blockers \<noteq> [] then Inl (RepairBlocked blockers) else Inr (ag_coverage result))"

definition retry_wave :: "benchmark_wave option \<Rightarrow> string" where
  "retry_wave w = (case w of Some SyntheticMemory \<Rightarrow> ''memory'' | Some SyntheticSystem \<Rightarrow> ''system'' | _ \<Rightarrow> ''realworld'')"

definition wave_text :: "benchmark_wave option \<Rightarrow> string" where
  "wave_text w = (case w of None \<Rightarrow> ''undefined'' | Some SyntheticMemory \<Rightarrow> ''synthetic-memory''
     | Some SyntheticSystem \<Rightarrow> ''synthetic-system'' | Some Realworld \<Rightarrow> ''realworld'')"

definition expected_job_name :: "experiment_batch \<Rightarrow> experiment_cell list \<Rightarrow> string" where
  "expected_job_name batch planned =
     (let suites = insertion_order (map c_suite planned); suite = (if length suites = 1 then hd suites else wave_text (b_wave batch))
      in ''retry-'' @ retry_wave (b_wave batch) @ '' (vercel, ['' @ [CHR 0x22] @ ''vercel'' @ [CHR 0x22] @ ''], '' @ suite @ '', '' @
         b_id batch @ '') / vercel'')"

text \<open>The one executor step was skipped after the one authentication step had failed.\<close>

definition never_executed :: "job_step list \<Rightarrow> bool" where
  "never_executed steps \<longleftrightarrow>
     (case (filter (\<lambda>s. js_name s = ''Run suite and normalize'') steps, filter (\<lambda>s. js_name s = ''Authenticate with Vercel'') steps) of
        ([executor], [auth]) \<Rightarrow> js_conclusion executor = ''skipped'' \<and> js_conclusion auth = ''failure'' \<and> js_number auth < js_number executor
      | _ \<Rightarrow> False) \<and>
     distinct (map js_number steps)"

definition unstarted_receipt_verified :: "publication_services \<Rightarrow> experiment_plan \<Rightarrow> attempt_with_run list \<Rightarrow> string \<Rightarrow> string list \<Rightarrow>
  unstarted_batch \<times> string \<Rightarrow> bool" where
  "unstarted_receipt_verified S plan attempts operator used receipt =
     (case receipt of (r, digest) \<Rightarrow>
       case find (\<lambda>b. b_id b = ub_batchId r) (p_batches plan) of
         None \<Rightarrow> False
       | Some batch \<Rightarrow>
           let planned = filter (\<lambda>c. c_id c \<in> set (b_cells batch)) (p_cells plan)
           in planned \<noteq> [] \<and> b_id batch \<notin> set used \<and> ub_workflow_sha r = UNSTARTED_BATCH_WORKFLOW_REVISION \<and>
              recordsDigest S (ub_cellIds r) = recordsDigest S (b_cells batch) \<and>
              list_all (\<lambda>c. c_provider c = ''vercel'' \<and> c_quotaDomain c = ''vercel'') planned \<and>
              ub_planDigest r = p_digest plan \<and> ub_sourceSha r = p_sha plan \<and> p_sha plan = UNSTARTED_BATCH_SOURCE_REVISION \<and>
              nat_string (ub_workflow_id r) = p_id plan \<and> ub_job_run_id r = ub_workflow_id r \<and>
              ub_job_run_attempt r = ub_workflow_attempt r \<and> ub_job_sha r = ub_workflow_sha r \<and>
              ub_job_name r = expected_job_name batch planned \<and> ub_operator r = operator \<and> ub_workflow_login r = operator \<and>
              ub_journal_recordsDigest r = recordsDigest S [] \<and> receiptDigest S r = digest \<and> never_executed (ub_job_steps r) \<and>
              \<not> list_ex (\<lambda>a. at_cellId (aw_evidence a) \<in> set (b_cells batch)) attempts)"

text \<open>The receipts in order, each with its digest: the cells of their batches and the receipts.\<close>

fun verifyUnstartedBatches :: "publication_services \<Rightarrow> experiment_plan \<Rightarrow> attempt_with_run list \<Rightarrow> string \<Rightarrow> string list \<Rightarrow>
  (unstarted_batch \<times> string) list \<Rightarrow> publication_error + string list \<times> unstarted_batch list" where
  "verifyUnstartedBatches S plan attempts operator used [] = Inr ([], [])"
| "verifyUnstartedBatches S plan attempts operator used (receipt # receipts) =
     (if \<not> unstarted_receipt_verified S plan attempts operator used receipt then Inl UnstartedUnverified
      else
        let r = fst receipt;
            batch_cells = (case find (\<lambda>b. b_id b = ub_batchId r) (p_batches plan) of None \<Rightarrow> [] | Some b \<Rightarrow> b_cells b)
        in and_then (verifyUnstartedBatches S plan attempts operator (ub_batchId r # used) receipts) (\<lambda>(cells, rs).
             Inr (batch_cells @ cells, r # rs)))"

definition repair_selection_ok :: "publication_services \<Rightarrow> experiment_plan \<Rightarrow> attempt_with_run list \<Rightarrow> experiment_plan \<Rightarrow>
  cell_report list \<Rightarrow> experiment_repair \<Rightarrow> bool" where
  "repair_selection_ok S source originals recovery targets repair \<longleftrightarrow>
     xr_sourceRun repair = p_id source \<and> xr_sourceSha repair = p_sha source \<and> xr_sourcePlanDigest repair = p_digest source \<and>
     xr_sourceAttemptsDigest repair = repairAttemptsDigest S originals \<and> xr_recoveryRun repair = p_id recovery \<and>
     xr_recoveryPlanDigest repair = p_digest recovery \<and> p_id source \<noteq> p_id recovery \<and> p_sha source = p_sha recovery \<and>
     length (xr_cells repair) = length targets \<and> length (p_cells recovery) = length targets \<and>
     length (remdups (map fst (xr_cells repair))) = length targets"

definition target_unchanged :: "publication_services \<Rightarrow> experiment_plan \<Rightarrow> experiment_plan \<Rightarrow> experiment_repair \<Rightarrow> cell_report \<Rightarrow>
  publication_error + unit" where
  "target_unchanged S source recovery repair target =
     (case (find (\<lambda>c. fst c = cv_id target) (xr_cells repair), cell_of_plan source (cv_id target), cell_of_plan recovery (cv_id target)) of
        (Some binding, Some cell, Some replacement) \<Rightarrow>
          if snd binding = cv_attemptId target \<and> cellDigest S cell = cellDigest S replacement then Inr ()
          else Inl (RepairChangesPolicy (cv_id target))
      | _ \<Rightarrow> Inl (RepairChangesPolicy (cv_id target)))"

definition replacement_report :: "string list \<Rightarrow> coverage_report \<Rightarrow> cell_report \<Rightarrow> publication_error + cell_report" where
  "replacement_report replaced recovered c =
     (if cv_id c \<notin> set replaced then Inr c
      else case find (\<lambda>n. cv_id n = cv_id c) (rp_cells recovered) of
             None \<Rightarrow> Inl (RecoveryCellMissing (cv_id c))
           | Some n \<Rightarrow> Inr n)"

text \<open>A blocker of the recovery stands unless it is the lack of measurements or the unstarted cells alone.\<close>

definition repair_blocker_stands :: "coverage_report \<Rightarrow> string list \<Rightarrow> publication_blocker \<Rightarrow> bool" where
  "repair_blocker_stands recovered unstarted b \<longleftrightarrow>
     (case b of
        NoVerifiedMeasurements \<Rightarrow> False
      | MissingAttempts n \<Rightarrow>
          \<not> list_all (\<lambda>c. cv_id c \<in> set unstarted) (filter (\<lambda>c. cv_status c = Missing) (rp_cells recovered))
      | _ \<Rightarrow> True)"

definition plan_verified :: "publication_services \<Rightarrow> experiment_plan \<Rightarrow> publication_error + unit" where
  "plan_verified S plan =
     (case verifyExperimentPlan (services.truncate S) plan of Inl e \<Rightarrow> Inl (Evaluation (PlanRejected e)) | Inr p \<Rightarrow> Inr ())"

definition repaired_coverage :: "experiment_plan \<Rightarrow> cell_report list \<Rightarrow> coverage_report" where
  "repaired_coverage source cells = \<lparr>rp_planDigest = p_digest source, rp_complete = list_all settled cells,
     rp_selectedAttempts = selected_ids cells, rp_cells = cells, rp_conflicts = []\<rparr>"

text \<open>The recovered cells put in place of the repaired ones, and the Run rendered from both sets of attempts.\<close>

definition repaired_result :: "publication_services \<Rightarrow> experiment_plan \<Rightarrow> attempt_with_run list \<Rightarrow> attempt_with_run list \<Rightarrow>
  experiment_repair \<Rightarrow> bool \<Rightarrow> coverage_report \<Rightarrow> experiment_aggregation \<Rightarrow> string list \<Rightarrow> unstarted_batch list \<Rightarrow>
  publication_error + experiment_aggregation" where
  "repaired_result S source originals replacements repair allowPartial original result unstarted receipts =
     (let blockers = filter (repair_blocker_stands (ag_coverage result) unstarted) (blocker_list result)
      in if blockers \<noteq> [] then Inr (result\<lparr>ag_run := None, ag_blockers := Some blockers\<rparr>)
         else
           let replaced = map fst (xr_cells repair)
           in and_then (sequence (map (replacement_report replaced (ag_coverage result)) (rp_cells original))) (\<lambda>cells.
                let coverage = repaired_coverage source cells;
                    chosen = filter (\<lambda>a. at_cellId (aw_evidence a) \<notin> set replaced) originals @ replacements;
                    final = partialPublicationBlockers coverage chosen unstarted
                in if final \<noteq> [] \<or> (\<not> rp_complete coverage \<and> \<not> allowPartial)
                   then Inr \<lparr>ag_coverage = coverage, ag_blockers = Some final, ag_run = None\<rparr>
                   else renderExperiment S source chosen coverage (\<not> rp_complete coverage) (Some repair) receipts))"

definition aggregateRepairedExperiment :: "publication_services \<Rightarrow> experiment_plan \<Rightarrow> attempt_with_run list \<Rightarrow> experiment_plan \<Rightarrow>
  attempt_with_run list \<Rightarrow> experiment_repair \<times> string \<Rightarrow> bool \<Rightarrow> (unstarted_batch \<times> string) list \<Rightarrow>
  publication_error + experiment_aggregation" where
  "aggregateRepairedExperiment S source originals recovery replacements input allowPartial batches =
     (let repair = fst input
      in and_then (if repairDigest S repair \<noteq> snd input then Inl RepairDigestMismatch else Inr ()) (\<lambda>_.
         and_then (plan_verified S source) (\<lambda>_.
         and_then (plan_verified S recovery) (\<lambda>_.
         and_then (repairableCoverage S source originals) (\<lambda>original.
           let targets = filter (\<lambda>c. \<not> settled c) (rp_cells original)
           in and_then (if repair_selection_ok S source originals recovery targets repair then Inr () else Inl RepairSelectionMismatch) (\<lambda>_.
              and_then (reject_each (target_unchanged S source recovery repair) targets) (\<lambda>_.
              and_then (verifyUnstartedBatches S recovery replacements (xr_operator repair) [] batches) (\<lambda>unstarted.
              and_then (aggregateExperiment S recovery replacements True) (\<lambda>result.
                repaired_result S source originals replacements repair allowPartial original result
                  (fst unstarted) (snd unstarted))))))))))"

section \<open>Lemmas\<close>

lemma attempt_blockers_none:
  "attempt_blockers a = [] \<longleftrightarrow>
     (aw_run a \<noteq> None \<or> isUnallocatedFailureWithoutRun a) \<and> at_rawDigest (aw_evidence a) \<noteq> None \<and>
     (at_cleanup (aw_evidence a) = UnresolvedCleanup \<longrightarrow> aw_cleanupRecovery a \<noteq> None)"
  by (auto simp: attempt_blockers_def)

lemma no_blockers:
  "partialPublicationBlockers coverage attempts unstarted = [] \<longleftrightarrow>
     rp_conflicts coverage = [] \<and>
     (\<forall>c\<in>set (rp_cells coverage). cv_status c = Missing \<longrightarrow> cv_id c \<in> set unstarted) \<and>
     (\<forall>a\<in>set attempts. attempt_blockers a = []) \<and> (\<exists>c\<in>set (rp_cells coverage). retained_of c \<noteq> [])"
proof -
  have "length (filter (\<lambda>c. cv_status c = Missing \<and> cv_id c \<notin> set unstarted) (rp_cells coverage)) = 0 \<longleftrightarrow>
      (\<forall>c\<in>set (rp_cells coverage). cv_status c = Missing \<longrightarrow> cv_id c \<in> set unstarted)"
    by (auto simp: filter_empty_conv)
  then show ?thesis
    by (auto simp: partialPublicationBlockers_def Let_def list_ex_iff)
qed

lemma renderExperiment_Inr:
  assumes "renderExperiment S plan attempts coverage partial repair unstarted = Inr r"
  obtains runs merged providers link run where
    "sequence (map (publish_shard plan coverage partial)
       (filter (\<lambda>a. \<not> (partial \<and> isUnallocatedFailureWithoutRun a)) (selected_attempts S coverage partial attempts))) = Inr runs"
    "merge_shards S runs = Inr merged"
    "admission_gaps plan (run_providers merged)
       (filter isUnallocatedFailureWithoutRun (selected_attempts S coverage partial attempts)) = Inr providers"
    "experiment_link_of S plan coverage partial repair unstarted (selected_attempts S coverage partial attempts) = Inr link"
    "run = merged\<lparr>run_version := (if partial then 8 else 7), run_experiment := Some link, run_providers := locale_sort S pv_id providers\<rparr>"
    "run_narrow run = Inr ()" "r = \<lparr>ag_coverage = coverage, ag_blockers = None, ag_run = Some run\<rparr>"
proof -
  let ?chosen = "selected_attempts S coverage partial attempts"
  obtain runs merged providers link where parts:
    "sequence (map (publish_shard plan coverage partial)
       (filter (\<lambda>a. \<not> (partial \<and> isUnallocatedFailureWithoutRun a)) ?chosen)) = Inr runs"
    "merge_shards S runs = Inr merged"
    "admission_gaps plan (run_providers merged) (filter isUnallocatedFailureWithoutRun ?chosen) = Inr providers"
    "experiment_link_of S plan coverage partial repair unstarted ?chosen = Inr link"
    "(case parseRun (merged\<lparr>run_version := (if partial then 8 else 7), run_experiment := Some link,
        run_providers := locale_sort S pv_id providers\<rparr>) of
        Inl v \<Rightarrow> Inl (PublishedRunRejected v)
      | Inr run \<Rightarrow> Inr \<lparr>ag_coverage = coverage, ag_blockers = None, ag_run = Some run\<rparr>) = Inr r"
    using assms unfolding renderExperiment_def Let_def and_then_Inr_iff by blast
  show thesis
    by (rule that[OF parts(1-4) refl]) (use parts(5) in \<open>auto simp: parseRun_def and_then_unit split: sum.splits\<close>)
qed

lemma experiment_link_of_fields:
  assumes "experiment_link_of S plan coverage partial repair unstarted chosen = Inr link"
  shows "ex_planDigest link = p_digest plan" "ex_repair link = repair" "ex_attemptIds link = selected_attempt_ids coverage partial"
    "ex_partial link \<noteq> None \<longleftrightarrow> partial"
  using assms by (auto simp: experiment_link_of_def and_then_Inr_iff split: if_splits)

lemma aggregateExperiment_run:
  assumes "aggregateExperiment S plan attempts allowPartial = Inr r" "ag_run r = Some run"
  obtains coverage where "evaluate S plan attempts = Inr coverage" "ag_coverage r = coverage"
    "\<forall>a\<in>set attempts. check_recovery S plan attempts a = Inr ()"
    "rp_complete coverage \<or> allowPartial \<and> partialPublicationBlockers coverage attempts [] = []"
    "renderExperiment S plan attempts coverage (\<not> rp_complete coverage) None [] = Inr r"
proof -
  from assms(1) obtain coverage where c: "evaluate S plan attempts = Inr coverage"
    "reject_each (check_recovery S plan attempts) attempts = Inr ()"
    "(if \<not> rp_complete coverage \<and> (\<not> (\<not> rp_complete coverage \<and> allowPartial) \<or> partialPublicationBlockers coverage attempts [] \<noteq> [])
      then Inr \<lparr>ag_coverage = coverage, ag_blockers = (if partialPublicationBlockers coverage attempts [] = [] then None
        else Some (partialPublicationBlockers coverage attempts [])), ag_run = None\<rparr>
      else renderExperiment S plan attempts coverage (\<not> rp_complete coverage \<and> allowPartial) None []) = Inr r"
    using assms(1) unfolding aggregateExperiment_def Let_def and_then_unit and_then_Inr_iff by blast
  from c(3) assms(2) have ok: "rp_complete coverage \<or> allowPartial \<and> partialPublicationBlockers coverage attempts [] = []"
    by (auto split: if_splits)
  then have "(\<not> rp_complete coverage \<and> allowPartial) = (\<not> rp_complete coverage)" by blast
  then have render: "renderExperiment S plan attempts coverage (\<not> rp_complete coverage) None [] = Inr r"
    using c(3) ok by (simp split: if_splits)
  show thesis
  proof (rule that[OF c(1) _ _ ok render])
    show "ag_coverage r = coverage" using renderExperiment_Inr[OF render] by (metis experiment_aggregation.select_convs(1))
    show "\<forall>a\<in>set attempts. check_recovery S plan attempts a = Inr ()" using c(2) by (simp add: reject_each_Inr)
  qed
qed

lemma evaluate_Inr: "evaluate S plan attempts = Inr r \<longleftrightarrow> evaluateExperiment (evidence_services.truncate S) plan attempts = Inr r"
  by (simp add: evaluate_def split: sum.split)

text \<open>Where the samples of a merged metric come from, through the merge of one metric, a provider and a run.\<close>

definition sampled_in :: "provider_run list \<Rightarrow> string \<Rightarrow> string \<Rightarrow> jsnum \<Rightarrow> bool" where
  "sampled_in rows provider i x \<longleftrightarrow> (\<exists>row\<in>set rows. pv_id row = provider \<and> (\<exists>m\<in>set (pv_metrics row). metricId m = i \<and> x \<in> set (samples m)))"

lemma mergeMetric_samples:
  assumes "mergeMetricReplicates cs = Inr m" "x \<in> set (samples m)" "\<And>k m0 ids. (k, (m0, ids)) \<in> set cs \<Longrightarrow> metricId m0 = i"
  shows "metricId m = i \<and> (\<exists>k m0 ids. (k, (m0, ids)) \<in> set cs \<and> x \<in> set (samples m0))"
proof (cases "length cs = 1")
  case True
  obtain k m0 ids where m0: "(k, (m0, ids)) \<in> set cs" "m = with_metric_ids ids m0" using mergeMetric_single[OF True assms(1)] by blast
  then have "x \<in> set (samples m0)" "metricId m = i" using assms(2) assms(3)[OF m0(1)] by simp_all
  then show ?thesis using m0(1) by blast
next
  case False
  have "cs \<noteq> []" using assms(1) by (auto simp: mergeMetricReplicates_def)
  then have "2 \<le> length cs" using False by (cases cs; cases "tl cs") auto
  from mergeMetric_many[OF this assms(1)] obtain k m0 ids where m: "(k, (m0, ids)) \<in> set cs" "metricId m = metricId m0"
    "samples m = concat (map rep_samples (map metric_slice (sort_key fst cs)))" by auto
  obtain c where c: "c \<in> set cs" "x \<in> set (rep_samples (metric_slice c))" using m(3) assms(2) by auto
  obtain k' m' ids' where e: "c = (k', (m', ids'))" by (cases c) auto
  then have "(k', (m', ids')) \<in> set cs" "x \<in> set (samples m')" using c by (simp_all add: metric_slice_def)
  then show ?thesis using m(1,2) assms(3) by blast
qed

lemma merged_metric_sampled:
  assumes "mergeProvider S provider entries spec emit = Inr p" "m \<in> set (pv_metrics p)" "metricId m \<notin> set (map md_id economicsMetrics)"
    "x \<in> set (samples m)"
  shows "\<exists>(slice, k)\<in>set entries. \<exists>m0\<in>set (pv_metrics slice). metricId m0 = metricId m \<and> x \<in> set (samples m0)"
proof -
  obtain st measured metrics where st: "merge_slices S empty_merge entries = Inr st"
    "sequence (map (\<lambda>(i, byReplicate). mergeMetricReplicates byReplicate) (ms_metrics st)) = Inr measured"
    "with_economics S provider spec measured = Inr metrics" "set (pv_metrics p) = set metrics"
    by (rule mergeProvider_Inr[OF assms(1)])
  have "m \<in> set measured"
  proof (rule ccontr)
    assume new: "m \<notin> set measured"
    obtain pricing rows where "deriveEconomics pricing (map (\<lambda>m. (metricId m, agg_mean (aggregates_of m))) measured) None spec = Inr rows"
      "m \<in> set rows"
      using st(3,4) assms(2) new by (auto simp: with_economics_def split: option.splits if_splits sum.splits)
    then have "metricId m \<in> set (map md_id economicsMetrics)" using deriveEconomics_facts by fastforce
    then show False using assms(3) by simp
  qed
  moreover have "map (\<lambda>(i, byReplicate). mergeMetricReplicates byReplicate) (ms_metrics st) = map Inr measured"
    using st(2) by (simp only: sequence_Inr_iff)
  ultimately have "Inr m \<in> set (map (\<lambda>(i, byReplicate). mergeMetricReplicates byReplicate) (ms_metrics st))" by simp
  then obtain i cs where cs: "(i, cs) \<in> set (ms_metrics st)" "mergeMetricReplicates cs = Inr m" by auto
  have inv: "\<forall>(k, (m0, ids))\<in>set cs. \<exists>slice. (slice, k) \<in> set entries \<and> m0 \<in> set (pv_metrics slice) \<and> metricId m0 = i \<and>
      ids = observedMixtureIds (contentId S) (pv_observedSpecs slice) \<and> \<not> isDerivedMetric S m0"
    using merge_metrics_inv[OF st(1)] cs(1) unfolding metrics_inv_def by fastforce
  have "metricId m = i \<and> (\<exists>k m0 ids. (k, (m0, ids)) \<in> set cs \<and> x \<in> set (samples m0))"
    by (rule mergeMetric_samples[OF cs(2) assms(4)]) (use inv in fastforce)
  then obtain k m0 ids where m0: "(k, (m0, ids)) \<in> set cs" "x \<in> set (samples m0)" "metricId m = i" by blast
  then obtain slice where "(slice, k) \<in> set entries" "m0 \<in> set (pv_metrics slice)" "metricId m0 = i" using inv by fastforce
  then have "(slice, k) \<in> set entries \<and> (\<exists>m0\<in>set (pv_metrics slice). metricId m0 = metricId m \<and> x \<in> set (samples m0))"
    using m0(2,3) by auto
  then show ?thesis by blast
qed

lemma aggregated_sampled:
  assumes "aggregateRuns S runs = Inr run" "p \<in> set (run_providers run)" "m \<in> set (pv_metrics p)"
    "metricId m \<notin> set (map md_id economicsMetrics)" "x \<in> set (samples m)"
  shows "\<exists>shard\<in>set runs. sampled_in (run_providers shard) (pv_id p) (metricId m) x"
proof -
  obtain first emit ps where ps: "sequence (map (\<lambda>i. mergeProvider S i (provider_slices runs i) (run_targetSpec first) emit)
      (merged_providers S runs)) = Inr ps" "run = merged_document S first runs emit ps"
    by (rule aggregateRuns_Inr[OF assms(1)])
  have "map (\<lambda>i. mergeProvider S i (provider_slices runs i) (run_targetSpec first) emit) (merged_providers S runs) = map Inr ps"
    using ps(1) by (simp only: sequence_Inr_iff)
  then have "Inr p \<in> set (map (\<lambda>i. mergeProvider S i (provider_slices runs i) (run_targetSpec first) emit) (merged_providers S runs))"
    using assms(2) ps(2) by (simp add: merged_document_def)
  then obtain i where i: "mergeProvider S i (provider_slices runs i) (run_targetSpec first) emit = Inr p" by auto
  have "pv_id p = i" by (rule mergeProvider_Inr[OF i])
  then show ?thesis
    using merged_metric_sampled[OF i assms(3-5)] by (fastforce simp: provider_slices_def sampled_in_def)
qed

text \<open>What a published shard keeps of an attempt's Run.\<close>

lemma published_shard:
  assumes "publish_shard plan coverage partial a = Inr shard" "sampled_in (run_providers shard) provider i x"
  shows "map_option c_provider (planned_cell_of plan a) = Some provider \<and> i \<in> set (published_metrics plan coverage partial a) \<and>
    (\<exists>run. aw_run a = Some run \<and> sampled_in (run_providers run) provider i x)"
  using assms
  by (fastforce simp: publish_shard_def sampled_in_def publish_provider_def Let_def split: option.splits if_splits)

lemma push_gap_rows:
  "row \<in> set (push_gap i g ps) \<Longrightarrow> m \<in> set (pv_metrics row) \<Longrightarrow> \<exists>q\<in>set ps. pv_id q = pv_id row \<and> m \<in> set (pv_metrics q)"
  by (induction ps) (auto simp: blank_provider_def split: if_splits)

lemma admission_gaps_rows:
  "admission_gaps plan ps as = Inr qs \<Longrightarrow> row \<in> set qs \<Longrightarrow> m \<in> set (pv_metrics row) \<Longrightarrow>
   \<exists>q\<in>set ps. pv_id q = pv_id row \<and> m \<in> set (pv_metrics q)"
proof (induction as arbitrary: ps)
  case (Cons a as)
  then obtain cell where "admission_gaps plan (push_gap (c_provider cell) (admission_gap cell a) ps) as = Inr qs"
    by (auto split: option.splits)
  from Cons.IH[OF this Cons.prems(2,3)] show ?case using push_gap_rows by metis
qed auto

lemma selected_attempts_mem:
  "a \<in> set (selected_attempts S coverage partial attempts) \<longleftrightarrow>
     a \<in> set attempts \<and> at_id (aw_evidence a) \<in> set (selected_attempt_ids coverage partial)"
  by (auto simp: selected_attempts_def locale_sort_def)

text \<open>An experiment whose blockers leave no conflict out was evaluated without conflicts.\<close>

lemma aggregateExperiment_coverage:
  assumes "aggregateExperiment S plan attempts allowPartial = Inr r"
  shows "evaluate S plan attempts = Inr (ag_coverage r)"
    "\<forall>n. ConflictingEvidence n \<notin> set (blocker_list r) \<Longrightarrow> rp_conflicts (ag_coverage r) = []"
proof -
  from assms obtain coverage where c: "evaluate S plan attempts = Inr coverage"
    "(if \<not> rp_complete coverage \<and> (\<not> (\<not> rp_complete coverage \<and> allowPartial) \<or> partialPublicationBlockers coverage attempts [] \<noteq> [])
      then Inr \<lparr>ag_coverage = coverage, ag_blockers = (if partialPublicationBlockers coverage attempts [] = [] then None
        else Some (partialPublicationBlockers coverage attempts [])), ag_run = None\<rparr>
      else renderExperiment S plan attempts coverage (\<not> rp_complete coverage \<and> allowPartial) None []) = Inr r"
    unfolding aggregateExperiment_def Let_def and_then_unit and_then_Inr_iff by blast
  let ?blocked = "\<not> rp_complete coverage \<and> (\<not> (\<not> rp_complete coverage \<and> allowPartial) \<or> partialPublicationBlockers coverage attempts [] \<noteq> [])"
  have rendered: "ag_coverage r = coverage" if "\<not> ?blocked"
    using that c(2) by (simp only: if_False) (erule renderExperiment_Inr, simp)
  then have cov: "ag_coverage r = coverage" using c(2) by (cases ?blocked) auto
  then show "evaluate S plan attempts = Inr (ag_coverage r)" using c(1) by simp
  show "rp_conflicts (ag_coverage r) = []" if none: "\<forall>n. ConflictingEvidence n \<notin> set (blocker_list r)"
  proof (cases ?blocked)
    case True
    then have "blocker_list r = partialPublicationBlockers coverage attempts []"
      using c(2) by (auto simp: blocker_list_def)
    then show ?thesis using none cov by (auto simp: partialPublicationBlockers_def Let_def split: if_splits)
  next
    case False
    show ?thesis
    proof (cases "rp_complete coverage")
      case True
      have "evaluateExperiment (evidence_services.truncate S) plan attempts = Inr coverage" using c(1) by (simp add: evaluate_Inr)
      then show ?thesis using True cov evaluateExperiment_Inr by metis
    next
      case incomplete: False
      then have "partialPublicationBlockers coverage attempts [] = []" using False by blast
      then show ?thesis using cov no_blockers by blast
    qed
  qed
qed

lemma evaluated_ids:
  assumes "evaluate S plan attempts = Inr coverage"
  shows "map cv_id (rp_cells coverage) = map c_id (p_cells plan)" "distinct (map c_id (p_cells plan))"
proof -
  have eval: "evaluateExperiment (evidence_services.truncate S) plan attempts = Inr coverage" using assms by (simp add: evaluate_Inr)
  have id: "cv_id (snd (evaluate_cell S' plan attempts c)) = c_id c" for S' :: evidence_services and c
    by (simp add: evaluate_cell_def Let_def)
  show "map cv_id (rp_cells coverage) = map c_id (p_cells plan)"
    by (rule evaluateExperiment_Inr[OF eval]) (simp add: comp_def id)
  have "verifyExperimentPlan (services.truncate (evidence_services.truncate S)) plan = Inr plan"
    by (rule evaluateExperiment_Inr[OF eval])
  then show "distinct (map c_id (p_cells plan))" using accepted_parts(3,4) by metis
qed

lemma verifyUnstarted_facts:
  "verifyUnstartedBatches S plan attempts operator used receipts = Inr (cells, rs) \<Longrightarrow>
   rs = map fst receipts \<and> distinct (map ub_batchId rs) \<and> set (map ub_batchId rs) \<inter> set used = {} \<and>
   (\<forall>r\<in>set rs. ub_operator r = operator \<and> never_executed (ub_job_steps r)) \<and>
   (\<forall>c\<in>set cells. \<exists>b\<in>set (p_batches plan). c \<in> set (b_cells b) \<and> b_id b \<in> ub_batchId ` set rs \<and>
      (\<forall>a\<in>set attempts. at_cellId (aw_evidence a) \<noteq> c))"
proof (induction receipts arbitrary: used cells rs)
  case (Cons receipt receipts)
  obtain r digest where rd: "receipt = (r, digest)" by fastforce
  have ok: "unstarted_receipt_verified S plan attempts operator used receipt" using Cons.prems by (auto split: if_splits)
  then obtain b where b: "find (\<lambda>b. b_id b = ub_batchId r) (p_batches plan) = Some b"
    using rd by (auto simp: unstarted_receipt_verified_def split: option.splits)
  then have b': "b \<in> set (p_batches plan)" "b_id b = ub_batchId r" by (auto simp: find_Some_iff)
  obtain cells' rs' where rest: "verifyUnstartedBatches S plan attempts operator (ub_batchId r # used) receipts = Inr (cells', rs')"
    "cells = b_cells b @ cells'" "rs = r # rs'"
    using Cons.prems ok rd b by (auto simp: Let_def and_then_Inr_iff)
  have facts: "ub_batchId r \<notin> set used" "ub_operator r = operator" "never_executed (ub_job_steps r)"
    "\<forall>a\<in>set attempts. at_cellId (aw_evidence a) \<notin> set (b_cells b)"
    using ok[unfolded unstarted_receipt_verified_def rd prod.case b option.case Let_def list_ex_iff b'(2)] by blast+
  note tail = Cons.IH[OF rest(1)]
  have "\<exists>b\<in>set (p_batches plan). c \<in> set (b_cells b) \<and> b_id b \<in> ub_batchId ` set rs \<and> (\<forall>a\<in>set attempts. at_cellId (aw_evidence a) \<noteq> c)"
    if "c \<in> set cells" for c
  proof (cases "c \<in> set (b_cells b)")
    case True
    then have "\<forall>a\<in>set attempts. at_cellId (aw_evidence a) \<noteq> c" using facts(4) by auto
    moreover have "b_id b \<in> ub_batchId ` set rs" using b'(2) rest(3) by simp
    ultimately show ?thesis using True b'(1) by blast
  next
    case False
    then have "c \<in> set cells'" using that rest(2) by simp
    then obtain b1 where "b1 \<in> set (p_batches plan)" "c \<in> set (b_cells b1)" "b_id b1 \<in> ub_batchId ` set rs'"
      "\<forall>a\<in>set attempts. at_cellId (aw_evidence a) \<noteq> c" using tail by blast
    moreover have "set rs' \<subseteq> set rs" using rest(3) by auto
    ultimately show ?thesis by blast
  qed
  moreover have "rs = map fst (receipt # receipts)" using tail rest(3) rd by simp
  moreover have "ub_batchId r \<notin> set (map ub_batchId rs')" "set (map ub_batchId rs') \<inter> set used = {}" "distinct (map ub_batchId rs')"
    using tail by (auto simp del: set_map)
  moreover from this have "distinct (map ub_batchId rs)" "set (map ub_batchId rs) \<inter> set used = {}"
    using rest(3) facts(1) by (simp_all del: set_map)
  moreover have "\<forall>r\<in>set rs. ub_operator r = operator \<and> never_executed (ub_job_steps r)"
    using tail rest(3) facts(2,3) by simp
  ultimately show ?case by blast
qed simp

lemma list_all2_mono':
  "list_all2 P xs ys \<Longrightarrow> (\<And>x y. x \<in> set xs \<Longrightarrow> P x y \<Longrightarrow> Q x y) \<Longrightarrow> list_all2 Q xs ys"
  by (auto simp: list_all2_conv_all_nth)

lemma found: "find P xs = Some x \<Longrightarrow> x \<in> set xs \<and> P x"
  by (auto simp: find_Some_iff)

text \<open>The bindings of a verified repair name exactly the unsettled cells, and so do the cells of its plan.\<close>

lemma repair_names_targets:
  assumes "repair_selection_ok S source originals recovery targets repair"
    "\<forall>t\<in>set targets. target_unchanged S source recovery repair t = Inr ()"
    "distinct (map cv_id targets)" "distinct (map c_id (p_cells recovery))"
  shows "set (map fst (xr_cells repair)) = set (map cv_id targets)" "set (map c_id (p_cells recovery)) = set (map cv_id targets)"
proof -
  have len: "length (remdups (map fst (xr_cells repair))) = length targets" "length (p_cells recovery) = length targets"
    using assms(1) by (simp_all add: repair_selection_ok_def)
  have named: "cv_id t \<in> set (map fst (xr_cells repair)) \<and> cv_id t \<in> set (map c_id (p_cells recovery))" if "t \<in> set targets" for t
  proof -
    have "target_unchanged S source recovery repair t = Inr ()" using assms(2) that by blast
    then obtain binding c where "find (\<lambda>c. fst c = cv_id t) (xr_cells repair) = Some binding"
      "find (\<lambda>c. c_id c = cv_id t) (p_cells recovery) = Some c"
      by (auto simp: target_unchanged_def cell_of_plan_def split: option.splits)
    from found[OF this(1)] found[OF this(2)] show ?thesis by force
  qed
  have count: "card (set (map cv_id targets)) = length targets" using distinct_card[OF assms(3)] by simp
  show "set (map fst (xr_cells repair)) = set (map cv_id targets)"
    by (rule card_subset_eq[symmetric])
      (use named count len(1) in \<open>auto simp: length_remdups_card_conv\<close>)
  show "set (map c_id (p_cells recovery)) = set (map cv_id targets)"
    by (rule card_subset_eq[symmetric])
      (use named count len(2) distinct_card[OF assms(4)] in auto)
qed

section \<open>Properties\<close>

text \<open>
  Property C11. A Run is published only when the evaluated coverage has no conflict and every reviewed
  recovery binds its attempt: as version 7 when every cell is settled, else, only on request, as version
  8, when no cell is missing, every attempt has a Run or a stopped admission, a raw digest and a resolved
  or recovered cleanup, and some metric was verified; the published document passes the schema's checks.
\<close>

theorem published_only_when_verified:
  assumes "aggregateExperiment S plan attempts allowPartial = Inr r" "ag_run r = Some run"
  shows "evaluateExperiment (evidence_services.truncate S) plan attempts = Inr (ag_coverage r) \<and> rp_conflicts (ag_coverage r) = [] \<and>
    (\<forall>a\<in>set attempts. \<forall>c. aw_cleanupRecovery a = Some c \<longrightarrow> verifyCleanupRecovery S plan a c = Inr ()) \<and> run_narrow run = Inr () \<and>
    (if rp_complete (ag_coverage r) then run_version run = 7
     else allowPartial \<and> run_version run = 8 \<and> (\<forall>c\<in>set (rp_cells (ag_coverage r)). cv_status c \<noteq> Missing) \<and>
       (\<forall>a\<in>set attempts. (aw_run a \<noteq> None \<or> isUnallocatedFailureWithoutRun a) \<and> at_rawDigest (aw_evidence a) \<noteq> None \<and>
          (at_cleanup (aw_evidence a) = UnresolvedCleanup \<longrightarrow> aw_cleanupRecovery a \<noteq> None)) \<and>
       (\<exists>c\<in>set (rp_cells (ag_coverage r)). retained_of c \<noteq> []))"
proof -
  obtain coverage where c: "evaluate S plan attempts = Inr coverage" "ag_coverage r = coverage"
    "\<forall>a\<in>set attempts. check_recovery S plan attempts a = Inr ()"
    "rp_complete coverage \<or> allowPartial \<and> partialPublicationBlockers coverage attempts [] = []"
    "renderExperiment S plan attempts coverage (\<not> rp_complete coverage) None [] = Inr r"
    by (rule aggregateExperiment_run[OF assms])
  note evaluated = c(1)[unfolded evaluate_Inr]
  obtain merged link providers where run:
    "run = merged\<lparr>run_version := (if \<not> rp_complete coverage then 8 else 7), run_experiment := Some link,
       run_providers := locale_sort S pv_id providers\<rparr>" "run_narrow run = Inr ()"
    using renderExperiment_Inr[OF c(5)] assms(2) by (metis experiment_aggregation.select_convs(3) option.inject)
  have version: "run_version run = (if rp_complete coverage then 7 else 8)" unfolding run(1) by simp
  have recoveries: "verifyCleanupRecovery S plan a rec = Inr ()" if "a \<in> set attempts" "aw_cleanupRecovery a = Some rec" for a rec
    using c(3) that by (auto simp: check_recovery_def and_then_Inr_iff)
  show ?thesis
  proof (cases "rp_complete coverage")
    case True
    then have "rp_conflicts coverage = []" using evaluateExperiment_Inr[OF evaluated] by metis
    then show ?thesis using True c(2) evaluated recoveries run(2) version by simp
  next
    case False
    then have blockers: "allowPartial" "partialPublicationBlockers coverage attempts [] = []" using c(4) by auto
    note clear = blockers(2)[unfolded no_blockers attempt_blockers_none]
    show ?thesis using False blockers(1) clear c(2) evaluated recoveries run(2) version by auto
  qed
qed

text \<open>
  Property C12. No number is invented: every sample of a published metric, the derived economics apart, is
  a sample of that metric in the Run of a selected attempt whose planned cell is of that provider, and
  the metric is one the coverage lets that attempt publish.
\<close>

theorem published_samples_are_measured:
  assumes render: "renderExperiment S plan attempts coverage partial repair unstarted = Inr r" and run: "ag_run r = Some run"
    and p: "p \<in> set (run_providers run)" and m: "m \<in> set (pv_metrics p)" "metricId m \<notin> set (map md_id economicsMetrics)"
    and x: "x \<in> set (samples m)"
  shows "\<exists>a\<in>set attempts. at_id (aw_evidence a) \<in> set (selected_attempt_ids coverage partial) \<and>
    metricId m \<in> set (published_metrics plan coverage partial a) \<and>
    map_option c_provider (planned_cell_of plan a) = Some (pv_id p) \<and>
    (\<exists>shard row m0. aw_run a = Some shard \<and> row \<in> set (run_providers shard) \<and> pv_id row = pv_id p \<and>
       m0 \<in> set (pv_metrics row) \<and> metricId m0 = metricId m \<and> x \<in> set (samples m0))"
proof -
  obtain runs merged providers link run' where parts:
    "sequence (map (publish_shard plan coverage partial)
       (filter (\<lambda>a. \<not> (partial \<and> isUnallocatedFailureWithoutRun a)) (selected_attempts S coverage partial attempts))) = Inr runs"
    "merge_shards S runs = Inr merged"
    "admission_gaps plan (run_providers merged)
       (filter isUnallocatedFailureWithoutRun (selected_attempts S coverage partial attempts)) = Inr providers"
    "run' = merged\<lparr>run_version := (if partial then 8 else 7), run_experiment := Some link,
       run_providers := locale_sort S pv_id providers\<rparr>"
    "r = \<lparr>ag_coverage = coverage, ag_blockers = None, ag_run = Some run'\<rparr>"
    by (rule renderExperiment_Inr[OF render])
  have "run = run'" using parts(5) run by simp
  then have "p \<in> set providers" using p unfolding parts(4) by (simp add: locale_sort_def)
  then obtain q where q: "q \<in> set (run_providers merged)" "pv_id q = pv_id p" "m \<in> set (pv_metrics q)"
    using admission_gaps_rows[OF parts(3) _ m(1)] by blast
  have "aggregateRuns (merge_services.truncate S) runs = Inr merged"
    using parts(2) by (simp add: merge_shards_def split: sum.splits)
  from aggregated_sampled[OF this q(1,3) m(2) x] obtain shard where
    shard: "shard \<in> set runs" "sampled_in (run_providers shard) (pv_id p) (metricId m) x" using q(2) by auto
  have "map (publish_shard plan coverage partial)
      (filter (\<lambda>a. \<not> (partial \<and> isUnallocatedFailureWithoutRun a)) (selected_attempts S coverage partial attempts)) = map Inr runs"
    using parts(1) by (simp only: sequence_Inr_iff)
  then have "Inr shard \<in> set (map (publish_shard plan coverage partial)
      (filter (\<lambda>a. \<not> (partial \<and> isUnallocatedFailureWithoutRun a)) (selected_attempts S coverage partial attempts)))"
    using shard(1) by simp
  then obtain a where a: "publish_shard plan coverage partial a = Inr shard" "a \<in> set (selected_attempts S coverage partial attempts)"
    by auto
  show ?thesis
    using published_shard[OF a(1) shard(2)] a(2) unfolding selected_attempts_mem sampled_in_def by blast
qed

text \<open>
  The unstarted batches of a repair: every receipt is taken once, names the operator and a
  skipped executor after a failed authentication, and the cells it excuses belong to its batch of the
  plan and were attempted by no attempt.
\<close>

theorem unstarted_batches_once:
  assumes "verifyUnstartedBatches S plan attempts operator [] receipts = Inr (cells, rs)"
  shows "rs = map fst receipts \<and> distinct (map ub_batchId rs) \<and>
    (\<forall>r\<in>set rs. ub_operator r = operator \<and> never_executed (ub_job_steps r)) \<and>
    (\<forall>c\<in>set cells. \<exists>b\<in>set (p_batches plan). c \<in> set (b_cells b) \<and> b_id b \<in> ub_batchId ` set rs \<and>
       (\<forall>a\<in>set attempts. at_cellId (aw_evidence a) \<noteq> c))"
  using verifyUnstarted_facts[OF assms] by blast

text \<open>
  Property C13. A published repair replaces exactly the cells the original experiment left unsettled:
  its recovery plan has those cells and no others, every settled cell keeps its original report and every
  other one takes the report of the recovery's own evaluation, both evaluations are free of conflicts, and
  the Run is linked to the original plan and the repair.
\<close>

theorem repair_replaces_unsettled:
  assumes "aggregateRepairedExperiment S source originals recovery replacements (repair, digest) allowPartial batches = Inr r"
    "ag_run r = Some run"
  shows "\<exists>original recovered link. evaluate S source originals = Inr original \<and> evaluate S recovery replacements = Inr recovered \<and>
    rp_conflicts original = [] \<and> rp_conflicts recovered = [] \<and>
    set (map c_id (p_cells recovery)) = cv_id ` {c \<in> set (rp_cells original). \<not> settled c} \<and>
    list_all2 (\<lambda>c d. cv_id d = cv_id c \<and> (if settled c then d = c else d \<in> set (rp_cells recovered)))
      (rp_cells original) (rp_cells (ag_coverage r)) \<and>
    run_experiment run = Some link \<and> ex_planDigest link = p_digest source \<and> ex_repair link = Some repair \<and>
    run_version run = (if list_all settled (rp_cells (ag_coverage r)) then 7 else 8)"
proof -
  obtain original unstarted receipts result where parts:
    "repairableCoverage S source originals = Inr original"
    "repair_selection_ok S source originals recovery (filter (\<lambda>c. \<not> settled c) (rp_cells original)) repair"
    "reject_each (target_unchanged S source recovery repair) (filter (\<lambda>c. \<not> settled c) (rp_cells original)) = Inr ()"
    "aggregateExperiment S recovery replacements True = Inr result"
    "repaired_result S source originals replacements repair allowPartial original result unstarted receipts = Inr r"
    using assms(1) unfolding aggregateRepairedExperiment_def Let_def fst_conv and_then_unit and_then_Inr_iff
    by (auto split: if_split_asm)
  define replaced where "replaced = map fst (xr_cells repair)"
  obtain cells where cells: "filter (repair_blocker_stands (ag_coverage result) unstarted) (blocker_list result) = []"
    "sequence (map (replacement_report replaced (ag_coverage result)) (rp_cells original)) = Inr cells"
    "renderExperiment S source (filter (\<lambda>a. at_cellId (aw_evidence a) \<notin> set replaced) originals @ replacements)
       (repaired_coverage source cells) (\<not> rp_complete (repaired_coverage source cells)) (Some repair) receipts = Inr r"
    using parts(5) assms(2) unfolding repaired_result_def replaced_def Let_def
    by (auto simp: and_then_Inr_iff simp del: sequence.simps filter_empty_conv split: if_splits)
  obtain first where first: "aggregateExperiment S source originals True = Inr first" "original = ag_coverage first"
    "filter blocks_repair (blocker_list first) = []"
    using parts(1) unfolding repairableCoverage_def Let_def and_then_Inr_iff by (auto simp del: filter_empty_conv split: if_split_asm)
  have original: "evaluate S source originals = Inr original" "rp_conflicts original = []"
    using aggregateExperiment_coverage[OF first(1)] first(2,3) by (fastforce simp: filter_empty_conv blocks_repair_def)+
  have recovered: "evaluate S recovery replacements = Inr (ag_coverage result)" "rp_conflicts (ag_coverage result) = []"
    using aggregateExperiment_coverage[OF parts(4)] cells(1) by (fastforce simp: filter_empty_conv repair_blocker_stands_def)+
  have distinct_ids: "distinct (map cv_id (rp_cells original))" using evaluated_ids[OF original(1)] by simp
  have names: "set replaced = cv_id ` {c \<in> set (rp_cells original). \<not> settled c}"
    "set (map c_id (p_cells recovery)) = cv_id ` {c \<in> set (rp_cells original). \<not> settled c}"
    using repair_names_targets[OF parts(2) parts(3)[unfolded reject_each_Inr] distinct_map_filter[OF distinct_ids]
        evaluated_ids(2)[OF recovered(1)]] by (simp_all add: replaced_def)
  have "list_all2 (\<lambda>c d. replacement_report replaced (ag_coverage result) c = Inr d) (rp_cells original) cells"
    using cells(2) by (simp add: sequence_Inr_iff list_eq_iff_nth_eq list_all2_conv_all_nth)
  then have "list_all2 (\<lambda>c d. cv_id d = cv_id c \<and> (if settled c then d = c else d \<in> set (rp_cells (ag_coverage result))))
      (rp_cells original) cells"
  proof (rule list_all2_mono')
    fix c d assume c: "c \<in> set (rp_cells original)" and d: "replacement_report replaced (ag_coverage result) c = Inr d"
    have settled: "settled c \<longleftrightarrow> cv_id c \<notin> set replaced"
      unfolding names(1) using c distinct_ids by (auto simp: distinct_map inj_on_def)
    show "cv_id d = cv_id c \<and> (if settled c then d = c else d \<in> set (rp_cells (ag_coverage result)))"
      using d settled by (auto simp: replacement_report_def dest: found split: if_splits option.splits)
  qed
  moreover obtain merged link providers run' where run':
    "experiment_link_of S source (repaired_coverage source cells) (\<not> rp_complete (repaired_coverage source cells)) (Some repair) receipts
       (selected_attempts S (repaired_coverage source cells) (\<not> rp_complete (repaired_coverage source cells))
         (filter (\<lambda>a. at_cellId (aw_evidence a) \<notin> set replaced) originals @ replacements)) = Inr link"
    "run' = merged\<lparr>run_version := (if \<not> rp_complete (repaired_coverage source cells) then 8 else 7),
       run_experiment := Some link, run_providers := locale_sort S pv_id providers\<rparr>"
    "r = \<lparr>ag_coverage = repaired_coverage source cells, ag_blockers = None, ag_run = Some run'\<rparr>"
    by (rule renderExperiment_Inr[OF cells(3)])
  moreover have "run = run'" using run'(3) assms(2) by simp
  moreover note experiment_link_of_fields(1,2)[OF run'(1)]
  ultimately show ?thesis
    using original recovered names(2) by (simp add: repaired_coverage_def)
qed

section \<open>Published and repaired examples\<close>

definition example_publication_services :: publication_services where
  "example_publication_services = merge_services.extend
     (evidence_services.extend example_evidence_services (merge_services.fields (\<lambda>_. ''content'') (\<lambda>_. []) (\<lambda>_. []) (\<lambda>_. None)))
     (publication_services.fields (\<lambda>_. ''cohorts'') (\<lambda>_. Fin 0))"

lemmas publication_services_defs = example_publication_services_def example_evidence_services_def example_services_def
  services.defs evidence_services.defs merge_services.defs publication_services.defs

lemma example_publication_truncate:
  "evidence_services.truncate example_publication_services = example_evidence_services"
  "services.truncate example_publication_services = example_services"
  by (simp_all add: publication_services_defs)

lemma example_publication_collation [simp]: "collation example_publication_services = (\<lambda>s. s)"
  by (simp add: publication_services_defs)

definition example_merged_services :: merge_services where
  "example_merged_services = merge_services.truncate example_publication_services"

lemma example_merged_simps [simp]: "collation example_merged_services = (\<lambda>s. s)" "pricingOf example_merged_services = (\<lambda>_. None)"
  "metricOf example_merged_services = (\<lambda>_. Some example_metric)" "contentId example_merged_services = (\<lambda>_. ''content'')"
  by (simp_all add: example_merged_services_def publication_services_defs)

text \<open>The shard of the measured attempt as a Run of the given plan, and the Run merged from it.\<close>

definition published_row :: "string \<Rightarrow> provider_run" where
  "published_row i = example_provider\<lparr>pv_artifactEvidence := Some [example_evidence\<lparr>ae_cell :=
     \<lparr>cc_runId = i, cc_providerId = ''p'', cc_suite = ''memory'', cc_replicateIndex = Some 0\<rparr>\<rparr>]\<rparr>"

definition merged_row :: "string \<Rightarrow> provider_run" where
  "merged_row i = (published_row i)\<lparr>pv_observedMixtures := Some \<lparr>om_sandboxes = 1, om_hostHardware = [], om_hostNetwork = []\<rparr>\<rparr>"

definition merged_shard :: "string \<Rightarrow> run_doc" where
  "merged_shard i = shard_run\<lparr>run_id := i, run_replicateIndex := None, run_providers := [merged_row i]\<rparr>"

lemma example_published:
  assumes "p_id plan = i" "p_cells plan = [example_cell ''c0'' ''memory'']"
  shows "publish_shard plan coverage False measured_retry = Inr (shard_run\<lparr>run_id := i, run_providers := [published_row i]\<rparr>)"
  using assms
  by (simp add: publish_shard_def measured_retry_def failed_admission_def shard_run_def publish_provider_def planned_cell_of_def
      cell_of_plan_def published_metrics_def omitted_metrics_def example_eligible example_cell_def eligible_metrics_def excluded_metrics_def
      published_row_def example_provider_def example_evidence_def plain_metric_def Let_def)

lemma example_provider_merges:
  "mergeProvider example_merged_services ''p'' [(published_row i, 0)] spec True = Inr (merged_row i)"
  by (simp add: mergeProvider_def merge_slice_def Let_def empty_merge_def add_cost_def add_artifacts_def option_list_def
      merged_row_def published_row_def example_provider_def plain_metric_def isDerivedMetric_def mergeMetricReplicates_def
      metric_slice_def providerReportedNothing_def buildObservedMixtures_def tallyCategory_def categoryOf_def projection_def
      List.map_filter_def HOST_HARDWARE_SPEC_KEYS_def HOST_NETWORK_SPEC_KEYS_def with_economics_def byDominance_def
      hardware_entry_def example_evidence_def example_metric_def merged_verdict_def representativeSpecs_def locale_sort_def
      foldHostMetadata_def insertion_order_def with_metric_ids_def observedMixtureIds_def)

lemma merged_shard_parses: "run_narrow (merged_shard i) = Inr ()"
  by (simp add: run_narrow_def provenance_narrow_def experiment_narrow_def merged_shard_def merged_row_def published_row_def
      shard_run_def has_replicates_def provider_narrow_def provider_versions_def example_provider_def example_evidence_def
      metric_narrow_def aggregatesSchema_def plain_metric_def metric_ids_resolve_def resolves_def cell_of_run_def mixtures_narrow_def)

lemma example_merged:
  "merge_shards example_publication_services [shard_run\<lparr>run_id := i, run_providers := [published_row i]\<rparr>] = Inr (merged_shard i)"
proof -
  define run where "run = shard_run\<lparr>run_id := i, run_providers := [published_row i]\<rparr>"
  have slices: "merged_providers example_merged_services [run] = [''p'']" "provider_slices [run] ''p'' = [(published_row i, 0)]"
    by (simp_all add: run_def merged_providers_def provider_slices_def locale_sort_def insertion_order_def shard_run_def published_row_def
        example_provider_def)
  have doc: "merged_document example_merged_services run [run] True [merged_row i] = merged_shard i"
    by (simp add: run_def merged_document_def merged_shard_def shard_run_def locale_sort_def)
  have "run_version run = 6" "run_experiment run = None" "shard_agrees run run = Inr ()"
    by (simp_all add: run_def shard_run_def shard_agrees_def)
  then have "aggregateRuns example_merged_services [run] = Inr (merged_shard i)"
    by (simp add: aggregateRuns_def Let_def slices example_provider_merges doc parseRun_def merged_shard_parses)
  then show ?thesis by (simp add: merge_shards_def example_merged_services_def run_def)
qed

text \<open>The rendering of a complete experiment of the one cell, from a plan of any id and with any repair that names it.\<close>

lemma example_rendered:
  assumes "p_id plan = i" "p_cells plan = [example_cell ''c0'' ''memory'']" "p_digest plan = []" "rp_selectedAttempts coverage = [''a1'']"
    "pred_option (\<lambda>x. xr_sourceRun x = i \<and> xr_sourceSha x = ''s'' \<and> xr_sourcePlanDigest x = [] \<and> i \<noteq> xr_recoveryRun x \<and>
       xr_cells x = [(''c0'', Some ''a0'')]) repair"
  shows "\<exists>run. renderExperiment example_publication_services plan example_attempts coverage False repair [] =
    Inr \<lparr>ag_coverage = coverage, ag_blockers = None, ag_run = Some run\<rparr> \<and> run_providers run = [merged_row i]"
proof -
  have chosen: "selected_attempts example_publication_services coverage False example_attempts = [measured_retry]"
    using assms(4)
    by (simp add: selected_attempts_def selected_attempt_ids_def locale_sort_def example_attempts_def measured_retry_def failed_admission_def)
  have measured: "isUnallocatedFailureWithoutRun measured_retry = False" "aw_cleanupRecovery measured_retry = None"
    by (simp_all add: isUnallocatedFailureWithoutRun_def measured_retry_def failed_admission_def)
  define link where "link = \<lparr>ex_planDigest = [], ex_cohortDigest = Some ''cohorts'', ex_attemptIds = [''a1''],
    ex_cleanupRecoveries = None, ex_repair = repair, ex_unstartedBatches = None, ex_partial = None\<rparr>"
  have link: "experiment_link_of example_publication_services plan coverage False repair [] [measured_retry] = Inr link"
    using assms(3,4)
    by (simp add: experiment_link_of_def link_def selected_attempt_ids_def recoveries_of_def List.map_filter_def measured(2))
      (simp add: publication_services_defs)
  define run where "run = (merged_shard i)\<lparr>run_version := 7, run_experiment := Some link\<rparr>"
  have "experiment_narrow run = Inr ()"
    using assms(5)
    by (cases repair) (simp_all add: experiment_narrow_def run_def link_def merged_shard_def shard_run_def repair_bound_def)
  moreover have "pred_option link_fields (run_experiment run)" by (simp add: run_def link_fields_def link_def)
  moreover have "provider_narrow (merged_row i) = Inr ()" "provider_versions run (merged_row i) = Inr ()" "run_providers run = [merged_row i]"
    "\<not> has_replicates run" "run_version run = 7"
    by (simp_all add: run_def provenance_narrow_def merged_shard_def merged_row_def published_row_def
      shard_run_def has_replicates_def provider_narrow_def provider_versions_def example_provider_def example_evidence_def
      metric_narrow_def aggregatesSchema_def plain_metric_def metric_ids_resolve_def resolves_def cell_of_run_def mixtures_narrow_def)
  ultimately have parsed: "run_narrow run = Inr ()" by (simp add: run_narrow_def)
  have shown: "(merged_shard i)\<lparr>run_version := 7, run_experiment := Some link, run_providers := locale_sort example_publication_services pv_id
      (run_providers (merged_shard i))\<rparr> = run"
    by (simp add: run_def merged_shard_def locale_sort_def)
  have "run_providers run = [merged_row i]" by (simp add: run_def merged_shard_def)
  then show ?thesis
    by (simp add: renderExperiment_def chosen measured example_published[OF assms(1,2)] example_merged link parseRun_def shown parsed)
qed

lemma example_plan_parts: "p_id one_cell_plan = ''x''" "p_cells one_cell_plan = [example_cell ''c0'' ''memory'']" "p_digest one_cell_plan = []"
  by (simp_all add: one_cell_plan_def example_plan_def)

lemma example_report_parts: "rp_complete example_report" "rp_selectedAttempts example_report = [''a1'']"
  by (simp_all add: example_report_def)

lemma example_aggregated:
  "\<exists>run. aggregateExperiment example_publication_services one_cell_plan example_attempts allowPartial =
    Inr \<lparr>ag_coverage = example_report, ag_blockers = None, ag_run = Some run\<rparr> \<and> run_providers run = [merged_row ''x'']"
proof -
  have "evaluate example_publication_services one_cell_plan example_attempts = Inr example_report"
    by (simp add: evaluate_Inr example_publication_truncate example_evaluated)
  moreover have "reject_each (check_recovery example_publication_services one_cell_plan example_attempts) example_attempts = Inr ()"
    by (simp add: reject_each_Inr example_attempts_def measured_retry_def failed_admission_def check_recovery_def)
  ultimately show ?thesis
    using example_rendered[OF example_plan_parts example_report_parts(2), of None] example_report_parts(1)
    by (simp add: aggregateExperiment_def)
qed

lemma published_only_when_verified_witness:
  "\<exists>r run. aggregateExperiment example_publication_services one_cell_plan example_attempts False = Inr r \<and> ag_run r = Some run \<and>
    run_version run = 7"
proof -
  obtain r run where r: "aggregateExperiment example_publication_services one_cell_plan example_attempts False = Inr r"
    "ag_run r = Some run" "ag_coverage r = example_report"
    using example_aggregated by (metis experiment_aggregation.select_convs(1,3))
  then show ?thesis using published_only_when_verified[OF r(1,2)] example_report_parts(1) by auto
qed

lemma published_samples_are_measured_witness:
  "\<exists>a\<in>set example_attempts. \<exists>shard row m0. aw_run a = Some shard \<and> row \<in> set (run_providers shard) \<and> pv_id row = ''p'' \<and>
    m0 \<in> set (pv_metrics row) \<and> metricId m0 = ''m'' \<and> Fin 1 \<in> set (samples m0)"
proof -
  obtain run where run: "renderExperiment example_publication_services one_cell_plan example_attempts example_report False None [] =
      Inr \<lparr>ag_coverage = example_report, ag_blockers = None, ag_run = Some run\<rparr>" "run_providers run = [merged_row ''x'']"
    using example_rendered[OF example_plan_parts example_report_parts(2), of None] by auto
  have row: "merged_row ''x'' \<in> set (run_providers run)" "pv_id (merged_row ''x'') = ''p''" "pv_metrics (merged_row ''x'') = pv_metrics example_provider"
    by (simp_all add: run(2) merged_row_def published_row_def) (simp add: example_provider_def)
  obtain m where m: "m \<in> set (pv_metrics (merged_row ''x''))" "metricId m = ''m''" "Fin 1 \<in> set (samples m)"
    by (simp add: row(3) example_provider_def plain_metric_def)
  have "''m'' \<notin> set (map md_id economicsMetrics)"
    by (simp add: economicsMetrics_def derived_metric_def ECONOMICS_METRIC_IDS_def)
  then show ?thesis
    using published_samples_are_measured[OF run(1) _ row(1) m(1) _ m(3), unfolded m(2) row(2)] by fastforce
qed

text \<open>An experiment whose one admission failed, and its repair by the experiment above.\<close>

definition failed_source :: experiment_plan where
  "failed_source = one_cell_plan\<lparr>p_id := ''y''\<rparr>"

definition source_attempt :: attempt_with_run where
  "source_attempt = failed_admission\<lparr>aw_evidence := (aw_evidence failed_admission)\<lparr>at_workflowRun := ''y''\<rparr>\<rparr>"

definition failed_report :: coverage_report where
  "failed_report = \<lparr>rp_planDigest = [], rp_complete = False, rp_selectedAttempts = [],
     rp_cells = [\<lparr>cv_id = ''c0'', cv_status = Failed, cv_missingMetrics = [''m''], cv_excludedMetrics = [], cv_attemptId = Some ''a0'',
       cv_retainedMetrics = Some [], cv_passShortfalls = None\<rparr>], rp_conflicts = []\<rparr>"

definition example_repair :: experiment_repair where
  "example_repair = \<lparr>xr_sourceRun = ''y'', xr_sourceSha = ''s'', xr_sourcePlanDigest = [], xr_sourceAttemptsDigest = [],
     xr_recoveryRun = ''x'', xr_recoveryPlanDigest = [], xr_operator = ''op'', xr_reason = ''admission failed'',
     xr_cells = [(''c0'', Some ''a0'')]\<rparr>"

lemmas source_defs = failed_source_def coverage_example_defs

lemma source_accepted: "verifyExperimentPlan example_services failed_source = Inr failed_source"
proof -
  have "plan_schema (plan_body.truncate failed_source)"
    by (simp add: plan_schema_def source_defs plan_body.defs cell_schema_def batch_schema_def capacity_schema_def
        target_schema_def safe_minutes_def max_safe_def)
  moreover have "verify_request example_services (plan_body.truncate failed_source) = Inr ()"
    by (simp add: verify_request_def source_defs plan_body.defs example_date cell_eligible_def excluded_metric_def)
  moreover have "verify_schedule (plan_body.truncate failed_source) = Inr ()"
    by (simp add: verify_schedule_def verify_batch_def verify_round_def no_batches_def no_rounds_def source_defs
        plan_body.defs find_account_def find_cell_def cell_eligible_def excluded_metric_def List.map_filter_def suite_wave_def
        example_waves single_wave.simps insertion_order_def batch_fits_def gpu_demand_def gpu_limit_def max_member_budget_def
        cell_budget_def BENCH_JOB_CEILING_MINUTES_def Let_def)
  ultimately show ?thesis
    by (simp add: verifyExperimentPlan_def Let_def) (simp add: source_defs plan_body.defs cohort_evidence_def)
qed

lemma source_parts: "p_id failed_source = ''y''" "p_cells failed_source = [example_cell ''c0'' ''memory'']" "p_digest failed_source = []"
  "p_sha failed_source = ''s''"
  by (simp_all add: failed_source_def one_cell_plan_def example_plan_def)

lemma source_attempt_parts: "aw_run source_attempt = None" "aw_execution source_attempt = None" "at_cellId (aw_evidence source_attempt) = ''c0''"
  "at_id (aw_evidence source_attempt) = ''a0''" "at_outcome (aw_evidence source_attempt) = FailedAttempt"
  "aw_cleanupRecovery source_attempt = None" "isUnallocatedFailureWithoutRun source_attempt" "at_rawDigest (aw_evidence source_attempt) = Some ''raw''"
  "at_cleanup (aw_evidence source_attempt) = NotAllocated"
  by (simp_all add: source_attempt_def failed_admission_def isUnallocatedFailureWithoutRun_def)

lemma source_evaluated: "evaluate example_publication_services failed_source [source_attempt] = Inr failed_report"
proof -
  let ?cell = "example_cell ''c0'' ''memory''"
  have row: "provider_of ?cell (Some source_attempt) = None" by (simp add: provider_of_def source_attempt_parts)
  have lineage: "lineage_of example_evidence_services [source_attempt] ?cell = [source_attempt]"
    by (simp add: lineage_of_def locale_sort_def source_attempt_parts) (simp add: example_cell_def)
  have "provenance_loop example_evidence_services failed_source {} [source_attempt] = Inr []"
    by (simp add: provenance_conflicts_def Let_def source_attempt_def failed_admission_def source_defs)
  moreover have "pass_shortfalls example_evidence_services ?cell (Some source_attempt) = []"
    by (simp add: pass_shortfalls_def filter_empty_conv example_evidence_services_def services.defs evidence_services.defs
        example_services_def example_metric_def)
  moreover have "measured_metrics example_evidence_services ?cell (Some source_attempt) = []"
    by (simp add: measured_metrics_def row metrics_of_def)
  moreover have "\<not> measurementVerified example_evidence_services failed_source ?cell (Some source_attempt)"
    by (simp add: measurementVerified_def source_attempt_parts)
  moreover have "valid_lineage failed_source [source_attempt]"
    by (simp add: valid_lineage_def source_attempt_def failed_admission_def)
  ultimately show ?thesis
    using source_parts
    by (simp add: evaluate_Inr example_publication_truncate evaluateExperiment_def example_services_truncate source_accepted
        evaluate_cell_def Let_def lineage example_eligible last_attempt_def cell_status_of_def completed_def source_attempt_parts
        missing_metrics_def selected_ids_def List.map_filter_def settled_def failed_report_def locale_sort_def)
      (simp add: example_cell_def)
qed

lemma source_repairable: "repairableCoverage example_publication_services failed_source [source_attempt] = Inr failed_report"
proof -
  have "partialPublicationBlockers failed_report [source_attempt] [] = [NoVerifiedMeasurements]"
    by (simp add: partialPublicationBlockers_def failed_report_def attempt_blockers_def source_attempt_parts retained_of_def)
  moreover have "\<not> rp_complete failed_report" by (simp add: failed_report_def)
  ultimately show ?thesis
    by (simp add: repairableCoverage_def aggregateExperiment_def source_evaluated check_recovery_def source_attempt_parts
        blocker_list_def blocks_repair_def)
qed

lemma example_repaired:
  "\<exists>r run. aggregateRepairedExperiment example_publication_services failed_source [source_attempt] one_cell_plan example_attempts
    (example_repair, []) False [] = Inr r \<and> ag_run r = Some run"
proof -
  let ?S = "example_publication_services"
  let ?coverage = "repaired_coverage failed_source (rp_cells example_report)"
  have targets: "filter (\<lambda>c. \<not> settled c) (rp_cells failed_report) = rp_cells failed_report"
    by (simp add: failed_report_def settled_def)
  have accepted: "plan_verified ?S failed_source = Inr ()" "plan_verified ?S one_cell_plan = Inr ()"
    by (simp_all add: plan_verified_def example_publication_truncate source_accepted one_cell_accepted)
  have digest: "repairDigest ?S example_repair = []" "repairAttemptsDigest ?S [source_attempt] = []"
    by (simp_all add: repairAttemptsDigest_def publication_services_defs)
  have selection: "repair_selection_ok ?S failed_source [source_attempt] one_cell_plan (rp_cells failed_report) example_repair"
    using digest(2) by (simp add: repair_selection_ok_def example_repair_def source_parts example_plan_parts failed_report_def)
      (simp add: one_cell_plan_def example_plan_def)
  have unchanged: "reject_each (target_unchanged ?S failed_source one_cell_plan example_repair) (rp_cells failed_report) = Inr ()"
    by (simp add: failed_report_def target_unchanged_def example_repair_def cell_of_plan_def source_parts example_plan_parts)
      (simp add: example_cell_def)
  obtain run where result: "aggregateExperiment ?S one_cell_plan example_attempts True =
      Inr \<lparr>ag_coverage = example_report, ag_blockers = None, ag_run = Some run\<rparr>"
    using example_aggregated by blast
  have replaced: "replacement_report [''c0''] example_report (hd (rp_cells failed_report)) = Inr (hd (rp_cells example_report))"
    by (simp add: replacement_report_def failed_report_def example_report_def)
  have coverage: "rp_complete ?coverage" "rp_selectedAttempts ?coverage = [''a1'']"
    by (simp_all add: repaired_coverage_def example_report_def settled_def selected_ids_def List.map_filter_def)
  have final: "partialPublicationBlockers ?coverage example_attempts [] = []"
    unfolding no_blockers attempt_blockers_none
    by (simp add: repaired_coverage_def example_report_def retained_of_def example_attempts_def measured_retry_def failed_admission_def
        isUnallocatedFailureWithoutRun_def)
  obtain run' where rendered: "renderExperiment ?S failed_source example_attempts ?coverage False (Some example_repair) [] =
      Inr \<lparr>ag_coverage = ?coverage, ag_blockers = None, ag_run = Some run'\<rparr>"
    using example_rendered[OF source_parts(1-3) coverage(2), of "Some example_repair"] by (auto simp: example_repair_def)
  have "repaired_result ?S failed_source [source_attempt] example_attempts example_repair False failed_report
      \<lparr>ag_coverage = example_report, ag_blockers = None, ag_run = Some run\<rparr> [] [] =
    Inr \<lparr>ag_coverage = ?coverage, ag_blockers = None, ag_run = Some run'\<rparr>"
    using replaced final coverage(1) rendered
    by (simp add: repaired_result_def blocker_list_def Let_def example_repair_def source_attempt_parts failed_report_def example_report_def)
  then have "aggregateRepairedExperiment ?S failed_source [source_attempt] one_cell_plan example_attempts (example_repair, []) False [] =
    Inr \<lparr>ag_coverage = ?coverage, ag_blockers = None, ag_run = Some run'\<rparr>"
    by (simp add: aggregateRepairedExperiment_def digest(1) accepted source_repairable targets selection unchanged result Let_def)
  then show ?thesis by simp
qed

lemma repair_replaces_unsettled_witness:
  "\<exists>r run. aggregateRepairedExperiment example_publication_services failed_source [source_attempt] one_cell_plan example_attempts
    (example_repair, []) False [] = Inr r \<and> ag_run r = Some run \<and> (\<exists>link. run_experiment run = Some link \<and> ex_repair link = Some example_repair)"
proof -
  obtain r run where r: "aggregateRepairedExperiment example_publication_services failed_source [source_attempt] one_cell_plan example_attempts
    (example_repair, []) False [] = Inr r" "ag_run r = Some run" using example_repaired by blast
  then show ?thesis using repair_replaces_unsettled[OF r] by blast
qed

text \<open>A batch whose Vercel authentication failed before the executor ran.\<close>

definition vercel_plan :: experiment_plan where
  "vercel_plan = one_cell_plan\<lparr>p_id := nat_string 7, p_sha := UNSTARTED_BATCH_SOURCE_REVISION,
     p_cells := [(example_cell ''c0'' ''memory'')\<lparr>c_provider := ''vercel'', c_quotaDomain := ''vercel''\<rparr>]\<rparr>"

definition unstarted_receipt :: unstarted_batch where
  "unstarted_receipt = \<lparr>ub_planDigest = [], ub_sourceSha = UNSTARTED_BATCH_SOURCE_REVISION, ub_batchId = ''b0'', ub_cellIds = [''c0''],
     ub_operator = ''op'', ub_workflow_id = 7, ub_workflow_attempt = 1, ub_workflow_sha = UNSTARTED_BATCH_WORKFLOW_REVISION,
     ub_workflow_login = ''op'', ub_job_run_id = 7, ub_job_run_attempt = 1, ub_job_sha = UNSTARTED_BATCH_WORKFLOW_REVISION,
     ub_job_name = expected_job_name (example_batch ''b0'' ''c0'') (p_cells vercel_plan),
     ub_job_steps = [\<lparr>js_number = 1, js_name = ''Authenticate with Vercel'', js_conclusion = ''failure''\<rparr>,
       \<lparr>js_number = 2, js_name = ''Run suite and normalize'', js_conclusion = ''skipped''\<rparr>],
     ub_journal_recordsDigest = []\<rparr>"

lemma unstarted_batches_once_witness:
  "\<exists>b\<in>set (p_batches vercel_plan). ''c0'' \<in> set (b_cells b) \<and> b_id b = ''b0''"
proof -
  have plan: "p_batches vercel_plan = [example_batch ''b0'' ''c0'']" "p_sha vercel_plan = UNSTARTED_BATCH_SOURCE_REVISION"
    "p_id vercel_plan = nat_string 7" "p_digest vercel_plan = []"
    by (simp_all add: vercel_plan_def one_cell_plan_def example_plan_def)
  have cells: "filter (\<lambda>c. c_id c \<in> {''c0''}) (p_cells vercel_plan) = p_cells vercel_plan" "p_cells vercel_plan \<noteq> []"
    "list_all (\<lambda>c. c_provider c = ''vercel'' \<and> c_quotaDomain c = ''vercel'') (p_cells vercel_plan)"
    by (simp_all add: vercel_plan_def example_cell_def)
  have digests: "recordsDigest example_publication_services = (\<lambda>_. [])" "receiptDigest example_publication_services = (\<lambda>_. [])"
    by (simp_all add: publication_services_defs)
  have "unstarted_receipt_verified example_publication_services vercel_plan [] ''op'' [] (unstarted_receipt, [])"
    using cells
    by (simp add: unstarted_receipt_verified_def unstarted_receipt_def plan example_batch_def digests Let_def never_executed_def)
  then have "verifyUnstartedBatches example_publication_services vercel_plan [] ''op'' [] [(unstarted_receipt, [])] =
      Inr ([''c0''], [unstarted_receipt])"
    by (simp add: Let_def plan) (simp add: unstarted_receipt_def example_batch_def)
  from unstarted_batches_once[OF this] show ?thesis by (auto simp: unstarted_receipt_def)
qed

end
