(* ===== verification/Owner.thy ===== *)
theory Owner
  imports Prelude
begin

text \<open>
  \<open>packages/harness/src/lib/sandbox-owner.ts\<close>: the registry of the sandboxes a process owns. The
  handlers and settled promises are transitions of one state; the bounded drain is a function of the
  outcomes of its rounds. The properties say that no sandbox is lost, that signals stay handled
  while anything is owned, and what the drain reports.
\<close>

section \<open>The registry\<close>

text \<open>An entry's create is pending, gave a handle, failed leaving a cleanup, or failed for good.\<close>

datatype entry_phase = Creating | Live | RecoverableFailure bool | Rejected

text \<open>The shared promise of a destroy: none, pending, or fulfilled.\<close>

datatype destroy_state = NotDestroying | Destroying | Destroyed

record owner_entry =
  oe_phase :: entry_phase
  oe_destroy :: destroy_state

datatype signal = SIGINT | SIGTERM

text \<open>
  The module's state. The last three fields observe the provider: the sandboxes that exist, the destroy
  calls that are running for each, and the sandboxes handed out of ownership.
\<close>

record owner_state =
  os_entries :: "nat \<Rightarrow> owner_entry option"
  os_owned :: "nat set"
  os_handles :: "nat set"
  os_operations :: "nat set"
  os_handlers :: bool
  os_stopping :: bool
  os_signalled :: "signal option"
  os_beforeExit :: bool
  os_drained :: bool
  os_exit :: "nat option"
  os_existing :: "nat set"
  os_calls :: "nat \<Rightarrow> nat"
  os_handedOver :: "nat set"

definition owner_start :: owner_state where
  "owner_start = \<lparr>os_entries = (\<lambda>_. None), os_owned = {}, os_handles = {}, os_operations = {}, os_handlers = False,
     os_stopping = False, os_signalled = None, os_beforeExit = False, os_drained = False, os_exit = None, os_existing = {},
     os_calls = (\<lambda>_. 0), os_handedOver = {}\<rparr>"

datatype owner_error = CreationRefused | OperationRefused

definition signalExitCode :: "signal \<Rightarrow> nat" where
  "signalExitCode s = (if s = SIGINT then 130 else 143)"

definition installProcessHandlers :: "owner_state \<Rightarrow> owner_state" where
  "installProcessHandlers s = s\<lparr>os_handlers := True\<rparr>"

definition uninstallProcessHandlers :: "owner_state \<Rightarrow> owner_state" where
  "uninstallProcessHandlers s = s\<lparr>os_handlers := False\<rparr>"

definition uninstall_when_idle :: "owner_state \<Rightarrow> owner_state" where
  "uninstall_when_idle s = (if os_owned s = {} \<and> os_operations s = {} then uninstallProcessHandlers s else s)"

definition release :: "nat \<Rightarrow> owner_state \<Rightarrow> owner_state" where
  "release i s = uninstall_when_idle (s\<lparr>os_owned := os_owned s - {i}, os_handles := os_handles s - {i}\<rparr>)"

definition releaseOwnedSandbox :: "nat \<Rightarrow> owner_state \<Rightarrow> bool \<times> owner_state" where
  "releaseOwnedSandbox i s =
     (if i \<in> os_handles s then (True, release i (s\<lparr>os_handedOver := insert i (os_handedOver s)\<rparr>)) else (False, s))"

definition set_entry :: "nat \<Rightarrow> owner_entry \<Rightarrow> owner_state \<Rightarrow> owner_state" where
  "set_entry i e s = s\<lparr>os_entries := (os_entries s)(i \<mapsto> e)\<rparr>"

text \<open>Registration comes before the provider's create.\<close>

definition createOwnedSandbox :: "nat \<Rightarrow> owner_state \<Rightarrow> owner_error + owner_state" where
  "createOwnedSandbox i s =
     (if os_stopping s then Inl CreationRefused
      else let s' = installProcessHandlers s
           in Inr (set_entry i \<lparr>oe_phase = Creating, oe_destroy = NotDestroying\<rparr> (s'\<lparr>os_owned := insert i (os_owned s')\<rparr>)))"

definition create_resolved :: "nat \<Rightarrow> owner_state \<Rightarrow> owner_state" where
  "create_resolved i s = set_entry i \<lparr>oe_phase = Live, oe_destroy = NotDestroying\<rparr>
     (s\<lparr>os_handles := insert i (os_handles s), os_existing := insert i (os_existing s)\<rparr>)"

text \<open>
  A rejection that carries a cleanup (\<open>Some\<close>, with or without a cancellable one) may have left an
  allocation and keeps the entry; any other releases it.
\<close>

definition create_rejected :: "bool option \<Rightarrow> nat \<Rightarrow> owner_state \<Rightarrow> owner_state" where
  "create_rejected recoverable i s =
     (case recoverable of
        None \<Rightarrow> release i (set_entry i \<lparr>oe_phase = Rejected, oe_destroy = NotDestroying\<rparr> s)
      | Some cancellable \<Rightarrow>
          set_entry i \<lparr>oe_phase = RecoverableFailure cancellable, oe_destroy = NotDestroying\<rparr>
            (s\<lparr>os_existing := insert i (os_existing s)\<rparr>))"

definition provider_call :: "nat \<Rightarrow> owner_state \<Rightarrow> owner_state" where
  "provider_call i s = s\<lparr>os_calls := (os_calls s)(i := Suc (os_calls s i))\<rparr>"

definition provider_return :: "nat \<Rightarrow> owner_state \<Rightarrow> owner_state" where
  "provider_return i s = s\<lparr>os_calls := (os_calls s)(i := os_calls s i - 1)\<rparr>"

text \<open>A pending or fulfilled destroy is shared, except by a cancellable cleanup, which is called again.\<close>

definition destroy_entry :: "nat \<Rightarrow> owner_entry \<Rightarrow> owner_state \<Rightarrow> owner_state" where
  "destroy_entry i e s =
     (if oe_destroy e = NotDestroying then provider_call i (set_entry i (e\<lparr>oe_destroy := Destroying\<rparr>) s)
      else if oe_phase e = RecoverableFailure True then provider_call i s
      else s)"

definition destroy_settled :: "bool \<Rightarrow> nat \<Rightarrow> owner_entry \<Rightarrow> owner_state \<Rightarrow> owner_state" where
  "destroy_settled confirmed i e s =
     (let s' = provider_return i s
      in if confirmed then release i (set_entry i (e\<lparr>oe_destroy := Destroyed\<rparr>) (s'\<lparr>os_existing := os_existing s' - {i}\<rparr>))
         else set_entry i (e\<lparr>oe_destroy := NotDestroying\<rparr>) s')"

text \<open>A repeated cancellable cleanup that ends; it may have removed the allocation.\<close>

definition cleanup_returned :: "bool \<Rightarrow> nat \<Rightarrow> owner_state \<Rightarrow> owner_state" where
  "cleanup_returned confirmed i s =
     (let s' = provider_return i s in if confirmed then s'\<lparr>os_existing := os_existing s' - {i}\<rparr> else s')"

definition withOwnedShutdownOperation :: "nat \<Rightarrow> owner_state \<Rightarrow> owner_error + owner_state" where
  "withOwnedShutdownOperation k s =
     (if os_stopping s then Inl OperationRefused
      else let s' = installProcessHandlers s in Inr (s'\<lparr>os_operations := insert k (os_operations s')\<rparr>))"

definition operation_settled :: "nat \<Rightarrow> owner_state \<Rightarrow> owner_state" where
  "operation_settled k s = uninstall_when_idle (s\<lparr>os_operations := os_operations s - {k}\<rparr>)"

definition shutdownOwnedSandboxes :: "owner_state \<Rightarrow> owner_state" where
  "shutdownOwnedSandboxes s = s\<lparr>os_stopping := True\<rparr>"

definition exitAfterSandboxCleanup :: "nat \<Rightarrow> string list \<Rightarrow> owner_state \<Rightarrow> owner_state" where
  "exitAfterSandboxCleanup code failures s = s\<lparr>os_exit := Some (if code = 0 \<and> failures \<noteq> [] then 1 else code)\<rparr>"

text \<open>A second signal exits at once; the first drains and then exits.\<close>

definition onSignal :: "signal \<Rightarrow> owner_state \<Rightarrow> owner_state" where
  "onSignal g s =
     (case os_signalled s of
        Some _ \<Rightarrow> s\<lparr>os_exit := Some (signalExitCode g)\<rparr>
      | None \<Rightarrow> shutdownOwnedSandboxes (s\<lparr>os_stopping := True, os_signalled := Some g\<rparr>))"

definition signal_drained :: "signal \<Rightarrow> owner_state \<Rightarrow> owner_state" where
  "signal_drained g s = (uninstallProcessHandlers s)\<lparr>os_exit := Some (signalExitCode g)\<rparr>"

definition onBeforeExit :: "owner_state \<Rightarrow> owner_state" where
  "onBeforeExit s =
     (if (os_owned s = {} \<and> os_operations s = {}) \<or> os_beforeExit s then s
      else shutdownOwnedSandboxes (s\<lparr>os_beforeExit := True\<rparr>))"

definition before_exit_drained :: "owner_state \<Rightarrow> owner_state" where
  "before_exit_drained s = (uninstallProcessHandlers s)\<lparr>os_drained := True\<rparr>"

section \<open>Steps\<close>

inductive owner_step :: "owner_state \<Rightarrow> owner_state \<Rightarrow> bool" where
  create: "\<lbrakk>os_exit s = None; os_entries s i = None; createOwnedSandbox i s = Inr t\<rbrakk> \<Longrightarrow> owner_step s t"
| resolve: "\<lbrakk>os_exit s = None; os_entries s i = Some e; oe_phase e = Creating\<rbrakk> \<Longrightarrow> owner_step s (create_resolved i s)"
| reject: "\<lbrakk>os_exit s = None; os_entries s i = Some e; oe_phase e = Creating\<rbrakk> \<Longrightarrow> owner_step s (create_rejected recoverable i s)"
| destroy: "\<lbrakk>os_exit s = None; os_entries s i = Some e; oe_phase e = Live \<or> (\<exists>c. oe_phase e = RecoverableFailure c)\<rbrakk>
    \<Longrightarrow> owner_step s (destroy_entry i e s)"
| settle: "\<lbrakk>os_exit s = None; os_entries s i = Some e; oe_destroy e = Destroying\<rbrakk> \<Longrightarrow> owner_step s (destroy_settled confirmed i e s)"
| settle_again: "\<lbrakk>os_exit s = None; os_entries s i = Some e; oe_phase e = RecoverableFailure True;
    (if oe_destroy e = Destroying then 1 else 0) < os_calls s i\<rbrakk> \<Longrightarrow> owner_step s (cleanup_returned confirmed i s)"
| hand_over: "os_exit s = None \<Longrightarrow> owner_step s (snd (releaseOwnedSandbox i s))"
| operate: "\<lbrakk>os_exit s = None; withOwnedShutdownOperation k s = Inr t\<rbrakk> \<Longrightarrow> owner_step s t"
| operated: "os_exit s = None \<Longrightarrow> owner_step s (operation_settled k s)"
| shut_down: "os_exit s = None \<Longrightarrow> owner_step s (shutdownOwnedSandboxes s)"
| leave: "\<lbrakk>os_exit s = None; os_stopping s\<rbrakk> \<Longrightarrow> owner_step s (exitAfterSandboxCleanup code failures s)"
| signalled: "\<lbrakk>os_exit s = None; os_handlers s\<rbrakk> \<Longrightarrow> owner_step s (onSignal g s)"
| drained: "\<lbrakk>os_exit s = None; os_signalled s = Some g\<rbrakk> \<Longrightarrow> owner_step s (signal_drained g s)"
| before_exit: "\<lbrakk>os_exit s = None; os_handlers s\<rbrakk> \<Longrightarrow> owner_step s (onBeforeExit s)"
| exit_drained: "\<lbrakk>os_exit s = None; os_beforeExit s\<rbrakk> \<Longrightarrow> owner_step s (before_exit_drained s)"

section \<open>The bounded drain\<close>

text \<open>
  What the drain cannot decide: the elapsed time when an attempt starts, what destroying an entry throws
  in it, whether that call was a repeated one (an earlier cleanup of the same failed create is still in
  flight, so that this call goes straight to the provider and its return releases nothing), and which
  entries an earlier call releases before the attempt's end or in the delay after it.
\<close>

record drain_world =
  dr_elapsed :: "nat \<Rightarrow> int"
  dr_throws :: "nat \<Rightarrow> nat \<Rightarrow> string option"
  dr_repeated :: "nat \<Rightarrow> nat \<Rightarrow> bool"
  dr_late :: "nat \<Rightarrow> nat \<Rightarrow> bool"
  dr_inDelay :: "nat \<Rightarrow> nat \<Rightarrow> bool"

datatype cleanup_failure = TimedOut nat | DestroyThrew nat string | CouldNotCleanUp nat

definition positiveInteger :: "jsnum option \<Rightarrow> nat \<Rightarrow> nat" where
  "positiveInteger value fallback =
     (case Option.bind value finite_value of None \<Rightarrow> fallback | Some v \<Rightarrow> if 0 < v then nat \<lfloor>v\<rfloor> else fallback)"

definition DEFAULT_CLEANUP_ATTEMPTS :: nat where "DEFAULT_CLEANUP_ATTEMPTS = 3"
definition DEFAULT_CLEANUP_TIMEOUT_MS :: nat where "DEFAULT_CLEANUP_TIMEOUT_MS = 15000"

definition withinDeadline :: "drain_world \<Rightarrow> nat \<Rightarrow> nat \<Rightarrow> nat \<Rightarrow> cleanup_failure option" where
  "withinDeadline W timeoutMs attempt i =
     (if int timeoutMs - dr_elapsed W attempt \<le> 0 then Some (TimedOut i) else map_option (DestroyThrew i) (dr_throws W attempt i))"

definition drain_round :: "drain_world \<Rightarrow> nat \<Rightarrow> nat \<Rightarrow> nat list \<Rightarrow> nat list \<times> cleanup_failure list" where
  "drain_round W timeoutMs attempt owned =
     (filter (\<lambda>i. (withinDeadline W timeoutMs attempt i \<noteq> None \<or> dr_repeated W attempt i) \<and> \<not> dr_late W attempt i) owned,
      List.map_filter (withinDeadline W timeoutMs attempt) owned)"

text \<open>The delay is skipped after the last attempt and past the deadline.\<close>

definition after_delay :: "drain_world \<Rightarrow> nat \<Rightarrow> nat \<Rightarrow> nat \<Rightarrow> nat list \<Rightarrow> nat list" where
  "after_delay W timeoutMs attempt remaining owned =
     (if 0 < remaining \<and> 0 < int timeoutMs - dr_elapsed W (Suc attempt) then filter (\<lambda>i. \<not> dr_inDelay W attempt i) owned else owned)"

fun drain_loop :: "drain_world \<Rightarrow> nat \<Rightarrow> nat \<Rightarrow> nat \<Rightarrow> nat list \<Rightarrow> cleanup_failure list \<Rightarrow> nat list \<times> cleanup_failure list" where
  "drain_loop W timeoutMs attempt 0 owned failures = (owned, failures)"
| "drain_loop W timeoutMs attempt (Suc remaining) owned failures =
     (if owned = [] then (owned, failures)
      else
        let (owned', failures') = drain_round W timeoutMs attempt owned
        in if owned' = [] then ([], [])
           else drain_loop W timeoutMs (Suc attempt) remaining (after_delay W timeoutMs attempt remaining owned') failures')"

definition cleanupOwnedSandboxes :: "drain_world \<Rightarrow> jsnum option \<Rightarrow> jsnum option \<Rightarrow> nat list \<Rightarrow> nat list \<times> cleanup_failure list" where
  "cleanupOwnedSandboxes W attempts timeoutMs owned =
     (let (owned', failures) = drain_loop W (positiveInteger timeoutMs DEFAULT_CLEANUP_TIMEOUT_MS) 1
            (positiveInteger attempts DEFAULT_CLEANUP_ATTEMPTS) owned []
      in (owned', if owned' \<noteq> [] \<and> failures = [] then [CouldNotCleanUp (length owned')] else failures))"

section \<open>The primary error\<close>

text \<open>The result and the cleanup error that was suppressed, if any.\<close>

definition withCleanupPreservingPrimaryError :: "'e + 'a \<Rightarrow> 'e + unit \<Rightarrow> ('e + 'a) \<times> 'e list" where
  "withCleanupPreservingPrimaryError outcome cleanup =
     (case (outcome, cleanup) of
        (Inr v, Inl e) \<Rightarrow> (Inl e, [])
      | (Inl primary, Inl e) \<Rightarrow> (Inl primary, [e])
      | (_, Inr _) \<Rightarrow> (outcome, []))"

section \<open>Lemmas\<close>

text \<open>The part of the invariant about one entry.\<close>

definition entry_ok :: "owner_state \<Rightarrow> nat \<Rightarrow> bool" where
  "entry_ok s i \<longleftrightarrow>
     (case os_entries s i of
        None \<Rightarrow> os_calls s i = 0 \<and> i \<notin> os_existing s \<and> i \<notin> os_owned s \<and> i \<notin> os_handles s
      | Some e \<Rightarrow>
          (i \<in> os_handles s \<longrightarrow> oe_phase e = Live \<and> i \<in> os_owned s) \<and>
          (case oe_phase e of
             Creating \<Rightarrow> i \<in> os_owned s \<and> oe_destroy e = NotDestroying \<and> os_calls s i = 0 \<and> i \<notin> os_existing s
           | Rejected \<Rightarrow> oe_destroy e = NotDestroying \<and> os_calls s i = 0 \<and> i \<notin> os_existing s
           | Live \<Rightarrow> os_calls s i = (if oe_destroy e = Destroying then 1 else 0) \<and>
               (if oe_destroy e = Destroyed then i \<notin> os_existing s else i \<in> os_owned s \<or> i \<in> os_handedOver s)
           | RecoverableFailure c \<Rightarrow> (oe_destroy e = Destroying \<longrightarrow> 0 < os_calls s i) \<and>
               (if oe_destroy e = Destroyed then i \<notin> os_existing s else i \<in> os_owned s)))"

definition handlers_ok :: "owner_state \<Rightarrow> bool" where
  "handlers_ok s \<longleftrightarrow>
     (os_exit s = None \<longrightarrow> \<not> os_drained s \<longrightarrow> os_owned s \<noteq> {} \<or> os_operations s \<noteq> {} \<longrightarrow> os_handlers s) \<and>
     (os_drained s \<or> os_beforeExit s \<or> os_signalled s \<noteq> None \<longrightarrow> os_stopping s)"

definition owner_inv :: "owner_state \<Rightarrow> bool" where
  "owner_inv s \<longleftrightarrow> handlers_ok s \<and> (\<forall>i. entry_ok s i)"

lemmas owner_ops = set_entry_def createOwnedSandbox_def create_resolved_def create_rejected_def destroy_entry_def destroy_settled_def
  cleanup_returned_def releaseOwnedSandbox_def release_def uninstall_when_idle_def uninstallProcessHandlers_def installProcessHandlers_def
  provider_call_def provider_return_def withOwnedShutdownOperation_def operation_settled_def shutdownOwnedSandboxes_def
  exitAfterSandboxCleanup_def onSignal_def signal_drained_def onBeforeExit_def before_exit_drained_def

lemma entry_frame:
  "\<lbrakk>entry_ok s i; os_entries t i = os_entries s i; os_calls t i = os_calls s i; i \<in> os_existing t \<longleftrightarrow> i \<in> os_existing s;
    i \<in> os_owned t \<longleftrightarrow> i \<in> os_owned s; i \<in> os_handles t \<longleftrightarrow> i \<in> os_handles s;
    i \<in> os_handedOver t \<longleftrightarrow> i \<in> os_handedOver s\<rbrakk> \<Longrightarrow> entry_ok t i"
  by (simp only: entry_ok_def)

text \<open>What an operation on entry \<open>i\<close> leaves of the others, and what it makes of the entry itself.\<close>

lemma release_entry:
  "os_entries (release i s) = os_entries s" "os_calls (release i s) = os_calls s" "os_existing (release i s) = os_existing s"
  "os_owned (release i s) = os_owned s - {i}" "os_handles (release i s) = os_handles s - {i}"
  "os_handedOver (release i s) = os_handedOver s"
  by (simp_all add: release_def uninstall_when_idle_def uninstallProcessHandlers_def)

lemma create_entry:
  assumes "createOwnedSandbox i s = Inr t" "os_entries s i = None" "entry_ok s j"
  shows "entry_ok t j"
proof (cases "j = i")
  case True
  then show ?thesis using assms
    by (simp add: createOwnedSandbox_def installProcessHandlers_def set_entry_def entry_ok_def Let_def split: if_splits)
      (auto simp: entry_ok_def)
next
  case False
  show ?thesis
    by (rule entry_frame[OF assms(3)])
      (use assms(1) False in \<open>auto simp: createOwnedSandbox_def installProcessHandlers_def set_entry_def Let_def split: if_splits\<close>)
qed

lemma resolve_entry:
  assumes "os_entries s i = Some e" "oe_phase e = Creating" "entry_ok s j"
  shows "entry_ok (create_resolved i s) j"
proof (cases "j = i")
  case True
  then show ?thesis using assms by (simp add: create_resolved_def set_entry_def entry_ok_def)
next
  case False
  then show ?thesis by (intro entry_frame[OF assms(3)]) (simp_all add: create_resolved_def set_entry_def)
qed

lemma reject_entry:
  assumes "os_entries s i = Some e" "oe_phase e = Creating" "entry_ok s j"
  shows "entry_ok (create_rejected recoverable i s) j"
proof (cases "j = i")
  case True
  then show ?thesis using assms
    by (cases recoverable) (simp_all add: create_rejected_def release_entry set_entry_def entry_ok_def)
next
  case False
  then show ?thesis
    by (intro entry_frame[OF assms(3)]) (simp_all add: create_rejected_def release_entry set_entry_def split: option.split)
qed

lemma destroy_entry_ok:
  assumes "os_entries s i = Some e" "oe_phase e = Live \<or> (\<exists>c. oe_phase e = RecoverableFailure c)" "entry_ok s j"
  shows "entry_ok (destroy_entry i e s) j"
proof (cases "j = i")
  case True
  then show ?thesis using assms
    by (cases "oe_phase e"; cases "oe_destroy e") (auto simp: destroy_entry_def set_entry_def provider_call_def entry_ok_def)
next
  case False
  then show ?thesis by (intro entry_frame[OF assms(3)]) (simp_all add: destroy_entry_def set_entry_def provider_call_def)
qed

lemma settle_entry:
  assumes "os_entries s i = Some e" "oe_destroy e = Destroying" "entry_ok s j"
  shows "entry_ok (destroy_settled confirmed i e s) j"
proof (cases "j = i")
  case True
  then show ?thesis using assms
    by (cases "oe_phase e"; cases confirmed)
      (simp_all add: destroy_settled_def release_entry set_entry_def provider_return_def entry_ok_def Let_def)
next
  case False
  then show ?thesis
    by (intro entry_frame[OF assms(3)]) (simp_all add: destroy_settled_def release_entry set_entry_def provider_return_def Let_def)
qed

lemma settle_again_entry:
  assumes "os_entries s i = Some e" "oe_phase e = RecoverableFailure True" "(if oe_destroy e = Destroying then 1 else 0) < os_calls s i"
    "entry_ok s j"
  shows "entry_ok (cleanup_returned confirmed i s) j"
proof (cases "j = i")
  case True
  then show ?thesis using assms
    by (cases "oe_destroy e"; cases confirmed) (simp_all add: cleanup_returned_def provider_return_def entry_ok_def Let_def)
next
  case False
  then show ?thesis by (intro entry_frame[OF assms(4)]) (simp_all add: cleanup_returned_def provider_return_def Let_def)
qed

lemma hand_over_entry:
  assumes "entry_ok s j"
  shows "entry_ok (snd (releaseOwnedSandbox i s)) j"
proof (cases "j = i")
  case True
  show ?thesis
  proof (cases "i \<in> os_handles s")
    case handled: True
    then show ?thesis using assms True
      by (cases "os_entries s i") (auto simp: releaseOwnedSandbox_def release_entry entry_ok_def)
  qed (use assms in \<open>simp add: releaseOwnedSandbox_def\<close>)
next
  case False
  then show ?thesis by (intro entry_frame[OF assms]) (simp_all add: releaseOwnedSandbox_def release_entry)
qed

lemma entry_ok_step:
  assumes "\<forall>i. entry_ok s i" "owner_step s t"
  shows "entry_ok t j"
proof -
  have ok: "entry_ok s j" using assms(1) by blast
  have same: "entry_ok t j" if "os_entries t = os_entries s" "os_calls t = os_calls s" "os_existing t = os_existing s"
    "os_owned t = os_owned s" "os_handles t = os_handles s" "os_handedOver t = os_handedOver s"
    by (rule entry_frame[OF ok]) (simp_all add: that)
  show ?thesis
    using assms(2)
  proof cases
    case (create i)
    then show ?thesis using create_entry ok by blast
  next
    case (resolve i e)
    then show ?thesis using resolve_entry ok by blast
  next
    case (reject i e recoverable)
    then show ?thesis using reject_entry ok by blast
  next
    case (destroy i e)
    then show ?thesis using destroy_entry_ok ok by blast
  next
    case (settle i e confirmed)
    then show ?thesis using settle_entry ok by blast
  next
    case (settle_again i e confirmed)
    then show ?thesis using settle_again_entry ok by blast
  next
    case (hand_over i)
    then show ?thesis using hand_over_entry ok by blast
  next
    case (operate k)
    then show ?thesis by (intro same) (auto simp: owner_ops Let_def split: if_splits)
  next
    case (signalled g)
    then show ?thesis by (intro same) (auto simp: owner_ops split: option.split)
  qed (intro same; simp add: owner_ops)+
qed

lemma handlers_frame:
  "\<lbrakk>handlers_ok s; os_owned t = os_owned s; os_operations t = os_operations s; os_handlers t = os_handlers s;
    os_stopping s \<longrightarrow> os_stopping t; os_drained t = os_drained s; os_exit t = os_exit s; os_exit s = None;
    (os_beforeExit t \<or> os_signalled t \<noteq> None) \<longrightarrow> os_beforeExit s \<or> os_signalled s \<noteq> None \<or> os_stopping t\<rbrakk> \<Longrightarrow> handlers_ok t"
  by (auto simp: handlers_ok_def)

lemma release_handlers: "handlers_ok s \<Longrightarrow> handlers_ok (release i s)"
  by (auto simp: handlers_ok_def release_def uninstall_when_idle_def uninstallProcessHandlers_def)

lemma handlers_ok_step:
  assumes "handlers_ok s" "owner_step s t"
  shows "handlers_ok t"
  using assms(2)
proof cases
  case (create i)
  then show ?thesis using assms(1)
    by (auto simp: handlers_ok_def createOwnedSandbox_def set_entry_def installProcessHandlers_def Let_def split: if_splits)
next
  case (resolve i e)
  then show ?thesis by (intro handlers_frame[OF assms(1)]) (auto simp: create_resolved_def set_entry_def)
next
  case (reject i e recoverable)
  have "handlers_ok (set_entry i \<lparr>oe_phase = Rejected, oe_destroy = NotDestroying\<rparr> s)"
    using reject by (intro handlers_frame[OF assms(1)]) (auto simp: set_entry_def)
  moreover have "handlers_ok (set_entry i \<lparr>oe_phase = RecoverableFailure c, oe_destroy = NotDestroying\<rparr>
      (s\<lparr>os_existing := insert i (os_existing s)\<rparr>))" for c
    using reject by (intro handlers_frame[OF assms(1)]) (auto simp: set_entry_def)
  ultimately show ?thesis
    using reject(1) by (cases recoverable) (simp_all add: create_rejected_def release_handlers)
next
  case (destroy i e)
  then show ?thesis by (intro handlers_frame[OF assms(1)]) (auto simp: destroy_entry_def set_entry_def provider_call_def)
next
  case (settle i e confirmed)
  have "handlers_ok (set_entry i d ((provider_return i s)\<lparr>os_existing := X\<rparr>))" for d X
    using settle by (intro handlers_frame[OF assms(1)]) (auto simp: set_entry_def provider_return_def)
  moreover have "handlers_ok (set_entry i d (provider_return i s))" for d
    using settle by (intro handlers_frame[OF assms(1)]) (auto simp: set_entry_def provider_return_def)
  ultimately show ?thesis using settle(1) by (cases confirmed) (simp_all add: destroy_settled_def Let_def release_handlers)
next
  case (settle_again i e confirmed)
  then show ?thesis by (intro handlers_frame[OF assms(1)]) (auto simp: cleanup_returned_def provider_return_def Let_def)
next
  case (hand_over i)
  have "handlers_ok (s\<lparr>os_handedOver := X\<rparr>)" for X
    using hand_over by (intro handlers_frame[OF assms(1)]) auto
  then show ?thesis using hand_over(1) assms(1) by (simp add: releaseOwnedSandbox_def release_handlers)
next
  case (operate k)
  then show ?thesis using assms(1)
    by (auto simp: handlers_ok_def withOwnedShutdownOperation_def installProcessHandlers_def Let_def split: if_splits)
next
  case (operated k)
  then show ?thesis using assms(1)
    by (auto simp: handlers_ok_def operation_settled_def uninstall_when_idle_def uninstallProcessHandlers_def)
next
  case shut_down
  then show ?thesis by (intro handlers_frame[OF assms(1)]) (auto simp: shutdownOwnedSandboxes_def)
next
  case (leave code failures)
  then show ?thesis using assms(1) by (auto simp: handlers_ok_def exitAfterSandboxCleanup_def)
next
  case (signalled g)
  then show ?thesis using assms(1)
    by (auto simp: handlers_ok_def onSignal_def shutdownOwnedSandboxes_def split: option.split)
next
  case (drained g)
  then show ?thesis using assms(1) by (auto simp: handlers_ok_def signal_drained_def uninstallProcessHandlers_def)
next
  case before_exit
  then show ?thesis using assms(1) by (auto simp: handlers_ok_def onBeforeExit_def shutdownOwnedSandboxes_def)
next
  case exit_drained
  then show ?thesis using assms(1) by (auto simp: handlers_ok_def before_exit_drained_def uninstallProcessHandlers_def)
qed

lemma owner_inv_start: "owner_inv owner_start"
  by (simp add: owner_inv_def handlers_ok_def entry_ok_def owner_start_def)

interpretation owner: step_system "\<lambda>s. s = owner_start" owner_step owner_inv
proof
  show "owner_inv s" if "s = owner_start" for s using that owner_inv_start by simp
  show "owner_inv t" if "owner_inv s" "owner_step s t" for s t
    using that handlers_ok_step entry_ok_step by (auto simp: owner_inv_def)
qed

text \<open>Once the process is stopping it stays so and takes no further sandbox.\<close>

lemma stopping_step:
  assumes "owner_step s t" "os_stopping s"
  shows "os_stopping t \<and> os_owned t \<subseteq> os_owned s \<and> os_operations t \<subseteq> os_operations s"
  using assms
  by cases (auto simp: owner_ops Let_def split: if_splits option.splits)

text \<open>What a round and the loop leave, and what they report.\<close>

lemma map_filter_Nil_iff: "List.map_filter f xs = [] \<longleftrightarrow> (\<forall>x\<in>set xs. f x = None)"
  by (induction xs) (auto simp: List.map_filter_def)

text \<open>An attempt, and the delay after it, leaves an entry owned.\<close>

definition unreleased :: "drain_world \<Rightarrow> nat \<Rightarrow> nat \<Rightarrow> nat \<Rightarrow> nat \<Rightarrow> bool" where
  "unreleased W timeoutMs attempts k i \<longleftrightarrow>
     (withinDeadline W timeoutMs k i \<noteq> None \<or> dr_repeated W k i) \<and> \<not> dr_late W k i \<and>
     (k < attempts \<and> dr_elapsed W (Suc k) < int timeoutMs \<longrightarrow> \<not> dr_inDelay W k i)"

lemma drain_loop_facts:
  "drain_loop W timeoutMs attempt remaining owned failures = (owned', failures') \<Longrightarrow> attempt + remaining = Suc n \<Longrightarrow>
   set owned' = {i \<in> set owned. \<forall>k. attempt \<le> k \<longrightarrow> k \<le> n \<longrightarrow> unreleased W timeoutMs n k i} \<and>
   (\<forall>f\<in>set failures'. f \<in> set failures \<or> (\<exists>i k. i \<in> set owned \<and> attempt \<le> k \<and> k \<le> n \<and> withinDeadline W timeoutMs k i = Some f))"
proof (induction remaining arbitrary: attempt owned failures)
  case (Suc remaining)
  define left where "left = fst (drain_round W timeoutMs attempt owned)"
  define failed where "failed = snd (drain_round W timeoutMs attempt owned)"
  have round: "drain_round W timeoutMs attempt owned = (left, failed)" by (simp add: left_def failed_def)
  have n: "attempt \<le> n" using Suc.prems(2) by simp
  have left: "i \<in> set left" if "i \<in> set owned" "unreleased W timeoutMs n attempt i" for i
    using that by (auto simp: left_def drain_round_def unreleased_def)
  have failed: "\<exists>i. i \<in> set owned \<and> withinDeadline W timeoutMs attempt i = Some f" if "f \<in> set failed" for f
    using that by (auto simp: failed_def drain_round_def List.map_filter_def)
  show ?case
  proof (cases "owned = [] \<or> left = []")
    case True
    then have "(owned', failures') = (if owned = [] then ([], failures) else ([], []))"
      using Suc.prems(1) round by auto
    moreover have "\<not> (i \<in> set owned \<and> (\<forall>k. attempt \<le> k \<longrightarrow> k \<le> n \<longrightarrow> unreleased W timeoutMs n k i))" for i
      using True left n by fastforce
    ultimately show ?thesis by (auto split: if_splits)
  next
    case False
    let ?next = "after_delay W timeoutMs attempt remaining left"
    have rest: "drain_loop W timeoutMs (Suc attempt) remaining ?next failed = (owned', failures')"
      using False Suc.prems(1) round by simp
    have sum: "Suc attempt + remaining = Suc n" using Suc.prems(2) by simp
    note IH = Suc.IH[OF rest sum]
    have "0 < remaining \<longleftrightarrow> attempt < n" using Suc.prems(2) by auto
    then have next_set: "set ?next = {i \<in> set owned. unreleased W timeoutMs n attempt i}"
      by (auto simp: after_delay_def left_def drain_round_def unreleased_def)
    have split: "(\<forall>k. attempt \<le> k \<longrightarrow> k \<le> n \<longrightarrow> P k) \<longleftrightarrow> P attempt \<and> (\<forall>k. Suc attempt \<le> k \<longrightarrow> k \<le> n \<longrightarrow> P k)" for P
      using n by (metis Suc_leD Suc_leI le_neq_implies_less order.refl)
    have "set owned' = {i \<in> set owned. \<forall>k. attempt \<le> k \<longrightarrow> k \<le> n \<longrightarrow> unreleased W timeoutMs n k i}"
      using IH next_set by (subst split) auto
    moreover have "\<exists>i k. i \<in> set owned \<and> attempt \<le> k \<and> k \<le> n \<and> withinDeadline W timeoutMs k i = Some f"
      if f: "f \<in> set failures'" for f
      using IH f
    proof (elim conjE ballE)
      assume "f \<in> set failed \<or> (\<exists>i k. i \<in> set ?next \<and> Suc attempt \<le> k \<and> k \<le> n \<and> withinDeadline W timeoutMs k i = Some f)"
      then show ?thesis
      proof
        assume "f \<in> set failed"
        then show ?thesis using failed n by blast
      qed (use next_set in \<open>auto dest: Suc_leD\<close>)
    qed simp
    ultimately show ?thesis by blast
  qed
qed auto

section \<open>Properties\<close>

text \<open>
  Property C18. In every reachable state each sandbox that exists at the provider is still owned or was
  handed over, a live handle has at most one destroy call running, and as long as anything is pending
  or live, signals are handled, until the process exits or has drained before exit.
\<close>

theorem no_sandbox_lost:
  assumes "reaches owner_step owner_start s"
  shows "os_existing s \<subseteq> os_owned s \<union> os_handedOver s \<and>
    (\<forall>i e. os_entries s i = Some e \<longrightarrow> oe_phase e = Live \<longrightarrow> os_calls s i \<le> 1) \<and>
    (os_exit s = None \<longrightarrow> \<not> os_drained s \<longrightarrow> os_owned s \<noteq> {} \<or> os_operations s \<noteq> {} \<longrightarrow> os_handlers s)"
proof -
  have inv: "owner_inv s" using owner.inv_reachable[OF refl assms] .
  have "i \<in> os_owned s \<union> os_handedOver s" if exists: "i \<in> os_existing s" for i
  proof -
    have ok: "entry_ok s i" using inv by (simp add: owner_inv_def)
    obtain e where e: "os_entries s i = Some e" using ok exists by (cases "os_entries s i") (auto simp: entry_ok_def)
    then show ?thesis using ok exists by (cases "oe_phase e") (auto simp: entry_ok_def split: if_splits)
  qed
  moreover have "os_calls s i \<le> 1" if "os_entries s i = Some e" "oe_phase e = Live" for i e
  proof -
    have "entry_ok s i" using inv by (simp add: owner_inv_def)
    then show ?thesis using that by (simp add: entry_ok_def)
  qed
  moreover have "os_exit s = None \<longrightarrow> \<not> os_drained s \<longrightarrow> os_owned s \<noteq> {} \<or> os_operations s \<noteq> {} \<longrightarrow> os_handlers s"
    using inv by (simp add: owner_inv_def handlers_ok_def)
  ultimately show ?thesis by blast
qed

lemma no_sandbox_lost_witness:
  "\<exists>s. reaches owner_step owner_start s \<and> 0 \<in> os_existing s \<and> os_handlers s"
proof -
  obtain s where s: "createOwnedSandbox 0 owner_start = Inr s" "os_exit s = None" "os_drained s = False"
    "os_entries s 0 = Some \<lparr>oe_phase = Creating, oe_destroy = NotDestroying\<rparr>" "os_owned s = {0}"
    by (simp add: createOwnedSandbox_def owner_start_def installProcessHandlers_def set_entry_def)
  have "owner_step owner_start s" by (rule owner_step.create[OF _ _ s(1)]) (simp_all add: owner_start_def)
  moreover have "owner_step s (create_resolved 0 s)" by (rule owner_step.resolve[OF s(2,4)]) simp
  ultimately have reach: "reaches owner_step owner_start (create_resolved 0 s)" by (blast intro: reaches.intros)
  have "os_exit (create_resolved 0 s) = None" "\<not> os_drained (create_resolved 0 s)" "os_owned (create_resolved 0 s) \<noteq> {}"
    "0 \<in> os_existing (create_resolved 0 s)"
    using s by (simp_all add: create_resolved_def set_entry_def)
  then show ?thesis using no_sandbox_lost[OF reach] reach by blast
qed

text \<open>
  Property C19. The drain is bounded and honest: it always returns; a sandbox is left owned exactly when no
  attempt released it - in each one its own destroy threw or timed out, or the call only repeated a cleanup
  still in flight, and nothing released it late - so one destroy of its own that returns within the
  deadline is enough; no failure is reported only when nothing is left; and every failure reported was met
  in some attempt or says how many sandboxes could not be cleaned up.
\<close>

theorem drain_releases:
  assumes "cleanupOwnedSandboxes W attempts timeoutMs owned = (left, failures)"
  shows "let n = positiveInteger attempts DEFAULT_CLEANUP_ATTEMPTS; t = positiveInteger timeoutMs DEFAULT_CLEANUP_TIMEOUT_MS in
    set left = {i \<in> set owned. \<forall>k. 1 \<le> k \<longrightarrow> k \<le> n \<longrightarrow>
      (withinDeadline W t k i \<noteq> None \<or> dr_repeated W k i) \<and> \<not> dr_late W k i \<and>
      (k < n \<and> dr_elapsed W (Suc k) < int t \<longrightarrow> \<not> dr_inDelay W k i)} \<and>
    (failures = [] \<longrightarrow> left = []) \<and>
    (\<forall>f\<in>set failures. (\<exists>i k. i \<in> set owned \<and> 1 \<le> k \<and> k \<le> n \<and> withinDeadline W t k i = Some f) \<or>
       (left \<noteq> [] \<and> f = CouldNotCleanUp (length left)))"
proof -
  let ?n = "positiveInteger attempts DEFAULT_CLEANUP_ATTEMPTS"
  let ?t = "positiveInteger timeoutMs DEFAULT_CLEANUP_TIMEOUT_MS"
  obtain failures' where loop: "drain_loop W ?t 1 ?n owned [] = (left, failures')"
    "failures = (if left \<noteq> [] \<and> failures' = [] then [CouldNotCleanUp (length left)] else failures')"
    using assms by (auto simp: cleanupOwnedSandboxes_def split: prod.splits)
  have "1 + ?n = Suc ?n" by simp
  note facts = drain_loop_facts[OF loop(1) this, unfolded unreleased_def]
  have "failures = [] \<longrightarrow> left = []" using loop(2) by (auto split: if_splits)
  moreover have "(\<exists>i k. i \<in> set owned \<and> 1 \<le> k \<and> k \<le> ?n \<and> withinDeadline W ?t k i = Some f) \<or>
      (left \<noteq> [] \<and> f = CouldNotCleanUp (length left))" if "f \<in> set failures" for f
  proof (cases "left \<noteq> [] \<and> failures' = []")
    case True
    then show ?thesis using that loop(2) by simp
  next
    case False
    then have "f \<in> set failures'" using that loop(2) by (simp split: if_splits)
    then have "f \<in> set [] \<or> (\<exists>i k. i \<in> set owned \<and> 1 \<le> k \<and> k \<le> ?n \<and> withinDeadline W ?t k i = Some f)"
      by (rule facts[THEN conjunct2, rule_format])
    then show ?thesis by simp
  qed
  ultimately show ?thesis unfolding Let_def by (intro conjI ballI facts[THEN conjunct1]) blast+
qed

definition example_drain :: drain_world where
  "example_drain = \<lparr>dr_elapsed = (\<lambda>k. int k * 300), dr_throws = (\<lambda>k i. if k = 1 then Some ''busy'' else None),
     dr_repeated = (\<lambda>_ _. False), dr_late = (\<lambda>_ _. False), dr_inDelay = (\<lambda>_ _. False)\<rparr>"

lemma drain_releases_witness:
  "fst (cleanupOwnedSandboxes example_drain None None [7]) = [] \<and>
   cleanupOwnedSandboxes (example_drain\<lparr>dr_throws := \<lambda>_ _. None, dr_repeated := \<lambda>_ _. True\<rparr>) None None [7] = ([7], [CouldNotCleanUp 1])"
proof -
  let ?W = "example_drain\<lparr>dr_throws := \<lambda>_ _. None, dr_repeated := \<lambda>_ _. True\<rparr>"
  obtain left failures where r: "cleanupOwnedSandboxes example_drain None None [7] = (left, failures)" by fastforce
  obtain left' failures' where r': "cleanupOwnedSandboxes ?W None None [7] = (left', failures')" by fastforce
  have n: "positiveInteger None DEFAULT_CLEANUP_ATTEMPTS = 3" "positiveInteger None DEFAULT_CLEANUP_TIMEOUT_MS = 15000"
    by (simp_all add: positiveInteger_def DEFAULT_CLEANUP_ATTEMPTS_def DEFAULT_CLEANUP_TIMEOUT_MS_def)
  note set_left = drain_releases[OF r, unfolded n Let_def, THEN conjunct1]
  note set_left' = drain_releases[OF r', unfolded n Let_def, THEN conjunct1]
  have "7 \<notin> set left"
  proof
    assume "7 \<in> set left"
    then have "\<forall>k. 1 \<le> k \<longrightarrow> k \<le> 3 \<longrightarrow> withinDeadline example_drain 15000 k 7 \<noteq> None \<or> dr_repeated example_drain k 7"
      unfolding set_left by blast
    from this[rule_format, of 2] show False by (simp add: withinDeadline_def example_drain_def)
  qed
  moreover have "set left \<subseteq> {7}" unfolding set_left by auto
  ultimately have "left = []" by (cases left) auto
  moreover have "set left' = {7}" unfolding set_left' by (auto simp: example_drain_def)
  moreover have "(left', failures') = ([7], [CouldNotCleanUp 1])"
    using r' by (simp add: cleanupOwnedSandboxes_def n numeral_3_eq_3 drain_round_def withinDeadline_def example_drain_def
        after_delay_def List.map_filter_def)
  ultimately show ?thesis using r r' by simp
qed

text \<open>
  The drain may report failures although everything was released: a destroy that settles
  in the delay after a failed attempt empties the registry, and the loop ends with that attempt's failures.
\<close>

theorem drain_reports_stale_failures:
  "cleanupOwnedSandboxes (example_drain\<lparr>dr_inDelay := \<lambda>_ _. True\<rparr>) None None [7] = ([], [DestroyThrew 7 ''busy''])"
  by (simp add: cleanupOwnedSandboxes_def positiveInteger_def DEFAULT_CLEANUP_ATTEMPTS_def DEFAULT_CLEANUP_TIMEOUT_MS_def
      numeral_3_eq_3 drain_round_def withinDeadline_def example_drain_def after_delay_def List.map_filter_def)

end
