(* ===== verification/Journal.thy ===== *)
theory Journal
  imports Evidence
begin

text \<open>
  \<open>apps/cli/src/lib/account-journal.ts\<close>: the durable record of what an account may still own, and the
  recovery that closes it. Waiting for a removal may never end, so the recovery is partial. The
  properties say that a finished recovery leaves nothing unresolved and released only what it
  observed to be gone, and when it finishes.
\<close>

section \<open>Records\<close>

record sandbox_ref =
  ref_provider :: string
  ref_id :: string

datatype release_outcome =
    Absent sandbox_ref "cleanup_recovery option"
  | NeverAllocated
  | ReconciledCreate string string string string string
  | ReconciledRecovery cleanup_recovery

datatype record_body =
    Intent
  | Allocated sandbox_ref
  | CleanupAttested cleanup_recovery
  | Released release_outcome

record account_record =
  ac_account :: string
  ac_attempt :: string
  ac_cellId :: string
  ac_planDigest :: string
  ac_body :: record_body

fun same_kind :: "record_body \<Rightarrow> record_body \<Rightarrow> bool" where
  "same_kind Intent Intent = True"
| "same_kind (Allocated _) (Allocated _) = True"
| "same_kind (CleanupAttested _) (CleanupAttested _) = True"
| "same_kind (Released _) (Released _) = True"
| "same_kind _ _ = False"

definition is_intent :: "account_record \<Rightarrow> bool" where
  "is_intent r \<longleftrightarrow> ac_body r = Intent"

definition attestations :: "account_record list \<Rightarrow> cleanup_recovery list" where
  "attestations rs = List.map_filter (\<lambda>r. case ac_body r of CleanupAttested c \<Rightarrow> Some c | _ \<Rightarrow> None) rs"

text \<open>The first record of a kind, with what it carries.\<close>

definition find_intent :: "account_record list \<Rightarrow> account_record option" where
  "find_intent rs = find is_intent rs"

fun find_allocated :: "account_record list \<Rightarrow> sandbox_ref option" where
  "find_allocated [] = None"
| "find_allocated (r # rs) = (case ac_body r of Allocated ref \<Rightarrow> Some ref | _ \<Rightarrow> find_allocated rs)"

fun find_released :: "account_record list \<Rightarrow> release_outcome option" where
  "find_released [] = None"
| "find_released (r # rs) = (case ac_body r of Released oc \<Rightarrow> Some oc | _ \<Rightarrow> find_released rs)"

datatype journal_error =
    ContradictoryAttestation
  | IdentityMismatch
  | ConflictingRecords
  | IncompleteProvenance
  | ContradictoryRelease
  | UnresolvedCreate string
  | NoRecoveryDriver
  | Aborted
  | OperationFailed string

section \<open>Attestations\<close>

definition attestation_agrees :: "account_record list \<Rightarrow> account_record \<Rightarrow> sandbox_ref \<Rightarrow> release_outcome \<Rightarrow> cleanup_recovery \<Rightarrow> bool" where
  "attestation_agrees rs intent allocated released recovery \<longleftrightarrow>
     (case released of
        Absent ref supplied \<Rightarrow>
          supplied = None \<and>
          list_all (\<lambda>r. ac_account r = ac_account intent \<and> ac_attempt r = ac_attempt intent \<and> ac_cellId r = ac_cellId intent \<and>
            ac_planDigest r = ac_planDigest intent) rs \<and>
          allocated = ref \<and> cr_attemptId recovery = ac_attempt intent \<and> cr_cellId recovery = ac_cellId intent \<and>
          cr_planDigest recovery = ac_planDigest intent \<and>
          cr_observation recovery = SandboxObservation (ref_provider allocated) (ref_id allocated)
      | _ \<Rightarrow> False)"

definition supplementalCleanupRecovery :: "account_record list \<Rightarrow> journal_error + cleanup_recovery option" where
  "supplementalCleanupRecovery rs =
     (case attestations rs of
        [] \<Rightarrow> Inr None
      | c # cs \<Rightarrow>
          (case (find_intent rs, find_allocated rs, find_released rs) of
             (Some intent, Some ref, Some released) \<Rightarrow>
               if cs = [] \<and> length rs = 4 \<and> attestation_agrees rs intent ref released c then Inr (Some c)
               else Inl ContradictoryAttestation
           | _ \<Rightarrow> Inl ContradictoryAttestation))"

section \<open>The world of a recovery\<close>

text \<open>
  Time counts the awaited operations. At each of them a driver's probe or destroy, or the journal's
  read or append, answers, throws, or never settles (\<open>None\<close>). \<open>jw_aborted\<close> says of each time whether
  the signal has aborted by then: for the operation at time \<open>t\<close>, by its start (\<open>t\<close>) and while it was
  pending (\<open>Suc t\<close>); the signal stays aborted once it is.
\<close>

type_synonym 'a answer = "(string + 'a) option"

record journal_world =
  jw_read :: "nat \<Rightarrow> unit answer"
  jw_observe :: "nat \<Rightarrow> sandbox_ref \<Rightarrow> bool answer"
  jw_destroy :: "nat \<Rightarrow> sandbox_ref \<Rightarrow> unit answer"
  jw_append :: "nat \<Rightarrow> account_record \<Rightarrow> unit answer"
  jw_aborted :: "nat \<Rightarrow> bool"
  jw_recoverable :: "string \<Rightarrow> bool"

text \<open>
  An operation that the signal bounds: the race is lost when the signal aborts before it settles. One
  that never settles and is never aborted is waited for without end: \<open>None\<close>.
\<close>

definition withinSignal :: "journal_world \<Rightarrow> nat \<Rightarrow> 'a answer \<Rightarrow> (journal_error + 'a) option" where
  "withinSignal W t result =
     (if jw_aborted W t \<or> jw_aborted W (Suc t) then Some (Inl Aborted)
      else case result of
             None \<Rightarrow> None
           | Some (Inl e) \<Rightarrow> Some (Inl (OperationFailed e))
           | Some (Inr v) \<Rightarrow> Some (Inr v))"

text \<open>The polls after a destroy, each followed by a pause; the time after the last one.\<close>

partial_function (option) await_absence :: "journal_world \<Rightarrow> sandbox_ref \<Rightarrow> nat \<Rightarrow> (journal_error + nat) option" where
  "await_absence W ref t =
     (case withinSignal W t (jw_observe W t ref) of
        None \<Rightarrow> None
      | Some (Inl e) \<Rightarrow> Some (Inl e)
      | Some (Inr running) \<Rightarrow>
          if \<not> running then Some (Inr (Suc t))
          else (case withinSignal W (Suc t) (Some (Inr ())) of
                  None \<Rightarrow> None
                | Some (Inl e) \<Rightarrow> Some (Inl e)
                | Some (Inr u) \<Rightarrow> await_absence W ref (Suc (Suc t))))"

definition confirmRemoval :: "journal_world \<Rightarrow> sandbox_ref \<Rightarrow> nat \<Rightarrow> (journal_error + nat) option" where
  "confirmRemoval W ref t =
     (if \<not> jw_recoverable W (ref_provider ref) then Some (Inl NoRecoveryDriver)
      else case withinSignal W t (jw_observe W t ref) of
             None \<Rightarrow> None
           | Some (Inl e) \<Rightarrow> Some (Inl e)
           | Some (Inr running) \<Rightarrow>
               if \<not> running then Some (Inr (Suc t))
               else (case withinSignal W (Suc t) (jw_destroy W (Suc t) ref) of
                       None \<Rightarrow> None
                     | Some (Inl e) \<Rightarrow> Some (Inl e)
                     | Some (Inr u) \<Rightarrow> await_absence W ref (Suc (Suc t))))"

section \<open>Recovery\<close>

text \<open>The records are of the account, and no attempt has two of a kind.\<close>

fun check_records :: "string \<Rightarrow> account_record list \<Rightarrow> account_record list \<Rightarrow> journal_error + unit" where
  "check_records account before [] = Inr ()"
| "check_records account before (r # rs) =
     (if ac_account r \<noteq> account then Inl IdentityMismatch
      else if list_ex (\<lambda>e. ac_attempt e = ac_attempt r \<and> same_kind (ac_body e) (ac_body r)) before then Inl ConflictingRecords
      else check_records account (before @ [r]) rs)"

definition records_of :: "account_record list \<Rightarrow> string \<Rightarrow> account_record list" where
  "records_of rs attempt = filter (\<lambda>r. ac_attempt r = attempt) rs"

definition attempt_groups :: "account_record list \<Rightarrow> account_record list list" where
  "attempt_groups rs = map (records_of rs) (insertion_order (map ac_attempt rs))"

text \<open>An attempt is closed, or its allocation is still to be removed.\<close>

definition classify_attempt :: "account_record list \<Rightarrow> journal_error + (account_record \<times> sandbox_ref) option" where
  "classify_attempt rs =
     and_then (supplementalCleanupRecovery rs) (\<lambda>_.
       case find_intent rs of
         None \<Rightarrow> Inl IncompleteProvenance
       | Some intent \<Rightarrow>
           if \<not> list_all (\<lambda>r. ac_planDigest r = ac_planDigest intent \<and> ac_cellId r = ac_cellId intent) rs
           then Inl IncompleteProvenance
           else case find_released rs of
                  Some released \<Rightarrow>
                    (if (case released of Absent ref c \<Rightarrow> find_allocated rs = Some ref | _ \<Rightarrow> find_allocated rs = None)
                     then Inr None else Inl ContradictoryRelease)
                | None \<Rightarrow>
                    (case find_allocated rs of
                       None \<Rightarrow> Inl (UnresolvedCreate (ac_attempt intent))
                     | Some ref \<Rightarrow> Inr (Some (intent, ref))))"

definition release_record :: "account_record \<Rightarrow> sandbox_ref \<Rightarrow> account_record" where
  "release_record intent ref = intent\<lparr>ac_body := Released (Absent ref None)\<rparr>"

fun recover_attempts :: "journal_world \<Rightarrow> account_record list \<Rightarrow> nat \<Rightarrow> account_record list list \<Rightarrow>
  (account_record list \<times> (journal_error + nat)) option" where
  "recover_attempts W journal t [] = Some (journal, Inr t)"
| "recover_attempts W journal t (rs # groups) =
     (if jw_aborted W t then Some (journal, Inl Aborted)
      else case classify_attempt rs of
             Inl e \<Rightarrow> Some (journal, Inl e)
           | Inr None \<Rightarrow> recover_attempts W journal t groups
           | Inr (Some (intent, ref)) \<Rightarrow>
               (case confirmRemoval W ref t of
                  None \<Rightarrow> None
                | Some (Inl e) \<Rightarrow> Some (journal, Inl e)
                | Some (Inr t') \<Rightarrow>
                    (case withinSignal W t' (jw_append W t' (release_record intent ref)) of
                       None \<Rightarrow> None
                     | Some (Inl e) \<Rightarrow> Some (journal, Inl e)
                     | Some (Inr u) \<Rightarrow> recover_attempts W (journal @ [release_record intent ref]) (Suc t') groups)))"

text \<open>The journal after the recovery, and its error or the time it ended; the read comes first.\<close>

definition recoverAccount :: "journal_world \<Rightarrow> string \<Rightarrow> account_record list \<Rightarrow> nat \<Rightarrow>
  (account_record list \<times> (journal_error + nat)) option" where
  "recoverAccount W account journal t =
     (case withinSignal W t (jw_read W t) of
        None \<Rightarrow> None
      | Some (Inl e) \<Rightarrow> Some (journal, Inl e)
      | Some (Inr u) \<Rightarrow>
          (case check_records account [] journal of
             Inl e \<Rightarrow> Some (journal, Inl e)
           | Inr u \<Rightarrow> recover_attempts W journal (Suc t) (attempt_groups journal)))"

record unresolved_attempt =
  un_account :: string
  un_attempt :: string
  un_cellId :: string
  un_planDigest :: string
  un_ref :: "sandbox_ref option"

definition unresolved_of :: "account_record list \<Rightarrow> unresolved_attempt option" where
  "unresolved_of rs =
     (case find_intent rs of
        None \<Rightarrow> None
      | Some intent \<Rightarrow>
          if find_released rs \<noteq> None then None
          else Some \<lparr>un_account = ac_account intent, un_attempt = ac_attempt intent, un_cellId = ac_cellId intent,
                     un_planDigest = ac_planDigest intent, un_ref = find_allocated rs\<rparr>)"

definition unresolvedJournalAttempts :: "account_record list \<Rightarrow> unresolved_attempt list" where
  "unresolvedJournalAttempts rs = List.map_filter unresolved_of (attempt_groups rs)"

section \<open>Lemmas: waiting for a removal\<close>

lemma withinSignal_Inr: "withinSignal W t r = Some (Inr v) \<longleftrightarrow> \<not> jw_aborted W t \<and> \<not> jw_aborted W (Suc t) \<and> r = Some (Inr v)"
  by (auto simp: withinSignal_def split: sum.splits option.splits)

lemma withinSignal_None: "withinSignal W t r = None \<longleftrightarrow> \<not> jw_aborted W t \<and> \<not> jw_aborted W (Suc t) \<and> r = None"
  by (auto simp: withinSignal_def split: sum.splits option.splits)

lemma await_absence_observed:
  assumes ret: "await_absence W ref t = Some r"
  shows "r = Inr t' \<longrightarrow> (\<exists>\<tau>\<ge>t. \<tau> < t' \<and> jw_observe W \<tau> ref = Some (Inr False))"
proof (rule await_absence.raw_induct
    [where P = "\<lambda>W ref t r. r = Inr t' \<longrightarrow> (\<exists>\<tau>\<ge>t. \<tau> < t' \<and> jw_observe W \<tau> ref = Some (Inr False))", OF _ ret], intro impI)
  fix f W ref t and r :: "journal_error + nat"
  assume IH: "\<And>W ref t r. f W ref t = Some r \<Longrightarrow> r = Inr t' \<longrightarrow> (\<exists>\<tau>\<ge>t. \<tau> < t' \<and> jw_observe W \<tau> ref = Some (Inr False))"
    and eq: "(case withinSignal W t (jw_observe W t ref) of
        None \<Rightarrow> None
      | Some (Inl e) \<Rightarrow> Some (Inl e)
      | Some (Inr running) \<Rightarrow>
          if \<not> running then Some (Inr (Suc t))
          else (case withinSignal W (Suc t) (Some (Inr ())) of
                  None \<Rightarrow> None
                | Some (Inl e) \<Rightarrow> Some (Inl e)
                | Some (Inr u) \<Rightarrow> f W ref (Suc (Suc t)))) = Some r"
    and r: "r = Inr t'"
  obtain running where running: "withinSignal W t (jw_observe W t ref) = Some (Inr running)"
    using eq r by (auto split: sum.splits option.splits)
  show "\<exists>\<tau>\<ge>t. \<tau> < t' \<and> jw_observe W \<tau> ref = Some (Inr False)"
  proof (cases running)
    case False
    then have "jw_observe W t ref = Some (Inr False)" "t' = Suc t" using eq running r by (auto simp: withinSignal_Inr)
    then show ?thesis by blast
  next
    case True
    then have "f W ref (Suc (Suc t)) = Some r" using eq running r by (auto split: sum.splits option.splits)
    from IH[OF this] r obtain \<tau> where "Suc (Suc t) \<le> \<tau>" "\<tau> < t'" "jw_observe W \<tau> ref = Some (Inr False)" by blast
    then show ?thesis by (intro exI[of _ \<tau>]) simp
  qed
qed

lemma confirmRemoval_observed:
  assumes "confirmRemoval W ref t = Some (Inr t')"
  shows "\<exists>\<tau>\<ge>t. \<tau> < t' \<and> jw_observe W \<tau> ref = Some (Inr False)"
proof -
  obtain running where running: "withinSignal W t (jw_observe W t ref) = Some (Inr running)"
    using assms by (auto simp: confirmRemoval_def split: sum.splits option.splits if_splits)
  show ?thesis
  proof (cases running)
    case False
    then have "t' = Suc t" using assms running by (simp add: confirmRemoval_def split: if_split_asm)
    moreover have "jw_observe W t ref = Some (Inr False)" using running False by (simp add: withinSignal_Inr)
    ultimately show ?thesis by blast
  next
    case True
    then have "await_absence W ref (Suc (Suc t)) = Some (Inr t')"
      using assms running by (auto simp: confirmRemoval_def split: sum.splits option.splits if_splits)
    from await_absence_observed[OF this, of t'] obtain \<tau> where "Suc (Suc t) \<le> \<tau>" "\<tau> < t'" "jw_observe W \<tau> ref = Some (Inr False)" by blast
    then show ?thesis by (intro exI[of _ \<tau>]) simp
  qed
qed

text \<open>The first \<open>n\<close> polls see the sandbox running, and the signal has not aborted by the next one.\<close>

definition still_running :: "journal_world \<Rightarrow> sandbox_ref \<Rightarrow> nat \<Rightarrow> nat \<Rightarrow> bool" where
  "still_running W ref t n \<longleftrightarrow> (\<forall>m\<le>2 * n. \<not> jw_aborted W (t + m)) \<and> (\<forall>k<n. jw_observe W (t + 2 * k) ref = Some (Inr True))"

lemma still_running_Suc:
  "still_running W ref t (Suc n) \<longleftrightarrow> still_running W ref t n \<and> jw_observe W (t + 2 * n) ref = Some (Inr True) \<and>
     \<not> jw_aborted W (Suc (t + 2 * n)) \<and> \<not> jw_aborted W (Suc (Suc (t + 2 * n)))"
proof -
  have "(\<forall>m\<le>2 * Suc n. P m) \<longleftrightarrow> (\<forall>m\<le>2 * n. P m) \<and> P (Suc (2 * n)) \<and> P (Suc (Suc (2 * n)))" for P
    by (auto simp: le_Suc_eq)
  from this[of "\<lambda>m. \<not> jw_aborted W (t + m)"] show ?thesis by (auto simp: still_running_def less_Suc_eq)
qed

lemma still_running_Suc_first:
  "still_running W ref t (Suc n) \<Longrightarrow> still_running W ref (Suc (Suc t)) n"
proof -
  assume run: "still_running W ref t (Suc n)"
  have "\<not> jw_aborted W (Suc (Suc t) + m)" if "m \<le> 2 * n" for m
    using run that conjunct1[OF run[unfolded still_running_def], rule_format, of "m + 2"] by (simp add: algebra_simps)
  moreover have "jw_observe W (Suc (Suc t) + 2 * k) ref = Some (Inr True)" if "k < n" for k
    using conjunct2[OF run[unfolded still_running_def], rule_format, of "Suc k"] that by simp
  ultimately show ?thesis by (simp add: still_running_def)
qed

lemma await_absence_polls: "still_running W ref t n \<Longrightarrow> await_absence W ref t = await_absence W ref (t + 2 * n)"
proof (induction n)
  case (Suc n)
  then have here: "still_running W ref t n" "jw_observe W (t + 2 * n) ref = Some (Inr True)"
    "\<not> jw_aborted W (Suc (t + 2 * n))" "\<not> jw_aborted W (Suc (Suc (t + 2 * n)))" by (simp_all add: still_running_Suc)
  moreover have "\<not> jw_aborted W (t + 2 * n)" using here(1) by (simp add: still_running_def)
  ultimately have "await_absence W ref (t + 2 * n) = await_absence W ref (Suc (Suc (t + 2 * n)))"
    by (subst await_absence.simps) (simp add: withinSignal_def)
  then show ?case using Suc.IH[OF here(1)] by simp
qed simp

lemma await_absence_stuck:
  assumes forever: "\<And>n. still_running W ref t n"
  shows "await_absence W ref t = None"
proof (rule ccontr)
  assume "await_absence W ref t \<noteq> None"
  then obtain r where ret: "await_absence W ref t = Some r" by blast
  have "\<not> (\<forall>n. still_running W ref t n)"
  proof (rule await_absence.raw_induct[where P = "\<lambda>W ref t r. \<not> (\<forall>n. still_running W ref t n)", OF _ ret], rule notI)
    fix f W ref t and r :: "journal_error + nat"
    assume IH: "\<And>W ref t r. f W ref t = Some r \<Longrightarrow> \<not> (\<forall>n. still_running W ref t n)"
      and eq: "(case withinSignal W t (jw_observe W t ref) of
        None \<Rightarrow> None
      | Some (Inl e) \<Rightarrow> Some (Inl e)
      | Some (Inr running) \<Rightarrow>
          if \<not> running then Some (Inr (Suc t))
          else (case withinSignal W (Suc t) (Some (Inr ())) of
                  None \<Rightarrow> None
                | Some (Inl e) \<Rightarrow> Some (Inl e)
                | Some (Inr u) \<Rightarrow> f W ref (Suc (Suc t)))) = Some r"
      and run: "\<forall>n. still_running W ref t n"
    have "still_running W ref t (Suc 0)" using run by blast
    then have "\<not> jw_aborted W t" "\<not> jw_aborted W (Suc t)" "\<not> jw_aborted W (Suc (Suc t))" "jw_observe W t ref = Some (Inr True)"
      unfolding still_running_Suc by (simp_all add: still_running_def)
    then have "f W ref (Suc (Suc t)) = Some r" using eq by (simp add: withinSignal_def)
    then show False using IH run still_running_Suc_first by blast
  qed
  then show False using forever by blast
qed

lemma await_absence_None:
  "await_absence W ref t = None \<longleftrightarrow>
   (\<forall>n. still_running W ref t n) \<or>
   (\<exists>n. still_running W ref t n \<and> \<not> jw_aborted W (Suc (t + 2 * n)) \<and> jw_observe W (t + 2 * n) ref = None)"
proof (cases "\<forall>n. still_running W ref t n")
  case True
  then show ?thesis using await_absence_stuck by blast
next
  case False
  then have returns: "\<exists>n. still_running W ref t n \<and> \<not> still_running W ref t (Suc n)" if "still_running W ref t 0"
    using that by (metis nat_induct)
  have last: "await_absence W ref t = None \<longleftrightarrow> \<not> jw_aborted W (Suc (t + 2 * n)) \<and> jw_observe W (t + 2 * n) ref = None"
    if run: "still_running W ref t n" "\<not> still_running W ref t (Suc n)" for n
  proof -
    have alive: "\<not> jw_aborted W (t + 2 * n)" using run(1) by (simp add: still_running_def)
    have "await_absence W ref (t + 2 * n) = None \<longleftrightarrow> \<not> jw_aborted W (Suc (t + 2 * n)) \<and> jw_observe W (t + 2 * n) ref = None"
      using alive run unfolding still_running_Suc
      by (subst await_absence.simps) (auto simp: withinSignal_def split: option.splits sum.splits)
    then show ?thesis using await_absence_polls[OF run(1)] by simp
  qed
  have stop: "\<not> still_running W ref t (Suc n)" if "jw_observe W (t + 2 * n) ref = None" for n
    using that by (simp add: still_running_Suc)
  show ?thesis
  proof (cases "still_running W ref t 0")
    case True
    then show ?thesis using False returns last stop by blast
  next
    case aborted: False
    then have "jw_aborted W t" by (simp add: still_running_def)
    moreover from this have "\<not> still_running W ref t n" for n by (auto simp: still_running_def intro: exI[of _ 0])
    ultimately show ?thesis by (subst await_absence.simps) (simp add: withinSignal_def)
  qed
qed

section \<open>Lemmas: the recovery\<close>

lemma recover_attempts_facts:
  "recover_attempts W journal t groups = Some (journal', Inr t') \<Longrightarrow>
   \<exists>added. journal' = journal @ added \<and> t \<le> t' \<and>
     (\<forall>rs\<in>set groups. classify_attempt rs = Inr None \<or>
        (\<exists>intent ref. classify_attempt rs = Inr (Some (intent, ref)) \<and> release_record intent ref \<in> set added)) \<and>
     (\<forall>r\<in>set added. \<exists>rs\<in>set groups. \<exists>intent ref \<tau>. classify_attempt rs = Inr (Some (intent, ref)) \<and> r = release_record intent ref \<and>
        t \<le> \<tau> \<and> \<tau> < t' \<and> jw_observe W \<tau> ref = Some (Inr False))"
proof (induction groups arbitrary: journal t)
  case (Cons rs groups)
  have fine: "\<not> jw_aborted W t" using Cons.prems by (auto split: if_splits)
  then obtain c where c: "classify_attempt rs = Inr c" using Cons.prems by (auto split: sum.splits)
  show ?case
  proof (cases c)
    case None
    then have "recover_attempts W journal t groups = Some (journal', Inr t')" using Cons.prems fine c by simp
    from Cons.IH[OF this] obtain added where added: "journal' = journal @ added" "t \<le> t'"
      "\<forall>rs\<in>set groups. classify_attempt rs = Inr None \<or>
        (\<exists>intent ref. classify_attempt rs = Inr (Some (intent, ref)) \<and> release_record intent ref \<in> set added)"
      "\<forall>r\<in>set added. \<exists>rs\<in>set groups. \<exists>intent ref \<tau>. classify_attempt rs = Inr (Some (intent, ref)) \<and> r = release_record intent ref \<and>
        t \<le> \<tau> \<and> \<tau> < t' \<and> jw_observe W \<tau> ref = Some (Inr False)" by blast
    have "\<forall>r\<in>set added. \<exists>rs\<in>set (rs # groups). \<exists>intent ref \<tau>. classify_attempt rs = Inr (Some (intent, ref)) \<and>
        r = release_record intent ref \<and> t \<le> \<tau> \<and> \<tau> < t' \<and> jw_observe W \<tau> ref = Some (Inr False)"
      using added(4) by (meson list.set_intros(2))
    then show ?thesis using added(1-3) c None by (intro exI[of _ added]) simp
  next
    case (Some p)
    obtain intent ref where p: "p = (intent, ref)" by fastforce
    obtain t1 where t1: "confirmRemoval W ref t = Some (Inr t1)"
      "recover_attempts W (journal @ [release_record intent ref]) (Suc t1) groups = Some (journal', Inr t')"
      using Cons.prems fine c Some p by (auto split: option.splits sum.splits)
    obtain \<tau>1 where \<tau>1: "t \<le> \<tau>1" "\<tau>1 < t1" "jw_observe W \<tau>1 ref = Some (Inr False)" using confirmRemoval_observed[OF t1(1)] by blast
    from Cons.IH[OF t1(2)] obtain added where added: "journal' = (journal @ [release_record intent ref]) @ added" "Suc t1 \<le> t'"
      "\<forall>rs\<in>set groups. classify_attempt rs = Inr None \<or>
        (\<exists>intent ref. classify_attempt rs = Inr (Some (intent, ref)) \<and> release_record intent ref \<in> set added)"
      "\<forall>r\<in>set added. \<exists>rs\<in>set groups. \<exists>intent ref \<tau>. classify_attempt rs = Inr (Some (intent, ref)) \<and> r = release_record intent ref \<and>
        Suc t1 \<le> \<tau> \<and> \<tau> < t' \<and> jw_observe W \<tau> ref = Some (Inr False)" by blast
    have first: "classify_attempt rs = Inr (Some (intent, ref))" using c Some p by simp
    have now: "t \<le> \<tau>1 \<and> \<tau>1 < t' \<and> jw_observe W \<tau>1 ref = Some (Inr False)" using \<tau>1 added(2) by auto
    have later: "\<exists>rs\<in>set (rs # groups). \<exists>intent ref \<tau>. classify_attempt rs = Inr (Some (intent, ref)) \<and> r = release_record intent ref \<and>
        t \<le> \<tau> \<and> \<tau> < t' \<and> jw_observe W \<tau> ref = Some (Inr False)" if "r \<in> set added" for r
    proof -
      obtain rs' intent' ref' \<tau> where "rs' \<in> set groups" "classify_attempt rs' = Inr (Some (intent', ref'))" "r = release_record intent' ref'"
        "Suc t1 \<le> \<tau>" "\<tau> < t'" "jw_observe W \<tau> ref' = Some (Inr False)" using added(4) \<open>r \<in> set added\<close> by blast
      moreover have "t \<le> \<tau>" using \<tau>1 \<open>Suc t1 \<le> \<tau>\<close> by simp
      ultimately show ?thesis
        by (intro bexI[of _ rs'] exI[of _ intent'] exI[of _ ref'] exI[of _ \<tau>]) simp_all
    qed
    show ?thesis
      by (intro exI[of _ "release_record intent ref # added"] conjI)
        (use added first now later \<tau>1 in \<open>auto simp del: recover_attempts.simps\<close>)
  qed
qed auto

lemma find_released_append: "find_released (xs @ ys) = None \<longleftrightarrow> find_released xs = None \<and> find_released ys = None"
  by (induction xs) (auto split: record_body.splits)

lemma find_released_mem: "r \<in> set rs \<Longrightarrow> ac_body r = Released oc \<Longrightarrow> find_released rs \<noteq> None"
  by (induction rs) (auto split: record_body.splits)

lemma find_allocated_mem: "find_allocated rs = Some ref \<Longrightarrow> \<exists>r\<in>set rs. ac_body r = Allocated ref"
  by (induction rs) (auto split: record_body.splits)

lemma classify_open:
  "classify_attempt rs = Inr (Some (intent, ref)) \<Longrightarrow> find_intent rs = Some intent \<and> find_allocated rs = Some ref"
  by (auto simp: classify_attempt_def and_then_Inr_iff split: option.splits if_splits release_outcome.splits)

lemma classify_closed: "classify_attempt rs = Inr None \<Longrightarrow> find_released rs \<noteq> None"
  by (auto simp: classify_attempt_def and_then_Inr_iff split: option.splits if_splits)

lemma records_of_append: "records_of (xs @ ys) a = records_of xs a @ records_of ys a"
  by (simp add: records_of_def)

lemma recoverAccount_facts:
  assumes "recoverAccount W account journal t = Some (journal', Inr t')"
  shows "recover_attempts W journal (Suc t) (attempt_groups journal) = Some (journal', Inr t')"
  using assms by (auto simp: recoverAccount_def withinSignal_Inr split: sum.splits option.splits)

lemma attempt_groups_set: "set (attempt_groups rs) = records_of rs ` ac_attempt ` set rs"
  by (auto simp: attempt_groups_def)

lemma find_intent_mem: "find_intent rs = Some r \<Longrightarrow> r \<in> set rs"
  by (auto simp: find_intent_def find_Some_iff)

lemma nothing_unresolved:
  "unresolvedJournalAttempts rs = [] \<longleftrightarrow>
   (\<forall>r\<in>set rs. find_intent (records_of rs (ac_attempt r)) = None \<or> find_released (records_of rs (ac_attempt r)) \<noteq> None)"
  by (auto simp: unresolvedJournalAttempts_def List.map_filter_def filter_empty_conv attempt_groups_set unresolved_of_def
      split: option.splits if_splits)

section \<open>What a finished recovery leaves\<close>

lemma recovery_closes:
  assumes "recoverAccount W account journal t = Some (journal', Inr t')"
  shows "unresolvedJournalAttempts journal' = [] \<and>
    (\<exists>added. journal' = journal @ added \<and>
      (\<forall>r\<in>set added. \<exists>allocated\<in>set journal. \<exists>ref \<tau>.
         ac_body r = Released (Absent ref None) \<and> ac_body allocated = Allocated ref \<and> ac_attempt allocated = ac_attempt r \<and>
         t < \<tau> \<and> \<tau> < t' \<and> jw_observe W \<tau> ref = Some (Inr False)))"
proof -
  from recover_attempts_facts[OF recoverAccount_facts[OF assms]]
  obtain added where added: "journal' = journal @ added"
    and groups: "\<And>a. a \<in> ac_attempt ` set journal \<Longrightarrow> classify_attempt (records_of journal a) = Inr None \<or>
        (\<exists>intent ref. classify_attempt (records_of journal a) = Inr (Some (intent, ref)) \<and> release_record intent ref \<in> set added)"
    and released: "\<And>r. r \<in> set added \<Longrightarrow> \<exists>a\<in>ac_attempt ` set journal. \<exists>intent ref \<tau>.
        classify_attempt (records_of journal a) = Inr (Some (intent, ref)) \<and> r = release_record intent ref \<and>
        Suc t \<le> \<tau> \<and> \<tau> < t' \<and> jw_observe W \<tau> ref = Some (Inr False)"
    unfolding attempt_groups_set ball_simps bex_simps by blast
  have owner: "ac_attempt intent = a \<and> (\<exists>x\<in>set journal. ac_attempt x = a \<and> ac_body x = Allocated ref)"
    if "classify_attempt (records_of journal a) = Inr (Some (intent, ref))" for a intent ref
    using find_intent_mem[OF conjunct1[OF classify_open[OF that]]] find_allocated_mem[OF conjunct2[OF classify_open[OF that]]]
    by (auto simp: records_of_def)
  have closed: "find_released (records_of journal' a) \<noteq> None" if a: "a \<in> ac_attempt ` set journal" for a
  proof (rule disjE[OF groups[OF a]])
    assume "classify_attempt (records_of journal a) = Inr None"
    from classify_closed[OF this] show ?thesis by (simp add: added records_of_append find_released_append)
  next
    assume "\<exists>intent ref. classify_attempt (records_of journal a) = Inr (Some (intent, ref)) \<and> release_record intent ref \<in> set added"
    then obtain intent ref where open_attempt: "classify_attempt (records_of journal a) = Inr (Some (intent, ref))"
      and appended: "release_record intent ref \<in> set added" by blast
    have "ac_attempt (release_record intent ref) = a" using owner[OF open_attempt] by (simp add: release_record_def)
    then have "release_record intent ref \<in> set (records_of journal' a)" using appended by (simp add: added records_of_def)
    then show ?thesis by (rule find_released_mem) (simp add: release_record_def)
  qed
  have known: "ac_attempt r \<in> ac_attempt ` set journal" if "r \<in> set journal'" for r
    using that released owner by (fastforce simp: added release_record_def)
  have "\<exists>allocated\<in>set journal. \<exists>ref \<tau>. ac_body r = Released (Absent ref None) \<and> ac_body allocated = Allocated ref \<and>
      ac_attempt allocated = ac_attempt r \<and> t < \<tau> \<and> \<tau> < t' \<and> jw_observe W \<tau> ref = Some (Inr False)" if r: "r \<in> set added" for r
  proof -
    obtain a intent ref \<tau> where rel: "classify_attempt (records_of journal a) = Inr (Some (intent, ref))" "r = release_record intent ref"
      "Suc t \<le> \<tau>" "\<tau> < t'" "jw_observe W \<tau> ref = Some (Inr False)" using released[OF r] by blast
    obtain x where x: "x \<in> set journal" "ac_attempt x = a" "ac_body x = Allocated ref" "ac_attempt intent = a" using owner[OF rel(1)] by blast
    show ?thesis
      by (intro bexI[of _ x] exI[of _ ref] exI[of _ \<tau>]) (use rel x in \<open>simp_all add: release_record_def\<close>)
  qed
  moreover have "unresolvedJournalAttempts journal' = []"
    unfolding nothing_unresolved using closed known by blast
  ultimately show ?thesis using added by blast
qed

text \<open>
  Property C20. A recovery that finishes leaves no attempt of the account unresolved. It only appends to the
  journal, and each record it appends releases the sandbox that the journal says its attempt allocated,
  after a probe made during the recovery saw that sandbox not running.
\<close>

theorem recovery_leaves_nothing_open:
  assumes "recoverAccount W account journal t = Some (journal', Inr t')"
  shows "unresolvedJournalAttempts journal' = [] \<and>
    (\<exists>added. journal' = journal @ added \<and>
      (\<forall>r\<in>set added. \<exists>allocated\<in>set journal. \<exists>ref \<tau>.
         ac_body r = Released (Absent ref None) \<and> ac_body allocated = Allocated ref \<and> ac_attempt allocated = ac_attempt r \<and>
         t < \<tau> \<and> \<tau> < t' \<and> jw_observe W \<tau> ref = Some (Inr False)))"
  using assms by (rule recovery_closes)

definition journal_intent :: account_record where
  "journal_intent = \<lparr>ac_account = ''acct'', ac_attempt = ''a0'', ac_cellId = ''c0'', ac_planDigest = ''p'', ac_body = Intent\<rparr>"

definition journal_sandbox :: sandbox_ref where
  "journal_sandbox = \<lparr>ref_provider = ''e2b'', ref_id = ''sb1''\<rparr>"

definition calm_world :: journal_world where
  "calm_world = \<lparr>jw_read = \<lambda>_. Some (Inr ()), jw_observe = \<lambda>n ref. Some (Inr (n < 3)),
     jw_destroy = \<lambda>_ ref. Some (Inr ()), jw_append = \<lambda>_ r. Some (Inr ()), jw_aborted = \<lambda>_. False, jw_recoverable = \<lambda>p. True\<rparr>"

lemma calm_recovery:
  "recoverAccount calm_world ''acct'' [journal_intent, journal_intent\<lparr>ac_body := Allocated journal_sandbox\<rparr>] 0 =
   Some ([journal_intent, journal_intent\<lparr>ac_body := Allocated journal_sandbox\<rparr>,
      journal_intent\<lparr>ac_body := Released (Absent journal_sandbox None)\<rparr>], Inr 5)"
  by (simp add: recoverAccount_def calm_world_def journal_intent_def journal_sandbox_def withinSignal_def and_then_def
      attempt_groups_def records_of_def classify_attempt_def supplementalCleanupRecovery_def attestations_def List.map_filter_def
      find_intent_def is_intent_def confirmRemoval_def await_absence.simps release_record_def insertion_order_def)

theorem recovery_leaves_nothing_open_witness:
  "unresolvedJournalAttempts [journal_intent, journal_intent\<lparr>ac_body := Allocated journal_sandbox\<rparr>,
      journal_intent\<lparr>ac_body := Released (Absent journal_sandbox None)\<rparr>] = []"
  using recovery_leaves_nothing_open[OF calm_recovery] by (rule conjunct1)

text \<open>
  Property C21. Exactly when confirming a removal never returns: the driver can recover, the signal does not
  abort, and either an awaited call - the first probe, the destroy, or a probe after it - never settles
  (and no abort comes while it is pending, which would cut it off), or the destroy is accepted and every
  probe after it sees the sandbox running still. In every other case the wait ends, with an observed
  absence or an error.
\<close>

theorem confirmRemoval_diverges_iff:
  "confirmRemoval W ref t = None \<longleftrightarrow>
   jw_recoverable W (ref_provider ref) \<and> \<not> jw_aborted W t \<and> \<not> jw_aborted W (t + 1) \<and>
   (jw_observe W t ref = None \<or>
    jw_observe W t ref = Some (Inr True) \<and> \<not> jw_aborted W (t + 2) \<and>
    (jw_destroy W (t + 1) ref = None \<or>
     jw_destroy W (t + 1) ref = Some (Inr ()) \<and>
     ((\<exists>n. (\<forall>m\<le>2 * n + 1. \<not> jw_aborted W (t + 2 + m)) \<and> (\<forall>k<n. jw_observe W (t + 2 + 2 * k) ref = Some (Inr True)) \<and>
           jw_observe W (t + 2 + 2 * n) ref = None) \<or>
      (\<forall>m. \<not> jw_aborted W (t + m)) \<and> (\<forall>k. jw_observe W (t + 2 + 2 * k) ref = Some (Inr True)))))"
proof -
  have first: "still_running W ref (Suc (Suc t)) n \<and> \<not> jw_aborted W (Suc (Suc (Suc t) + 2 * n)) \<longleftrightarrow>
      (\<forall>m\<le>2 * n + 1. \<not> jw_aborted W (t + 2 + m)) \<and> (\<forall>k<n. jw_observe W (t + 2 + 2 * k) ref = Some (Inr True))" for n
    by (auto simp: still_running_def le_Suc_eq algebra_simps)
  have all: "(\<forall>n. still_running W ref (Suc (Suc t)) n) \<longleftrightarrow>
      (\<forall>m. \<not> jw_aborted W (Suc (Suc t) + m)) \<and> (\<forall>k. jw_observe W (t + 2 + 2 * k) ref = Some (Inr True))"
  proof
    assume run: "\<forall>n. still_running W ref (Suc (Suc t)) n"
    have "\<not> jw_aborted W (Suc (Suc t) + m)" for m
      using run[rule_format, of m] by (simp add: still_running_def)
    moreover have "jw_observe W (t + 2 + 2 * k) ref = Some (Inr True)" for k
      using run[rule_format, of "Suc k"] by (simp add: still_running_def)
    ultimately show "(\<forall>m. \<not> jw_aborted W (Suc (Suc t) + m)) \<and> (\<forall>k. jw_observe W (t + 2 + 2 * k) ref = Some (Inr True))" by blast
  qed (simp add: still_running_def)
  have shift: "(\<forall>m. \<not> jw_aborted W (t + m)) \<longleftrightarrow>
      \<not> jw_aborted W t \<and> \<not> jw_aborted W (Suc t) \<and> (\<forall>m. \<not> jw_aborted W (Suc (Suc t) + m))"
    by (metis add_0_right add_Suc_right add_Suc_shift not0_implies_Suc)
  have stuck: "await_absence W ref (Suc (Suc t)) = None \<longleftrightarrow>
      (\<forall>m. \<not> jw_aborted W (Suc (Suc t) + m)) \<and> (\<forall>k. jw_observe W (t + 2 + 2 * k) ref = Some (Inr True)) \<or>
      (\<exists>n. (\<forall>m\<le>2 * n + 1. \<not> jw_aborted W (t + 2 + m)) \<and> (\<forall>k<n. jw_observe W (t + 2 + 2 * k) ref = Some (Inr True)) \<and>
           jw_observe W (t + 2 + 2 * n) ref = None)"
    unfolding await_absence_None all conj_assoc[symmetric] first by simp
  show ?thesis
    unfolding confirmRemoval_def shift using stuck
    by (auto simp: withinSignal_def split: option.splits sum.splits)
qed

text \<open>A probe that hangs: cut off by an abort that comes while it is pending, waited for for ever without one.\<close>

theorem confirmRemoval_diverges_iff_witness:
  "confirmRemoval (calm_world\<lparr>jw_observe := \<lambda>n ref. if n = 0 then Some (Inr True) else None\<rparr>) journal_sandbox 0 = None \<and>
   confirmRemoval (calm_world\<lparr>jw_observe := \<lambda>n ref. if n = 0 then Some (Inr True) else None, jw_aborted := \<lambda>n. 3 \<le> n\<rparr>)
     journal_sandbox 0 = Some (Inl Aborted)"
  unfolding confirmRemoval_diverges_iff
  by (auto simp: calm_world_def confirmRemoval_def await_absence.simps withinSignal_def intro!: exI[of _ "0::nat"])

end
