(* ===== verification/Admission.thy ===== *)
theory Admission
  imports Journal Economics Texts
begin

text \<open>
  What happens before a batch may allocate: the reconciliation of an account with its vendors'
  inventories (\<open>apps/cli/src/lib/account-reconciliation.ts\<close>), the recognition of a refused
  admission (\<open>admission-capacity.ts\<close>, \<open>pre-create-stop.ts\<close>) and the admission phase of
  \<open>executeExperimentBatch\<close> (\<open>execute-experiment.ts\<close>). Time counts awaited operations, as in
  \<open>Journal\<close>. The lemmas show that an admitted account starts with nothing standing and
  nothing unresolved.
\<close>

section \<open>Inventories\<close>

record inventory_snapshot =
  iv_owned :: "sandbox_ref list"
  iv_foreignCount :: int

text \<open>\<open>accountInventoryScope\<close>: what an inventory covers, by the account of the provider.\<close>

datatype inventory_scope = AccountScope | BenchmarkScope

definition accountInventoryScope :: "(string \<Rightarrow> string) \<Rightarrow> string \<Rightarrow> inventory_scope" where
  "accountInventoryScope quotaDomain i =
     (let account = quotaDomain i
      in if account = ''daytona'' \<or> account = ''novita'' \<or> account = ''modal'' then BenchmarkScope else AccountScope)"

datatype reconcile_error =
    NoDrivers
  | InvalidBudget
  | IncompleteCapability string
  | InvalidInventory string
  | UnownedResources string
  | InvalidOwnership string
  | InventoryChanged string
  | Interrupted journal_error

text \<open>
  The world of an admission: beside the probes and the journal, the inventories of the vendors, the
  drivers that open, the account of a provider and the clock. \<open>jw_aborted\<close> is the signal of the
  admission deadline, which also ends the reconciliation.
\<close>

record opened_driver =
  od_artifact :: artifact
  od_inventory :: bool
  od_destroyById :: bool
  od_probes :: bool

record admission_world = journal_world +
  aw_list :: "nat \<Rightarrow> string \<Rightarrow> inventory_snapshot answer"
  aw_open :: "nat \<Rightarrow> string \<Rightarrow> opened_driver answer"
  aw_managed :: "string \<Rightarrow> bool"
  aw_quotaDomain :: "string \<Rightarrow> string"
  aw_remainingMs :: "nat \<Rightarrow> real"

abbreviation signals :: "admission_world \<Rightarrow> journal_world" where
  "signals W \<equiv> journal_world.truncate W"

definition complete_driver :: "opened_driver \<Rightarrow> bool" where
  "complete_driver d \<longleftrightarrow> od_inventory d \<and> od_destroyById d \<and> od_probes d"

section \<open>Reconciliation\<close>

text \<open>The ownership check: each reference is of the driver, named, and listed once.\<close>

fun owned_valid :: "string \<Rightarrow> string list \<Rightarrow> sandbox_ref list \<Rightarrow> bool" where
  "owned_valid i ids [] \<longleftrightarrow> True"
| "owned_valid i ids (ref # refs) \<longleftrightarrow>
     ref_provider ref = i \<and> ref_id ref \<noteq> [] \<and> ref_id ref \<notin> set ids \<and> owned_valid i (ref_id ref # ids) refs"

definition list_inventory :: "admission_world \<Rightarrow> nat \<Rightarrow> string \<Rightarrow> (reconcile_error + inventory_snapshot) option" where
  "list_inventory W t i =
     (case withinSignal (signals W) t (aw_list W t i) of
        None \<Rightarrow> None
      | Some (Inl e) \<Rightarrow> Some (Inl (Interrupted e))
      | Some (Inr snapshot) \<Rightarrow>
          Some (if iv_foreignCount snapshot < 0 \<or> 2 ^ 53 \<le> iv_foreignCount snapshot then Inl (InvalidInventory i)
                else if 0 < iv_foreignCount snapshot \<and> accountInventoryScope (aw_quotaDomain W) i = AccountScope
                then Inl (UnownedResources i)
                else if \<not> owned_valid i [] (iv_owned snapshot) then Inl (InvalidOwnership i)
                else Inr snapshot))"

text \<open>What follows an awaited result that settled without an error.\<close>

definition awaits :: "('e + 'a) option \<Rightarrow> ('a \<Rightarrow> ('e + 'b) option) \<Rightarrow> ('e + 'b) option" where
  "awaits r f = (case r of None \<Rightarrow> None | Some (Inl e) \<Rightarrow> Some (Inl e) | Some (Inr v) \<Rightarrow> f v)"

lemma awaits_Inr: "awaits r f = Some (Inr w) \<longleftrightarrow> (\<exists>v. r = Some (Inr v) \<and> f v = Some (Inr w))"
  by (simp add: awaits_def split: option.split sum.split)

lemma awaits_simps [simp]: "awaits None f = None" "awaits (Some (Inl e)) f = Some (Inl e)" "awaits (Some (Inr v)) f = f v"
  by (simp_all add: awaits_def)

text \<open>Every variant is inspected before anything is removed; the time counts the listings.\<close>

fun inspect_all :: "admission_world \<Rightarrow> nat \<Rightarrow> string list \<Rightarrow> (reconcile_error + inventory_snapshot list) option" where
  "inspect_all W t [] = Some (Inr [])"
| "inspect_all W t (i # ids) =
     awaits (list_inventory W t i) (\<lambda>snapshot. awaits (inspect_all W (Suc t) ids) (\<lambda>snapshots. Some (Inr (snapshot # snapshots))))"

text \<open>Each sandbox is destroyed and then probed until the control plane no longer sees it running.\<close>

fun remove_all :: "admission_world \<Rightarrow> nat \<Rightarrow> sandbox_ref list \<Rightarrow> (reconcile_error + nat) option" where
  "remove_all W t [] = Some (Inr t)"
| "remove_all W t (ref # refs) =
     (case withinSignal (signals W) t (jw_destroy W t ref) of
        None \<Rightarrow> None
      | Some (Inl e) \<Rightarrow> Some (Inl (Interrupted e))
      | Some (Inr u) \<Rightarrow>
          (case await_absence (signals W) ref (Suc t) of
             None \<Rightarrow> None
           | Some (Inl e) \<Rightarrow> Some (Inl (Interrupted e))
           | Some (Inr t') \<Rightarrow> remove_all W t' refs))"

fun verify_empty :: "admission_world \<Rightarrow> nat \<Rightarrow> string list \<Rightarrow> (reconcile_error + nat) option" where
  "verify_empty W t [] = Some (Inr t)"
| "verify_empty W t (i # ids) =
     awaits (list_inventory W t i) (\<lambda>snapshot.
       if iv_owned snapshot \<noteq> [] then Some (Inl (InventoryChanged i)) else verify_empty W (Suc t) ids)"

text \<open>The removed sandboxes and the time of the end.\<close>

definition reconcileAccount :: "admission_world \<Rightarrow> (string \<times> opened_driver) list \<Rightarrow> real \<Rightarrow> nat \<Rightarrow>
  (reconcile_error + sandbox_ref list \<times> nat) option" where
  "reconcileAccount W drivers timeoutMs t =
     (let ids = map fst drivers
      in if drivers = [] then Some (Inl NoDrivers)
         else if timeoutMs \<notin> \<int> \<or> timeoutMs \<le> 0 \<or> 2 ^ 53 \<le> timeoutMs then Some (Inl InvalidBudget)
         else case find (\<lambda>(i, d). \<not> complete_driver d) drivers of
                Some (i, d) \<Rightarrow> Some (Inl (IncompleteCapability i))
              | None \<Rightarrow>
                  awaits (inspect_all W t ids) (\<lambda>snapshots.
                    let removed = concat (map iv_owned snapshots)
                    in awaits (remove_all W (t + length ids) removed) (\<lambda>t'.
                       awaits (verify_empty W t' ids) (\<lambda>t''. Some (Inr (removed, t''))))))"

section \<open>Refused creates\<close>

datatype driver_code = CreateFailed | OtherCode

record driver_error =
  de_code :: driver_code
  de_message :: string
  de_provider :: "string option"
  de_ref :: "sandbox_ref option"
  de_vendorMessage :: "string option"
  de_vendorHttpStatus :: "nat option"
  de_retryable :: bool

datatype recovery_locator =
    NameLocator string
  | IdLocator string
  | MarkerLocator string string
  | NativeHandle
  | CleanupCallback

text \<open>What a create rejects with: a driver's error, a failed clean-up of a failed create, or else.\<close>

datatype create_error =
    DriverFailure driver_error
  | FailedCreateCleanup string recovery_locator "driver_error option"
  | OtherError string

fun isFailedCreateCleanupError :: "create_error \<Rightarrow> bool" where
  "isFailedCreateCleanupError (FailedCreateCleanup provider locator suppressed) = True"
| "isFailedCreateCleanupError _ = False"

fun isRetryableDriverCreate :: "create_error \<Rightarrow> bool" where
  "isRetryableDriverCreate (DriverFailure e) \<longleftrightarrow> de_code e = CreateFailed \<and> (de_retryable e \<or> de_vendorHttpStatus e = Some 429)"
| "isRetryableDriverCreate _ = False"

text \<open>\<open>text.includes(part)\<close>.\<close>

definition has_substring :: "string \<Rightarrow> string \<Rightarrow> bool" where
  "has_substring s part \<longleftrightarrow> list_ex (\<lambda>n. take (length part) (drop n s) = part) [0..<Suc (length s)]"

fun isConcurrentSandboxAdmissionError :: "create_error \<Rightarrow> bool" where
  "isConcurrentSandboxAdmissionError (DriverFailure e) \<longleftrightarrow>
     de_code e = CreateFailed \<and> de_vendorHttpStatus e = Some 429 \<and>
     (let text = toLowerCase (de_message e @ [CHR 0x0A] @ (case de_vendorMessage e of None \<Rightarrow> [] | Some m \<Rightarrow> m))
      in has_substring text ''concurrent'' \<and> (has_substring text ''limit'' \<or> has_substring text ''resource''))"
| "isConcurrentSandboxAdmissionError _ = False"

text \<open>
  The identity that a double fault retains: the clean-up of a create that had an identity failed,
  and the original failure names the same sandbox of the same provider.
\<close>

definition retained_identity :: "string \<Rightarrow> create_error \<Rightarrow> sandbox_ref option" where
  "retained_identity provider error =
     (case error of
        FailedCreateCleanup p (IdLocator i) (Some suppressed) \<Rightarrow>
          (case de_ref suppressed of
             Some ref \<Rightarrow>
               if p = provider \<and> de_provider suppressed = Some provider \<and> ref_provider ref = provider \<and> ref_id ref = i
               then Some ref else None
           | None \<Rightarrow> None)
      | _ \<Rightarrow> None)"

section \<open>Admission\<close>

datatype admission_error =
    DriverUnavailable string
  | OpenFailed journal_error
  | CapabilityRequired string
  | AdmissionDeadline
  | RecoveryFailed journal_error
  | HistoryFailed journal_error
  | ReconcileFailed reconcile_error

text \<open>The drivers of the account, opened in registry order; what was opened stays when a later one fails.\<close>

fun open_drivers :: "admission_world \<Rightarrow> nat \<Rightarrow> string list \<Rightarrow> (string \<times> opened_driver) list \<times> (admission_error + nat) option" where
  "open_drivers W t [] = ([], Some (Inr t))"
| "open_drivers W t (i # ids) =
     (if \<not> aw_managed W i then ([], Some (Inl (DriverUnavailable i)))
      else case withinSignal (signals W) t (aw_open W t i) of
             None \<Rightarrow> ([], None)
           | Some (Inl e) \<Rightarrow> ([], Some (Inl (OpenFailed e)))
           | Some (Inr opened) \<Rightarrow>
               if \<not> complete_driver opened then ([], Some (Inl (CapabilityRequired i)))
               else let (drivers, r) = open_drivers W (Suc t) ids in ((i, opened) # drivers, r))"

record admission =
  ad_failure :: "admission_error option"
  ad_drivers :: "(string \<times> opened_driver) list"
  ad_history :: "account_record list"
  ad_journal :: "account_record list"

text \<open>
  The try block of the admission: open, recover the journal, read it, reconcile the inventories. The
  recovery finds the drivers of the account only. \<open>None\<close> stands for a wait that never ends.
\<close>

definition admit_account :: "admission_world \<Rightarrow> string list \<Rightarrow> string \<Rightarrow> account_record list \<Rightarrow> nat \<Rightarrow> admission option" where
  "admit_account W providers account journal t =
     (case open_drivers W t (filter (\<lambda>i. aw_quotaDomain W i = account) providers) of
        (drivers, None) \<Rightarrow> None
      | (drivers, Some (Inl e)) \<Rightarrow> Some \<lparr>ad_failure = Some e, ad_drivers = drivers, ad_history = [], ad_journal = journal\<rparr>
      | (drivers, Some (Inr t1)) \<Rightarrow>
          if aw_remainingMs W t1 \<le> 0
          then Some \<lparr>ad_failure = Some AdmissionDeadline, ad_drivers = drivers, ad_history = [], ad_journal = journal\<rparr>
          else (case recoverAccount ((signals W)\<lparr>jw_recoverable := \<lambda>p. p \<in> fst ` set drivers\<rparr>) account journal t1 of
                  None \<Rightarrow> None
                | Some (journal', Inl e) \<Rightarrow>
                    Some \<lparr>ad_failure = Some (RecoveryFailed e), ad_drivers = drivers, ad_history = [], ad_journal = journal'\<rparr>
                | Some (journal', Inr t2) \<Rightarrow>
                    (case withinSignal (signals W) t2 (jw_read W t2) of
                       None \<Rightarrow> None
                     | Some (Inl e) \<Rightarrow>
                         Some \<lparr>ad_failure = Some (HistoryFailed e), ad_drivers = drivers, ad_history = [], ad_journal = journal'\<rparr>
                     | Some (Inr u) \<Rightarrow>
                         (case reconcileAccount W drivers (max 1 (aw_remainingMs W (Suc t2))) (Suc t2) of
                            None \<Rightarrow> None
                          | Some (Inl e) \<Rightarrow>
                              Some \<lparr>ad_failure = Some (ReconcileFailed e), ad_drivers = drivers, ad_history = journal', ad_journal = journal'\<rparr>
                          | Some (Inr r) \<Rightarrow>
                              Some \<lparr>ad_failure = None, ad_drivers = drivers, ad_history = journal', ad_journal = journal'\<rparr>))))"

section \<open>Lemmas: reconciliation\<close>

lemma signals_sel [simp]:
  "jw_aborted (signals W) = jw_aborted W" "jw_observe (signals W) = jw_observe W"
  "jw_destroy (signals W) = jw_destroy W" "jw_read (signals W) = jw_read W"
  by (simp_all add: journal_world.truncate_def)

lemma owned_valid_provider: "owned_valid i ids refs \<Longrightarrow> ref \<in> set refs \<Longrightarrow> ref_provider ref = i"
  by (induction i ids refs rule: owned_valid.induct) auto

text \<open>What an accepted listing says of the inventory it read.\<close>

definition clean_listing :: "admission_world \<Rightarrow> nat \<Rightarrow> string \<Rightarrow> inventory_snapshot \<Rightarrow> bool" where
  "clean_listing W t i snapshot \<longleftrightarrow> aw_list W t i = Some (Inr snapshot) \<and>
     (iv_foreignCount snapshot = 0 \<or> accountInventoryScope (aw_quotaDomain W) i = BenchmarkScope) \<and>
     (\<forall>ref\<in>set (iv_owned snapshot). ref_provider ref = i)"

lemma list_inventory_Inr: "list_inventory W t i = Some (Inr snapshot) \<Longrightarrow> clean_listing W t i snapshot"
  by (cases "accountInventoryScope (aw_quotaDomain W) i")
    (auto simp: list_inventory_def clean_listing_def withinSignal_Inr dest: owned_valid_provider split: option.splits sum.splits if_splits)

lemma inspect_all_Inr:
  "inspect_all W t ids = Some (Inr snapshots) \<Longrightarrow>
   length snapshots = length ids \<and> (\<forall>k<length ids. clean_listing W (t + k) (ids ! k) (snapshots ! k))"
proof (induction ids arbitrary: t snapshots)
  case (Cons i ids)
  from Cons.prems obtain snapshot rest where rest: "list_inventory W t i = Some (Inr snapshot)"
    "inspect_all W (Suc t) ids = Some (Inr rest)" "snapshots = snapshot # rest" by (auto simp: awaits_Inr)
  have "clean_listing W (t + k) ((i # ids) ! k) (snapshots ! k)" if "k < length (i # ids)" for k
    using that list_inventory_Inr[OF rest(1)] Cons.IH[OF rest(2)] rest(3) by (cases k) auto
  then show ?case using Cons.IH[OF rest(2)] rest(3) by simp
qed simp

lemma remove_all_Inr:
  "remove_all W t refs = Some (Inr t') \<Longrightarrow>
   t \<le> t' \<and> (\<forall>ref\<in>set refs. \<exists>\<tau>\<ge>t. \<tau> < t' \<and> jw_observe W \<tau> ref = Some (Inr False))"
proof (induction refs arbitrary: t)
  case (Cons ref refs)
  from Cons.prems obtain t1 where t1: "await_absence (signals W) ref (Suc t) = Some (Inr t1)" "remove_all W t1 refs = Some (Inr t')"
    by (auto split: sum.splits option.splits)
  obtain \<tau> where \<tau>: "Suc t \<le> \<tau>" "\<tau> < t1" "jw_observe W \<tau> ref = Some (Inr False)"
    using await_absence_observed[OF t1(1), of t1] by auto
  note rest = Cons.IH[OF t1(2)]
  show ?case
  proof (intro conjI ballI)
    show "t \<le> t'" using rest \<tau> by simp
    fix r assume "r \<in> set (ref # refs)"
    then consider "r = ref" | "r \<in> set refs" by auto
    then show "\<exists>\<tau>\<ge>t. \<tau> < t' \<and> jw_observe W \<tau> r = Some (Inr False)"
    proof cases
      case 1
      then show ?thesis using \<tau> rest by (intro exI[of _ \<tau>]) auto
    next
      case 2
      then obtain \<tau>' where "t1 \<le> \<tau>'" "\<tau>' < t'" "jw_observe W \<tau>' r = Some (Inr False)" using rest by blast
      then show ?thesis using \<tau> by (intro exI[of _ \<tau>']) auto
    qed
  qed
qed simp

lemma verify_empty_Inr:
  "verify_empty W t ids = Some (Inr t') \<Longrightarrow>
   t \<le> t' \<and> (\<forall>i\<in>set ids. \<exists>\<tau>\<ge>t. \<tau> < t' \<and> (\<exists>snapshot. clean_listing W \<tau> i snapshot \<and> iv_owned snapshot = []))"
proof (induction ids arbitrary: t)
  case (Cons i ids)
  from Cons.prems obtain snapshot where snapshot: "list_inventory W t i = Some (Inr snapshot)" "iv_owned snapshot = []"
    "verify_empty W (Suc t) ids = Some (Inr t')" by (auto simp: awaits_Inr split: if_splits)
  note rest = Cons.IH[OF snapshot(3)]
  show ?case
  proof (intro conjI ballI)
    show "t \<le> t'" using rest by simp
    fix j assume "j \<in> set (i # ids)"
    then consider "j = i" | "j \<in> set ids" by auto
    then show "\<exists>\<tau>\<ge>t. \<tau> < t' \<and> (\<exists>snapshot. clean_listing W \<tau> j snapshot \<and> iv_owned snapshot = [])"
    proof cases
      case 1
      then show ?thesis using list_inventory_Inr[OF snapshot(1)] snapshot(2) rest by (intro exI[of _ t]) auto
    next
      case 2
      then obtain \<tau> where "Suc t \<le> \<tau>" "\<tau> < t'" "\<exists>snapshot. clean_listing W \<tau> j snapshot \<and> iv_owned snapshot = []" using rest by blast
      then show ?thesis by (intro exI[of _ \<tau>]) simp
    qed
  qed
qed simp

text \<open>
  What a finished reconciliation did to the inventory of a provider: everything a first listing showed was
  seen gone after it, and a listing after all removals shows nothing.
\<close>

definition cleared :: "admission_world \<Rightarrow> nat \<Rightarrow> nat \<Rightarrow> nat \<Rightarrow> string \<Rightarrow> bool" where
  "cleared W t s t' i \<longleftrightarrow>
     (\<exists>\<tau>1 first. t \<le> \<tau>1 \<and> \<tau>1 < s \<and> clean_listing W \<tau>1 i first \<and>
        (\<forall>ref\<in>set (iv_owned first). \<exists>\<tau>2. \<tau>1 < \<tau>2 \<and> \<tau>2 < s \<and> jw_observe W \<tau>2 ref = Some (Inr False))) \<and>
     (\<exists>\<tau>3 final. s \<le> \<tau>3 \<and> \<tau>3 < t' \<and> clean_listing W \<tau>3 i final \<and> iv_owned final = [])"

lemma reconcileAccount_Inr:
  assumes "reconcileAccount W drivers ms t = Some (Inr (removed, t'))"
  shows "drivers \<noteq> []" and "\<exists>s. t \<le> s \<and> (\<forall>i\<in>fst ` set drivers. cleared W t s t' i)"
proof -
  from assms obtain snapshots s where run: "drivers \<noteq> []" "inspect_all W t (map fst drivers) = Some (Inr snapshots)"
    "removed = concat (map iv_owned snapshots)" "remove_all W (t + length drivers) removed = Some (Inr s)"
    "verify_empty W s (map fst drivers) = Some (Inr t')"
    by (auto simp: reconcileAccount_def Let_def awaits_Inr split: if_splits option.splits prod.splits)
  show "drivers \<noteq> []" by (rule run)
  note shown = inspect_all_Inr[OF run(2)] and gone = remove_all_Inr[OF run(4)] and emptied = verify_empty_Inr[OF run(5)]
  have "cleared W t s t' i" if i: "i \<in> fst ` set drivers" for i
  proof -
    obtain k where k: "k < length drivers" "map fst drivers ! k = i" using i by (metis in_set_conv_nth length_map list.set_map)
    have first: "clean_listing W (t + k) i (snapshots ! k)" "snapshots ! k \<in> set snapshots" using shown k by auto
    have "\<exists>\<tau>2. t + k < \<tau>2 \<and> \<tau>2 < s \<and> jw_observe W \<tau>2 ref = Some (Inr False)" if "ref \<in> set (iv_owned (snapshots ! k))" for ref
    proof -
      have "ref \<in> set removed" using that first(2) run(3) by auto
      then show ?thesis using gone k(1) by (meson le_less_trans nat_add_left_cancel_less order.strict_trans2)
    qed
    moreover have "t + k < s" using gone k(1) by linarith
    moreover have "i \<in> set (map fst drivers)" using i by simp
    ultimately show ?thesis using first(1) emptied le_add1[of t k] unfolding cleared_def by metis
  qed
  moreover have "t \<le> s" using gone by linarith
  ultimately show "\<exists>s. t \<le> s \<and> (\<forall>i\<in>fst ` set drivers. cleared W t s t' i)" by blast
qed

lemma open_drivers_Inr:
  "open_drivers W t ids = (drivers, Some (Inr t')) \<Longrightarrow> t \<le> t' \<and> map fst drivers = ids \<and> (\<forall>d\<in>snd ` set drivers. complete_driver d)"
proof (induction ids arbitrary: t drivers)
  case (Cons i ids)
  from Cons.prems obtain opened rest where rest: "aw_managed W i" "complete_driver opened"
    "open_drivers W (Suc t) ids = (rest, Some (Inr t'))" "drivers = (i, opened) # rest"
    by (auto split: if_splits option.splits sum.splits prod.splits)
  then show ?case using Cons.IH[OF rest(3)] by auto
qed simp

section \<open>Properties\<close>

text \<open>
  Property C32. An account that is admitted is clear: all its registered providers opened with the
  capabilities that recovery needs, its journal has no unresolved attempt, and there is a time by which the
  removals were over: everything that a listing of any of its providers showed as ours before was seen gone
  after that listing and by that time, and a listing of each provider at or after it shows nothing of ours
  (and nothing at all where the inventory covers the whole account).
\<close>

theorem admitted_account_is_clear:
  assumes "admit_account W providers account journal t = Some a" "ad_failure a = None"
  shows "map fst (ad_drivers a) = filter (\<lambda>i. aw_quotaDomain W i = account) providers \<and>
    (\<forall>d\<in>snd ` set (ad_drivers a). complete_driver d) \<and>
    unresolvedJournalAttempts (ad_journal a) = [] \<and> ad_history a = ad_journal a \<and>
    (\<exists>s\<ge>t. \<forall>i\<in>fst ` set (ad_drivers a).
       (\<exists>\<tau>1 first. t \<le> \<tau>1 \<and> \<tau>1 < s \<and> aw_list W \<tau>1 i = Some (Inr first) \<and>
          (\<forall>ref\<in>set (iv_owned first). \<exists>\<tau>2. \<tau>1 < \<tau>2 \<and> \<tau>2 < s \<and> jw_observe W \<tau>2 ref = Some (Inr False))) \<and>
       (\<exists>\<tau>3\<ge>s. \<exists>final. aw_list W \<tau>3 i = Some (Inr final) \<and> iv_owned final = [] \<and>
          (iv_foreignCount final = 0 \<or> accountInventoryScope (aw_quotaDomain W) i = BenchmarkScope)))"
proof -
  obtain drivers t1 where opened: "open_drivers W t (filter (\<lambda>i. aw_quotaDomain W i = account) providers) = (drivers, Some (Inr t1))"
    using assms by (auto simp: admit_account_def split: prod.splits option.splits sum.splits)
  then obtain journal' t2 where recovered:
    "recoverAccount ((signals W)\<lparr>jw_recoverable := \<lambda>p. p \<in> fst ` set drivers\<rparr>) account journal t1 = Some (journal', Inr t2)"
    using assms by (auto simp: admit_account_def split: if_splits option.splits sum.splits)
  then obtain r where reconciled: "reconcileAccount W drivers (max 1 (aw_remainingMs W (Suc t2))) (Suc t2) = Some (Inr r)"
    and a: "a = \<lparr>ad_failure = None, ad_drivers = drivers, ad_history = journal', ad_journal = journal'\<rparr>"
    using assms opened by (auto simp: admit_account_def split: if_splits option.splits sum.splits)
  obtain removed t' where r: "r = (removed, t')" by fastforce
  have "t \<le> t1" using open_drivers_Inr[OF opened] by simp
  also have "t1 \<le> t2" using recover_attempts_facts[OF recoverAccount_facts[OF recovered]] by auto
  finally have t: "t \<le> Suc t2" by simp
  obtain s where s: "Suc t2 \<le> s" "\<forall>i\<in>fst ` set drivers. cleared W (Suc t2) s t' i"
    using reconcileAccount_Inr(2)[OF reconciled[unfolded r]] by blast
  have "(\<exists>\<tau>1 first. t \<le> \<tau>1 \<and> \<tau>1 < s \<and> aw_list W \<tau>1 i = Some (Inr first) \<and>
          (\<forall>ref\<in>set (iv_owned first). \<exists>\<tau>2. \<tau>1 < \<tau>2 \<and> \<tau>2 < s \<and> jw_observe W \<tau>2 ref = Some (Inr False))) \<and>
       (\<exists>\<tau>3\<ge>s. \<exists>final. aw_list W \<tau>3 i = Some (Inr final) \<and> iv_owned final = [] \<and>
          (iv_foreignCount final = 0 \<or> accountInventoryScope (aw_quotaDomain W) i = BenchmarkScope))"
    if "i \<in> fst ` set drivers" for i
    using s(2)[rule_format, OF that] order.trans[OF t] unfolding cleared_def clean_listing_def by blast
  moreover have "t \<le> s" by (rule order.trans[OF t s(1)])
  moreover have "unresolvedJournalAttempts journal' = []" using recovery_closes[OF recovered] by blast
  moreover have "map fst drivers = filter (\<lambda>i. aw_quotaDomain W i = account) providers" "\<forall>d\<in>snd ` set drivers. complete_driver d"
    using open_drivers_Inr[OF opened] by blast+
  ultimately show ?thesis unfolding a admission.simps by blast
qed

text \<open>An admission of one provider whose inventory held one sandbox.\<close>

definition admission_example :: admission_world where
  "admission_example = \<lparr>jw_read = \<lambda>_. Some (Inr ()), jw_observe = \<lambda>n ref. Some (Inr (n < 6)),
     jw_destroy = \<lambda>_ ref. Some (Inr ()), jw_append = \<lambda>_ r. Some (Inr ()), jw_aborted = \<lambda>_. False, jw_recoverable = \<lambda>p. False,
     aw_list = \<lambda>n i. Some (Inr \<lparr>iv_owned = if n < 11 then [journal_sandbox] else [], iv_foreignCount = 0\<rparr>),
     aw_open = \<lambda>_ i. Some (Inr \<lparr>od_artifact = Image ''ref'', od_inventory = True, od_destroyById = True, od_probes = True\<rparr>),
     aw_managed = \<lambda>_. True, aw_quotaDomain = \<lambda>_. ''acct'', aw_remainingMs = \<lambda>_. 60000\<rparr>"

abbreviation example_intent_records :: "account_record list" where
  "example_intent_records \<equiv> [journal_intent, journal_intent\<lparr>ac_body := Allocated journal_sandbox\<rparr>]"

lemma example_recovery:
  "recoverAccount ((signals admission_example)\<lparr>jw_recoverable := \<lambda>p. p = ''e2b''\<rparr>) ''acct'' example_intent_records (Suc 0) =
   Some (example_intent_records @ [journal_intent\<lparr>ac_body := Released (Absent journal_sandbox None)\<rparr>], Inr 8)"
  by (simp add: recoverAccount_def admission_example_def journal_world.truncate_def journal_intent_def journal_sandbox_def withinSignal_def and_then_def
      attempt_groups_def records_of_def classify_attempt_def supplementalCleanupRecovery_def attestations_def List.map_filter_def
      find_intent_def is_intent_def confirmRemoval_def await_absence.simps release_record_def insertion_order_def)

definition example_driver :: opened_driver where
  "example_driver = \<lparr>od_artifact = Image ''ref'', od_inventory = True, od_destroyById = True, od_probes = True\<rparr>"

lemma example_reconciliation:
  "reconcileAccount admission_example [(''e2b'', example_driver)] 60000 9 = Some (Inr ([journal_sandbox], 13))"
  by (simp add: reconcileAccount_def admission_example_def journal_world.truncate_def journal_sandbox_def withinSignal_def and_then_def
      example_driver_def complete_driver_def list_inventory_def accountInventoryScope_def await_absence.simps)

lemma example_admission:
  "admit_account admission_example [''e2b''] ''acct'' example_intent_records 0 =
   Some \<lparr>ad_failure = None, ad_drivers = [(''e2b'', example_driver)],
     ad_history = example_intent_records @ [journal_intent\<lparr>ac_body := Released (Absent journal_sandbox None)\<rparr>],
     ad_journal = example_intent_records @ [journal_intent\<lparr>ac_body := Released (Absent journal_sandbox None)\<rparr>]\<rparr>"
proof -
  have opened: "open_drivers admission_example 0 [''e2b''] = ([(''e2b'', example_driver)], Some (Inr 1))"
    and signs: "aw_quotaDomain admission_example = (\<lambda>_. ''acct'')" "aw_remainingMs admission_example = (\<lambda>_. 60000)"
      "jw_aborted admission_example = (\<lambda>_. False)" "jw_read admission_example = (\<lambda>_. Some (Inr ()))"
    by (simp_all add: admission_example_def example_driver_def complete_driver_def withinSignal_def journal_world.truncate_def)
  show ?thesis
    by (simp add: admit_account_def opened signs example_recovery withinSignal_def example_reconciliation max_def del: open_drivers.simps)
qed

theorem admitted_account_is_clear_witness:
  "unresolvedJournalAttempts (example_intent_records @ [journal_intent\<lparr>ac_body := Released (Absent journal_sandbox None)\<rparr>]) = [] \<and>
   (\<exists>s \<tau>1 \<tau>3 final. \<tau>1 < s \<and> s \<le> \<tau>3 \<and> aw_list admission_example \<tau>3 ''e2b'' = Some (Inr final) \<and> iv_owned final = [])"
  using admitted_account_is_clear[OF example_admission] by auto

end
