(* ===== verification/Batch.thy ===== *)
theory Batch
  imports Admission
begin

text \<open>
  The execution of one batch (\<open>apps/cli/src/lib/execute-experiment.ts\<close>): up to \<open>maxConcurrency\<close> cells
  run at once, each an asynchronous function with its own locals, and all of them share the journal
  and the flag that stops the refill. A state holds the locals of every cell; an event is what an
  awaited operation, the vendor or the launch loop does next, and \<open>handle\<close> runs the code up to the
  next await. What holds in every order of events is in \<open>BatchSafety\<close>.
\<close>

section \<open>The frozen inputs\<close>

datatype batch_failure =
    NotAdmitted admission_error
  | AdmissionStopped string string
  | CapacityRefused create_error string jsnum nat
  | AlreadyAttempted
  | DriverNotAdmitted
  | SuiteNotAdmitted
  | InputsDiffer
  | DeadlineBeforeAllocation
  | AppendFailure string
  | ReadFailure string
  | SuiteFailure string
  | ReceiptFailure string

record batch_services = evidence_services +
  workloadDigest :: "string \<times> suite \<times> nat \<Rightarrow> string"
  accountOf :: "string \<Rightarrow> string"
  describeFailure :: "batch_failure \<Rightarrow> string"

datatype setup_error =
    PlanRefused plan_error
  | BatchAbsent
  | AccountMismatch
  | ConcurrencyNotPositive
  | AccountMissing
  | ConcurrencyExceedsDeclared

record batch_env =
  be_plan :: experiment_plan
  be_batch :: experiment_batch
  be_cells :: "experiment_cell list"
  be_declared :: jsnum
  be_deadline :: real
  be_admission :: admission
  be_workflowAttempt :: nat

text \<open>The cells of the batch, each found in the plan and of the batch's account.\<close>

fun batch_cells :: "batch_services \<Rightarrow> experiment_plan \<Rightarrow> experiment_batch \<Rightarrow> string list \<Rightarrow> setup_error + experiment_cell list" where
  "batch_cells S plan batch [] = Inr []"
| "batch_cells S plan batch (i # ids) =
     (case find (\<lambda>c. c_id c = i) (p_cells plan) of
        None \<Rightarrow> Inl AccountMismatch
      | Some cell \<Rightarrow>
          if accountOf S (c_provider cell) \<noteq> b_quotaDomain batch then Inl AccountMismatch
          else and_then (batch_cells S plan batch ids) (\<lambda>cells. Inr (cell # cells)))"

text \<open>What is checked before anything is opened; the clock reads the start of the batch.\<close>

definition setup_batch :: "batch_services \<Rightarrow> experiment_plan \<Rightarrow> string \<Rightarrow> nat \<Rightarrow> real \<Rightarrow> admission \<Rightarrow> setup_error + batch_env" where
  "setup_batch S plan batchId workflowAttempt now admitted =
     (case verifyExperimentPlan (services.truncate S) plan of
        Inl e \<Rightarrow> Inl (PlanRefused e)
      | Inr verified \<Rightarrow>
          (case find (\<lambda>b. b_id b = batchId) (p_batches verified) of
             None \<Rightarrow> Inl BatchAbsent
           | Some batch \<Rightarrow>
               and_then (batch_cells S verified batch (b_cells batch)) (\<lambda>cells.
                 if b_maxConcurrency batch < 1 then Inl ConcurrencyNotPositive
                 else case find (\<lambda>a. acc_quotaDomain a = b_quotaDomain batch) (p_accounts verified) of
                        None \<Rightarrow> Inl AccountMissing
                      | Some account \<Rightarrow>
                          if more_than (b_maxConcurrency batch) (cap_sandboxes (acc_capacity account))
                          then Inl ConcurrencyExceedsDeclared
                          else Inr \<lparr>be_plan = verified, be_batch = batch, be_cells = cells,
                                 be_declared = cap_sandboxes (acc_capacity account),
                                 be_deadline = now + b_budgetMinutes batch * 60000, be_admission = admitted,
                                 be_workflowAttempt = workflowAttempt\<rparr>)))"

definition cellStartupDeadline :: "experiment_cell \<Rightarrow> real \<Rightarrow> real \<Rightarrow> real" where
  "cellStartupDeadline cell takenAt batchDeadline =
     min (takenAt + c_startupMinutes cell * 60000) (batchDeadline - (c_workloadMinutes cell + c_finishMinutes cell) * 60000)"

section \<open>The locals of a cell\<close>

text \<open>
  The main flow awaits the append of the intent, the replicate, the read of the journal, the append
  of the release or the upload, and then is settled.
\<close>

datatype run_phase =
    AppendingIntent
  | Replicating
  | ReadingRecords
  | AppendingRelease release_outcome
  | Uploading experiment_attempt
  | Settled "string + experiment_attempt"

text \<open>
  The create that the harness calls runs beside the main flow, which does not wait for it once the
  harness has timed it out. \<open>Ambiguous\<close> is a create that failed without proof that nothing is left.
\<close>

datatype create_state =
    Uncalled
  | Pending
  | Recording sandbox_ref
  | Discarding sandbox_ref
  | Returned sandbox_ref
  | Ambiguous
  | Over

record cell_run =
  ru_cell :: experiment_cell
  ru_attempt :: string
  ru_startupDeadline :: real
  ru_phase :: run_phase
  ru_create :: create_state
  ru_createStarted :: bool
  ru_createRejectedCleanly :: bool
  ru_allocated :: "sandbox_ref option"
  ru_allocationRecorded :: bool
  ru_journalFailed :: bool
  ru_retained :: "sandbox_ref option"
  ru_failure :: "batch_failure option"
  ru_cleanup :: attempt_cleanup
  ru_execution :: "execution_receipt option"
  ru_runDigest :: "string option"
  ru_rawDigest :: string

text \<open>
  The shared state: the refill flag, the journal, appends that lost the race with a signal and may
  still land, and the sandboxes that stand at the vendor with the attempt that made them.
\<close>

record batch_run =
  bx_runs :: "cell_run list"
  bx_refill :: "batch_failure option"
  bx_journal :: "account_record list"
  bx_late :: "account_record list"
  bx_standing :: "(string \<times> sandbox_ref) list"

definition batch_start :: "batch_env \<Rightarrow> batch_run" where
  "batch_start E = \<lparr>bx_runs = [], bx_refill = None, bx_journal = ad_journal (be_admission E), bx_late = [], bx_standing = []\<rparr>"

definition put_run :: "batch_run \<Rightarrow> nat \<Rightarrow> cell_run \<Rightarrow> batch_run" where
  "put_run s i ru = s\<lparr>bx_runs := (bx_runs s)[i := ru]\<rparr>"

text \<open>\<open>refillFailure ??= ...\<close>: the first failure stays.\<close>

definition stop_with :: "batch_failure \<Rightarrow> batch_run \<Rightarrow> batch_run" where
  "stop_with f s = (if bx_refill s = None then s\<lparr>bx_refill := Some f\<rparr> else s)"

definition stopRefill :: "batch_env \<Rightarrow> experiment_cell \<Rightarrow> batch_run \<Rightarrow> batch_run" where
  "stopRefill E cell s = stop_with (AdmissionStopped (b_quotaDomain (be_batch E)) (c_id cell)) s"

definition own_record :: "batch_env \<Rightarrow> cell_run \<Rightarrow> record_body \<Rightarrow> account_record" where
  "own_record E ru body = \<lparr>ac_account = c_quotaDomain (ru_cell ru), ac_attempt = ru_attempt ru, ac_cellId = c_id (ru_cell ru),
     ac_planDigest = p_digest (be_plan E), ac_body = body\<rparr>"

text \<open>
  How an append ends: stored, or with an error that says nothing of the record, which was kept, was
  not, or (when the signal won the race) is still on its way.
\<close>

datatype append_fate = Kept | Dropped | InFlight

datatype append_result = Stored | Broken string append_fate

fun journal_append :: "account_record \<Rightarrow> append_result \<Rightarrow> batch_run \<Rightarrow> batch_run" where
  "journal_append r Stored s = s\<lparr>bx_journal := bx_journal s @ [r]\<rparr>"
| "journal_append r (Broken e Kept) s = s\<lparr>bx_journal := bx_journal s @ [r]\<rparr>"
| "journal_append r (Broken e Dropped) s = s"
| "journal_append r (Broken e InFlight) s = s\<lparr>bx_late := r # bx_late s\<rparr>"

section \<open>The end of a cell\<close>

definition measurement_started :: "execution_receipt option \<Rightarrow> bool" where
  "measurement_started execution \<longleftrightarrow>
     (case execution of
        None \<Rightarrow> False
      | Some x \<Rightarrow> list_ex (\<lambda>st. st_phase st = BenchmarkPhase) (xe_steps x) \<or> list_ex (\<lambda>d. dt_phase d = BenchmarkPhase) (xe_detached x))"

definition step_failed :: "execution_receipt option \<Rightarrow> bool" where
  "step_failed execution \<longleftrightarrow>
     (case execution of
        None \<Rightarrow> False
      | Some x \<Rightarrow> list_ex (\<lambda>st. case st_exitCode st of None \<Rightarrow> False | Some c \<Rightarrow> c \<noteq> 0) (xe_steps x))"

definition attempt_evidence :: "batch_services \<Rightarrow> batch_env \<Rightarrow> cell_run \<Rightarrow> experiment_attempt" where
  "attempt_evidence S E ru =
     (let cell = ru_cell ru; plan = be_plan E; started = measurement_started (ru_execution ru);
          diagnostic = map_option (describeFailure S) (ru_failure ru)
      in \<lparr>at_id = ru_attempt ru, at_cellId = c_id cell, at_planDigest = p_digest plan, at_sha = p_sha plan,
          at_workloadRevision = c_workloadRevision cell, at_environmentRevision = c_environmentRevision cell,
          at_artifactIdentity = c_artifactIdentity cell, at_passes = c_passes cell, at_workflowRun = p_id plan,
          at_sequence = 0, at_previousAttempt = None,
          at_outcome = (if ru_failure ru = None \<and> ru_cleanup ru = ConfirmedCleanup then CompletedAttempt else FailedAttempt),
          at_measurementStarted = started, at_retryable = False, at_cleanup = ru_cleanup ru,
          at_completion = (if ru_failure ru = None \<and> started then KnownSuccess
                           else if step_failed (ru_execution ru) then KnownFailure else UnknownCompletion),
          at_runDigest = ru_runDigest ru, at_rawDigest = Some (ru_rawDigest ru),
          at_diagnostic = (if diagnostic = Some [] then None else diagnostic)\<rparr>)"

text \<open>After the release: stop the refill if anything is unresolved, then write and upload the evidence.\<close>

definition conclude :: "batch_services \<Rightarrow> batch_env \<Rightarrow> batch_run \<Rightarrow> nat \<Rightarrow> cell_run \<Rightarrow> batch_run" where
  "conclude S E s i ru =
     put_run (if ru_cleanup ru = UnresolvedCleanup \<or> ru_journalFailed ru then stopRefill E (ru_cell ru) s else s) i
       (ru\<lparr>ru_phase := Uploading (attempt_evidence S E ru)\<rparr>)"

definition cleanup_of :: "cell_run \<Rightarrow> cleanup_receipt option \<Rightarrow> attempt_cleanup" where
  "cleanup_of ru receipt =
     (if (case receipt of None \<Rightarrow> False | Some r \<Rightarrow> cl_completed r \<and> cl_confirmedAbsent r) then ConfirmedCleanup
      else if ru_createStarted ru \<and> \<not> ru_createRejectedCleanly ru then UnresolvedCleanup else NotAllocated)"

text \<open>From the receipts to the next await: the release of an observed removal, or a look for the own intent.\<close>

definition close_run :: "batch_services \<Rightarrow> batch_env \<Rightarrow> batch_run \<Rightarrow> nat \<Rightarrow> cleanup_receipt option \<Rightarrow> cell_run \<Rightarrow> batch_run" where
  "close_run S E s i receipt ru0 =
     (let ru = ru0\<lparr>ru_cleanup := cleanup_of ru0 receipt\<rparr>
      in case (if ru_allocationRecorded ru \<and> ru_cleanup ru = ConfirmedCleanup then ru_allocated ru else None) of
           Some ref \<Rightarrow> put_run s i (ru\<lparr>ru_phase := AppendingRelease (Absent ref None)\<rparr>)
         | None \<Rightarrow>
             if (\<not> ru_createStarted ru \<or> ru_createRejectedCleanly ru) \<and> ad_failure (be_admission E) = None \<and>
                map_of (ad_drivers (be_admission E)) (c_provider (ru_cell ru)) \<noteq> None
             then put_run s i (ru\<lparr>ru_phase := ReadingRecords\<rparr>)
             else conclude S E s i ru)"

section \<open>The start of a cell\<close>

definition inputs_differ :: "batch_services \<Rightarrow> batch_env \<Rightarrow> experiment_cell \<Rightarrow> opened_driver \<Rightarrow> suite \<Rightarrow> bool" where
  "inputs_differ S E cell opened suite \<longleftrightarrow>
     c_gpu cell \<noteq> None \<or>
     artifactDigest S (od_artifact opened) \<noteq> c_artifactIdentity cell \<or>
     c_environmentRevision cell \<noteq> p_sha (be_plan E) \<or>
     workloadDigest S (p_sha (be_plan E), suite, c_passes cell) \<noteq> c_workloadRevision cell \<or>
     targetDigest S (c_target cell) \<noteq> targetDigest S TARGET_SPEC"

text \<open>What is thrown before the intent is appended, if anything.\<close>

definition begin_failure :: "batch_services \<Rightarrow> batch_env \<Rightarrow> batch_run \<Rightarrow> experiment_cell \<Rightarrow> real \<Rightarrow> real \<Rightarrow> batch_failure option" where
  "begin_failure S E s cell startupDeadline now =
     (if list_ex (\<lambda>r. ac_planDigest r = p_digest (be_plan E) \<and> ac_cellId r = c_id cell) (ad_history (be_admission E))
      then Some AlreadyAttempted
      else case (case ad_failure (be_admission E) of Some e \<Rightarrow> Some (NotAdmitted e) | None \<Rightarrow> bx_refill s) of
             Some f \<Rightarrow> Some f
           | None \<Rightarrow>
               (case map_of (ad_drivers (be_admission E)) (c_provider cell) of
                  None \<Rightarrow> Some DriverNotAdmitted
                | Some opened \<Rightarrow>
                    (case map_of SUITES (c_suite cell) of
                       None \<Rightarrow> Some SuiteNotAdmitted
                     | Some suite \<Rightarrow>
                         if inputs_differ S E cell opened suite then Some InputsDiffer
                         else if startupDeadline \<le> now then Some DeadlineBeforeAllocation
                         else None)))"

definition attempt_id :: "batch_env \<Rightarrow> experiment_cell \<Rightarrow> string \<Rightarrow> string" where
  "attempt_id E cell uuid = c_id cell @ ''-a'' @ nat_string (be_workflowAttempt E) @ ''-'' @ uuid"

definition fresh_run :: "batch_env \<Rightarrow> experiment_cell \<Rightarrow> string \<Rightarrow> real \<Rightarrow> cell_run" where
  "fresh_run E cell uuid takenAt =
     \<lparr>ru_cell = cell, ru_attempt = attempt_id E cell uuid, ru_startupDeadline = cellStartupDeadline cell takenAt (be_deadline E),
      ru_phase = AppendingIntent, ru_create = Uncalled, ru_createStarted = False, ru_createRejectedCleanly = False,
      ru_allocated = None, ru_allocationRecorded = False, ru_journalFailed = False, ru_retained = None, ru_failure = None,
      ru_cleanup = NotAllocated, ru_execution = None, ru_runDigest = None, ru_rawDigest = []\<rparr>"

definition run_settled :: "cell_run \<Rightarrow> bool" where
  "run_settled ru \<longleftrightarrow> (case ru_phase ru of Settled r \<Rightarrow> True | _ \<Rightarrow> False)"

definition pending_runs :: "batch_run \<Rightarrow> cell_run list" where
  "pending_runs s = filter (\<lambda>ru. \<not> run_settled ru) (bx_runs s)"

text \<open>One turn of the loop in \<open>launch\<close>: the next cell, while fewer than the limit are pending.\<close>

definition can_launch :: "batch_env \<Rightarrow> batch_run \<Rightarrow> bool" where
  "can_launch E s \<longleftrightarrow> length (bx_runs s) < length (be_cells E) \<and> length (pending_runs s) < b_maxConcurrency (be_batch E)"

definition launch_next :: "batch_services \<Rightarrow> batch_env \<Rightarrow> batch_run \<Rightarrow> string \<Rightarrow> real \<Rightarrow> real \<Rightarrow> batch_run" where
  "launch_next S E s uuid takenAt now =
     (let i = length (bx_runs s); ru = fresh_run E (be_cells E ! i) uuid takenAt; s1 = s\<lparr>bx_runs := bx_runs s @ [ru]\<rparr>
      in case begin_failure S E s (ru_cell ru) (ru_startupDeadline ru) now of
           None \<Rightarrow> s1
         | Some f \<Rightarrow> close_run S E s1 i None (ru\<lparr>ru_failure := Some f\<rparr>))"

section \<open>What the awaited operations bring\<close>

text \<open>The helper \<open>append\<close> marks the journal as failed and stops the refill before it throws.\<close>

definition append_broke :: "batch_env \<Rightarrow> batch_run \<Rightarrow> nat \<Rightarrow> cell_run \<Rightarrow> batch_run" where
  "append_broke E s i ru = put_run (stopRefill E (ru_cell ru) s) i (ru\<lparr>ru_journalFailed := True\<rparr>)"

definition intent_appended :: "batch_services \<Rightarrow> batch_env \<Rightarrow> batch_run \<Rightarrow> nat \<Rightarrow> append_result \<Rightarrow> cell_run \<Rightarrow> batch_run" where
  "intent_appended S E s i result ru =
     (let s1 = journal_append (own_record E ru Intent) result s
      in case result of
           Stored \<Rightarrow> put_run s1 i (ru\<lparr>ru_phase := Replicating\<rparr>)
         | Broken e fate \<Rightarrow>
             (let failed = ru\<lparr>ru_journalFailed := True, ru_failure := Some (AppendFailure e)\<rparr>
              in close_run S E (append_broke E s1 i ru) i None failed))"

text \<open>The wrapped create, up to the call of the driver: the refill, the signal and the clock are read again.\<close>

definition create_called :: "batch_run \<Rightarrow> nat \<Rightarrow> bool \<Rightarrow> real \<Rightarrow> cell_run \<Rightarrow> batch_run" where
  "create_called s i aborted now ru =
     (if bx_refill s \<noteq> None \<or> aborted \<or> ru_startupDeadline ru \<le> now then put_run s i (ru\<lparr>ru_create := Over\<rparr>)
      else put_run s i (ru\<lparr>ru_createStarted := True, ru_create := Pending\<rparr>))"

text \<open>The driver returned a session: its identity is written to \<open>allocation.json\<close>, then appended.\<close>

definition create_returned :: "batch_env \<Rightarrow> batch_run \<Rightarrow> nat \<Rightarrow> sandbox_ref \<Rightarrow> bool \<Rightarrow> cell_run \<Rightarrow> batch_run" where
  "create_returned E s i ref written ru =
     (if written then put_run s i (ru\<lparr>ru_allocated := Some ref, ru_retained := Some ref, ru_create := Recording ref\<rparr>)
      else put_run (stopRefill E (ru_cell ru) s) i (ru\<lparr>ru_allocated := Some ref, ru_create := Discarding ref\<rparr>))"

definition allocation_appended :: "batch_env \<Rightarrow> batch_run \<Rightarrow> nat \<Rightarrow> append_result \<Rightarrow> sandbox_ref \<Rightarrow> cell_run \<Rightarrow> batch_run" where
  "allocation_appended E s i result ref ru =
     (let s1 = journal_append (own_record E ru (Allocated ref)) result s
      in case result of
           Stored \<Rightarrow> put_run s1 i (ru\<lparr>ru_allocationRecorded := True, ru_create := Returned ref\<rparr>)
         | Broken e fate \<Rightarrow>
             put_run (stopRefill E (ru_cell ru) s1) i (ru\<lparr>ru_journalFailed := True, ru_create := Discarding ref\<rparr>))"

text \<open>The driver's create rejected.\<close>

definition driver_rejected :: "batch_env \<Rightarrow> batch_run \<Rightarrow> nat \<Rightarrow> create_error \<Rightarrow> cell_run \<Rightarrow> batch_run" where
  "driver_rejected E s i err ru =
     (let unclean = isFailedCreateCleanupError err;
          s1 = (if unclean then stopRefill E (ru_cell ru) s else s);
          s2 = (if isConcurrentSandboxAdmissionError err
                then stop_with (CapacityRefused err (b_quotaDomain (be_batch E)) (be_declared E) (b_maxConcurrency (be_batch E))) s1
                else s1);
          retained = (case retained_identity (c_provider (ru_cell ru)) err of Some ref \<Rightarrow> Some ref | None \<Rightarrow> ru_retained ru)
      in put_run s2 i (ru\<lparr>ru_createRejectedCleanly := \<not> unclean, ru_retained := retained,
           ru_create := (if unclean then Ambiguous else Over)\<rparr>))"

text \<open>What the replicate returned, with what its raw directory holds.\<close>

record replicate_end =
  re_failed :: "string option"
  re_runDigest :: "string option"
  re_receipts :: "string + execution_receipt option \<times> cleanup_receipt option"
  re_rawDigest :: string

definition replicate_ended :: "batch_services \<Rightarrow> batch_env \<Rightarrow> batch_run \<Rightarrow> nat \<Rightarrow> replicate_end \<Rightarrow> cell_run \<Rightarrow> batch_run" where
  "replicate_ended S E s i outcome ru =
     (let failure = (case re_failed outcome of None \<Rightarrow> ru_failure ru | Some detail \<Rightarrow> Some (SuiteFailure detail));
          ru1 = ru\<lparr>ru_runDigest := re_runDigest outcome, ru_rawDigest := re_rawDigest outcome\<rparr>
      in case re_receipts outcome of
           Inl e \<Rightarrow> close_run S E s i None (ru1\<lparr>ru_failure := (if failure = None then Some (ReceiptFailure e) else failure)\<rparr>)
         | Inr (execution, cleanup) \<Rightarrow> close_run S E s i cleanup (ru1\<lparr>ru_failure := failure, ru_execution := execution\<rparr>))"

definition records_read :: "batch_services \<Rightarrow> batch_env \<Rightarrow> batch_run \<Rightarrow> nat \<Rightarrow> string + unit \<Rightarrow> cell_run \<Rightarrow> batch_run" where
  "records_read S E s i result ru =
     (case result of
        Inl e \<Rightarrow> conclude S E s i (ru\<lparr>ru_journalFailed := True,
          ru_failure := (if ru_failure ru = None then Some (ReadFailure e) else ru_failure ru)\<rparr>)
      | Inr u \<Rightarrow>
          if list_ex (\<lambda>r. is_intent r \<and> ac_attempt r = ru_attempt ru) (bx_journal s)
          then put_run s i (ru\<lparr>ru_phase := AppendingRelease NeverAllocated\<rparr>)
          else conclude S E s i ru)"

definition release_appended :: "batch_services \<Rightarrow> batch_env \<Rightarrow> batch_run \<Rightarrow> nat \<Rightarrow> append_result \<Rightarrow> release_outcome \<Rightarrow> cell_run \<Rightarrow> batch_run" where
  "release_appended S E s i result oc ru =
     (let s1 = journal_append (own_record E ru (Released oc)) result s
      in case result of
           Stored \<Rightarrow> conclude S E s1 i ru
         | Broken e fate \<Rightarrow>
             conclude S E (append_broke E s1 i ru) i
               (ru\<lparr>ru_journalFailed := True, ru_failure := (if ru_failure ru = None then Some (AppendFailure e) else ru_failure ru)\<rparr>))"

section \<open>Events\<close>

text \<open>
  One event per thing that can happen next. The guards of \<open>handle\<close> are the awaits of the code (an
  event reaches a cell only where the cell waits for it) and the contracts of the operations: a
  session is the only sandbox of its create, a create that rejects without a clean-up error has left
  nothing, and the harness writes a confirmed cleanup only after the probe of the session's sandbox no
  longer sees it running. The harness calls the wrapped create once per cell, since the budget of its
  retries (\<open>CREATE_RETRY_BUDGET_MS\<close>) is 0. A sandbox may appear at the vendor while a create is pending
  or after one failed ambiguously, and may vanish at any time. An attempt id ends in a fresh UUID.
\<close>

datatype batch_event =
    Launched string real real
  | IntentAppended nat append_result
  | CreateCalled nat bool real
  | CreateReturned nat sandbox_ref bool
  | CreateRejected nat create_error
  | AllocationAppended nat append_result
  | SessionDiscarded nat
  | ReplicateEnded nat replicate_end
  | RecordsRead nat "string + unit"
  | ReleaseAppended nat append_result
  | EvidenceUploaded nat "string + unit"
  | SandboxAppears nat sandbox_ref
  | SandboxVanishes string sandbox_ref
  | RecordLands account_record

definition standing_refs :: "batch_run \<Rightarrow> string \<Rightarrow> sandbox_ref set" where
  "standing_refs s a = {ref. (a, ref) \<in> set (bx_standing s)}"

definition refs_of :: "batch_run \<Rightarrow> string \<Rightarrow> sandbox_ref list" where
  "refs_of s a = map snd (filter (\<lambda>(b, ref). b = a) (bx_standing s))"

definition fresh_attempt :: "batch_run \<Rightarrow> string \<Rightarrow> bool" where
  "fresh_attempt s a \<longleftrightarrow> \<not> list_ex (\<lambda>ru. ru_attempt ru = a) (bx_runs s) \<and> \<not> list_ex (\<lambda>r. ac_attempt r = a) (bx_journal s) \<and>
     \<not> list_ex (\<lambda>r. ac_attempt r = a) (bx_late s)"

definition at_run :: "batch_run \<Rightarrow> nat \<Rightarrow> (cell_run \<Rightarrow> batch_run option) \<Rightarrow> batch_run option" where
  "at_run s i f = (if i < length (bx_runs s) then f (bx_runs s ! i) else None)"

definition guarded :: "bool \<Rightarrow> batch_run \<Rightarrow> batch_run option" where
  "guarded b t = (if b then Some t else None)"

definition confirms :: "replicate_end \<Rightarrow> bool" where
  "confirms outcome \<longleftrightarrow>
     (case re_receipts outcome of Inr (x, Some r) \<Rightarrow> cl_completed r \<and> cl_confirmedAbsent r | _ \<Rightarrow> False)"

fun returned :: "create_state \<Rightarrow> bool" where
  "returned (Returned ref) = True"
| "returned _ = False"

fun in_flight :: "append_result \<Rightarrow> bool" where
  "in_flight (Broken e InFlight) = True"
| "in_flight _ = False"

definition uploaded :: "string + unit \<Rightarrow> experiment_attempt \<Rightarrow> string + experiment_attempt" where
  "uploaded result evidence = and_then result (\<lambda>u. Inr evidence)"

fun handle :: "batch_services \<Rightarrow> batch_env \<Rightarrow> batch_run \<Rightarrow> batch_event \<Rightarrow> batch_run option" where
  "handle S E s (Launched uuid takenAt now) =
     guarded (can_launch E s \<and> fresh_attempt s (attempt_id E (be_cells E ! length (bx_runs s)) uuid)) (launch_next S E s uuid takenAt now)"
| "handle S E s (IntentAppended i result) = at_run s i (\<lambda>ru.
     guarded (ru_phase ru = AppendingIntent) (intent_appended S E s i result ru))"
| "handle S E s (CreateCalled i aborted now) = at_run s i (\<lambda>ru.
     guarded (ru_phase ru = Replicating \<and> ru_create ru = Uncalled) (create_called s i aborted now ru))"
| "handle S E s (CreateReturned i ref written) = at_run s i (\<lambda>ru.
     guarded (ru_create ru = Pending \<and> list_all (\<lambda>r. r = ref) (refs_of s (ru_attempt ru))) (create_returned E s i ref written ru))"
| "handle S E s (CreateRejected i err) = at_run s i (\<lambda>ru.
     guarded (ru_create ru = Pending \<and> (isFailedCreateCleanupError err \<or> refs_of s (ru_attempt ru) = [])) (driver_rejected E s i err ru))"
| "handle S E s (AllocationAppended i result) = at_run s i (\<lambda>ru.
     case ru_create ru of Recording ref \<Rightarrow> Some (allocation_appended E s i result ref ru) | _ \<Rightarrow> None)"
| "handle S E s (SessionDiscarded i) = at_run s i (\<lambda>ru.
     case ru_create ru of Discarding ref \<Rightarrow> Some (put_run s i (ru\<lparr>ru_create := Over\<rparr>)) | _ \<Rightarrow> None)"
| "handle S E s (ReplicateEnded i outcome) = at_run s i (\<lambda>ru.
     guarded (ru_phase ru = Replicating \<and> (confirms outcome \<longrightarrow> returned (ru_create ru) \<and> refs_of s (ru_attempt ru) = []))
       (replicate_ended S E s i outcome ru))"
| "handle S E s (RecordsRead i result) = at_run s i (\<lambda>ru.
     guarded (ru_phase ru = ReadingRecords) (records_read S E s i result ru))"
| "handle S E s (ReleaseAppended i result) = at_run s i (\<lambda>ru.
     case ru_phase ru of AppendingRelease oc \<Rightarrow> guarded (\<not> in_flight result) (release_appended S E s i result oc ru) | _ \<Rightarrow> None)"
| "handle S E s (EvidenceUploaded i result) = at_run s i (\<lambda>ru.
     case ru_phase ru of
       Uploading evidence \<Rightarrow> Some (put_run s i (ru\<lparr>ru_phase := Settled (uploaded result evidence)\<rparr>)) | _ \<Rightarrow> None)"
| "handle S E s (SandboxAppears i ref) = at_run s i (\<lambda>ru.
     guarded (ru_create ru = Pending \<or> ru_create ru = Ambiguous) (s\<lparr>bx_standing := (ru_attempt ru, ref) # bx_standing s\<rparr>))"
| "handle S E s (SandboxVanishes a ref) = Some (s\<lparr>bx_standing := filter (\<lambda>x. x \<noteq> (a, ref)) (bx_standing s)\<rparr>)"
| "handle S E s (RecordLands r) =
     guarded (r \<in> set (bx_late s)) (s\<lparr>bx_late := remove1 r (bx_late s), bx_journal := bx_journal s @ [r]\<rparr>)"

definition batch_step :: "batch_services \<Rightarrow> batch_env \<Rightarrow> batch_run \<Rightarrow> batch_run \<Rightarrow> bool" where
  "batch_step S E s t \<longleftrightarrow> (\<exists>e. handle S E s e = Some t)"

fun run_events :: "batch_services \<Rightarrow> batch_env \<Rightarrow> batch_run \<Rightarrow> batch_event list \<Rightarrow> batch_run option" where
  "run_events S E s [] = Some s"
| "run_events S E s (e # es) = (case handle S E s e of None \<Rightarrow> None | Some t \<Rightarrow> run_events S E t es)"

text \<open>What the batch returns when all its cells are settled: the first rejection, or every evidence.\<close>

definition run_result :: "cell_run \<Rightarrow> (string + experiment_attempt) option" where
  "run_result ru = (case ru_phase ru of Settled r \<Rightarrow> Some r | _ \<Rightarrow> None)"

definition batch_results :: "batch_run \<Rightarrow> string + experiment_attempt list" where
  "batch_results s = sequence (List.map_filter run_result (bx_runs s))"

end
