(* ===== verification/BatchSafety.thy ===== *)
theory BatchSafety
  imports Batch
begin

text \<open>
  What holds of a batch in every order of events: no sandbox stands without an open record of it in
  the journal, the account's declared concurrency is never exceeded, what the evidence says of a
  sandbox is true, the journal stays recoverable, and every batch ends. The invariant is stated for
  one cell (its locals, the records of its attempt, its sandboxes); an event touches one cell, and
  the frame lemmas carry the others.
\<close>

section \<open>The invariant of a cell\<close>

text \<open>A cell is seen through the bodies of its records, stored or under way, and its standing sandboxes.\<close>

definition bodies :: "account_record list \<Rightarrow> string \<Rightarrow> record_body set" where
  "bodies rs a = ac_body ` {r \<in> set rs. ac_attempt r = a}"

text \<open>Nothing of the attempt stands, and nothing can appear.\<close>

definition quiet :: "cell_run \<Rightarrow> sandbox_ref set \<Rightarrow> bool" where
  "quiet ru refs \<longleftrightarrow> refs = {} \<and> ru_create ru \<noteq> Pending \<and> ru_create ru \<noteq> Ambiguous"

definition releasable :: "cell_run \<Rightarrow> record_body set \<Rightarrow> sandbox_ref set \<Rightarrow> release_outcome \<Rightarrow> bool" where
  "releasable ru B refs oc \<longleftrightarrow> quiet ru refs \<and> Intent \<in> B \<and>
     (oc = NeverAllocated \<and> ru_allocated ru = None \<or> (\<exists>ref. oc = Absent ref None \<and> Allocated ref \<in> B))"

fun holds_session :: "create_state \<Rightarrow> sandbox_ref option" where
  "holds_session (Recording ref) = Some ref"
| "holds_session (Discarding ref) = Some ref"
| "holds_session (Returned ref) = Some ref"
| "holds_session _ = None"

text \<open>What the locals of the create say of the records and of the sandboxes.\<close>

definition create_inv :: "cell_run \<Rightarrow> record_body set \<Rightarrow> record_body set \<Rightarrow> sandbox_ref set \<Rightarrow> bool" where
  "create_inv ru B L refs \<longleftrightarrow>
     (ru_createStarted ru \<longrightarrow> ru_create ru \<noteq> Uncalled \<and> Intent \<in> B) \<and>
     (\<not> ru_createStarted ru \<longrightarrow> (ru_create ru = Uncalled \<or> ru_create ru = Over) \<and> ru_allocated ru = None \<and> refs = {}) \<and>
     (ru_createRejectedCleanly ru \<longrightarrow> ru_create ru = Over \<and> ru_allocated ru = None \<and> refs = {}) \<and>
     (ru_create ru = Pending \<or> ru_create ru = Ambiguous \<longrightarrow> ru_allocated ru = None) \<and>
     (\<forall>ref. holds_session (ru_create ru) = Some ref \<longrightarrow> ru_allocated ru = Some ref \<and> refs \<subseteq> {ref}) \<and>
     (ru_allocationRecorded ru = returned (ru_create ru)) \<and>
     (\<forall>ref. ru_create ru = Returned ref \<longrightarrow> Allocated ref \<in> B) \<and>
     (\<forall>ref. Allocated ref \<in> B \<union> L \<longrightarrow> ru_allocated ru = Some ref) \<and>
     (\<forall>body\<in>B \<union> L. body = Intent \<or> (\<exists>ref. body = Allocated ref) \<or> (\<exists>oc. body = Released oc)) \<and>
     (\<forall>oc. Released oc \<notin> L)"

text \<open>What the evidence of a closed cell promises.\<close>

definition honest :: "cell_run \<Rightarrow> record_body set \<Rightarrow> sandbox_ref set \<Rightarrow> experiment_attempt \<Rightarrow> bool" where
  "honest ru B refs evidence \<longleftrightarrow>
     at_id evidence = ru_attempt ru \<and> at_cellId evidence = c_id (ru_cell ru) \<and>
     (at_cleanup evidence \<noteq> UnresolvedCleanup \<longrightarrow> quiet ru refs) \<and>
     (at_outcome evidence = CompletedAttempt \<longrightarrow> at_cleanup evidence = ConfirmedCleanup \<and> (\<exists>ref. Released (Absent ref None) \<in> B))"

fun phase_inv :: "bool \<Rightarrow> cell_run \<Rightarrow> record_body set \<Rightarrow> record_body set \<Rightarrow> sandbox_ref set \<Rightarrow> run_phase \<Rightarrow> bool" where
  "phase_inv refilling ru B L refs AppendingIntent \<longleftrightarrow> B = {} \<and> L = {} \<and> ru_create ru = Uncalled"
| "phase_inv refilling ru B L refs Replicating \<longleftrightarrow> Intent \<in> B \<and> (\<forall>oc. Released oc \<notin> B)"
| "phase_inv refilling ru B L refs ReadingRecords \<longleftrightarrow>
     (\<forall>oc. Released oc \<notin> B) \<and> quiet ru refs \<and> ru_allocated ru = None \<and> ru_cleanup ru = NotAllocated"
| "phase_inv refilling ru B L refs (AppendingRelease oc) \<longleftrightarrow>
     (\<forall>oc. Released oc \<notin> B) \<and> releasable ru B refs oc \<and>
     ru_cleanup ru = (if oc = NeverAllocated then NotAllocated else ConfirmedCleanup)"
| "phase_inv refilling ru B L refs (Uploading evidence) \<longleftrightarrow>
     (\<forall>oc. Released oc \<in> B \<longrightarrow> releasable ru B refs oc) \<and> (refilling \<longrightarrow> quiet ru refs) \<and> honest ru B refs evidence"
| "phase_inv refilling ru B L refs (Settled r) \<longleftrightarrow>
     (\<forall>oc. Released oc \<in> B \<longrightarrow> releasable ru B refs oc) \<and> (refilling \<longrightarrow> quiet ru refs) \<and>
     (\<forall>evidence. r = Inr evidence \<longrightarrow> honest ru B refs evidence)"

definition run_ok :: "batch_run \<Rightarrow> cell_run \<Rightarrow> bool" where
  "run_ok s ru \<longleftrightarrow>
     create_inv ru (bodies (bx_journal s) (ru_attempt ru)) (bodies (bx_late s) (ru_attempt ru)) (standing_refs s (ru_attempt ru)) \<and>
     phase_inv (bx_refill s = None) ru (bodies (bx_journal s) (ru_attempt ru)) (bodies (bx_late s) (ru_attempt ru))
       (standing_refs s (ru_attempt ru)) (ru_phase ru)"

text \<open>An attempt is live while a sandbox of it stands or may appear.\<close>

definition live :: "batch_run \<Rightarrow> cell_run \<Rightarrow> bool" where
  "live s ru \<longleftrightarrow> \<not> quiet ru (standing_refs s (ru_attempt ru))"

text \<open>
  What an event at cell \<open>i\<close> leaves alone: the other cells and their records and sandboxes; and what it
  keeps of its own: identity, and that a cell becomes live only while the refill goes on.
\<close>

definition touched :: "batch_env \<Rightarrow> batch_run \<Rightarrow> nat \<Rightarrow> batch_run \<Rightarrow> bool" where
  "touched E s i t \<longleftrightarrow> i < length (bx_runs s) \<and>
     (\<exists>ru. bx_runs t = (bx_runs s)[i := ru] \<and>
        ru_attempt ru = ru_attempt (bx_runs s ! i) \<and> ru_cell ru = ru_cell (bx_runs s ! i) \<and>
        (\<forall>a. a \<noteq> ru_attempt ru \<longrightarrow> bodies (bx_journal t) a = bodies (bx_journal s) a \<and> bodies (bx_late t) a = bodies (bx_late s) a \<and>
           standing_refs t a = standing_refs s a) \<and>
        set (bx_journal t) \<union> set (bx_late t) \<subseteq> set (bx_journal s) \<union> set (bx_late s) \<union> range (own_record E ru) \<and>
        (bx_refill t = None \<longrightarrow> bx_refill s = None) \<and>
        (run_settled (bx_runs s ! i) \<longrightarrow> run_settled ru) \<and>
        (live t ru \<longrightarrow> live s (bx_runs s ! i) \<or> bx_refill t = None) \<and>
        run_ok t ru)"

lemma bodies_simps [simp]:
  "bodies [] a = {}"
  "bodies (r # rs) a = (if ac_attempt r = a then insert (ac_body r) (bodies rs a) else bodies rs a)"
  "bodies (rs @ rs') a = bodies rs a \<union> bodies rs' a"
  by (auto simp: bodies_def)

lemma own_record_simps [simp]:
  "ac_attempt (own_record E ru b) = ru_attempt ru" "ac_body (own_record E ru b) = b"
  by (simp_all add: own_record_def)

lemma put_run_simps [simp]:
  "bx_runs (put_run s i ru) = (bx_runs s)[i := ru]" "bx_refill (put_run s i ru) = bx_refill s"
  "bx_journal (put_run s i ru) = bx_journal s" "bx_late (put_run s i ru) = bx_late s" "bx_standing (put_run s i ru) = bx_standing s"
  by (simp_all add: put_run_def)

lemma stop_with_simps [simp]:
  "bx_runs (stop_with f s) = bx_runs s" "bx_refill (stop_with f s) \<noteq> None"
  "bx_journal (stop_with f s) = bx_journal s" "bx_late (stop_with f s) = bx_late s" "bx_standing (stop_with f s) = bx_standing s"
  by (simp_all add: stop_with_def)

lemma stopRefill_simps [simp]:
  "bx_runs (stopRefill E c s) = bx_runs s" "bx_refill (stopRefill E c s) \<noteq> None"
  "bx_journal (stopRefill E c s) = bx_journal s" "bx_late (stopRefill E c s) = bx_late s" "bx_standing (stopRefill E c s) = bx_standing s"
  by (simp_all add: stopRefill_def)

lemma journal_append_simps [simp]:
  "bx_runs (journal_append r result s) = bx_runs s" "bx_refill (journal_append r result s) = bx_refill s"
  "bx_standing (journal_append r result s) = bx_standing s"
  by (cases "(r, result, s)" rule: journal_append.cases; simp)+

lemma journal_append_bodies:
  "bodies (bx_journal (journal_append r result s)) a = bodies (bx_journal s) a \<or>
   bodies (bx_journal (journal_append r result s)) a = bodies (bx_journal s) a \<union> bodies [r] a"
  "bodies (bx_late (journal_append r result s)) a = bodies (bx_late s) a \<or>
   bodies (bx_late (journal_append r result s)) a = bodies [r] a \<union> bodies (bx_late s) a"
  by (cases "(r, result, s)" rule: journal_append.cases; simp)+

lemma standing_refs_simps [simp]:
  "standing_refs (put_run s i ru) a = standing_refs s a" "standing_refs (stop_with f s) a = standing_refs s a"
  "standing_refs (stopRefill E c s) a = standing_refs s a" "standing_refs (journal_append r result s) a = standing_refs s a"
  "standing_refs (s\<lparr>bx_journal := js\<rparr>) a = standing_refs s a" "standing_refs (s\<lparr>bx_late := js\<rparr>) a = standing_refs s a"
  "standing_refs (s\<lparr>bx_runs := rs\<rparr>) a = standing_refs s a"
  by (simp_all add: standing_refs_def)

lemma refs_of_set: "set (refs_of s a) = standing_refs s a"
  by (force simp: refs_of_def standing_refs_def)

section \<open>One event at one cell\<close>

text \<open>States that differ from \<open>s\<close> only in what a handler of cell \<open>i\<close> may change.\<close>

definition nearby :: "batch_env \<Rightarrow> batch_run \<Rightarrow> nat \<Rightarrow> batch_run \<Rightarrow> bool" where
  "nearby E s i t \<longleftrightarrow> i < length (bx_runs s) \<and>
     (\<forall>ru. (bx_runs t)[i := ru] = (bx_runs s)[i := ru]) \<and>
     (\<forall>a. a \<noteq> ru_attempt (bx_runs s ! i) \<longrightarrow> bodies (bx_journal t) a = bodies (bx_journal s) a \<and>
        bodies (bx_late t) a = bodies (bx_late s) a \<and> standing_refs t a = standing_refs s a) \<and>
     set (bx_journal t) \<union> set (bx_late t) \<subseteq> set (bx_journal s) \<union> set (bx_late s) \<union> range (own_record E (bx_runs s ! i)) \<and>
     (bx_refill t = None \<longrightarrow> bx_refill s = None)"

text \<open>The identity of a cell's run.\<close>

definition same_run :: "cell_run \<Rightarrow> cell_run \<Rightarrow> bool" where
  "same_run ru ru' \<longleftrightarrow> ru_attempt ru' = ru_attempt ru \<and> ru_cell ru' = ru_cell ru"

lemma own_record_same: "same_run ru ru' \<Longrightarrow> own_record E ru' = own_record E ru"
  by (rule ext) (simp add: own_record_def same_run_def)

lemma nearby_refl: "i < length (bx_runs s) \<Longrightarrow> nearby E s i s"
  by (simp add: nearby_def)

lemma nearby_put: "nearby E s i t \<Longrightarrow> nearby E s i (put_run t i ru)"
  by (simp add: nearby_def)

lemma nearby_stop: "nearby E s i t \<Longrightarrow> nearby E s i (stopRefill E c t)"
  by (simp add: nearby_def)

lemma nearby_stop_with: "nearby E s i t \<Longrightarrow> nearby E s i (stop_with f t)"
  by (simp add: nearby_def)

lemma nearby_append:
  assumes "nearby E s i t" "same_run (bx_runs s ! i) ru"
  shows "nearby E s i (journal_append (own_record E ru b) result t)"
  using assms own_record_same[OF assms(2), of E]
  by (cases "(own_record E ru b, result, t)" rule: journal_append.cases) (auto simp: nearby_def same_run_def standing_refs_def)

lemmas nearby_intros = nearby_refl nearby_put nearby_stop nearby_stop_with nearby_append

lemma run_ok_put [simp]: "run_ok (put_run s i x) ru = run_ok s ru"
  by (simp add: run_ok_def)

lemma live_put [simp]: "live (put_run s i x) ru = live s ru"
  by (simp add: live_def)

lemma live_stop [simp]: "live (stopRefill E c s) ru = live s ru" "live (journal_append r result s) ru = live s ru"
  by (simp_all add: live_def)

lemma touched_put:
  assumes "nearby E s i t" "same_run (bx_runs s ! i) ru" "run_settled (bx_runs s ! i) \<longrightarrow> run_settled ru"
    and "live t ru \<Longrightarrow> live s (bx_runs s ! i) \<or> bx_refill t = None" "run_ok t ru"
  shows "touched E s i (put_run t i ru)"
  unfolding touched_def
proof (intro conjI exI[of _ ru])
  show "set (bx_journal (put_run t i ru)) \<union> set (bx_late (put_run t i ru)) \<subseteq>
      set (bx_journal s) \<union> set (bx_late s) \<union> range (own_record E ru)"
    using assms(1) own_record_same[OF assms(2), of E] by (simp add: nearby_def)
qed (use assms in \<open>auto simp: nearby_def same_run_def\<close>)

text \<open>The tail of a cell, from a state whose journal already has its release if there is one.\<close>

lemma conclude_touched:
  assumes near: "nearby E s i t" "same_run (bx_runs s ! i) ru" "\<not> run_settled (bx_runs s ! i)"
    and inv: "create_inv ru (bodies (bx_journal t) (ru_attempt ru)) (bodies (bx_late t) (ru_attempt ru)) (standing_refs t (ru_attempt ru))"
    and released: "\<And>oc. Released oc \<in> bodies (bx_journal t) (ru_attempt ru) \<Longrightarrow>
      releasable ru (bodies (bx_journal t) (ru_attempt ru)) (standing_refs t (ru_attempt ru)) oc"
    and clean: "ru_cleanup ru \<noteq> UnresolvedCleanup \<Longrightarrow> quiet ru (standing_refs t (ru_attempt ru))"
    and finished: "ru_failure ru = None \<Longrightarrow> ru_cleanup ru = ConfirmedCleanup \<Longrightarrow>
      \<exists>ref. Released (Absent ref None) \<in> bodies (bx_journal t) (ru_attempt ru)"
    and live: "live t ru \<Longrightarrow> live s (bx_runs s ! i)"
  shows "touched E s i (conclude S E t i ru)"
proof -
  let ?t = "if ru_cleanup ru = UnresolvedCleanup \<or> ru_journalFailed ru then stopRefill E (ru_cell ru) t else t"
  let ?ru = "ru\<lparr>ru_phase := Uploading (attempt_evidence S E ru)\<rparr>"
  have "touched E s i (put_run ?t i ?ru)"
  proof (rule touched_put)
    show "nearby E s i ?t" using near(1) by (simp add: nearby_stop)
    show "same_run (bx_runs s ! i) ?ru" using near(2) by (simp add: same_run_def)
    show "run_settled (bx_runs s ! i) \<longrightarrow> run_settled ?ru" using near(3) by simp
    show "live s (bx_runs s ! i) \<or> bx_refill ?t = None" if "live ?t ?ru"
      using that live by (auto simp: live_def quiet_def split: if_splits)
    have evidence: "at_id (attempt_evidence S E ru) = ru_attempt ru" "at_cellId (attempt_evidence S E ru) = c_id (ru_cell ru)"
      "at_cleanup (attempt_evidence S E ru) = ru_cleanup ru"
      "at_outcome (attempt_evidence S E ru) = CompletedAttempt \<longleftrightarrow> ru_failure ru = None \<and> ru_cleanup ru = ConfirmedCleanup"
      by (simp_all add: attempt_evidence_def Let_def)
    show "run_ok ?t ?ru"
      using inv released clean finished by (auto simp: run_ok_def create_inv_def releasable_def quiet_def honest_def evidence)
  qed
  then show ?thesis by (simp add: conclude_def)
qed

text \<open>The locals that the invariant of the create does not read.\<close>

lemma quiet_frame [simp]:
  "quiet (ru\<lparr>ru_phase := p\<rparr>) R \<longleftrightarrow> quiet ru R"
  "quiet (ru\<lparr>ru_cleanup := c\<rparr>) R \<longleftrightarrow> quiet ru R"
  "quiet (ru\<lparr>ru_failure := f\<rparr>) R \<longleftrightarrow> quiet ru R"
  "quiet (ru\<lparr>ru_journalFailed := j\<rparr>) R \<longleftrightarrow> quiet ru R"
  "quiet (ru\<lparr>ru_execution := x\<rparr>) R \<longleftrightarrow> quiet ru R"
  "quiet (ru\<lparr>ru_runDigest := d\<rparr>) R \<longleftrightarrow> quiet ru R"
  "quiet (ru\<lparr>ru_rawDigest := w\<rparr>) R \<longleftrightarrow> quiet ru R"
  "quiet (ru\<lparr>ru_retained := k\<rparr>) R \<longleftrightarrow> quiet ru R"
  by (simp_all add: quiet_def)

lemma create_inv_frame [simp]:
  "create_inv (ru\<lparr>ru_phase := p\<rparr>) B L R \<longleftrightarrow> create_inv ru B L R"
  "create_inv (ru\<lparr>ru_cleanup := c\<rparr>) B L R \<longleftrightarrow> create_inv ru B L R"
  "create_inv (ru\<lparr>ru_failure := f\<rparr>) B L R \<longleftrightarrow> create_inv ru B L R"
  "create_inv (ru\<lparr>ru_journalFailed := j\<rparr>) B L R \<longleftrightarrow> create_inv ru B L R"
  "create_inv (ru\<lparr>ru_execution := x\<rparr>) B L R \<longleftrightarrow> create_inv ru B L R"
  "create_inv (ru\<lparr>ru_runDigest := d\<rparr>) B L R \<longleftrightarrow> create_inv ru B L R"
  "create_inv (ru\<lparr>ru_rawDigest := w\<rparr>) B L R \<longleftrightarrow> create_inv ru B L R"
  "create_inv (ru\<lparr>ru_retained := k\<rparr>) B L R \<longleftrightarrow> create_inv ru B L R"
  by (simp_all add: create_inv_def)

lemma releasable_frame [simp]:
  "releasable (ru\<lparr>ru_phase := p\<rparr>) B R oc \<longleftrightarrow> releasable ru B R oc"
  "releasable (ru\<lparr>ru_cleanup := c\<rparr>) B R oc \<longleftrightarrow> releasable ru B R oc"
  "releasable (ru\<lparr>ru_failure := f\<rparr>) B R oc \<longleftrightarrow> releasable ru B R oc"
  "releasable (ru\<lparr>ru_journalFailed := j\<rparr>) B R oc \<longleftrightarrow> releasable ru B R oc"
  "releasable (ru\<lparr>ru_execution := x\<rparr>) B R oc \<longleftrightarrow> releasable ru B R oc"
  "releasable (ru\<lparr>ru_runDigest := d\<rparr>) B R oc \<longleftrightarrow> releasable ru B R oc"
  "releasable (ru\<lparr>ru_rawDigest := w\<rparr>) B R oc \<longleftrightarrow> releasable ru B R oc"
  "releasable (ru\<lparr>ru_retained := k\<rparr>) B R oc \<longleftrightarrow> releasable ru B R oc"
  by (simp_all add: releasable_def)

lemma live_frame [simp]:
  "live s (ru\<lparr>ru_phase := p\<rparr>) \<longleftrightarrow> live s ru"
  "live s (ru\<lparr>ru_cleanup := c\<rparr>) \<longleftrightarrow> live s ru"
  "live s (ru\<lparr>ru_failure := f\<rparr>) \<longleftrightarrow> live s ru"
  "live s (ru\<lparr>ru_journalFailed := j\<rparr>) \<longleftrightarrow> live s ru"
  "live s (ru\<lparr>ru_execution := x\<rparr>) \<longleftrightarrow> live s ru"
  "live s (ru\<lparr>ru_runDigest := d\<rparr>) \<longleftrightarrow> live s ru"
  "live s (ru\<lparr>ru_rawDigest := w\<rparr>) \<longleftrightarrow> live s ru"
  "live s (ru\<lparr>ru_retained := k\<rparr>) \<longleftrightarrow> live s ru"
  by (simp_all add: live_def)

lemma same_run_frame [simp]:
  "same_run r (ru\<lparr>ru_phase := p\<rparr>) \<longleftrightarrow> same_run r ru"
  "same_run r (ru\<lparr>ru_cleanup := c\<rparr>) \<longleftrightarrow> same_run r ru"
  "same_run r (ru\<lparr>ru_failure := f\<rparr>) \<longleftrightarrow> same_run r ru"
  "same_run r (ru\<lparr>ru_journalFailed := j\<rparr>) \<longleftrightarrow> same_run r ru"
  "same_run r (ru\<lparr>ru_execution := x\<rparr>) \<longleftrightarrow> same_run r ru"
  "same_run r (ru\<lparr>ru_runDigest := d\<rparr>) \<longleftrightarrow> same_run r ru"
  "same_run r (ru\<lparr>ru_rawDigest := w\<rparr>) \<longleftrightarrow> same_run r ru"
  "same_run r (ru\<lparr>ru_retained := k\<rparr>) \<longleftrightarrow> same_run r ru"
  by (simp_all add: same_run_def)

definition confirmed_receipt :: "cleanup_receipt option \<Rightarrow> bool" where
  "confirmed_receipt receipt \<longleftrightarrow> (case receipt of None \<Rightarrow> False | Some r \<Rightarrow> cl_completed r \<and> cl_confirmedAbsent r)"

lemma create_inv_idle: "create_inv ru B L refs \<Longrightarrow> \<not> ru_createStarted ru \<or> ru_createRejectedCleanly ru \<Longrightarrow>
    quiet ru refs \<and> ru_allocated ru = None"
  by (auto simp: create_inv_def quiet_def)

lemma create_inv_returned: "create_inv ru B L {} \<Longrightarrow> ru_create ru = Returned ref \<Longrightarrow>
    ru_allocated ru = Some ref \<and> ru_allocationRecorded ru \<and> releasable ru B {} (Absent ref None)"
  by (auto simp: create_inv_def releasable_def quiet_def)

lemma close_touched:
  assumes near: "nearby E s i t" "same_run (bx_runs s ! i) ru0" "\<not> run_settled (bx_runs s ! i)"
    and inv: "create_inv ru0 (bodies (bx_journal t) (ru_attempt ru0)) (bodies (bx_late t) (ru_attempt ru0)) (standing_refs t (ru_attempt ru0))"
    and unreleased: "\<And>oc. Released oc \<notin> bodies (bx_journal t) (ru_attempt ru0)"
    and confirmed: "confirmed_receipt receipt \<Longrightarrow> returned (ru_create ru0) \<and> standing_refs t (ru_attempt ru0) = {}"
    and live: "live t ru0 \<Longrightarrow> live s (bx_runs s ! i)"
  shows "touched E s i (close_run S E t i receipt ru0)"
proof -
  let ?B = "bodies (bx_journal t) (ru_attempt ru0)"
  let ?L = "bodies (bx_late t) (ru_attempt ru0)"
  let ?R = "standing_refs t (ru_attempt ru0)"
  let ?ru = "ru0\<lparr>ru_cleanup := cleanup_of ru0 receipt\<rparr>"
  have same: "same_run (bx_runs s ! i) ?ru" "same_run (bx_runs s ! i) (?ru\<lparr>ru_phase := p\<rparr>)" for p
    using near(2) by simp_all
  have alive: "live t ?ru \<Longrightarrow> live s (bx_runs s ! i)" "live t (?ru\<lparr>ru_phase := p\<rparr>) \<Longrightarrow> live s (bx_runs s ! i)" for p
    using live by simp_all
  have concluded: "touched E s i (conclude S E t i ?ru)" if "\<not> confirmed_receipt receipt"
  proof (rule conclude_touched)
    show "create_inv ?ru (bodies (bx_journal t) (ru_attempt ?ru)) (bodies (bx_late t) (ru_attempt ?ru)) (standing_refs t (ru_attempt ?ru))"
      using inv by simp
    show "quiet ?ru (standing_refs t (ru_attempt ?ru))" if "ru_cleanup ?ru \<noteq> UnresolvedCleanup"
      using that create_inv_idle[OF inv] \<open>\<not> confirmed_receipt receipt\<close>
      by (simp add: cleanup_of_def confirmed_receipt_def[symmetric] split: if_splits)
    show "\<exists>ref. Released (Absent ref None) \<in> bodies (bx_journal t) (ru_attempt ?ru)" if "ru_cleanup ?ru = ConfirmedCleanup"
      using that \<open>\<not> confirmed_receipt receipt\<close> by (simp add: cleanup_of_def confirmed_receipt_def[symmetric] split: if_splits)
    show "releasable ?ru (bodies (bx_journal t) (ru_attempt ?ru)) (standing_refs t (ru_attempt ?ru)) oc"
      if "Released oc \<in> bodies (bx_journal t) (ru_attempt ?ru)" for oc using unreleased that by simp
  qed (use near(1,3) same alive in auto)
  consider (gone) ref where "confirmed_receipt receipt" "ru_create ru0 = Returned ref" "?R = {}"
    | (unresolved) "\<not> confirmed_receipt receipt" "ru_createStarted ru0 \<and> \<not> ru_createRejectedCleanly ru0"
    | (idle) "\<not> confirmed_receipt receipt" "\<not> ru_createStarted ru0 \<or> ru_createRejectedCleanly ru0"
    using confirmed by (cases "ru_create ru0") auto
  then show ?thesis
  proof cases
    case gone
    note facts = create_inv_returned[OF inv[unfolded gone(3)] gone(2)]
    have eq: "close_run S E t i receipt ru0 = put_run t i (?ru\<lparr>ru_phase := AppendingRelease (Absent ref None)\<rparr>)"
      using facts gone(1) by (simp add: close_run_def Let_def cleanup_of_def confirmed_receipt_def[symmetric])
    show ?thesis unfolding eq
    proof (rule touched_put)
      show "run_ok t (?ru\<lparr>ru_phase := AppendingRelease (Absent ref None)\<rparr>)"
        using inv facts gone unreleased
        by (simp add: run_ok_def cleanup_of_def confirmed_receipt_def[symmetric])
    qed (use near same alive in auto)
  next
    case unresolved
    then have "cleanup_of ru0 receipt = UnresolvedCleanup" by (simp add: cleanup_of_def confirmed_receipt_def[symmetric])
    then have "close_run S E t i receipt ru0 = conclude S E t i ?ru" using unresolved by (simp add: close_run_def Let_def)
    then show ?thesis using concluded[OF unresolved(1)] by simp
  next
    case idle
    have cleanup: "cleanup_of ru0 receipt = NotAllocated" using idle by (auto simp: cleanup_of_def confirmed_receipt_def[symmetric])
    have "close_run S E t i receipt ru0 = conclude S E t i ?ru \<or>
        close_run S E t i receipt ru0 = put_run t i (?ru\<lparr>ru_phase := ReadingRecords\<rparr>)"
      unfolding close_run_def Let_def cleanup by simp
    then consider "close_run S E t i receipt ru0 = conclude S E t i ?ru"
      | "close_run S E t i receipt ru0 = put_run t i (?ru\<lparr>ru_phase := ReadingRecords\<rparr>)" by blast
    then show ?thesis
    proof cases
      case 1
      then show ?thesis using concluded[OF idle(1)] by simp
    next
      case 2
      show ?thesis unfolding 2
      proof (rule touched_put)
        show "run_ok t (?ru\<lparr>ru_phase := ReadingRecords\<rparr>)"
          using inv create_inv_idle[OF inv idle(2)] unreleased by (simp add: run_ok_def cleanup)
      qed (use near same alive in auto)
    qed
  qed
qed

text \<open>Each handler of a cell touches that cell only and keeps its invariant.\<close>

lemma same_run_refl [simp]: "same_run ru ru"
  by (simp add: same_run_def)

lemma same_run_create [simp]:
  "same_run r (ru\<lparr>ru_create := c\<rparr>) \<longleftrightarrow> same_run r ru" "same_run r (ru\<lparr>ru_createStarted := b\<rparr>) \<longleftrightarrow> same_run r ru"
  "same_run r (ru\<lparr>ru_createRejectedCleanly := b\<rparr>) \<longleftrightarrow> same_run r ru" "same_run r (ru\<lparr>ru_allocated := a\<rparr>) \<longleftrightarrow> same_run r ru"
  "same_run r (ru\<lparr>ru_allocationRecorded := b\<rparr>) \<longleftrightarrow> same_run r ru"
  by (simp_all add: same_run_def)

lemma settled_frame [simp]:
  "run_settled (ru\<lparr>ru_create := c\<rparr>) \<longleftrightarrow> run_settled ru"
  "run_settled (ru\<lparr>ru_createStarted := b\<rparr>) \<longleftrightarrow> run_settled ru"
  "run_settled (ru\<lparr>ru_createRejectedCleanly := b\<rparr>) \<longleftrightarrow> run_settled ru"
  "run_settled (ru\<lparr>ru_allocated := a\<rparr>) \<longleftrightarrow> run_settled ru"
  "run_settled (ru\<lparr>ru_allocationRecorded := b\<rparr>) \<longleftrightarrow> run_settled ru"
  "run_settled (ru\<lparr>ru_failure := f\<rparr>) \<longleftrightarrow> run_settled ru"
  "run_settled (ru\<lparr>ru_journalFailed := j\<rparr>) \<longleftrightarrow> run_settled ru"
  "run_settled (ru\<lparr>ru_retained := k\<rparr>) \<longleftrightarrow> run_settled ru"
  by (simp_all add: run_settled_def)

lemma settled_phase: "run_settled ru \<longleftrightarrow> (\<exists>r. ru_phase ru = Settled r)"
  by (cases "ru_phase ru") (auto simp: run_settled_def)

lemma intent_touched:
  assumes i: "i < length (bx_runs s)" and ok: "run_ok s (bx_runs s ! i)" and phase: "ru_phase (bx_runs s ! i) = AppendingIntent"
  shows "touched E s i (intent_appended S E s i result (bx_runs s ! i))"
proof -
  let ?ru = "bx_runs s ! i" and ?s1 = "journal_append (own_record E (bx_runs s ! i) Intent) result s"
  have views: "bodies (bx_journal s) (ru_attempt ?ru) = {}" "bodies (bx_late s) (ru_attempt ?ru) = {}" "ru_create ?ru = Uncalled"
    and inv: "create_inv ?ru {} {} (standing_refs s (ru_attempt ?ru))"
    using ok phase by (auto simp: run_ok_def)
  then have idle: "\<not> ru_createStarted ?ru" "standing_refs s (ru_attempt ?ru) = {}" by (auto simp: create_inv_def)
  have unsettled: "\<not> run_settled ?ru" by (simp add: settled_phase phase)
  have dead: "\<not> live x ?ru" if "standing_refs x (ru_attempt ?ru) = {}" for x using that views by (simp add: live_def quiet_def)
  show ?thesis
  proof (cases result)
    case Stored
    have "touched E s i (put_run ?s1 i (?ru\<lparr>ru_phase := Replicating\<rparr>))"
      by (rule touched_put) (use i views inv idle unsettled dead in \<open>auto simp: Stored run_ok_def create_inv_def standing_refs_def
          intro!: nearby_append[of _ _ _ _ _ _ Stored, simplified] nearby_refl\<close>)
    then show ?thesis by (simp add: intent_appended_def Let_def Stored)
  next
    case (Broken e fate)
    let ?t = "append_broke E ?s1 i ?ru"
    have "touched E s i (close_run S E ?t i None (?ru\<lparr>ru_journalFailed := True, ru_failure := Some (AppendFailure e)\<rparr>))"
    proof (rule close_touched)
      show "nearby E s i ?t" unfolding append_broke_def using i by (intro nearby_intros) simp_all
      show "create_inv (?ru\<lparr>ru_journalFailed := True, ru_failure := Some (AppendFailure e)\<rparr>)
          (bodies (bx_journal ?t) (ru_attempt (?ru\<lparr>ru_journalFailed := True, ru_failure := Some (AppendFailure e)\<rparr>)))
          (bodies (bx_late ?t) (ru_attempt (?ru\<lparr>ru_journalFailed := True, ru_failure := Some (AppendFailure e)\<rparr>)))
          (standing_refs ?t (ru_attempt (?ru\<lparr>ru_journalFailed := True, ru_failure := Some (AppendFailure e)\<rparr>)))"
        using inv views idle by (cases fate) (auto simp: append_broke_def Broken create_inv_def)
      show "Released oc \<notin> bodies (bx_journal ?t) (ru_attempt (?ru\<lparr>ru_journalFailed := True, ru_failure := Some (AppendFailure e)\<rparr>))" for oc
        using views by (cases fate) (simp_all add: append_broke_def Broken)
    qed (use unsettled dead idle in \<open>simp_all add: confirmed_receipt_def append_broke_def\<close>)
    then show ?thesis by (simp add: intent_appended_def Let_def Broken)
  qed
qed

lemma create_called_touched:
  assumes i: "i < length (bx_runs s)" and ok: "run_ok s (bx_runs s ! i)"
    and phase: "ru_phase (bx_runs s ! i) = Replicating" "ru_create (bx_runs s ! i) = Uncalled"
  shows "touched E s i (create_called s i aborted now (bx_runs s ! i))"
proof -
  let ?ru = "bx_runs s ! i"
  have unsettled: "\<not> run_settled ?ru" by (simp add: settled_phase phase)
  show ?thesis
  proof (cases "bx_refill s \<noteq> None \<or> aborted \<or> ru_startupDeadline ?ru \<le> now")
    case True
    have "touched E s i (put_run s i (?ru\<lparr>ru_create := Over\<rparr>))"
      by (rule touched_put) (use i ok phase unsettled in \<open>auto simp: nearby_refl live_def quiet_def run_ok_def create_inv_def\<close>)
    then show ?thesis unfolding create_called_def if_P[OF True] .
  next
    case False
    have "touched E s i (put_run s i (?ru\<lparr>ru_createStarted := True, ru_create := Pending\<rparr>))"
      by (rule touched_put) (use i ok phase unsettled False in \<open>auto simp: nearby_refl run_ok_def create_inv_def\<close>)
    then show ?thesis unfolding create_called_def if_not_P[OF False] .
  qed
qed

text \<open>
  The events of a create leave the phase alone: what the phase promises survives if a quiet cell stays
  quiet and records are only added, none of them a release.
\<close>

lemma phase_inv_change:
  assumes "phase_inv b ru B L R (ru_phase ru)"
    and "ru_phase ru' = ru_phase ru" "ru_cleanup ru' = ru_cleanup ru" "same_run ru ru'"
    and "ru_phase ru = AppendingIntent \<Longrightarrow> B' = {} \<and> L' = {} \<and> ru_create ru' = Uncalled"
    and "quiet ru R \<Longrightarrow> quiet ru' R' \<and> (ru_allocated ru = None \<longrightarrow> ru_allocated ru' = None)"
    and "B \<subseteq> B'" "\<And>oc. Released oc \<in> B' \<Longrightarrow> Released oc \<in> B" "b' \<Longrightarrow> b"
  shows "phase_inv b' ru' B' L' R' (ru_phase ru')"
proof -
  have rel: "releasable ru B R oc \<Longrightarrow> releasable ru' B' R' oc" for oc
    using assms(6,7) by (auto simp: releasable_def)
  have hon: "honest ru B R e \<Longrightarrow> honest ru' B' R' e" for e
    using assms(4,6,7) by (auto simp: honest_def same_run_def)
  show ?thesis
  proof (cases "ru_phase ru")
    case AppendingIntent
    then show ?thesis using assms by simp
  next
    case Replicating
    then show ?thesis using assms by auto
  next
    case ReadingRecords
    then show ?thesis using assms by auto
  next
    case (AppendingRelease oc)
    then show ?thesis using assms rel by auto
  next
    case (Uploading e)
    then show ?thesis using assms rel hon by auto
  next
    case (Settled r)
    then show ?thesis using assms rel hon by auto
  qed
qed

text \<open>A cell between the call of its create and the end of it has appended its intent.\<close>

lemma created_phase:
  assumes "run_ok s ru" "ru_create ru \<noteq> Uncalled"
  shows "ru_phase ru \<noteq> AppendingIntent"
  using assms by (cases "ru_phase ru") (auto simp: run_ok_def)

lemma create_event_touched:
  assumes i: "i < length (bx_runs s)" and ok: "run_ok s (bx_runs s ! i)" and called: "ru_create (bx_runs s ! i) \<noteq> Uncalled"
    and near: "nearby E s i t" and same: "same_run (bx_runs s ! i) ru"
    and phase: "ru_phase ru = ru_phase (bx_runs s ! i)" "ru_cleanup ru = ru_cleanup (bx_runs s ! i)"
    and quiet: "quiet (bx_runs s ! i) (standing_refs s (ru_attempt ru)) \<Longrightarrow>
      quiet ru (standing_refs t (ru_attempt ru)) \<and> (ru_allocated (bx_runs s ! i) = None \<longrightarrow> ru_allocated ru = None)"
    and more: "bodies (bx_journal s) (ru_attempt ru) \<subseteq> bodies (bx_journal t) (ru_attempt ru)"
      "\<And>oc. Released oc \<in> bodies (bx_journal t) (ru_attempt ru) \<Longrightarrow> Released oc \<in> bodies (bx_journal s) (ru_attempt ru)"
    and inv: "create_inv ru (bodies (bx_journal t) (ru_attempt ru)) (bodies (bx_late t) (ru_attempt ru)) (standing_refs t (ru_attempt ru))"
  shows "touched E s i (put_run t i ru)"
proof (rule touched_put[OF near same])
  have attempt: "ru_attempt (bx_runs s ! i) = ru_attempt ru" using same by (simp add: same_run_def)
  show "run_settled (bx_runs s ! i) \<longrightarrow> run_settled ru" using phase by (simp add: settled_phase)
  show "live s (bx_runs s ! i) \<or> bx_refill t = None" if "live t ru" using that quiet attempt by (auto simp: live_def)
  have "phase_inv (bx_refill t = None) ru (bodies (bx_journal t) (ru_attempt ru)) (bodies (bx_late t) (ru_attempt ru))
      (standing_refs t (ru_attempt ru)) (ru_phase ru)"
  proof (rule phase_inv_change[OF _ phase same _ quiet more])
    show "phase_inv (bx_refill s = None) (bx_runs s ! i) (bodies (bx_journal s) (ru_attempt ru)) (bodies (bx_late s) (ru_attempt ru))
      (standing_refs s (ru_attempt ru)) (ru_phase (bx_runs s ! i))" using ok attempt by (simp add: run_ok_def)
    show "bx_refill s = None" if "bx_refill t = None" using near that by (simp add: nearby_def)
  qed (use created_phase[OF ok called] in auto)
  then show "run_ok t ru" using inv by (simp add: run_ok_def)
qed

lemma run_ok_create: "run_ok s ru \<Longrightarrow>
    create_inv ru (bodies (bx_journal s) (ru_attempt ru)) (bodies (bx_late s) (ru_attempt ru)) (standing_refs s (ru_attempt ru))"
  by (simp add: run_ok_def)

lemma create_returned_touched:
  assumes i: "i < length (bx_runs s)" and ok: "run_ok s (bx_runs s ! i)"
    and pending: "ru_create (bx_runs s ! i) = Pending" "list_all (\<lambda>r. r = ref) (refs_of s (ru_attempt (bx_runs s ! i)))"
  shows "touched E s i (create_returned E s i ref written (bx_runs s ! i))"
proof -
  let ?ru = "bx_runs s ! i"
  have only: "standing_refs s (ru_attempt ?ru) \<subseteq> {ref}" using pending(2) by (auto simp: list_all_iff refs_of_set)
  have inv: "create_inv (?ru\<lparr>ru_allocated := Some ref, ru_create := c\<rparr>) (bodies (bx_journal s) (ru_attempt ?ru)) (bodies (bx_late s) (ru_attempt ?ru))
      (standing_refs s (ru_attempt ?ru))" if "c = Recording ref \<or> c = Discarding ref" for c
    using run_ok_create[OF ok] pending(1) only that by (auto simp: create_inv_def)
  have "touched E s i (put_run s i (?ru\<lparr>ru_allocated := Some ref, ru_retained := Some ref, ru_create := Recording ref\<rparr>))"
    by (rule create_event_touched[OF i ok]) (use i pending only run_ok_create[OF ok] in \<open>auto simp: nearby_refl quiet_def create_inv_def\<close>)
  moreover have "touched E s i (put_run (stopRefill E (ru_cell ?ru) s) i (?ru\<lparr>ru_allocated := Some ref, ru_create := Discarding ref\<rparr>))"
    by (rule create_event_touched[OF i ok]) (use i pending inv in \<open>auto simp: nearby_stop nearby_refl quiet_def\<close>)
  ultimately show ?thesis by (simp add: create_returned_def)
qed

lemma allocation_touched:
  assumes i: "i < length (bx_runs s)" and ok: "run_ok s (bx_runs s ! i)" and recording: "ru_create (bx_runs s ! i) = Recording ref"
  shows "touched E s i (allocation_appended E s i result ref (bx_runs s ! i))"
proof -
  let ?ru = "bx_runs s ! i" and ?s1 = "journal_append (own_record E (bx_runs s ! i) (Allocated ref)) result s"
  note inv = run_ok_create[OF ok]
  show ?thesis
  proof (cases result)
    case Stored
    have "touched E s i (put_run ?s1 i (?ru\<lparr>ru_allocationRecorded := True, ru_create := Returned ref\<rparr>))"
      by (rule create_event_touched[OF i ok])
        (use i recording inv in \<open>auto simp: quiet_def create_inv_def Stored intro!: nearby_append[where result = Stored, simplified] nearby_refl\<close>)
    then show ?thesis by (simp add: allocation_appended_def Let_def Stored)
  next
    case (Broken e fate)
    have "touched E s i (put_run (stopRefill E (ru_cell ?ru) ?s1) i (?ru\<lparr>ru_journalFailed := True, ru_create := Discarding ref\<rparr>))"
    proof (rule create_event_touched[OF i ok])
      show "nearby E s i (stopRefill E (ru_cell ?ru) ?s1)" using i by (intro nearby_intros) simp_all
    qed (use recording inv in \<open>(cases fate; auto simp: quiet_def create_inv_def Broken)+\<close>)
    then show ?thesis by (simp add: allocation_appended_def Let_def Broken)
  qed
qed

lemma discarded_touched:
  assumes i: "i < length (bx_runs s)" and ok: "run_ok s (bx_runs s ! i)" and discarding: "ru_create (bx_runs s ! i) = Discarding ref"
  shows "touched E s i (put_run s i ((bx_runs s ! i)\<lparr>ru_create := Over\<rparr>))"
  by (rule create_event_touched[OF i ok])
    (use i discarding run_ok_create[OF ok] in \<open>auto simp: nearby_refl quiet_def create_inv_def\<close>)

lemma create_rejected_touched:
  assumes i: "i < length (bx_runs s)" and ok: "run_ok s (bx_runs s ! i)" and pending: "ru_create (bx_runs s ! i) = Pending"
    and contract: "isFailedCreateCleanupError err \<or> refs_of s (ru_attempt (bx_runs s ! i)) = []"
  shows "touched E s i (driver_rejected E s i err (bx_runs s ! i))"
proof -
  let ?ru = "bx_runs s ! i" and ?unclean = "isFailedCreateCleanupError err"
  let ?ru' = "?ru\<lparr>ru_createRejectedCleanly := \<not> ?unclean,
    ru_retained := (case retained_identity (c_provider (ru_cell ?ru)) err of Some ref \<Rightarrow> Some ref | None \<Rightarrow> ru_retained ?ru),
    ru_create := (if ?unclean then Ambiguous else Over)\<rparr>"
  let ?t = "(if isConcurrentSandboxAdmissionError err
     then stop_with (CapacityRefused err (b_quotaDomain (be_batch E)) (be_declared E) (b_maxConcurrency (be_batch E)))
       (if ?unclean then stopRefill E (ru_cell ?ru) s else s)
     else (if ?unclean then stopRefill E (ru_cell ?ru) s else s))"
  have gone: "standing_refs s (ru_attempt ?ru) = {}" if "\<not> ?unclean" using contract that refs_of_set[of s "ru_attempt ?ru"] by simp
  have views: "bodies (bx_journal ?t) a = bodies (bx_journal s) a" "bodies (bx_late ?t) a = bodies (bx_late s) a"
    "standing_refs ?t a = standing_refs s a" for a by simp_all
  have "touched E s i (put_run ?t i ?ru')"
  proof (rule create_event_touched[OF i ok])
    show "nearby E s i ?t" using i by (simp add: nearby_intros)
    show "create_inv ?ru' (bodies (bx_journal ?t) (ru_attempt ?ru')) (bodies (bx_late ?t) (ru_attempt ?ru')) (standing_refs ?t (ru_attempt ?ru'))"
      unfolding views using run_ok_create[OF ok] pending gone by (auto simp: create_inv_def)
  qed (use pending in \<open>simp_all add: views quiet_def\<close>)
  then show ?thesis by (simp add: driver_rejected_def Let_def)
qed

lemma replicate_touched:
  assumes i: "i < length (bx_runs s)" and ok: "run_ok s (bx_runs s ! i)" and phase: "ru_phase (bx_runs s ! i) = Replicating"
    and contract: "confirms outcome \<longrightarrow> returned (ru_create (bx_runs s ! i)) \<and> refs_of s (ru_attempt (bx_runs s ! i)) = []"
  shows "touched E s i (replicate_ended S E s i outcome (bx_runs s ! i))"
proof -
  let ?ru = "bx_runs s ! i"
  have unsettled: "\<not> run_settled ?ru" by (simp add: settled_phase phase)
  have unreleased: "Released oc \<notin> bodies (bx_journal s) (ru_attempt ?ru)" for oc using ok phase by (simp add: run_ok_def)
  have close: "touched E s i (close_run S E s i receipt ru)"
    if "same_run ?ru ru" "ru_create ru = ru_create ?ru"
      "create_inv ru (bodies (bx_journal s) (ru_attempt ?ru)) (bodies (bx_late s) (ru_attempt ?ru)) (standing_refs s (ru_attempt ?ru))"
      "confirmed_receipt receipt \<Longrightarrow> confirms outcome" for receipt ru
  proof (rule close_touched[OF nearby_refl[OF i]])
    have attempt: "ru_attempt ru = ru_attempt ?ru" using that(1) by (simp add: same_run_def)
    show "returned (ru_create ru) \<and> standing_refs s (ru_attempt ru) = {}" if "confirmed_receipt receipt"
      using contract \<open>confirmed_receipt receipt \<Longrightarrow> confirms outcome\<close>[OF that] refs_of_set[of s "ru_attempt ?ru"] \<open>ru_create ru = ru_create ?ru\<close>
      by (simp add: attempt)
    show "live s ?ru" if "live s ru" using that \<open>ru_create ru = ru_create ?ru\<close> by (simp add: live_def quiet_def attempt)
  qed (use that unsettled unreleased in \<open>simp_all add: same_run_def\<close>)
  show ?thesis
  proof (cases "re_receipts outcome")
    case (Inl e)
    show ?thesis unfolding replicate_ended_def Let_def Inl sum.case
      by (rule close) (use run_ok_create[OF ok] in \<open>simp_all add: confirmed_receipt_def\<close>)
  next
    case (Inr p)
    obtain execution cleanup where p: "p = (execution, cleanup)" by fastforce
    show ?thesis unfolding replicate_ended_def Let_def Inr p sum.case prod.case
      by (rule close) (use run_ok_create[OF ok] Inr p in \<open>simp_all add: confirmed_receipt_def confirms_def split: option.splits\<close>)
  qed
qed

lemma records_read_touched:
  assumes i: "i < length (bx_runs s)" and ok: "run_ok s (bx_runs s ! i)" and phase: "ru_phase (bx_runs s ! i) = ReadingRecords"
  shows "touched E s i (records_read S E s i result (bx_runs s ! i))"
proof -
  let ?ru = "bx_runs s ! i"
  have facts: "\<And>oc. Released oc \<notin> bodies (bx_journal s) (ru_attempt ?ru)" "quiet ?ru (standing_refs s (ru_attempt ?ru))"
    "ru_allocated ?ru = None" "ru_cleanup ?ru = NotAllocated" using ok phase by (simp_all add: run_ok_def)
  have unsettled: "\<not> run_settled ?ru" by (simp add: settled_phase phase)
  have concluded: "touched E s i (conclude S E s i ru)"
    if "same_run ?ru ru" "ru_create ru = ru_create ?ru" "ru_cleanup ru = NotAllocated"
      "create_inv ru (bodies (bx_journal s) (ru_attempt ?ru)) (bodies (bx_late s) (ru_attempt ?ru)) (standing_refs s (ru_attempt ?ru))" for ru
    by (rule conclude_touched[OF nearby_refl[OF i]])
      (use that facts unsettled in \<open>simp_all add: same_run_def quiet_def live_def\<close>)
  show ?thesis
  proof (cases result)
    case (Inl e)
    show ?thesis unfolding records_read_def Inl sum.case
      by (rule concluded) (use run_ok_create[OF ok] facts in simp_all)
  next
    case (Inr u)
    show ?thesis
    proof (cases "list_ex (\<lambda>r. is_intent r \<and> ac_attempt r = ru_attempt ?ru) (bx_journal s)")
      case True
      then have "Intent \<in> bodies (bx_journal s) (ru_attempt ?ru)" by (force simp: list_ex_iff is_intent_def bodies_def)
      then have "touched E s i (put_run s i (?ru\<lparr>ru_phase := AppendingRelease NeverAllocated\<rparr>))"
        by (intro touched_put) (use i facts unsettled run_ok_create[OF ok] in \<open>auto simp: nearby_refl run_ok_def releasable_def\<close>)
      then show ?thesis by (simp add: records_read_def Inr True)
    next
      case False
      have "touched E s i (conclude S E s i ?ru)" by (rule concluded) (use run_ok_create[OF ok] facts in simp_all)
      then show ?thesis by (simp add: records_read_def Inr False)
    qed
  qed
qed

lemma release_touched:
  assumes i: "i < length (bx_runs s)" and ok: "run_ok s (bx_runs s ! i)" and phase: "ru_phase (bx_runs s ! i) = AppendingRelease oc"
    and bounded: "\<not> in_flight result"
  shows "touched E s i (release_appended S E s i result oc (bx_runs s ! i))"
proof -
  let ?ru = "bx_runs s ! i" and ?s1 = "journal_append (own_record E (bx_runs s ! i) (Released oc)) result s"
  let ?B = "bodies (bx_journal s) (ru_attempt ?ru)" and ?R = "standing_refs s (ru_attempt ?ru)"
  have facts: "\<And>oc. Released oc \<notin> ?B" "releasable ?ru ?B ?R oc"
    "ru_cleanup ?ru = (if oc = NeverAllocated then NotAllocated else ConfirmedCleanup)" using ok phase by (simp_all add: run_ok_def)
  have unsettled: "\<not> run_settled ?ru" by (simp add: settled_phase phase)
  have after: "releasable ?ru (insert (Released oc) ?B) ?R oc" "quiet ?ru ?R" using facts(2) by (auto simp: releasable_def)
  have inv: "create_inv ?ru ?B (bodies (bx_late s) (ru_attempt ?ru)) ?R"
    "create_inv ?ru (insert (Released oc) ?B) (bodies (bx_late s) (ru_attempt ?ru)) ?R"
    using run_ok_create[OF ok] by (auto simp: create_inv_def)
  have absent: "\<exists>ref. oc = Absent ref None" if "ru_cleanup ?ru = ConfirmedCleanup"
    using that facts(2,3) by (auto simp: releasable_def split: if_splits)
  have dead: "\<not> live s ?ru" using after by (simp add: live_def)
  show ?thesis
  proof (cases result)
    case Stored
    have "touched E s i (conclude S E ?s1 i ?ru)"
    proof (rule conclude_touched)
      show "nearby E s i ?s1" using i by (intro nearby_intros) simp_all
    qed (use inv after facts absent unsettled dead in \<open>auto simp: Stored live_def\<close>)
    then show ?thesis by (simp add: release_appended_def Let_def Stored)
  next
    case (Broken e fate)
    let ?t = "append_broke E ?s1 i ?ru"
    let ?ru' = "?ru\<lparr>ru_journalFailed := True, ru_failure := (if ru_failure ?ru = None then Some (AppendFailure e) else ru_failure ?ru)\<rparr>"
    have failed: "ru_failure ?ru' \<noteq> None" by simp
    have "touched E s i (conclude S E ?t i ?ru')"
    proof (rule conclude_touched)
      show "nearby E s i ?t" unfolding append_broke_def using i by (intro nearby_intros) simp_all
      show "create_inv ?ru' (bodies (bx_journal ?t) (ru_attempt ?ru')) (bodies (bx_late ?t) (ru_attempt ?ru')) (standing_refs ?t (ru_attempt ?ru'))"
        using inv bounded by (cases fate) (simp_all add: append_broke_def Broken)
      show "releasable ?ru' (bodies (bx_journal ?t) (ru_attempt ?ru')) (standing_refs ?t (ru_attempt ?ru')) oc'"
        if "Released oc' \<in> bodies (bx_journal ?t) (ru_attempt ?ru')" for oc'
        using that after facts bounded by (cases fate) (auto simp: append_broke_def Broken)
      show "\<exists>ref. Released (Absent ref None) \<in> bodies (bx_journal ?t) (ru_attempt ?ru')" if "ru_failure ?ru' = None"
        using that failed by contradiction
    qed (use after unsettled dead in \<open>simp_all add: append_broke_def\<close>)
    then show ?thesis by (simp add: release_appended_def Let_def Broken)
  qed
qed

section \<open>The invariant of a batch\<close>

definition batch_inv :: "batch_env \<Rightarrow> batch_run \<Rightarrow> bool" where
  "batch_inv E s \<longleftrightarrow>
     distinct (map ru_attempt (bx_runs s)) \<and>
     (\<forall>ru\<in>set (bx_runs s). run_ok s ru) \<and>
     (\<forall>a. standing_refs s a \<noteq> {} \<longrightarrow> a \<in> ru_attempt ` set (bx_runs s)) \<and>
     (\<forall>r\<in>set (bx_journal s) \<union> set (bx_late s). \<forall>ru\<in>set (bx_runs s). ac_attempt r = ru_attempt ru \<longrightarrow> r = own_record E ru (ac_body r)) \<and>
     map ru_cell (bx_runs s) = take (length (bx_runs s)) (be_cells E) \<and>
     length (bx_runs s) \<le> length (be_cells E) \<and>
     length (pending_runs s) \<le> b_maxConcurrency (be_batch E) \<and>
     length (filter (live s) (bx_runs s)) \<le> b_maxConcurrency (be_batch E)"

lemma length_filter_le: "(\<And>x. x \<in> set xs \<Longrightarrow> P x \<Longrightarrow> Q x) \<Longrightarrow> length (filter P xs) \<le> length (filter Q xs)"
  by (induction xs) (auto simp: le_SucI)

lemma length_filter_update:
  assumes "\<And>j. j < length xs \<Longrightarrow> P (xs[i := x] ! j) \<Longrightarrow> Q (xs ! j)"
  shows "length (filter P (xs[i := x])) \<le> length (filter Q xs)"
proof -
  have "{j. j < length xs \<and> P (xs[i := x] ! j)} \<subseteq> {j. j < length xs \<and> Q (xs ! j)}" using assms by blast
  then have "card {j. j < length xs \<and> P (xs[i := x] ! j)} \<le> card {j. j < length xs \<and> Q (xs ! j)}" by (intro card_mono) auto
  then show ?thesis by (simp add: length_filter_conv_card)
qed

lemma run_ok_mono:
  assumes "run_ok s ru" "bodies (bx_journal t) (ru_attempt ru) = bodies (bx_journal s) (ru_attempt ru)"
    "bodies (bx_late t) (ru_attempt ru) = bodies (bx_late s) (ru_attempt ru)" "standing_refs t (ru_attempt ru) = standing_refs s (ru_attempt ru)"
    "bx_refill t = None \<Longrightarrow> bx_refill s = None"
  shows "run_ok t ru"
  using assms by (cases "ru_phase ru") (auto simp: run_ok_def)

text \<open>While the refill goes on, a live cell has not been concluded.\<close>

lemma live_unsettled: "run_ok s ru \<Longrightarrow> live s ru \<Longrightarrow> bx_refill s = None \<Longrightarrow> \<not> run_settled ru"
  by (cases "ru_phase ru") (auto simp: run_ok_def live_def settled_phase)

lemma live_bounded:
  assumes "\<forall>ru\<in>set (bx_runs s). run_ok s ru" "bx_refill s = None"
  shows "length (filter (live s) (bx_runs s)) \<le> length (pending_runs s)"
  unfolding pending_runs_def by (rule length_filter_le) (use assms live_unsettled in blast)

lemma touched_inv:
  assumes inv: "batch_inv E s" and touched: "touched E s i t"
  shows "batch_inv E t"
proof -
  from touched[unfolded touched_def] obtain ru where i: "i < length (bx_runs s)" and runs: "bx_runs t = (bx_runs s)[i := ru]"
    and same: "ru_attempt ru = ru_attempt (bx_runs s ! i)" "ru_cell ru = ru_cell (bx_runs s ! i)"
    and others_all: "\<forall>a. a \<noteq> ru_attempt ru \<longrightarrow> bodies (bx_journal t) a = bodies (bx_journal s) a \<and>
      bodies (bx_late t) a = bodies (bx_late s) a \<and> standing_refs t a = standing_refs s a"
    and records: "set (bx_journal t) \<union> set (bx_late t) \<subseteq> set (bx_journal s) \<union> set (bx_late s) \<union> range (own_record E ru)"
    and refill: "bx_refill t = None \<longrightarrow> bx_refill s = None"
    and settles: "run_settled (bx_runs s ! i) \<longrightarrow> run_settled ru" and lives: "live t ru \<longrightarrow> live s (bx_runs s ! i) \<or> bx_refill t = None"
    and ok: "run_ok t ru"
    by (elim exE conjE) (rule that, assumption+)
  note others = others_all[rule_format]
  have attempts: "map ru_attempt (bx_runs t) = map ru_attempt (bx_runs s)" "map ru_cell (bx_runs t) = map ru_cell (bx_runs s)"
    using i same by (simp_all add: runs map_update list_update_same_conv)
  have distinct: "distinct (map ru_attempt (bx_runs s))" using inv by (simp add: batch_inv_def)
  have other: "bx_runs t ! j = bx_runs s ! j \<and> ru_attempt (bx_runs s ! j) \<noteq> ru_attempt ru" if "j < length (bx_runs s)" "j \<noteq> i" for j
    using that i same distinct by (auto simp: runs distinct_conv_nth)
  have keep: "run_ok t (bx_runs s ! j)" "live t (bx_runs s ! j) = live s (bx_runs s ! j)" if "j < length (bx_runs s)" "j \<noteq> i" for j
  proof -
    have "run_ok s (bx_runs s ! j)" using inv that by (simp add: batch_inv_def)
    then show "run_ok t (bx_runs s ! j)" using others[OF conjunct2[OF other[OF that]]] refill by (auto intro: run_ok_mono)
    show "live t (bx_runs s ! j) = live s (bx_runs s ! j)" using others[OF conjunct2[OF other[OF that]]] by (simp add: live_def)
  qed
  have oks: "\<forall>x\<in>set (bx_runs t). run_ok t x"
  proof
    fix x assume "x \<in> set (bx_runs t)"
    then obtain j where "j < length (bx_runs s)" "x = bx_runs t ! j" by (auto simp: in_set_conv_nth runs)
    then show "run_ok t x" using keep ok i runs other by (cases "j = i") auto
  qed
  have pending: "length (pending_runs t) \<le> length (pending_runs s)"
    unfolding pending_runs_def runs
  proof (rule length_filter_update)
    fix j assume "j < length (bx_runs s)" "\<not> run_settled ((bx_runs s)[i := ru] ! j)"
    then show "\<not> run_settled (bx_runs s ! j)" using settles i by (cases "j = i") auto
  qed
  have few: "length (pending_runs t) \<le> b_maxConcurrency (be_batch E)" using pending inv by (simp add: batch_inv_def)
  have alive: "length (filter (live t) (bx_runs t)) \<le> b_maxConcurrency (be_batch E)"
  proof (cases "bx_refill t = None")
    case True
    then show ?thesis using live_bounded[OF oks] few by simp
  next
    case False
    have "length (filter (live t) (bx_runs t)) \<le> length (filter (live s) (bx_runs s))"
      unfolding runs
    proof (rule length_filter_update)
      fix j assume "j < length (bx_runs s)" "live t ((bx_runs s)[i := ru] ! j)"
      then show "live s (bx_runs s ! j)" using lives keep False i by (cases "j = i") auto
    qed
    then show ?thesis using inv by (simp add: batch_inv_def)
  qed
  have own: "r = own_record E x (ac_body r)" if r: "r \<in> set (bx_journal t) \<union> set (bx_late t)" and x: "x \<in> set (bx_runs t)"
    and eq: "ac_attempt r = ru_attempt x" for r x
  proof -
    obtain j where j: "j < length (bx_runs s)" "x = bx_runs t ! j" using x by (auto simp: in_set_conv_nth runs)
    have same_own: "own_record E x = own_record E (bx_runs s ! j)"
      using j same i by (cases "j = i") (auto simp: runs own_record_def)
    consider "r \<in> set (bx_journal s) \<union> set (bx_late s)" | b where "r = own_record E ru b" using r records by blast
    then show ?thesis
    proof cases
      case 1
      have "ac_attempt r = ru_attempt (bx_runs s ! j)" using eq j same i by (cases "j = i") (auto simp: runs)
      then show ?thesis using 1 inv j(1) same_own by (simp add: batch_inv_def)
    next
      case 2
      then have "j = i" using eq j other by (cases "j = i") auto
      then show ?thesis using 2 j i by (simp add: runs)
    qed
  qed
  have standing: "a \<in> ru_attempt ` set (bx_runs t)" if "standing_refs t a \<noteq> {}" for a
  proof (cases "a = ru_attempt ru")
    case True
    then show ?thesis using i by (simp add: runs set_update_memI)
  next
    case False
    then have "standing_refs s a \<noteq> {}" using that others by simp
    then have "a \<in> set (map ru_attempt (bx_runs s))" using inv by (simp add: batch_inv_def)
    then show ?thesis using attempts(1) by (metis list.set_map)
  qed
  have "length (bx_runs t) = length (bx_runs s)" by (simp add: runs)
  then show ?thesis using inv attempts oks own standing few alive by (simp add: batch_inv_def)
qed

lemma bodies_none: "\<not> list_ex (\<lambda>r. ac_attempt r = a) rs \<Longrightarrow> bodies rs a = {}"
  by (auto simp: bodies_def list_ex_iff)

lemma fresh_run_simps [simp]:
  "ru_cell (fresh_run E cell uuid takenAt) = cell" "ru_attempt (fresh_run E cell uuid takenAt) = attempt_id E cell uuid"
  "ru_phase (fresh_run E cell uuid takenAt) = AppendingIntent" "ru_create (fresh_run E cell uuid takenAt) = Uncalled"
  "\<not> ru_createStarted (fresh_run E cell uuid takenAt)" "\<not> ru_createRejectedCleanly (fresh_run E cell uuid takenAt)"
  "\<not> ru_allocationRecorded (fresh_run E cell uuid takenAt)" "ru_allocated (fresh_run E cell uuid takenAt) = None"
  by (simp_all add: fresh_run_def)

lemma created_inv:
  assumes inv: "batch_inv E s" and room: "can_launch E s" and fresh: "fresh_attempt s (attempt_id E cell uuid)"
    and cell: "cell = be_cells E ! length (bx_runs s)"
  shows "batch_inv E (s\<lparr>bx_runs := bx_runs s @ [fresh_run E cell uuid takenAt]\<rparr>)" (is "batch_inv E ?t")
proof -
  let ?ru = "fresh_run E cell uuid takenAt"
  have new: "attempt_id E cell uuid \<notin> ru_attempt ` set (bx_runs s)" using fresh by (auto simp: fresh_attempt_def list_ex_iff)
  have none: "bodies (bx_journal s) (attempt_id E cell uuid) = {}" "bodies (bx_late s) (attempt_id E cell uuid) = {}"
    using fresh by (simp_all add: fresh_attempt_def bodies_none)
  have vacant: "standing_refs s (attempt_id E cell uuid) = {}" using inv new unfolding batch_inv_def by blast
  have views: "run_ok ?t = run_ok s" "live ?t = live s" by (rule ext, simp add: run_ok_def live_def)+
  have create: "create_inv ?ru {} {} {}" by (simp add: create_inv_def)
  have ok: "run_ok s ?ru" using create by (simp add: run_ok_def none vacant)
  have dead: "\<not> live s ?ru" by (simp add: live_def quiet_def vacant)
  have unsettled: "\<not> run_settled ?ru" by (simp add: settled_phase)
  have unknown: "ac_attempt r \<noteq> attempt_id E cell uuid" if "r \<in> set (bx_journal s) \<union> set (bx_late s)" for r
    using that fresh by (auto simp: fresh_attempt_def list_ex_iff)
  have cells: "map ru_cell (bx_runs s) @ [cell] = take (Suc (length (bx_runs s))) (be_cells E)"
    using inv room cell by (simp add: batch_inv_def can_launch_def take_Suc_conv_app_nth)
  have pending: "length (pending_runs ?t) \<le> b_maxConcurrency (be_batch E)"
    using room unsettled by (simp add: pending_runs_def can_launch_def)
  have alive: "length (filter (live ?t) (bx_runs ?t)) \<le> b_maxConcurrency (be_batch E)"
    using inv dead by (simp add: views batch_inv_def)
  show ?thesis
    using inv new ok cells room unknown pending alive unfolding batch_inv_def
    by (auto simp: views can_launch_def)
qed

lemma launch_inv:
  assumes inv: "batch_inv E s" and room: "can_launch E s"
    and fresh: "fresh_attempt s (attempt_id E (be_cells E ! length (bx_runs s)) uuid)"
  shows "batch_inv E (launch_next S E s uuid takenAt now)"
proof -
  let ?ru = "fresh_run E (be_cells E ! length (bx_runs s)) uuid takenAt"
  let ?s1 = "s\<lparr>bx_runs := bx_runs s @ [?ru]\<rparr>"
  have inv1: "batch_inv E ?s1" by (rule created_inv[OF inv room fresh refl])
  show ?thesis
  proof (cases "begin_failure S E s (ru_cell ?ru) (ru_startupDeadline ?ru) now")
    case None
    then show ?thesis using inv1 by (simp add: launch_next_def Let_def)
  next
    case (Some f)
    have here: "bx_runs ?s1 ! length (bx_runs s) = ?ru" by simp
    have ok: "run_ok ?s1 ?ru" using inv1 by (simp add: batch_inv_def)
    have "touched E ?s1 (length (bx_runs s)) (close_run S E ?s1 (length (bx_runs s)) None (?ru\<lparr>ru_failure := Some f\<rparr>))"
    proof (rule close_touched)
      show "nearby E ?s1 (length (bx_runs s)) ?s1" by (rule nearby_refl) simp
      show "Released oc \<notin> bodies (bx_journal ?s1) (ru_attempt (?ru\<lparr>ru_failure := Some f\<rparr>))" for oc using ok by (simp add: run_ok_def)
    qed (use run_ok_create[OF ok] in \<open>simp_all add: here settled_phase confirmed_receipt_def\<close>)
    then show ?thesis using touched_inv[OF inv1] Some by (simp add: launch_next_def Let_def)
  qed
qed

lemma vanish_inv:
  assumes inv: "batch_inv E s"
  shows "batch_inv E (s\<lparr>bx_standing := filter (\<lambda>x. x \<noteq> (a, ref)) (bx_standing s)\<rparr>)" (is "batch_inv E ?t")
proof -
  have fewer: "standing_refs ?t b \<subseteq> standing_refs s b" for b by (auto simp: standing_refs_def)
  have quieter: "quiet ru (standing_refs s b) \<Longrightarrow> quiet ru (standing_refs ?t b)" for ru b using fewer[of b] by (auto simp: quiet_def)
  have ok: "run_ok ?t ru" if "run_ok s ru" for ru
  proof -
    have "create_inv ru (bodies (bx_journal s) (ru_attempt ru)) (bodies (bx_late s) (ru_attempt ru)) (standing_refs ?t (ru_attempt ru))"
      using that fewer[of "ru_attempt ru"] by (auto simp: run_ok_def create_inv_def)
    moreover have "phase_inv (bx_refill s = None) ru (bodies (bx_journal s) (ru_attempt ru)) (bodies (bx_late s) (ru_attempt ru))
        (standing_refs ?t (ru_attempt ru)) (ru_phase ru)"
      by (rule phase_inv_change[where ru = ru and b = "bx_refill s = None" and R = "standing_refs s (ru_attempt ru)"
            and B = "bodies (bx_journal s) (ru_attempt ru)" and L = "bodies (bx_late s) (ru_attempt ru)"])
        (use that quieter in \<open>auto simp: run_ok_def\<close>)
    ultimately show ?thesis by (simp add: run_ok_def)
  qed
  have live: "live ?t ru \<Longrightarrow> live s ru" for ru using quieter by (auto simp: live_def)
  have "length (filter (live ?t) (bx_runs s)) \<le> length (filter (live s) (bx_runs s))" by (rule length_filter_le) (rule live)
  then have "length (filter (live ?t) (bx_runs s)) \<le> b_maxConcurrency (be_batch E)" using inv by (simp add: batch_inv_def)
  moreover have "b \<in> ru_attempt ` set (bx_runs s)" if "standing_refs ?t b \<noteq> {}" for b using that fewer[of b] inv by (auto simp: batch_inv_def)
  ultimately show ?thesis using inv ok by (simp add: batch_inv_def pending_runs_def)
qed

lemma landed_inv:
  assumes inv: "batch_inv E s" and late: "r \<in> set (bx_late s)"
  shows "batch_inv E (s\<lparr>bx_late := remove1 r (bx_late s), bx_journal := bx_journal s @ [r]\<rparr>)" (is "batch_inv E ?t")
proof -
  have views: "bodies (bx_journal ?t) a = bodies (bx_journal s) a \<union> bodies [r] a" "bodies [r] a \<subseteq> bodies (bx_late s) a"
    "bodies (bx_late ?t) a \<subseteq> bodies (bx_late s) a" "standing_refs ?t a = standing_refs s a" for a
    using late set_remove1_subset[of r "bx_late s"] by (auto simp: bodies_def standing_refs_def)
  have ok: "run_ok ?t ru" if ok: "run_ok s ru" for ru
  proof -
    let ?a = "ru_attempt ru"
    note inv = run_ok_create[OF ok]
    have "create_inv ru (bodies (bx_journal ?t) ?a) (bodies (bx_late ?t) ?a) (standing_refs ?t ?a)"
      using inv views(2,3)[of ?a] unfolding views(1,4) create_inv_def by blast
    moreover have "phase_inv (bx_refill s = None) ru (bodies (bx_journal ?t) ?a) (bodies (bx_late ?t) ?a) (standing_refs ?t ?a) (ru_phase ru)"
    proof (rule phase_inv_change[where ru = ru and b = "bx_refill s = None"])
      show "phase_inv (bx_refill s = None) ru (bodies (bx_journal s) ?a) (bodies (bx_late s) ?a) (standing_refs s ?a) (ru_phase ru)"
        using ok by (simp add: run_ok_def)
      show "bodies (bx_journal ?t) ?a = {} \<and> bodies (bx_late ?t) ?a = {} \<and> ru_create ru = Uncalled" if "ru_phase ru = AppendingIntent"
        using ok that views(2,3)[of ?a] unfolding views(1) by (simp add: run_ok_def)
      show "Released oc \<in> bodies (bx_journal s) ?a" if "Released oc \<in> bodies (bx_journal ?t) ?a" for oc
        using that inv views(2)[of ?a] unfolding views(1) create_inv_def by blast
    qed (use views in auto)
    ultimately show ?thesis by (simp add: run_ok_def)
  qed
  have "set (bx_journal ?t) \<union> set (bx_late ?t) \<subseteq> set (bx_journal s) \<union> set (bx_late s)"
    using late set_remove1_subset[of r "bx_late s"] by auto
  moreover have "live ?t = live s" by (rule ext) (simp add: live_def standing_refs_def)
  ultimately show ?thesis using inv ok views(4) unfolding batch_inv_def
    by (auto simp: pending_runs_def)
qed

lemma at_run_Some: "at_run s i f = Some t \<longleftrightarrow> i < length (bx_runs s) \<and> f (bx_runs s ! i) = Some t"
  by (simp add: at_run_def)

lemma guarded_Some: "guarded b t = Some u \<longleftrightarrow> b \<and> u = t"
  by (auto simp: guarded_def)

lemma appears_touched:
  assumes i: "i < length (bx_runs s)" and ok: "run_ok s (bx_runs s ! i)"
    and awaited: "ru_create (bx_runs s ! i) = Pending \<or> ru_create (bx_runs s ! i) = Ambiguous"
  shows "touched E s i (s\<lparr>bx_standing := (ru_attempt (bx_runs s ! i), ref) # bx_standing s\<rparr>)"
proof -
  let ?ru = "bx_runs s ! i" and ?t = "s\<lparr>bx_standing := (ru_attempt (bx_runs s ! i), ref) # bx_standing s\<rparr>"
  have "touched E s i (put_run ?t i ?ru)"
    by (rule create_event_touched[OF i ok])
      (use i awaited run_ok_create[OF ok] in \<open>auto simp: nearby_def standing_refs_def quiet_def create_inv_def\<close>)
  then show ?thesis by (simp add: put_run_def)
qed

lemma uploaded_touched:
  assumes i: "i < length (bx_runs s)" and ok: "run_ok s (bx_runs s ! i)" and phase: "ru_phase (bx_runs s ! i) = Uploading evidence"
  shows "touched E s i (put_run s i ((bx_runs s ! i)\<lparr>ru_phase := Settled (uploaded result evidence)\<rparr>))"
proof (rule touched_put)
  show "run_ok s ((bx_runs s ! i)\<lparr>ru_phase := Settled (uploaded result evidence)\<rparr>)"
    using ok phase by (auto simp: run_ok_def uploaded_def and_then_def honest_def split: sum.splits)
qed (use i in \<open>simp_all add: nearby_refl settled_phase\<close>)

lemma batch_inv_step:
  assumes inv: "batch_inv E s" and step: "handle S E s e = Some t"
  shows "batch_inv E t"
proof -
  have ok: "run_ok s (bx_runs s ! i)" if "i < length (bx_runs s)" for i using inv that by (simp add: batch_inv_def)
  note here = at_run_Some guarded_Some
  show ?thesis
  proof (cases e)
    case (Launched uuid takenAt now)
    then show ?thesis using step inv by (auto simp: here intro: launch_inv)
  next
    case (IntentAppended i result)
    then show ?thesis using step by (auto simp: here intro: touched_inv[OF inv intent_touched] ok)
  next
    case (CreateCalled i aborted now)
    then show ?thesis using step by (auto simp: here intro: touched_inv[OF inv create_called_touched] ok)
  next
    case (CreateReturned i ref written)
    then show ?thesis using step by (auto simp: here intro: touched_inv[OF inv create_returned_touched] ok)
  next
    case (CreateRejected i err)
    then show ?thesis using step by (auto simp: here intro: touched_inv[OF inv create_rejected_touched] ok)
  next
    case (AllocationAppended i result)
    then show ?thesis using step by (auto simp: here intro: touched_inv[OF inv allocation_touched] ok split: create_state.splits)
  next
    case (SessionDiscarded i)
    then show ?thesis using step by (auto simp: here intro: touched_inv[OF inv discarded_touched] ok split: create_state.splits)
  next
    case (ReplicateEnded i outcome)
    then show ?thesis using step by (auto simp: here intro: touched_inv[OF inv replicate_touched] ok)
  next
    case (RecordsRead i result)
    then show ?thesis using step by (auto simp: here intro: touched_inv[OF inv records_read_touched] ok)
  next
    case (ReleaseAppended i result)
    then show ?thesis using step by (auto simp: here intro: touched_inv[OF inv release_touched] ok split: run_phase.splits)
  next
    case (EvidenceUploaded i result)
    then show ?thesis using step by (auto simp: here intro: touched_inv[OF inv uploaded_touched] ok split: run_phase.splits)
  next
    case (SandboxAppears i ref)
    then show ?thesis using step by (auto simp: here intro: touched_inv[OF inv appears_touched] ok)
  next
    case (SandboxVanishes a ref)
    then show ?thesis using step vanish_inv[OF inv, of a ref] by simp
  next
    case (RecordLands r)
    then show ?thesis using step landed_inv[OF inv] by (auto simp: here)
  qed
qed

lemma batch_inv_start: "batch_inv E (batch_start E)"
  by (simp add: batch_inv_def batch_start_def standing_refs_def pending_runs_def)

interpretation batch: step_system "\<lambda>s. s = batch_start E" "batch_step S E" "batch_inv E" for S E
proof
  show "batch_inv E s" if "s = batch_start E" for s using that batch_inv_start by simp
  show "batch_inv E t" if "batch_inv E s" "batch_step S E s t" for s t
    using that batch_inv_step by (auto simp: batch_step_def)
qed

section \<open>What the invariant gives\<close>

lemma find_released_body: "find_released rs = Some oc \<Longrightarrow> \<exists>r\<in>set rs. ac_body r = Released oc"
  by (induction rs) (auto split: record_body.splits)

lemma unresolvedI:
  assumes "Intent \<in> bodies rs a" "\<And>oc. Released oc \<notin> bodies rs a"
  shows "\<exists>u\<in>set (unresolvedJournalAttempts rs). un_attempt u = a"
proof -
  obtain intent where intent: "intent \<in> set rs" "ac_attempt intent = a" "ac_body intent = Intent" using assms(1) by (auto simp: bodies_def)
  have mem: "records_of rs a \<in> set (attempt_groups rs)" using intent by (auto simp: attempt_groups_set)
  have "find_intent (records_of rs a) \<noteq> None" using intent by (auto simp: find_intent_def find_None_iff records_of_def is_intent_def)
  then obtain found where found: "find_intent (records_of rs a) = Some found" by blast
  have attempt: "ac_attempt found = a" using find_intent_mem[OF found] by (auto simp: records_of_def)
  have "find_released (records_of rs a) = None"
  proof (rule ccontr)
    assume "find_released (records_of rs a) \<noteq> None"
    then obtain oc where "find_released (records_of rs a) = Some oc" by blast
    from find_released_body[OF this] show False using assms(2) by (force simp: bodies_def records_of_def)
  qed
  then have "unresolved_of (records_of rs a) \<noteq> None" "\<And>u. unresolved_of (records_of rs a) = Some u \<Longrightarrow> un_attempt u = a"
    using found attempt by (auto simp: unresolved_of_def)
  then show ?thesis using mem by (force simp: unresolvedJournalAttempts_def map_filter_def)
qed

lemma run_of_standing:
  assumes "batch_inv E s" "(a, ref) \<in> set (bx_standing s)"
  shows "\<exists>ru\<in>set (bx_runs s). ru_attempt ru = a \<and> run_ok s ru \<and> live s ru"
proof -
  have "standing_refs s a \<noteq> {}" using assms(2) by (auto simp: standing_refs_def)
  moreover from this obtain ru where "ru \<in> set (bx_runs s)" "ru_attempt ru = a" using assms(1) unfolding batch_inv_def by blast
  ultimately show ?thesis using assms(1) by (auto simp: batch_inv_def live_def quiet_def)
qed

text \<open>A release is in the journal only when the cell is quiet.\<close>

lemma released_quiet:
  assumes "run_ok s ru" "Released oc \<in> bodies (bx_journal s) (ru_attempt ru)"
  shows "releasable ru (bodies (bx_journal s) (ru_attempt ru)) (standing_refs s (ru_attempt ru)) oc"
  using assms by (cases "ru_phase ru") (auto simp: run_ok_def)

lemma standing_unresolved:
  assumes inv: "batch_inv E s" and standing: "(a, ref) \<in> set (bx_standing s)"
  shows "\<exists>u\<in>set (unresolvedJournalAttempts (bx_journal s)). un_attempt u = a"
proof (rule unresolvedI)
  obtain ru where ru: "ru \<in> set (bx_runs s)" "ru_attempt ru = a" "run_ok s ru" "live s ru" using run_of_standing[OF assms] by blast
  have "standing_refs s a \<noteq> {}" using standing by (auto simp: standing_refs_def)
  then show "Intent \<in> bodies (bx_journal s) a" using run_ok_create[OF ru(3)] ru(2) by (auto simp: create_inv_def)
  show "Released oc \<notin> bodies (bx_journal s) a" for oc
    using released_quiet[OF ru(3)] ru(2,4) by (auto simp: live_def releasable_def)
qed

lemma standing_attempts:
  assumes inv: "batch_inv E s"
  shows "card (fst ` set (bx_standing s)) \<le> b_maxConcurrency (be_batch E)"
proof -
  have "fst ` set (bx_standing s) \<subseteq> ru_attempt ` set (filter (live s) (bx_runs s))"
    using run_of_standing[OF inv] by fastforce
  then have "card (fst ` set (bx_standing s)) \<le> card (ru_attempt ` set (filter (live s) (bx_runs s)))" by (intro card_mono) auto
  also have "\<dots> \<le> length (filter (live s) (bx_runs s))"
    by (metis card_image_le card_length finite_set le_trans)
  finally show ?thesis using inv by (simp add: batch_inv_def)
qed

text \<open>The records of a cell are what the recovery of the next admission can work with.\<close>

lemma find_allocated_body: "Allocated ref \<in> ac_body ` set rs \<Longrightarrow> find_allocated rs \<noteq> None"
  by (induction rs) (auto split: record_body.splits)

lemma bodies_records: "bodies rs a = ac_body ` set (records_of rs a)"
  by (auto simp: bodies_def records_of_def)

lemma attempt_classified:
  assumes inv: "batch_inv E s" and ru: "ru \<in> set (bx_runs s)" and known: "ru_attempt ru \<in> ac_attempt ` set (bx_journal s)"
  shows "classify_attempt (records_of (bx_journal s) (ru_attempt ru)) =
    (case find_released (records_of (bx_journal s) (ru_attempt ru)) of
       Some oc \<Rightarrow> Inr None
     | None \<Rightarrow> (case find_allocated (records_of (bx_journal s) (ru_attempt ru)) of
         None \<Rightarrow> Inl (UnresolvedCreate (ru_attempt ru))
       | Some ref \<Rightarrow> Inr (Some (own_record E ru Intent, ref))))"
proof -
  let ?rs = "records_of (bx_journal s) (ru_attempt ru)" and ?B = "bodies (bx_journal s) (ru_attempt ru)"
  have ok: "run_ok s ru" using inv ru by (simp add: batch_inv_def)
  note create = run_ok_create[OF ok]
  have own: "r = own_record E ru (ac_body r)" if "r \<in> set ?rs" for r using that inv ru by (auto simp: records_of_def batch_inv_def)
  have kinds: "ac_body r = Intent \<or> (\<exists>ref. ac_body r = Allocated ref) \<or> (\<exists>oc. ac_body r = Released oc)" if "r \<in> set ?rs" for r
  proof -
    have "ac_body r \<in> ?B" using that by (simp add: bodies_records)
    then show ?thesis using create unfolding create_inv_def by blast
  qed
  have "?B \<noteq> {}" using known by (auto simp: bodies_def)
  then obtain body where body: "body \<in> ?B" by blast
  have "body = Intent \<or> (\<exists>ref. body = Allocated ref) \<or> (\<exists>oc. body = Released oc)"
    using create body unfolding create_inv_def by blast
  then consider "body = Intent" | ref where "body = Allocated ref" | oc where "body = Released oc" by blast
  then have "Intent \<in> ?B"
  proof cases
    case 2
    then have "ru_allocated ru = Some ref" using create body by (simp add: create_inv_def)
    then have "ru_createStarted ru" using create by (auto simp: create_inv_def)
    then show ?thesis using create by (simp add: create_inv_def)
  next
    case 3
    then show ?thesis using released_quiet[OF ok] body by (auto simp: releasable_def)
  qed (use body in simp)
  then obtain r where "r \<in> set ?rs" "ac_body r = Intent" by (auto simp: bodies_records)
  then have "find_intent ?rs \<noteq> None" by (auto simp: find_intent_def find_None_iff is_intent_def)
  then obtain intent where intent: "find_intent ?rs = Some intent" by blast
  have "intent \<in> set ?rs" "ac_body intent = Intent" using intent by (auto simp: find_intent_def find_Some_iff is_intent_def)
  then have intent_eq: "intent = own_record E ru Intent" using own[of intent] by simp
  have "attestations ?rs = []" using kinds by (fastforce simp: attestations_def List.map_filter_def filter_empty_conv split: record_body.splits)
  then have unattested: "supplementalCleanupRecovery ?rs = Inr None" by (simp add: supplementalCleanupRecovery_def)
  have provenance: "list_all (\<lambda>r. ac_planDigest r = ac_planDigest intent \<and> ac_cellId r = ac_cellId intent) ?rs"
    unfolding list_all_iff
  proof
    fix r assume "r \<in> set ?rs"
    from own[OF this] show "ac_planDigest r = ac_planDigest intent \<and> ac_cellId r = ac_cellId intent"
      unfolding intent_eq by (metis (no_types, lifting) own_record_def account_record.select_convs(3,4))
  qed
  have released: "(case oc of Absent ref c \<Rightarrow> find_allocated ?rs = Some ref | _ \<Rightarrow> find_allocated ?rs = None)"
    if "find_released ?rs = Some oc" for oc
  proof -
    have "Released oc \<in> ?B" using find_released_body[OF that] by (force simp: bodies_records)
    from released_quiet[OF ok this] have rel: "releasable ru ?B (standing_refs s (ru_attempt ru)) oc" .
    have alloc: "ru_allocated ru = Some ref" if "find_allocated ?rs = Some ref" for ref
    proof -
      have "Allocated ref \<in> ?B" using find_allocated_mem[OF that] by (force simp: bodies_records)
      then show ?thesis using create by (auto simp: create_inv_def)
    qed
    consider "oc = NeverAllocated" "ru_allocated ru = None" | ref where "oc = Absent ref None" "Allocated ref \<in> ?B"
      using rel by (auto simp: releasable_def)
    then show ?thesis
    proof cases
      case 1
      then show ?thesis using alloc by (cases "find_allocated ?rs") auto
    next
      case 2
      then have "find_allocated ?rs \<noteq> None" "ru_allocated ru = Some ref"
        using find_allocated_body[of ref ?rs] create by (auto simp: bodies_records create_inv_def)
      then show ?thesis using 2 alloc by auto
    qed
  qed
  show ?thesis
    unfolding classify_attempt_def unattested and_then_def sum.case intent option.case
    using provenance released by (auto simp: intent_eq split: option.splits)
qed

section \<open>Every batch ends\<close>

text \<open>The awaits that a cell still has before it, in its main flow and in its create.\<close>

fun phase_rank :: "run_phase \<Rightarrow> nat" where
  "phase_rank AppendingIntent = 5"
| "phase_rank Replicating = 4"
| "phase_rank ReadingRecords = 3"
| "phase_rank (AppendingRelease oc) = 2"
| "phase_rank (Uploading evidence) = 1"
| "phase_rank (Settled r) = 0"

fun create_rank :: "create_state \<Rightarrow> nat" where
  "create_rank Uncalled = 4"
| "create_rank Pending = 3"
| "create_rank (Recording ref) = 2"
| "create_rank (Discarding ref) = 1"
| "create_rank _ = 0"

definition run_rank :: "cell_run \<Rightarrow> nat" where
  "run_rank ru = phase_rank (ru_phase ru) + create_rank (ru_create ru)"

definition remaining_work :: "batch_env \<Rightarrow> batch_run \<Rightarrow> nat" where
  "remaining_work E s = 10 * (length (be_cells E) - length (bx_runs s)) + sum_list (map run_rank (bx_runs s))"

text \<open>Events of the code, as opposed to what happens at the vendor and in the journal on its own.\<close>

fun internal :: "batch_event \<Rightarrow> bool" where
  "internal (SandboxAppears i ref) = False"
| "internal (SandboxVanishes a ref) = False"
| "internal (RecordLands r) = False"
| "internal _ = True"

lemma conclude_runs: "bx_runs (conclude S E s i ru) = (bx_runs s)[i := ru\<lparr>ru_phase := Uploading (attempt_evidence S E ru)\<rparr>]"
  by (simp add: conclude_def)

lemma close_runs:
  "\<exists>p. bx_runs (close_run S E s i receipt ru) = (bx_runs s)[i := ru\<lparr>ru_cleanup := cleanup_of ru receipt, ru_phase := p\<rparr>] \<and> phase_rank p \<le> 3"
  by (auto simp: close_run_def Let_def conclude_runs split: option.split intro: exI[of _ ReadingRecords] exI[of _ "AppendingRelease oc" for oc])

text \<open>An event that leaves one cell with less to do.\<close>

lemma work_decreases:
  assumes "i < length (bx_runs s)" "bx_runs t = (bx_runs s)[i := ru]" "run_rank ru < run_rank (bx_runs s ! i)"
  shows "remaining_work E t < remaining_work E s"
proof -
  have "run_rank (bx_runs s ! i) \<le> sum_list (map run_rank (bx_runs s))"
    using assms(1) by (intro member_le_sum_list) auto
  then have "sum_list (map run_rank (bx_runs t)) < sum_list (map run_rank (bx_runs s))"
    using assms by (simp add: map_update sum_list_update)
  then show ?thesis using assms(2) by (simp add: remaining_work_def)
qed

lemma close_decreases:
  assumes "i < length (bx_runs s)" "\<And>x. (bx_runs s')[i := x] = (bx_runs s)[i := x]"
    and "3 < phase_rank (ru_phase (bx_runs s ! i))" "ru_create ru = ru_create (bx_runs s ! i)"
  shows "remaining_work E (close_run S E s' i receipt ru) < remaining_work E s"
proof -
  obtain p where p: "bx_runs (close_run S E s' i receipt ru) = (bx_runs s')[i := ru\<lparr>ru_cleanup := cleanup_of ru receipt, ru_phase := p\<rparr>]"
    "phase_rank p \<le> 3" using close_runs by blast
  have runs: "bx_runs (close_run S E s' i receipt ru) = (bx_runs s)[i := ru\<lparr>ru_cleanup := cleanup_of ru receipt, ru_phase := p\<rparr>]"
    using p(1) assms(2) by simp
  show ?thesis
    by (rule work_decreases[OF assms(1) runs]) (use p(2) assms(3,4) in \<open>simp add: run_rank_def\<close>)
qed

lemma conclude_decreases:
  assumes "i < length (bx_runs s)" "\<And>x. (bx_runs s')[i := x] = (bx_runs s)[i := x]"
    and "1 < phase_rank (ru_phase (bx_runs s ! i))" "ru_create ru = ru_create (bx_runs s ! i)"
  shows "remaining_work E (conclude S E s' i ru) < remaining_work E s"
proof -
  have runs: "bx_runs (conclude S E s' i ru) = (bx_runs s)[i := ru\<lparr>ru_phase := Uploading (attempt_evidence S E ru)\<rparr>]"
    using assms(2) by (simp add: conclude_runs)
  show ?thesis by (rule work_decreases[OF assms(1) runs]) (use assms(3,4) in \<open>simp add: run_rank_def\<close>)
qed

lemma launch_decreases:
  assumes "can_launch E s"
  shows "remaining_work E (launch_next S E s uuid takenAt now) < remaining_work E s"
proof -
  let ?ru = "fresh_run E (be_cells E ! length (bx_runs s)) uuid takenAt"
  let ?s1 = "s\<lparr>bx_runs := bx_runs s @ [?ru]\<rparr>"
  have fewer: "length (bx_runs s) < length (be_cells E)" using assms by (simp add: can_launch_def)
  then obtain n where n: "length (be_cells E) - length (bx_runs s) = Suc n" by (metis Suc_diff_Suc)
  then have "length (be_cells E) - Suc (length (bx_runs s)) = n" by simp
  then have first: "remaining_work E ?s1 < remaining_work E s" by (simp add: remaining_work_def n run_rank_def)
  show ?thesis
  proof (cases "begin_failure S E s (ru_cell ?ru) (ru_startupDeadline ?ru) now")
    case None
    then show ?thesis using first by (simp add: launch_next_def Let_def)
  next
    case (Some f)
    have "remaining_work E (close_run S E ?s1 (length (bx_runs s)) None (?ru\<lparr>ru_failure := Some f\<rparr>)) < remaining_work E ?s1"
      by (rule close_decreases) simp_all
    then show ?thesis using first Some by (simp add: launch_next_def Let_def)
  qed
qed

lemma internal_decreases:
  assumes step: "handle S E s e = Some t" and internal: "internal e"
  shows "remaining_work E t < remaining_work E s"
proof (cases e)
  case (Launched uuid takenAt now)
  then show ?thesis using step by (auto simp: guarded_Some intro: launch_decreases)
next
  case (IntentAppended i result)
  then have i: "i < length (bx_runs s)" "ru_phase (bx_runs s ! i) = AppendingIntent" and t: "t = intent_appended S E s i result (bx_runs s ! i)"
    using step by (auto simp: at_run_Some guarded_Some)
  show ?thesis
  proof (cases result)
    case Stored
    show ?thesis
      by (rule work_decreases[OF i(1), where ru = "(bx_runs s ! i)\<lparr>ru_phase := Replicating\<rparr>"])
        (use i Stored in \<open>simp_all add: t intent_appended_def Let_def run_rank_def\<close>)
  next
    case (Broken err fate)
    show ?thesis unfolding t intent_appended_def Let_def Broken append_result.case
      by (rule close_decreases[OF i(1)]) (use i in \<open>simp_all add: append_broke_def\<close>)
  qed
next
  case (CreateCalled i aborted now)
  then have i: "i < length (bx_runs s)" "ru_create (bx_runs s ! i) = Uncalled" and t: "t = create_called s i aborted now (bx_runs s ! i)"
    using step by (auto simp: at_run_Some guarded_Some)
  have "bx_runs t = (bx_runs s)[i := (bx_runs s ! i)\<lparr>ru_create := Over\<rparr>] \<or>
      bx_runs t = (bx_runs s)[i := (bx_runs s ! i)\<lparr>ru_createStarted := True, ru_create := Pending\<rparr>]"
    by (simp add: t create_called_def)
  then show ?thesis using i work_decreases[OF i(1)] by (auto simp: run_rank_def)
next
  case (CreateReturned i ref written)
  then have i: "i < length (bx_runs s)" "ru_create (bx_runs s ! i) = Pending" and t: "t = create_returned E s i ref written (bx_runs s ! i)"
    using step by (auto simp: at_run_Some guarded_Some)
  have "bx_runs t = (bx_runs s)[i := (bx_runs s ! i)\<lparr>ru_allocated := Some ref, ru_retained := Some ref, ru_create := Recording ref\<rparr>] \<or>
      bx_runs t = (bx_runs s)[i := (bx_runs s ! i)\<lparr>ru_allocated := Some ref, ru_create := Discarding ref\<rparr>]"
    by (simp add: t create_returned_def)
  then show ?thesis using i work_decreases[OF i(1)] by (auto simp: run_rank_def)
next
  case (CreateRejected i err)
  then have i: "i < length (bx_runs s)" "ru_create (bx_runs s ! i) = Pending" and t: "t = driver_rejected E s i err (bx_runs s ! i)"
    using step by (auto simp: at_run_Some guarded_Some)
  let ?ru = "(bx_runs s ! i)\<lparr>ru_createRejectedCleanly := \<not> isFailedCreateCleanupError err,
    ru_retained := (case retained_identity (c_provider (ru_cell (bx_runs s ! i))) err of Some ref \<Rightarrow> Some ref | None \<Rightarrow> ru_retained (bx_runs s ! i)),
    ru_create := (if isFailedCreateCleanupError err then Ambiguous else Over)\<rparr>"
  have "bx_runs t = (bx_runs s)[i := ?ru]" by (simp add: t driver_rejected_def Let_def)
  moreover have "create_rank (ru_create ?ru) = 0" "ru_phase ?ru = ru_phase (bx_runs s ! i)" by simp_all
  then have "run_rank ?ru < run_rank (bx_runs s ! i)" using i(2) unfolding run_rank_def by (simp only: create_rank.simps)
  ultimately show ?thesis by (rule work_decreases[OF i(1)])
next
  case (AllocationAppended i result)
  then obtain ref where i: "i < length (bx_runs s)" "ru_create (bx_runs s ! i) = Recording ref"
    and t: "t = allocation_appended E s i result ref (bx_runs s ! i)"
    using step by (auto simp: at_run_Some split: create_state.splits)
  obtain ru where ru: "bx_runs t = (bx_runs s)[i := ru]" "ru_phase ru = ru_phase (bx_runs s ! i)" "create_rank (ru_create ru) \<le> 1"
    by (cases result) (auto simp: t allocation_appended_def Let_def intro!: that)
  then show ?thesis using i by (intro work_decreases[OF i(1) ru(1)]) (simp add: run_rank_def)
next
  case (SessionDiscarded i)
  then obtain ref where i: "i < length (bx_runs s)" "ru_create (bx_runs s ! i) = Discarding ref"
    and t: "t = put_run s i ((bx_runs s ! i)\<lparr>ru_create := Over\<rparr>)"
    using step by (auto simp: at_run_Some split: create_state.splits)
  show ?thesis by (rule work_decreases[OF i(1), where ru = "(bx_runs s ! i)\<lparr>ru_create := Over\<rparr>"]) (use i in \<open>simp_all add: t run_rank_def\<close>)
next
  case (ReplicateEnded i outcome)
  then have i: "i < length (bx_runs s)" "ru_phase (bx_runs s ! i) = Replicating" and t: "t = replicate_ended S E s i outcome (bx_runs s ! i)"
    using step by (auto simp: at_run_Some guarded_Some)
  obtain receipt ru where close: "t = close_run S E s i receipt ru" "ru_create ru = ru_create (bx_runs s ! i)"
    by (cases "re_receipts outcome") (auto simp: t replicate_ended_def Let_def intro!: that)
  show ?thesis unfolding close(1) by (rule close_decreases[OF i(1)]) (use i close(2) in simp_all)
next
  case (RecordsRead i result)
  then have i: "i < length (bx_runs s)" "ru_phase (bx_runs s ! i) = ReadingRecords" and t: "t = records_read S E s i result (bx_runs s ! i)"
    using step by (auto simp: at_run_Some guarded_Some)
  have "remaining_work E (put_run s i ((bx_runs s ! i)\<lparr>ru_phase := AppendingRelease NeverAllocated\<rparr>)) < remaining_work E s"
    by (rule work_decreases[OF i(1), where ru = "(bx_runs s ! i)\<lparr>ru_phase := AppendingRelease NeverAllocated\<rparr>"])
      (use i in \<open>simp_all add: run_rank_def\<close>)
  moreover have "remaining_work E (conclude S E s i ru) < remaining_work E s" if "ru_create ru = ru_create (bx_runs s ! i)" for ru
    by (rule conclude_decreases[OF i(1)]) (use i that in simp_all)
  ultimately show ?thesis by (simp add: t records_read_def split: sum.split)
next
  case (ReleaseAppended i result)
  then obtain oc where i: "i < length (bx_runs s)" "ru_phase (bx_runs s ! i) = AppendingRelease oc"
    and t: "t = release_appended S E s i result oc (bx_runs s ! i)"
    using step by (auto simp: at_run_Some guarded_Some split: run_phase.splits)
  have "remaining_work E (conclude S E s' i ru) < remaining_work E s"
    if "ru_create ru = ru_create (bx_runs s ! i)" "\<And>x. (bx_runs s')[i := x] = (bx_runs s)[i := x]" for s' ru
    by (rule conclude_decreases[OF i(1)]) (use i that in simp_all)
  then show ?thesis by (simp add: t release_appended_def Let_def append_broke_def split: append_result.split)
next
  case (EvidenceUploaded i result)
  then obtain evidence where i: "i < length (bx_runs s)" "ru_phase (bx_runs s ! i) = Uploading evidence"
    and t: "t = put_run s i ((bx_runs s ! i)\<lparr>ru_phase := Settled (uploaded result evidence)\<rparr>)"
    using step by (auto simp: at_run_Some split: run_phase.splits)
  show ?thesis
    by (rule work_decreases[OF i(1), where ru = "(bx_runs s ! i)\<lparr>ru_phase := Settled (uploaded result evidence)\<rparr>"])
      (use i in \<open>simp_all add: t run_rank_def\<close>)
qed (use internal in simp_all)

lemma external_keeps: "handle S E s e = Some t \<Longrightarrow> \<not> internal e \<Longrightarrow> remaining_work E t = remaining_work E s"
  by (cases e) (auto simp: at_run_Some guarded_Some remaining_work_def)

lemma run_events_work:
  "run_events S E s es = Some t \<Longrightarrow> remaining_work E t + length (filter internal es) \<le> remaining_work E s"
proof (induction es arbitrary: s)
  case (Cons e es)
  then obtain u where u: "handle S E s e = Some u" "run_events S E u es = Some t" by (auto split: option.splits)
  then show ?case using Cons.IH[OF u(2)] internal_decreases[OF u(1)] external_keeps[OF u(1)] by fastforce
qed simp

text \<open>A state in which the code can do nothing more has run all its cells.\<close>

lemma fresh_exists: "\<exists>uuid. fresh_attempt s (attempt_id E cell uuid)"
proof -
  let ?used = "ru_attempt ` set (bx_runs s) \<union> ac_attempt ` (set (bx_journal s) \<union> set (bx_late s))"
  have "inj (attempt_id E cell)" by (simp add: inj_def attempt_id_def)
  then have "infinite (range (attempt_id E cell))" using finite_imageD infinite_UNIV_listI by blast
  then obtain uuid where "attempt_id E cell uuid \<notin> ?used" by (metis finite_imageI finite_set finite_Un finite_subset image_subset_iff)
  then have "fresh_attempt s (attempt_id E cell uuid)" by (force simp: fresh_attempt_def list_ex_iff image_iff)
  then show ?thesis ..
qed

lemma idle_finished:
  assumes idle: "\<And>e. internal e \<Longrightarrow> handle S E s e = None" and room: "0 < b_maxConcurrency (be_batch E)"
    and within: "length (bx_runs s) \<le> length (be_cells E)"
  shows "length (bx_runs s) = length (be_cells E) \<and> (\<forall>ru\<in>set (bx_runs s). run_settled ru)"
proof -
  have settled: "run_settled (bx_runs s ! i)" if i: "i < length (bx_runs s)" for i
  proof (rule ccontr)
    assume unsettled: "\<not> run_settled (bx_runs s ! i)"
    show False
    proof (cases "ru_phase (bx_runs s ! i)")
      case AppendingIntent
      then show False using idle[of "IntentAppended i Stored"] i by (simp add: at_run_def guarded_def)
    next
      case Replicating
      then show False using idle[of "ReplicateEnded i \<lparr>re_failed = None, re_runDigest = None, re_receipts = Inl [], re_rawDigest = []\<rparr>"] i
        by (simp add: at_run_def guarded_def confirms_def)
    next
      case ReadingRecords
      then show False using idle[of "RecordsRead i (Inl [])"] i by (simp add: at_run_def guarded_def)
    next
      case (AppendingRelease oc)
      then show False using idle[of "ReleaseAppended i Stored"] i by (simp add: at_run_def guarded_def)
    next
      case (Uploading evidence)
      then show False using idle[of "EvidenceUploaded i (Inl [])"] i by (simp add: at_run_def)
    next
      case (Settled r)
      then show False using unsettled by (simp add: settled_phase)
    qed
  qed
  have "pending_runs s = []" using settled by (auto simp: pending_runs_def filter_empty_conv in_set_conv_nth)
  moreover have "\<not> can_launch E s"
  proof
    assume "can_launch E s"
    moreover obtain uuid where "fresh_attempt s (attempt_id E (be_cells E ! length (bx_runs s)) uuid)" using fresh_exists by blast
    ultimately show False using idle[of "Launched uuid 0 0"] by (simp add: guarded_def)
  qed
  ultimately have "length (bx_runs s) = length (be_cells E)" using room within by (simp add: can_launch_def)
  then show ?thesis using settled by (auto simp: in_set_conv_nth)
qed

section \<open>Properties\<close>

lemma run_events_reaches: "run_events S E s es = Some t \<Longrightarrow> reaches (batch_step S E) u s \<Longrightarrow> reaches (batch_step S E) u t"
proof (induction es arbitrary: s)
  case (Cons e es)
  then obtain v where v: "handle S E s e = Some v" "run_events S E v es = Some t" by (auto split: option.splits)
  then have "batch_step S E s v" by (auto simp: batch_step_def)
  then have "reaches (batch_step S E) u v" by (rule reaches_step[OF Cons.prems(2)])
  then show ?case using Cons.IH[OF v(2)] by blast
qed simp

lemma batch_reachable: "run_events S E (batch_start E) es = Some s \<Longrightarrow> batch_inv E s"
  by (rule batch.inv_reachable[OF refl run_events_reaches[OF _ reaches_refl]])

text \<open>
  Property C27. Ownership is durable before a create and lasts through the observed removal: in every
  state that any order of events can bring a batch to, each sandbox that stands at the vendor belongs
  to an attempt that the journal shows as unresolved, so the next admission of the account finds it.
\<close>

theorem standing_sandboxes_recorded:
  assumes "run_events S E (batch_start E) es = Some s" "(a, ref) \<in> set (bx_standing s)"
  shows "\<exists>u\<in>set (unresolvedJournalAttempts (bx_journal s)). un_attempt u = a"
  by (rule standing_unresolved[OF batch_reachable[OF assms(1)] assms(2)])

text \<open>
  Property C28. A batch never exceeds what its account declares: neither the cells under way nor the
  attempts with a sandbox standing are ever more than the declared sandboxes, also after creates that
  failed ambiguously or were timed out; and the cells are launched in plan order, each once.
\<close>

theorem account_never_exceeded:
  assumes "setup_batch S plan batchId workflowAttempt now admitted = Inr E" "run_events S E (batch_start E) es = Some s"
  shows "\<not> more_than (card (fst ` set (bx_standing s))) (be_declared E) \<and>
    \<not> more_than (length (pending_runs s)) (be_declared E) \<and>
    map ru_cell (bx_runs s) = take (length (bx_runs s)) (be_cells E)"
proof -
  have declared: "\<not> more_than (b_maxConcurrency (be_batch E)) (be_declared E)"
    using assms(1) by (auto simp: setup_batch_def and_then_def split: sum.splits option.splits if_splits)
  have fewer: "\<not> more_than n (be_declared E)" if "n \<le> b_maxConcurrency (be_batch E)" for n
    using declared that by (cases "be_declared E") auto
  note inv = batch_reachable[OF assms(2)]
  show ?thesis using fewer standing_attempts[OF inv] inv by (simp add: batch_inv_def)
qed

text \<open>
  Property C29. The evidence of a settled cell is true: unless it calls the cleanup unresolved, no
  sandbox of the attempt stands, and evidence of a completed attempt has a confirmed cleanup and its
  release in the journal.
\<close>

theorem settled_evidence_true:
  assumes "run_events S E (batch_start E) es = Some s" "ru \<in> set (bx_runs s)" "ru_phase ru = Settled (Inr evidence)"
  shows "at_id evidence = ru_attempt ru \<and> at_cellId evidence = c_id (ru_cell ru) \<and>
    (at_cleanup evidence = UnresolvedCleanup \<or> at_id evidence \<notin> fst ` set (bx_standing s)) \<and>
    (at_outcome evidence \<noteq> CompletedAttempt \<or> at_cleanup evidence = ConfirmedCleanup \<and>
       (\<exists>r\<in>set (bx_journal s). \<exists>ref. ac_attempt r = at_id evidence \<and> ac_body r = Released (Absent ref None)))"
proof -
  have "run_ok s ru" using batch_reachable[OF assms(1)] assms(2) by (simp add: batch_inv_def)
  then have hon: "honest ru (bodies (bx_journal s) (ru_attempt ru)) (standing_refs s (ru_attempt ru)) evidence"
    using assms(3) by (simp add: run_ok_def)
  have "at_id evidence \<notin> fst ` set (bx_standing s)" if "at_cleanup evidence \<noteq> UnresolvedCleanup"
    using hon that by (force simp: honest_def quiet_def standing_refs_def)
  moreover have "\<exists>r\<in>set (bx_journal s). \<exists>ref. ac_attempt r = at_id evidence \<and> ac_body r = Released (Absent ref None)"
    if completed: "at_outcome evidence = CompletedAttempt"
  proof -
    obtain ref where "Released (Absent ref None) \<in> bodies (bx_journal s) (ru_attempt ru)" using hon completed by (auto simp: honest_def)
    then obtain r where "r \<in> set (bx_journal s)" "ac_attempt r = ru_attempt ru" "ac_body r = Released (Absent ref None)"
      by (auto simp: bodies_def)
    then show ?thesis using hon by (auto simp: honest_def)
  qed
  ultimately show ?thesis using hon by (auto simp: honest_def)
qed

text \<open>
  Property C30. What a batch leaves in the journal can be recovered: an attempt of it that has records is
  released, or is an allocation whose sandbox the recovery can remove, or is an open create; it is
  never contradictory and never lacks its provenance, whichever appends failed.
\<close>

theorem batch_journal_recoverable:
  assumes "run_events S E (batch_start E) es = Some s" "ru \<in> set (bx_runs s)" "ru_attempt ru \<in> ac_attempt ` set (bx_journal s)"
  shows "classify_attempt (records_of (bx_journal s) (ru_attempt ru)) \<in>
    {Inr None, Inl (UnresolvedCreate (ru_attempt ru))} \<union> {Inr (Some (own_record E ru Intent, ref)) | ref. True}"
  unfolding attempt_classified[OF batch_reachable[OF assms(1)] assms(2,3)] by (auto split: option.splits)

text \<open>
  Property C31. Every batch ends: whatever the operations answer, the code takes at most ten steps per
  cell, and a state in which it can take no further step has launched every cell and settled it.
\<close>

theorem batch_ends:
  assumes "run_events S E (batch_start E) es = Some s" "0 < b_maxConcurrency (be_batch E)"
  shows "length (filter internal es) \<le> 10 * length (be_cells E) \<and>
    ((\<exists>e. internal e \<and> handle S E s e \<noteq> None) \<or>
     length (bx_runs s) = length (be_cells E) \<and> (\<forall>ru\<in>set (bx_runs s). run_settled ru))"
proof -
  have "remaining_work E (batch_start E) = 10 * length (be_cells E)" by (simp add: remaining_work_def batch_start_def)
  then have "length (filter internal es) \<le> 10 * length (be_cells E)" using run_events_work[OF assms(1)] by simp
  moreover have "length (bx_runs s) \<le> length (be_cells E)" using batch_reachable[OF assms(1)] by (simp add: batch_inv_def)
  ultimately show ?thesis using idle_finished[OF _ assms(2), of S] by blast
qed

section \<open>An example\<close>

text \<open>The first batch of the two-cell plan, with one driver admitted and an empty journal.\<close>

definition batch_plan :: experiment_plan where
  "batch_plan = example_plan\<lparr>p_sha := ''e''\<rparr>"

definition batch_services_example :: batch_services where
  "batch_services_example = services.extend example_services \<lparr>runDigest = \<lambda>_. [], artifactDigest = \<lambda>_. ''a'', cellDigest = \<lambda>_. [],
     attemptDigest = \<lambda>_. [], attemptsDigest = \<lambda>_. [], recordsDigest = \<lambda>_. [], receiptDigest = \<lambda>_. [], repairDigest = \<lambda>_. [],
     metricOf = \<lambda>_. None, workloadDigest = \<lambda>_. ''w'', accountOf = \<lambda>_. ''q'', describeFailure = \<lambda>_. ''failed''\<rparr>"

definition batch_admission :: admission where
  "batch_admission = \<lparr>ad_failure = None, ad_drivers = [(''p'', example_driver)], ad_history = [], ad_journal = []\<rparr>"

definition batch_env_example :: batch_env where
  "batch_env_example = \<lparr>be_plan = batch_plan, be_batch = example_batch ''b0'' ''c0'', be_cells = [example_cell ''c0'' ''memory''],
     be_declared = Fin 1, be_deadline = 3900000, be_admission = batch_admission, be_workflowAttempt = 1\<rparr>"

lemma batch_plan_accepted: "verifyExperimentPlan example_services batch_plan = Inr batch_plan"
proof -
  have "plan_schema (plan_body.truncate batch_plan)"
    by (simp add: batch_plan_def plan_schema_def example_defs plan_body.defs cell_schema_def batch_schema_def capacity_schema_def
        target_schema_def safe_minutes_def max_safe_def)
  moreover have "verify_request example_services (plan_body.truncate batch_plan) = Inr ()"
    by (simp add: batch_plan_def verify_request_def example_defs plan_body.defs example_date logical_replicate_def example_numeral
        cell_eligible_def excluded_metric_def)
  moreover have "verify_schedule (plan_body.truncate batch_plan) = Inr ()"
    by (simp add: batch_plan_def verify_schedule_def verify_batch_def verify_round_def no_batches_def no_rounds_def example_defs plan_body.defs
        find_account_def find_cell_def cell_eligible_def excluded_metric_def List.map_filter_def suite_wave_def example_waves
        single_wave.simps insertion_order_def batch_fits_def gpu_demand_def gpu_limit_def max_member_budget_def cell_budget_def
        BENCH_JOB_CEILING_MINUTES_def Let_def)
  ultimately show ?thesis
    by (simp add: verifyExperimentPlan_def Let_def) (simp add: batch_plan_def example_defs plan_body.defs cohort_evidence_def)
qed

lemma batch_setup: "setup_batch batch_services_example batch_plan ''b0'' 1 0 batch_admission = Inr batch_env_example"
proof -
  have "services.truncate batch_services_example = example_services"
    by (simp add: batch_services_example_def example_services_def services.defs)
  moreover have fields: "p_cells batch_plan = [example_cell ''c1'' ''disk'', example_cell ''c0'' ''memory'']"
    "p_batches batch_plan = [example_batch ''b0'' ''c0'', example_batch ''b1'' ''c1'']"
    "p_accounts batch_plan = p_accounts example_plan" by (simp_all add: batch_plan_def example_plan_def)
  moreover have "c_id (example_cell i w) = i" "b_id (example_batch i c) = i" "b_quotaDomain (example_batch i c) = ''q''"
    "b_cells (example_batch i c) = [c]" "b_maxConcurrency (example_batch i c) = 1" "b_budgetMinutes (example_batch i c) = 65" for i w c
    by (simp_all add: example_cell_def example_batch_def)
  moreover have "accountOf batch_services_example = (\<lambda>_. ''q'')" by (simp add: batch_services_example_def services.defs)
  moreover have "find (\<lambda>a. acc_quotaDomain a = ''q'') (p_accounts example_plan) = Some (hd (p_accounts example_plan))"
    "cap_sandboxes (acc_capacity (hd (p_accounts example_plan))) = Fin 1" by (simp_all add: example_plan_def)
  ultimately show ?thesis
    by (simp add: setup_batch_def batch_plan_accepted and_then_def batch_env_example_def)
qed

definition batch_attempt :: string where
  "batch_attempt = ''c0-a1-u''"

lemma batch_attempt_id: "attempt_id batch_env_example (example_cell ''c0'' ''memory'') ''u'' = batch_attempt"
proof -
  have "nat_string 1 = ''1''" by code_simp
  then show ?thesis by (simp add: attempt_id_def batch_env_example_def example_cell_def batch_attempt_def)
qed

definition open_events :: "batch_event list" where
  "open_events = [Launched ''u'' 0 0, IntentAppended 0 Stored, CreateCalled 0 False 1, SandboxAppears 0 journal_sandbox,
     CreateReturned 0 journal_sandbox True, AllocationAppended 0 Stored]"

definition open_run :: cell_run where
  "open_run = (fresh_run batch_env_example (example_cell ''c0'' ''memory'') ''u'' 0)\<lparr>ru_phase := Replicating, ru_createStarted := True,
     ru_allocated := Some journal_sandbox, ru_retained := Some journal_sandbox, ru_allocationRecorded := True,
     ru_create := Returned journal_sandbox\<rparr>"

definition open_state :: batch_run where
  "open_state = \<lparr>bx_runs = [open_run], bx_refill = None,
     bx_journal = [own_record batch_env_example open_run Intent, own_record batch_env_example open_run (Allocated journal_sandbox)],
     bx_late = [], bx_standing = [(batch_attempt, journal_sandbox)]\<rparr>"

lemma batch_begins: "begin_failure batch_services_example batch_env_example (batch_start batch_env_example) (example_cell ''c0'' ''memory'') 300000 0 = None"
proof -
  have suite: "map_of SUITES ''memory'' \<noteq> None" by (simp add: SUITES_def)
  then obtain suite where "map_of SUITES ''memory'' = Some suite" by blast
  then show ?thesis
    by (simp add: begin_failure_def batch_env_example_def batch_start_def batch_admission_def example_cell_def inputs_differ_def
        batch_services_example_def services.defs batch_plan_def example_plan_def example_services_def)
qed

lemma batch_example_facts:
  "be_cells batch_env_example = [example_cell ''c0'' ''memory'']" "b_maxConcurrency (be_batch batch_env_example) = 1"
  "be_deadline batch_env_example = 3900000"
  "cellStartupDeadline (example_cell ''c0'' ''memory'') 0 3900000 = 300000"
  by (simp_all add: batch_env_example_def example_batch_def cellStartupDeadline_def example_cell_def)

lemma open_run_reached: "run_events batch_services_example batch_env_example (batch_start batch_env_example) open_events = Some open_state"
proof -
  have fresh: "fresh_attempt (batch_start batch_env_example) batch_attempt"
    by (simp add: fresh_attempt_def batch_start_def batch_env_example_def batch_admission_def)
  have launched: "handle batch_services_example batch_env_example (batch_start batch_env_example) (Launched ''u'' 0 0) =
      Some \<lparr>bx_runs = [fresh_run batch_env_example (example_cell ''c0'' ''memory'') ''u'' 0], bx_refill = None, bx_journal = [],
        bx_late = [], bx_standing = []\<rparr>"
    using fresh batch_begins by (simp add: guarded_def can_launch_def batch_example_facts batch_attempt_id launch_next_def Let_def
        batch_start_def pending_runs_def fresh_run_def) (simp add: batch_env_example_def batch_admission_def)
  show ?thesis
    unfolding open_events_def run_events.simps launched option.case
    by (simp add: at_run_def guarded_def intent_appended_def put_run_def create_called_def create_returned_def allocation_appended_def
        refs_of_def open_state_def open_run_def fresh_run_def own_record_def batch_attempt_id batch_example_facts)
qed

theorem standing_sandboxes_recorded_witness:
  "\<exists>u\<in>set (unresolvedJournalAttempts (bx_journal open_state)). un_attempt u = batch_attempt"
  using standing_sandboxes_recorded[OF open_run_reached, of batch_attempt journal_sandbox] by (simp add: open_state_def)

theorem account_never_exceeded_witness: "\<not> more_than (card (fst ` set (bx_standing open_state))) (be_declared batch_env_example)"
  using account_never_exceeded[OF batch_setup open_run_reached] by (rule conjunct1)

theorem batch_journal_recoverable_witness:
  "classify_attempt (records_of (bx_journal open_state) (ru_attempt open_run)) \<noteq> Inl ContradictoryRelease"
  using batch_journal_recoverable[OF open_run_reached, of open_run] by (auto simp: open_state_def)

theorem batch_ends_witness: "length (filter internal open_events) \<le> 10"
  using batch_ends[OF open_run_reached] by (simp add: batch_example_facts)

text \<open>The same cell to its end: the sandbox is gone, the release is recorded, the evidence uploaded.\<close>

definition clean_end :: replicate_end where
  "clean_end = \<lparr>re_failed = None, re_runDigest = Some ''d'',
     re_receipts = Inr (None, Some \<lparr>cl_executionId = ''x'', cl_completed = True, cl_confirmedAbsent = True\<rparr>), re_rawDigest = ''r''\<rparr>"

definition closing_events :: "batch_event list" where
  "closing_events = [SandboxVanishes batch_attempt journal_sandbox, ReplicateEnded 0 clean_end, ReleaseAppended 0 Stored, EvidenceUploaded 0 (Inr ())]"

definition closed_run :: cell_run where
  "closed_run = open_run\<lparr>ru_runDigest := Some ''d'', ru_rawDigest := ''r'', ru_cleanup := ConfirmedCleanup\<rparr>"

definition closed_evidence :: experiment_attempt where
  "closed_evidence = attempt_evidence batch_services_example batch_env_example
     (closed_run\<lparr>ru_phase := AppendingRelease (Absent journal_sandbox None)\<rparr>)"

definition closed_state :: batch_run where
  "closed_state = open_state\<lparr>bx_runs := [closed_run\<lparr>ru_phase := Settled (Inr closed_evidence)\<rparr>],
     bx_journal := bx_journal open_state @ [own_record batch_env_example open_run (Released (Absent journal_sandbox None))], bx_standing := []\<rparr>"

lemma run_events_append:
  "run_events S E s (es @ es') = (case run_events S E s es of None \<Rightarrow> None | Some t \<Rightarrow> run_events S E t es')"
  by (induction es arbitrary: s) (auto split: option.splits)

lemma closed_run_reached:
  "run_events batch_services_example batch_env_example (batch_start batch_env_example) (open_events @ closing_events) = Some closed_state"
proof -
  have run: "ru_phase open_run = Replicating" "ru_create open_run = Returned journal_sandbox" "ru_attempt open_run = batch_attempt"
    "ru_allocationRecorded open_run" "ru_allocated open_run = Some journal_sandbox" "ru_failure open_run = None"
    "ru_execution open_run = None" "\<not> ru_journalFailed open_run" "ru_createStarted open_run"
    by (simp_all add: open_run_def fresh_run_def batch_attempt_id)
  have vanished: "handle batch_services_example batch_env_example open_state (SandboxVanishes batch_attempt journal_sandbox) =
      Some (open_state\<lparr>bx_standing := []\<rparr>)" by (simp add: open_state_def)
  have same: "open_run\<lparr>ru_runDigest := Some ''d'', ru_rawDigest := ''r'', ru_failure := None, ru_execution := None, ru_cleanup := ConfirmedCleanup\<rparr> = closed_run"
    by (simp add: closed_run_def open_run_def fresh_run_def)
  let ?mid = "open_state\<lparr>bx_standing := []\<rparr>"
  let ?ru = "open_run\<lparr>ru_runDigest := Some ''d'', ru_rawDigest := ''r'', ru_failure := None, ru_execution := None\<rparr>"
  let ?receipt = "\<lparr>cl_executionId = ''x'', cl_completed = True, cl_confirmedAbsent = True\<rparr> :: cleanup_receipt"
  have mid: "bx_runs ?mid = [open_run]" "refs_of ?mid batch_attempt = []" by (simp_all add: open_state_def refs_of_def)
  have "close_run batch_services_example batch_env_example ?mid 0 (Some ?receipt) ?ru =
      put_run ?mid 0 (?ru\<lparr>ru_cleanup := ConfirmedCleanup, ru_phase := AppendingRelease (Absent journal_sandbox None)\<rparr>)"
    by (simp add: close_run_def Let_def cleanup_of_def run)
  then have closed: "close_run batch_services_example batch_env_example ?mid 0 (Some ?receipt) ?ru =
      put_run ?mid 0 (closed_run\<lparr>ru_phase := AppendingRelease (Absent journal_sandbox None)\<rparr>)" unfolding same .
  have "replicate_ended batch_services_example batch_env_example ?mid 0 clean_end open_run =
      close_run batch_services_example batch_env_example ?mid 0 (Some ?receipt) ?ru"
    using run(6) by (simp add: replicate_ended_def clean_end_def)
  then have ended: "handle batch_services_example batch_env_example ?mid (ReplicateEnded 0 clean_end) =
      Some (open_state\<lparr>bx_standing := [], bx_runs := [closed_run\<lparr>ru_phase := AppendingRelease (Absent journal_sandbox None)\<rparr>]\<rparr>)"
    using closed mid run(1-3) by (simp add: at_run_def guarded_def put_run_def)
  have own: "own_record batch_env_example (closed_run\<lparr>ru_phase := p\<rparr>) = own_record batch_env_example open_run" for p
    by (rule own_record_same) (simp add: closed_run_def)
  have released: "handle batch_services_example batch_env_example
      (open_state\<lparr>bx_standing := [], bx_runs := [closed_run\<lparr>ru_phase := AppendingRelease (Absent journal_sandbox None)\<rparr>]\<rparr>) (ReleaseAppended 0 Stored) =
      Some (closed_state\<lparr>bx_runs := [closed_run\<lparr>ru_phase := Uploading closed_evidence\<rparr>]\<rparr>)"
    by (simp add: at_run_def guarded_def release_appended_def conclude_def own closed_state_def open_state_def closed_evidence_def put_run_def Let_def)
      (simp add: closed_run_def run)
  have "run_events batch_services_example batch_env_example open_state closing_events = Some closed_state"
    unfolding closing_events_def run_events.simps vanished ended released option.case
    by (simp add: at_run_def put_run_def uploaded_def and_then_def closed_state_def)
  then show ?thesis by (simp add: run_events_append open_run_reached)
qed

theorem settled_evidence_true_witness:
  "at_id closed_evidence = batch_attempt \<and> batch_attempt \<notin> fst ` set (bx_standing closed_state) \<and> at_outcome closed_evidence = CompletedAttempt"
proof -
  have "closed_run\<lparr>ru_phase := Settled (Inr closed_evidence)\<rparr> \<in> set (bx_runs closed_state)" by (simp add: closed_state_def)
  note true = settled_evidence_true[OF closed_run_reached this, of closed_evidence]
  have "ru_phase (closed_run\<lparr>ru_phase := Settled (Inr closed_evidence)\<rparr>) = Settled (Inr closed_evidence)"
    "ru_attempt (closed_run\<lparr>ru_phase := Settled (Inr closed_evidence)\<rparr>) = ru_attempt open_run" by (simp_all add: closed_run_def)
  then have true: "at_id closed_evidence = ru_attempt open_run"
    "at_cleanup closed_evidence = UnresolvedCleanup \<or> at_id closed_evidence \<notin> fst ` set (bx_standing closed_state)"
    using true by metis+
  have "ru_attempt open_run = batch_attempt" by (simp add: open_run_def batch_attempt_id)
  moreover have "at_cleanup closed_evidence = ConfirmedCleanup" "at_outcome closed_evidence = CompletedAttempt"
    by (simp_all add: closed_evidence_def attempt_evidence_def Let_def closed_run_def open_run_def fresh_run_def)
  ultimately show ?thesis using true by simp
qed

end
