(* ===== verification/Waits.thy ===== *)
theory Waits
  imports RunModel Texts
begin

text \<open>
  Awaiting what a sandbox answers: the replies of the outside world, the clock they advance, a wait
  that is cut off by a timer (\<open>withTimeout\<close> of \<open>packages/harness/src/lib/execute.ts\<close>), and the
  readiness loop (\<open>packages/harness/src/lib/readiness.ts\<close>).
\<close>

section \<open>Replies\<close>

text \<open>
  What an awaited call does: it settles after some milliseconds, it rejects, or it never settles. Of a
  rejection the callers read the message (\<open>reasonOf\<close>) and the classification of a \<open>GapError\<close>
  (\<open>packages/harness/src/lib/gap-cause.ts\<close>), which an error of a vendor does not have.
\<close>

record thrown =
  th_reason :: string
  th_cause :: "gap_cause option"

datatype 'a reply = Settles real 'a | Throws real thrown | Hangs

definition gapCauseOf :: "thrown \<Rightarrow> gap_cause option" where
  "gapCauseOf e = th_cause e"

text \<open>\<open>call.then(f)\<close> for a function that does not throw.\<close>

fun map_reply :: "('a \<Rightarrow> 'b) \<Rightarrow> 'a reply \<Rightarrow> 'b reply" where
  "map_reply f (Settles d v) = Settles d (f v)"
| "map_reply f (Throws d e) = Throws d e"
| "map_reply f Hangs = Hangs"

lemma map_reply_Hangs [simp]: "map_reply f r = Hangs \<longleftrightarrow> r = Hangs"
  by (cases r) simp_all

section \<open>The clock\<close>

text \<open>
  The monotonic clock, and the number of waits so far, which names the next one: the outside world
  answers the \<open>n\<close>-th wait, and two calls of one operation can be answered differently. Code between
  two waits takes no time.
\<close>

record clocked =
  now_ms :: real
  waits :: nat

definition elapse :: "real \<Rightarrow> 's clocked_scheme \<Rightarrow> 's clocked_scheme" where
  "elapse d s = s\<lparr>now_ms := now_ms s + max 0 d, waits := Suc (waits s)\<rparr>"

lemma elapse_simps [simp]:
  "now_ms (elapse d s) = now_ms s + max 0 d" "waits (elapse d s) = Suc (waits s)"
  "clocked.more (elapse d s) = clocked.more s"
  by (simp_all add: elapse_def)

text \<open>A wait without a bound does not return when the call hangs.\<close>

definition await :: "'a reply \<Rightarrow> 's clocked_scheme \<Rightarrow> ((thrown + 'a) \<times> 's clocked_scheme) option" where
  "await r s =
     (case r of
        Settles d v \<Rightarrow> Some (Inr v, elapse d s)
      | Throws d e \<Rightarrow> Some (Inl e, elapse d s)
      | Hangs \<Rightarrow> None)"

text \<open>
  \<open>withTimeout\<close>: whichever of the call and the timer comes first. A timer fires at its time or later;
  \<open>late n\<close> is how much later the timer of the \<open>n\<close>-th wait fires.
\<close>

definition timer_limit :: "(nat \<Rightarrow> real) \<Rightarrow> real \<Rightarrow> 's clocked_scheme \<Rightarrow> real" where
  "timer_limit late bound s = max 0 bound + max 0 (late (waits s))"

definition withTimeout ::
  "(nat \<Rightarrow> real) \<Rightarrow> 'a reply \<Rightarrow> real \<Rightarrow> thrown \<Rightarrow> 's clocked_scheme \<Rightarrow> (thrown + 'a) \<times> 's clocked_scheme" where
  "withTimeout late r bound failure s =
     (let limit = timer_limit late bound s
      in case r of
           Settles d v \<Rightarrow> if d \<le> limit then (Inr v, elapse d s) else (Inl failure, elapse limit s)
         | Throws d e \<Rightarrow> if d \<le> limit then (Inl e, elapse d s) else (Inl failure, elapse limit s)
         | Hangs \<Rightarrow> (Inl failure, elapse limit s))"

definition delay_ms :: "(nat \<Rightarrow> real) \<Rightarrow> real \<Rightarrow> 's clocked_scheme \<Rightarrow> 's clocked_scheme" where
  "delay_ms late d s = elapse (timer_limit late d s) s"

lemma await_clock:
  assumes "await r s = Some (v, t)"
  shows "now_ms s \<le> now_ms t" "waits t = Suc (waits s)" "clocked.more t = clocked.more s"
  using assms by (auto simp: await_def split: reply.splits)

lemma await_None_iff: "await r s = None \<longleftrightarrow> r = Hangs"
  by (simp add: await_def split: reply.splits)

lemma withTimeout_clock:
  assumes "withTimeout late r bound failure s = (v, t)"
  shows "now_ms s \<le> now_ms t" "now_ms t \<le> now_ms s + timer_limit late bound s"
    "waits t = Suc (waits s)" "clocked.more t = clocked.more s"
  using assms
  by (auto simp: withTimeout_def Let_def timer_limit_def split: reply.splits if_splits)

lemma delay_ms_clock:
  shows "now_ms (delay_ms late d s) = now_ms s + timer_limit late d s"
    and "waits (delay_ms late d s) = Suc (waits s)"
    and "clocked.more (delay_ms late d s) = clocked.more s"
  by (simp_all add: delay_ms_def timer_limit_def)

text \<open>A reply that came in time is the call's own.\<close>

lemma withTimeout_Inr:
  "withTimeout late r bound failure s = (Inr v, t) \<Longrightarrow> \<exists>d. r = Settles d v"
  by (auto simp: withTimeout_def Let_def split: reply.splits if_splits)

lemma withTimeout_Inl:
  "withTimeout late r bound failure s = (Inl e, t) \<Longrightarrow> e = failure \<or> (\<exists>d. r = Throws d e)"
  by (auto simp: withTimeout_def Let_def split: reply.splits if_splits)

section \<open>How a command ends\<close>

text \<open>The exit of a command (\<open>packages/driver/src/lib/port.ts\<close>).\<close>

datatype exit_status = Exited int | Signalled string | UnknownExit string

definition succeeded :: "exit_status \<Rightarrow> bool" where
  "succeeded e \<longleftrightarrow> e = Exited 0"

section \<open>Readiness\<close>

record readiness_options =
  ro_maxAttempts :: "jsnum option"
  ro_retryDelayMs :: "jsnum option"
  ro_probeTimeoutMs :: "jsnum option"

text \<open>A bound of the caller: \<open>NaN\<close> and the infinities fall back to the default.\<close>

definition finiteOr :: "jsnum option \<Rightarrow> int \<Rightarrow> int \<Rightarrow> int" where
  "finiteOr value fallback lo =
     (case (case value of None \<Rightarrow> Fin (of_int fallback) | Some x \<Rightarrow> x) of
        Fin r \<Rightarrow> max lo \<lfloor>r\<rfloor>
      | _ \<Rightarrow> fallback)"

definition READINESS_CMD :: string where
  "READINESS_CMD = ''echo ok''"

definition neverReadyReason :: "nat \<Rightarrow> string" where
  \<open>neverReadyReason maxAttempts =
     ''sandbox never ready: no successful "'' @ READINESS_CMD @ ''" in '' @ nat_string maxAttempts @ '' attempts''\<close>

definition probe_timed_out :: thrown where
  "probe_timed_out = \<lparr>th_reason = ''readiness probe timed out'', th_cause = None\<rparr>"

text \<open>The loop, by the attempts that are left; there is no delay after the last one.\<close>

fun readiness_loop ::
  "(nat \<Rightarrow> real) \<Rightarrow> (nat \<Rightarrow> bool reply) \<Rightarrow> real \<Rightarrow> real \<Rightarrow> nat \<Rightarrow> 's clocked_scheme \<Rightarrow> bool \<times> 's clocked_scheme" where
  "readiness_loop late probe probeTimeoutMs retryDelayMs 0 s = (False, s)"
| "readiness_loop late probe probeTimeoutMs retryDelayMs (Suc left) s =
     (case withTimeout late (probe (waits s)) probeTimeoutMs probe_timed_out s of
        (Inr True, t) \<Rightarrow> (True, t)
      | (_, t) \<Rightarrow>
          readiness_loop late probe probeTimeoutMs retryDelayMs left
            (if left = 0 then t else delay_ms late retryDelayMs t))"

definition waitForReadiness ::
  "(nat \<Rightarrow> real) \<Rightarrow> (nat \<Rightarrow> bool reply) \<Rightarrow> readiness_options \<Rightarrow> 's clocked_scheme \<Rightarrow> (bool \<times> nat) \<times> 's clocked_scheme" where
  "waitForReadiness late probe opts s =
     (let maxAttempts = nat (finiteOr (ro_maxAttempts opts) 40 1);
          retryDelayMs = finiteOr (ro_retryDelayMs opts) 250 0;
          probeTimeoutMs = finiteOr (ro_probeTimeoutMs opts) 20000 1
      in case readiness_loop late probe (of_int probeTimeoutMs) (of_int retryDelayMs) maxAttempts s of
           (ready, t) \<Rightarrow> ((ready, maxAttempts), t))"

lemma readiness_retry:
  "withTimeout late (probe (waits s)) pt probe_timed_out s = (v, u) \<Longrightarrow> v \<noteq> Inr True \<Longrightarrow>
   readiness_loop late probe pt dl (Suc n) s =
     readiness_loop late probe pt dl n (if n = 0 then u else delay_ms late dl u)"
  by (auto split: sum.splits bool.splits)

lemma readiness_loop_clock:
  "readiness_loop late probe pt dl n s = (ready, t) \<Longrightarrow>
   now_ms s \<le> now_ms t \<and> waits s \<le> waits t \<and> waits t \<le> waits s + 2 * n \<and> clocked.more t = clocked.more s"
proof (induction n arbitrary: s)
  case (Suc n)
  obtain v u where u: "withTimeout late (probe (waits s)) pt probe_timed_out s = (v, u)" by fastforce
  note uc = withTimeout_clock[OF u]
  show ?case
  proof (cases "v = Inr True")
    case True
    then show ?thesis using Suc.prems uc by (simp add: u)
  next
    case False
    define w where "w = (if n = 0 then u else delay_ms late dl u)"
    have w: "now_ms u \<le> now_ms w" "waits u \<le> waits w" "waits w \<le> Suc (waits u)" "clocked.more w = clocked.more u"
      by (auto simp: w_def delay_ms_clock timer_limit_def)
    have "readiness_loop late probe pt dl n w = (ready, t)"
      using Suc.prems readiness_retry[of late probe s pt v u dl n] u False by (simp add: w_def)
    from Suc.IH[OF this] w uc show ?thesis by auto
  qed
qed simp

text \<open>Ready is what a probe answered; giving up means that no probe answered in time.\<close>

lemma readiness_loop_ready:
  "readiness_loop late probe pt dl n s = (True, t) \<Longrightarrow> \<exists>k d. waits s \<le> k \<and> k < waits t \<and> probe k = Settles d True"
proof (induction n arbitrary: s)
  case (Suc n)
  obtain v u where u: "withTimeout late (probe (waits s)) pt probe_timed_out s = (v, u)" by fastforce
  note uc = withTimeout_clock[OF u]
  show ?case
  proof (cases "v = Inr True")
    case True
    then have "\<exists>d. probe (waits s) = Settles d True" using u by (intro withTimeout_Inr) simp
    moreover have "u = t" using Suc.prems True by (simp add: u)
    ultimately show ?thesis using uc(3) by auto
  next
    case False
    define w where "w = (if n = 0 then u else delay_ms late dl u)"
    have w: "waits s \<le> waits w" by (auto simp: w_def delay_ms_clock uc)
    have "readiness_loop late probe pt dl n w = (True, t)"
      using Suc.prems readiness_retry[of late probe s pt v u dl n] u False by (simp add: w_def)
    from Suc.IH[OF this] w show ?thesis by (meson le_trans)
  qed
qed simp

text \<open>
  What a probe and a pause take, and when a probe answers: in time and successfully. The loop ends at the
  first probe that answers, after all the probes and pauses before it, or tries every one in vain.
\<close>

definition answered :: "(nat \<Rightarrow> real) \<Rightarrow> (nat \<Rightarrow> bool reply) \<Rightarrow> real \<Rightarrow> nat \<Rightarrow> real \<Rightarrow> bool" where
  "answered late probe pt k d \<longleftrightarrow> probe k = Settles d True \<and> d \<le> max 0 pt + max 0 (late k)"

definition probe_takes :: "(nat \<Rightarrow> real) \<Rightarrow> (nat \<Rightarrow> bool reply) \<Rightarrow> real \<Rightarrow> nat \<Rightarrow> real" where
  "probe_takes late probe pt k =
     (let limit = max 0 pt + max 0 (late k)
      in case probe k of
           Settles d b \<Rightarrow> min (max 0 d) limit
         | Throws d e \<Rightarrow> min (max 0 d) limit
         | Hangs \<Rightarrow> limit)"

definition pause_takes :: "(nat \<Rightarrow> real) \<Rightarrow> real \<Rightarrow> nat \<Rightarrow> real" where
  "pause_takes late dl k = max 0 dl + max 0 (late k)"

lemma probe_step:
  assumes "withTimeout late (probe (waits s)) pt failure s = (v, t)"
  shows "now_ms t = now_ms s + probe_takes late probe pt (waits s)"
    "v = Inr True \<longleftrightarrow> (\<exists>d. answered late probe pt (waits s) d)" "waits t = Suc (waits s)"
  using assms
  by (auto simp: withTimeout_def Let_def timer_limit_def probe_takes_def answered_def min_def split: reply.splits if_splits)

lemma answered_takes: "answered late probe pt k d \<Longrightarrow> probe_takes late probe pt k = max 0 d"
  by (auto simp: answered_def probe_takes_def Let_def)

lemma readiness_loop_first:
  "readiness_loop late probe pt dl n s = (ready, t) \<Longrightarrow>
   (if ready
    then \<exists>j<n. (\<exists>a. answered late probe pt (waits s + 2 * j) a) \<and> (\<forall>i<j. \<forall>a. \<not> answered late probe pt (waits s + 2 * i) a) \<and>
      now_ms t = now_ms s + (\<Sum>i<j. probe_takes late probe pt (waits s + 2 * i) + pause_takes late dl (waits s + 2 * i + 1)) +
        probe_takes late probe pt (waits s + 2 * j)
    else \<forall>i<n. \<forall>a. \<not> answered late probe pt (waits s + 2 * i) a)"
proof (induction n arbitrary: s)
  case (Suc n)
  obtain v u where u: "withTimeout late (probe (waits s)) pt probe_timed_out s = (v, u)" by fastforce
  note step = probe_step[of late probe s pt probe_timed_out v u, OF u]
  show ?case
  proof (cases "v = Inr True")
    case True
    then have "ready" "t = u" using Suc.prems by (simp_all add: u)
    then show ?thesis using step True by (simp add: exI[of _ "0::nat"])
  next
    case False
    then have silent: "\<not> answered late probe pt (waits s) a" for a using step(2) by blast
    have rest: "readiness_loop late probe pt dl n (if n = 0 then u else delay_ms late dl u) = (ready, t)"
      using Suc.prems readiness_retry[of late probe s pt v u dl n, OF u False] by simp
    show ?thesis
    proof (cases n)
      case 0
      then show ?thesis using rest silent by simp
    next
      case (Suc m)
      let ?w = "delay_ms late dl u"
      have w: "waits ?w = waits s + 2" "now_ms ?w = now_ms s + probe_takes late probe pt (waits s) + pause_takes late dl (waits s + 1)"
        using step(1,3) by (simp_all add: delay_ms_clock timer_limit_def pause_takes_def)
      have "readiness_loop late probe pt dl n ?w = (ready, t)" using rest Suc by simp
      note IH = Suc.IH[OF this, unfolded w]
      show ?thesis
      proof (cases ready)
        case True
        then obtain j where j: "j < n" "\<exists>a. answered late probe pt (waits s + 2 + 2 * j) a"
          "\<forall>i<j. \<forall>a. \<not> answered late probe pt (waits s + 2 + 2 * i) a"
          "now_ms t = now_ms s + probe_takes late probe pt (waits s) + pause_takes late dl (waits s + 1) +
            (\<Sum>i<j. probe_takes late probe pt (waits s + 2 + 2 * i) + pause_takes late dl (waits s + 2 + 2 * i + 1)) +
            probe_takes late probe pt (waits s + 2 + 2 * j)"
          using IH by auto
        have "\<not> answered late probe pt (waits s + 2 * i) a" if "i < Suc j" for i a
          using that silent j(3) by (cases i) auto
        moreover have "(\<Sum>i<Suc j. probe_takes late probe pt (waits s + 2 * i) + pause_takes late dl (waits s + 2 * i + 1)) =
            probe_takes late probe pt (waits s) + pause_takes late dl (waits s + 1) +
            (\<Sum>i<j. probe_takes late probe pt (waits s + 2 + 2 * i) + pause_takes late dl (waits s + 2 + 2 * i + 1))"
          by (subst sum.lessThan_Suc_shift) simp
        ultimately show ?thesis using True j(1,2,4) by (auto intro!: exI[of _ "Suc j"])
      next
        case False
        have "\<not> answered late probe pt (waits s + 2 * i) a" if "i < Suc n" for i a
          using that silent False IH by (cases i) auto
        then show ?thesis using False by simp
      qed
    qed
  qed
qed simp

lemma readiness_loop_exhausts:
  assumes "\<And>k d. waits s \<le> k \<Longrightarrow> probe k \<noteq> Settles d True"
  shows "\<not> fst (readiness_loop late probe pt dl n s)"
  using assms readiness_loop_ready[of late probe pt dl n s] by (metis eq_fst_iff)

lemma waitForReadiness_attempts:
  "waitForReadiness late probe opts s = ((ready, n), t) \<Longrightarrow>
   n = nat (finiteOr (ro_maxAttempts opts) 40 1) \<and>
   now_ms s \<le> now_ms t \<and> waits s \<le> waits t \<and> waits t \<le> waits s + 2 * n \<and> clocked.more t = clocked.more s"
  by (auto simp: waitForReadiness_def Let_def dest: readiness_loop_clock split: prod.splits)

end
