(* ===== verification/Encodings.thy ===== *)
theory Encodings
  imports PlanModel Texts "HOL-Library.Word"
begin

text \<open>
  The texts that pass between the host and a sandbox: a script quoted as one shell word, the receipt
  a detached command leaves when it ends (\<open>packages/harness/src/lib/completion.ts\<close>), and bytes in
  base64. Each is shown to be read back as what was written.
\<close>

section \<open>Shell words\<close>

definition QUOTE :: char where
  "QUOTE = CHR 0x27"

definition BACKSLASH :: char where
  "BACKSLASH = CHR 0x5C"

text \<open>\<open>shellQuote\<close>: single quotes around the script, and each single quote of it closed, escaped and reopened.\<close>

definition shellQuote :: "string \<Rightarrow> string" where
  "shellQuote script = [QUOTE] @ replace_char QUOTE [QUOTE, BACKSLASH, QUOTE, QUOTE] script @ [QUOTE]"

text \<open>
  How a POSIX shell reads a word of quoted text: inside single quotes every character stands for itself,
  outside a backslash escapes the next character. Other text outside quotes is not a quoted word.
\<close>

fun read_word :: "bool \<Rightarrow> string \<Rightarrow> string option" where
  "read_word True [] = None"
| "read_word True (c # cs) = (if c = QUOTE then read_word False cs else map_option ((#) c) (read_word True cs))"
| "read_word False [] = Some []"
| "read_word False [c] = (if c = QUOTE then read_word True [] else None)"
| "read_word False (c # d # cs) =
     (if c = QUOTE then read_word True (d # cs)
      else if c = BACKSLASH then map_option ((#) d) (read_word False cs)
      else None)"

lemma read_quoted:
  "read_word True (replace_char QUOTE [QUOTE, BACKSLASH, QUOTE, QUOTE] script @ QUOTE # rest) =
     map_option ((@) script) (read_word False rest)"
proof (induction script)
  case Nil
  then show ?case by (simp add: option.map_ident)
next
  case (Cons c script)
  have "BACKSLASH \<noteq> QUOTE" by (simp add: BACKSLASH_def QUOTE_def)
  moreover have "\<exists>d ds. replace_char QUOTE [QUOTE, BACKSLASH, QUOTE, QUOTE] script @ QUOTE # rest = d # ds"
    by (cases "replace_char QUOTE [QUOTE, BACKSLASH, QUOTE, QUOTE] script") auto
  ultimately show ?case
    using Cons.IH by (auto simp: option.map_comp comp_def)
qed

lemma shell_word: "read_word False (shellQuote script) = Some script"
proof -
  obtain d ds where "replace_char QUOTE [QUOTE, BACKSLASH, QUOTE, QUOTE] script @ [QUOTE] = d # ds"
    by (cases "replace_char QUOTE [QUOTE, BACKSLASH, QUOTE, QUOTE] script") auto
  then show ?thesis
    using read_quoted[of script "[]"] by (simp add: shellQuote_def)
qed

section \<open>Completion receipts\<close>

text \<open>The characters of \<open>[a-zA-Z0-9-]\<close> and of \<open>[a-f0-9-]\<close>.\<close>

definition name_char :: "char \<Rightarrow> bool" where
  "name_char c \<longleftrightarrow>
     c \<in> set ''abcdefghijklmnopqrstuvwxyzABCDEFGHIJKLMNOPQRSTUVWXYZ0123456789-''"

definition tag_char :: "char \<Rightarrow> bool" where
  "tag_char c \<longleftrightarrow> c \<in> set ''abcdef0123456789-''"

definition strip_prefix :: "string \<Rightarrow> string \<Rightarrow> string option" where
  "strip_prefix p s = (if take (length p) s = p then Some (drop (length p) s) else None)"

text \<open>The decimal numerals \<open>0|[1-9][0-9]*\<close>.\<close>

definition canonical_digits :: "string \<Rightarrow> bool" where
  "canonical_digits ds \<longleftrightarrow> list_all is_digit ds \<and> (ds = ''0'' \<or> (ds \<noteq> [] \<and> hd ds \<noteq> CHR ''0''))"

text \<open>The regular expression, its groups checked: \<open>v1\<close>, the name, the code, and at most one line end.\<close>

definition completionCode :: "string \<Rightarrow> string \<Rightarrow> nat option" where
  "completionCode raw identity =
     (case strip_prefix ''v1 '' raw of
        None \<Rightarrow> None
      | Some rest \<Rightarrow>
          let name = takeWhile name_char rest;
              line = dropWhile name_char rest;
              digits = takeWhile is_digit (tl line)
          in if name \<noteq> [] \<and> line \<noteq> [] \<and> hd line = CHR '' '' \<and> canonical_digits digits \<and>
                dropWhile is_digit (tl line) \<in> {[], [CHR 0x0A]} \<and> name = identity \<and> string_nat digits \<le> 255
             then Some (string_nat digits)
             else None)"

text \<open>What the shell prints for a command that ended with a code, and the command that does so.\<close>

definition receipt :: "string \<Rightarrow> nat \<Rightarrow> string" where
  "receipt identity code = ''v1 '' @ identity @ '' '' @ nat_string code @ [CHR 0x0A]"

definition directory_of :: "string \<Rightarrow> string" where
  "directory_of identity = ''/tmp/'' @ identity"

definition detachedCommand :: "string \<Rightarrow> string \<Rightarrow> string option" where
  \<open>detachedCommand identity command =
     (if strip_prefix ''bench-'' identity \<noteq> None \<and> drop 6 identity \<noteq> [] \<and> list_all tag_char (drop 6 identity)
      then let directory = directory_of identity; file = directory @ ''/completion.done''
           in Some (''umask 077; mkdir '' @ directory @ '' || exit 1; '' @
                    ''bash -c '' @ shellQuote command @ '' > '' @ directory @ ''/output.log 2>&1 '' @
                    ''&& code=0 || code=$?; printf '' @ [QUOTE] @ ''v1 '' @ identity @ '' %s'' @ [BACKSLASH] @ ''n'' @ [QUOTE] @
                    '' "$code" > '' @ file @ ''.tmp && mv '' @ file @ ''.tmp '' @ file)
      else None)\<close>

lemma takeWhile_stop: "list_all P xs \<Longrightarrow> ys = [] \<or> \<not> P (hd ys) \<Longrightarrow> takeWhile P (xs @ ys) = xs"
  by (induction xs) (cases ys; auto)+

lemma dropWhile_stop: "list_all P xs \<Longrightarrow> ys = [] \<or> \<not> P (hd ys) \<Longrightarrow> dropWhile P (xs @ ys) = ys"
  by (induction xs) (cases ys; auto)+

lemma digit_zero: "digit_char 0 = CHR ''0''"
  by code_simp

lemma digit_texts:
  "digit_char 0 = CHR ''0''" "digit_char (Suc 0) = CHR ''1''" "digit_char 2 = CHR ''2''" "digit_char 3 = CHR ''3''" "digit_char 4 = CHR ''4''"
  "digit_char 5 = CHR ''5''" "digit_char 6 = CHR ''6''" "digit_char 7 = CHR ''7''" "digit_char 8 = CHR ''8''" "digit_char 9 = CHR ''9''"
  by code_simp+

lemma digit_char_facts:
  assumes "d < 10"
  shows "is_digit (digit_char d)" "digit_char d = CHR ''0'' \<longleftrightarrow> d = 0"
proof -
  show "is_digit (digit_char d)" using assms by (simp add: digit_char_def is_digit_def)
  show "digit_char d = CHR ''0'' \<longleftrightarrow> d = 0"
    using assms digit_value_char[of d] digit_value_char[of 0] by (auto simp flip: digit_zero)
qed

lemma digit_char_value: "is_digit c \<Longrightarrow> digit_char (digit_value c) = c"
  by (simp add: is_digit_def digit_char_def digit_value_def)

lemma digit_value_less: "is_digit c \<Longrightarrow> digit_value c < 10"
  unfolding is_digit_def digit_value_def by linarith

lemma string_nat_snoc: "string_nat (ds @ [d]) = 10 * string_nat ds + digit_value d"
  by (simp add: string_nat_def)

lemma canonical_nat_string: "canonical_digits (nat_string n)"
proof -
  have "list_all is_digit (nat_string n) \<and> nat_string n \<noteq> [] \<and> (hd (nat_string n) = CHR ''0'' \<longrightarrow> n = 0)"
  proof (induction n rule: nat_string.induct)
    case (1 n)
    show ?case
    proof (cases "n < 10")
      case True
      then show ?thesis by (subst (1 2 3) nat_string.simps) (simp add: digit_char_facts)
    next
      case False
      then have "n div 10 \<noteq> 0" by simp
      with 1 False show ?thesis by (subst (1 2 3) nat_string.simps) (simp add: digit_char_facts)
    qed
  qed
  moreover have "nat_string 0 = ''0''" by code_simp
  ultimately show ?thesis by (cases "n = 0") (auto simp: canonical_digits_def)
qed

lemma nat_string_canonical: "canonical_digits ds \<Longrightarrow> nat_string (string_nat ds) = ds"
proof (induction ds rule: rev_induct)
  case (snoc d ds)
  have d: "is_digit d" using snoc.prems by (auto simp: canonical_digits_def)
  show ?case
  proof (cases "ds = []")
    case True
    then show ?thesis
      using d digit_value_less[OF d] by (subst nat_string.simps) (simp add: string_nat_def digit_char_value)
  next
    case False
    have hd: "hd ds \<noteq> CHR ''0''" using snoc.prems False by (cases ds) (auto simp: canonical_digits_def)
    then have canon: "canonical_digits ds" using snoc.prems False by (auto simp: canonical_digits_def)
    have "nat_string 0 = ''0''" by code_simp
    then have "string_nat ds \<noteq> 0" using snoc.IH[OF canon] hd by (metis list.sel(1))
    then have big: "\<not> string_nat (ds @ [d]) < 10" by (simp add: string_nat_snoc)
    have "string_nat (ds @ [d]) div 10 = string_nat ds" "string_nat (ds @ [d]) mod 10 = digit_value d"
      using digit_value_less[OF d] by (simp_all add: string_nat_snoc)
    then show ?thesis
      using big snoc.IH[OF canon] d by (subst nat_string.simps) (simp add: digit_char_value)
  qed
qed (simp add: canonical_digits_def)

lemma strip_prefix_Some: "strip_prefix p s = Some r \<longleftrightarrow> s = p @ r"
  by (auto simp: strip_prefix_def) (metis append_take_drop_id)

lemma is_digit_ends: "\<not> is_digit (CHR 0x0A)" "\<not> name_char (CHR '' '')"
  by (simp_all add: is_digit_def name_char_def)

text \<open>A receipt is read exactly from the text of its own command, with or without the line end.\<close>

lemma completionCode_iff:
  "completionCode raw identity = Some code \<longleftrightarrow>
     code \<le> 255 \<and> identity \<noteq> [] \<and> list_all name_char identity \<and>
     (raw = receipt identity code \<or> raw @ [CHR 0x0A] = receipt identity code)"
proof
  assume found: "completionCode raw identity = Some code"
  then obtain rest where strip: "strip_prefix ''v1 '' raw = Some rest"
    by (cases "strip_prefix ''v1 '' raw") (simp_all add: completionCode_def)
  then have rest: "raw = ''v1 '' @ rest" by (simp add: strip_prefix_Some)
  define line where "line = dropWhile name_char rest"
  define digits where "digits = takeWhile is_digit (tl line)"
  have facts: "takeWhile name_char rest = identity" "identity \<noteq> []" "line \<noteq> []" "hd line = CHR '' ''"
    "canonical_digits digits" "dropWhile is_digit (tl line) \<in> {[], [CHR 0x0A]}" "code = string_nat digits" "code \<le> 255"
    using found strip by (auto simp: completionCode_def Let_def line_def digits_def split: if_splits)
  have "rest = identity @ line" using facts(1) by (metis line_def takeWhile_dropWhile_id)
  moreover have "line = CHR '' '' # tl line" using facts(3,4) by (cases line) auto
  moreover have "tl line = digits @ dropWhile is_digit (tl line)" by (simp add: digits_def)
  ultimately have raw: "raw = ''v1 '' @ identity @ '' '' @ nat_string code @ dropWhile is_digit (tl line)"
    using rest facts(5,7) by (metis append_Cons append_Nil append_assoc nat_string_canonical)
  have "list_all name_char identity" using facts(1) by (metis list_all_iff set_takeWhileD)
  then show "code \<le> 255 \<and> identity \<noteq> [] \<and> list_all name_char identity \<and>
      (raw = receipt identity code \<or> raw @ [CHR 0x0A] = receipt identity code)"
    using facts(2,6,8) raw by (auto simp: receipt_def)
next
  assume form: "code \<le> 255 \<and> identity \<noteq> [] \<and> list_all name_char identity \<and>
      (raw = receipt identity code \<or> raw @ [CHR 0x0A] = receipt identity code)"
  then obtain e where e: "raw = ''v1 '' @ identity @ '' '' @ nat_string code @ e" "e \<in> {[], [CHR 0x0A]}"
    by (auto simp: receipt_def)
  have digits: "list_all is_digit (nat_string code)" using canonical_nat_string by (auto simp: canonical_digits_def)
  have strip: "strip_prefix ''v1 '' raw = Some (identity @ '' '' @ nat_string code @ e)"
    by (simp add: strip_prefix_Some e)
  have names: "takeWhile name_char (identity @ '' '' @ nat_string code @ e) = identity"
    "dropWhile name_char (identity @ '' '' @ nat_string code @ e) = '' '' @ nat_string code @ e"
    using form is_digit_ends(2) by (auto intro!: takeWhile_stop dropWhile_stop)
  have codes: "takeWhile is_digit (nat_string code @ e) = nat_string code" "dropWhile is_digit (nat_string code @ e) = e"
    using e(2) digits is_digit_ends(1) by (auto intro!: takeWhile_stop dropWhile_stop)
  show "completionCode raw identity = Some code"
    using form e(2) names codes canonical_nat_string[of code] digits
    by (auto simp: completionCode_def strip Let_def string_nat_string list_all_iff)
qed

text \<open>
  Property C36. A completion receipt is read exactly: a code is accepted from a text just when the text is
  what the shell prints for that very command identity and a code up to 255, with or without the final
  line end. Nothing truncated, extended, padded with zeros or of another identity is taken for a receipt.
\<close>

theorem completion_receipt_exact:
  "completionCode raw identity = Some code \<longleftrightarrow>
     code \<le> 255 \<and> identity \<noteq> [] \<and> list_all name_char identity \<and>
     (raw = receipt identity code \<or> raw @ [CHR 0x0A] = receipt identity code)"
  by (rule completionCode_iff)

section \<open>Base64\<close>

text \<open>The alphabet, with the values of its characters.\<close>

definition BASE64 :: string where
  "BASE64 = ''ABCDEFGHIJKLMNOPQRSTUVWXYZabcdefghijklmnopqrstuvwxyz0123456789+/''"

definition sextet_char :: "nat \<Rightarrow> char" where
  "sextet_char n = BASE64 ! n"

fun index_in :: "char \<Rightarrow> string \<Rightarrow> nat option" where
  "index_in c [] = None"
| "index_in c (x # xs) = (if x = c then Some 0 else map_option Suc (index_in c xs))"

definition sextet :: "char \<Rightarrow> nat option" where
  "sextet c = index_in c BASE64"

text \<open>What the guest's \<open>base64\<close> prints, without line ends.\<close>

fun to_base64 :: "8 word list \<Rightarrow> string" where
  "to_base64 [] = []"
| "to_base64 [a] =
     [sextet_char (unat a div 4), sextet_char (unat a mod 4 * 16), CHR ''='', CHR ''='']"
| "to_base64 [a, b] =
     [sextet_char (unat a div 4), sextet_char (unat a mod 4 * 16 + unat b div 16),
      sextet_char (unat b mod 16 * 4), CHR ''='']"
| "to_base64 (a # b # c # rest) =
     [sextet_char (unat a div 4), sextet_char (unat a mod 4 * 16 + unat b div 16),
      sextet_char (unat b mod 16 * 4 + unat c div 64), sextet_char (unat c mod 64)] @ to_base64 rest"

text \<open>
  \<open>Uint8Array.fromBase64\<close> with its default options: ASCII white space is skipped, and the last group may
  lack its padding; any other text throws.
\<close>

definition ascii_space :: "char \<Rightarrow> bool" where
  "ascii_space c \<longleftrightarrow> c \<in> {CHR 0x09, CHR 0x0A, CHR 0x0C, CHR 0x0D, CHR 0x20}"

definition first_byte :: "nat \<Rightarrow> nat \<Rightarrow> 8 word" where
  "first_byte s t = of_nat (s * 4 + t div 16)"

definition second_byte :: "nat \<Rightarrow> nat \<Rightarrow> 8 word" where
  "second_byte t u = of_nat (t mod 16 * 16 + u div 4)"

definition third_byte :: "nat \<Rightarrow> nat \<Rightarrow> 8 word" where
  "third_byte u v = of_nat (u mod 4 * 64 + v)"

fun decode_last :: "string \<Rightarrow> 8 word list option" where
  "decode_last [] = Some []"
| "decode_last [p, q] =
     (case (sextet p, sextet q) of (Some s, Some t) \<Rightarrow> Some [first_byte s t] | _ \<Rightarrow> None)"
| "decode_last [p, q, r] =
     (case (sextet p, sextet q, sextet r) of
        (Some s, Some t, Some u) \<Rightarrow> Some [first_byte s t, second_byte t u]
      | _ \<Rightarrow> None)"
| "decode_last _ = None"

fun decode_groups :: "string \<Rightarrow> 8 word list option" where
  "decode_groups (p # q # r # x # rest) =
     (case (sextet p, sextet q, sextet r, sextet x) of
        (Some s, Some t, Some u, Some v) \<Rightarrow>
          map_option (\<lambda>bs. first_byte s t # second_byte t u # third_byte u v # bs) (decode_groups rest)
      | (Some s, Some t, Some u, None) \<Rightarrow> if x = CHR ''='' \<and> rest = [] then decode_last [p, q, r] else None
      | (Some s, Some t, None, None) \<Rightarrow> if r = CHR ''='' \<and> x = CHR ''='' \<and> rest = [] then decode_last [p, q] else None
      | _ \<Rightarrow> None)"
| "decode_groups cs = decode_last cs"

definition fromBase64 :: "string \<Rightarrow> 8 word list option" where
  "fromBase64 s = decode_groups (filter (\<lambda>c. \<not> ascii_space c) s)"

lemma sextet_of_char: "n < 64 \<Longrightarrow> sextet (sextet_char n) = Some n"
proof -
  have "\<forall>n\<in>{..<64}. sextet (sextet_char n) = Some n" by code_simp
  then show "n < 64 \<Longrightarrow> sextet (sextet_char n) = Some n" by blast
qed

lemma sextet_padding: "sextet (CHR ''='') = None"
  by code_simp

lemma byte_parts:
  fixes b :: "8 word"
  shows "unat b div 4 < 64" "unat b div 16 < 16" "unat b div 64 < 4"
proof -
  have "unat b < 256" by (rule order_less_le_trans[OF unsigned_less]) simp
  then show "unat b div 4 < 64" "unat b div 16 < 16" "unat b div 64 < 4"
    by (simp_all add: less_mult_imp_div_less)
qed

lemma split_16: "(k::nat) < 16 \<Longrightarrow> (m * 16 + k) div 16 = m" "k < 16 \<Longrightarrow> (m * 16 + k) mod 16 = k"
  by simp_all

lemma split_4: "(k::nat) < 4 \<Longrightarrow> (m * 4 + k) div 4 = m" "k < 4 \<Longrightarrow> (m * 4 + k) mod 4 = k"
  by simp_all

lemma sextets_less:
  fixes a b c :: "8 word"
  shows "unat a div 4 < 64" "unat a mod 4 * 16 < 64" "unat a mod 4 * 16 + unat b div 16 < 64"
    "unat b mod 16 * 4 < 64" "unat b mod 16 * 4 + unat c div 64 < 64" "unat c mod 64 < 64"
proof -
  have "unat a mod 4 < 4" "unat b mod 16 < 16" by simp_all
  with byte_parts[of a] byte_parts[of b] byte_parts[of c]
  show "unat a div 4 < 64" "unat a mod 4 * 16 < 64" "unat a mod 4 * 16 + unat b div 16 < 64"
    "unat b mod 16 * 4 < 64" "unat b mod 16 * 4 + unat c div 64 < 64" "unat c mod 64 < 64"
    by (linarith | simp)+
qed

lemma bytes_back:
  fixes a b c :: "8 word"
  shows "first_byte (unat a div 4) (unat a mod 4 * 16 + unat b div 16) = a"
    "first_byte (unat a div 4) (unat a mod 4 * 16) = a"
    "second_byte (unat a mod 4 * 16 + unat b div 16) (unat b mod 16 * 4 + unat c div 64) = b"
    "second_byte (unat a mod 4 * 16 + unat b div 16) (unat b mod 16 * 4) = b"
    "third_byte (unat b mod 16 * 4 + unat c div 64) (unat c mod 64) = c"
proof -
  have zero: "(unat a mod 4 * 16) div 16 = unat a mod 4" "(unat b mod 16 * 4) div 4 = unat b mod 16" by simp_all
  note parts = split_16[OF byte_parts(2)[of b]] split_4[OF byte_parts(3)[of c]] zero div_mult_mod_eq
  show "first_byte (unat a div 4) (unat a mod 4 * 16 + unat b div 16) = a"
    "first_byte (unat a div 4) (unat a mod 4 * 16) = a"
    "second_byte (unat a mod 4 * 16 + unat b div 16) (unat b mod 16 * 4 + unat c div 64) = b"
    "second_byte (unat a mod 4 * 16 + unat b div 16) (unat b mod 16 * 4) = b"
    "third_byte (unat b mod 16 * 4 + unat c div 64) (unat c mod 64) = c"
    unfolding first_byte_def second_byte_def third_byte_def parts by (simp_all add: word_of_nat_eq_iff)
qed

lemma decode_groups_back: "decode_groups (to_base64 bs) = Some bs"
  by (induction bs rule: to_base64.induct)
    (simp_all add: sextet_of_char sextets_less sextet_padding bytes_back)

text \<open>What holds of the alphabet and of the padding holds of every character printed.\<close>

lemma base64_letters:
  assumes "\<forall>n\<in>{..<64}. P (sextet_char n)" "P (CHR ''='')" "c \<in> set (to_base64 bs)"
  shows "P c"
proof -
  have letter: "n < 64 \<Longrightarrow> P (sextet_char n)" for n using assms(1) by blast
  show ?thesis
    using assms(3) by (induction bs rule: to_base64.induct) (auto simp: letter sextets_less assms(2))
qed

lemma length_to_base64: "length (to_base64 bs) = 4 * ((length bs + 2) div 3)"
proof (induction bs rule: to_base64.induct)
  case (4 a b c rest)
  have "(5 + length rest) div 3 = Suc ((length rest + 2) div 3)" by presburger
  with 4 show ?case by simp
qed auto

lemma fromBase64_back: "fromBase64 (to_base64 bs) = Some bs"
proof -
  have "\<forall>n\<in>{..<64}. \<not> ascii_space (sextet_char n)" "\<not> ascii_space (CHR ''='')" by code_simp+
  then have "\<forall>c\<in>set (to_base64 bs). \<not> ascii_space c" by (blast dest: base64_letters[of "\<lambda>c. \<not> ascii_space c"])
  then show ?thesis by (simp add: fromBase64_def decode_groups_back)
qed

end
