(* ===== verification/Steps.thy ===== *)
theory Steps
  imports Waits Encodings
begin

text \<open>
  The execution of a suite step in a sandbox (\<open>packages/harness/src/lib/execute.ts\<close>): the choice of the
  transport, a direct exec under a timeout, and the detached transport, which launches the step, polls
  for its completion receipt, reads its log back and recovers what it can when the time is up. Every wait
  has a timer, so every function here is total; what the sandbox answers to the \<open>n\<close>-th wait is a
  parameter. Of the messages of an error the part before the first dash or parenthesis is kept. What holds
  of the runner is in \<open>StepSafety\<close>.
\<close>

section \<open>Transports\<close>

record provider_transport =
  pt_syncCapMs :: "real option"
  pt_detachedPoll :: bool

datatype transport_kind = Sync | Detached

definition selectTransport :: "provider_transport \<Rightarrow> real \<Rightarrow> transport_kind" where
  "selectTransport transport timeoutMs =
     (if (case pt_syncCapMs transport of None \<Rightarrow> False | Some cap \<Rightarrow> cap \<le> timeoutMs) \<and> pt_detachedPoll transport
      then Detached else Sync)"

text \<open>The routing rule of a driver (\<open>packages/driver/src/lib/policy.ts\<close>): the synchronous cap, if any.\<close>

datatype execution_route = SyncRoute | DurableRoute

definition selectExecutionRoute :: "real option \<Rightarrow> real \<Rightarrow> execution_route" where
  "selectExecutionRoute syncCapMs stepBudgetMs =
     (case syncCapMs of None \<Rightarrow> SyncRoute | Some cap \<Rightarrow> if cap \<le> stepBudgetMs then DurableRoute else SyncRoute)"

text \<open>A runner is the legacy one over a ComputeSDK sandbox, or one over a driver session.\<close>

datatype runner = StepRunner provider_transport | SessionStepRunner "real option"

fun runs_detached :: "runner \<Rightarrow> real \<Rightarrow> bool" where
  "runs_detached (StepRunner transport) timeoutMs = (selectTransport transport timeoutMs = Detached)"
| "runs_detached (SessionStepRunner cap) timeoutMs = (selectExecutionRoute cap timeoutMs = DurableRoute)"

record step_result =
  sr_exit :: exit_status
  sr_stdout :: "string option"

fun exit_code :: "exit_status \<Rightarrow> int option" where
  "exit_code (Exited c) = Some c"
| "exit_code _ = None"

text \<open>The result of a detached step, whose code is absent when its receipt was not readable.\<close>

fun completed_result :: "runner \<Rightarrow> nat option \<Rightarrow> string \<Rightarrow> step_result" where
  "completed_result (StepRunner t) code out =
     \<lparr>sr_exit = Exited (case code of None \<Rightarrow> 1 | Some c \<Rightarrow> int c), sr_stdout = Some out\<rparr>"
| "completed_result (SessionStepRunner cap) code out =
     \<lparr>sr_exit = (case code of None \<Rightarrow> UnknownExit ''invalid detached completion status'' | Some c \<Rightarrow> Exited (int c)),
      sr_stdout = Some out\<rparr>"

section \<open>The sandbox and the state of a runner\<close>

record sandbox_api =
  sb_late :: "nat \<Rightarrow> real"
  sb_execute :: "nat \<Rightarrow> string \<Rightarrow> step_result reply"
  sb_launch :: "nat \<Rightarrow> string \<Rightarrow> unit reply"
  sb_exists :: "nat \<Rightarrow> string \<Rightarrow> bool reply"
  sb_readFile :: "nat \<Rightarrow> string \<Rightarrow> string reply"

datatype phase = CreatePhase | SetupPhase | BenchmarkPhase | CollectPhase

record step_entry =
  sl_phase :: phase
  sl_label :: string
  sl_ms :: real
  sl_exitCode :: "int option"
  sl_allowFailure :: bool

datatype evidence_state =
    LaunchPending
  | LaunchAccepted
  | RunningState
  | ObservationUnavailable
  | CompletedState
  | DeadlineExceeded
  | CollectionFailed

record detached_evidence =
  de_identity :: string
  de_label :: string
  de_phase :: phase
  de_allowFailure :: bool
  de_state :: evidence_state
  de_exitCode :: "nat option"
  de_lastObservationMs :: "real option"
  de_logTail :: "string option"

text \<open>
  \<open>ru_pollFs\<close>: whether the file system is still used. The evidence of the step that is running is
  the last one; \<open>ru_captured\<close> is its flag \<open>timeoutEvidenceCaptured\<close>.
\<close>

record runner_state = clocked +
  ru_pollFs :: bool
  ru_stepLog :: "step_entry list"
  ru_evidence :: "detached_evidence list"
  ru_captured :: bool

text \<open>What does not change while a runner works, with the texts that are opaque here.\<close>

record runner_env =
  re_runner :: runner
  re_phase :: phase
  re_phaseDeadline :: "real option"
  re_preamble :: string
  re_redact :: "string \<Rightarrow> string"
  re_decodeText :: "8 word list \<Rightarrow> string"

text \<open>An error is a plain or classified one, or the one that says a completed step's log was lost.\<close>

datatype step_error = Failure thrown | LogReadbackError string

definition plain :: "string \<Rightarrow> step_error" where
  "plain message = Failure \<lparr>th_reason = message, th_cause = None\<rparr>"

fun reason_of :: "step_error \<Rightarrow> string" where
  "reason_of (Failure e) = th_reason e"
| "reason_of (LogReadbackError m) = m"

definition timeout_seconds :: "real \<Rightarrow> nat" where
  "timeout_seconds timeoutMs = nat (max 1 \<lfloor>timeoutMs / 1000 + 1 / 2\<rfloor>)"

definition stepTimeout :: "string \<Rightarrow> real \<Rightarrow> thrown" where
  \<open>stepTimeout label timeoutMs =
     \<lparr>th_reason = ''Step "'' @ label @ ''" timed out after '' @ nat_string (timeout_seconds timeoutMs) @ ''s'',
      th_cause = Some (StepTimeout label (real (timeout_seconds timeoutMs)))\<rparr>\<close>

fun is_step_timeout :: "step_error \<Rightarrow> bool" where
  "is_step_timeout (Failure e) = (case th_cause e of Some (StepTimeout l s) \<Rightarrow> True | _ \<Rightarrow> False)"
| "is_step_timeout (LogReadbackError m) = False"

text \<open>\<open>/not supported by .*sandbox environment/i\<close>, where the dot is no line terminator.\<close>

fun within_line :: "string \<Rightarrow> string \<Rightarrow> bool" where
  "within_line p [] = (p = [])"
| "within_line p (c # cs) =
     (take (length p) (c # cs) = p \<or> (c \<notin> {CHR 0x0A, CHR 0x0D} \<and> within_line p cs))"

fun unsupported_text :: "string \<Rightarrow> bool" where
  "unsupported_text [] = False"
| "unsupported_text (c # cs) =
     ((case strip_prefix ''not supported by '' (c # cs) of
         None \<Rightarrow> False
       | Some rest \<Rightarrow> within_line ''sandbox environment'' rest) \<or>
      unsupported_text cs)"

definition isUnsupportedFilesystem :: "step_error \<Rightarrow> bool" where
  "isUnsupportedFilesystem e \<longleftrightarrow> unsupported_text (toLowerCase (reason_of e))"

section \<open>Budgets\<close>

definition POLL_CAP_MS :: real where
  "POLL_CAP_MS = 10000"

text \<open>A deadline of \<open>None\<close> is \<open>Infinity\<close>.\<close>

definition observationBudget :: "real option \<Rightarrow> 's clocked_scheme \<Rightarrow> step_error + real" where
  "observationBudget deadline s =
     (case deadline of
        None \<Rightarrow> Inr POLL_CAP_MS
      | Some due \<Rightarrow>
          if due - now_ms s \<le> 0 then Inl (plain ''step observation deadline exceeded'')
          else Inr (min POLL_CAP_MS (due - now_ms s)))"

text \<open>A call under a timer; its errors become step errors.\<close>

definition limited ::
  "sandbox_api \<Rightarrow> 'a reply \<Rightarrow> real \<Rightarrow> thrown \<Rightarrow> 's clocked_scheme \<Rightarrow> (step_error + 'a) \<times> 's clocked_scheme" where
  "limited api r bound failure s =
     (case withTimeout (sb_late api) r bound failure s of
        (Inl e, t) \<Rightarrow> (Inl (Failure e), t)
      | (Inr v, t) \<Rightarrow> (Inr v, t))"

definition observed ::
  "sandbox_api \<Rightarrow> 'a reply \<Rightarrow> real option \<Rightarrow> string \<Rightarrow> 's clocked_scheme \<Rightarrow> (step_error + 'a) \<times> 's clocked_scheme" where
  "observed api r deadline message s =
     (case observationBudget deadline s of
        Inl e \<Rightarrow> (Inl e, s)
      | Inr budget \<Rightarrow> limited api r budget \<lparr>th_reason = message, th_cause = None\<rparr> s)"

text \<open>
  A composite of several waits under one timer. When the timer comes first, the composite is abandoned;
  what its calls do later is not modelled, and their waits are counted.
\<close>

definition cut_off ::
  "sandbox_api \<Rightarrow> real \<Rightarrow> thrown \<Rightarrow> (runner_state \<Rightarrow> (step_error + 'a) \<times> runner_state) \<Rightarrow> runner_state \<Rightarrow>
   (step_error + 'a) \<times> runner_state" where
  "cut_off api bound failure m s =
     (case m s of
        (r, t) \<Rightarrow>
          let limit = timer_limit (sb_late api) bound s
          in if now_ms t \<le> now_ms s + limit then (r, t)
             else (Inl (Failure failure), s\<lparr>now_ms := now_ms s + limit, waits := waits t\<rparr>))"

definition bash :: "string \<Rightarrow> string" where
  "bash script = ''bash -c '' @ shellQuote script"

section \<open>Polling for completion\<close>

datatype poll = StillRunning | Finished "nat option"

definition RUNNING_SENTINEL :: string where
  "RUNNING_SENTINEL = ''__RUNNING__''"

definition log_path :: "string \<Rightarrow> string" where
  "log_path tag = ''/tmp/'' @ tag @ ''/output.log''"

definition done_path :: "string \<Rightarrow> string" where
  "done_path tag = ''/tmp/'' @ tag @ ''/completion.done''"

text \<open>\<open>donePath.split("/")[2] ?? ""\<close>.\<close>

definition path_identity :: "string \<Rightarrow> string" where
  "path_identity path = (case split_on (CHR ''/'') path of _ # _ # i # _ \<Rightarrow> i | _ \<Rightarrow> [])"

definition pollDoneViaFs ::
  "sandbox_api \<Rightarrow> string \<Rightarrow> real \<Rightarrow> runner_state \<Rightarrow> (step_error + poll) \<times> runner_state" where
  "pollDoneViaFs api path deadline s =
     (case observed api (sb_exists api (waits s) path) (Some deadline) ''done-file fs exists'' s of
        (Inl e, t) \<Rightarrow> (Inl e, t)
      | (Inr False, t) \<Rightarrow> (Inr StillRunning, t)
      | (Inr True, t) \<Rightarrow>
          (case observed api (sb_readFile api (waits t) path) (Some deadline) ''done-file fs read'' t of
             (Inl e, u) \<Rightarrow> (Inl e, u)
           | (Inr raw, u) \<Rightarrow>
               (Inr (if raw = [] then StillRunning else Finished (completionCode raw (path_identity path))), u)))"

definition poll_command :: "string \<Rightarrow> string" where
  "poll_command path = bash (''cat '' @ path @ '' 2>/dev/null || echo '' @ RUNNING_SENTINEL)"

definition pollDoneViaCat ::
  "sandbox_api \<Rightarrow> string \<Rightarrow> real \<Rightarrow> runner_state \<Rightarrow> (step_error + poll) \<times> runner_state" where
  "pollDoneViaCat api path deadline s =
     (case observed api (sb_execute api (waits s) (poll_command path)) (Some deadline) ''done-file cat poll'' s of
        (Inl e, t) \<Rightarrow> (Inl e, t)
      | (Inr probe, t) \<Rightarrow>
          if exit_code (sr_exit probe) \<noteq> Some 0
          then (Inl (plain ''done-file cat poll returned a failure: sandbox not responding''), t)
          else let out = (case sr_stdout probe of None \<Rightarrow> [] | Some o' \<Rightarrow> o')
               in (Inr (if out = [] \<or> js_trim out = RUNNING_SENTINEL then StillRunning
                        else Finished (completionCode out (path_identity path))), t))"

text \<open>The file system is given up for good when it proves not to be supported.\<close>

definition pollDoneOnce ::
  "sandbox_api \<Rightarrow> string \<Rightarrow> real \<Rightarrow> runner_state \<Rightarrow> (step_error + poll) \<times> runner_state" where
  "pollDoneOnce api path deadline s =
     (if \<not> ru_pollFs s then pollDoneViaCat api path deadline s
      else case pollDoneViaFs api path deadline s of
             (Inl e, t) \<Rightarrow>
               if isUnsupportedFilesystem e then pollDoneViaCat api path deadline (t\<lparr>ru_pollFs := False\<rparr>)
               else (Inl e, t)
           | r \<Rightarrow> r)"

section \<open>Reading the log\<close>

definition EXEC_LOG_READ_CHUNK_BYTES :: nat where
  "EXEC_LOG_READ_CHUNK_BYTES = 192 * 1024"

text \<open>\<open>Number.parseInt(text, 10)\<close>: white space, a sign, and the digits that follow.\<close>

definition parse_digits :: "string \<Rightarrow> int option" where
  "parse_digits s = (let ds = takeWhile is_digit s in if ds = [] then None else Some (int (string_nat ds)))"

definition parseInt :: "string \<Rightarrow> int option" where
  "parseInt s =
     (case dropWhile js_space s of
        [] \<Rightarrow> None
      | c # cs \<Rightarrow>
          if c = CHR ''-'' then map_option uminus (parse_digits cs)
          else if c = CHR ''+'' then parse_digits cs
          else parse_digits (c # cs))"

text \<open>
  The stdout of a successful exec within its budget, and \<open>None\<close> for every failure; \<open>absent\<close> stands for a
  stdout that is \<open>undefined\<close>.
\<close>

definition stdout_or_null ::
  "sandbox_api \<Rightarrow> string \<Rightarrow> string option \<Rightarrow> real option \<Rightarrow> string \<Rightarrow> runner_state \<Rightarrow> string option \<times> runner_state" where
  "stdout_or_null api command absent deadline message s =
     (case observed api (sb_execute api (waits s) command) deadline message s of
        (Inl e, t) \<Rightarrow> (None, t)
      | (Inr res, t) \<Rightarrow>
          (if exit_code (sr_exit res) = Some 0
           then (case sr_stdout res of None \<Rightarrow> absent | Some out \<Rightarrow> Some out) else None, t))"

definition cat_command :: "string \<Rightarrow> string" where
  "cat_command path = bash (''cat '' @ path @ '' 2>/dev/null'')"

definition catLogOnce :: "sandbox_api \<Rightarrow> string \<Rightarrow> real option \<Rightarrow> runner_state \<Rightarrow> string option \<times> runner_state" where
  "catLogOnce api path deadline =
     stdout_or_null api (cat_command path) (Some []) deadline ''log cat read''"

definition size_command :: "string \<Rightarrow> string" where
  "size_command path = bash (''wc -c < '' @ path @ '' 2>/dev/null | tr -d '' @ [QUOTE] @ ''[:space:]'' @ [QUOTE])"

definition chunk_command :: "string \<Rightarrow> nat \<Rightarrow> nat \<Rightarrow> string" where
  "chunk_command path offset amount =
     bash (''dd if='' @ path @ '' iflag=skip_bytes,count_bytes skip='' @ nat_string offset @ '' count='' @ nat_string amount @
           '' bs=65536 2>/dev/null | base64 | tr -d '' @ [QUOTE, BACKSLASH] @ ''n'' @ [QUOTE])"

text \<open>The slices of a large log, each in base64, until \<open>len\<close> bytes are read.\<close>

function chunk_loop ::
  "sandbox_api \<Rightarrow> string \<Rightarrow> real option \<Rightarrow> nat \<Rightarrow> nat \<Rightarrow> 8 word list \<Rightarrow> runner_state \<Rightarrow> 8 word list option \<times> runner_state" where
  "chunk_loop api path deadline len offset parts s =
     (if offset < len
      then let amount = min EXEC_LOG_READ_CHUNK_BYTES (len - offset)
           in case stdout_or_null api (chunk_command path offset amount) None deadline ''log chunk read'' s of
                (None, t) \<Rightarrow> (None, t)
              | (Some encoded, t) \<Rightarrow>
                  (case fromBase64 (js_trim encoded) of
                     None \<Rightarrow> (None, t)
                   | Some bytes \<Rightarrow>
                       if length bytes \<noteq> amount then (None, t)
                       else chunk_loop api path deadline len (offset + EXEC_LOG_READ_CHUNK_BYTES) (parts @ bytes) t)
      else (Some parts, s))"
  by pat_completeness auto
termination
  by (relation "measure (\<lambda>(api, path, deadline, len, offset, parts, s). len - offset)")
    (auto simp: EXEC_LOG_READ_CHUNK_BYTES_def)

declare chunk_loop.simps [simp del]

definition catLogOrNull ::
  "sandbox_api \<Rightarrow> runner_env \<Rightarrow> string \<Rightarrow> real option \<Rightarrow> runner_state \<Rightarrow> string option \<times> runner_state" where
  "catLogOrNull api env path deadline s =
     (case observationBudget deadline s of
        Inl e \<Rightarrow> (None, s)
      | Inr _ \<Rightarrow>
          (case stdout_or_null api (size_command path) (Some []) deadline ''log size probe'' s of
             (sizeText, t) \<Rightarrow>
               (case Option.bind sizeText (\<lambda>text. parseInt (js_trim text)) of
                  None \<Rightarrow> catLogOnce api path deadline t
                | Some len \<Rightarrow>
                    if len < 0 then catLogOnce api path deadline t
                    else if len = 0 then (Some [], t)
                    else if nat len \<le> EXEC_LOG_READ_CHUNK_BYTES then catLogOnce api path deadline t
                    else case chunk_loop api path deadline (nat len) 0 [] t of
                           (bytes, u) \<Rightarrow> (map_option (re_decodeText env) bytes, u))))"

text \<open>The last lines of a log, or \<open>None\<close> when it cannot be read.\<close>

definition trim_end :: "string \<Rightarrow> string" where
  "trim_end s = rev (dropWhile js_space (rev s))"

definition last_n :: "nat \<Rightarrow> 'a list \<Rightarrow> 'a list" where
  "last_n n xs = drop (length xs - n) xs"

definition readLogTail :: "sandbox_api \<Rightarrow> runner_env \<Rightarrow> string \<Rightarrow> runner_state \<Rightarrow> string option \<times> runner_state" where
  "readLogTail api env path s =
     (case (if ru_pollFs s
            then (case limited api (sb_readFile api (waits s) path) POLL_CAP_MS
                         \<lparr>th_reason = ''log fs read'', th_cause = None\<rparr> s of
                    (Inl e, t) \<Rightarrow> (None, t)
                  | (Inr text, t) \<Rightarrow> (Some text, t))
            else catLogOrNull api env path None s) of
        (text, t) \<Rightarrow>
          (map_option (\<lambda>x. join_with [CHR 0x0A] (last_n 50 (split_on (CHR 0x0A) (trim_end x)))) text, t))"

text \<open>The retries of a completed step's log: \<open>Inr None\<close> when every attempt failed.\<close>

definition readback_once ::
  "sandbox_api \<Rightarrow> runner_env \<Rightarrow> string \<Rightarrow> real \<Rightarrow> runner_state \<Rightarrow> string option \<times> runner_state" where
  "readback_once api env path deadline s =
     (if ru_pollFs s
      then (case observed api (sb_readFile api (waits s) path) (Some deadline) ''log fs read'' s of
              (Inl e, t) \<Rightarrow> (None, t)
            | (Inr text, t) \<Rightarrow> (Some text, t))
      else catLogOrNull api env path (Some deadline) s)"

fun readback_loop ::
  "sandbox_api \<Rightarrow> runner_env \<Rightarrow> string \<Rightarrow> real \<Rightarrow> nat \<Rightarrow> runner_state \<Rightarrow> (step_error + string option) \<times> runner_state" where
  "readback_loop api env path deadline 0 s = (Inr None, s)"
| "readback_loop api env path deadline (Suc left) s =
     (case observationBudget (Some deadline) s of
        Inl e \<Rightarrow> (Inl e, s)
      | Inr _ \<Rightarrow>
          (case readback_once api env path deadline s of
             (Some text, t) \<Rightarrow> (Inr (Some text), t)
           | (None, t) \<Rightarrow>
               if left = 0 then (Inr None, t)
               else case observationBudget (Some deadline) t of
                      Inl e \<Rightarrow> (Inl e, t)
                    | Inr budget \<Rightarrow>
                        readback_loop api env path deadline left (delay_ms (sb_late api) (min 2000 budget) t)))"

definition readback_lost :: "string \<Rightarrow> step_error" where
  \<open>readback_lost label =
     LogReadbackError (''Step "'' @ label @ ''" completed but its log could not be read back (transport failure)'')\<close>

definition readCompletedLog ::
  "sandbox_api \<Rightarrow> runner_env \<Rightarrow> string \<Rightarrow> string \<Rightarrow> real \<Rightarrow> runner_state \<Rightarrow> (step_error + string) \<times> runner_state" where
  "readCompletedLog api env path label deadline s =
     (case readback_loop api env path deadline 5 s of
        (Inl e, t) \<Rightarrow> (Inl e, t)
      | (Inr (Some text), t) \<Rightarrow> (Inr text, t)
      | (Inr None, t) \<Rightarrow>
          if ru_pollFs t
          then (case catLogOrNull api env path (Some deadline) t of
                  (Some text, u) \<Rightarrow> (Inr text, u)
                | (None, u) \<Rightarrow> (Inl (readback_lost label), u))
          else (Inl (readback_lost label), t))"

section \<open>Bookkeeping of a step\<close>

definition js_round :: "real \<Rightarrow> real" where
  "js_round x = of_int \<lfloor>x + 1 / 2\<rfloor>"

definition recordStep ::
  "runner_env \<Rightarrow> string \<Rightarrow> real \<Rightarrow> int option \<Rightarrow> bool \<Rightarrow> runner_state \<Rightarrow> runner_state" where
  "recordStep env label ms code allowFailure s =
     s\<lparr>ru_stepLog := ru_stepLog s @
        [\<lparr>sl_phase = re_phase env, sl_label = label, sl_ms = ms, sl_exitCode = code, sl_allowFailure = allowFailure\<rparr>]\<rparr>"

definition update_evidence :: "(detached_evidence \<Rightarrow> detached_evidence) \<Rightarrow> runner_state \<Rightarrow> runner_state" where
  "update_evidence f s = s\<lparr>ru_evidence := butlast (ru_evidence s) @ [f (last (ru_evidence s))]\<rparr>"

definition int_string :: "int \<Rightarrow> string" where
  "int_string i = (if i < 0 then CHR ''-'' # nat_string (nat (- i)) else nat_string (nat i))"

fun describe_exit :: "exit_status \<Rightarrow> string" where
  "describe_exit (Exited c) = int_string c"
| "describe_exit (Signalled sig) = ''signal '' @ sig"
| "describe_exit (UnknownExit detail) = ''unknown ('' @ detail @ '')''"

definition step_failed_with :: "string \<Rightarrow> exit_status \<Rightarrow> step_error" where
  \<open>step_failed_with label e =
     (case exit_code e of
        None \<Rightarrow> plain (''Step "'' @ label @ ''" failed: '' @ describe_exit e)
      | Some c \<Rightarrow>
          Failure \<lparr>th_reason = ''Step "'' @ label @ ''" failed with exit code '' @ describe_exit e,
                   th_cause = Some (StepFailed label (Some c))\<rparr>)\<close>

definition finishStep ::
  "runner_env \<Rightarrow> string \<Rightarrow> real \<Rightarrow> step_result \<Rightarrow> bool \<Rightarrow> runner_state \<Rightarrow> (step_error + step_result) \<times> runner_state" where
  "finishStep env label started res allowFailure s =
     (let t = recordStep env label (js_round (now_ms s - started)) (exit_code (sr_exit res)) allowFailure s
      in if exit_code (sr_exit res) \<noteq> Some 0 \<and> \<not> allowFailure then (Inl (step_failed_with label (sr_exit res)), t)
         else (Inr res, t))"

definition boundedTimeout :: "runner_env \<Rightarrow> real \<Rightarrow> runner_state \<Rightarrow> step_error + real" where
  "boundedTimeout env timeoutMs s =
     (case re_phaseDeadline env of
        None \<Rightarrow> Inr timeoutMs
      | Some due \<Rightarrow>
          if due - now_ms s \<le> 0 then Inl (plain ''phase deadline exceeded'')
          else Inr (min timeoutMs (due - now_ms s)))"

section \<open>A synchronous step\<close>

definition run_sync ::
  "sandbox_api \<Rightarrow> runner_env \<Rightarrow> string \<Rightarrow> string \<Rightarrow> real \<Rightarrow> bool \<Rightarrow> runner_state \<Rightarrow> (step_error + step_result) \<times> runner_state" where
  "run_sync api env label script timeoutMs allowFailure s =
     (case boundedTimeout env timeoutMs s of
        Inl e \<Rightarrow> (Inl e, s)
      | Inr limit \<Rightarrow>
          (case limited api (sb_execute api (waits s) (bash (re_preamble env @ ''; '' @ script))) limit
                  (stepTimeout label limit) s of
             (Inl e, t) \<Rightarrow> (Inl e, recordStep env label (now_ms t - now_ms s) None allowFailure t)
           | (Inr res, t) \<Rightarrow> finishStep env label (now_ms s) res allowFailure t))"

section \<open>A detached step\<close>

text \<open>What one run of a detached step keeps in its closures.\<close>

record detached_job =
  ds_tag :: string
  ds_label :: string
  ds_allowFailure :: bool
  ds_timeoutMs :: real
  ds_started :: real
  ds_logCount :: nat

definition ds_deadline :: "detached_job \<Rightarrow> real" where
  "ds_deadline d = ds_started d + ds_timeoutMs d"

definition remaining_ms :: "detached_job \<Rightarrow> 's clocked_scheme \<Rightarrow> real" where
  "remaining_ms d s = max 1 (ds_deadline d - now_ms s)"

definition ds_timeout :: "detached_job \<Rightarrow> thrown" where
  "ds_timeout d = stepTimeout (ds_label d) (ds_timeoutMs d)"

definition removeDetachedFiles :: "sandbox_api \<Rightarrow> string \<Rightarrow> runner_state \<Rightarrow> runner_state" where
  "removeDetachedFiles api tag s =
     snd (limited api
       (sb_execute api (waits s) (bash (''rm -f '' @ log_path tag @ '' '' @ done_path tag @ ''; rmdir '' @ directory_of tag)))
       POLL_CAP_MS \<lparr>th_reason = ''detached file cleanup'', th_cause = None\<rparr> s)"

text \<open>\<open>recoverTimeoutEvidence\<close>: once, the tail of the log and then the end of the job.\<close>

definition recoverTimeoutEvidence :: "sandbox_api \<Rightarrow> runner_env \<Rightarrow> detached_job \<Rightarrow> runner_state \<Rightarrow> runner_state" where
  "recoverTimeoutEvidence api env d s =
     (if ru_captured s then s
      else let s1 = update_evidence (\<lambda>e. e\<lparr>de_state := DeadlineExceeded\<rparr>) (s\<lparr>ru_captured := True\<rparr>)
           in case readLogTail api env (log_path (ds_tag d)) s1 of
                (rawTail, t) \<Rightarrow>
                  let t1 = update_evidence (\<lambda>e. e\<lparr>de_logTail := map_option (\<lambda>x. last_n 8192 (re_redact env x)) rawTail\<rparr>) t
                  in snd (limited api (sb_execute api (waits t1) (''pkill -f '' @ shellQuote (ds_tag d) @ '' || true''))
                            POLL_CAP_MS \<lparr>th_reason = ''stop timed-out step'', th_cause = None\<rparr> t1))"

text \<open>Once the completion was seen: the log is read back, the step recorded, the files removed.\<close>

definition finish_detached ::
  "sandbox_api \<Rightarrow> runner_env \<Rightarrow> detached_job \<Rightarrow> nat option \<Rightarrow> runner_state \<Rightarrow> (step_error + step_result) \<times> runner_state" where
  "finish_detached api env d code s =
     (case cut_off api (remaining_ms d s) (ds_timeout d)
             (readCompletedLog api env (log_path (ds_tag d)) (ds_label d) (ds_deadline d)) s of
        (Inl e, t) \<Rightarrow>
          (Inl e, removeDetachedFiles api (ds_tag d) (update_evidence (\<lambda>v. v\<lparr>de_state := CollectionFailed\<rparr>) t))
      | (Inr text, t) \<Rightarrow>
          (case finishStep env (ds_label d) (ds_started d) (completed_result (re_runner env) code text) (ds_allowFailure d) t of
             (r, u) \<Rightarrow> (r, removeDetachedFiles api (ds_tag d) u)))"

definition POLL_START_MS :: real where
  "POLL_START_MS = 1500"

text \<open>The delay after the \<open>k\<close>-th poll, which grows by half up to the cap.\<close>

fun poll_delay :: "nat \<Rightarrow> real" where
  "poll_delay 0 = POLL_START_MS"
| "poll_delay (Suc k) = min (poll_delay k * 3 / 2) POLL_CAP_MS"

definition MAX_CONSECUTIVE_POLL_FAILURES :: nat where
  "MAX_CONSECUTIVE_POLL_FAILURES = 12"

definition sandbox_lost :: "string \<Rightarrow> nat \<Rightarrow> step_error" where
  \<open>sandbox_lost label failures =
     Failure \<lparr>th_reason = ''Step "'' @ label @ ''" lost its sandbox: '' @ nat_string failures @ '' consecutive detached polls failed'',
              th_cause = Some (SandboxLost label (Some failures))\<rparr>\<close>

definition poll_once ::
  "sandbox_api \<Rightarrow> detached_job \<Rightarrow> runner_state \<Rightarrow> (step_error + poll) \<times> runner_state" where
  "poll_once api d s =
     cut_off api (remaining_ms d s) (ds_timeout d) (pollDoneOnce api (done_path (ds_tag d)) (ds_deadline d)) s"

text \<open>What a poll that answered writes into the evidence.\<close>

definition note_poll :: "detached_job \<Rightarrow> poll \<Rightarrow> runner_state \<Rightarrow> runner_state" where
  "note_poll d p s =
     update_evidence
       (\<lambda>e. e\<lparr>de_lastObservationMs := Some (js_round (now_ms s - ds_started d)),
              de_state := (case p of StillRunning \<Rightarrow> RunningState
                                   | Finished None \<Rightarrow> ObservationUnavailable
                                   | Finished (Some c) \<Rightarrow> CompletedState),
              de_exitCode := (case p of StillRunning \<Rightarrow> None | Finished c \<Rightarrow> c)\<rparr>) s"

lemma poll_delay_bounds: "POLL_START_MS \<le> poll_delay k \<and> poll_delay k \<le> POLL_CAP_MS"
  by (induction k) (auto simp: POLL_START_MS_def POLL_CAP_MS_def)

text \<open>Waits only move the clock forward, and touch nothing else of the runner.\<close>

lemma limited_clock:
  assumes "limited api r bound failure s = (v, t)"
  shows "now_ms s \<le> now_ms t" "now_ms t \<le> now_ms s + timer_limit (sb_late api) bound s"
    "waits t = Suc (waits s)" "clocked.more t = clocked.more s"
  using assms withTimeout_clock[of "sb_late api" r bound failure s]
  by (auto simp: limited_def split: prod.splits sum.splits)

lemma observed_clock:
  assumes "observed api r deadline message s = (v, t)"
  shows "now_ms s \<le> now_ms t" "waits s \<le> waits t" "clocked.more t = clocked.more s"
  using assms limited_clock[of api r _ _ s]
  by (auto simp: observed_def split: sum.splits)

lemma runner_more:
  assumes "clocked.more t = clocked.more s"
  shows "ru_pollFs t = ru_pollFs s" "ru_stepLog t = ru_stepLog s" "ru_evidence t = ru_evidence s"
    "ru_captured t = ru_captured s"
  using assms by (cases s; cases t; simp)+

lemma pollDoneViaFs_clock:
  assumes "pollDoneViaFs api path deadline s = (v, t)"
  shows "now_ms s \<le> now_ms t \<and> clocked.more t = clocked.more s"
proof -
  obtain a u where u: "observed api (sb_exists api (waits s) path) (Some deadline) ''done-file fs exists'' s = (a, u)"
    by fastforce
  obtain b w where w: "observed api (sb_readFile api (waits u) path) (Some deadline) ''done-file fs read'' u = (b, w)"
    by fastforce
  show ?thesis
    using assms observed_clock[OF u] observed_clock[OF w]
    by (cases a; cases b) (auto simp: pollDoneViaFs_def u w split: bool.splits if_splits)
qed

lemma pollDoneViaCat_clock:
  assumes "pollDoneViaCat api path deadline s = (v, t)"
  shows "now_ms s \<le> now_ms t \<and> clocked.more t = clocked.more s"
proof -
  obtain a u where u: "observed api (sb_execute api (waits s) (poll_command path)) (Some deadline) ''done-file cat poll'' s =
      (a, u)" by fastforce
  show ?thesis
    using assms observed_clock[OF u] by (cases a) (auto simp: pollDoneViaCat_def u Let_def split: if_splits)
qed

text \<open>Of the runner, a poll can change only whether the file system is used, and that only to giving it up.\<close>

definition same_books :: "runner_state \<Rightarrow> runner_state \<Rightarrow> bool" where
  "same_books s t \<longleftrightarrow>
     ru_stepLog t = ru_stepLog s \<and> ru_evidence t = ru_evidence s \<and> ru_captured t = ru_captured s \<and>
     (ru_pollFs t \<longrightarrow> ru_pollFs s)"

lemma same_books_more: "clocked.more t = clocked.more s \<Longrightarrow> same_books s t"
  using runner_more[of t s] by (simp add: same_books_def)

lemma same_books_trans: "same_books s t \<Longrightarrow> same_books t u \<Longrightarrow> same_books s u"
  by (simp add: same_books_def)

lemma pollDoneOnce_clock:
  assumes "pollDoneOnce api path deadline s = (v, t)"
  shows "now_ms s \<le> now_ms t \<and> same_books s t"
proof (cases "ru_pollFs s")
  case False
  then show ?thesis
    using assms pollDoneViaCat_clock[of api path deadline s] by (auto simp: pollDoneOnce_def intro: same_books_more)
next
  case True
  obtain a u where u: "pollDoneViaFs api path deadline s = (a, u)" by fastforce
  note uc = pollDoneViaFs_clock[OF u]
  show ?thesis
  proof (cases "\<exists>e. a = Inl e \<and> isUnsupportedFilesystem e")
    case True
    then have "pollDoneViaCat api path deadline (u\<lparr>ru_pollFs := False\<rparr>) = (v, t)"
      using assms \<open>ru_pollFs s\<close> by (auto simp: pollDoneOnce_def u)
    note vc = pollDoneViaCat_clock[OF this]
    have "same_books (u\<lparr>ru_pollFs := False\<rparr>) t" using vc by (blast intro: same_books_more)
    moreover have "same_books s u" using uc by (blast intro: same_books_more)
    ultimately have "same_books s t" by (simp add: same_books_def)
    then show ?thesis using vc uc by simp
  next
    case False
    then have "u = t" using assms \<open>ru_pollFs s\<close> by (cases a) (auto simp: pollDoneOnce_def u)
    then show ?thesis using uc by (auto intro: same_books_more)
  qed
qed

lemma cut_off_clock:
  assumes "cut_off api bound failure m s = (v, t)" "\<And>r u. m s = (r, u) \<Longrightarrow> now_ms s \<le> now_ms u"
  shows "now_ms s \<le> now_ms t" "now_ms t \<le> now_ms s + timer_limit (sb_late api) bound s"
  using assms by (auto simp: cut_off_def Let_def timer_limit_def split: prod.splits if_splits)

lemma cut_off_books:
  assumes "cut_off api bound failure m s = (v, t)" "\<And>r u. m s = (r, u) \<Longrightarrow> same_books s u"
  shows "same_books s t"
  using assms by (auto simp: cut_off_def Let_def same_books_def split: prod.splits if_splits)

lemma poll_once_clock:
  assumes "poll_once api d s = (v, t)"
  shows "now_ms s \<le> now_ms t" "now_ms t \<le> now_ms s + timer_limit (sb_late api) (remaining_ms d s) s" "same_books s t"
  using assms pollDoneOnce_clock[of api "done_path (ds_tag d)" "ds_deadline d" s]
  unfolding poll_once_def by (blast dest: cut_off_clock cut_off_books)+

lemma update_evidence_clock [simp]:
  "now_ms (update_evidence f s) = now_ms s" "waits (update_evidence f s) = waits s"
  "ru_stepLog (update_evidence f s) = ru_stepLog s" "ru_pollFs (update_evidence f s) = ru_pollFs s"
  "ru_captured (update_evidence f s) = ru_captured s"
  by (simp_all add: update_evidence_def)

lemma note_poll_clock [simp]:
  "now_ms (note_poll d p s) = now_ms s" "waits (note_poll d p s) = waits s"
  "ru_stepLog (note_poll d p s) = ru_stepLog s" "ru_pollFs (note_poll d p s) = ru_pollFs s"
  "ru_captured (note_poll d p s) = ru_captured s"
  by (simp_all add: note_poll_def)

text \<open>
  One round of the loop: it is decided, or the number of failures in a row and the state it goes on
  with.
\<close>

definition poll_step ::
  "sandbox_api \<Rightarrow> runner_env \<Rightarrow> detached_job \<Rightarrow> nat \<Rightarrow> runner_state \<Rightarrow>
   ((step_error + step_result) \<times> runner_state) + (nat \<times> runner_state)" where
  "poll_step api env d failures s =
     (case poll_once api d s of
        (Inl e, t) \<Rightarrow>
          if is_step_timeout e then Inl (Inl e, t)
          else let u = update_evidence (\<lambda>v. v\<lparr>de_state := ObservationUnavailable\<rparr>) t
               in if MAX_CONSECUTIVE_POLL_FAILURES \<le> Suc failures
                  then Inl (Inl (sandbox_lost (ds_label d) (Suc failures)), u)
                  else Inr (Suc failures, u)
      | (Inr p, t) \<Rightarrow>
          (case p of
             StillRunning \<Rightarrow> Inr (0, note_poll d p t)
           | Finished code \<Rightarrow> Inl (finish_detached api env d code (note_poll d p t))))"

lemma poll_step_clock:
  assumes "poll_step api env d failures s = Inr (f, u)"
  shows "now_ms s \<le> now_ms u" "now_ms u \<le> now_ms s + timer_limit (sb_late api) (remaining_ms d s) s"
    "ru_stepLog u = ru_stepLog s"
proof -
  obtain v t where t: "poll_once api d s = (v, t)" by fastforce
  note tc = poll_once_clock[OF t]
  show "now_ms s \<le> now_ms u" "now_ms u \<le> now_ms s + timer_limit (sb_late api) (remaining_ms d s) s"
    "ru_stepLog u = ru_stepLog s"
    using assms tc
    by (cases v; auto simp: poll_step_def t Let_def same_books_def split: if_splits poll.splits)+
qed

lemma pause_clock:
  "now_ms u + 1 \<le> now_ms (delay_ms (sb_late api) (min (poll_delay k) (remaining_ms d u)) u)"
  using poll_delay_bounds[of k]
  by (auto simp: delay_ms_clock timer_limit_def remaining_ms_def POLL_START_MS_def)

function poll_loop ::
  "sandbox_api \<Rightarrow> runner_env \<Rightarrow> detached_job \<Rightarrow> nat \<Rightarrow> nat \<Rightarrow> runner_state \<Rightarrow> (step_error + step_result) \<times> runner_state" where
  "poll_loop api env d k failures s =
     (case poll_step api env d failures s of
        Inl result \<Rightarrow> result
      | Inr (f, u) \<Rightarrow>
          if ds_deadline d < now_ms u then (Inl (Failure (ds_timeout d)), recoverTimeoutEvidence api env d u)
          else poll_loop api env d (Suc k) f
                 (delay_ms (sb_late api) (min (poll_delay k) (remaining_ms d u)) u))"
  by pat_completeness auto
termination
proof (relation "measure (\<lambda>(api, env, d, k, failures, s).
    if now_ms s \<le> ds_deadline d then Suc (nat \<lfloor>ds_deadline d - now_ms s\<rfloor>) else 0)", goal_cases)
  case (2 api env d k failures s r f u)
  then have "poll_step api env d failures s = Inr (f, u)" by simp
  from poll_step_clock(1)[OF this] have s: "now_ms s \<le> now_ms u" .
  let ?w = "delay_ms (sb_late api) (min (poll_delay k) (remaining_ms d u)) u"
  have w: "now_ms u + 1 \<le> now_ms ?w" by (rule pause_clock)
  have u: "now_ms u \<le> ds_deadline d" using 2 by simp
  have "nat \<lfloor>ds_deadline d - now_ms ?w\<rfloor> < nat \<lfloor>ds_deadline d - now_ms s\<rfloor>" if "now_ms ?w \<le> ds_deadline d"
    using that s w u by (simp add: nat_less_iff) linarith
  then show ?case using s u by auto
qed simp

declare poll_loop.simps [simp del]

text \<open>The handler of an error of the step.\<close>

definition detached_catch ::
  "sandbox_api \<Rightarrow> runner_env \<Rightarrow> detached_job \<Rightarrow> step_error \<Rightarrow> runner_state \<Rightarrow> runner_state" where
  "detached_catch api env d e s =
     (let t = (if (is_step_timeout e \<or> ds_deadline d \<le> now_ms s) \<and>
                  de_state (last (ru_evidence s)) \<noteq> CompletedState \<and> de_state (last (ru_evidence s)) \<noteq> CollectionFailed
               then recoverTimeoutEvidence api env d s else s)
      in if length (ru_stepLog t) = ds_logCount d
         then recordStep env (ds_label d) (js_round (now_ms t - ds_started d))
                (map_option int (de_exitCode (last (ru_evidence t)))) (ds_allowFailure d) t
         else t)"

text \<open>What is launched: the legacy runner daemonizes the command itself, a session leaves it to the driver.\<close>

fun launch_text :: "runner \<Rightarrow> string \<Rightarrow> string" where
  "launch_text (StepRunner t) command =
     bash (''nohup bash -c '' @ shellQuote (''nohup bash -c '' @ shellQuote command @ '' </dev/null >/dev/null 2>&1 &'') @
           '' </dev/null >/dev/null 2>&1 & echo launched'')"
| "launch_text (SessionStepRunner cap) command = command"

definition launch_and_poll ::
  "sandbox_api \<Rightarrow> runner_env \<Rightarrow> detached_job \<Rightarrow> string \<Rightarrow> runner_state \<Rightarrow> (step_error + step_result) \<times> runner_state" where
  "launch_and_poll api env d script s =
     (case detachedCommand (ds_tag d) (re_preamble env @ ''; '' @ script) of
        None \<Rightarrow> (Inl (plain ''invalid detached command identity''), s)
      | Some wrapped \<Rightarrow>
          (case limited api (sb_launch api (waits s) (launch_text (re_runner env) wrapped)) (remaining_ms d s) (ds_timeout d) s of
             (Inl e, t) \<Rightarrow> (Inl e, t)
           | (Inr _, t) \<Rightarrow> poll_loop api env d 0 0 (update_evidence (\<lambda>v. v\<lparr>de_state := LaunchAccepted\<rparr>) t)))"

definition new_evidence :: "runner_env \<Rightarrow> detached_job \<Rightarrow> detached_evidence" where
  "new_evidence env d =
     \<lparr>de_identity = ds_tag d, de_label = ds_label d, de_phase = re_phase env, de_allowFailure = ds_allowFailure d,
      de_state = LaunchPending, de_exitCode = None, de_lastObservationMs = None, de_logTail = None\<rparr>"

definition run_detached ::
  "sandbox_api \<Rightarrow> runner_env \<Rightarrow> string \<Rightarrow> string \<Rightarrow> string \<Rightarrow> real \<Rightarrow> bool \<Rightarrow> runner_state \<Rightarrow>
   (step_error + step_result) \<times> runner_state" where
  "run_detached api env tag label script timeoutMs allowFailure s =
     (case boundedTimeout env timeoutMs s of
        Inl e \<Rightarrow> (Inl e, s)
      | Inr limit \<Rightarrow>
          let d = \<lparr>ds_tag = tag, ds_label = label, ds_allowFailure = allowFailure, ds_timeoutMs = limit,
                   ds_started = now_ms s, ds_logCount = length (ru_stepLog s)\<rparr>;
              s1 = s\<lparr>ru_evidence := ru_evidence s @ [new_evidence env d], ru_captured := False\<rparr>
          in case launch_and_poll api env d script s1 of
               (Inr res, t) \<Rightarrow> (Inr res, t)
             | (Inl e, t) \<Rightarrow> (Inl e, detached_catch api env d e t))"

text \<open>The entry point: the transport the runner calls for.\<close>

definition run_step ::
  "sandbox_api \<Rightarrow> runner_env \<Rightarrow> string \<Rightarrow> string \<Rightarrow> string \<Rightarrow> real \<Rightarrow> bool \<Rightarrow> runner_state \<Rightarrow>
   (step_error + step_result) \<times> runner_state" where
  "run_step api env tag label script timeoutMs allowFailure s =
     (if runs_detached (re_runner env) timeoutMs
      then run_detached api env tag label script timeoutMs allowFailure s
      else run_sync api env label script timeoutMs allowFailure s)"

end
