(* ===== verification/StepSafety.thy ===== *)
theory StepSafety
  imports Steps
begin

text \<open>
  What holds of the step runner: a log is read back whole over a transport that truncates, a detached
  step succeeds only when its own receipt was seen, every run of a step leaves one entry and one piece of
  evidence that agree, and a sandbox that stopped answering is given up after a bounded number of calls.
\<close>

section \<open>Reading a large log\<close>

text \<open>
  A guest that serves a log of the given bytes over exec. Its transport keeps only the last \<open>cap\<close>
  characters of an output, the way one vendor's does; \<open>took n\<close> is how long the \<open>n\<close>-th wait takes.
\<close>

definition slice_length :: "8 word list \<Rightarrow> nat \<Rightarrow> nat" where
  "slice_length bytes k = min EXEC_LOG_READ_CHUNK_BYTES (length bytes - k * EXEC_LOG_READ_CHUNK_BYTES)"

definition log_slice :: "8 word list \<Rightarrow> nat \<Rightarrow> 8 word list" where
  "log_slice bytes k = take (slice_length bytes k) (drop (k * EXEC_LOG_READ_CHUNK_BYTES) bytes)"

definition serves_log ::
  "sandbox_api \<Rightarrow> runner_env \<Rightarrow> nat \<Rightarrow> (nat \<Rightarrow> real) \<Rightarrow> string \<Rightarrow> 8 word list \<Rightarrow> bool" where
  "serves_log api env cap took path bytes \<longleftrightarrow>
     (\<forall>n. sb_execute api n (size_command path) =
        Settles (took n) \<lparr>sr_exit = Exited 0, sr_stdout = Some (last_n cap (nat_string (length bytes)))\<rparr>) \<and>
     (\<forall>n. sb_execute api n (cat_command path) =
        Settles (took n) \<lparr>sr_exit = Exited 0, sr_stdout = Some (last_n cap (re_decodeText env bytes))\<rparr>) \<and>
     (\<forall>n k. k * EXEC_LOG_READ_CHUNK_BYTES < length bytes \<longrightarrow>
        sb_execute api n (chunk_command path (k * EXEC_LOG_READ_CHUNK_BYTES) (slice_length bytes k)) =
        Settles (took n) \<lparr>sr_exit = Exited 0, sr_stdout = Some (last_n cap (to_base64 (log_slice bytes k)))\<rparr>)"

lemma last_n_all: "length xs \<le> n \<Longrightarrow> last_n n xs = xs"
  by (simp add: last_n_def)

lemma observed_settles:
  assumes "observationBudget deadline s = Inr budget" "d \<le> budget" "0 \<le> budget"
  shows "observed api (Settles d v) deadline message s = (Inr v, elapse d s)"
  using assms by (auto simp: observed_def limited_def withTimeout_def timer_limit_def Let_def)

lemma stdout_served:
  assumes "sb_execute api (waits s) command = Settles d \<lparr>sr_exit = Exited 0, sr_stdout = Some out\<rparr>" "d \<le> POLL_CAP_MS"
  shows "stdout_or_null api command absent None message s = (Some out, elapse d s)"
proof -
  have "observed api (sb_execute api (waits s) command) None message s =
      (Inr \<lparr>sr_exit = Exited 0, sr_stdout = Some out\<rparr>, elapse d s)"
    unfolding assms(1) using assms(2)
    by (intro observed_settles[of _ _ POLL_CAP_MS]) (auto simp: observationBudget_def POLL_CAP_MS_def)
  then show ?thesis by (simp add: stdout_or_null_def)
qed

lemma js_trim_id: "\<forall>c\<in>set s. \<not> js_space c \<Longrightarrow> js_trim s = s"
proof -
  assume "\<forall>c\<in>set s. \<not> js_space c"
  then have "dropWhile js_space s = s" "dropWhile js_space (rev s) = rev s"
    by (metis dropWhile_eq_self_iff hd_in_set, metis dropWhile_eq_self_iff hd_in_set set_rev)
  then show ?thesis by (simp add: js_trim_def)
qed

lemma base64_trim: "js_trim (to_base64 bs) = to_base64 bs"
proof (rule js_trim_id)
  have "\<forall>n\<in>{..<64}. \<not> js_space (sextet_char n)" "\<not> js_space (CHR ''='')" by code_simp+
  then show "\<forall>c\<in>set (to_base64 bs). \<not> js_space c" by (blast dest: base64_letters[of "\<lambda>c. \<not> js_space c"])
qed

lemma digit_not_space: "is_digit c \<Longrightarrow> \<not> js_space c \<and> c \<noteq> CHR ''-'' \<and> c \<noteq> CHR ''+''"
  by (auto simp: is_digit_def js_space_def)

lemma parse_nat_string: "parseInt (js_trim (nat_string n)) = Some (int n)"
proof -
  have digits: "list_all is_digit (nat_string n)" using canonical_nat_string by (auto simp: canonical_digits_def)
  then have trim: "js_trim (nat_string n) = nat_string n"
    by (intro js_trim_id) (auto simp: list_all_iff digit_not_space)
  have whole: "takeWhile is_digit (nat_string n) = nat_string n" using digits by (simp add: list_all_iff)
  have "nat_string n \<noteq> []" using canonical_nat_string[of n] by (auto simp: canonical_digits_def)
  then have parsed: "parse_digits (nat_string n) = Some (int n)"
    unfolding parse_digits_def whole by (simp add: string_nat_string Let_def)
  obtain c cs where c: "nat_string n = c # cs"
    using canonical_nat_string[of n] by (cases "nat_string n") (auto simp: canonical_digits_def)
  have "is_digit c" using digits by (simp add: c)
  then show ?thesis using parsed by (simp add: trim[unfolded c] parseInt_def c digit_not_space)
qed

text \<open>The slices are the whole.\<close>

lemma length_slice: "length (log_slice bytes k) = slice_length bytes k"
  by (simp add: log_slice_def slice_length_def)

lemma slices_join:
  "take (k * EXEC_LOG_READ_CHUNK_BYTES) bytes @ log_slice bytes k = take (Suc k * EXEC_LOG_READ_CHUNK_BYTES) bytes"
proof -
  have "log_slice bytes k = take EXEC_LOG_READ_CHUNK_BYTES (drop (k * EXEC_LOG_READ_CHUNK_BYTES) bytes)"
    by (simp add: log_slice_def slice_length_def min_def)
  moreover have "Suc k * EXEC_LOG_READ_CHUNK_BYTES = k * EXEC_LOG_READ_CHUNK_BYTES + EXEC_LOG_READ_CHUNK_BYTES" by simp
  ultimately show ?thesis by (simp only: take_add)
qed

lemma chunk_loop_served:
  assumes served: "serves_log api env cap took path bytes" and time: "\<And>n. took n \<le> POLL_CAP_MS"
    and cap: "4 * (EXEC_LOG_READ_CHUNK_BYTES div 3) \<le> cap"
  shows "\<exists>t. chunk_loop api path None (length bytes) (k * EXEC_LOG_READ_CHUNK_BYTES)
               (take (k * EXEC_LOG_READ_CHUNK_BYTES) bytes) s = (Some bytes, t)"
proof (induction "length bytes - k * EXEC_LOG_READ_CHUNK_BYTES" arbitrary: k s rule: less_induct)
  case less
  show ?case
  proof (cases "k * EXEC_LOG_READ_CHUNK_BYTES < length bytes")
    case False
    then show ?thesis by (simp add: chunk_loop.simps)
  next
    case True
    have "(slice_length bytes k + 2) div 3 \<le> (EXEC_LOG_READ_CHUNK_BYTES + 2) div 3"
      by (simp add: slice_length_def div_le_mono)
    then have "4 * ((slice_length bytes k + 2) div 3) \<le> cap" using cap by (simp add: EXEC_LOG_READ_CHUNK_BYTES_def)
    then have whole: "last_n cap (to_base64 (log_slice bytes k)) = to_base64 (log_slice bytes k)"
      by (intro last_n_all) (simp add: length_to_base64 length_slice)
    have "sb_execute api (waits s) (chunk_command path (k * EXEC_LOG_READ_CHUNK_BYTES) (slice_length bytes k)) =
        Settles (took (waits s)) \<lparr>sr_exit = Exited 0, sr_stdout = Some (to_base64 (log_slice bytes k))\<rparr>"
      using served whole True by (simp add: serves_log_def)
    from stdout_served[OF this time] have out:
      "stdout_or_null api (chunk_command path (k * EXEC_LOG_READ_CHUNK_BYTES) (slice_length bytes k)) None None ''log chunk read'' s =
        (Some (to_base64 (log_slice bytes k)), elapse (took (waits s)) s)" .
    have "\<exists>t. chunk_loop api path None (length bytes) (Suc k * EXEC_LOG_READ_CHUNK_BYTES)
        (take (Suc k * EXEC_LOG_READ_CHUNK_BYTES) bytes) (elapse (took (waits s)) s) = (Some bytes, t)"
      using True by (intro less) (simp add: EXEC_LOG_READ_CHUNK_BYTES_def)
    then have "\<exists>t. chunk_loop api path None (length bytes) (k * EXEC_LOG_READ_CHUNK_BYTES + EXEC_LOG_READ_CHUNK_BYTES)
        (take (k * EXEC_LOG_READ_CHUNK_BYTES) bytes @ log_slice bytes k) (elapse (took (waits s)) s) = (Some bytes, t)"
      by (simp add: slices_join add.commute)
    then show ?thesis
      using True
      by (subst chunk_loop.simps)
        (simp add: slice_length_def[symmetric] out base64_trim fromBase64_back length_slice)
  qed
qed

lemma catLogOrNull_served:
  assumes served: "serves_log api env cap took path bytes" and time: "\<And>n. took n \<le> POLL_CAP_MS"
    and cap: "4 * (EXEC_LOG_READ_CHUNK_BYTES div 3) \<le> cap" and big: "length (nat_string (length bytes)) \<le> cap"
    and decode: "re_decodeText env [] = []" "\<And>bs. length (re_decodeText env bs) \<le> length bs"
  shows "fst (catLogOrNull api env path None s) = Some (re_decodeText env bytes)"
proof -
  have size: "stdout_or_null api (size_command path) (Some []) None ''log size probe'' s =
      (Some (nat_string (length bytes)), elapse (took (waits s)) s)"
    using served time big by (intro stdout_served) (simp_all add: serves_log_def last_n_all)
  have once: "catLogOnce api path None u = (Some (re_decodeText env bytes), elapse (took (waits u)) u)"
    if "length bytes \<le> EXEC_LOG_READ_CHUNK_BYTES" for u
  proof -
    have "length (re_decodeText env bytes) \<le> cap"
      using decode(2)[of bytes] that cap by (simp add: EXEC_LOG_READ_CHUNK_BYTES_def)
    then show ?thesis
      unfolding catLogOnce_def using served time by (intro stdout_served) (simp_all add: serves_log_def last_n_all)
  qed
  obtain t where "chunk_loop api path None (length bytes) 0 [] (elapse (took (waits s)) s) = (Some bytes, t)"
    using chunk_loop_served[OF served time cap, of 0 "elapse (took (waits s)) s"] by auto
  then show ?thesis
    using once decode(1) by (auto simp: catLogOrNull_def observationBudget_def size parse_nat_string)
qed

section \<open>What reading a log leaves alone\<close>

lemma stdout_or_null_more:
  assumes "stdout_or_null api command absent deadline message s = (v, t)"
  shows "clocked.more t = clocked.more s \<and> waits t \<le> Suc (waits s) \<and> waits s \<le> waits t"
proof -
  obtain a u where u: "observed api (sb_execute api (waits s) command) deadline message s = (a, u)" by fastforce
  have "waits u \<le> Suc (waits s)"
    using u limited_clock(3)[of api "sb_execute api (waits s) command" _ _ s]
    by (auto simp: observed_def split: sum.splits)
  then show ?thesis
    using assms observed_clock[OF u] by (cases a) (auto simp: stdout_or_null_def u)
qed

lemma chunk_loop_more: "chunk_loop api path deadline len offset parts s = (v, t) \<Longrightarrow> clocked.more t = clocked.more s"
proof (induction api path deadline len offset parts s rule: chunk_loop.induct)
  case (1 api path deadline len offset parts s)
  define amount where "amount = min EXEC_LOG_READ_CHUNK_BYTES (len - offset)"
  obtain a u where u: "stdout_or_null api (chunk_command path offset amount) None deadline ''log chunk read'' s = (a, u)"
    by fastforce
  note um = stdout_or_null_more[OF u]
  show ?case
  proof (cases "offset < len \<and> (\<exists>x bytes. a = Some x \<and> fromBase64 (js_trim x) = Some bytes \<and> length bytes = amount)")
    case True
    then obtain x bytes where x: "a = Some x" "fromBase64 (js_trim x) = Some bytes" "length bytes = amount" by blast
    then have "chunk_loop api path deadline len (offset + EXEC_LOG_READ_CHUNK_BYTES) (parts @ bytes) u = (v, t)"
      using 1(2) True by (subst (asm) chunk_loop.simps) (simp add: amount_def[symmetric] u)
    from 1(1)[OF _ amount_def u[symmetric] x(1,2) _ this] True x(3) um show ?thesis by simp
  next
    case False
    then have "t = u \<or> t = s"
      using 1(2) by (subst (asm) chunk_loop.simps)
        (auto simp: amount_def[symmetric] u Let_def split: if_splits option.splits)
    then show ?thesis using um by auto
  qed
qed

lemma catLogOnce_more:
  "catLogOnce api path deadline s = (v, t) \<Longrightarrow> clocked.more t = clocked.more s \<and> waits t \<le> Suc (waits s)"
  unfolding catLogOnce_def using stdout_or_null_more by blast

lemma catLogOrNull_more:
  assumes "catLogOrNull api env path deadline s = (v, t)"
  shows "clocked.more t = clocked.more s"
proof -
  obtain a u where u: "stdout_or_null api (size_command path) (Some []) deadline ''log size probe'' s = (a, u)" by fastforce
  obtain b w where w: "catLogOnce api path deadline u = (b, w)" by fastforce
  let ?n = "case Option.bind a (\<lambda>text. parseInt (js_trim text)) of None \<Rightarrow> 0 | Some len \<Rightarrow> nat len"
  obtain c x where x: "chunk_loop api path deadline ?n 0 [] u = (c, x)" by fastforce
  note same = stdout_or_null_more[OF u] catLogOnce_more[OF w] chunk_loop_more[OF x]
  have "t = s \<or> t = u \<or> t = w \<or> t = x"
    using assms u w x by (auto simp: catLogOrNull_def split: sum.splits option.splits if_splits)
  then show ?thesis using same by auto
qed

lemma readLogTail_more:
  assumes "readLogTail api env path s = (v, t)"
  shows "clocked.more t = clocked.more s"
proof -
  obtain a u where u: "limited api (sb_readFile api (waits s) path) POLL_CAP_MS \<lparr>th_reason = ''log fs read'', th_cause = None\<rparr> s = (a, u)"
    by fastforce
  obtain b w where w: "catLogOrNull api env path None s = (b, w)" by fastforce
  have "t = u \<or> t = w"
    using assms by (cases a) (auto simp: readLogTail_def u w split: if_splits)
  then show ?thesis using limited_clock(4)[OF u] catLogOrNull_more[OF w] by auto
qed

lemma readback_once_more:
  assumes "readback_once api env path deadline s = (v, t)"
  shows "clocked.more t = clocked.more s"
proof -
  obtain a u where u: "observed api (sb_readFile api (waits s) path) (Some deadline) ''log fs read'' s = (a, u)" by fastforce
  obtain b w where w: "catLogOrNull api env path (Some deadline) s = (b, w)" by fastforce
  have "t = u \<or> t = w" using assms by (cases a) (auto simp: readback_once_def u w split: if_splits)
  then show ?thesis using observed_clock(3)[OF u] catLogOrNull_more[OF w] by auto
qed

text \<open>Where the text of a log comes from: the file itself, or the exec transport.\<close>

definition log_seen :: "sandbox_api \<Rightarrow> runner_env \<Rightarrow> string \<Rightarrow> string \<Rightarrow> bool" where
  "log_seen api env path text \<longleftrightarrow>
     (\<exists>n d. sb_readFile api n path = Settles d text) \<or>
     (\<exists>deadline s t. catLogOrNull api env path deadline s = (Some text, t))"

lemma limited_Inr: "limited api r bound failure s = (Inr v, t) \<Longrightarrow> \<exists>d. r = Settles d v"
  by (auto simp: limited_def split: prod.splits sum.splits dest: withTimeout_Inr)

lemma observed_Inr: "observed api r deadline message s = (Inr v, t) \<Longrightarrow> \<exists>d. r = Settles d v"
  by (auto simp: observed_def split: sum.splits dest: limited_Inr)

lemma readback_once_seen:
  assumes "readback_once api env path deadline s = (Some text, t)"
  shows "log_seen api env path text"
proof (cases "ru_pollFs s")
  case True
  then obtain u where "observed api (sb_readFile api (waits s) path) (Some deadline) ''log fs read'' s = (Inr text, u)"
    using assms by (auto simp: readback_once_def split: prod.splits sum.splits)
  from observed_Inr[OF this] show ?thesis by (auto simp: log_seen_def)
next
  case False
  then show ?thesis using assms by (auto simp: readback_once_def log_seen_def)
qed

lemma readback_loop_facts:
  "readback_loop api env path deadline left s = (v, t) \<Longrightarrow>
   clocked.more t = clocked.more s \<and> (\<forall>text. v = Inr (Some text) \<longrightarrow> log_seen api env path text)"
proof (induction left arbitrary: s)
  case (Suc left)
  obtain a u where u: "readback_once api env path deadline s = (a, u)" by fastforce
  note um = readback_once_more[OF u]
  show ?case
  proof (cases "\<exists>b1 b2. observationBudget (Some deadline) s = Inr b1 \<and> a = None \<and> left \<noteq> 0 \<and>
      observationBudget (Some deadline) u = Inr b2")
    case True
    then obtain b2 where "observationBudget (Some deadline) u = Inr b2" by blast
    then have "readback_loop api env path deadline left (delay_ms (sb_late api) (min 2000 b2) u) = (v, t)"
      using Suc.prems True by (auto simp: u)
    from Suc.IH[OF this] um show ?thesis by (simp add: delay_ms_clock)
  next
    case False
    then show ?thesis
      using Suc.prems um readback_once_seen[of api env path deadline s] u
      by (auto split: sum.splits option.splits if_splits)
  qed
qed auto

lemma readCompletedLog_facts:
  assumes "readCompletedLog api env path label deadline s = (v, t)"
  shows "clocked.more t = clocked.more s \<and> (\<forall>text. v = Inr text \<longrightarrow> log_seen api env path text)"
proof -
  obtain a u where u: "readback_loop api env path deadline 5 s = (a, u)" by fastforce
  obtain b w where w: "catLogOrNull api env path (Some deadline) u = (b, w)" by fastforce
  note facts = readback_loop_facts[OF u] catLogOrNull_more[OF w]
  have "(t = u \<or> t = w) \<and> (\<forall>text. v = Inr text \<longrightarrow> a = Inr (Some text) \<or> b = Some text)"
    using assms by (auto simp: readCompletedLog_def u w split: sum.splits option.splits if_splits)
  then show ?thesis using facts w by (auto simp: log_seen_def)
qed

section \<open>The evidence of a detached step\<close>

text \<open>A receipt of the command, as the file system or the exec poll handed it over.\<close>

definition receipt_seen :: "sandbox_api \<Rightarrow> string \<Rightarrow> nat option \<Rightarrow> bool" where
  "receipt_seen api tag code \<longleftrightarrow>
     (\<exists>n d raw. raw \<noteq> [] \<and> completionCode raw tag = code \<and>
        (sb_readFile api n (done_path tag) = Settles d raw \<or>
         sb_execute api n (poll_command (done_path tag)) = Settles d \<lparr>sr_exit = Exited 0, sr_stdout = Some raw\<rparr>))"

lemma path_identity_done: "CHR ''/'' \<notin> set tag \<Longrightarrow> path_identity (done_path tag) = tag"
proof -
  assume "CHR ''/'' \<notin> set tag"
  then have "split_on (CHR ''/'') (tag @ ''/completion.done'') = tag # split_on (CHR ''/'') ''completion.done''"
    by (induction tag) auto
  then show ?thesis by (simp add: path_identity_def done_path_def)
qed

lemma exit_code_zero: "exit_code e = Some c \<longleftrightarrow> e = Exited c"
  by (cases e) auto

lemma pollDoneViaFs_seen:
  assumes "pollDoneViaFs api (done_path tag) deadline s = (Inr (Finished code), t)" "CHR ''/'' \<notin> set tag"
  shows "receipt_seen api tag code"
proof -
  obtain u raw where raw: "observed api (sb_readFile api (waits u) (done_path tag)) (Some deadline) ''done-file fs read'' u =
      (Inr raw, t)" "raw \<noteq> []" "code = completionCode raw tag"
    using assms by (auto simp: pollDoneViaFs_def path_identity_done split: prod.splits sum.splits bool.splits if_splits)
  from observed_Inr[OF raw(1)] raw(2,3) show ?thesis unfolding receipt_seen_def by blast
qed

lemma pollDoneViaCat_seen:
  assumes "pollDoneViaCat api (done_path tag) deadline s = (Inr (Finished code), t)" "CHR ''/'' \<notin> set tag"
  shows "receipt_seen api tag code"
proof -
  obtain probe raw where probe: "observed api (sb_execute api (waits s) (poll_command (done_path tag))) (Some deadline)
        ''done-file cat poll'' s = (Inr probe, t)"
    and facts: "exit_code (sr_exit probe) = Some 0" "sr_stdout probe = Some raw" "raw \<noteq> []" "code = completionCode raw tag"
    using assms
    by (auto simp: pollDoneViaCat_def path_identity_done Let_def split: prod.splits sum.splits option.splits if_splits)
  have "probe = \<lparr>sr_exit = Exited 0, sr_stdout = Some raw\<rparr>" using facts by (cases probe) (simp add: exit_code_zero)
  with observed_Inr[OF probe] facts(3,4) show ?thesis unfolding receipt_seen_def by blast
qed

lemma poll_once_seen:
  assumes "poll_once api d s = (Inr (Finished code), t)" "CHR ''/'' \<notin> set (ds_tag d)"
  shows "receipt_seen api (ds_tag d) code"
proof -
  obtain u where "pollDoneOnce api (done_path (ds_tag d)) (ds_deadline d) s = (Inr (Finished code), u)"
    using assms(1) by (auto simp: poll_once_def cut_off_def Let_def split: prod.splits if_splits)
  then show ?thesis
    using pollDoneViaFs_seen pollDoneViaCat_seen assms(2)
    by (auto simp: pollDoneOnce_def split: if_splits prod.splits sum.splits)
qed

text \<open>
  The books of a step: what it has added to the log of the runner, and its own evidence, which is the
  last. \<open>of_step\<close> says that a piece of evidence is the step's.
\<close>

definition of_step :: "runner_env \<Rightarrow> detached_job \<Rightarrow> detached_evidence \<Rightarrow> bool" where
  "of_step env d ev \<longleftrightarrow>
     de_identity ev = ds_tag d \<and> de_label ev = ds_label d \<and> de_phase ev = re_phase env \<and>
     de_allowFailure ev = ds_allowFailure d"

definition books ::
  "runner_env \<Rightarrow> detached_job \<Rightarrow> step_entry list \<Rightarrow> detached_evidence list \<Rightarrow> step_entry list \<Rightarrow> detached_evidence \<Rightarrow> runner_state \<Rightarrow> bool" where
  "books env d past pre added ev s \<longleftrightarrow>
     ru_stepLog s = past @ added \<and> ru_evidence s = pre @ [ev] \<and> of_step env d ev"

lemma books_more: "clocked.more t = clocked.more s \<Longrightarrow> books env d past pre added ev t = books env d past pre added ev s"
  using runner_more[of t s] by (simp add: books_def)

lemma books_same: "same_books s t \<Longrightarrow> books env d past pre added ev t = books env d past pre added ev s"
  by (simp add: books_def same_books_def)

lemma books_update:
  "books env d past pre added ev s \<Longrightarrow> of_step env d (f ev) \<Longrightarrow> books env d past pre added (f ev) (update_evidence f s)"
  by (simp add: books_def update_evidence_def)

lemma books_remove [simp]: "books env d past pre added ev (removeDetachedFiles api tag s) = books env d past pre added ev s"
proof -
  obtain v t where t: "limited api
       (sb_execute api (waits s) (bash (''rm -f '' @ log_path tag @ '' '' @ done_path tag @ ''; rmdir '' @ directory_of tag)))
       POLL_CAP_MS \<lparr>th_reason = ''detached file cleanup'', th_cause = None\<rparr> s = (v, t)" by fastforce
  have "removeDetachedFiles api tag s = t" by (simp only: removeDetachedFiles_def t snd_conv)
  then show ?thesis using books_more[OF limited_clock(4)[OF t]] by simp
qed

lemma cut_off_more:
  assumes "cut_off api bound failure m s = (v, t)" "\<And>r u. m s = (r, u) \<Longrightarrow> clocked.more u = clocked.more s"
  shows "clocked.more t = clocked.more s"
  using assms by (auto simp: cut_off_def Let_def split: prod.splits if_splits)

lemma recover_books:
  assumes "books env d past pre added ev s"
  shows "\<exists>ev'. books env d past pre added ev' (recoverTimeoutEvidence api env d s) \<and> de_exitCode ev' = de_exitCode ev \<and>
     (if ru_captured s then ev' = ev else de_state ev' = DeadlineExceeded)"
proof (cases "ru_captured s")
  case True
  then show ?thesis using assms by (auto simp: recoverTimeoutEvidence_def)
next
  case False
  define s1 where "s1 = update_evidence (\<lambda>e. e\<lparr>de_state := DeadlineExceeded\<rparr>) (s\<lparr>ru_captured := True\<rparr>)"
  obtain tail t where t: "readLogTail api env (log_path (ds_tag d)) s1 = (tail, t)" by fastforce
  define set_tail where "set_tail = (\<lambda>e :: detached_evidence. e\<lparr>de_logTail := map_option (\<lambda>x. last_n 8192 (re_redact env x)) tail\<rparr>)"
  obtain v u where u: "limited api
        (sb_execute api (waits (update_evidence set_tail t)) (''pkill -f '' @ shellQuote (ds_tag d) @ '' || true''))
        POLL_CAP_MS \<lparr>th_reason = ''stop timed-out step'', th_cause = None\<rparr> (update_evidence set_tail t) = (v, u)" by fastforce
  have result: "recoverTimeoutEvidence api env d s = u"
    using False u
    by (simp only: recoverTimeoutEvidence_def s1_def[symmetric] Let_def t prod.case set_tail_def[symmetric] snd_conv if_False)
  have "books env d past pre added ev (s\<lparr>ru_captured := True\<rparr>)" using assms by (simp add: books_def)
  from books_update[OF this, of "\<lambda>e. e\<lparr>de_state := DeadlineExceeded\<rparr>"]
  have "books env d past pre added (ev\<lparr>de_state := DeadlineExceeded\<rparr>) s1"
    using assms by (simp add: s1_def books_def of_step_def)
  then have "books env d past pre added (ev\<lparr>de_state := DeadlineExceeded\<rparr>) t"
    using books_more[OF readLogTail_more[OF t]] by blast
  from books_update[OF this, of set_tail] this
  have "books env d past pre added (set_tail (ev\<lparr>de_state := DeadlineExceeded\<rparr>)) (update_evidence set_tail t)"
    by (simp add: set_tail_def books_def of_step_def)
  then have "books env d past pre added (set_tail (ev\<lparr>de_state := DeadlineExceeded\<rparr>)) u"
    using books_more[OF limited_clock(4)[OF u]] by blast
  then show ?thesis using False by (auto simp: result set_tail_def intro!: exI)
qed

text \<open>
  How the body of a detached step can end: with its completion seen, its log read and the step recorded,
  whether it then fails or not; with its completion seen and its log lost; or without a completion.
\<close>

definition entry_for :: "runner_env \<Rightarrow> detached_job \<Rightarrow> int option \<Rightarrow> step_entry \<Rightarrow> bool" where
  "entry_for env d code entry \<longleftrightarrow>
     sl_phase entry = re_phase env \<and> sl_label entry = ds_label d \<and> sl_allowFailure entry = ds_allowFailure d \<and>
     sl_exitCode entry = code"

fun completion_state :: "nat option \<Rightarrow> evidence_state" where
  "completion_state None = ObservationUnavailable"
| "completion_state (Some c) = CompletedState"

inductive ends ::
  "sandbox_api \<Rightarrow> runner_env \<Rightarrow> detached_job \<Rightarrow> step_entry list \<Rightarrow> detached_evidence list \<Rightarrow>
   step_error + step_result \<Rightarrow> runner_state \<Rightarrow> bool"
  for api env d past pre where
  ends_recorded:
    "books env d past pre [entry] ev t \<Longrightarrow> de_exitCode ev = code \<Longrightarrow> de_state ev = completion_state code \<Longrightarrow>
     receipt_seen api (ds_tag d) code \<Longrightarrow> log_seen api env (log_path (ds_tag d)) text \<Longrightarrow>
     res = completed_result (re_runner env) code text \<Longrightarrow> entry_for env d (exit_code (sr_exit res)) entry \<Longrightarrow>
     r = (if exit_code (sr_exit res) \<noteq> Some 0 \<and> \<not> ds_allowFailure d then Inl (step_failed_with (ds_label d) (sr_exit res)) else Inr res) \<Longrightarrow>
     ends api env d past pre r t"
| ends_lost_log:
    "books env d past pre [] ev t \<Longrightarrow> de_state ev = CollectionFailed \<Longrightarrow> receipt_seen api (ds_tag d) (de_exitCode ev) \<Longrightarrow>
     ends api env d past pre (Inl e) t"
| ends_undecided:
    "books env d past pre [] ev t \<Longrightarrow> de_exitCode ev = None \<Longrightarrow> de_state ev \<noteq> CompletedState \<Longrightarrow> de_state ev \<noteq> CollectionFailed \<Longrightarrow>
     ends api env d past pre (Inl e) t"

lemma finish_detached_ends:
  assumes "finish_detached api env d code s = (r, t)" "books env d past pre [] ev s"
    and "de_exitCode ev = code" "de_state ev = completion_state code" "receipt_seen api (ds_tag d) code"
  shows "ends api env d past pre r t"
proof -
  obtain a u where u: "cut_off api (remaining_ms d s) (ds_timeout d)
      (readCompletedLog api env (log_path (ds_tag d)) (ds_label d) (ds_deadline d)) s = (a, u)" by fastforce
  have "clocked.more u = clocked.more s" using u readCompletedLog_facts by (blast intro: cut_off_more)
  then have bu: "books env d past pre [] ev u" using assms(2) books_more by blast
  show ?thesis
  proof (cases a)
    case (Inl e)
    let ?f = "\<lambda>v :: detached_evidence. v\<lparr>de_state := CollectionFailed\<rparr>"
    have "of_step env d (?f ev)" using bu by (simp add: books_def of_step_def)
    from books_update[OF bu, of ?f, OF this] have "books env d past pre [] (?f ev) t"
      using assms(1) Inl by (auto simp: finish_detached_def u)
    then show ?thesis
      using assms(1,3,5) Inl by (auto simp: finish_detached_def u intro!: ends_lost_log[of env d past pre "?f ev"])
  next
    case (Inr out)
    then have seen: "log_seen api env (log_path (ds_tag d)) out"
      using u readCompletedLog_facts by (fastforce simp: cut_off_def Let_def split: prod.splits if_splits)
    let ?res = "completed_result (re_runner env) code out"
    let ?entry = "\<lparr>sl_phase = re_phase env, sl_label = ds_label d, sl_ms = js_round (now_ms u - ds_started d),
      sl_exitCode = exit_code (sr_exit ?res), sl_allowFailure = ds_allowFailure d\<rparr>"
    let ?v = "recordStep env (ds_label d) (js_round (now_ms u - ds_started d)) (exit_code (sr_exit ?res)) (ds_allowFailure d) u"
    have "books env d past pre [?entry] ev ?v" using bu by (simp add: books_def recordStep_def)
    then have "books env d past pre [?entry] ev t"
      and r: "r = (if exit_code (sr_exit ?res) \<noteq> Some 0 \<and> \<not> ds_allowFailure d
               then Inl (step_failed_with (ds_label d) (sr_exit ?res)) else Inr ?res)"
      using assms(1) Inr by (auto simp: finish_detached_def u finishStep_def Let_def split: if_splits)
    then show ?thesis
      using assms(3,4,5) seen by (intro ends_recorded[of env d past pre ?entry ev t code api out ?res]) (simp_all add: entry_for_def)
  qed
qed

text \<open>While the loop runs, nothing is recorded and no completion was seen.\<close>

definition pending_evidence :: "detached_evidence \<Rightarrow> bool" where
  "pending_evidence ev \<longleftrightarrow> de_exitCode ev = None \<and> de_state ev \<noteq> CompletedState \<and> de_state ev \<noteq> CollectionFailed"

lemma poll_step_ends:
  assumes "books env d past pre [] ev s" "pending_evidence ev" "CHR ''/'' \<notin> set (ds_tag d)"
  shows "poll_step api env d failures s = Inl (r, t) \<Longrightarrow> ends api env d past pre r t"
    and "poll_step api env d failures s = Inr (f, u) \<Longrightarrow> \<exists>ev'. books env d past pre [] ev' u \<and> pending_evidence ev'"
proof -
  obtain a w where w: "poll_once api d s = (a, w)" by fastforce
  have bw: "books env d past pre [] ev w" using books_same[OF poll_once_clock(3)[OF w]] assms(1) by blast
  let ?fail = "\<lambda>v :: detached_evidence. v\<lparr>de_state := ObservationUnavailable\<rparr>"
  have "of_step env d (?fail ev)" using bw by (simp add: books_def of_step_def)
  note failed = books_update[OF bw, of ?fail, OF this]
  have noted: "\<exists>ev'. books env d past pre [] ev' (note_poll d p w) \<and>
      de_exitCode ev' = (case p of StillRunning \<Rightarrow> None | Finished c \<Rightarrow> c) \<and>
      de_state ev' = (case p of StillRunning \<Rightarrow> RunningState | Finished c \<Rightarrow> completion_state c)" for p
    unfolding note_poll_def using bw
    by (intro exI conjI, rule books_update) (auto simp: books_def of_step_def split: poll.splits option.splits)
  show "poll_step api env d failures s = Inl (r, t) \<Longrightarrow> ends api env d past pre r t"
  proof -
    assume step: "poll_step api env d failures s = Inl (r, t)"
    show ?thesis
    proof (cases a)
      case (Inl e)
      have "books env d past pre [] ev t \<or> books env d past pre [] (?fail ev) t" "\<exists>e. r = Inl e"
        using step Inl bw failed by (auto simp: poll_step_def w Let_def split: if_splits)
      then show ?thesis using assms(2) by (auto simp: pending_evidence_def intro: ends_undecided)
    next
      case (Inr p)
      then obtain code where p: "p = Finished code" and fin: "finish_detached api env d code (note_poll d p w) = (r, t)"
        using step by (auto simp: poll_step_def w split: poll.splits)
      have "receipt_seen api (ds_tag d) code" using w assms(3) Inr p by (simp add: poll_once_seen)
      then show ?thesis using noted[of p] fin by (auto simp: p intro: finish_detached_ends)
    qed
  qed
  show "poll_step api env d failures s = Inr (f, u) \<Longrightarrow> \<exists>ev'. books env d past pre [] ev' u \<and> pending_evidence ev'"
  proof -
    assume step: "poll_step api env d failures s = Inr (f, u)"
    then have "u = update_evidence ?fail w \<or> u = note_poll d StillRunning w"
      by (auto simp: poll_step_def w Let_def split: sum.splits if_splits poll.splits)
    then show ?thesis
      using failed assms(2) noted[of StillRunning] by (auto simp: pending_evidence_def)
  qed
qed

lemma books_delay: "books env d past pre added ev (delay_ms late x s) = books env d past pre added ev s"
  by (rule books_more) (simp add: delay_ms_clock)

lemma poll_loop_ends:
  assumes "CHR ''/'' \<notin> set (ds_tag d)"
  shows "poll_loop api env d k failures s = (r, t) \<Longrightarrow> books env d past pre [] ev s \<Longrightarrow> pending_evidence ev \<Longrightarrow>
    ends api env d past pre r t"
  using assms
proof (induction api env d k failures s arbitrary: ev rule: poll_loop.induct)
  case (1 api env d k failures s)
  note steps = poll_step_ends[OF 1(3,4,5)]
  show ?case
  proof (cases "poll_step api env d failures s")
    case (Inl result)
    then show ?thesis using 1(2) steps(1) by (cases result) (simp add: poll_loop.simps)
  next
    case (Inr going)
    obtain f u where fu: "going = (f, u)" by fastforce
    obtain ev' where ev': "books env d past pre [] ev' u" "pending_evidence ev'"
      using steps(2) Inr fu by blast
    show ?thesis
    proof (cases "ds_deadline d < now_ms u")
      case True
      then have "r = Inl (Failure (ds_timeout d))" "t = recoverTimeoutEvidence api env d u"
        using 1(2) Inr fu by (auto simp: poll_loop.simps)
      then show ?thesis
        using recover_books[OF ev'(1), of api] ev'(2)
        by (auto simp: pending_evidence_def split: if_splits intro: ends_undecided)
    next
      case False
      let ?w = "delay_ms (sb_late api) (min (poll_delay k) (remaining_ms d u)) u"
      have "poll_loop api env d (Suc k) f ?w = (r, t)"
        using 1(2) Inr fu False by (subst (asm) poll_loop.simps) simp
      moreover have "books env d past pre [] ev' ?w" using ev'(1) by (simp add: books_delay)
      ultimately show ?thesis using 1(1)[OF Inr fu[symmetric] False _ _ ev'(2) 1(5)] by blast
    qed
  qed
qed

lemma tag_has_no_slash:
  assumes "detachedCommand tag command = Some wrapped"
  shows "CHR ''/'' \<notin> set tag"
proof -
  have "strip_prefix ''bench-'' tag \<noteq> None" "list_all tag_char (drop 6 tag)"
    using assms by (auto simp: detachedCommand_def split: if_splits)
  then obtain rest where "tag = ''bench-'' @ rest" by (auto simp: strip_prefix_Some)
  moreover have "\<not> tag_char (CHR ''/'')" by (simp add: tag_char_def)
  ultimately show ?thesis using \<open>list_all tag_char (drop 6 tag)\<close> by (auto simp: list_all_iff)
qed

lemma launch_and_poll_ends:
  assumes "launch_and_poll api env d script s = (r, t)" "books env d past pre [] ev s" "de_exitCode ev = None"
    "de_state ev = LaunchPending"
  shows "ends api env d past pre r t"
proof (cases "detachedCommand (ds_tag d) (re_preamble env @ ''; '' @ script)")
  case None
  then show ?thesis
    using assms by (auto simp: launch_and_poll_def intro!: ends_undecided)
next
  case (Some wrapped)
  obtain a u where u: "limited api (sb_launch api (waits s) (launch_text (re_runner env) wrapped)) (remaining_ms d s) (ds_timeout d) s =
      (a, u)" by fastforce
  have bu: "books env d past pre [] ev u" using assms(2) books_more[OF limited_clock(4)[OF u]] by blast
  show ?thesis
  proof (cases a)
    case (Inl e)
    then have "r = Inl e" "t = u" using assms(1) Some u by (simp_all add: launch_and_poll_def)
    then show ?thesis using bu assms(3,4) by (auto intro: ends_undecided)
  next
    case (Inr x)
    let ?f = "\<lambda>v :: detached_evidence. v\<lparr>de_state := LaunchAccepted\<rparr>"
    have "poll_loop api env d 0 0 (update_evidence ?f u) = (r, t)"
      using assms(1) Some u Inr by (simp add: launch_and_poll_def)
    moreover have "of_step env d (?f ev)" using bu by (simp add: books_def of_step_def)
    then have "books env d past pre [] (?f ev) (update_evidence ?f u)" by (rule books_update[OF bu, of ?f])
    moreover have "pending_evidence (?f ev)" using assms(3) by (simp add: pending_evidence_def)
    ultimately show ?thesis using poll_loop_ends[OF tag_has_no_slash[OF Some]] by blast
  qed
qed

text \<open>The books of a whole run: one entry and one piece of evidence, whatever happened.\<close>

lemma catch_books:
  assumes "books env d past pre added ev s" "ds_logCount d = length past"
  shows "\<exists>ev'. books env d past pre
      (if added = [] then [\<lparr>sl_phase = re_phase env, sl_label = ds_label d,
                             sl_ms = js_round (now_ms (detached_catch api env d e s) - ds_started d),
                             sl_exitCode = map_option int (de_exitCode ev), sl_allowFailure = ds_allowFailure d\<rparr>]
       else added) ev' (detached_catch api env d e s) \<and>
    de_exitCode ev' = de_exitCode ev \<and>
    (de_state ev \<in> {CompletedState, CollectionFailed} \<longrightarrow> ev' = ev) \<and>
    (ev' = ev \<or> de_state ev' = DeadlineExceeded)"
proof -
  define t where "t = (if (is_step_timeout e \<or> ds_deadline d \<le> now_ms s) \<and>
        de_state (last (ru_evidence s)) \<noteq> CompletedState \<and> de_state (last (ru_evidence s)) \<noteq> CollectionFailed
      then recoverTimeoutEvidence api env d s else s)"
  have last: "last (ru_evidence s) = ev" using assms(1) by (simp add: books_def)
  have "\<exists>ev'. books env d past pre added ev' t \<and> de_exitCode ev' = de_exitCode ev \<and>
      (de_state ev \<in> {CompletedState, CollectionFailed} \<longrightarrow> ev' = ev) \<and> (ev' = ev \<or> de_state ev' = DeadlineExceeded)"
    using recover_books[OF assms(1), of api] assms(1) by (auto simp: t_def last split: if_splits)
  then obtain ev' where ev': "books env d past pre added ev' t" "de_exitCode ev' = de_exitCode ev"
    "de_state ev \<in> {CompletedState, CollectionFailed} \<longrightarrow> ev' = ev" "ev' = ev \<or> de_state ev' = DeadlineExceeded" by blast
  have result: "detached_catch api env d e s =
      (if added = [] then recordStep env (ds_label d) (js_round (now_ms t - ds_started d))
         (map_option int (de_exitCode ev)) (ds_allowFailure d) t else t)"
    using ev'(1,2) assms(2) by (simp add: detached_catch_def t_def[symmetric] books_def Let_def)
  have clock: "now_ms (recordStep env l ms c a t) = now_ms t" for l ms c a by (simp add: recordStep_def)
  show ?thesis
    using ev' unfolding result by (cases "added = []") (auto simp: clock books_def recordStep_def)
qed

lemma run_detached_books:
  assumes run: "run_detached api env tag label script timeoutMs allowFailure s = (r, t)"
    and limit: "boundedTimeout env timeoutMs s = Inr limit"
  shows "\<exists>entry ev. ru_stepLog t = ru_stepLog s @ [entry] \<and> ru_evidence t = ru_evidence s @ [ev] \<and>
    sl_phase entry = re_phase env \<and> sl_label entry = label \<and> sl_allowFailure entry = allowFailure \<and>
    de_identity ev = tag \<and> de_label ev = label \<and>
    (\<forall>c. de_exitCode ev = Some c \<longrightarrow> receipt_seen api tag (Some c) \<and> sl_exitCode entry = Some (int c)) \<and>
    (de_exitCode ev = None \<longrightarrow> sl_exitCode entry \<in> {None, exit_code (sr_exit (completed_result (re_runner env) None []))}) \<and>
    (de_state ev = CompletedState \<longrightarrow> de_exitCode ev \<noteq> None) \<and>
    (\<forall>res. r = Inr res \<longrightarrow>
       (\<exists>text. res = completed_result (re_runner env) (de_exitCode ev) text \<and> log_seen api env (log_path tag) text) \<and>
       receipt_seen api tag (de_exitCode ev) \<and> sl_exitCode entry = exit_code (sr_exit res) \<and>
       (sl_exitCode entry = Some 0 \<or> allowFailure)) \<and>
    (\<forall>e. r = Inl e \<and> de_state ev = CompletedState \<longrightarrow> sl_exitCode entry \<noteq> Some 0 \<and> \<not> allowFailure)"
proof -
  define d where "d = \<lparr>ds_tag = tag, ds_label = label, ds_allowFailure = allowFailure, ds_timeoutMs = limit,
                   ds_started = now_ms s, ds_logCount = length (ru_stepLog s)\<rparr>"
  have fields: "ds_tag d = tag" "ds_label d = label" "ds_allowFailure d = allowFailure"
    "ds_logCount d = length (ru_stepLog s)" by (simp_all add: d_def)
  let ?s = "s\<lparr>ru_evidence := ru_evidence s @ [new_evidence env d], ru_captured := False\<rparr>"
  obtain a u where u: "launch_and_poll api env d script ?s = (a, u)" by fastforce
  have start: "books env d (ru_stepLog s) (ru_evidence s) [] (new_evidence env d) ?s"
    "de_exitCode (new_evidence env d) = None" "de_state (new_evidence env d) = LaunchPending"
    by (simp_all add: books_def of_step_def new_evidence_def)
  have result: "(r, t) = (case a of Inr res \<Rightarrow> (Inr res, u) | Inl e \<Rightarrow> (Inl e, detached_catch api env d e u))"
    using run limit u by (auto simp: run_detached_def d_def[symmetric] Let_def split: sum.splits)
  from launch_and_poll_ends[OF u start] show ?thesis
  proof cases
    case (ends_recorded entry ev code out res)
    have code: "exit_code (sr_exit res) = (case code of None \<Rightarrow> exit_code (sr_exit (completed_result (re_runner env) None []))
        | Some c \<Rightarrow> Some (int c))"
      using ends_recorded(6) by (cases "re_runner env"; cases code) auto
    show ?thesis
    proof (cases a)
      case (Inr res')
      then have "res' = res" "r = Inr res" "t = u" "exit_code (sr_exit res) = Some 0 \<or> allowFailure"
        using ends_recorded(8) result by (auto simp: fields split: if_splits)
      then show ?thesis
        using ends_recorded code
        by (intro exI[of _ entry] exI[of _ ev])
          (auto simp: books_def of_step_def entry_for_def fields split: option.splits)
    next
      case (Inl e)
      then have fails: "exit_code (sr_exit res) \<noteq> Some 0" "\<not> allowFailure"
        using ends_recorded(8) by (auto simp: fields split: if_splits)
      have rt: "r = Inl e" "t = detached_catch api env d e u" using Inl result by simp_all
      from catch_books[OF ends_recorded(1) fields(4), of api e] obtain ev' where
        ev': "books env d (ru_stepLog s) (ru_evidence s) [entry] ev' t" "de_exitCode ev' = de_exitCode ev"
          "de_state ev \<in> {CompletedState, CollectionFailed} \<longrightarrow> ev' = ev" "ev' = ev \<or> de_state ev' = DeadlineExceeded"
        by (auto simp: rt)
      show ?thesis
        using ev' ends_recorded code fails rt
        by (intro exI[of _ entry] exI[of _ ev'])
          (auto simp: books_def of_step_def entry_for_def fields split: option.splits)
    qed
  next
    case (ends_lost_log ev e)
    then have rt: "r = Inl e" "t = detached_catch api env d e u" using result by simp_all
    from catch_books[OF ends_lost_log(2) fields(4), of api e] obtain entry where
      entry: "books env d (ru_stepLog s) (ru_evidence s) [entry] ev t" "entry_for env d (map_option int (de_exitCode ev)) entry"
      using ends_lost_log(3) by (auto simp: rt entry_for_def)
    show ?thesis
      using entry ends_lost_log rt
      by (intro exI[of _ entry] exI[of _ ev]) (auto simp: books_def of_step_def entry_for_def fields)
  next
    case (ends_undecided ev e)
    then have rt: "r = Inl e" "t = detached_catch api env d e u" using result by simp_all
    from catch_books[OF ends_undecided(2) fields(4), of api e] obtain entry ev' where
      entry: "books env d (ru_stepLog s) (ru_evidence s) [entry] ev' t" "entry_for env d None entry"
        "de_exitCode ev' = None" "de_state ev' \<noteq> CompletedState"
      using ends_undecided(3-5) by (auto simp: rt entry_for_def)
    show ?thesis
      using entry rt by (intro exI[of _ entry] exI[of _ ev']) (auto simp: books_def of_step_def entry_for_def fields)
  qed
qed

lemma run_detached_returns:
  assumes "run_detached api env tag label script timeoutMs allowFailure s = (Inr res, t)"
    and "boundedTimeout env timeoutMs s = Inr limit"
  shows "\<exists>code out. res = completed_result (re_runner env) code out \<and> log_seen api env (log_path tag) out \<and>
    receipt_seen api tag code"
  using run_detached_books[OF assms]
proof (elim exE conjE, goal_cases)
  case (1 entry ev)
  from 1(11)[THEN spec, THEN mp, OF refl] show ?case by blast
qed

section \<open>A sandbox that stopped answering\<close>

text \<open>Every call of the sandbox rejects, without a classification of the harness, or hangs.\<close>

definition no_answer :: "'a reply \<Rightarrow> bool" where
  "no_answer r \<longleftrightarrow> (case r of Settles d v \<Rightarrow> False | Throws d e \<Rightarrow> th_cause e = None | Hangs \<Rightarrow> True)"

definition unreachable :: "sandbox_api \<Rightarrow> bool" where
  "unreachable api \<longleftrightarrow>
     (\<forall>n x. no_answer (sb_execute api n x) \<and> no_answer (sb_exists api n x) \<and> no_answer (sb_readFile api n x))"

lemma limited_no_answer:
  assumes "limited api r bound failure s = (v, t)" "no_answer r"
  shows "\<exists>e. v = Inl (Failure e) \<and> (e = failure \<or> th_cause e = None)"
  using assms
  by (auto simp: limited_def withTimeout_def Let_def no_answer_def split: reply.splits if_splits prod.splits sum.splits)

lemma observed_no_answer:
  assumes "observed api r deadline message s = (v, t)" "no_answer r"
  shows "\<exists>e. v = Inl e \<and> \<not> is_step_timeout e" "waits t \<le> Suc (waits s)"
proof -
  have "(\<exists>e. v = Inl e \<and> \<not> is_step_timeout e) \<and> waits t \<le> Suc (waits s)"
  proof (cases "observationBudget deadline s")
    case (Inl e)
    then have "v = Inl e" "t = s" using assms(1) by (simp_all add: observed_def)
    moreover have "e = plain ''step observation deadline exceeded''"
      using Inl by (auto simp: observationBudget_def split: option.splits if_splits)
    ultimately show ?thesis by (simp add: plain_def)
  next
    case (Inr b)
    then have lim: "limited api r b \<lparr>th_reason = message, th_cause = None\<rparr> s = (v, t)"
      using assms(1) by (simp add: observed_def)
    obtain e where "v = Inl (Failure e)" "th_cause e = None"
      using limited_no_answer[OF lim assms(2)] by auto
    then show ?thesis using limited_clock(3)[OF lim] by simp
  qed
  then show "\<exists>e. v = Inl e \<and> \<not> is_step_timeout e" "waits t \<le> Suc (waits s)" by blast+
qed

lemma via_fs_no_answer:
  assumes "unreachable api" "pollDoneViaFs api path deadline s = (v, t)"
  shows "(\<exists>e. v = Inl e \<and> \<not> is_step_timeout e) \<and> waits t \<le> Suc (waits s)"
proof -
  obtain a u where u: "observed api (sb_exists api (waits s) path) (Some deadline) ''done-file fs exists'' s = (a, u)"
    by fastforce
  have "no_answer (sb_exists api (waits s) path)" using assms(1) by (simp add: unreachable_def)
  from observed_no_answer[OF u this] assms(2) show ?thesis by (auto simp: pollDoneViaFs_def u)
qed

lemma via_cat_no_answer:
  assumes "unreachable api" "pollDoneViaCat api path deadline s = (v, t)"
  shows "(\<exists>e. v = Inl e \<and> \<not> is_step_timeout e) \<and> waits t \<le> Suc (waits s)"
proof -
  obtain a u where u: "observed api (sb_execute api (waits s) (poll_command path)) (Some deadline) ''done-file cat poll'' s = (a, u)"
    by fastforce
  have "no_answer (sb_execute api (waits s) (poll_command path))" using assms(1) by (simp add: unreachable_def)
  from observed_no_answer[OF u this] assms(2) show ?thesis by (auto simp: pollDoneViaCat_def u)
qed

lemma poll_no_answer:
  assumes "unreachable api" "poll_once api d s = (v, t)"
  shows "(\<exists>e. v = Inl e \<and> (e = Failure (ds_timeout d) \<or> \<not> is_step_timeout e)) \<and> waits t \<le> waits s + 2"
proof -
  obtain a u where u: "pollDoneOnce api (done_path (ds_tag d)) (ds_deadline d) s = (a, u)" by fastforce
  obtain b w where w: "pollDoneViaFs api (done_path (ds_tag d)) (ds_deadline d) s = (b, w)" by fastforce
  note fs = via_fs_no_answer[OF assms(1) w]
  have "(\<exists>e. a = Inl e \<and> \<not> is_step_timeout e) \<and> waits u \<le> waits s + 2"
  proof (cases "ru_pollFs s \<and> \<not> (\<exists>e. b = Inl e \<and> isUnsupportedFilesystem e)")
    case True
    then have "a = b" "u = w" using u by (auto simp: pollDoneOnce_def w split: sum.splits if_splits)
    then show ?thesis using fs by auto
  next
    case False
    then consider "pollDoneViaCat api (done_path (ds_tag d)) (ds_deadline d) s = (a, u)"
      | "pollDoneViaCat api (done_path (ds_tag d)) (ds_deadline d) (w\<lparr>ru_pollFs := False\<rparr>) = (a, u)"
      using u by (auto simp: pollDoneOnce_def w split: if_splits)
    then show ?thesis
      using fs via_cat_no_answer[OF assms(1)] by cases (fastforce dest: via_cat_no_answer[OF assms(1)])+
  qed
  then show ?thesis
    using assms(2) by (auto simp: poll_once_def cut_off_def u Let_def split: if_splits)
qed

lemma tail_no_answer:
  assumes "unreachable api" "readLogTail api env path s = (v, t)"
  shows "waits t \<le> waits s + 2"
proof -
  obtain a u where u: "limited api (sb_readFile api (waits s) path) POLL_CAP_MS \<lparr>th_reason = ''log fs read'', th_cause = None\<rparr> s = (a, u)"
    by fastforce
  obtain b w where w: "stdout_or_null api (size_command path) (Some []) None ''log size probe'' s = (b, w)" by fastforce
  obtain c x where x: "catLogOnce api path None w = (c, x)" by fastforce
  obtain a' u' where u': "observed api (sb_execute api (waits s) (size_command path)) None ''log size probe'' s = (a', u')" by fastforce
  have "no_answer (sb_execute api (waits s) (size_command path))" using assms(1) by (simp add: unreachable_def)
  from observed_no_answer(1)[OF u' this] have "b = None" using w by (auto simp: stdout_or_null_def u')
  then have "catLogOrNull api env path None s = (c, x)" by (simp add: catLogOrNull_def observationBudget_def w x)
  then have "t = u \<or> t = x"
    using assms(2) by (cases a) (auto simp: readLogTail_def u split: if_splits)
  then show ?thesis using limited_clock(3)[OF u] stdout_or_null_more[OF w] catLogOnce_more[OF x] by auto
qed

lemma recover_no_answer:
  assumes "unreachable api"
  shows "waits (recoverTimeoutEvidence api env d s) \<le> waits s + 3"
proof (cases "ru_captured s")
  case False
  define s1 where "s1 = update_evidence (\<lambda>e. e\<lparr>de_state := DeadlineExceeded\<rparr>) (s\<lparr>ru_captured := True\<rparr>)"
  obtain tail t where t: "readLogTail api env (log_path (ds_tag d)) s1 = (tail, t)" by fastforce
  define t1 where "t1 = update_evidence (\<lambda>e. e\<lparr>de_logTail := map_option (\<lambda>x. last_n 8192 (re_redact env x)) tail\<rparr>) t"
  obtain v u where u: "limited api (sb_execute api (waits t1) (''pkill -f '' @ shellQuote (ds_tag d) @ '' || true''))
        POLL_CAP_MS \<lparr>th_reason = ''stop timed-out step'', th_cause = None\<rparr> t1 = (v, u)" by fastforce
  have "recoverTimeoutEvidence api env d s = u"
    using False u
    by (simp only: recoverTimeoutEvidence_def s1_def[symmetric] Let_def t prod.case t1_def[symmetric] snd_conv if_False)
  then show ?thesis
    using limited_clock(3)[OF u] tail_no_answer[OF assms t] by (simp add: t1_def s1_def)
qed (simp add: recoverTimeoutEvidence_def)

lemma poll_loop_no_answer:
  assumes "unreachable api"
  shows "poll_loop api env d k failures s = (r, t) \<Longrightarrow> failures < MAX_CONSECUTIVE_POLL_FAILURES \<Longrightarrow>
    r \<in> {Inl (Failure (ds_timeout d)), Inl (sandbox_lost (ds_label d) MAX_CONSECUTIVE_POLL_FAILURES)} \<and>
    waits t \<le> waits s + 3 * (MAX_CONSECUTIVE_POLL_FAILURES - failures) + 3"
  using assms
proof (induction api env d k failures s rule: poll_loop.induct)
  case (1 api env d k failures s)
  obtain v w where w: "poll_once api d s = (v, w)" by fastforce
  obtain e where e: "v = Inl e" "e = Failure (ds_timeout d) \<or> \<not> is_step_timeout e" "waits w \<le> waits s + 2"
    using poll_no_answer[OF 1(4) w] by blast
  let ?u = "update_evidence (\<lambda>v. v\<lparr>de_state := ObservationUnavailable\<rparr>) w"
  have room: "3 \<le> 3 * (MAX_CONSECUTIVE_POLL_FAILURES - failures)" using 1(3) by simp
  consider (timeout) "is_step_timeout e" | (lost) "\<not> is_step_timeout e" "Suc failures = MAX_CONSECUTIVE_POLL_FAILURES"
    | (going) "\<not> is_step_timeout e" "Suc failures < MAX_CONSECUTIVE_POLL_FAILURES"
    using 1(3) by linarith
  then show ?case
  proof cases
    case timeout
    then have "r = Inl e" "t = w" using 1(2) by (auto simp: poll_loop.simps poll_step_def w e)
    then show ?thesis using timeout e room by auto
  next
    case lost
    then have "r = Inl (sandbox_lost (ds_label d) (Suc failures))" "t = ?u"
      using 1(2) by (auto simp: poll_loop.simps poll_step_def w e(1) Let_def)
    then show ?thesis using lost e(3) room by simp
  next
    case going
    then have step: "poll_step api env d failures s = Inr (Suc failures, ?u)"
      by (simp add: poll_step_def w e(1) Let_def)
    show ?thesis
    proof (cases "ds_deadline d < now_ms ?u")
      case True
      then have "r = Inl (Failure (ds_timeout d))" "t = recoverTimeoutEvidence api env d ?u"
        using 1(2) by (auto simp: poll_loop.simps step)
      then show ?thesis using recover_no_answer[OF 1(4), of env d ?u] e(3) room by simp
    next
      case False
      let ?w = "delay_ms (sb_late api) (min (poll_delay k) (remaining_ms d ?u)) ?u"
      have loop: "poll_loop api env d (Suc k) (Suc failures) ?w = (r, t)"
        using 1(2) False by (subst (asm) poll_loop.simps) (simp add: step)
      have "3 * (MAX_CONSECUTIVE_POLL_FAILURES - failures) = 3 + 3 * (MAX_CONSECUTIVE_POLL_FAILURES - Suc failures)"
        using going(2) by simp
      then show ?thesis
        using 1(1)[OF step refl False loop going(2) 1(4)] e(3) by (simp add: delay_ms_clock)
    qed
  qed
qed

lemma run_detached_no_answer:
  assumes dead: "unreachable api" and launch: "\<And>n c. \<exists>d. sb_launch api n c = Settles d ()"
    and run: "run_detached api env tag label script timeoutMs allowFailure s = (r, t)"
    and limit: "boundedTimeout env timeoutMs s = Inr limit"
    and tag: "detachedCommand tag (re_preamble env @ ''; '' @ script) = Some wrapped"
  shows "r \<in> {Inl (Failure (stepTimeout label limit)), Inl (sandbox_lost label MAX_CONSECUTIVE_POLL_FAILURES)} \<and>
    waits t \<le> waits s + 43"
proof -
  define d where "d = \<lparr>ds_tag = tag, ds_label = label, ds_allowFailure = allowFailure, ds_timeoutMs = limit,
                   ds_started = now_ms s, ds_logCount = length (ru_stepLog s)\<rparr>"
  let ?s = "s\<lparr>ru_evidence := ru_evidence s @ [new_evidence env d], ru_captured := False\<rparr>"
  obtain a u where u: "launch_and_poll api env d script ?s = (a, u)" by fastforce
  obtain b w where w: "limited api (sb_launch api (waits ?s) (launch_text (re_runner env) wrapped)) (remaining_ms d ?s) (ds_timeout d) ?s =
      (b, w)" by fastforce
  have "b = Inl (Failure (ds_timeout d)) \<or> b = Inr ()"
    using w launch[of "waits ?s" "launch_text (re_runner env) wrapped"]
    by (auto simp: limited_def withTimeout_def Let_def split: if_splits)
  moreover have wrapped: "detachedCommand (ds_tag d) (re_preamble env @ ''; '' @ script) = Some wrapped"
    using tag by (simp add: d_def)
  ultimately consider "a = Inl (Failure (ds_timeout d))" "u = w"
    | "poll_loop api env d 0 0 (update_evidence (\<lambda>v. v\<lparr>de_state := LaunchAccepted\<rparr>) w) = (a, u)"
    using u w by (auto simp: launch_and_poll_def)
  then have au: "a \<in> {Inl (Failure (ds_timeout d)), Inl (sandbox_lost (ds_label d) MAX_CONSECUTIVE_POLL_FAILURES)} \<and>
      waits u \<le> waits s + 40"
  proof cases
    case 1
    then show ?thesis using limited_clock(3)[OF w] by simp
  next
    case 2
    from poll_loop_no_answer[OF dead this] limited_clock(3)[OF w] show ?thesis
      by (auto simp: MAX_CONSECUTIVE_POLL_FAILURES_def)
  qed
  then obtain e where e: "a = Inl e" by auto
  then have "r = Inl e" "t = detached_catch api env d e u"
    using run limit u by (auto simp: run_detached_def d_def[symmetric] Let_def)
  moreover have "waits (detached_catch api env d e u) \<le> waits u + 3"
    using recover_no_answer[OF dead, of env d u] by (simp add: detached_catch_def recordStep_def Let_def)
  ultimately show ?thesis using au e by (auto simp: ds_timeout_def d_def)
qed

section \<open>Concrete sandboxes\<close>

text \<open>
  A sandbox that answers at once: its step ended with code 0 and printed a line. Another serves a log of
  200,000 zero bytes over a transport that keeps 262,144 characters; and one that only accepts the launch.
\<close>

definition step_env :: runner_env where
  "step_env =
     \<lparr>re_runner = SessionStepRunner (Some 60000), re_phase = BenchmarkPhase, re_phaseDeadline = None,
      re_preamble = ''set -e'', re_redact = (\<lambda>x. x), re_decodeText = map (\<lambda>b. char_of (unat b))\<rparr>"

definition step_tag :: string where
  "step_tag = ''bench-a1''"

definition fresh_runner :: runner_state where
  "fresh_runner = \<lparr>now_ms = 0, waits = 0, ru_pollFs = True, ru_stepLog = [], ru_evidence = [], ru_captured = False\<rparr>"

definition quick_sandbox :: sandbox_api where
  "quick_sandbox =
     \<lparr>sb_late = (\<lambda>_. 0), sb_execute = (\<lambda>n c. Settles 5 \<lparr>sr_exit = Exited 0, sr_stdout = Some []\<rparr>),
      sb_launch = (\<lambda>n c. Settles 5 ()), sb_exists = (\<lambda>n p. Settles 5 True),
      sb_readFile = (\<lambda>n p. Settles 5 (if p = done_path step_tag then receipt step_tag 0 else ''ok''))\<rparr>"

definition dead_api :: sandbox_api where
  "dead_api =
     \<lparr>sb_late = (\<lambda>_. 0), sb_execute = (\<lambda>n c. Hangs), sb_launch = (\<lambda>n c. Settles 5 ()), sb_exists = (\<lambda>n p. Hangs),
      sb_readFile = (\<lambda>n p. Hangs)\<rparr>"

definition zero_log :: "8 word list" where
  "zero_log = replicate 200000 0"

definition log_api :: sandbox_api where
  "log_api =
     dead_api\<lparr>sb_execute := (\<lambda>n c. Settles 5 \<lparr>sr_exit = Exited 0, sr_stdout = Some (last_n 262144
        (if c = size_command ''/tmp/log'' then nat_string (length zero_log)
         else if c = cat_command ''/tmp/log'' then map (\<lambda>b. char_of (unat b)) zero_log
         else if c = chunk_command ''/tmp/log'' (0 * EXEC_LOG_READ_CHUNK_BYTES) (slice_length zero_log 0)
         then to_base64 (log_slice zero_log 0) else to_base64 (log_slice zero_log 1)))\<rparr>)\<rparr>"

lemma step_tag_valid: "detachedCommand step_tag command \<noteq> None"
  by (simp add: detachedCommand_def step_tag_def strip_prefix_def tag_char_def Let_def)

lemma receipt_is_read: "completionCode (receipt step_tag 0) step_tag = Some 0"
  by (subst completionCode_iff) (simp add: step_tag_def name_char_def)

lemma paths_differ: "log_path step_tag \<noteq> done_path step_tag"
  by (simp add: log_path_def done_path_def step_tag_def)

lemma quick_runs:
  "\<exists>t. run_detached quick_sandbox step_env step_tag ''build'' ''make'' 60000 False fresh_runner =
     (Inr \<lparr>sr_exit = Exited 0, sr_stdout = Some ''ok''\<rparr>, t)"
proof -
  obtain wrapped where "detachedCommand step_tag (''set -e; make'') = Some wrapped" using step_tag_valid by blast
  moreover have "path_identity (done_path step_tag) = step_tag"
    by (rule path_identity_done) (simp add: step_tag_def)
  moreover have "receipt step_tag 0 \<noteq> []" by (simp add: receipt_def)
  moreover have "log_path step_tag \<noteq> done_path step_tag" by (rule paths_differ)
  ultimately show ?thesis
    using receipt_is_read
    by (simp add: run_detached_def boundedTimeout_def step_env_def launch_and_poll_def limited_def withTimeout_def
        timer_limit_def remaining_ms_def ds_deadline_def fresh_runner_def quick_sandbox_def poll_loop.simps poll_step_def
        poll_once_def cut_off_def pollDoneOnce_def pollDoneViaFs_def observed_def observationBudget_def POLL_CAP_MS_def
        elapse_def update_evidence_def note_poll_def finish_detached_def readCompletedLog_def readback_once_def
        eval_nat_numeral finishStep_def recordStep_def Let_def)
qed

section \<open>Properties\<close>

text \<open>
  Property C37. A detached step that reports exit code 0 has succeeded: the sandbox handed over the
  completion receipt of this very command with code 0, by a file read or an exec poll, and the output
  reported is the step's log as it was read back. A sandbox that answers with anything else, an empty
  file, another command's receipt or a truncated one, cannot make a step succeed.
\<close>

theorem detached_success_was_observed:
  assumes "run_detached api env tag label script timeoutMs allowFailure s = (Inr res, t)" "sr_exit res = Exited 0"
  shows "\<exists>n d raw out.
    (raw = receipt tag 0 \<or> raw @ [CHR 0x0A] = receipt tag 0) \<and>
    (sb_readFile api n (done_path tag) = Settles d raw \<or>
     sb_execute api n (poll_command (done_path tag)) = Settles d \<lparr>sr_exit = Exited 0, sr_stdout = Some raw\<rparr>) \<and>
    sr_stdout res = Some out \<and> log_seen api env (log_path tag) out"
proof -
  obtain limit where limit: "boundedTimeout env timeoutMs s = Inr limit"
    using assms(1) by (cases "boundedTimeout env timeoutMs s") (simp_all add: run_detached_def)
  obtain code out where res: "res = completed_result (re_runner env) code out" "log_seen api env (log_path tag) out"
    and seen: "receipt_seen api tag code"
    using run_detached_returns[OF assms(1) limit] by blast
  have "code = Some 0"
    using assms(2) res(1) by (cases "re_runner env"; cases code) auto
  then obtain n d raw where "completionCode raw tag = Some 0"
    "sb_readFile api n (done_path tag) = Settles d raw \<or>
     sb_execute api n (poll_command (done_path tag)) = Settles d \<lparr>sr_exit = Exited 0, sr_stdout = Some raw\<rparr>"
    using seen by (auto simp: receipt_seen_def)
  moreover have "sr_stdout res = Some out" using res(1) by (cases "re_runner env") simp_all
  ultimately show ?thesis using res(2) by (auto simp: completionCode_iff)
qed

theorem detached_success_was_observed_witness:
  "\<exists>n d raw. (raw = receipt step_tag 0 \<or> raw @ [CHR 0x0A] = receipt step_tag 0) \<and>
     sb_readFile quick_sandbox n (done_path step_tag) = Settles d raw"
proof -
  obtain t where run: "run_detached quick_sandbox step_env step_tag ''build'' ''make'' 60000 False fresh_runner =
     (Inr \<lparr>sr_exit = Exited 0, sr_stdout = Some ''ok''\<rparr>, t)" using quick_runs by blast
  have "receipt step_tag 0 \<noteq> []" "\<not> [] @ [CHR 0x0A] = receipt step_tag 0" by (simp_all add: receipt_def)
  with detached_success_was_observed[OF run] show ?thesis by (fastforce simp: quick_sandbox_def)
qed

text \<open>
  Property C38. A detached step whose phase deadline has passed is refused and leaves nothing. Every other run
  of one leaves exactly one entry in the log of steps and one piece of evidence, whether it returned,
  failed, timed out or lost its sandbox. A code in the evidence is in the entry too, and only when the
  step's receipt was seen; an entry has a code that the evidence has not only on the legacy runner, which
  enters 1 for a receipt it could not read. A step returns only with code 0 or when its failure is allowed;
  completed evidence has a code, and a step that fails although it completed has a code other than 0 that
  is not allowed.
\<close>

theorem detached_step_accounted:
  assumes "run_detached api env tag label script timeoutMs allowFailure s = (r, t)"
  shows "if \<exists>due. re_phaseDeadline env = Some due \<and> due \<le> now_ms s
    then r = Inl (plain ''phase deadline exceeded'') \<and> t = s
    else \<exists>entry ev. ru_stepLog t = ru_stepLog s @ [entry] \<and> ru_evidence t = ru_evidence s @ [ev] \<and>
      sl_phase entry = re_phase env \<and> sl_label entry = label \<and> sl_allowFailure entry = allowFailure \<and>
      de_identity ev = tag \<and> de_label ev = label \<and>
      (\<forall>c. de_exitCode ev = Some c \<longrightarrow> receipt_seen api tag (Some c) \<and> sl_exitCode entry = Some (int c)) \<and>
      (de_exitCode ev = None \<longrightarrow>
         sl_exitCode entry = None \<or> (\<exists>bound. re_runner env = StepRunner bound \<and> sl_exitCode entry = Some 1)) \<and>
      (de_state ev = CompletedState \<longrightarrow> de_exitCode ev \<noteq> None) \<and>
      (\<forall>res. r = Inr res \<longrightarrow> sl_exitCode entry = exit_code (sr_exit res) \<and> (sl_exitCode entry = Some 0 \<or> allowFailure)) \<and>
      (\<forall>e. r = Inl e \<and> de_state ev = CompletedState \<longrightarrow> sl_exitCode entry \<noteq> Some 0 \<and> \<not> allowFailure)"
proof (cases "boundedTimeout env timeoutMs s")
  case (Inl e)
  then have "\<exists>due. re_phaseDeadline env = Some due \<and> due \<le> now_ms s" "e = plain ''phase deadline exceeded''"
    by (auto simp: boundedTimeout_def split: option.splits if_splits)
  moreover have "r = Inl e" "t = s" using assms Inl by (simp_all add: run_detached_def)
  ultimately show ?thesis by simp
next
  case (Inr limit)
  then have cond: "(\<exists>due. re_phaseDeadline env = Some due \<and> due \<le> now_ms s) = False"
    by (auto simp: boundedTimeout_def split: option.splits if_splits)
  have unread: "sl_exitCode entry = None \<or> (\<exists>bound. re_runner env = StepRunner bound \<and> sl_exitCode entry = Some 1)"
    if "sl_exitCode entry \<in> {None, exit_code (sr_exit (completed_result (re_runner env) None []))}" for entry
    using that by (cases "re_runner env") auto
  show ?thesis
    unfolding cond if_False using run_detached_books[OF assms Inr] unread
    by (elim exE conjE) (intro exI conjI; blast)
qed

theorem detached_step_accounted_witness:
  "\<exists>r t. run_detached dead_api step_env step_tag ''build'' ''make'' 60000 False fresh_runner = (r, t) \<and>
     length (ru_stepLog t) = 1 \<and> length (ru_evidence t) = 1"
proof -
  obtain r t where run: "run_detached dead_api step_env step_tag ''build'' ''make'' 60000 False fresh_runner = (r, t)"
    by fastforce
  have "re_phaseDeadline step_env = None" by (simp add: step_env_def)
  with detached_step_accounted[OF run] run show ?thesis by (auto simp: fresh_runner_def)
qed

text \<open>
  Property C39. A sandbox that answers nothing from the accepted launch on is given up after a bounded number
  of calls. When every exec and every file call rejects or hangs after the launch, a detached step never returns a result: it
  fails with the timeout of the step or with the loss of the sandbox after twelve polls in a row, and at
  most 43 waits were made, however long the budget of the step is.
\<close>

theorem dead_sandbox_given_up:
  assumes "unreachable api" "\<And>n c. \<exists>d. sb_launch api n c = Settles d ()"
    and "run_detached api env tag label script timeoutMs allowFailure s = (r, t)"
    and "boundedTimeout env timeoutMs s = Inr limit"
    and "detachedCommand tag (re_preamble env @ ''; '' @ script) = Some wrapped"
  shows "r \<in> {Inl (Failure (stepTimeout label limit)), Inl (sandbox_lost label MAX_CONSECUTIVE_POLL_FAILURES)} \<and>
    waits t \<le> waits s + 43"
  using run_detached_no_answer[OF assms] .

theorem dead_sandbox_given_up_witness:
  "\<exists>e t. run_detached dead_api step_env step_tag ''build'' ''make'' 60000 False fresh_runner = (Inl e, t) \<and> waits t \<le> 43"
proof -
  obtain r t where run: "run_detached dead_api step_env step_tag ''build'' ''make'' 60000 False fresh_runner = (r, t)"
    by fastforce
  obtain wrapped where tag: "detachedCommand step_tag (re_preamble step_env @ ''; '' @ ''make'') = Some wrapped"
    using step_tag_valid by blast
  have limit: "boundedTimeout step_env 60000 fresh_runner = Inr 60000" by (simp add: boundedTimeout_def step_env_def)
  have dead: "unreachable dead_api" "\<And>n c. \<exists>d. sb_launch dead_api n c = Settles d ()"
    by (simp_all add: unreachable_def no_answer_def dead_api_def)
  from dead_sandbox_given_up[OF dead run limit tag] run show ?thesis by (auto simp: fresh_runner_def)
qed

lemma bash_inj: "bash a = bash b \<longleftrightarrow> a = b"
  unfolding bash_def by (metis option.inject same_append_eq shell_word)

text \<open>
  Property C40. A large log survives a transport that truncates. When the guest prints its size, its bytes
  and the base64 of its slices, and the transport keeps only the last \<open>cap\<close> characters of an output, with
  \<open>cap\<close> at least the 256 KiB of one slice, the log that is read back is the decoding of all its bytes: the
  slices are decoded separately and joined as bytes, so nothing is lost at a slice's end or in front.
\<close>

theorem large_log_read_whole:
  assumes "serves_log api env cap took path bytes" "\<And>n. took n \<le> POLL_CAP_MS"
    and "4 * (EXEC_LOG_READ_CHUNK_BYTES div 3) \<le> cap" "length (nat_string (length bytes)) \<le> cap"
    and "re_decodeText env [] = []" "\<And>bs. length (re_decodeText env bs) \<le> length bs"
  shows "fst (catLogOrNull api env path None s) = Some (re_decodeText env bytes)"
  using catLogOrNull_served[OF assms] .

theorem large_log_read_whole_witness:
  "fst (catLogOrNull log_api step_env ''/tmp/log'' None fresh_runner) = Some (replicate 200000 (CHR 0x00))"
proof -
  have commands: "cat_command ''/tmp/log'' \<noteq> size_command ''/tmp/log''"
    "chunk_command ''/tmp/log'' a b \<noteq> size_command ''/tmp/log''" "chunk_command ''/tmp/log'' a b \<noteq> cat_command ''/tmp/log''" for a b
    by (simp_all add: cat_command_def size_command_def chunk_command_def bash_inj)
  have slices: "chunk_command ''/tmp/log'' (1 * EXEC_LOG_READ_CHUNK_BYTES) (slice_length zero_log 1) \<noteq>
      chunk_command ''/tmp/log'' (0 * EXEC_LOG_READ_CHUNK_BYTES) (slice_length zero_log 0)"
  proof -
    have numerals: "nat_string (0 * EXEC_LOG_READ_CHUNK_BYTES) = ''0''" "nat_string (1 * EXEC_LOG_READ_CHUNK_BYTES) = ''196608''"
      by (simp_all add: EXEC_LOG_READ_CHUNK_BYTES_def nat_string.simps digit_texts)
    then show ?thesis unfolding chunk_command_def bash_inj numerals by simp
  qed
  have two: "k = 0 \<or> k = 1" if "k * EXEC_LOG_READ_CHUNK_BYTES < length zero_log" for k
    using that by (cases k) (auto simp: EXEC_LOG_READ_CHUNK_BYTES_def zero_log_def)
  have exec: "sb_execute log_api n c = Settles 5 \<lparr>sr_exit = Exited 0, sr_stdout = Some (last_n 262144
        (if c = size_command ''/tmp/log'' then nat_string (length zero_log)
         else if c = cat_command ''/tmp/log'' then map (\<lambda>b. char_of (unat b)) zero_log
         else if c = chunk_command ''/tmp/log'' (0 * EXEC_LOG_READ_CHUNK_BYTES) (slice_length zero_log 0)
         then to_base64 (log_slice zero_log 0) else to_base64 (log_slice zero_log 1)))\<rparr>" for n c
    by (simp add: log_api_def)
  have served: "serves_log log_api step_env 262144 (\<lambda>_. 5) ''/tmp/log'' zero_log"
    unfolding serves_log_def
  proof (intro conjI allI impI)
    show "sb_execute log_api n (size_command ''/tmp/log'') =
        Settles 5 \<lparr>sr_exit = Exited 0, sr_stdout = Some (last_n 262144 (nat_string (length zero_log)))\<rparr>" for n
      by (simp only: exec if_True simp_thms)
    show "sb_execute log_api n (cat_command ''/tmp/log'') =
        Settles 5 \<lparr>sr_exit = Exited 0, sr_stdout = Some (last_n 262144 (re_decodeText step_env zero_log))\<rparr>" for n
      using commands by (simp add: exec step_env_def)
    show "sb_execute log_api n (chunk_command ''/tmp/log'' (k * EXEC_LOG_READ_CHUNK_BYTES) (slice_length zero_log k)) =
        Settles 5 \<lparr>sr_exit = Exited 0, sr_stdout = Some (last_n 262144 (to_base64 (log_slice zero_log k)))\<rparr>"
      if "k * EXEC_LOG_READ_CHUNK_BYTES < length zero_log" for n k
      using two[OF that] by (elim disjE) (simp_all only: exec commands slices if_False if_True simp_thms)
  qed
  have digits: "nat_string 200000 = ''200000''" by (simp add: nat_string.simps digit_texts)
  have "fst (catLogOrNull log_api step_env ''/tmp/log'' None fresh_runner) = Some (re_decodeText step_env zero_log)"
    by (rule large_log_read_whole[OF served])
      (simp_all add: POLL_CAP_MS_def EXEC_LOG_READ_CHUNK_BYTES_def zero_log_def digits step_env_def)
  also have "re_decodeText step_env zero_log = replicate 200000 (CHR 0x00)"
  proof -
    have "char_of (0 :: nat) = CHR 0x00" by code_simp
    then show ?thesis by (simp add: step_env_def zero_log_def map_replicate)
  qed
  finally show ?thesis .
qed

end
