(* ===== verification/Lifecycle.thy ===== *)
theory Lifecycle
  imports Waits Economics
begin

text \<open>
  The lifecycle and control-plane benchmark (\<open>packages/harness/src/lib/lifecycle.ts\<close> and
  \<open>benchmarkCycles\<close> of \<open>packages/harness/src/index.ts\<close>): one cold-start cycle against a sandbox, the two
  integrations it can be driven through, the repetition of cycles, and the aggregation of what was
  timed. A call that never settles makes a cycle that never returns, which is \<open>None\<close>.
\<close>

section \<open>Operations of an integration\<close>

text \<open>
  The operations of a cycle on its one sandbox. The \<open>n\<close>-th wait of the cycle is answered by the
  operation it calls, at \<open>n\<close>; what the code does not read of an answer is not kept.
\<close>

record cycle_operations =
  op_create :: "nat \<Rightarrow> unit reply"
  op_exec :: "nat \<Rightarrow> string \<Rightarrow> unit reply"
  op_ready :: "nat \<Rightarrow> bool reply"
  op_info :: "(nat \<Rightarrow> unit reply) option"
  op_list :: "(nat \<Rightarrow> unit reply) option"
  op_snapshot :: "((nat \<Rightarrow> string reply) \<times> (nat \<Rightarrow> string \<Rightarrow> unit reply)) option"
  op_destroy :: "nat \<Rightarrow> unit reply"

text \<open>A ComputeSDK provider.\<close>

record lifecycle_compute =
  lc_create :: "nat \<Rightarrow> unit reply"
  lc_runCommand :: "nat \<Rightarrow> string \<Rightarrow> int reply"
  lc_getInfo :: "(nat \<Rightarrow> unit reply) option"
  lc_destroy :: "nat \<Rightarrow> unit reply"
  lc_list :: "(nat \<Rightarrow> unit reply) option"
  lc_snapshot :: "((nat \<Rightarrow> string reply) \<times> (nat \<Rightarrow> string \<Rightarrow> unit reply)) option"

definition compute_operations :: "lifecycle_compute \<Rightarrow> cycle_operations" where
  "compute_operations C =
     \<lparr>op_create = lc_create C,
      op_exec = (\<lambda>n command. map_reply (\<lambda>_. ()) (lc_runCommand C n command)),
      op_ready = (\<lambda>n. map_reply (\<lambda>code. code = 0) (lc_runCommand C n ''echo ok'')),
      op_info = lc_getInfo C,
      op_list = lc_list C,
      op_snapshot = lc_snapshot C,
      op_destroy = lc_destroy C\<rparr>"

text \<open>
  A driver. Of a listing the code reads whether it is an array; \<open>describe\<close> is preferred to \<open>observe\<close>.
\<close>

record sandbox_driver =
  sd_create :: "nat \<Rightarrow> unit reply"
  sd_exec :: "nat \<Rightarrow> string \<Rightarrow> exit_status reply"
  sd_describe :: "(nat \<Rightarrow> unit reply) option"
  sd_observe :: "(nat \<Rightarrow> unit reply) option"
  sd_list :: "(nat \<Rightarrow> bool reply) option"
  sd_snapshots :: "((nat \<Rightarrow> string reply) \<times> (nat \<Rightarrow> string \<Rightarrow> unit reply)) option"
  sd_destroy :: "nat \<Rightarrow> unit reply"

fun checked_list :: "bool reply \<Rightarrow> unit reply" where
  "checked_list (Settles d is_array) =
     (if is_array then Settles d ()
      else Throws d \<lparr>th_reason = ''driver probes.list returned a non-array result'', th_cause = None\<rparr>)"
| "checked_list (Throws d e) = Throws d e"
| "checked_list Hangs = Hangs"

definition driver_operations :: "sandbox_driver \<Rightarrow> cycle_operations" where
  "driver_operations D =
     \<lparr>op_create = sd_create D,
      op_exec = (\<lambda>n command. map_reply (\<lambda>_. ()) (sd_exec D n command)),
      op_ready = (\<lambda>n. map_reply succeeded (sd_exec D n ''echo ok'')),
      op_info = (case sd_describe D of Some f \<Rightarrow> Some f | None \<Rightarrow> sd_observe D),
      op_list = map_option (\<lambda>f n. checked_list (f n)) (sd_list D),
      op_snapshot = sd_snapshots D,
      op_destroy = sd_destroy D\<rparr>"

section \<open>Samples and gaps of a cycle\<close>

record raw_run =
  rr_provider :: string
  rr_operation :: string
  rr_durationMs :: real

record lifecycle_measurement = clocked +
  lm_samples :: "raw_run list"
  lm_gaps :: "result_gap list"

record measure_options =
  mo_provider :: string
  mo_execCommand :: "string option"
  mo_controlPlaneSamples :: "jsnum option"
  mo_snapshot :: "bool option"
  mo_readinessMaxAttempts :: "jsnum option"
  mo_readinessRetryDelayMs :: "jsnum option"
  mo_payload :: "bool option"

text \<open>\<open>Number.EPSILON\<close>: a duration is never zero.\<close>

definition EPSILON :: real where
  "EPSILON = 1 / 2 ^ 52"

definition floor_ms :: "real \<Rightarrow> real" where
  "floor_ms ms = max ms EPSILON"

lemma floor_ms_pos [simp]: "0 < floor_ms ms"
  by (simp add: floor_ms_def EPSILON_def)

definition sample :: "string \<Rightarrow> string \<Rightarrow> real \<Rightarrow> lifecycle_measurement \<Rightarrow> lifecycle_measurement" where
  "sample provider i ms s =
     s\<lparr>lm_samples := lm_samples s @ [\<lparr>rr_provider = provider, rr_operation = i, rr_durationMs = ms\<rparr>]\<rparr>"

definition skip :: "string \<Rightarrow> string \<Rightarrow> gap_cause option \<Rightarrow> lifecycle_measurement \<Rightarrow> lifecycle_measurement" where
  "skip i reason cause s =
     s\<lparr>lm_gaps := lm_gaps s @ [\<lparr>gap_scope_of = OperationGap, gap_id = i, gap_outcome_of = Skipped,
                                gap_reason = reason, gap_cause_of = cause\<rparr>]\<rparr>"

definition fail :: "string \<Rightarrow> string \<Rightarrow> gap_cause option \<Rightarrow> lifecycle_measurement \<Rightarrow> lifecycle_measurement" where
  "fail i reason cause s =
     s\<lparr>lm_gaps := lm_gaps s @ [\<lparr>gap_scope_of = OperationGap, gap_id = i, gap_outcome_of = FailedGap,
                                gap_reason = reason, gap_cause_of = cause\<rparr>]\<rparr>"

text \<open>The wording of what was not attempted.\<close>

definition PAYLOAD_DISABLED :: string where
  "PAYLOAD_DISABLED = ''64KiB payload exec disabled for this run''"

definition NO_LIST_OP :: string where
  "NO_LIST_OP = ''the provider integration under measurement exposes no sandbox list operation''"

definition NO_INFO_OP :: string where
  "NO_INFO_OP = ''the provider integration under measurement exposes no sandbox info operation''"

definition SNAPSHOT_DISABLED :: string where
  "SNAPSHOT_DISABLED = ''snapshot measurement disabled for this run''"

definition NO_SNAPSHOT_OP :: string where
  "NO_SNAPSHOT_OP = ''the provider integration under measurement exposes no snapshot operation''"

definition DISABLED_CAUSE :: gap_cause where
  "DISABLED_CAUSE = MeasurementDisabled None"

definition PAYLOAD_CMD :: string where
  \<open>PAYLOAD_CMD = ''head -c 65536 /dev/zero | tr '' @ [CHR 0x27, CHR 0x5C] @ ''0'' @ [CHR 0x27] @ '' '' @
     [CHR 0x27] @ ''a'' @ [CHR 0x27]\<close>

section \<open>One cycle\<close>

text \<open>A timed call, one sample when it settles and one failed gap when it rejects.\<close>

definition timed_step :: "string \<Rightarrow> string \<Rightarrow> (nat \<Rightarrow> unit reply) \<Rightarrow> lifecycle_measurement \<Rightarrow> lifecycle_measurement option" where
  "timed_step provider i call s =
     (case await (call (waits s)) s of
        None \<Rightarrow> None
      | Some (Inr _, t) \<Rightarrow> Some (sample provider i (floor_ms (now_ms t - now_ms s)) t)
      | Some (Inl e, t) \<Rightarrow> Some (fail i (th_reason e) (gapCauseOf e) t))"

primrec repeat_step ::
  "nat \<Rightarrow> string \<Rightarrow> string \<Rightarrow> (nat \<Rightarrow> unit reply) \<Rightarrow> lifecycle_measurement \<Rightarrow> lifecycle_measurement option" where
  "repeat_step 0 provider i call s = Some s"
| "repeat_step (Suc n) provider i call s =
     Option.bind (timed_step provider i call s) (repeat_step n provider i call)"

text \<open>The snapshot is deleted afterwards, and a delete that rejects changes nothing.\<close>

definition snapshot_step ::
  "string \<Rightarrow> (nat \<Rightarrow> string reply) \<Rightarrow> (nat \<Rightarrow> string \<Rightarrow> unit reply) \<Rightarrow> lifecycle_measurement \<Rightarrow> lifecycle_measurement option" where
  "snapshot_step provider create delete s =
     (case await (create (waits s)) s of
        None \<Rightarrow> None
      | Some (Inl e, t) \<Rightarrow> Some (fail (hid_snapshot HARNESS_METRIC_IDS) (th_reason e) None t)
      | Some (Inr i, t) \<Rightarrow>
          map_option snd
            (await (delete (waits t) i)
              (sample provider (hid_snapshot HARNESS_METRIC_IDS) (floor_ms (now_ms t - now_ms s)) t)))"

definition wantSnapshot :: "measure_options \<Rightarrow> bool" where
  "wantSnapshot opts = (case mo_snapshot opts of None \<Rightarrow> True | Some b \<Rightarrow> b)"

definition wantPayload :: "measure_options \<Rightarrow> bool" where
  "wantPayload opts = (case mo_payload opts of None \<Rightarrow> True | Some b \<Rightarrow> b)"

text \<open>A count of the caller: at least one, and the fallback when it is not finite.\<close>

fun finite_count :: "jsnum \<Rightarrow> nat \<Rightarrow> nat" where
  "finite_count (Fin r) fallback = nat (max 1 \<lfloor>r\<rfloor>)"
| "finite_count _ fallback = fallback"

definition control_plane_samples :: "measure_options \<Rightarrow> nat" where
  "control_plane_samples opts =
     finite_count (case mo_controlPlaneSamples opts of None \<Rightarrow> Fin 1 | Some x \<Rightarrow> x) 1"

definition readiness_attempts :: "measure_options \<Rightarrow> nat" where
  "readiness_attempts opts =
     finite_count (case mo_readinessMaxAttempts opts of None \<Rightarrow> Fin 40 | Some x \<Rightarrow> x) 40"

definition readiness_delay :: "measure_options \<Rightarrow> real" where
  "readiness_delay opts =
     (case (case mo_readinessRetryDelayMs opts of None \<Rightarrow> Fin 250 | Some x \<Rightarrow> x) of
        Fin r \<Rightarrow> max 0 r
      | _ \<Rightarrow> 250)"

definition cycle_readiness :: "measure_options \<Rightarrow> readiness_options" where
  "cycle_readiness opts =
     \<lparr>ro_maxAttempts = Some (Fin (real (readiness_attempts opts))),
      ro_retryDelayMs = Some (Fin (readiness_delay opts)),
      ro_probeTimeoutMs = Some (Fin 2000)\<rparr>"

text \<open>What a sandbox that never became ready leaves: failures of what would have been attempted.\<close>

definition never_ready ::
  "cycle_operations \<Rightarrow> measure_options \<Rightarrow> string \<Rightarrow> lifecycle_measurement \<Rightarrow> lifecycle_measurement" where
  "never_ready ops opts reason s =
     (let s1 = fail (hid_firstExec HARNESS_METRIC_IDS) reason None s;
          s2 = fail (hid_coldStart HARNESS_METRIC_IDS) reason None s1;
          s3 = fail (hid_exec HARNESS_METRIC_IDS) reason None s2;
          s4 = (if op_info ops \<noteq> None then fail (hid_controlPlaneInfo HARNESS_METRIC_IDS) reason None s3
                else skip (hid_controlPlaneInfo HARNESS_METRIC_IDS) NO_INFO_OP (Some (UnsupportedOperation (Some NO_INFO_OP))) s3);
          s5 = (if wantPayload opts then fail (hid_execPayload64k HARNESS_METRIC_IDS) reason None s4
                else skip (hid_execPayload64k HARNESS_METRIC_IDS) PAYLOAD_DISABLED (Some DISABLED_CAUSE) s4);
          s6 = (if op_list ops \<noteq> None then fail (hid_controlPlaneList HARNESS_METRIC_IDS) reason None s5
                else skip (hid_controlPlaneList HARNESS_METRIC_IDS) NO_LIST_OP (Some (UnsupportedOperation (Some NO_LIST_OP))) s5)
      in if \<not> wantSnapshot opts
         then skip (hid_snapshot HARNESS_METRIC_IDS) SNAPSHOT_DISABLED (Some DISABLED_CAUSE) s6
         else if op_snapshot ops = None
         then skip (hid_snapshot HARNESS_METRIC_IDS) NO_SNAPSHOT_OP (Some (UnsupportedOperation (Some NO_SNAPSHOT_OP))) s6
         else fail (hid_snapshot HARNESS_METRIC_IDS) reason None s6)"

text \<open>The parts of the live path, in their order.\<close>

definition exec_part :: "cycle_operations \<Rightarrow> measure_options \<Rightarrow> lifecycle_measurement \<Rightarrow> lifecycle_measurement option" where
  "exec_part ops opts =
     timed_step (mo_provider opts) (hid_exec HARNESS_METRIC_IDS)
       (\<lambda>n. op_exec ops n (case mo_execCommand opts of None \<Rightarrow> ''true'' | Some c \<Rightarrow> c))"

definition payload_part :: "cycle_operations \<Rightarrow> measure_options \<Rightarrow> lifecycle_measurement \<Rightarrow> lifecycle_measurement option" where
  "payload_part ops opts s =
     (if wantPayload opts
      then timed_step (mo_provider opts) (hid_execPayload64k HARNESS_METRIC_IDS) (\<lambda>n. op_exec ops n PAYLOAD_CMD) s
      else Some (skip (hid_execPayload64k HARNESS_METRIC_IDS) PAYLOAD_DISABLED (Some DISABLED_CAUSE) s))"

definition info_part :: "cycle_operations \<Rightarrow> measure_options \<Rightarrow> lifecycle_measurement \<Rightarrow> lifecycle_measurement option" where
  "info_part ops opts s =
     (case op_info ops of
        Some getInfo \<Rightarrow>
          repeat_step (control_plane_samples opts) (mo_provider opts) (hid_controlPlaneInfo HARNESS_METRIC_IDS) getInfo s
      | None \<Rightarrow>
          Some (skip (hid_controlPlaneInfo HARNESS_METRIC_IDS) NO_INFO_OP (Some (UnsupportedOperation (Some NO_INFO_OP))) s))"

definition list_part :: "cycle_operations \<Rightarrow> measure_options \<Rightarrow> lifecycle_measurement \<Rightarrow> lifecycle_measurement option" where
  "list_part ops opts s =
     (case op_list ops of
        Some listSandboxes \<Rightarrow>
          repeat_step (control_plane_samples opts) (mo_provider opts) (hid_controlPlaneList HARNESS_METRIC_IDS) listSandboxes s
      | None \<Rightarrow>
          Some (skip (hid_controlPlaneList HARNESS_METRIC_IDS) NO_LIST_OP (Some (UnsupportedOperation (Some NO_LIST_OP))) s))"

definition snapshot_part :: "cycle_operations \<Rightarrow> measure_options \<Rightarrow> lifecycle_measurement \<Rightarrow> lifecycle_measurement option" where
  "snapshot_part ops opts s =
     (if \<not> wantSnapshot opts
      then Some (skip (hid_snapshot HARNESS_METRIC_IDS) SNAPSHOT_DISABLED (Some DISABLED_CAUSE) s)
      else case op_snapshot ops of
             None \<Rightarrow>
               Some (skip (hid_snapshot HARNESS_METRIC_IDS) NO_SNAPSHOT_OP (Some (UnsupportedOperation (Some NO_SNAPSHOT_OP))) s)
           | Some (create, delete) \<Rightarrow> snapshot_step (mo_provider opts) create delete s)"

definition live_path :: "cycle_operations \<Rightarrow> measure_options \<Rightarrow> lifecycle_measurement \<Rightarrow> lifecycle_measurement option" where
  "live_path ops opts s =
     Option.bind (exec_part ops opts s) (\<lambda>s1.
     Option.bind (payload_part ops opts s1) (\<lambda>s2.
     Option.bind (info_part ops opts s2) (\<lambda>s3.
     Option.bind (list_part ops opts s3) (snapshot_part ops opts))))"

definition cycle_body ::
  "(nat \<Rightarrow> real) \<Rightarrow> cycle_operations \<Rightarrow> measure_options \<Rightarrow> real \<Rightarrow> lifecycle_measurement \<Rightarrow> lifecycle_measurement option" where
  "cycle_body late ops opts t0 s =
     (case waitForReadiness late (op_ready ops) (cycle_readiness opts) s of
        ((ready, attempts), t) \<Rightarrow>
          if \<not> ready then Some (never_ready ops opts (neverReadyReason attempts) t)
          else live_path ops opts
                 (sample (mo_provider opts) (hid_coldStart HARNESS_METRIC_IDS) (floor_ms (now_ms t - t0))
                   (sample (mo_provider opts) (hid_firstExec HARNESS_METRIC_IDS) (floor_ms (now_ms t - now_ms s)) t)))"

definition teardown :: "cycle_operations \<Rightarrow> measure_options \<Rightarrow> lifecycle_measurement \<Rightarrow> lifecycle_measurement option" where
  "teardown ops opts s =
     (case await (op_destroy ops (waits s)) s of
        None \<Rightarrow> None
      | Some (Inr _, t) \<Rightarrow>
          Some (sample (mo_provider opts) (hid_teardown HARNESS_METRIC_IDS) (floor_ms (now_ms t - now_ms s)) t)
      | Some (Inl e, t) \<Rightarrow> Some (fail (hid_teardown HARNESS_METRIC_IDS) (th_reason e) None t))"

definition measureCycle ::
  "(nat \<Rightarrow> real) \<Rightarrow> cycle_operations \<Rightarrow> measure_options \<Rightarrow> real \<Rightarrow> (thrown + lifecycle_measurement) option" where
  "measureCycle late ops opts t0 =
     (case await (op_create ops 0) \<lparr>now_ms = t0, waits = 0, lm_samples = [], lm_gaps = []\<rparr> of
        None \<Rightarrow> None
      | Some (Inl e, s) \<Rightarrow> Some (Inl e)
      | Some (Inr _, s) \<Rightarrow>
          map_option Inr
            (Option.bind
              (cycle_body late ops opts t0
                (sample (mo_provider opts) (hid_spawn HARNESS_METRIC_IDS) (floor_ms (now_ms s - t0)) s))
              (teardown ops opts)))"

definition measureLifecycle ::
  "(nat \<Rightarrow> real) \<Rightarrow> lifecycle_compute \<Rightarrow> measure_options \<Rightarrow> real \<Rightarrow> (thrown + lifecycle_measurement) option" where
  "measureLifecycle late compute = measureCycle late (compute_operations compute)"

definition measureDriverLifecycle ::
  "(nat \<Rightarrow> real) \<Rightarrow> sandbox_driver \<Rightarrow> measure_options \<Rightarrow> real \<Rightarrow> (thrown + lifecycle_measurement) option" where
  "measureDriverLifecycle late driver = measureCycle late (driver_operations driver)"

section \<open>Repeated cycles\<close>

text \<open>\<open>Object.values(HARNESS_METRIC_IDS)\<close>.\<close>

definition harness_metric_ids :: "string list" where
  "harness_metric_ids =
     [hid_spawn HARNESS_METRIC_IDS, hid_coldStart HARNESS_METRIC_IDS, hid_firstExec HARNESS_METRIC_IDS,
      hid_exec HARNESS_METRIC_IDS, hid_snapshot HARNESS_METRIC_IDS, hid_teardown HARNESS_METRIC_IDS,
      hid_controlPlaneInfo HARNESS_METRIC_IDS, hid_controlPlaneList HARNESS_METRIC_IDS,
      hid_execPayload64k HARNESS_METRIC_IDS]"

definition durations_of :: "string \<Rightarrow> raw_run list \<Rightarrow> jsnum list" where
  "durations_of i ss = map (\<lambda>r. Fin (rr_durationMs r)) (filter (\<lambda>r. rr_operation r = i) ss)"

fun aggregate_ids :: "raw_run list \<Rightarrow> string list \<Rightarrow> analysis_error + (string \<times> aggregates) list" where
  "aggregate_ids ss [] = Inr []"
| "aggregate_ids ss (i # ids) =
     (if durations_of i ss = [] then aggregate_ids ss ids
      else and_then (aggregate (durations_of i ss)) (\<lambda>a.
             and_then (aggregate_ids ss ids) (\<lambda>out. Inr ((i, a) # out))))"

definition aggregateLifecycle :: "raw_run list \<Rightarrow> analysis_error + (string \<times> aggregates) list" where
  "aggregateLifecycle ss = aggregate_ids ss harness_metric_ids"

text \<open>The gaps of all cycles, one for each outcome, operation and reason: the first of each.\<close>

definition gap_fact :: "result_gap \<Rightarrow> gap_outcome \<times> string \<times> string" where
  "gap_fact g = (gap_outcome_of g, gap_id g, gap_reason g)"

fun dedup_gaps :: "(gap_outcome \<times> string \<times> string) set \<Rightarrow> result_gap list \<Rightarrow> result_gap list" where
  "dedup_gaps seen [] = []"
| "dedup_gaps seen (g # gs) =
     (if gap_fact g \<in> seen then dedup_gaps seen gs else g # dedup_gaps (insert (gap_fact g) seen) gs)"

definition spawn_failed :: "string \<Rightarrow> result_gap" where
  "spawn_failed reason =
     \<lparr>gap_scope_of = OperationGap, gap_id = hid_spawn HARNESS_METRIC_IDS, gap_outcome_of = FailedGap,
      gap_reason = reason, gap_cause_of = None\<rparr>"

record lifecycle_benchmark =
  lb_provider :: string
  lb_samples :: "raw_run list"
  lb_aggregates :: "(string \<times> aggregates) list"
  lb_gaps :: "result_gap list"

text \<open>
  The loop over the cycles; \<open>cycle_of i\<close> is the \<open>i\<close>-th cycle, and \<open>describe\<close> the text of a rejected
  create (\<open>describeDriverFailure\<close>).
\<close>

fun cycles_loop ::
  "(thrown \<Rightarrow> string) \<Rightarrow> (nat \<Rightarrow> (thrown + lifecycle_measurement) option) \<Rightarrow> nat \<Rightarrow> nat \<Rightarrow>
   raw_run list \<Rightarrow> result_gap list \<Rightarrow> (raw_run list \<times> result_gap list) option" where
  "cycles_loop describe cycle_of i 0 ss gs = Some (ss, gs)"
| "cycles_loop describe cycle_of i (Suc left) ss gs =
     (case cycle_of i of
        None \<Rightarrow> None
      | Some (Inr pass) \<Rightarrow> cycles_loop describe cycle_of (Suc i) left (ss @ lm_samples pass) (gs @ lm_gaps pass)
      | Some (Inl e) \<Rightarrow> cycles_loop describe cycle_of (Suc i) left ss (gs @ [spawn_failed (describe e)]))"

definition benchmarkCycles ::
  "string \<Rightarrow> jsnum option \<Rightarrow> (thrown \<Rightarrow> string) \<Rightarrow> (nat \<Rightarrow> (thrown + lifecycle_measurement) option) \<Rightarrow>
   (analysis_error + lifecycle_benchmark) option" where
  "benchmarkCycles provider iterations describe cycle_of =
     map_option
       (\<lambda>(ss, gs). and_then (aggregateLifecycle ss) (\<lambda>aggs.
          Inr \<lparr>lb_provider = provider, lb_samples = ss, lb_aggregates = aggs, lb_gaps = dedup_gaps {} gs\<rparr>))
       (cycles_loop describe cycle_of 0
         (finite_count (case iterations of None \<Rightarrow> Fin 5 | Some x \<Rightarrow> x) 1) [] [])"

text \<open>Each cycle has its own sandbox, its own timers and its own start.\<close>

definition with_default_probes :: "string \<Rightarrow> measure_options \<Rightarrow> measure_options" where
  "with_default_probes provider opts =
     opts\<lparr>mo_provider := provider,
          mo_controlPlaneSamples := Some (case mo_controlPlaneSamples opts of None \<Rightarrow> Fin 5 | Some x \<Rightarrow> x)\<rparr>"

definition benchmarkLifecycleCompute ::
  "(nat \<Rightarrow> nat \<Rightarrow> real) \<Rightarrow> (nat \<Rightarrow> real) \<Rightarrow> (thrown \<Rightarrow> string) \<Rightarrow> string \<Rightarrow> (nat \<Rightarrow> lifecycle_compute) \<Rightarrow> jsnum option \<Rightarrow>
   measure_options \<Rightarrow> (analysis_error + lifecycle_benchmark) option" where
  "benchmarkLifecycleCompute late starts describe provider compute iterations opts =
     benchmarkCycles provider iterations describe
       (\<lambda>i. measureLifecycle (late i) (compute i) (with_default_probes provider opts) (starts i))"

definition measureLifecycleOperation ::
  "(nat \<Rightarrow> nat \<Rightarrow> real) \<Rightarrow> (nat \<Rightarrow> real) \<Rightarrow> (thrown \<Rightarrow> string) \<Rightarrow> string \<Rightarrow> (nat \<Rightarrow> sandbox_driver) \<Rightarrow> jsnum option \<Rightarrow>
   measure_options \<Rightarrow> (analysis_error + lifecycle_benchmark) option" where
  "measureLifecycleOperation late starts describe provider driver iterations opts =
     benchmarkCycles provider iterations describe
       (\<lambda>i. measureDriverLifecycle (late i) (driver i) (with_default_probes provider opts) (starts i))"

section \<open>Accounting of a cycle\<close>

text \<open>
  What a cycle is meant to record: an operation that this run turned off, or that the integration does
  not have, is skipped; every other operation is measured or has failed.
\<close>

definition not_measured :: "cycle_operations \<Rightarrow> measure_options \<Rightarrow> string set" where
  "not_measured ops opts =
     (if wantPayload opts then {} else {hid_execPayload64k HARNESS_METRIC_IDS}) \<union>
     (if op_info ops = None then {hid_controlPlaneInfo HARNESS_METRIC_IDS} else {}) \<union>
     (if op_list ops = None then {hid_controlPlaneList HARNESS_METRIC_IDS} else {}) \<union>
     (if wantSnapshot opts \<and> op_snapshot ops \<noteq> None then {} else {hid_snapshot HARNESS_METRIC_IDS})"

definition sample_ok :: "cycle_operations \<Rightarrow> measure_options \<Rightarrow> raw_run \<Rightarrow> bool" where
  "sample_ok ops opts r \<longleftrightarrow>
     rr_provider r = mo_provider opts \<and> 0 < rr_durationMs r \<and>
     rr_operation r \<in> set harness_metric_ids \<and> rr_operation r \<notin> not_measured ops opts"

definition gap_ok :: "cycle_operations \<Rightarrow> measure_options \<Rightarrow> result_gap \<Rightarrow> bool" where
  "gap_ok ops opts g \<longleftrightarrow>
     gap_scope_of g = OperationGap \<and> gap_id g \<in> set harness_metric_ids \<and>
     (gap_outcome_of g = Skipped \<longleftrightarrow> gap_id g \<in> not_measured ops opts) \<and>
     (gap_outcome_of g = Skipped \<longrightarrow> gap_cause_of g \<noteq> None \<and> gap_narrow g)"

definition recorded_ok :: "cycle_operations \<Rightarrow> measure_options \<Rightarrow> lifecycle_measurement \<Rightarrow> bool" where
  "recorded_ok ops opts s \<longleftrightarrow>
     (\<forall>r\<in>set (lm_samples s). sample_ok ops opts r) \<and> (\<forall>g\<in>set (lm_gaps s). gap_ok ops opts g)"

definition recorded_ids :: "lifecycle_measurement \<Rightarrow> string set" where
  "recorded_ids s = rr_operation ` set (lm_samples s) \<union> gap_id ` set (lm_gaps s)"

lemmas recorded_defs = recorded_ok_def recorded_ids_def sample_ok_def gap_ok_def

lemma recorded_sample [simp]:
  "recorded_ok ops opts (sample p i ms s) \<longleftrightarrow>
     recorded_ok ops opts s \<and> sample_ok ops opts \<lparr>rr_provider = p, rr_operation = i, rr_durationMs = ms\<rparr>"
  "recorded_ids (sample p i ms s) = insert i (recorded_ids s)"
  by (auto simp: recorded_ok_def recorded_ids_def sample_def)

lemma recorded_fail [simp]:
  "recorded_ok ops opts (fail i reason cause s) \<longleftrightarrow>
     recorded_ok ops opts s \<and> i \<in> set harness_metric_ids \<and> i \<notin> not_measured ops opts"
  "recorded_ids (fail i reason cause s) = insert i (recorded_ids s)"
  by (auto simp: recorded_ok_def recorded_ids_def fail_def gap_ok_def)

lemma recorded_skip [simp]:
  "recorded_ok ops opts (skip i reason (Some c) s) \<longleftrightarrow>
     recorded_ok ops opts s \<and> i \<in> set harness_metric_ids \<and> i \<in> not_measured ops opts \<and>
     cause_narrow c \<and> gapOutcomeOfCause c = Skipped"
  "recorded_ids (skip i reason cause s) = insert i (recorded_ids s)"
  by (auto simp: recorded_ok_def recorded_ids_def skip_def gap_ok_def gap_narrow_def)

text \<open>Time and the number of waits are no part of what is recorded.\<close>

lemma recorded_more:
  assumes "clocked.more t = clocked.more s"
  shows "recorded_ok ops opts t = recorded_ok ops opts s" "recorded_ids t = recorded_ids s"
  using assms by (cases s; cases t; simp add: recorded_ok_def recorded_ids_def)+

lemma samples_more: "clocked.more t = clocked.more s \<Longrightarrow> lm_samples t = lm_samples s"
  by (cases s; cases t) simp

lemma samples_appended [simp]:
  "lm_samples (sample p i ms s) = lm_samples s @ [\<lparr>rr_provider = p, rr_operation = i, rr_durationMs = ms\<rparr>]"
  "lm_samples (fail i reason cause s) = lm_samples s" "lm_samples (skip i reason cause s) = lm_samples s"
  by (simp_all add: sample_def fail_def skip_def)

lemma clock_untouched [simp]:
  "now_ms (sample p i ms s) = now_ms s" "waits (sample p i ms s) = waits s"
  "now_ms (fail i reason cause s) = now_ms s" "waits (fail i reason cause s) = waits s"
  "now_ms (skip i reason cause s) = now_ms s" "waits (skip i reason cause s) = waits s"
  by (simp_all add: sample_def fail_def skip_def)

lemma ids_of_the_catalog [simp]:
  "hid_spawn HARNESS_METRIC_IDS \<in> set harness_metric_ids" "hid_coldStart HARNESS_METRIC_IDS \<in> set harness_metric_ids"
  "hid_firstExec HARNESS_METRIC_IDS \<in> set harness_metric_ids" "hid_exec HARNESS_METRIC_IDS \<in> set harness_metric_ids"
  "hid_snapshot HARNESS_METRIC_IDS \<in> set harness_metric_ids" "hid_teardown HARNESS_METRIC_IDS \<in> set harness_metric_ids"
  "hid_controlPlaneInfo HARNESS_METRIC_IDS \<in> set harness_metric_ids"
  "hid_controlPlaneList HARNESS_METRIC_IDS \<in> set harness_metric_ids"
  "hid_execPayload64k HARNESS_METRIC_IDS \<in> set harness_metric_ids"
  by (simp_all add: harness_metric_ids_def)

lemma always_measured [simp]:
  "hid_spawn HARNESS_METRIC_IDS \<notin> not_measured ops opts" "hid_coldStart HARNESS_METRIC_IDS \<notin> not_measured ops opts"
  "hid_firstExec HARNESS_METRIC_IDS \<notin> not_measured ops opts" "hid_exec HARNESS_METRIC_IDS \<notin> not_measured ops opts"
  "hid_teardown HARNESS_METRIC_IDS \<notin> not_measured ops opts"
  by (simp_all add: not_measured_def HARNESS_METRIC_IDS_def)

lemma not_measured_iff [simp]:
  "hid_execPayload64k HARNESS_METRIC_IDS \<in> not_measured ops opts \<longleftrightarrow> \<not> wantPayload opts"
  "hid_controlPlaneInfo HARNESS_METRIC_IDS \<in> not_measured ops opts \<longleftrightarrow> op_info ops = None"
  "hid_controlPlaneList HARNESS_METRIC_IDS \<in> not_measured ops opts \<longleftrightarrow> op_list ops = None"
  "hid_snapshot HARNESS_METRIC_IDS \<in> not_measured ops opts \<longleftrightarrow> \<not> (wantSnapshot opts \<and> op_snapshot ops \<noteq> None)"
  by (auto simp: not_measured_def HARNESS_METRIC_IDS_def)

text \<open>\<open>records ops opts ids s t\<close>: going from \<open>s\<close> to \<open>t\<close> records exactly \<open>ids\<close>, and as it should.\<close>

definition records ::
  "cycle_operations \<Rightarrow> measure_options \<Rightarrow> string set \<Rightarrow> lifecycle_measurement \<Rightarrow> lifecycle_measurement \<Rightarrow> bool" where
  "records ops opts ids s t \<longleftrightarrow>
     (recorded_ok ops opts s \<longrightarrow> recorded_ok ops opts t) \<and> recorded_ids t = ids \<union> recorded_ids s \<and>
     (\<exists>rs. lm_samples t = lm_samples s @ rs \<and> rr_operation ` set rs \<subseteq> ids)"

lemma records_trans: "records ops opts A s t \<Longrightarrow> records ops opts B t u \<Longrightarrow> records ops opts (A \<union> B) s u"
  by (fastforce simp: records_def)

lemma timed_step_records:
  assumes "timed_step (mo_provider opts) i call s = Some t" "i \<in> set harness_metric_ids" "i \<notin> not_measured ops opts"
  shows "records ops opts {i} s t"
proof -
  obtain v u where u: "await (call (waits s)) s = Some (v, u)"
    using assms(1) by (cases "await (call (waits s)) s") (auto simp: timed_step_def)
  note same = recorded_more[OF await_clock(3)[OF u]] samples_more[OF await_clock(3)[OF u]]
  show ?thesis
    using assms by (cases v) (auto simp: timed_step_def u records_def same sample_ok_def)
qed

lemma repeat_step_records:
  assumes "repeat_step (Suc n) (mo_provider opts) i call s = Some t"
    "i \<in> set harness_metric_ids" "i \<notin> not_measured ops opts"
  shows "records ops opts {i} s t"
  using assms(1)
proof (induction n arbitrary: s)
  case 0
  then show ?case using timed_step_records assms(2,3) by (auto simp: bind_eq_Some_conv)
next
  case (Suc n)
  then obtain u where u: "timed_step (mo_provider opts) i call s = Some u"
    and t: "repeat_step (Suc n) (mo_provider opts) i call u = Some t"
    by (auto simp: bind_eq_Some_conv)
  from records_trans[OF timed_step_records[OF u assms(2,3)] Suc.IH[OF t]] show ?case by simp
qed

lemma control_plane_samples_pos: "\<exists>n. control_plane_samples opts = Suc n"
proof -
  have "0 < finite_count x 1" for x by (cases x) auto
  then show ?thesis unfolding control_plane_samples_def by (metis gr0_implies_Suc)
qed

lemma skip_records:
  "i \<in> set harness_metric_ids \<Longrightarrow> i \<in> not_measured ops opts \<Longrightarrow> cause_narrow c \<Longrightarrow> gapOutcomeOfCause c = Skipped \<Longrightarrow>
   records ops opts {i} s (skip i reason (Some c) s)"
  by (simp add: records_def)

lemma snapshot_step_records:
  assumes "snapshot_step (mo_provider opts) create delete s = Some t" "wantSnapshot opts" "op_snapshot ops \<noteq> None"
  shows "records ops opts {hid_snapshot HARNESS_METRIC_IDS} s t"
proof -
  obtain v u where u: "await (create (waits s)) s = Some (v, u)"
    using assms(1) by (cases "await (create (waits s)) s") (auto simp: snapshot_step_def)
  note same = recorded_more[OF await_clock(3)[OF u]] samples_more[OF await_clock(3)[OF u]]
  show ?thesis
  proof (cases v)
    case (Inl e)
    then have "t = fail (hid_snapshot HARNESS_METRIC_IDS) (th_reason e) None u"
      using assms(1) by (simp add: snapshot_step_def u)
    then show ?thesis using assms(2,3) by (simp add: records_def same)
  next
    case (Inr i)
    let ?m = "sample (mo_provider opts) (hid_snapshot HARNESS_METRIC_IDS) (floor_ms (now_ms u - now_ms s)) u"
    obtain w where w: "await (delete (waits u) i) ?m = Some (w, t)"
      using assms(1) Inr by (auto simp: snapshot_step_def u)
    show ?thesis
      using assms(2,3) recorded_more[OF await_clock(3)[OF w]] samples_more[OF await_clock(3)[OF w]]
      by (simp add: records_def same sample_ok_def)
  qed
qed

lemma live_path_records:
  assumes "live_path ops opts s = Some t"
  shows "records ops opts
    {hid_exec HARNESS_METRIC_IDS, hid_execPayload64k HARNESS_METRIC_IDS, hid_controlPlaneInfo HARNESS_METRIC_IDS,
     hid_controlPlaneList HARNESS_METRIC_IDS, hid_snapshot HARNESS_METRIC_IDS} s t"
proof -
  obtain s1 s2 s3 s4 where parts:
    "exec_part ops opts s = Some s1" "payload_part ops opts s1 = Some s2" "info_part ops opts s2 = Some s3"
    "list_part ops opts s3 = Some s4" "snapshot_part ops opts s4 = Some t"
    using assms by (auto simp: live_path_def bind_eq_Some_conv)
  obtain n where n: "control_plane_samples opts = Suc n" using control_plane_samples_pos by blast
  have "records ops opts {hid_exec HARNESS_METRIC_IDS} s s1"
    using parts(1) by (intro timed_step_records) (auto simp: exec_part_def)
  moreover have "records ops opts {hid_execPayload64k HARNESS_METRIC_IDS} s1 s2"
    using parts(2)
    by (auto simp: payload_part_def DISABLED_CAUSE_def split: if_splits intro: timed_step_records skip_records)
  moreover have "records ops opts {hid_controlPlaneInfo HARNESS_METRIC_IDS} s2 s3"
    using parts(3) n
    by (cases "op_info ops")
      (auto simp: info_part_def simp del: repeat_step.simps intro: repeat_step_records skip_records)
  moreover have "records ops opts {hid_controlPlaneList HARNESS_METRIC_IDS} s3 s4"
    using parts(4) n
    by (cases "op_list ops")
      (auto simp: list_part_def simp del: repeat_step.simps intro: repeat_step_records skip_records)
  moreover have "records ops opts {hid_snapshot HARNESS_METRIC_IDS} s4 t"
    using parts(5)
    by (auto simp: snapshot_part_def DISABLED_CAUSE_def split: if_splits option.splits
        intro: snapshot_step_records skip_records)
  ultimately have "records ops opts
      ({hid_exec HARNESS_METRIC_IDS} \<union> ({hid_execPayload64k HARNESS_METRIC_IDS} \<union> ({hid_controlPlaneInfo HARNESS_METRIC_IDS} \<union>
       ({hid_controlPlaneList HARNESS_METRIC_IDS} \<union> {hid_snapshot HARNESS_METRIC_IDS})))) s t"
    by (blast intro: records_trans)
  then show ?thesis by (simp add: insert_commute)
qed

lemma ids_between:
  "set harness_metric_ids - {hid_spawn HARNESS_METRIC_IDS, hid_teardown HARNESS_METRIC_IDS} =
    {hid_coldStart HARNESS_METRIC_IDS, hid_firstExec HARNESS_METRIC_IDS, hid_exec HARNESS_METRIC_IDS,
     hid_snapshot HARNESS_METRIC_IDS, hid_controlPlaneInfo HARNESS_METRIC_IDS, hid_controlPlaneList HARNESS_METRIC_IDS,
     hid_execPayload64k HARNESS_METRIC_IDS}"
  by (auto simp: harness_metric_ids_def HARNESS_METRIC_IDS_def)

lemma never_ready_records:
  "records ops opts (set harness_metric_ids - {hid_spawn HARNESS_METRIC_IDS, hid_teardown HARNESS_METRIC_IDS})
     s (never_ready ops opts reason s)"
  unfolding ids_between by (auto simp: records_def never_ready_def Let_def DISABLED_CAUSE_def)

lemma cycle_body_records:
  assumes "cycle_body late ops opts t0 s = Some t"
  shows "records ops opts (set harness_metric_ids - {hid_spawn HARNESS_METRIC_IDS, hid_teardown HARNESS_METRIC_IDS}) s t"
proof -
  obtain ready n u where u: "waitForReadiness late (op_ready ops) (cycle_readiness opts) s = ((ready, n), u)"
    by (metis prod.exhaust)
  have same: "recorded_ok ops opts u = recorded_ok ops opts s" "recorded_ids u = recorded_ids s"
      "lm_samples u = lm_samples s"
    using waitForReadiness_attempts[OF u] recorded_more[of u s] samples_more[of u s] by blast+
  show ?thesis
  proof (cases ready)
    case False
    then have t: "t = never_ready ops opts (neverReadyReason n) u"
      using assms by (simp add: cycle_body_def u)
    show ?thesis using never_ready_records[of ops opts u "neverReadyReason n"] by (simp add: records_def same t)
  next
    case True
    let ?m = "sample (mo_provider opts) (hid_coldStart HARNESS_METRIC_IDS) (floor_ms (now_ms u - t0))
                (sample (mo_provider opts) (hid_firstExec HARNESS_METRIC_IDS) (floor_ms (now_ms u - now_ms s)) u)"
    have "live_path ops opts ?m = Some t" using assms True by (simp add: cycle_body_def u)
    moreover have "records ops opts {hid_firstExec HARNESS_METRIC_IDS, hid_coldStart HARNESS_METRIC_IDS} s ?m"
      by (auto simp: records_def same sample_ok_def)
    ultimately have "records ops opts
        ({hid_firstExec HARNESS_METRIC_IDS, hid_coldStart HARNESS_METRIC_IDS} \<union>
         {hid_exec HARNESS_METRIC_IDS, hid_execPayload64k HARNESS_METRIC_IDS, hid_controlPlaneInfo HARNESS_METRIC_IDS,
          hid_controlPlaneList HARNESS_METRIC_IDS, hid_snapshot HARNESS_METRIC_IDS}) s t"
      by (blast intro: records_trans live_path_records)
    then show ?thesis unfolding ids_between by (simp add: insert_commute)
  qed
qed

lemma teardown_records:
  assumes "teardown ops opts s = Some t"
  shows "records ops opts {hid_teardown HARNESS_METRIC_IDS} s t"
proof -
  obtain v u where u: "await (op_destroy ops (waits s)) s = Some (v, u)"
    using assms by (cases "await (op_destroy ops (waits s)) s") (auto simp: teardown_def)
  note same = recorded_more[OF await_clock(3)[OF u]] samples_more[OF await_clock(3)[OF u]]
  show ?thesis
    using assms by (cases v) (auto simp: teardown_def u records_def same sample_ok_def)
qed

lemma measureCycle_parts:
  assumes "measureCycle late ops opts t0 = Some (Inr m)"
  obtains d b where "op_create ops 0 = Settles d ()"
    and "cycle_body late ops opts t0
           (sample (mo_provider opts) (hid_spawn HARNESS_METRIC_IDS) (floor_ms (max 0 d))
             \<lparr>now_ms = t0 + max 0 d, waits = 1, lm_samples = [], lm_gaps = []\<rparr>) = Some b"
    and "teardown ops opts b = Some m"
  using assms
  by (cases "op_create ops 0") (auto simp: measureCycle_def await_def elapse_def bind_eq_Some_conv)

lemma cycle_records:
  assumes "measureCycle late ops opts t0 = Some (Inr m)"
  shows "recorded_ok ops opts m \<and> recorded_ids m = set harness_metric_ids"
proof -
  from measureCycle_parts[OF assms] obtain d b where body: "cycle_body late ops opts t0
      (sample (mo_provider opts) (hid_spawn HARNESS_METRIC_IDS) (floor_ms (max 0 d))
        \<lparr>now_ms = t0 + max 0 d, waits = 1, lm_samples = [], lm_gaps = []\<rparr>) = Some b" (is "cycle_body _ _ _ _ ?s = _")
    and td: "teardown ops opts b = Some m" by metis
  have start: "recorded_ok ops opts ?s" "recorded_ids ?s = {hid_spawn HARNESS_METRIC_IDS}"
    by (simp_all add: sample_ok_def) (simp_all add: recorded_ok_def recorded_ids_def)
  from records_trans[OF cycle_body_records[OF body] teardown_records[OF td]] start
  show ?thesis by (auto simp: records_def)
qed

section \<open>Cold starts\<close>

text \<open>
  The record of a cycle starts with the spawn. When a probe answered, the first exec and the cold start
  follow, and neither appears again; when none did, only the teardown can follow.
\<close>

lemma harness_ids_distinct: "distinct harness_metric_ids"
  by (simp add: harness_metric_ids_def HARNESS_METRIC_IDS_def)

lemma floor_ms_bounds:
  "0 \<le> a \<Longrightarrow> 0 \<le> b \<Longrightarrow>
   floor_ms a \<le> floor_ms (a + b) \<and> floor_ms b \<le> floor_ms (a + b) \<and> floor_ms (a + b) \<le> floor_ms a + floor_ms b"
  by (auto simp: floor_ms_def EPSILON_def max_def)

lemma never_ready_same [simp]:
  "lm_samples (never_ready ops opts reason s) = lm_samples s" "waits (never_ready ops opts reason s) = waits s"
  by (simp_all add: never_ready_def Let_def)

lemma never_ready_fails:
  "\<lparr>gap_scope_of = OperationGap, gap_id = hid_coldStart HARNESS_METRIC_IDS, gap_outcome_of = FailedGap,
    gap_reason = reason, gap_cause_of = None\<rparr> \<in> set (lm_gaps (never_ready ops opts reason s))"
  by (simp add: never_ready_def Let_def fail_def skip_def)

lemma teardown_gaps:
  assumes "teardown ops opts s = Some t"
  shows "set (lm_gaps s) \<subseteq> set (lm_gaps t) \<and> waits t = Suc (waits s)"
proof -
  obtain v u where u: "await (op_destroy ops (waits s)) s = Some (v, u)"
    using assms by (cases "await (op_destroy ops (waits s)) s") (auto simp: teardown_def)
  have "lm_gaps u = lm_gaps s" using await_clock(3)[OF u] by (cases s; cases u) simp
  then show ?thesis
    using assms await_clock(2)[OF u] by (cases v) (auto simp: teardown_def u sample_def fail_def)
qed

definition can_answer :: "cycle_operations \<Rightarrow> bool" where
  "can_answer ops \<longleftrightarrow> (\<exists>k d. op_ready ops k = Settles d True)"

text \<open>
  The probes of a cycle: the create is its wait 0, the \<open>j\<close>-th probe its wait \<open>1 + 2 j\<close>, cut off after two
  seconds (and what its timer is late), and the pause after it is the wait in between. \<open>ready_after j\<close> is the
  time from the sandbox being there to the end of the \<open>j\<close>-th probe.
\<close>

definition probe_answers :: "(nat \<Rightarrow> real) \<Rightarrow> cycle_operations \<Rightarrow> nat \<Rightarrow> bool" where
  "probe_answers late ops j \<longleftrightarrow> (\<exists>d. op_ready ops (1 + 2 * j) = Settles d True \<and> d \<le> 2000 + max 0 (late (1 + 2 * j)))"

definition ready_after :: "(nat \<Rightarrow> real) \<Rightarrow> cycle_operations \<Rightarrow> measure_options \<Rightarrow> nat \<Rightarrow> real" where
  "ready_after late ops opts j =
     (\<Sum>i<j. probe_takes late (op_ready ops) 2000 (1 + 2 * i) + pause_takes late (of_int \<lfloor>readiness_delay opts\<rfloor>) (2 + 2 * i)) +
     probe_takes late (op_ready ops) 2000 (1 + 2 * j)"

lemma readiness_attempts_pos: "0 < readiness_attempts opts"
proof -
  have "0 < finite_count x 40" for x by (cases x) auto
  then show ?thesis by (simp add: readiness_attempts_def)
qed

lemma cycle_body_cold_start:
  assumes "cycle_body late ops opts t0 s = Some t" "waits s = 1"
  shows "(\<exists>n<readiness_attempts opts. \<exists>rs. probe_answers late ops n \<and> (\<forall>j<n. \<not> probe_answers late ops j) \<and>
          lm_samples t = lm_samples s @
            [\<lparr>rr_provider = mo_provider opts, rr_operation = hid_firstExec HARNESS_METRIC_IDS,
              rr_durationMs = floor_ms (ready_after late ops opts n)\<rparr>,
             \<lparr>rr_provider = mo_provider opts, rr_operation = hid_coldStart HARNESS_METRIC_IDS,
              rr_durationMs = floor_ms ((now_ms s - t0) + ready_after late ops opts n)\<rparr>] @ rs \<and>
            rr_operation ` set rs \<subseteq> set harness_metric_ids -
              {hid_spawn HARNESS_METRIC_IDS, hid_firstExec HARNESS_METRIC_IDS, hid_coldStart HARNESS_METRIC_IDS}) \<or>
         ((\<forall>j<readiness_attempts opts. \<not> probe_answers late ops j) \<and>
          lm_samples t = lm_samples s \<and> waits t \<le> waits s + 2 * readiness_attempts opts \<and>
          (\<exists>g\<in>set (lm_gaps t). gap_id g = hid_coldStart HARNESS_METRIC_IDS \<and> gap_outcome_of g = FailedGap \<and>
             gap_reason g = neverReadyReason (readiness_attempts opts)))"
proof -
  obtain ready n u where u: "waitForReadiness late (op_ready ops) (cycle_readiness opts) s = ((ready, n), u)"
    by (metis prod.exhaust)
  note ra = waitForReadiness_attempts[OF u]
  have same: "lm_samples u = lm_samples s" using ra samples_more[of u s] by blast
  have n: "n = readiness_attempts opts"
    using ra readiness_attempts_pos[of opts] by (simp add: cycle_readiness_def finiteOr_def)
  have "0 \<le> readiness_delay opts" by (auto simp: readiness_delay_def split: jsnum.split)
  then have bounds: "nat (finiteOr (ro_maxAttempts (cycle_readiness opts)) 40 1) = readiness_attempts opts"
    "finiteOr (ro_retryDelayMs (cycle_readiness opts)) 250 0 = \<lfloor>readiness_delay opts\<rfloor>"
    "finiteOr (ro_probeTimeoutMs (cycle_readiness opts)) 20000 1 = 2000"
    using readiness_attempts_pos[of opts] by (simp_all add: cycle_readiness_def finiteOr_def)
  have "readiness_loop late (op_ready ops) 2000 (of_int \<lfloor>readiness_delay opts\<rfloor>) (readiness_attempts opts) s = (ready, u)"
    using u unfolding waitForReadiness_def Let_def bounds by (simp split: prod.splits)
  note first = readiness_loop_first[OF this, unfolded assms(2)]
  have answers: "(\<exists>a. answered late (op_ready ops) 2000 (1 + 2 * j) a) \<longleftrightarrow> probe_answers late ops j" for j
    by (simp add: answered_def probe_answers_def)
  show ?thesis
  proof (cases ready)
    case False
    then have t: "t = never_ready ops opts (neverReadyReason n) u"
      using assms by (simp add: cycle_body_def u)
    have "\<forall>j<readiness_attempts opts. \<forall>a. \<not> answered late (op_ready ops) 2000 (1 + 2 * j) a"
      using first False by (simp only: if_False simp_thms)
    then have "\<forall>j<readiness_attempts opts. \<not> probe_answers late ops j" using answers by blast
    then show ?thesis
      using ra never_ready_fails[of "neverReadyReason n" ops opts u]
      by (intro disjI2 conjI) (simp_all add: t same n[symmetric], intro bexI, auto)
  next
    case True
    then obtain j where raw: "j < readiness_attempts opts" "\<exists>a. answered late (op_ready ops) 2000 (1 + 2 * j) a"
      "\<forall>i<j. \<forall>a. \<not> answered late (op_ready ops) 2000 (1 + 2 * i) a"
      "now_ms u = now_ms s + (\<Sum>i<j. probe_takes late (op_ready ops) 2000 (1 + 2 * i) +
          pause_takes late (of_int \<lfloor>readiness_delay opts\<rfloor>) (1 + 2 * i + 1)) + probe_takes late (op_ready ops) 2000 (1 + 2 * j)"
      using first by (simp only: if_True simp_thms) blast
    have j: "j < readiness_attempts opts" "probe_answers late ops j" "\<forall>i<j. \<not> probe_answers late ops i"
      "now_ms u = now_ms s + ready_after late ops opts j"
      using raw(1) raw(2,3)[unfolded answers] answers raw(4) by (blast, blast, blast, simp add: ready_after_def)
    let ?m = "sample (mo_provider opts) (hid_coldStart HARNESS_METRIC_IDS) (floor_ms (now_ms u - t0))
                (sample (mo_provider opts) (hid_firstExec HARNESS_METRIC_IDS) (floor_ms (now_ms u - now_ms s)) u)"
    have "live_path ops opts ?m = Some t" using assms True by (simp add: cycle_body_def u)
    from live_path_records[OF this] obtain rs where rs: "lm_samples t = lm_samples ?m @ rs"
      "rr_operation ` set rs \<subseteq> {hid_exec HARNESS_METRIC_IDS, hid_execPayload64k HARNESS_METRIC_IDS,
         hid_controlPlaneInfo HARNESS_METRIC_IDS, hid_controlPlaneList HARNESS_METRIC_IDS, hid_snapshot HARNESS_METRIC_IDS}"
      by (auto simp: records_def)
    have "{hid_exec HARNESS_METRIC_IDS, hid_execPayload64k HARNESS_METRIC_IDS,
         hid_controlPlaneInfo HARNESS_METRIC_IDS, hid_controlPlaneList HARNESS_METRIC_IDS, hid_snapshot HARNESS_METRIC_IDS}
       \<subseteq> set harness_metric_ids - {hid_spawn HARNESS_METRIC_IDS, hid_firstExec HARNESS_METRIC_IDS, hid_coldStart HARNESS_METRIC_IDS}"
      by (simp add: harness_metric_ids_def HARNESS_METRIC_IDS_def)
    with rs(2) have ops: "rr_operation ` set rs \<subseteq> set harness_metric_ids -
         {hid_spawn HARNESS_METRIC_IDS, hid_firstExec HARNESS_METRIC_IDS, hid_coldStart HARNESS_METRIC_IDS}" by (rule subset_trans)
    show ?thesis
      using rs(1) ops j by (intro disjI1 exI[of _ j] conjI exI[of _ rs]) (simp_all add: same algebra_simps)
  qed
qed

section \<open>Returning\<close>

text \<open>The calls after the readiness probe are unbounded; a cycle can be stuck in no other place.\<close>

definition vendor_hangs :: "cycle_operations \<Rightarrow> bool" where
  "vendor_hangs ops \<longleftrightarrow>
     (\<exists>n c. op_exec ops n c = Hangs) \<or>
     (\<exists>call n. op_info ops = Some call \<and> call n = Hangs) \<or>
     (\<exists>call n. op_list ops = Some call \<and> call n = Hangs) \<or>
     (\<exists>create delete n i. op_snapshot ops = Some (create, delete) \<and> (create n = Hangs \<or> delete n i = Hangs))"

lemma timed_step_None: "timed_step p i call s = None \<Longrightarrow> call (waits s) = Hangs"
  by (auto simp: timed_step_def await_None_iff split: option.splits prod.splits sum.splits)

lemma repeat_step_None: "repeat_step n p i call s = None \<Longrightarrow> \<exists>k. call k = Hangs"
proof (induction n arbitrary: s)
  case (Suc n)
  then show ?case
    by (cases "timed_step p i call s") (auto dest: timed_step_None)
qed simp

lemma snapshot_step_None:
  "snapshot_step p create delete s = None \<Longrightarrow> (\<exists>n. create n = Hangs) \<or> (\<exists>n i. delete n i = Hangs)"
  by (auto simp: snapshot_step_def await_None_iff split: option.splits prod.splits sum.splits)

lemma live_path_None:
  assumes "live_path ops opts s = None"
  shows "vendor_hangs ops"
proof -
  consider (exec) "exec_part ops opts s = None"
    | (payload) t where "payload_part ops opts t = None"
    | (info) t where "info_part ops opts t = None"
    | (list) t where "list_part ops opts t = None"
    | (snap) t where "snapshot_part ops opts t = None"
    using assms by (auto simp: live_path_def bind_eq_None_conv)
  then show ?thesis
  proof cases
    case exec
    then show ?thesis by (auto simp: exec_part_def vendor_hangs_def dest!: timed_step_None)
  next
    case payload
    then show ?thesis by (auto simp: payload_part_def vendor_hangs_def dest!: timed_step_None split: if_splits)
  next
    case info
    then show ?thesis by (auto simp: info_part_def vendor_hangs_def dest!: repeat_step_None split: option.splits)
  next
    case list
    then show ?thesis by (auto simp: list_part_def vendor_hangs_def dest!: repeat_step_None split: option.splits)
  next
    case snap
    then show ?thesis
      by (auto simp: snapshot_part_def vendor_hangs_def dest!: snapshot_step_None split: if_splits option.splits)
  qed
qed

lemma cycle_body_None:
  assumes "cycle_body late ops opts t0 s = None"
  shows "can_answer ops \<and> vendor_hangs ops"
proof -
  obtain ready n u where u: "waitForReadiness late (op_ready ops) (cycle_readiness opts) s = ((ready, n), u)"
    by (metis prod.exhaust)
  have ready: "ready" using assms by (auto simp: cycle_body_def u split: if_splits)
  then have "can_answer ops"
    using u by (auto simp: waitForReadiness_def Let_def can_answer_def split: prod.splits dest!: readiness_loop_ready)
  moreover have "vendor_hangs ops"
    using assms ready by (intro live_path_None) (simp add: cycle_body_def u)
  ultimately show ?thesis ..
qed

lemma teardown_None: "teardown ops opts s = None \<Longrightarrow> op_destroy ops (waits s) = Hangs"
  by (auto simp: teardown_def await_None_iff split: option.splits prod.splits sum.splits)

section \<open>Aggregation and repetition\<close>

lemma aggregate_durations: "durations_of i ss \<noteq> [] \<Longrightarrow> \<exists>a. aggregate (durations_of i ss) = Inr a"
  by (subst aggregate_total_facts(1)) (auto simp: durations_of_def)

lemma aggregate_ids_total:
  "\<exists>out. aggregate_ids ss ids = Inr out \<and> map fst out = filter (\<lambda>i. durations_of i ss \<noteq> []) ids \<and>
     (\<forall>(i, a)\<in>set out. aggregate (durations_of i ss) = Inr a)"
proof (induction ids)
  case (Cons i ids)
  then obtain out where out: "aggregate_ids ss ids = Inr out" "map fst out = filter (\<lambda>i. durations_of i ss \<noteq> []) ids"
    "\<forall>(i, a)\<in>set out. aggregate (durations_of i ss) = Inr a" by blast
  show ?case
  proof (cases "durations_of i ss = []")
    case False
    then obtain a where "aggregate (durations_of i ss) = Inr a" using aggregate_durations by blast
    then show ?thesis using out False by simp
  qed (use out in simp)
qed simp

lemma dedup_gaps_facts:
  "distinct (map gap_fact (dedup_gaps seen gs)) \<and>
   gap_fact ` set (dedup_gaps seen gs) = gap_fact ` set gs - seen \<and> set (dedup_gaps seen gs) \<subseteq> set gs"
proof (induction gs arbitrary: seen)
  case (Cons g gs)
  show ?case using Cons[of seen] Cons[of "insert (gap_fact g) seen"] by auto
qed simp

text \<open>What the \<open>i\<close>-th cycle contributes.\<close>

definition pass_samples :: "(thrown + lifecycle_measurement) option \<Rightarrow> raw_run list" where
  "pass_samples r = (case r of Some (Inr pass) \<Rightarrow> lm_samples pass | _ \<Rightarrow> [])"

definition pass_gaps :: "(thrown \<Rightarrow> string) \<Rightarrow> (thrown + lifecycle_measurement) option \<Rightarrow> result_gap list" where
  "pass_gaps describe r =
     (case r of None \<Rightarrow> [] | Some (Inr pass) \<Rightarrow> lm_gaps pass | Some (Inl e) \<Rightarrow> [spawn_failed (describe e)])"

lemma cycles_loop_sum:
  "cycles_loop describe cycle_of i left ss gs = Some (ss', gs') \<Longrightarrow>
   ss' = ss @ concat (map (\<lambda>j. pass_samples (cycle_of j)) [i..<i + left]) \<and>
   gs' = gs @ concat (map (\<lambda>j. pass_gaps describe (cycle_of j)) [i..<i + left])"
proof (induction left arbitrary: i ss gs)
  case (Suc left)
  have range: "[i..<Suc (i + left)] = i # [Suc i..<Suc (i + left)]" by (simp add: upt_conv_Cons del: upt_Suc)
  obtain r where r: "cycle_of i = Some r" using Suc.prems by (cases "cycle_of i") auto
  have "cycles_loop describe cycle_of (Suc i) left (ss @ pass_samples (cycle_of i)) (gs @ pass_gaps describe (cycle_of i)) =
      Some (ss', gs')"
    using Suc.prems by (cases r) (simp_all add: r pass_samples_def pass_gaps_def)
  from Suc.IH[OF this] show ?case by (simp add: range del: upt_Suc)
qed simp

section \<open>A concrete cycle\<close>

text \<open>
  A sandbox whose first probe hangs and whose second answers; it has an info operation that fails once,
  and neither a listing nor snapshots. The other never answers a probe and fails to be destroyed.
\<close>

definition slow_sandbox :: lifecycle_compute where
  "slow_sandbox =
     \<lparr>lc_create = (\<lambda>_. Settles 300 ()),
      lc_runCommand = (\<lambda>n c. if c = ''echo ok'' \<and> n = 1 then Hangs else Settles 10 0),
      lc_getInfo = Some (\<lambda>n. if n = 6 then Throws 3 \<lparr>th_reason = ''503'', th_cause = None\<rparr> else Settles 4 ()),
      lc_destroy = (\<lambda>_. Settles 50 ()), lc_list = None, lc_snapshot = None\<rparr>"

definition dead_sandbox :: lifecycle_compute where
  "dead_sandbox =
     \<lparr>lc_create = (\<lambda>_. Settles 300 ()), lc_runCommand = (\<lambda>n c. Hangs), lc_getInfo = None,
      lc_destroy = (\<lambda>_. Throws 50 \<lparr>th_reason = ''gone'', th_cause = None\<rparr>), lc_list = None, lc_snapshot = None\<rparr>"

definition two_probes :: measure_options where
  "two_probes =
     \<lparr>mo_provider = ''boat'', mo_execCommand = None, mo_controlPlaneSamples = Some (Fin 2), mo_snapshot = None,
      mo_readinessMaxAttempts = Some (Fin 2), mo_readinessRetryDelayMs = None, mo_payload = Some False\<rparr>"

lemmas concrete_cycle =
  measureCycle_def measureLifecycle_def compute_operations_def two_probes_def await_def elapse_def sample_def fail_def skip_def
  cycle_body_def waitForReadiness_def cycle_readiness_def readiness_attempts_def readiness_delay_def finiteOr_def
  withTimeout_def timer_limit_def delay_ms_def READINESS_CMD_def numeral_2_eq_2 floor_ms_def EPSILON_def

lemma dead_cycle:
  "\<exists>m. measureLifecycle (\<lambda>_. 0) dead_sandbox two_probes 0 = Some (Inr m)"
  by (simp add: concrete_cycle dead_sandbox_def never_ready_def Let_def teardown_def)

lemma slow_cycle:
  "\<exists>m. measureLifecycle (\<lambda>_. 0) slow_sandbox two_probes 0 = Some (Inr m)"
  by (simp add: concrete_cycle slow_sandbox_def live_path_def exec_part_def timed_step_def payload_part_def info_part_def
      list_part_def snapshot_part_def control_plane_samples_def wantPayload_def wantSnapshot_def teardown_def)

section \<open>Properties\<close>

text \<open>
  Property C33. A cycle accounts for every metric of the harness: each of them has a sample or a gap.
  A gap says \<open>skipped\<close> exactly for what the run turned off or the integration does not have, with its
  cause, and never for a call that was made and failed; what is skipped has no sample. Every duration is
  positive and every sample is the provider's.
\<close>

theorem cycle_accounts_for_every_metric:
  assumes "measureCycle late ops opts t0 = Some (Inr m)"
  shows "(\<forall>i\<in>set harness_metric_ids.
            i \<in> rr_operation ` set (lm_samples m) \<or> i \<in> gap_id ` set (lm_gaps m)) \<and>
         (\<forall>r\<in>set (lm_samples m).
            rr_provider r = mo_provider opts \<and> 0 < rr_durationMs r \<and>
            rr_operation r \<in> set harness_metric_ids - not_measured ops opts) \<and>
         (\<forall>g\<in>set (lm_gaps m).
            gap_id g \<in> set harness_metric_ids \<and>
            (gap_outcome_of g = Skipped \<longleftrightarrow> gap_id g \<in> not_measured ops opts) \<and>
            (gap_outcome_of g = Skipped \<longrightarrow> gap_cause_of g \<noteq> None \<and> gap_narrow g))"
  using cycle_records[OF assms] by (auto simp: recorded_defs)

theorem cycle_accounts_for_every_metric_witness:
  "\<exists>m. measureLifecycle (\<lambda>_. 0) slow_sandbox two_probes 0 = Some (Inr m) \<and>
     hid_controlPlaneList HARNESS_METRIC_IDS \<in> gap_id ` set (lm_gaps m)"
proof -
  obtain m where m: "measureCycle (\<lambda>_. 0) (compute_operations slow_sandbox) two_probes 0 = Some (Inr m)"
    using slow_cycle by (auto simp: measureLifecycle_def)
  have off: "hid_controlPlaneList HARNESS_METRIC_IDS \<in> not_measured (compute_operations slow_sandbox) two_probes"
    by (simp add: compute_operations_def slow_sandbox_def)
  note all = cycle_accounts_for_every_metric[OF m]
  have "hid_controlPlaneList HARNESS_METRIC_IDS \<notin> rr_operation ` set (lm_samples m)"
    using all[THEN conjunct2, THEN conjunct1] off by (metis DiffE imageE)
  then have "hid_controlPlaneList HARNESS_METRIC_IDS \<in> gap_id ` set (lm_gaps m)"
    using all[THEN conjunct1, THEN bspec, OF ids_of_the_catalog(8)] by simp
  then show ?thesis using m by (auto simp: measureLifecycle_def)
qed

text \<open>
  Property C34. The cold start is honest. The spawn is the time of the create. Exactly when some probe
  within the attempts answered in time, the cycle records the spawn, the first exec and the cold start, each
  once: the first exec is the time from the end of the create to the end of the first probe that answered,
  with all the probes and pauses before it, and the cold start is the time from before the create to that
  answer. Otherwise no timing of them is invented: only the spawn and the teardown are measured, the cold
  start is a failure that names the attempts, and besides the create, the probes, the pauses and the
  destroy no call was made.
\<close>

theorem cold_start_honest:
  assumes "measureCycle late ops opts t0 = Some (Inr m)"
  shows "\<exists>d. op_create ops 0 = Settles d () \<and>
    (let spawn = \<lparr>rr_provider = mo_provider opts, rr_operation = hid_spawn HARNESS_METRIC_IDS, rr_durationMs = floor_ms (max 0 d)\<rparr> in
     if \<exists>n<readiness_attempts opts. probe_answers late ops n
     then \<exists>n<readiness_attempts opts. \<exists>rs. probe_answers late ops n \<and> (\<forall>j<n. \<not> probe_answers late ops j) \<and>
       lm_samples m =
         [spawn,
          \<lparr>rr_provider = mo_provider opts, rr_operation = hid_firstExec HARNESS_METRIC_IDS,
           rr_durationMs = floor_ms (ready_after late ops opts n)\<rparr>,
          \<lparr>rr_provider = mo_provider opts, rr_operation = hid_coldStart HARNESS_METRIC_IDS,
           rr_durationMs = floor_ms (max 0 d + ready_after late ops opts n)\<rparr>] @ rs \<and>
       rr_operation ` set rs \<inter> {hid_spawn HARNESS_METRIC_IDS, hid_firstExec HARNESS_METRIC_IDS, hid_coldStart HARNESS_METRIC_IDS} = {}
     else \<exists>rs. lm_samples m = spawn # rs \<and> rr_operation ` set rs \<subseteq> {hid_teardown HARNESS_METRIC_IDS} \<and>
       waits m \<le> 2 + 2 * readiness_attempts opts \<and>
       (\<exists>g\<in>set (lm_gaps m). gap_id g = hid_coldStart HARNESS_METRIC_IDS \<and> gap_outcome_of g = FailedGap \<and>
          gap_reason g = neverReadyReason (readiness_attempts opts)))"
proof -
  from measureCycle_parts[OF assms] obtain d b where create: "op_create ops 0 = Settles d ()"
    and body: "cycle_body late ops opts t0
      (sample (mo_provider opts) (hid_spawn HARNESS_METRIC_IDS) (floor_ms (max 0 d))
        \<lparr>now_ms = t0 + max 0 d, waits = 1, lm_samples = [], lm_gaps = []\<rparr>) = Some b" (is "cycle_body _ _ _ _ ?s = _")
    and td: "teardown ops opts b = Some m" by metis
  obtain es where es: "lm_samples m = lm_samples b @ es" "rr_operation ` set es \<subseteq> {hid_teardown HARNESS_METRIC_IDS}"
    using teardown_records[OF td] by (auto simp: records_def)
  have ids: "hid_teardown HARNESS_METRIC_IDS \<notin>
      {hid_spawn HARNESS_METRIC_IDS, hid_firstExec HARNESS_METRIC_IDS, hid_coldStart HARNESS_METRIC_IDS}"
    by (simp add: HARNESS_METRIC_IDS_def)
  have start: "waits ?s = 1" "now_ms ?s - t0 = max 0 d" "lm_samples ?s = [\<lparr>rr_provider = mo_provider opts,
      rr_operation = hid_spawn HARNESS_METRIC_IDS, rr_durationMs = floor_ms (max 0 d)\<rparr>]" by (simp_all add: sample_def)
  note gaps = teardown_gaps[OF td]
  show ?thesis
    using cycle_body_cold_start[OF body start(1), unfolded start(2,3)]
  proof (elim disjE exE conjE, goal_cases)
    case (1 n rs)
    have "rr_operation ` set (rs @ es) \<inter>
        {hid_spawn HARNESS_METRIC_IDS, hid_firstExec HARNESS_METRIC_IDS, hid_coldStart HARNESS_METRIC_IDS} = {}"
      using 1(5) es(2) ids by auto
    moreover have cond: "\<exists>n<readiness_attempts opts. probe_answers late ops n" using 1(1,2) by blast
    moreover have "lm_samples m =
        [\<lparr>rr_provider = mo_provider opts, rr_operation = hid_spawn HARNESS_METRIC_IDS, rr_durationMs = floor_ms (max 0 d)\<rparr>,
         \<lparr>rr_provider = mo_provider opts, rr_operation = hid_firstExec HARNESS_METRIC_IDS,
           rr_durationMs = floor_ms (ready_after late ops opts n)\<rparr>,
         \<lparr>rr_provider = mo_provider opts, rr_operation = hid_coldStart HARNESS_METRIC_IDS,
           rr_durationMs = floor_ms (max 0 d + ready_after late ops opts n)\<rparr>] @ (rs @ es)"
      using 1(4) es(1) by simp
    ultimately show ?case
      unfolding Let_def using 1(1-3) create by (intro exI[of _ d]) (simp only: cond if_True simp_thms, blast)
  next
    case 2
    then have cond: "(\<exists>n<readiness_attempts opts. probe_answers late ops n) = False" by blast
    have "lm_samples m =
        \<lparr>rr_provider = mo_provider opts, rr_operation = hid_spawn HARNESS_METRIC_IDS, rr_durationMs = floor_ms (max 0 d)\<rparr> # es"
      using 2(2) es(1) by simp
    moreover have "waits m \<le> 2 + 2 * readiness_attempts opts" using 2(3) gaps start(1) by simp
    moreover have "\<exists>g\<in>set (lm_gaps m). gap_id g = hid_coldStart HARNESS_METRIC_IDS \<and> gap_outcome_of g = FailedGap \<and>
        gap_reason g = neverReadyReason (readiness_attempts opts)" using 2(4) gaps by blast
    ultimately show ?case
      unfolding Let_def using es(2) create by (intro exI[of _ d]) (simp only: cond if_False simp_thms, blast)
  qed
qed

theorem cold_start_honest_witness:
  "(\<exists>m. measureLifecycle (\<lambda>_. 0) dead_sandbox two_probes 0 = Some (Inr m) \<and> waits m \<le> 6) \<and>
   (\<exists>m. measureLifecycle (\<lambda>_. 0) slow_sandbox two_probes 0 = Some (Inr m) \<and>
      map rr_durationMs (take 3 (lm_samples m)) = [300, 2260, 2560])"
proof
  have two: "readiness_attempts two_probes = 2" by (simp add: readiness_attempts_def two_probes_def)
  obtain m where m: "measureCycle (\<lambda>_. 0) (compute_operations dead_sandbox) two_probes 0 = Some (Inr m)"
    using dead_cycle by (auto simp: measureLifecycle_def)
  have "\<not> probe_answers (\<lambda>_. 0) (compute_operations dead_sandbox) n" for n
    by (simp add: probe_answers_def compute_operations_def dead_sandbox_def)
  then show "\<exists>m. measureLifecycle (\<lambda>_. 0) dead_sandbox two_probes 0 = Some (Inr m) \<and> waits m \<le> 6"
    using cold_start_honest[OF m] m by (auto simp: measureLifecycle_def two Let_def)
  obtain m where m: "measureCycle (\<lambda>_. 0) (compute_operations slow_sandbox) two_probes 0 = Some (Inr m)"
    using slow_cycle by (auto simp: measureLifecycle_def)
  let ?ops = "compute_operations slow_sandbox"
  have answers: "\<not> probe_answers (\<lambda>_. 0) ?ops 0" "probe_answers (\<lambda>_. 0) ?ops 1" "op_create ?ops 0 = Settles 300 ()"
    by (simp_all add: probe_answers_def compute_operations_def slow_sandbox_def)
  have after: "ready_after (\<lambda>_. 0) ?ops two_probes 1 = 2260"
    by (simp add: ready_after_def probe_takes_def pause_takes_def compute_operations_def slow_sandbox_def readiness_delay_def two_probes_def)
  have "\<exists>n<readiness_attempts two_probes. probe_answers (\<lambda>_. 0) ?ops n" using answers(2) by (auto simp: two intro!: exI[of _ 1])
  then obtain n rs where n: "n < 2" "probe_answers (\<lambda>_. 0) ?ops n"
    "map rr_durationMs (take 3 (lm_samples m)) = [floor_ms 300, floor_ms (ready_after (\<lambda>_. 0) ?ops two_probes n),
       floor_ms (300 + ready_after (\<lambda>_. 0) ?ops two_probes n)]"
    using cold_start_honest[OF m] answers(3) by (auto simp: two Let_def)
  moreover have "n = 1" using n(1,2) answers(1) by (cases n) auto
  ultimately have "map rr_durationMs (take 3 (lm_samples m)) = [300, 2260, 2560]"
    using after by (simp add: floor_ms_def EPSILON_def)
  then show "\<exists>m. measureLifecycle (\<lambda>_. 0) slow_sandbox two_probes 0 = Some (Inr m) \<and>
      map rr_durationMs (take 3 (lm_samples m)) = [300, 2260, 2560]"
    using m by (auto simp: measureLifecycle_def)
qed

text \<open>
  A cycle returns unless the vendor's own calls never settle: if it does not, the create
  or a destroy hangs, or some probe answered and an exec, an info call, a listing or a snapshot hangs.
  Probes that hang do not keep a cycle from returning, however many, and a sandbox that never becomes
  ready is always torn down.
\<close>

theorem cycle_stuck_only_in_vendor:
  assumes "measureCycle late ops opts t0 = None"
  shows "op_create ops 0 = Hangs \<or> (\<exists>n. op_destroy ops n = Hangs) \<or> (can_answer ops \<and> vendor_hangs ops)"
  using assms
  by (auto simp: measureCycle_def await_None_iff bind_eq_None_conv
      dest!: teardown_None cycle_body_None split: option.splits prod.splits sum.splits)

theorem cycle_stuck_only_in_vendor_witness:
  "measureLifecycle (\<lambda>_. 0) (dead_sandbox\<lparr>lc_destroy := \<lambda>_. Hangs\<rparr>) two_probes 0 = None \<and>
   (\<exists>n. op_destroy (compute_operations (dead_sandbox\<lparr>lc_destroy := \<lambda>_. Hangs\<rparr>)) n = (Hangs :: unit reply))"
proof -
  have "measureLifecycle (\<lambda>_. 0) (dead_sandbox\<lparr>lc_destroy := \<lambda>_. Hangs\<rparr>) two_probes 0 = None"
    by (simp add: concrete_cycle dead_sandbox_def never_ready_def Let_def teardown_def)
  moreover from cycle_stuck_only_in_vendor[OF this[unfolded measureLifecycle_def]]
  have "\<exists>n. op_destroy (compute_operations (dead_sandbox\<lparr>lc_destroy := \<lambda>_. Hangs\<rparr>)) n = Hangs"
    by (simp add: compute_operations_def dead_sandbox_def can_answer_def)
  ultimately show ?thesis ..
qed

text \<open>
  Property C35. The benchmark of several cycles loses nothing and never throws: it makes as many cycles as
  it was asked for (five by default, at least one, and one for a count that is not finite), its samples are
  those of the cycles in order, every metric with a sample has the distribution of its durations and no other
  metric has one, and the gaps are the facts of the cycles, failed creates included, each once.
\<close>

theorem benchmark_keeps_cycles:
  assumes "benchmarkCycles provider iterations describe cycle_of = Some r"
  shows "\<exists>b n. r = Inr b \<and>
    n = (case (case iterations of None \<Rightarrow> Fin 5 | Some x \<Rightarrow> x) of Fin v \<Rightarrow> nat (max 1 \<lfloor>v\<rfloor>) | _ \<Rightarrow> 1) \<and> 0 < n \<and>
    lb_samples b = concat (map (\<lambda>j. pass_samples (cycle_of j)) [0..<n]) \<and>
    map fst (lb_aggregates b) = filter (\<lambda>i. durations_of i (lb_samples b) \<noteq> []) harness_metric_ids \<and>
    (\<forall>(i, a)\<in>set (lb_aggregates b). aggregate (durations_of i (lb_samples b)) = Inr a) \<and>
    gap_fact ` set (lb_gaps b) = gap_fact ` (\<Union>j<n. set (pass_gaps describe (cycle_of j))) \<and>
    distinct (map gap_fact (lb_gaps b))"
proof -
  define n where "n = finite_count (case iterations of None \<Rightarrow> Fin 5 | Some x \<Rightarrow> x) 1"
  have pos: "0 < n" by (cases "case iterations of None \<Rightarrow> Fin 5 | Some x \<Rightarrow> x") (auto simp: n_def)
  obtain ss gs where loop: "cycles_loop describe cycle_of 0 n [] [] = Some (ss, gs)"
    and r: "r = and_then (aggregateLifecycle ss) (\<lambda>aggs.
          Inr \<lparr>lb_provider = provider, lb_samples = ss, lb_aggregates = aggs, lb_gaps = dedup_gaps {} gs\<rparr>)"
    using assms by (auto simp: benchmarkCycles_def n_def)
  have sums: "ss = concat (map (\<lambda>j. pass_samples (cycle_of j)) [0..<n])"
    "set gs = (\<Union>j<n. set (pass_gaps describe (cycle_of j)))"
    using cycles_loop_sum[OF loop] by (auto simp: lessThan_atLeast0)
  obtain aggs where aggs: "aggregateLifecycle ss = Inr aggs"
    "map fst aggs = filter (\<lambda>i. durations_of i ss \<noteq> []) harness_metric_ids"
    "\<forall>(i, a)\<in>set aggs. aggregate (durations_of i ss) = Inr a"
    using aggregate_ids_total[of ss harness_metric_ids] by (auto simp: aggregateLifecycle_def)
  let ?b = "\<lparr>lb_provider = provider, lb_samples = ss, lb_aggregates = aggs, lb_gaps = dedup_gaps {} gs\<rparr>"
  have "gap_fact ` set (lb_gaps ?b) = gap_fact ` set gs" "distinct (map gap_fact (lb_gaps ?b))"
    using dedup_gaps_facts[of "{}" gs] by simp_all
  moreover have "n = (case (case iterations of None \<Rightarrow> Fin 5 | Some x \<Rightarrow> x) of Fin v \<Rightarrow> nat (max 1 \<lfloor>v\<rfloor>) | _ \<Rightarrow> 1)"
    by (cases "case iterations of None \<Rightarrow> Fin 5 | Some x \<Rightarrow> x") (simp_all add: n_def)
  ultimately show ?thesis
    using pos aggs sums r by (intro exI[of _ ?b] exI[of _ n]) simp
qed

theorem benchmark_keeps_cycles_witness:
  "\<exists>b. benchmarkLifecycleCompute (\<lambda>_ _. 0) (\<lambda>_. 0) th_reason ''boat'' (\<lambda>_. dead_sandbox) (Some (Fin 2))
         two_probes = Some (Inr b) \<and> distinct (map gap_fact (lb_gaps b))"
proof -
  have same: "with_default_probes ''boat'' two_probes = two_probes"
    by (simp add: with_default_probes_def two_probes_def)
  obtain m where "measureLifecycle (\<lambda>_. 0) dead_sandbox two_probes 0 = Some (Inr m)" using dead_cycle by blast
  then obtain r where r: "benchmarkLifecycleCompute (\<lambda>_ _. 0) (\<lambda>_. 0) th_reason ''boat'' (\<lambda>_. dead_sandbox)
      (Some (Fin 2)) two_probes = Some r"
    by (simp add: benchmarkLifecycleCompute_def benchmarkCycles_def same numeral_2_eq_2)
  from benchmark_keeps_cycles[OF r[unfolded benchmarkLifecycleCompute_def]] r show ?thesis by auto
qed

end
