(* ===== verification/Pooling.thy ===== *)
theory Pooling
  imports Merge Texts
begin

text \<open>
  Reading several published Runs together (\<open>packages/results/src/lib/leaderboard-datasets.ts\<close>): the
  pooled view keeps every sandbox of every Run as one cluster, and refuses sets of Runs whose
  measurements overlap or are not comparable. The lemmas show that the pooled clusters are the clusters
  of the sources, each once.
\<close>

section \<open>Datasets\<close>

record dataset_cell =
  dc_runId :: string
  dc_providerId :: string
  dc_metricId :: string
  dc_suite :: string
  dc_replicateIndex :: nat
  dc_combinedIndex :: nat
  dc_sandboxId :: "string option"

record pooled_fields =
  pf_sources :: "run_doc list"
  pf_notes :: "string list"
  pf_cells :: "dataset_cell list"

record dataset =
  ds_runId :: string
  ds_sha :: string
  ds_generatedAt :: string
  ds_targetSpec :: target_spec
  ds_providers :: "provider_run list"
  ds_experiment :: "experiment_link option"
  ds_pooled :: "pooled_fields option"

definition published_dataset :: "run_doc \<Rightarrow> dataset" where
  "published_dataset run = \<lparr>ds_runId = run_id run, ds_sha = run_sha run, ds_generatedAt = run_generatedAt run,
     ds_targetSpec = run_targetSpec run, ds_providers = run_providers run, ds_experiment = run_experiment run,
     ds_pooled = None\<rparr>"

datatype pool_error =
    NoDatasets
  | InvalidRun run_violation
  | ConflictingDataset string
  | SameRunRepeated nat string
  | DifferentTargets
  | CohortReviewNeeded
  | OverlappingSource string
  | OverlappingAttempt string
  | SandboxTwice string
  | ConflictingHardware string
  | ConflictingNetwork string
  | IncompatibleMeasurement string string
  | IncompatibleArtifacts string string
  | IncompatiblePasses string string
  | MissingSuite string string string
  | AmbiguousBreakdown string string string
  | UnretainedCluster string string string nat
  | PoolStatistics analysis_error
  | NoContribution string

text \<open>An error of an inner check, as the caller reports it.\<close>

definition wrap_error :: "('e \<Rightarrow> 'f) \<Rightarrow> 'e + 'a \<Rightarrow> 'f + 'a" where
  "wrap_error f r = (case r of Inl e \<Rightarrow> Inl (f e) | Inr x \<Rightarrow> Inr x)"

lemma wrap_error_Inr [simp]: "wrap_error f r = Inr x \<longleftrightarrow> r = Inr x"
  by (simp add: wrap_error_def split: sum.split)

lemma wrap_error_simps [simp]: "wrap_error f (Inl e) = Inl (f e)" "wrap_error f (Inr x) = Inr x"
  by (simp_all add: wrap_error_def)

definition all_equal :: "'a list \<Rightarrow> bool" where
  "all_equal xs \<longleftrightarrow> (case xs of [] \<Rightarrow> True | x # ys \<Rightarrow> list_all ((=) x) ys)"

lemma all_equalD: "all_equal xs \<Longrightarrow> x \<in> set xs \<Longrightarrow> y \<in> set xs \<Longrightarrow> x = y"
  by (cases xs) (simp_all add: all_equal_def list_all_iff, metis)

section \<open>Machines and networks\<close>

text \<open>The canonical text of a reading orders its keys.\<close>

definition canonical_specs :: "specs \<Rightarrow> specs" where
  "canonical_specs s = sort_key fst s"

fun pool_hardware :: "(string \<times> hardware_mixture) list \<Rightarrow> (string \<times> hardware_mixture) list \<Rightarrow>
  pool_error + (string \<times> hardware_mixture) list" where
  "pool_hardware acc [] = Inr acc"
| "pool_hardware acc ((i, entry) # entries) =
     (case map_of acc i of
        None \<Rightarrow> pool_hardware (AList.update i entry acc) entries
      | Some previous \<Rightarrow>
          if canonical_specs (hw_specs previous) \<noteq> canonical_specs (hw_specs entry) then Inl (ConflictingHardware i)
          else pool_hardware (AList.update i (entry\<lparr>hw_count := hw_count previous + hw_count entry\<rparr>) acc) entries)"

fun pool_network :: "(string \<times> network_mixture) list \<Rightarrow> (string \<times> network_mixture) list \<Rightarrow>
  pool_error + (string \<times> network_mixture) list" where
  "pool_network acc [] = Inr acc"
| "pool_network acc ((i, entry) # entries) =
     (case map_of acc i of
        None \<Rightarrow> pool_network (AList.update i entry acc) entries
      | Some previous \<Rightarrow>
          if canonical_specs (nw_specs previous) \<noteq> canonical_specs (nw_specs entry) then Inl (ConflictingNetwork i)
          else pool_network (AList.update i (entry\<lparr>nw_count := nw_count previous + nw_count entry\<rparr>) acc) entries)"

fun merge_mixtures_loop :: "observed_mixtures \<Rightarrow> observed_mixtures list \<Rightarrow> pool_error + observed_mixtures" where
  "merge_mixtures_loop result [] = Inr result"
| "merge_mixtures_loop result (mixture # mixtures) =
     and_then (pool_hardware (om_hostHardware result) (om_hostHardware mixture)) (\<lambda>hardware.
     and_then (pool_network (om_hostNetwork result) (om_hostNetwork mixture)) (\<lambda>network.
       merge_mixtures_loop \<lparr>om_sandboxes = om_sandboxes result + om_sandboxes mixture,
         om_hostHardware = hardware, om_hostNetwork = network\<rparr> mixtures))"

definition mergeMixtures :: "provider_run list \<Rightarrow> pool_error + observed_mixtures option" where
  "mergeMixtures providers =
     (let mixtures = List.map_filter pv_observedMixtures providers
      in if mixtures = [] then Inr None
         else and_then (merge_mixtures_loop \<lparr>om_sandboxes = 0, om_hostHardware = [], om_hostNetwork = []\<rparr> mixtures)
                (\<lambda>om. Inr (Some om)))"

section \<open>The set of sources\<close>

fun distinct_runs :: "('m) evidence_services_scheme \<Rightarrow> (string \<times> run_doc) list \<Rightarrow> run_doc list \<Rightarrow>
  pool_error + (string \<times> run_doc) list" where
  "distinct_runs S acc [] = Inr acc"
| "distinct_runs S acc (input # inputs) =
     and_then (wrap_error InvalidRun (parseRun input)) (\<lambda>run.
       if (case map_of acc (run_id run) of None \<Rightarrow> False | Some previous \<Rightarrow> runDigest S previous \<noteq> runDigest S run)
       then Inl (ConflictingDataset (run_id run))
       else distinct_runs S (AList.update (run_id run) run acc) inputs)"

text \<open>By generation time, then by id.\<close>

definition sorted_sources :: "('m) evidence_services_scheme \<Rightarrow> (string \<times> run_doc) list \<Rightarrow> run_doc list" where
  "sorted_sources S byId = locale_sort S run_generatedAt (locale_sort S run_id (map snd byId))"

definition run_cohort :: "run_doc \<Rightarrow> string option" where
  "run_cohort run = Option.bind (run_experiment run) ex_cohortDigest"

definition cohort_mismatch :: "run_doc list \<Rightarrow> bool" where
  "cohort_mismatch sources \<longleftrightarrow> \<not> all_equal (map run_cohort sources) \<or> None \<in> set (map run_cohort sources)"

definition review_given :: "string option \<Rightarrow> bool" where
  "review_given review \<longleftrightarrow> (case review of None \<Rightarrow> False | Some r \<Rightarrow> js_trim r \<noteq> [])"

text \<open>Each id may be seen once; the first repeated one is the error.\<close>

fun claim_ids :: "string set \<Rightarrow> string list \<Rightarrow> string + string set" where
  "claim_ids claimed [] = Inr claimed"
| "claim_ids claimed (i # ids) = (if i \<in> claimed then Inl i else claim_ids (insert i claimed) ids)"

definition run_attempt_ids :: "run_doc \<Rightarrow> string list" where
  "run_attempt_ids run = (case run_experiment run of None \<Rightarrow> [] | Some x \<Rightarrow> ex_attemptIds x)"

definition sandbox_key :: "provider_run \<Rightarrow> artifact_evidence \<Rightarrow> string" where
  "sandbox_key p e = pv_id p @ '':'' @ ae_sandboxId e"

definition run_sandbox_keys :: "run_doc \<Rightarrow> string list" where
  "run_sandbox_keys run =
     concat (map (\<lambda>p. map (sandbox_key p) (case pv_artifactEvidence p of None \<Rightarrow> [] | Some es \<Rightarrow> es)) (run_providers run))"

fun claim_evidence :: "string set \<Rightarrow> string set \<Rightarrow> run_doc list \<Rightarrow> pool_error + unit" where
  "claim_evidence attempts sandboxes [] = Inr ()"
| "claim_evidence attempts sandboxes (run # runs) =
     and_then (wrap_error OverlappingAttempt (claim_ids attempts (run_attempt_ids run))) (\<lambda>attempts'.
     and_then (wrap_error SandboxTwice (claim_ids sandboxes (run_sandbox_keys run))) (\<lambda>sandboxes'.
       claim_evidence attempts' sandboxes' runs))"

definition independent_sources :: "run_doc list \<Rightarrow> pool_error + unit" where
  "independent_sources sources =
     and_then (wrap_error OverlappingSource (claim_ids {} (concat (map (\<lambda>run. split_on CHR ''+'' (run_id run)) sources))))
       (\<lambda>_. claim_evidence {} {} sources)"

section \<open>One metric over the sources\<close>

type_synonym pool_entry = "run_doc \<times> provider_run \<times> metric_result"

definition provider_entries :: "string \<Rightarrow> (run_doc \<times> provider_run) list \<Rightarrow> pool_entry list" where
  "provider_entries metric contributions =
     concat (map (\<lambda>(run, p). map (\<lambda>m. (run, p, m)) (filter (\<lambda>m. metricId m = metric) (pv_metrics p))) contributions)"

definition metric_suite :: "metric_result \<Rightarrow> string option" where
  "metric_suite m = map_option (first_part CHR ''/'') (mr_sourceFile m)"

definition measurement_signature :: "metric_result \<Rightarrow> string option \<times> string option \<times> string option" where
  "measurement_signature m = (mr_appVersion m, mr_arguments m, metric_suite m)"

text \<open>The artifacts a suite was measured with; sets of them are compared when they are known.\<close>

definition suite_artifacts :: "pool_entry \<Rightarrow> artifact set" where
  "suite_artifacts entry =
     (case entry of (run, p, m) \<Rightarrow>
        set (map (\<lambda>e. effectiveArtifact (ae_provenance e))
          (filter (\<lambda>e. Some (cc_suite (ae_cell e)) = metric_suite m)
            (case pv_artifactEvidence p of None \<Rightarrow> [] | Some es \<Rightarrow> es))))"

definition planned_passes :: "string \<Rightarrow> string \<Rightarrow> pool_entry \<Rightarrow> nat list" where
  "planned_passes provider metric entry =
     (case entry of (run, p, m) \<Rightarrow>
        (case Option.bind (run_experiment run) ex_partial of
           None \<Rightarrow> []
         | Some partial \<Rightarrow>
             map pc_passes (filter (\<lambda>c. pc_provider c = provider \<and> Some (pc_suite c) = metric_suite m \<and>
               metric \<in> set (pc_plannedMetrics c)) (pa_cells partial))))"

definition retained_cells :: "run_doc \<Rightarrow> string \<Rightarrow> string \<Rightarrow> string \<Rightarrow> partial_cell list option" where
  "retained_cells run provider suite metric =
     map_option (\<lambda>partial. filter (\<lambda>c. pc_provider c = provider \<and> pc_suite c = suite \<and> metric \<in> set (pc_retainedMetrics c)) (pa_cells partial))
       (Option.bind (run_experiment run) ex_partial)"

text \<open>The sandboxes of one result: its replicates, or itself as the only one.\<close>

definition metric_clusters :: "run_doc \<Rightarrow> partial_cell list option \<Rightarrow> metric_result \<Rightarrow> replicate_slice list" where
  "metric_clusters run retained m =
     (case replicates m of
        Some reps \<Rightarrow> reps
      | None \<Rightarrow>
          [\<lparr>rep_index =
              (case retained of
                 Some [c] \<Rightarrow> pc_replicate c
               | _ \<Rightarrow> (case run_replicateIndex run of None \<Rightarrow> 0 | Some i \<Rightarrow> i)),
            rep_samples = samples m, rep_ptsSampleSource = mr_ptsSampleSource m,
            rep_hostHardwareId = mr_hostHardwareId m, rep_hostNetworkId = mr_hostNetworkId m\<rparr>])"

definition cluster_sandbox :: "provider_run \<Rightarrow> string \<Rightarrow> nat \<Rightarrow> string option" where
  "cluster_sandbox p suite index =
     map_option ae_sandboxId
       (find (\<lambda>e. cc_suite (ae_cell e) = suite \<and> cc_replicateIndex (ae_cell e) = Some index)
         (case pv_artifactEvidence p of None \<Rightarrow> [] | Some es \<Rightarrow> es))"

text \<open>The clusters of one entry: the next free index, the cells and the slices.\<close>

fun pool_clusters :: "bool \<Rightarrow> run_doc \<Rightarrow> provider_run \<Rightarrow> string \<Rightarrow> string \<Rightarrow> partial_cell list option \<Rightarrow> nat \<Rightarrow>
  replicate_slice list \<Rightarrow> pool_error + (nat \<times> dataset_cell list \<times> replicate_slice list)" where
  "pool_clusters single run p metric suite retained nextIndex [] = Inr (nextIndex, [], [])"
| "pool_clusters single run p metric suite retained nextIndex (cluster # clusters) =
     (if (case retained of None \<Rightarrow> False | Some cells \<Rightarrow> \<not> list_ex (\<lambda>c. pc_replicate c = rep_index cluster) cells)
      then Inl (UnretainedCluster (run_id run) (pv_id p) metric (rep_index cluster))
      else
        let combined = (if single then rep_index cluster else nextIndex);
            cell = \<lparr>dc_runId = run_id run, dc_providerId = pv_id p, dc_metricId = metric, dc_suite = suite,
                     dc_replicateIndex = rep_index cluster, dc_combinedIndex = combined,
                     dc_sandboxId = cluster_sandbox p suite (rep_index cluster)\<rparr>
        in and_then (pool_clusters single run p metric suite retained (if single then nextIndex else Suc nextIndex) clusters)
             (\<lambda>(next, cells, slices). Inr (next, cell # cells, cluster\<lparr>rep_index := combined\<rparr> # slices)))"

fun pool_entries :: "bool \<Rightarrow> string \<Rightarrow> nat \<Rightarrow> pool_entry list \<Rightarrow> pool_error + (dataset_cell list \<times> replicate_slice list)" where
  "pool_entries single metric nextIndex [] = Inr ([], [])"
| "pool_entries single metric nextIndex ((run, p, m) # entries) =
     (case metric_suite m of
        None \<Rightarrow> Inl (MissingSuite (run_id run) (pv_id p) metric)
      | Some suite \<Rightarrow>
          if suite = [] then Inl (MissingSuite (run_id run) (pv_id p) metric)
          else
            let retained = retained_cells run (pv_id p) suite metric
            in if replicates m = None \<and> (case retained of None \<Rightarrow> False | Some cells \<Rightarrow> length cells \<noteq> 1)
               then Inl (AmbiguousBreakdown (run_id run) (pv_id p) metric)
               else and_then (pool_clusters single run p metric suite retained nextIndex (metric_clusters run retained m))
                      (\<lambda>(next, cells, slices).
                        and_then (pool_entries single metric next entries)
                          (\<lambda>(more_cells, more_slices). Inr (cells @ more_cells, slices @ more_slices))))"

definition comparable_entries :: "string \<Rightarrow> string \<Rightarrow> pool_entry list \<Rightarrow> pool_error + unit" where
  "comparable_entries provider metric entries =
     reject_first
       [(\<not> all_equal (map (\<lambda>(run, p, m). measurement_signature m) entries), IncompatibleMeasurement provider metric),
        (\<not> all_equal (filter (\<lambda>a. a \<noteq> {}) (map suite_artifacts entries)), IncompatibleArtifacts provider metric),
        (\<not> all_equal (concat (map (planned_passes provider metric) entries)), IncompatiblePasses provider metric)]"

text \<open>The pooled result, if the metric has one, and its cells; the entries are not empty.\<close>

definition pool_metric :: "merge_services \<Rightarrow> string \<Rightarrow> (run_doc \<times> provider_run) list \<Rightarrow> string \<Rightarrow>
  pool_error + (dataset_cell list \<times> metric_result option)" where
  "pool_metric S provider contributions metric =
     (case provider_entries metric contributions of
        [] \<Rightarrow> Inr ([], None)
      | (run, p, initial) # others \<Rightarrow>
          let entries = (run, p, initial) # others; single = (others = []);
              latest = snd (snd (last entries))
          in if isDerivedMetric S initial then Inr ([], if metric = ''usd_per_hour'' then Some latest else None)
             else
               and_then (comparable_entries provider metric entries) (\<lambda>_.
               and_then (pool_entries single metric 0 entries) (\<lambda>(cells, slices).
                 if single then Inr (cells, Some initial)
                 else
                   let pooled = concat (map rep_samples slices)
                   in and_then (wrap_error PoolStatistics (aggregate pooled)) (\<lambda>a.
                        Inr (cells, Some (initial\<lparr>samples := pooled, aggregates_of := a, replicates := Some slices,
                          mr_ptsSampleSource := None, mr_hostHardwareId := None, mr_hostNetworkId := None\<rparr>))))))"

section \<open>One provider over the sources\<close>

definition contributions_of :: "run_doc list \<Rightarrow> string \<Rightarrow> (run_doc \<times> provider_run) list" where
  "contributions_of sources provider =
     concat (map (\<lambda>run. map (\<lambda>p. (run, p)) (filter (\<lambda>p. pv_id p = provider) (run_providers run))) sources)"

definition contributed_metrics :: "(run_doc \<times> provider_run) list \<Rightarrow> string list" where
  "contributed_metrics contributions = sort (remdups (concat (map (\<lambda>(run, p). map metricId (pv_metrics p)) contributions)))"

fun pool_metrics :: "merge_services \<Rightarrow> string \<Rightarrow> (run_doc \<times> provider_run) list \<Rightarrow> string list \<Rightarrow>
  pool_error + (dataset_cell list \<times> metric_result list)" where
  "pool_metrics S provider contributions [] = Inr ([], [])"
| "pool_metrics S provider contributions (metric # metrics) =
     and_then (pool_metric S provider contributions metric) (\<lambda>(cells, result).
     and_then (pool_metrics S provider contributions metrics) (\<lambda>(more_cells, results).
       Inr (cells @ more_cells, (case result of None \<Rightarrow> results | Some m \<Rightarrow> m # results))))"

definition tagged_gap :: "run_doc \<Rightarrow> result_gap \<Rightarrow> result_gap" where
  "tagged_gap run gap = gap\<lparr>gap_reason := ''['' @ run_id run @ ''] '' @ gap_reason gap\<rparr>"

definition pool_provider :: "merge_services \<Rightarrow> run_doc list \<Rightarrow> string \<Rightarrow> pool_error + (dataset_cell list \<times> provider_run)" where
  "pool_provider S sources provider =
     (let contributions = contributions_of sources provider; slices = map snd contributions
      in if contributions = [] then Inl (NoContribution provider)
         else
           and_then (pool_metrics S provider contributions (contributed_metrics contributions)) (\<lambda>(cells, metrics).
           and_then (mergeMixtures slices) (\<lambda>mixtures.
             let latest = last slices;
                 mismatch = find (\<lambda>p. pv_specMatched p = Some False) slices
             in Inr (cells, latest\<lparr>
                  pv_metrics := metrics,
                  pv_validated := (metrics \<noteq> []),
                  pv_specMatched := (case mismatch of None \<Rightarrow> pv_specMatched latest | Some p \<Rightarrow> Some False),
                  pv_observedSpecs := (case mismatch of None \<Rightarrow> pv_observedSpecs latest | Some p \<Rightarrow> pv_observedSpecs p),
                  pv_observedMixtures := (case mixtures of None \<Rightarrow> pv_observedMixtures latest | Some om \<Rightarrow> Some om),
                  pv_suitesCovered := sort (remdups (concat (map pv_suitesCovered slices))),
                  pv_gaps := concat (map (\<lambda>(run, p). map (tagged_gap run) (pv_gaps p)) contributions),
                  pv_costEvidence := Some (concat (map (\<lambda>p. case pv_costEvidence p of None \<Rightarrow> [] | Some cs \<Rightarrow> cs) slices)),
                  pv_artifactEvidence := Some (concat (map (\<lambda>p. case pv_artifactEvidence p of None \<Rightarrow> [] | Some es \<Rightarrow> es) slices)),
                  pv_hostMetadata := Some (concat (map (\<lambda>p. case pv_hostMetadata p of None \<Rightarrow> [] | Some hs \<Rightarrow> hs) slices)),
                  pv_uncatalogued := concat (map pv_uncatalogued slices)\<rparr>))))"

section \<open>The pooled view\<close>

definition pooled_provider_ids :: "run_doc list \<Rightarrow> string list" where
  "pooled_provider_ids sources = sort (remdups (concat (map (\<lambda>run. map pv_id (run_providers run)) sources)))"

definition pooling_notes :: "run_doc list \<Rightarrow> string option \<Rightarrow> string list" where
  "pooling_notes sources review =
     [''Exploratory pooled sandbox analysis: each sandbox has one vote, regardless of its trial count. Intervals resample whole sandboxes and assume exchangeability across these selected runs; they do not quantify future-run variability or correct run/date effects.''] @
     (if cohort_mismatch sources
      then [''Different comparison cohorts. Review: '' @ (case review of None \<Rightarrow> ''undefined'' | Some r \<Rightarrow> r)] else []) @
     [''Original experiments retain their separate completeness records. Missing cells are never zero-valued observations. Only hourly price is retained from the latest contributing dataset; other derived metrics are omitted.'']"

definition pooled_dataset :: "merge_services \<Rightarrow> run_doc list \<Rightarrow> string option \<Rightarrow> pool_error + dataset" where
  "pooled_dataset S sources review =
     and_then (sequence (map (pool_provider S sources) (pooled_provider_ids sources))) (\<lambda>rows.
       Inr \<lparr>ds_runId = join_with ''+'' (map run_id sources), ds_sha = run_sha (hd sources),
            ds_generatedAt = run_generatedAt (last sources), ds_targetSpec = run_targetSpec (hd sources),
            ds_providers = map snd rows, ds_experiment = None,
            ds_pooled = Some \<lparr>pf_sources = sources, pf_notes = pooling_notes sources review,
              pf_cells = concat (map fst rows)\<rparr>\<rparr>)"

definition combineLeaderboardDatasets :: "merge_services \<Rightarrow> run_doc list \<Rightarrow> string option \<Rightarrow> pool_error + dataset" where
  "combineLeaderboardDatasets S inputs review =
     (if inputs = [] then Inl NoDatasets
      else
        and_then (distinct_runs S [] inputs) (\<lambda>byId.
          case sorted_sources S byId of
            [] \<Rightarrow> Inl NoDatasets
          | first # others \<Rightarrow>
              if 1 < length inputs \<and> length byId = 1 then Inl (SameRunRepeated (length inputs) (run_id first))
              else if others = [] then Inr (published_dataset first)
              else if list_ex (\<lambda>run. run_targetSpec run \<noteq> run_targetSpec first) (first # others) then Inl DifferentTargets
              else if cohort_mismatch (first # others) \<and> \<not> review_given review then Inl CohortReviewNeeded
              else and_then (independent_sources (first # others)) (\<lambda>_. pooled_dataset S (first # others) review)))"

section \<open>Lemmas: pooled clusters\<close>

text \<open>The samples of a result, sandbox by sandbox, and those of all sources.\<close>

definition result_clusters :: "metric_result \<Rightarrow> jsnum list list" where
  "result_clusters m = (case replicates m of None \<Rightarrow> [samples m] | Some reps \<Rightarrow> map rep_samples reps)"

definition source_clusters :: "run_doc list \<Rightarrow> string \<Rightarrow> string \<Rightarrow> jsnum list list" where
  "source_clusters sources provider metric =
     concat (map (\<lambda>(run, p, m). result_clusters m) (provider_entries metric (contributions_of sources provider)))"

lemma metric_clusters_samples: "map rep_samples (metric_clusters run retained m) = result_clusters m"
  by (simp add: metric_clusters_def result_clusters_def split: option.split)

lemma pool_clusters_Inr:
  "pool_clusters single run p metric suite retained n clusters = Inr (n', cells, slices) \<Longrightarrow>
   map rep_samples slices = map rep_samples clusters"
  by (induction clusters arbitrary: n n' cells slices) (auto simp: and_then_Inr_iff Let_def split: if_split_asm)

lemma pool_entries_Inr:
  "pool_entries single metric n entries = Inr (cells, slices) \<Longrightarrow>
   map rep_samples slices = concat (map (\<lambda>(run, p, m). result_clusters m) entries)"
proof (induction entries arbitrary: n cells slices)
  case (Cons e entries)
  obtain run p m where e: "e = (run, p, m)" by (cases e)
  obtain suite retained following cells1 slices1 cells2 slices2 where parts:
    "pool_clusters single run p metric suite retained n (metric_clusters run retained m) = Inr (following, cells1, slices1)"
    "pool_entries single metric following entries = Inr (cells2, slices2)" "slices = slices1 @ slices2"
    using Cons.prems e by (auto simp: and_then_Inr_iff Let_def split: option.split_asm if_split_asm)
  show ?case using pool_clusters_Inr[OF parts(1)] Cons.IH[OF parts(2)] parts(3) e by (simp add: metric_clusters_samples)
qed simp

lemma provider_entries_metric: "(run, p, m) \<in> set (provider_entries metric contributions) \<Longrightarrow> metricId m = metric"
  by (auto simp: provider_entries_def)

lemma provider_entries_sources:
  "(run, p, m) \<in> set (provider_entries metric (contributions_of sources provider)) \<longleftrightarrow>
   run \<in> set sources \<and> p \<in> set (run_providers run) \<and> pv_id p = provider \<and> m \<in> set (pv_metrics p) \<and> metricId m = metric"
  by (auto simp: provider_entries_def contributions_of_def)

text \<open>The entry that gives a pooled result: measured entries are compared and their clusters are kept.\<close>

lemma pool_metric_measured:
  assumes "pool_metric S provider contributions metric = Inr (cells, Some m)" "metric \<noteq> ''usd_per_hour''"
  shows "metricId m = metric \<and> comparable_entries provider metric (provider_entries metric contributions) = Inr () \<and>
    result_clusters m = concat (map (\<lambda>(run, p, m). result_clusters m) (provider_entries metric contributions))"
proof -
  obtain run p initial others where entries: "provider_entries metric contributions = (run, p, initial) # others"
    using assms(1) by (auto simp: pool_metric_def split: list.split_asm)
  have initial: "metricId initial = metric"
    using provider_entries_metric[of run p initial metric contributions] entries by simp
  have "\<not> isDerivedMetric S initial" using assms entries by (auto simp: pool_metric_def Let_def split: if_split_asm)
  then obtain slices where pooled: "comparable_entries provider metric ((run, p, initial) # others) = Inr ()"
    "pool_entries (others = []) metric 0 ((run, p, initial) # others) = Inr (cells, slices)"
    "m = initial \<and> others = [] \<or>
     others \<noteq> [] \<and> replicates m = Some slices \<and> metricId m = metricId initial"
    using assms(1) unfolding pool_metric_def entries
    by (auto simp: and_then_Inr_iff Let_def and_then_unit split: if_split_asm)
  show ?thesis
  proof (cases "others = []")
    case True
    then show ?thesis using pooled initial entries by simp
  next
    case False
    then have "result_clusters m = map rep_samples slices" using pooled(3) by (simp add: result_clusters_def)
    then show ?thesis using pool_entries_Inr[OF pooled(2)] pooled(1,3) False initial entries by simp
  qed
qed

lemma pool_metric_id:
  assumes "pool_metric S provider contributions metric = Inr (cells, Some m)"
  shows "metricId m = metric"
proof (cases "provider_entries metric contributions")
  case (Cons e others)
  have "metricId (snd (snd x)) = metric" if "x \<in> set (e # others)" for x
    using provider_entries_metric[of "fst x" "fst (snd x)" "snd (snd x)" metric contributions] that Cons by auto
  from this[of e] this[of "last (e # others)"] show ?thesis
    using assms Cons by (cases e) (auto simp: pool_metric_def and_then_Inr_iff Let_def split: if_split_asm)
qed (use assms in \<open>simp add: pool_metric_def\<close>)

lemma pool_metrics_mem:
  "pool_metrics S provider contributions metrics = Inr (cells, results) \<Longrightarrow> m \<in> set results \<Longrightarrow>
   \<exists>cells. pool_metric S provider contributions (metricId m) = Inr (cells, Some m)"
proof (induction metrics arbitrary: cells results)
  case (Cons metric metrics)
  obtain cells1 result cells2 results2 where parts: "pool_metric S provider contributions metric = Inr (cells1, result)"
    "pool_metrics S provider contributions metrics = Inr (cells2, results2)"
    "results = (case result of None \<Rightarrow> results2 | Some m \<Rightarrow> m # results2)"
    using Cons.prems(1) by (auto simp: and_then_Inr_iff)
  show ?case
  proof (cases "m \<in> set results2")
    case True
    then show ?thesis by (rule Cons.IH[OF parts(2)])
  next
    case False
    then have "result = Some m" using parts(3) Cons.prems(2) by (cases result) auto
    then show ?thesis using parts(1) pool_metric_id[of S provider contributions metric cells1 m] by auto
  qed
qed simp

section \<open>Lemmas: independent sources\<close>

lemma claim_ids_Inr:
  "claim_ids claimed ids = Inr claimed' \<longleftrightarrow> distinct ids \<and> set ids \<inter> claimed = {} \<and> claimed' = claimed \<union> set ids"
  by (induction ids arbitrary: claimed) auto

lemma claim_evidence_Inr:
  "claim_evidence attempts sandboxes runs = Inr () \<longleftrightarrow>
   distinct (concat (map run_attempt_ids runs)) \<and> set (concat (map run_attempt_ids runs)) \<inter> attempts = {} \<and>
   distinct (concat (map run_sandbox_keys runs)) \<and> set (concat (map run_sandbox_keys runs)) \<inter> sandboxes = {}"
proof (induction runs arbitrary: attempts sandboxes)
  case (Cons run runs)
  show ?case
    by (simp only: claim_evidence.simps and_then_Inr_iff wrap_error_Inr claim_ids_Inr Cons.IH) auto
qed simp

lemma distinct_runs_facts:
  "distinct_runs S acc inputs = Inr byId \<Longrightarrow> distinct (map fst acc) \<Longrightarrow> (\<forall>(i, run)\<in>set acc. i = run_id run \<and> run \<in> R) \<Longrightarrow>
   set inputs \<subseteq> R \<Longrightarrow> distinct (map fst byId) \<and> (\<forall>(i, run)\<in>set byId. i = run_id run \<and> run \<in> R)"
proof (induction inputs arbitrary: acc)
  case (Cons input inputs)
  have rest: "distinct_runs S (AList.update (run_id input) input acc) inputs = Inr byId"
    using Cons.prems(1) by (auto simp: and_then_Inr_iff parseRun_def split: if_split_asm)
  have "\<forall>(i, run)\<in>set (AList.update (run_id input) input acc). i = run_id run \<and> run \<in> R"
    using Cons.prems(3,4) by (auto dest!: set_AList_update)
  then show ?case using Cons.IH[OF rest] Cons.prems(2,4) by (simp add: distinct_update)
qed simp

lemma set_sorted_sources: "set (sorted_sources S byId) = snd ` set byId"
  by (simp add: sorted_sources_def locale_sort_def)

lemma distinct_run_ids:
  assumes "distinct (map fst byId)" "\<forall>(i, run)\<in>set byId. i = run_id run"
  shows "distinct (map run_id (sorted_sources S byId))"
proof -
  have ids: "map run_id (map snd byId) = map fst byId" using assms(2) by auto
  have "mset (map run_id (sorted_sources S byId)) = mset (map run_id (map snd byId))"
    by (simp add: sorted_sources_def locale_sort_def del: map_map)
  then show ?thesis unfolding ids using assms(1) mset_eq_imp_distinct_iff by blast
qed

lemma pool_provider_Inr:
  assumes "pool_provider S sources provider = Inr (cells, row)"
  obtains metric_cells where "pool_metrics S provider (contributions_of sources provider)
      (contributed_metrics (contributions_of sources provider)) = Inr (metric_cells, pv_metrics row)" "pv_id row = provider"
proof -
  let ?cs = "contributions_of sources provider"
  have ne: "?cs \<noteq> []" using assms by (auto simp: pool_provider_def Let_def)
  then have "pv_id (last (map snd ?cs)) = provider"
    using last_in_set[OF ne] by (auto simp: last_map contributions_of_def)
  then show ?thesis
    using assms that by (auto simp: pool_provider_def Let_def and_then_Inr_iff split: if_split_asm)
qed

lemma pooled_row:
  assumes "pooled_dataset S sources review = Inr ds" "p \<in> set (ds_providers ds)"
  obtains provider cells where "pool_provider S sources provider = Inr (cells, p)"
proof -
  obtain rows where rows: "map (pool_provider S sources) (pooled_provider_ids sources) = map Inr rows" "ds_providers ds = map snd rows"
    using assms(1) by (auto simp: pooled_dataset_def and_then_Inr_iff sequence_Inr_iff)
  then obtain cells where "(cells, p) \<in> set rows" using assms(2) by auto
  then have "Inr (cells, p) \<in> set (map (pool_provider S sources) (pooled_provider_ids sources))" unfolding rows(1) by auto
  then obtain provider where "Inr (cells, p) = pool_provider S sources provider" unfolding set_map by (rule imageE)
  then show ?thesis by (rule that[OF sym])
qed

lemma combined_sources:
  assumes "combineLeaderboardDatasets S inputs review = Inr ds" "ds_pooled ds = Some pf"
  obtains byId where "distinct_runs S [] inputs = Inr byId" "pf_sources pf = sorted_sources S byId"
    "independent_sources (pf_sources pf) = Inr ()" "pooled_dataset S (pf_sources pf) review = Inr ds"
    "\<And>run run'. run \<in> set (pf_sources pf) \<Longrightarrow> run' \<in> set (pf_sources pf) \<Longrightarrow> run_targetSpec run = run_targetSpec run'"
    "cohort_mismatch (pf_sources pf) \<Longrightarrow> review_given review"
proof -
  have inputs: "inputs \<noteq> []" using assms(1) by (auto simp: combineLeaderboardDatasets_def)
  obtain byId where byId: "distinct_runs S [] inputs = Inr byId"
    using assms(1) inputs by (auto simp: combineLeaderboardDatasets_def and_then_Inr_iff)
  obtain first others where sources: "sorted_sources S byId = first # others"
    using assms(1) inputs byId by (cases "sorted_sources S byId") (auto simp: combineLeaderboardDatasets_def)
  have several: "others \<noteq> []"
    using assms inputs byId sources by (auto simp: combineLeaderboardDatasets_def published_dataset_def split: if_split_asm)
  have checks: "\<not> list_ex (\<lambda>run. run_targetSpec run \<noteq> run_targetSpec first) (first # others)"
    "\<not> (cohort_mismatch (first # others) \<and> \<not> review_given review)"
    "and_then (independent_sources (first # others)) (\<lambda>_. pooled_dataset S (first # others) review) = Inr ds"
    using assms(1) inputs byId several sources
    by (simp_all add: combineLeaderboardDatasets_def list_ex_iff split: if_split_asm)
  then have pooled: "independent_sources (first # others) = Inr ()" "pooled_dataset S (first # others) review = Inr ds"
    by (auto simp: and_then_Inr_iff)
  have "pf_sources pf = first # others"
    using pooled(2) assms(2) by (auto simp: pooled_dataset_def and_then_Inr_iff)
  moreover have "run_targetSpec run = run_targetSpec first" if "run \<in> set (first # others)" for run
    using that checks(1) by (auto simp: list_ex_iff)
  ultimately show ?thesis using that[OF byId] sources checks(2) pooled by metis
qed

section \<open>Properties of the pooled view\<close>

text \<open>
  Property C22. A pooled view counts every measurement once: its sources are distinct Runs of the input,
  no attempt and no sandbox occurs in two places, and the sandboxes of every measured result are exactly
  the sandboxes of the sources' results for that provider and metric, in the order of the sources, with
  their trials kept together.
\<close>

theorem pooled_counts_each_once:
  assumes "combineLeaderboardDatasets S inputs review = Inr ds" "ds_pooled ds = Some pf"
  shows "set (pf_sources pf) \<subseteq> set inputs \<and> distinct (map run_id (pf_sources pf)) \<and>
    distinct (concat (map run_attempt_ids (pf_sources pf))) \<and> distinct (concat (map run_sandbox_keys (pf_sources pf))) \<and>
    (\<forall>p\<in>set (ds_providers ds). \<forall>m\<in>set (pv_metrics p). metricId m \<noteq> ''usd_per_hour'' \<longrightarrow>
       result_clusters m = source_clusters (pf_sources pf) (pv_id p) (metricId m))"
proof -
  obtain byId where c: "distinct_runs S [] inputs = Inr byId" "pf_sources pf = sorted_sources S byId"
    "independent_sources (pf_sources pf) = Inr ()" "pooled_dataset S (pf_sources pf) review = Inr ds"
    by (rule combined_sources[OF assms])
  have ids: "distinct (map fst byId)" "\<forall>(i, run)\<in>set byId. i = run_id run \<and> run \<in> set inputs"
    using distinct_runs_facts[OF c(1), of "set inputs"] by simp_all
  have "result_clusters m = source_clusters (pf_sources pf) (pv_id p) (metricId m)"
    if p: "p \<in> set (ds_providers ds)" and m: "m \<in> set (pv_metrics p)" "metricId m \<noteq> ''usd_per_hour''" for p m
  proof -
    obtain provider cells where "pool_provider S (pf_sources pf) provider = Inr (cells, p)"
      by (rule pooled_row[OF c(4) p])
    then obtain metric_cells where "pool_metrics S provider (contributions_of (pf_sources pf) provider)
        (contributed_metrics (contributions_of (pf_sources pf) provider)) = Inr (metric_cells, pv_metrics p)" "pv_id p = provider"
      by (rule pool_provider_Inr)
    from pool_metrics_mem[OF this(1) m(1)] this(2) pool_metric_measured m(2)
    show ?thesis unfolding source_clusters_def by blast
  qed
  moreover have "distinct (map run_id (sorted_sources S byId))" using ids by (intro distinct_run_ids) auto
  ultimately show ?thesis
    using ids c(2,3)
    by (auto simp: independent_sources_def and_then_Inr_iff claim_evidence_Inr set_sorted_sources)
qed

text \<open>
  Only comparable measurements are pooled: all sources requested the same target, their
  cohorts agree unless a review of the difference was supplied and is printed, and every two source
  results behind a pooled measured result have the same version, arguments and suite.
\<close>

theorem pooled_sources_comparable:
  assumes "combineLeaderboardDatasets S inputs review = Inr ds" "ds_pooled ds = Some pf"
    and "p \<in> set (ds_providers ds)" "m \<in> set (pv_metrics p)" "metricId m \<noteq> ''usd_per_hour''"
    and "r1 \<in> set (pf_sources pf)" "p1 \<in> set (run_providers r1)" "m1 \<in> set (pv_metrics p1)"
    and "r2 \<in> set (pf_sources pf)" "p2 \<in> set (run_providers r2)" "m2 \<in> set (pv_metrics p2)"
    and "pv_id p1 = pv_id p" "pv_id p2 = pv_id p" "metricId m1 = metricId m" "metricId m2 = metricId m"
  shows "run_targetSpec r1 = run_targetSpec r2 \<and> measurement_signature m1 = measurement_signature m2 \<and>
    (run_cohort r1 = run_cohort r2 \<and> run_cohort r1 \<noteq> None \<or>
     (\<exists>text. review = Some text \<and> js_trim text \<noteq> [] \<and>
        ''Different comparison cohorts. Review: '' @ text \<in> set (pf_notes pf)))"
proof -
  obtain byId where c: "pooled_dataset S (pf_sources pf) review = Inr ds"
    "run_targetSpec r1 = run_targetSpec r2" "cohort_mismatch (pf_sources pf) \<Longrightarrow> review_given review"
    using combined_sources[OF assms(1,2)] assms(6,9) by metis
  obtain provider cells where "pool_provider S (pf_sources pf) provider = Inr (cells, p)" by (rule pooled_row[OF c(1) assms(3)])
  then obtain metric_cells where row: "pool_metrics S provider (contributions_of (pf_sources pf) provider)
      (contributed_metrics (contributions_of (pf_sources pf) provider)) = Inr (metric_cells, pv_metrics p)" "pv_id p = provider"
    by (rule pool_provider_Inr)
  let ?entries = "provider_entries (metricId m) (contributions_of (pf_sources pf) provider)"
  have "comparable_entries provider (metricId m) ?entries = Inr ()"
    using pool_metrics_mem[OF row(1) assms(4)] pool_metric_measured assms(5) by blast
  then have "all_equal (map (\<lambda>(run, p, m). measurement_signature m) ?entries)"
    by (simp add: comparable_entries_def split: if_split_asm)
  moreover have "(r1, p1, m1) \<in> set ?entries" "(r2, p2, m2) \<in> set ?entries"
    using assms row(2) by (simp_all add: provider_entries_sources)
  then have "measurement_signature m1 \<in> set (map (\<lambda>(run, p, m). measurement_signature m) ?entries)"
    "measurement_signature m2 \<in> set (map (\<lambda>(run, p, m). measurement_signature m) ?entries)" by force+
  ultimately have "measurement_signature m1 = measurement_signature m2" by (rule all_equalD)
  moreover have "run_cohort r1 = run_cohort r2 \<and> run_cohort r1 \<noteq> None" if "\<not> cohort_mismatch (pf_sources pf)"
    using that all_equalD[of "map run_cohort (pf_sources pf)" "run_cohort r1" "run_cohort r2"] assms(6,9)
    by (force simp: cohort_mismatch_def)
  moreover have "pf_notes pf = pooling_notes (pf_sources pf) review"
    using c(1) assms(2) by (cases pf) (auto simp: pooled_dataset_def and_then_Inr_iff)
  ultimately show ?thesis
    using c(2,3) by (auto simp: review_given_def pooling_notes_def split: option.split_asm)
qed

section \<open>Two Runs of one sandbox each\<close>

definition pooling_provider :: "real \<Rightarrow> provider_run" where
  "pooling_provider x = \<lparr>pv_id = ''p'', pv_costEvidence = None, pv_artifactEvidence = None, pv_validated = True,
     pv_specMatched = None, pv_observedSpecs = [], pv_observedMixtures = None, pv_hostMetadata = None,
     pv_metrics = [(plain_metric ''m'' [Fin x] \<lparr>p50 = Fin x, p95 = Fin x, agg_mean = x, stdev = 0, agg_min = Fin x, agg_max = Fin x, agg_n = 1\<rparr> None)
       \<lparr>mr_sourceFile := Some ''memory/stream.json''\<rparr>],
     pv_suitesCovered = [''memory''], pv_gaps = [], pv_uncatalogued = []\<rparr>"

definition pooling_run :: "string \<Rightarrow> real \<Rightarrow> run_doc" where
  "pooling_run i x = \<lparr>run_version = 3, run_id = i, run_sha = ''s'', run_generatedAt = ''2026-07-01T00:00:00Z'',
     run_sourceRunUrl = None, run_replicateIndex = None, run_experiment = None,
     run_targetSpec = \<lparr>vcpus = 4, memoryGb = 8, diskGb = None\<rparr>, run_providers = [pooling_provider x]\<rparr>"

lemma pooling_run_parses: "parseRun (pooling_run i x) = Inr (pooling_run i x)"
  by (simp add: parseRun_def run_narrow_def experiment_narrow_def pooling_run_def has_replicates_def provider_narrow_def
      provider_versions_def pooling_provider_def metric_narrow_def aggregatesSchema_def plain_metric_def metric_ids_resolve_def resolves_def
      described_by_v4_def)

lemma pooling_run_simps [simp]:
  "run_id (pooling_run i x) = i" "run_experiment (pooling_run i x) = None" "run_sha (pooling_run i x) = ''s''"
  "run_generatedAt (pooling_run i x) = ''2026-07-01T00:00:00Z''" "run_replicateIndex (pooling_run i x) = None"
  "run_targetSpec (pooling_run i x) = \<lparr>vcpus = 4, memoryGb = 8, diskGb = None\<rparr>"
  "run_providers (pooling_run i x) = [pooling_provider x]"
  by (simp_all add: pooling_run_def)

lemma pooling_metric:
  "\<exists>cells m. pool_metric example_merge_services ''p'' [(pooling_run ''x'' 1, pooling_provider 1), (pooling_run ''y'' 2, pooling_provider 2)] ''m'' =
     Inr (cells, Some m) \<and> metricId m = ''m''"
proof -
  obtain a where a: "aggregate [Fin 1, Fin 2] = Inr a" using aggregate_finite[of "[1, 2]"] by auto
  show ?thesis
    by (simp add: pool_metric_def provider_entries_def pooling_provider_def plain_metric_def isDerivedMetric_def example_merge_services_def
        comparable_entries_def all_equal_def measurement_signature_def metric_suite_def suite_artifacts_def planned_passes_def
        retained_cells_def metric_clusters_def first_part_def a Let_def)
qed

lemma pooling_example:
  "\<exists>ds pf p m. combineLeaderboardDatasets example_merge_services [pooling_run ''x'' 1, pooling_run ''y'' 2] (Some ''reviewed'') = Inr ds \<and>
    ds_pooled ds = Some pf \<and> pf_sources pf = [pooling_run ''x'' 1, pooling_run ''y'' 2] \<and>
    ds_providers ds = [p] \<and> pv_id p = ''p'' \<and> pv_metrics p = [m] \<and> metricId m = ''m''"
proof -
  let ?sources = "[pooling_run ''x'' 1, pooling_run ''y'' 2]"
  let ?cs = "[(pooling_run ''x'' 1, pooling_provider 1), (pooling_run ''y'' 2, pooling_provider 2)]"
  have ids: "pv_id (pooling_provider x) = ''p''" "map metricId (pv_metrics (pooling_provider x)) = [''m'']"
    "pv_observedMixtures (pooling_provider x) = None" for x
    by (simp_all add: pooling_provider_def plain_metric_def)
  obtain cells m where m: "pool_metric example_merge_services ''p'' ?cs ''m'' = Inr (cells, Some m)" "metricId m = ''m''"
    using pooling_metric by blast
  have byId: "distinct_runs example_merge_services [] ?sources = Inr [(''x'', pooling_run ''x'' 1), (''y'', pooling_run ''y'' 2)]"
    by (simp add: pooling_run_parses)
  have cs: "contributions_of ?sources ''p'' = ?cs" by (simp add: contributions_of_def ids)
  have "pool_metrics example_merge_services ''p'' ?cs (contributed_metrics ?cs) = Inr (cells, [m])"
    by (simp add: contributed_metrics_def ids m)
  then obtain row where row: "pool_provider example_merge_services ?sources ''p'' = Inr (cells, row)" "pv_id row = ''p''" "pv_metrics row = [m]"
    by (simp add: pool_provider_def cs mergeMixtures_def List.map_filter_def ids Let_def)
  have "sorted_sources example_merge_services [(''x'', pooling_run ''x'' 1), (''y'', pooling_run ''y'' 2)] = ?sources"
    by (simp add: sorted_sources_def locale_sort_def example_merge_services_def)
  moreover have "independent_sources ?sources = Inr ()"
    by (simp add: independent_sources_def run_attempt_ids_def run_sandbox_keys_def) (simp add: pooling_provider_def)
  moreover have "cohort_mismatch ?sources" by (simp add: cohort_mismatch_def run_cohort_def)
  moreover have "pooled_provider_ids ?sources = [''p'']" by (simp add: pooled_provider_ids_def ids)
  moreover have "review_given (Some ''reviewed'')" by (simp add: review_given_def js_trim_def js_space_def)
  ultimately show ?thesis
    using byId row m(2) by (simp add: combineLeaderboardDatasets_def pooled_dataset_def)
qed

theorem pooled_counts_each_once_witness:
  "\<exists>ds p m. combineLeaderboardDatasets example_merge_services [pooling_run ''x'' 1, pooling_run ''y'' 2] (Some ''reviewed'') = Inr ds \<and>
    p \<in> set (ds_providers ds) \<and> m \<in> set (pv_metrics p) \<and> result_clusters m = [[Fin 1], [Fin 2]]"
proof -
  obtain ds pf p m where ex: "combineLeaderboardDatasets example_merge_services [pooling_run ''x'' 1, pooling_run ''y'' 2] (Some ''reviewed'') = Inr ds"
    "ds_pooled ds = Some pf" "pf_sources pf = [pooling_run ''x'' 1, pooling_run ''y'' 2]"
    "ds_providers ds = [p]" "pv_id p = ''p''" "pv_metrics p = [m]" "metricId m = ''m''" using pooling_example by blast
  have "source_clusters (pf_sources pf) ''p'' ''m'' = [[Fin 1], [Fin 2]]"
    by (simp add: ex(3) source_clusters_def provider_entries_def contributions_of_def)
      (simp add: pooling_provider_def plain_metric_def result_clusters_def)
  then show ?thesis using pooled_counts_each_once[OF ex(1,2)] ex by auto
qed

theorem pooled_sources_comparable_witness:
  "\<exists>ds pf. combineLeaderboardDatasets example_merge_services [pooling_run ''x'' 1, pooling_run ''y'' 2] (Some ''reviewed'') = Inr ds \<and>
    ds_pooled ds = Some pf \<and> ''Different comparison cohorts. Review: reviewed'' \<in> set (pf_notes pf)"
proof -
  obtain ds pf p m where ex: "combineLeaderboardDatasets example_merge_services [pooling_run ''x'' 1, pooling_run ''y'' 2] (Some ''reviewed'') = Inr ds"
    "ds_pooled ds = Some pf" "pf_sources pf = [pooling_run ''x'' 1, pooling_run ''y'' 2]"
    "ds_providers ds = [p]" "pv_id p = ''p''" "pv_metrics p = [m]" "metricId m = ''m''" using pooling_example by blast
  have mem: "p \<in> set (ds_providers ds)" "m \<in> set (pv_metrics p)" "metricId m \<noteq> ''usd_per_hour''"
    "pooling_run ''x'' 1 \<in> set (pf_sources pf)" "pooling_provider 1 \<in> set (run_providers (pooling_run ''x'' 1))"
    "pooling_run ''y'' 2 \<in> set (pf_sources pf)" "pooling_provider 2 \<in> set (run_providers (pooling_run ''y'' 2))"
    using ex by simp_all
  have rows: "pv_id (pooling_provider 1) = pv_id p" "pv_id (pooling_provider 2) = pv_id p"
    "hd (pv_metrics (pooling_provider 1)) \<in> set (pv_metrics (pooling_provider 1))" "metricId (hd (pv_metrics (pooling_provider 1))) = metricId m"
    "hd (pv_metrics (pooling_provider 2)) \<in> set (pv_metrics (pooling_provider 2))" "metricId (hd (pv_metrics (pooling_provider 2))) = metricId m"
    using ex by (simp_all add: pooling_provider_def plain_metric_def)
  from pooled_sources_comparable[OF ex(1,2) mem(1,2,3) mem(4,5) rows(3) mem(6,7) rows(5) rows(1,2) rows(4,6)]
  show ?thesis using ex(1,2) by (auto simp: run_cohort_def)
qed

end
