(* ===== verification/Midranks.thy ===== *)
theory Midranks
  imports Aggregates
begin

text \<open>
  \<open>midranks\<close> of \<open>packages/schema/src/analysis.ts\<close>: the loop over the sorted pool that gives every
  tie group its mean rank, and the tie correction of the asymptotic test. \<open>midrank\<close> is the rank in
  closed form; the lemmas show that the loop computes it for every sample, that the ranks of a pool
  of \<open>N\<close> samples sum to \<open>N * (N + 1) / 2\<close>, and that doubled ranks are natural numbers.
\<close>

section \<open>The loop\<close>

text \<open>\<open>while (j + 1 < order.length && order[j + 1]?.value === order[i]?.value) j++\<close>.\<close>

function group_end :: "(real \<times> nat) list \<Rightarrow> nat \<Rightarrow> nat \<Rightarrow> nat" where
  "group_end order i j =
     (if j + 1 < length order \<and> fst (order ! (j + 1)) = fst (order ! i)
      then group_end order i (j + 1) else j)"
  by pat_completeness auto
termination by (relation "measure (\<lambda>(order, i, j). length order - j)") auto

declare group_end.simps [simp del]

definition set_ranks :: "(real \<times> nat) list \<Rightarrow> nat \<Rightarrow> nat \<Rightarrow> real \<Rightarrow> real option list \<Rightarrow> real option list" where
  "set_ranks order i j mean ranks =
     foldl (\<lambda>ranks k. ranks[snd (order ! k) := Some mean]) ranks [i..<Suc j]"

lemma group_end_ge: "j \<le> group_end order i j"
proof (induction order i j rule: group_end.induct)
  case (1 order i j)
  then show ?case by (subst group_end.simps) auto
qed

function midrank_loop :: "(real \<times> nat) list \<Rightarrow> nat \<Rightarrow> real option list \<Rightarrow> real \<Rightarrow> real option list \<times> real" where
  "midrank_loop order i ranks tieCorrection =
     (if i < length order then
        (let j = group_end order i i;
             mean = (real i + real j + 2) / 2;
             t = real j - real i + 1
         in midrank_loop order (j + 1) (set_ranks order i j mean ranks) (tieCorrection + (t ^ 3 - t)))
      else (ranks, tieCorrection))"
  by pat_completeness auto
termination
  by (relation "measure (\<lambda>(order, i, ranks, t). length order - i)")
    (auto simp: Let_def intro: diff_less_mono2 le_imp_less_Suc group_end_ge)

declare midrank_loop.simps [simp del]

text \<open>The sort is stable, so the order of equal values is that of their positions.\<close>

definition midranks :: "real list \<Rightarrow> real option list \<times> real" where
  "midranks pooled =
     midrank_loop (sort_key fst (zip pooled [0..<length pooled])) 0 (replicate (length pooled) None) 0"

section \<open>The rank in closed form\<close>

definition below :: "real list \<Rightarrow> real \<Rightarrow> nat" where
  "below xs x = length (filter (\<lambda>y. y < x) xs)"

definition ties :: "real list \<Rightarrow> real \<Rightarrow> nat" where
  "ties xs x = length (filter (\<lambda>y. y = x) xs)"

definition midrank :: "real list \<Rightarrow> real \<Rightarrow> real" where
  "midrank xs x = real (below xs x) + (real (ties xs x) + 1) / 2"

lemma filter_mset_length: "mset xs = mset ys \<Longrightarrow> length (filter P xs) = length (filter P ys)"
  by (metis mset_filter mset_eq_length)

lemma midrank_mset: "mset xs = mset ys \<Longrightarrow> midrank xs = midrank ys"
  by (simp add: midrank_def below_def ties_def filter_mset_length[of xs ys] fun_eq_iff)

lemma ties_mset: "mset xs = mset ys \<Longrightarrow> ties xs = ties ys"
  by (simp add: ties_def filter_mset_length[of xs ys] fun_eq_iff)

lemma group_end_spec:
  assumes "i \<le> j" "j < length order" "\<forall>k. i \<le> k \<and> k \<le> j \<longrightarrow> fst (order ! k) = fst (order ! i)"
  shows "group_end order i j < length order \<and>
    (\<forall>k. i \<le> k \<and> k \<le> group_end order i j \<longrightarrow> fst (order ! k) = fst (order ! i)) \<and>
    (Suc (group_end order i j) < length order \<longrightarrow> fst (order ! Suc (group_end order i j)) \<noteq> fst (order ! i))"
  using assms
proof (induction order i j rule: group_end.induct)
  case (1 order i j)
  show ?case
  proof (cases "j + 1 < length order \<and> fst (order ! (j + 1)) = fst (order ! i)")
    case True
    have same: "\<forall>k. i \<le> k \<and> k \<le> j + 1 \<longrightarrow> fst (order ! k) = fst (order ! i)"
      using "1.prems"(3) True by (metis Suc_eq_plus1 le_Suc_eq)
    have g: "group_end order i j = group_end order i (j + 1)"
      using True by (subst group_end.simps) (rule if_P)
    show ?thesis
      unfolding g by (rule "1.IH"[OF True _ _ same]) (use True "1.prems"(1) in simp_all)
  next
    case False
    then have g: "group_end order i j = j" by (subst group_end.simps) auto
    show ?thesis unfolding g using False "1.prems" by (metis Suc_eq_plus1)
  qed
qed

lemma length_set_ranks [simp]: "length (set_ranks order i j mean ranks) = length ranks"
proof -
  have "length (foldl (\<lambda>ranks k. ranks[snd (order ! k) := Some mean]) ranks ks) = length ranks" for ks
    by (induction ks arbitrary: ranks) simp_all
  then show ?thesis by (simp add: set_ranks_def)
qed

lemma set_ranks_nth:
  assumes "m < length ranks"
  shows "set_ranks order i j mean ranks ! m =
    (if \<exists>k. i \<le> k \<and> k \<le> j \<and> snd (order ! k) = m then Some mean else ranks ! m)"
proof -
  have "m < length ranks \<Longrightarrow>
      foldl (\<lambda>ranks k. ranks[snd (order ! k) := Some mean]) ranks ks ! m =
      (if \<exists>k\<in>set ks. snd (order ! k) = m then Some mean else ranks ! m)" for ks
    by (induction ks arbitrary: ranks) (auto simp: nth_list_update)
  then show ?thesis
    using assms by (simp add: set_ranks_def Bex_def less_Suc_eq_le conj_assoc del: upt_Suc)
qed

text \<open>A tie group \<open>[i, j]\<close> of a sorted pool, everything before it smaller and after it greater.\<close>

lemma group_counts:
  assumes "i \<le> j" "j < length vs"
    and before: "\<And>k. k < i \<Longrightarrow> vs ! k < v" and inside: "\<And>k. i \<le> k \<Longrightarrow> k \<le> j \<Longrightarrow> vs ! k = v"
    and after: "\<And>k. j < k \<Longrightarrow> k < length vs \<Longrightarrow> v < vs ! k"
  shows "below vs v = i" "ties vs v = j - i + 1"
proof -
  let ?b = "take i vs" and ?m = "take (Suc j - i) (drop i vs)" and ?a = "drop (Suc j) vs"
  have split: "vs = ?b @ ?m @ ?a"
    using assms(1) by (metis append_take_drop_id drop_drop le_Suc_eq le_add_diff_inverse2)
  have b: "\<forall>y\<in>set ?b. y < v" using before assms(1,2) by (auto simp: in_set_conv_nth)
  have m: "\<forall>y\<in>set ?m. y = v" using inside assms(1,2) by (auto simp: in_set_conv_nth)
  have a: "\<forall>y\<in>set ?a. v < y" using after by (auto simp: in_set_conv_nth)
  have f: "filter (\<lambda>y. y < v) ?b = ?b" "filter (\<lambda>y. y < v) ?m = []" "filter (\<lambda>y. y < v) ?a = []"
    "filter (\<lambda>y. y = v) ?b = []" "filter (\<lambda>y. y = v) ?m = ?m" "filter (\<lambda>y. y = v) ?a = []"
    using a b m by (fastforce simp: filter_id_conv filter_empty_conv)+
  show "below vs v = i" unfolding below_def
    by (subst split) (use f assms(1,2) in \<open>simp del: take_drop drop_take\<close>)
  show "ties vs v = j - i + 1" unfolding ties_def
    by (subst split) (use f assms(1,2) in simp)
qed

definition tie_sum :: "real list \<Rightarrow> real set \<Rightarrow> real" where
  "tie_sum vs V = (\<Sum>v\<in>V. real (ties vs v) ^ 3 - real (ties vs v))"

definition ranked :: "(real \<times> nat) list \<Rightarrow> real option list \<Rightarrow> nat \<Rightarrow> bool" where
  "ranked order ranks i \<longleftrightarrow>
     (\<forall>k<i. ranks ! snd (order ! k) = Some (midrank (map fst order) (fst (order ! k))))"

lemma midrank_loop_spec:
  assumes "sorted (map fst order)" "distinct (map snd order)" "\<forall>p\<in>set order. snd p < length ranks"
    and "i \<le> length order" "\<forall>k l. k < i \<and> i \<le> l \<and> l < length order \<longrightarrow> fst (order ! k) < fst (order ! l)"
    and "ranked order ranks i"
  shows "\<exists>ranks'. midrank_loop order i ranks t = (ranks', t + tie_sum (map fst order) (set (drop i (map fst order)))) \<and>
    length ranks' = length ranks \<and> ranked order ranks' (length order)"
  using assms
proof (induction order i ranks t rule: midrank_loop.induct)
  case (1 order i ranks t)
  show ?case
  proof (cases "i < length order")
    case False
    then show ?thesis using "1.prems" by (subst midrank_loop.simps) (simp add: tie_sum_def)
  next
    case True
    let ?vs = "map fst order"
    define v where "v = fst (order ! i)"
    define j where "j = group_end order i i"
    define mean where "mean = (real i + real j + 2) / 2"
    let ?ranks = "set_ranks order i j mean ranks"
    have ge: "i \<le> j" by (simp add: j_def group_end_ge)
    have j: "j < length order" and same: "\<And>k. i \<le> k \<Longrightarrow> k \<le> j \<Longrightarrow> fst (order ! k) = v"
      and stop: "Suc j < length order \<Longrightarrow> fst (order ! Suc j) \<noteq> v"
      unfolding j_def v_def using group_end_spec[OF order_refl True] by (metis le_antisym)+
    have mono: "fst (order ! k) \<le> fst (order ! l)" if "k \<le> l" "l < length order" for k l
      using sorted_nth_le[OF "1.prems"(1), of k l] that by simp
    have after: "v < fst (order ! k)" if "j < k" "k < length order" for k
    proof -
      have "Suc j < length order" using that by simp
      then have "v < fst (order ! Suc j)" using stop mono[of i "Suc j"] ge by (simp add: less_le v_def)
      also have "\<dots> \<le> fst (order ! k)" using mono[of "Suc j" k] that by simp
      finally show ?thesis .
    qed
    have before: "fst (order ! k) < v" if "k < i" for k using "1.prems"(5) that True unfolding v_def by blast
    have counts: "below ?vs v = i" "ties ?vs v = j - i + 1"
      using group_counts[of i j ?vs v] ge j before same after by (simp_all add: Suc_le_eq)
    have mean: "mean = midrank ?vs v"
      using ge by (simp add: midrank_def counts mean_def field_simps)
    have rk: "ranked order ?ranks (j + 1)"
      unfolding ranked_def
    proof (intro allI impI)
      fix k assume k: "k < j + 1"
      then have kl: "snd (order ! k) < length ranks" using "1.prems"(3) j by simp
      show "?ranks ! snd (order ! k) = Some (midrank ?vs (fst (order ! k)))"
      proof (cases "k < i")
        case True
        have "snd (order ! l) \<noteq> snd (order ! k)" if "i \<le> l" "l \<le> j" for l
          using nth_eq_iff_index_eq[OF "1.prems"(2), of l k] that True j by simp
        then show ?thesis
          using "1.prems"(6) True by (auto simp: set_ranks_nth[OF kl] ranked_def)
      next
        case False
        then have "i \<le> k" "k \<le> j" using k by simp_all
        then show ?thesis using same mean by (auto simp: set_ranks_nth[OF kl])
      qed
    qed
    have bound: "\<forall>k l. k < j + 1 \<and> j + 1 \<le> l \<and> l < length order \<longrightarrow> fst (order ! k) < fst (order ! l)"
    proof (intro allI impI)
      fix k l assume kl: "k < j + 1 \<and> j + 1 \<le> l \<and> l < length order"
      have "fst (order ! k) \<le> fst (order ! j)" using mono[of k j] kl j by simp
      also have "\<dots> = v" using same ge by simp
      also have "v < fst (order ! l)" using after kl by simp
      finally show "fst (order ! k) < fst (order ! l)" .
    qed
    obtain ranks' where r: "midrank_loop order (j + 1) ?ranks (t + ((real j - real i + 1) ^ 3 - (real j - real i + 1))) =
        (ranks', t + ((real j - real i + 1) ^ 3 - (real j - real i + 1)) + tie_sum ?vs (set (drop (j + 1) ?vs)))"
      "length ranks' = length ?ranks" "ranked order ranks' (length order)"
      using "1.IH"[OF True j_def mean_def refl] "1.prems"(1-3) bound rk j by auto
    have d: "set (drop i ?vs) = insert v (set (drop (j + 1) ?vs))"
    proof -
      have "drop i ?vs = take (j + 1 - i) (drop i ?vs) @ drop (j + 1) ?vs"
        using ge by (metis Suc_eq_plus1 append_take_drop_id drop_drop le_Suc_eq le_add_diff_inverse2)
      moreover have "set (take (j + 1 - i) (drop i ?vs)) = {v}"
      proof
        show "set (take (j + 1 - i) (drop i ?vs)) \<subseteq> {v}"
          using same ge j by (auto simp: in_set_conv_nth)
        have "take (j + 1 - i) (drop i ?vs) ! 0 = v" "0 < length (take (j + 1 - i) (drop i ?vs))"
          using ge j True by (simp_all add: v_def)
        then show "{v} \<subseteq> set (take (j + 1 - i) (drop i ?vs))" by (metis empty_subsetI insert_subset nth_mem)
      qed
      ultimately show ?thesis by (metis insert_is_Un set_append)
    qed
    have "v \<notin> set (drop (j + 1) ?vs)"
    proof
      assume "v \<in> set (drop (j + 1) ?vs)"
      then obtain k where "k < length (drop (j + 1) ?vs)" "drop (j + 1) ?vs ! k = v"
        by (metis in_set_conv_nth)
      then show False using after[of "j + 1 + k"] by (simp add: less_diff_conv add.commute)
    qed
    then have "tie_sum ?vs (set (drop i ?vs)) =
        ((real j - real i + 1) ^ 3 - (real j - real i + 1)) + tie_sum ?vs (set (drop (j + 1) ?vs))"
      using ge by (simp add: d tie_sum_def counts of_nat_diff add.commute)
    then show ?thesis
      using r True
      by (subst midrank_loop.simps) (simp add: Let_def flip: j_def mean_def)
  qed
qed

lemma midranks_closed:
  "midranks pooled = (map (Some \<circ> midrank pooled) pooled, tie_sum pooled (set pooled))"
proof -
  let ?n = "length pooled"
  let ?order = "sort_key fst (zip pooled [0..<?n])"
  have ms: "mset (map fst ?order) = mset pooled"
    by (metis map_fst_zip length_map map_nth mset_map mset_sort length_upt minus_nat.diff_0)
  have idx: "mset (map snd ?order) = mset [0..<?n]"
    by (metis map_snd_zip length_upt minus_nat.diff_0 mset_map mset_sort)
  have dist: "distinct (map snd ?order)" using idx by (metis distinct_upt mset_eq_imp_distinct_iff)
  have val: "p \<in> set ?order \<Longrightarrow> fst p = pooled ! snd p \<and> snd p < ?n" for p
    by (auto simp: set_zip)
  obtain ranks' where r: "midranks pooled = (ranks', tie_sum (map fst ?order) (set (map fst ?order)))"
    "length ranks' = ?n" "ranked ?order ranks' (length ?order)"
    using midrank_loop_spec[of ?order "replicate ?n None" 0 0] dist val
    by (auto simp: midranks_def ranked_def sorted_sort_key)
  have "ranks' ! m = Some (midrank pooled (pooled ! m))" if "m < ?n" for m
  proof -
    have "m \<in> set (map snd ?order)" using that idx by (metis atLeast0LessThan atLeast_upt lessThan_iff mset_eq_setD)
    then obtain k where "k < length (map snd ?order)" "map snd ?order ! k = m" by (metis in_set_conv_nth)
    then have k: "k < length ?order" "snd (?order ! k) = m" by simp_all
    then have "fst (?order ! k) = pooled ! m" using val[OF nth_mem[OF k(1)]] by simp
    then show ?thesis using r(3) k by (auto simp: ranked_def midrank_mset[OF ms])
  qed
  then have "ranks' = map (Some \<circ> midrank pooled) pooled"
    by (intro nth_equalityI) (simp_all add: r(2))
  moreover have "set (map fst ?order) = set pooled" using ms by (metis mset_eq_setD)
  moreover have "tie_sum (map fst ?order) = tie_sum pooled"
    by (simp add: tie_sum_def fun_eq_iff ties_mset[OF ms])
  ultimately show ?thesis using r(1) by simp
qed

section \<open>Sums of ranks\<close>

text \<open>Each ordered pair of positions contributes one half on average, each position one half more.\<close>

definition pair_share :: "real \<Rightarrow> real \<Rightarrow> real" where
  "pair_share y x = (if y < x then 1 else if y = x then 1 / 2 else 0)"

lemma midrank_pairs: "midrank xs x = (\<Sum>y\<leftarrow>xs. pair_share y x) + 1 / 2"
proof -
  have "real (below xs x) + real (ties xs x) / 2 = (\<Sum>y\<leftarrow>xs. pair_share y x)"
    by (induction xs) (auto simp: below_def ties_def pair_share_def field_simps)
  then show ?thesis by (simp add: midrank_def add_divide_distrib)
qed

lemma sum_list_swap: "(\<Sum>x\<leftarrow>xs. \<Sum>y\<leftarrow>ys. f x y) = (\<Sum>y\<leftarrow>ys. \<Sum>x\<leftarrow>xs. f x y :: real)"
  by (induction xs) (simp_all add: sum_list_addf)

lemma pair_share_swap: "pair_share y x + pair_share x y = 1"
  by (auto simp: pair_share_def)

lemma sum_midranks: "(\<Sum>x\<leftarrow>xs. midrank xs x) = real (length xs) * (real (length xs) + 1) / 2"
proof -
  let ?S = "\<Sum>x\<leftarrow>xs. \<Sum>y\<leftarrow>xs. pair_share y x"
  have "?S + ?S = (\<Sum>x\<leftarrow>xs. \<Sum>y\<leftarrow>xs. pair_share y x) + (\<Sum>x\<leftarrow>xs. \<Sum>y\<leftarrow>xs. pair_share x y)"
    using sum_list_swap[of pair_share xs xs] by simp
  also have "\<dots> = (\<Sum>x\<leftarrow>xs. \<Sum>y\<leftarrow>xs. 1)"
    by (simp add: sum_list_addf[symmetric] pair_share_swap)
  also have "\<dots> = real (length xs) * real (length xs)"
    by (simp add: sum_list_triv)
  finally have "?S = real (length xs) * real (length xs) / 2" by simp
  moreover have "(\<Sum>x\<leftarrow>xs. midrank xs x) = ?S + (\<Sum>x\<leftarrow>xs. 1 / 2)"
    by (simp only: midrank_pairs sum_list_addf)
  ultimately show ?thesis by (simp add: sum_list_triv field_simps)
qed

text \<open>\<open>ranks.map((r) => Math.round(r * 2))\<close>.\<close>

definition doubled_rank :: "real \<Rightarrow> nat" where
  "doubled_rank r = nat \<lfloor>r * 2 + 1 / 2\<rfloor>"

lemma doubled_midrank: "doubled_rank (midrank xs x) = 2 * below xs x + ties xs x + 1"
proof -
  have "midrank xs x * 2 + 1 / 2 = of_int (int (2 * below xs x + ties xs x + 1)) + 1 / 2"
    by (simp add: midrank_def field_simps)
  then have "\<lfloor>midrank xs x * 2 + 1 / 2\<rfloor> = int (2 * below xs x + ties xs x + 1)" by linarith
  then show ?thesis by (simp only: doubled_rank_def nat_int)
qed

lemma doubled_midrank_real: "real (doubled_rank (midrank xs x)) = 2 * midrank xs x"
  by (simp add: doubled_midrank) (simp add: midrank_def field_simps)

lemma real_sum_list: "real (\<Sum>x\<leftarrow>xs. f x) = (\<Sum>x\<leftarrow>xs. real (f x))"
  by (induction xs) simp_all

lemma sum_doubled_midranks:
  "(\<Sum>x\<leftarrow>xs. doubled_rank (midrank xs x)) = length xs * (length xs + 1)"
proof -
  have "real (\<Sum>x\<leftarrow>xs. doubled_rank (midrank xs x)) = 2 * (\<Sum>x\<leftarrow>xs. midrank xs x)"
    by (simp only: real_sum_list doubled_midrank_real sum_list_const_mult)
  also have "\<dots> = real (length xs * (length xs + 1))" by (simp add: sum_midranks field_simps)
  finally show ?thesis by (simp only: of_nat_eq_iff)
qed

end
