(* ===== verification/ExactTest.thy ===== *)
theory ExactTest
  imports Midranks
begin

text \<open>
  \<open>choose\<close> and \<open>exactMannWhitney\<close> of \<open>packages/schema/src/analysis.ts\<close>. The dynamic program over
  doubled rank sums is written with its three loops; the lemmas show that cell \<open>[k][s]\<close> of its
  table is the number of \<open>k\<close>-element sets of positions whose doubled ranks sum to \<open>s\<close>, so that the
  two results are tail masses of the permutation distribution.
\<close>

section \<open>Binomial coefficients\<close>

text \<open>\<open>for (let i = 1; i <= j; i++) result = (result * (n - j + i)) / i\<close>, then \<open>Math.round\<close>.\<close>

definition choose_js :: "nat \<Rightarrow> nat \<Rightarrow> int" where
  "choose_js n k =
     (if n < k then 0
      else let j = min k (n - k);
               result = foldl (\<lambda>result i. result * real (n - j + i) / real i) 1 [1..<Suc j]
           in \<lfloor>result + 1 / 2\<rfloor>)"

lemma choose_loop:
  "foldl (\<lambda>result i. result * real (m + i) / real i) 1 [1..<Suc j] = real ((m + j) choose j)"
proof (induction j)
  case (Suc j)
  have "real (Suc j) * real ((m + Suc j) choose Suc j) = real (m + Suc j) * real ((m + j) choose j)"
    by (metis add_Suc_right binomial_absorption diff_Suc_1 of_nat_mult times_binomial_minus1_eq zero_less_Suc)
  then have "real ((m + Suc j) choose Suc j) = real ((m + j) choose j) * real (m + Suc j) / real (Suc j)"
    by (simp add: field_simps)
  moreover have "[1..<Suc (Suc j)] = [1..<Suc j] @ [Suc j]" by simp
  ultimately show ?case using Suc by (simp del: upt_Suc of_nat_Suc)
qed simp

lemma choose_binomial: "choose_js n k = int (n choose k)"
proof (cases "n < k")
  case False
  let ?j = "min k (n - k)"
  have "n - ?j + ?j = n" using False by simp
  then have "foldl (\<lambda>result i. result * real (n - ?j + i) / real i) 1 [1..<Suc ?j] = real (n choose ?j)"
    using choose_loop[of "n - ?j" ?j] by simp
  moreover have "n choose ?j = n choose k"
    using False by (simp add: min_def binomial_symmetric[of k n])
  moreover have "\<lfloor>real m + 1 / 2\<rfloor> = int m" for m by linarith
  ultimately show ?thesis using False unfolding choose_js_def Let_def by (simp only: if_False)
qed (simp add: choose_js_def)

section \<open>The table\<close>

text \<open>\<open>for (let s = tot - rank; s >= 0; s--) if (from[s] !== 0) into[s + rank] += from[s]\<close>.\<close>

definition add_shifted :: "nat list \<Rightarrow> nat \<Rightarrow> nat \<Rightarrow> nat list \<Rightarrow> nat list" where
  "add_shifted from_row rank tot into_row =
     foldl (\<lambda>row s. let c = from_row ! s in if c \<noteq> 0 then row[s + rank := row ! (s + rank) + c] else row)
       into_row (rev [0..<Suc tot - rank])"

text \<open>\<open>k\<close> runs downward, so every element is used at most once per subset.\<close>

definition add_rank :: "nat \<Rightarrow> nat \<Rightarrow> nat list list \<Rightarrow> nat \<Rightarrow> nat list list" where
  "add_rank hi tot counts rank =
     foldl (\<lambda>counts k. counts[k + 1 := add_shifted (counts ! k) rank tot (counts ! (k + 1))])
       counts (rev [0..<hi])"

definition rank_sum_counts :: "nat list \<Rightarrow> nat \<Rightarrow> nat \<Rightarrow> nat list list" where
  "rank_sum_counts doubled nA N =
     (let tot = sum_list doubled;
          counts = replicate (nA + 1) (replicate (tot + 1) 0);
          counts = counts[0 := (counts ! 0)[0 := 1]]
      in foldl (add_rank (min nA N) tot) counts doubled)"

record exact_p =
  p_value :: real
  p_floor :: real

definition deviation :: "nat \<Rightarrow> nat \<Rightarrow> nat \<Rightarrow> int" where
  "deviation nA nB s = \<bar>int s - int (nA * (nA + 1)) - int (nA * nB)\<bar>"

text \<open>The two sweeps over the row of sums of \<open>nA\<close>-element splits.\<close>

definition max_deviation :: "nat \<Rightarrow> nat \<Rightarrow> nat list \<Rightarrow> nat \<Rightarrow> int" where
  "max_deviation nA nB row tot =
     foldl (\<lambda>m s. if row ! s \<noteq> 0 then max m (deviation nA nB s) else m) 0 [0..<Suc tot]"

definition mass_at_least :: "nat \<Rightarrow> nat \<Rightarrow> nat list \<Rightarrow> nat \<Rightarrow> int \<Rightarrow> nat" where
  "mass_at_least nA nB row tot dev =
     foldl (\<lambda>acc s. if row ! s = 0 then acc else if dev \<le> deviation nA nB s then acc + row ! s else acc)
       0 [0..<Suc tot]"

definition exactMannWhitney :: "real list \<Rightarrow> nat \<Rightarrow> nat \<Rightarrow> exact_p" where
  "exactMannWhitney ranks nA nB =
     (let N = nA + nB;
          doubled = map doubled_rank ranks;
          tot = sum_list doubled;
          row = rank_sum_counts doubled nA N ! nA;
          observed = deviation nA nB (sum_list (take nA doubled));
          most = max_deviation nA nB row tot;
          splits = real_of_int (choose_js N nA)
      in \<lparr>p_value = min 1 (real (mass_at_least nA nB row tot observed) / splits),
          p_floor = min 1 (real (mass_at_least nA nB row tot most) / splits)\<rparr>)"

section \<open>What the table counts\<close>

definition index_sets :: "nat \<Rightarrow> nat \<Rightarrow> nat set set" where
  "index_sets n k = {I. I \<subseteq> {..<n} \<and> card I = k}"

definition rank_sum :: "nat list \<Rightarrow> nat set \<Rightarrow> nat" where
  "rank_sum d I = (\<Sum>i\<in>I. d ! i)"

definition with_sum :: "nat list \<Rightarrow> nat \<Rightarrow> nat \<Rightarrow> nat \<Rightarrow> nat set set" where
  "with_sum d n k s = {I \<in> index_sets n k. rank_sum d I = s}"

lemma finite_index_sets [simp]: "finite (index_sets n k)"
  unfolding index_sets_def by (rule finite_subset[of _ "Pow {..<n}"]) auto

lemma card_index_sets: "card (index_sets n k) = n choose k"
  unfolding index_sets_def using n_subsets[of "{..<n}" k] by simp

lemma finite_with_sum [simp]: "finite (with_sum d n k s)"
  by (simp add: with_sum_def)

lemma with_sum_0: "with_sum d n 0 s = (if s = 0 then {{}} else {})"
proof -
  have c: "card I = 0 \<longleftrightarrow> I = {}" if "I \<subseteq> {..<n}" for I
    using that by (metis card_0_eq finite_lessThan finite_subset)
  have "I \<in> index_sets n 0 \<longleftrightarrow> I \<in> {{}}" for I
    using c[of I] by (cases "I \<subseteq> {..<n}") (auto simp: index_sets_def)
  then have e: "index_sets n 0 = {{}}" by blast
  show ?thesis unfolding with_sum_def e by (cases "s = 0") (auto simp: rank_sum_def)
qed

lemma with_sum_empty: "0 < k \<Longrightarrow> with_sum d 0 k s = {}"
  by (auto simp: with_sum_def index_sets_def)

lemma with_sum_Suc:
  "with_sum d (Suc n) (Suc k) s =
     with_sum d n (Suc k) s \<union> insert n ` (if d ! n \<le> s then with_sum d n k (s - d ! n) else {})"
  (is "?L = ?R")
proof (intro subset_antisym subsetI)
  fix I assume I: "I \<in> ?L"
  then have fin: "finite I" unfolding with_sum_def index_sets_def by (auto intro: finite_subset)
  show "I \<in> ?R"
  proof (cases "n \<in> I")
    case True
    define J where "J = I - {n}"
    have J: "I = insert n J" "n \<notin> J" "finite J" using True fin by (auto simp: J_def)
    then have "J \<subseteq> {..<n}" using I by (auto simp: with_sum_def index_sets_def less_Suc_eq)
    moreover have "card J = k" "rank_sum d J + d ! n = s"
      using I J by (auto simp: with_sum_def index_sets_def rank_sum_def)
    ultimately have "J \<in> with_sum d n k (s - d ! n)" "d ! n \<le> s"
      by (auto simp: with_sum_def index_sets_def)
    then show ?thesis using J(1) by auto
  next
    case False
    then have "I \<in> with_sum d n (Suc k) s"
      using I by (auto simp: with_sum_def index_sets_def less_Suc_eq subset_iff)
    then show ?thesis by simp
  qed
next
  fix I assume "I \<in> ?R"
  then consider "I \<in> with_sum d n (Suc k) s"
    | J where "I = insert n J" "J \<in> with_sum d n k (s - d ! n)" "d ! n \<le> s"
    by (auto split: if_splits)
  then show "I \<in> ?L"
  proof cases
    case 1
    then show ?thesis by (auto simp: with_sum_def index_sets_def)
  next
    case 2
    then have "finite J" "n \<notin> J" by (auto simp: with_sum_def index_sets_def intro: finite_subset)
    then show ?thesis using 2 by (auto simp: with_sum_def index_sets_def rank_sum_def)
  qed
qed

lemma card_with_sum_Suc:
  "card (with_sum d (Suc n) (Suc k) s) =
     card (with_sum d n (Suc k) s) + (if d ! n \<le> s then card (with_sum d n k (s - d ! n)) else 0)"
proof -
  let ?B = "if d ! n \<le> s then with_sum d n k (s - d ! n) else {}"
  have out: "n \<notin> I" if "I \<in> with_sum d n j t" for I j t
    using that by (auto simp: with_sum_def index_sets_def)
  have "inj_on (insert n) ?B" using out by (auto intro!: inj_onI split: if_splits) (blast dest: equalityD1 equalityD2)+
  moreover have "with_sum d n (Suc k) s \<inter> insert n ` ?B = {}" using out by blast
  ultimately show ?thesis
    unfolding with_sum_Suc by (subst card_Un_disjoint) (auto simp: card_image)
qed

section \<open>The loops fill the table with these counts\<close>

lemma add_shifted_fold:
  fixes row from_row :: "nat list"
  assumes "distinct ss" "\<forall>s\<in>set ss. s + rank < length row" "m < length row"
  shows "foldl (\<lambda>row s. let c = from_row ! s in if c \<noteq> 0 then row[s + rank := row ! (s + rank) + c] else row)
      row ss ! m = row ! m + (if rank \<le> m \<and> m - rank \<in> set ss then from_row ! (m - rank) else 0)"
  using assms by (induction ss arbitrary: row) (auto simp: Let_def nth_list_update)

lemma add_shifted_nth:
  assumes "length row = Suc tot" "m \<le> tot"
  shows "add_shifted from_row rank tot row ! m = row ! m + (if rank \<le> m then from_row ! (m - rank) else 0)"
proof -
  have "m - rank < Suc tot - rank \<longleftrightarrow> rank \<le> tot" if "rank \<le> m" using that assms(2) by linarith
  then show ?thesis
    unfolding add_shifted_def using assms
    by (subst add_shifted_fold) (auto simp del: upt_Suc)
qed

lemma length_add_shifted [simp]: "length (add_shifted from_row rank tot row) = length row"
proof -
  have "length (foldl (\<lambda>row s. let c = from_row ! s in if c \<noteq> 0 then row[s + rank := row ! (s + rank) + c] else row) row ss)
      = length row" for ss
    by (induction ss arbitrary: row) (simp_all add: Let_def)
  then show ?thesis by (simp add: add_shifted_def)
qed

lemma length_add_rank [simp]: "length (add_rank hi tot counts rank) = length counts"
proof -
  have "length (foldl (\<lambda>counts k. counts[k + 1 := add_shifted (counts ! k) rank tot (counts ! (k + 1))]) counts ks)
      = length counts" for ks
    by (induction ks arbitrary: counts) simp_all
  then show ?thesis by (simp add: add_rank_def)
qed

lemma add_rank_nth:
  assumes "hi < length counts" "j < length counts"
  shows "add_rank hi tot counts rank ! j =
    (if 0 < j \<and> j \<le> hi then add_shifted (counts ! (j - 1)) rank tot (counts ! j) else counts ! j)"
  using assms
proof (induction hi arbitrary: counts)
  case 0
  then show ?case by (auto simp: add_rank_def)
next
  case (Suc hi)
  let ?c = "counts[hi + 1 := add_shifted (counts ! hi) rank tot (counts ! (hi + 1))]"
  have "add_rank (Suc hi) tot counts rank = add_rank hi tot ?c rank"
    by (simp add: add_rank_def)
  then show ?case using Suc.IH[of ?c] Suc.prems by (auto simp: nth_list_update le_Suc_eq)
qed

definition table_ok :: "nat list \<Rightarrow> nat \<Rightarrow> nat \<Rightarrow> nat \<Rightarrow> nat list list \<Rightarrow> bool" where
  "table_ok d n nA tot counts \<longleftrightarrow>
     length counts = Suc nA \<and>
     (\<forall>k\<le>nA. length (counts ! k) = Suc tot \<and> (\<forall>s\<le>tot. counts ! k ! s = card (with_sum d n k s)))"

lemma table_ok_step:
  assumes "table_ok d n nA tot counts"
  shows "table_ok d (Suc n) nA tot (add_rank nA tot counts (d ! n))"
  unfolding table_ok_def
proof (intro conjI allI impI)
  note ok = assms[unfolded table_ok_def]
  show "length (add_rank nA tot counts (d ! n)) = Suc nA" using ok by simp
  fix k assume k: "k \<le> nA"
  have row: "add_rank nA tot counts (d ! n) ! k =
    (if 0 < k then add_shifted (counts ! (k - 1)) (d ! n) tot (counts ! k) else counts ! k)"
    using ok k by (simp add: add_rank_nth)
  then show "length (add_rank nA tot counts (d ! n) ! k) = Suc tot" using ok k by simp
  fix s assume s: "s \<le> tot"
  show "add_rank nA tot counts (d ! n) ! k ! s = card (with_sum d (Suc n) k s)"
  proof (cases k)
    case 0
    then show ?thesis using row ok s by (simp add: with_sum_0)
  next
    case (Suc j)
    then have "add_rank nA tot counts (d ! n) ! k ! s =
        counts ! Suc j ! s + (if d ! n \<le> s then counts ! j ! (s - d ! n) else 0)"
      using row add_shifted_nth[of "counts ! Suc j" tot s "counts ! j" "d ! n"] ok k s by simp
    then show ?thesis using ok k s Suc by (auto simp: card_with_sum_Suc)
  qed
qed

lemma table_ok_run:
  assumes "table_ok d n nA tot counts" "n + length ds = length d" "drop n d = ds"
  shows "table_ok d (length d) nA tot (foldl (add_rank nA tot) counts ds)"
  using assms
proof (induction ds arbitrary: n counts)
  case (Cons r rs)
  have n: "n < length d" using Cons.prems(2) by simp
  have r: "d ! n = r" "drop (Suc n) d = rs"
    using Cons.prems(3) n by (simp_all add: Cons_nth_drop_Suc[symmetric])
  show ?case
    using Cons.IH[of "Suc n" "add_rank nA tot counts r"] table_ok_step[OF Cons.prems(1)] r Cons.prems(2)
    by simp
qed simp

lemma rank_sum_counts_ok:
  assumes "nA \<le> N"
  shows "table_ok d (length d) nA (sum_list d) (rank_sum_counts d nA N)"
proof -
  let ?t = "sum_list d"
  let ?c = "(replicate (nA + 1) (replicate (?t + 1) 0))[0 := (replicate (?t + 1) 0)[0 := 1 :: nat]]"
  have "table_ok d 0 nA ?t ?c"
    unfolding table_ok_def by (auto simp: nth_list_update nth_Cons' with_sum_0 with_sum_empty)
  then have "table_ok d (length d) nA ?t (foldl (add_rank nA ?t) ?c d)"
    by (rule table_ok_run) simp_all
  moreover have "rank_sum_counts d nA N = foldl (add_rank nA ?t) ?c d"
    using assms unfolding rank_sum_counts_def Let_def by (simp add: min_absorb1)
  ultimately show ?thesis by simp
qed

section \<open>Tail masses\<close>

definition split_deviation :: "nat list \<Rightarrow> nat \<Rightarrow> nat \<Rightarrow> nat set \<Rightarrow> int" where
  "split_deviation d nA nB I = deviation nA nB (rank_sum d I)"

definition tail_sets :: "nat list \<Rightarrow> nat \<Rightarrow> nat \<Rightarrow> int \<Rightarrow> nat set set" where
  "tail_sets d nA nB dev = {I \<in> index_sets (nA + nB) nA. dev \<le> split_deviation d nA nB I}"

definition largest_deviation :: "nat list \<Rightarrow> nat \<Rightarrow> nat \<Rightarrow> int" where
  "largest_deviation d nA nB = Max (split_deviation d nA nB ` index_sets (nA + nB) nA)"

lemma mass_fold:
  "foldl (\<lambda>acc s. if row ! s = 0 then acc else if dev \<le> deviation nA nB s then acc + row ! s else acc) a ss =
     a + (\<Sum>s\<leftarrow>ss. if dev \<le> deviation nA nB s then row ! s else (0::nat))"
  by (induction ss arbitrary: a) simp_all

lemma max_fold:
  "foldl (\<lambda>m s. if row ! s \<noteq> (0::nat) then max m (f s) else m) a ss =
     Max (insert a (f ` {s \<in> set ss. row ! s \<noteq> 0}))" for a :: int
proof (induction ss arbitrary: a)
  case (Cons s ss)
  have ins: "Max (insert (max a b) X) = Max (insert a (insert b X))" if "finite X" for a b :: int and X
    using that by (cases "X = {}") (simp_all add: max.assoc)
  have fin: "finite (f ` {s \<in> set ss. row ! s \<noteq> 0})" by simp
  have "f ` {t \<in> set (s # ss). row ! t \<noteq> 0} =
      (if row ! s \<noteq> 0 then insert (f s) (f ` {t \<in> set ss. row ! t \<noteq> 0}) else f ` {t \<in> set ss. row ! t \<noteq> 0})"
    by auto
  then show ?case using ins[OF fin, of a "f s"] by (simp add: Cons.IH del: neq0_conv Max_insert)
qed simp

lemma rank_sum_le: "I \<subseteq> {..<length d} \<Longrightarrow> rank_sum d I \<le> sum_list d"
  unfolding rank_sum_def sum_list_sum_nth atLeast0LessThan by (rule sum_mono2) auto

lemma rank_sum_image: "length d = n \<Longrightarrow> rank_sum d ` index_sets n k \<subseteq> {..sum_list d}"
  using rank_sum_le[of _ d] by (auto simp: index_sets_def)

lemma card_fibres:
  fixes f :: "'a \<Rightarrow> nat"
  assumes "finite S" "f ` S \<subseteq> {..n}"
  shows "(\<Sum>s\<le>n. if P s then card {I \<in> S. f I = s} else 0) = card {I \<in> S. P (f I)}"
proof -
  have "(\<Sum>s\<le>n. \<Sum>I\<in>{I \<in> S. f I = s}. if P (f I) then 1 else 0) = (\<Sum>I\<in>S. if P (f I) then 1 else (0::nat))"
    by (rule sum.group[OF assms(1) finite_atMost assms(2)])
  also have "\<dots> = card {I \<in> S. P (f I)}"
    using assms(1) by (simp add: sum.If_cases Int_def)
  finally show ?thesis
    by (smt (verit, best) card_eq_sum mem_Collect_eq sum.cong sum.neutral)
qed

lemma row_counts:
  assumes "length d = nA + nB" "s \<le> sum_list d"
  shows "rank_sum_counts d nA (nA + nB) ! nA ! s = card {I \<in> index_sets (nA + nB) nA. rank_sum d I = s}"
  using rank_sum_counts_ok[of nA "nA + nB" d] assms by (simp add: table_ok_def with_sum_def)

lemma mass_at_least_card:
  assumes "length d = nA + nB"
  shows "mass_at_least nA nB (rank_sum_counts d nA (nA + nB) ! nA) (sum_list d) dev = card (tail_sets d nA nB dev)"
proof -
  have "mass_at_least nA nB (rank_sum_counts d nA (nA + nB) ! nA) (sum_list d) dev =
      (\<Sum>s\<le>sum_list d. if dev \<le> deviation nA nB s then rank_sum_counts d nA (nA + nB) ! nA ! s else 0)"
    unfolding mass_at_least_def mass_fold
    by (simp add: interv_sum_list_conv_sum_set_nat atLeast0LessThan lessThan_Suc_atMost del: upt_Suc)
  also have "\<dots> = (\<Sum>s\<le>sum_list d. if dev \<le> deviation nA nB s
      then card {I \<in> index_sets (nA + nB) nA. rank_sum d I = s} else 0)"
    by (rule sum.cong) (simp_all add: row_counts[OF assms])
  also have "\<dots> = card (tail_sets d nA nB dev)"
    unfolding tail_sets_def split_deviation_def
    by (rule card_fibres[OF finite_index_sets rank_sum_image[OF assms]])
  finally show ?thesis .
qed

lemma index_sets_nonempty: "index_sets (nA + nB) nA \<noteq> {}"
  using card_index_sets[of "nA + nB" nA] by (metis binomial_eq_0_iff card.empty le_add1 not_less)

lemma max_deviation_Max:
  assumes "length d = nA + nB"
  shows "max_deviation nA nB (rank_sum_counts d nA (nA + nB) ! nA) (sum_list d) = largest_deviation d nA nB"
proof -
  let ?S = "index_sets (nA + nB) nA"
  let ?row = "rank_sum_counts d nA (nA + nB) ! nA"
  have "?row ! s \<noteq> 0 \<longleftrightarrow> s \<in> rank_sum d ` ?S" if "s \<le> sum_list d" for s
    using row_counts[OF assms that] by (auto simp: card_eq_0_iff)
  moreover have "rank_sum d ` ?S \<subseteq> {..sum_list d}"
    by (rule rank_sum_image[OF assms])
  ultimately have "{s \<in> set [0..<Suc (sum_list d)]. ?row ! s \<noteq> 0} = rank_sum d ` ?S"
    by (auto simp: less_Suc_eq_le)
  then have "max_deviation nA nB ?row (sum_list d) = Max (insert 0 (split_deviation d nA nB ` ?S))"
    unfolding max_deviation_def max_fold split_deviation_def by (simp add: image_image)
  also have "\<dots> = largest_deviation d nA nB"
  proof -
    have "0 \<le> Max (split_deviation d nA nB ` ?S)"
      using index_sets_nonempty[of nA nB] by (subst Max_ge_iff) (auto simp: split_deviation_def deviation_def)
    then show ?thesis using index_sets_nonempty[of nA nB] by (simp add: largest_deviation_def max_def)
  qed
  finally show ?thesis .
qed

end
