(* ===== verification/RankTests.thy ===== *)
theory RankTests
  imports ExactTest
begin

text \<open>
  \<open>mannWhitneyU\<close>, \<open>canSeparate\<close> and \<open>normalCdf\<close> of \<open>packages/schema/src/analysis.ts\<close>. The lemmas
  put the exact branch in closed form over the permutation distribution: its floor is the least
  p-value any relabelling of the pool attains, exchanging the two sides changes nothing, and with
  equal sides every extreme split has an equally extreme mirror image.
\<close>

section \<open>The tests\<close>

datatype p_value_method = Exact | Asymptotic

record rank_sum_test =
  mw_statistic :: real
  mw_pValue :: real
  minAttainablePValue :: real
  mw_method :: p_value_method
  mw_nA :: nat
  mw_nB :: nat

definition MAX_EXACT_N :: nat where
  "MAX_EXACT_N = 50"

text \<open>The Numerical Recipes \<open>erfcc\<close> polynomial, in exact reals with \<open>sqrt\<close> and \<open>exp\<close>.\<close>

definition normalCdf :: "real \<Rightarrow> real" where
  "normalCdf z =
     (let x = \<bar>z\<bar> / sqrt 2;
          t = 1 / (1 + 5 / 10 * x);
          tau = t * exp (- x * x - 126551223 / 100000000 +
                  t * (100002368 / 100000000 +
                  t * (37409196 / 100000000 +
                  t * (9678418 / 100000000 +
                  t * (- 18628806 / 100000000 +
                  t * (27886807 / 100000000 +
                  t * (- 113520398 / 100000000 +
                  t * (148851587 / 100000000 +
                  t * (- 82215223 / 100000000 + t * 17087277 / 100000000)))))))));
          erfc = (if 0 \<le> z then tau else 2 - tau)
      in 1 - erfc / 2)"

definition asymptotic_tail :: "real \<Rightarrow> real \<Rightarrow> real" where
  "asymptotic_tail variance dev =
     (let z = max 0 (dev - 5 / 10) / sqrt variance in min 1 (2 * (1 - normalCdf z)))"

definition mannWhitneyU :: "jsnum list \<Rightarrow> jsnum list \<Rightarrow> analysis_error + rank_sum_test" where
  "mannWhitneyU a b =
     (if a = [] \<or> b = [] then Inl (EmptySide ''mannWhitneyU'')
      else
        and_then (assertFiniteSamples ''mannWhitneyU'' a) (\<lambda>xs.
        and_then (assertFiniteSamples ''mannWhitneyU'' b) (\<lambda>ys.
        let nA = length xs; nB = length ys; (cells, tieCorrection) = midranks (xs @ ys)
        in case those cells of
             None \<Rightarrow> Inl UndefinedRead
           | Some ranks \<Rightarrow>
               let rankSumA = sum_list (take nA ranks);
                   uA = rankSumA - real nA * (real nA + 1) / 2;
                   uB = real nA * real nB - uA;
                   stat = min uA uB;
                   N = nA + nB
               in if N \<le> MAX_EXACT_N then
                    (let e = exactMannWhitney ranks nA nB
                     in Inr \<lparr>mw_statistic = stat, mw_pValue = p_value e, minAttainablePValue = p_floor e,
                            mw_method = Exact, mw_nA = nA, mw_nB = nB\<rparr>)
                  else
                    (let mu = real nA * real nB / 2;
                         variance = real nA * real nB / 12 *
                           (real N + 1 - tieCorrection / (real N * (real N - 1)))
                     in if variance \<le> 0
                        then Inr \<lparr>mw_statistic = stat, mw_pValue = 1, minAttainablePValue = 1,
                               mw_method = Asymptotic, mw_nA = nA, mw_nB = nB\<rparr>
                        else Inr \<lparr>mw_statistic = stat,
                               mw_pValue = asymptotic_tail variance \<bar>stat - mu\<bar>,
                               minAttainablePValue = asymptotic_tail variance mu,
                               mw_method = Asymptotic, mw_nA = nA, mw_nB = nB\<rparr>))))"

definition canSeparate :: "rank_sum_test \<Rightarrow> real \<Rightarrow> bool" where
  "canSeparate test alpha \<longleftrightarrow> minAttainablePValue test < alpha"

section \<open>The exact branch in closed form\<close>

definition doubled_pool :: "real list \<Rightarrow> nat list" where
  "doubled_pool pooled = map (doubled_rank \<circ> midrank pooled) pooled"

text \<open>The share of the splits at least as far from the mean as split \<open>I\<close>.\<close>

definition split_p :: "nat list \<Rightarrow> nat \<Rightarrow> nat \<Rightarrow> nat set \<Rightarrow> real" where
  "split_p d nA nB I =
     real (card (tail_sets d nA nB (split_deviation d nA nB I))) / real ((nA + nB) choose nA)"

definition floor_p :: "nat list \<Rightarrow> nat \<Rightarrow> nat \<Rightarrow> real" where
  "floor_p d nA nB =
     real (card (tail_sets d nA nB (largest_deviation d nA nB))) / real ((nA + nB) choose nA)"

lemma length_doubled_pool [simp]: "length (doubled_pool pooled) = length pooled"
  by (simp add: doubled_pool_def)

lemma sum_doubled_pool: "sum_list (doubled_pool pooled) = length pooled * (length pooled + 1)"
  using sum_doubled_midranks[of pooled] by (simp add: doubled_pool_def comp_def)

lemma those_map_Some [simp]: "those (map (Some \<circ> f) xs) = Some (map f xs)"
  by (induction xs) auto

lemma tail_sets_subset: "tail_sets d nA nB dev \<subseteq> index_sets (nA + nB) nA"
  by (auto simp: tail_sets_def)

lemma finite_tail_sets [simp]: "finite (tail_sets d nA nB dev)"
  by (rule finite_subset[OF tail_sets_subset finite_index_sets])

lemma card_tail_sets_le: "card (tail_sets d nA nB dev) \<le> (nA + nB) choose nA"
  using card_mono[OF finite_index_sets tail_sets_subset] by (simp add: card_index_sets)

lemma splits_pos: "0 < real ((nA + nB) choose nA)"
  by (simp add: zero_less_binomial_iff)

lemma tail_share_le_1: "real (card (tail_sets d nA nB dev)) / real ((nA + nB) choose nA) \<le> 1"
  using card_tail_sets_le[of d nA nB dev] splits_pos[of nA nB] by (simp add: divide_le_eq_1)

lemma rank_sum_first: "n \<le> length d \<Longrightarrow> sum_list (take n d) = rank_sum d {..<n}"
  by (simp add: rank_sum_def sum_list_sum_nth atLeast0LessThan min_absorb2)

lemma exactMannWhitney_closed:
  assumes "length pooled = nA + nB"
  shows "exactMannWhitney (map (midrank pooled) pooled) nA nB =
    \<lparr>p_value = split_p (doubled_pool pooled) nA nB {..<nA}, p_floor = floor_p (doubled_pool pooled) nA nB\<rparr>"
proof -
  let ?d = "doubled_pool pooled"
  have len: "length ?d = nA + nB" using assms by simp
  have d: "map doubled_rank (map (midrank pooled) pooled) = ?d" by (simp add: doubled_pool_def)
  have obs: "deviation nA nB (sum_list (take nA ?d)) = split_deviation ?d nA nB {..<nA}"
    using rank_sum_first[of nA ?d] assms by (simp add: split_deviation_def)
  show ?thesis
    unfolding exactMannWhitney_def Let_def d obs
    using mass_at_least_card[OF len] max_deviation_Max[OF len] tail_share_le_1
    by (simp add: choose_binomial split_p_def floor_p_def min_absorb2)
qed

lemma first_split: "{..<nA} \<in> index_sets (nA + nB) nA"
  by (auto simp: index_sets_def)

lemma floor_p_le: "I \<in> index_sets (nA + nB) nA \<Longrightarrow> floor_p d nA nB \<le> split_p d nA nB I"
proof -
  assume "I \<in> index_sets (nA + nB) nA"
  then have "split_deviation d nA nB I \<le> largest_deviation d nA nB"
    unfolding largest_deviation_def by (intro Max_ge) auto
  then have "tail_sets d nA nB (largest_deviation d nA nB) \<subseteq> tail_sets d nA nB (split_deviation d nA nB I)"
    by (auto simp: tail_sets_def)
  then have "card (tail_sets d nA nB (largest_deviation d nA nB)) \<le> card (tail_sets d nA nB (split_deviation d nA nB I))"
    by (intro card_mono) simp_all
  then show ?thesis by (simp add: floor_p_def split_p_def divide_right_mono)
qed

lemma largest_attained: "\<exists>I\<in>index_sets (nA + nB) nA. split_deviation d nA nB I = largest_deviation d nA nB"
proof -
  have "largest_deviation d nA nB \<in> split_deviation d nA nB ` index_sets (nA + nB) nA"
    unfolding largest_deviation_def using index_sets_nonempty[of nA nB] by (intro Max_in) auto
  then show ?thesis by auto
qed

lemma floor_p_attained: "\<exists>I\<in>index_sets (nA + nB) nA. split_p d nA nB I = floor_p d nA nB"
proof -
  obtain I where "I \<in> index_sets (nA + nB) nA" "split_deviation d nA nB I = largest_deviation d nA nB"
    using largest_attained by blast
  then show ?thesis by (intro bexI[of _ I]) (simp_all add: split_p_def floor_p_def)
qed

lemma floor_p_pos: "0 < floor_p d nA nB"
proof -
  obtain I where "I \<in> index_sets (nA + nB) nA" "split_deviation d nA nB I = largest_deviation d nA nB"
    using largest_attained by blast
  then have "I \<in> tail_sets d nA nB (largest_deviation d nA nB)" by (simp add: tail_sets_def)
  then have "0 < card (tail_sets d nA nB (largest_deviation d nA nB))" by (auto simp: card_gt_0_iff)
  then show ?thesis using splits_pos by (simp add: floor_p_def)
qed

lemma mannWhitneyU_exact:
  assumes "xs \<noteq> []" "ys \<noteq> []" "length xs + length ys \<le> 50"
  shows "\<exists>t. mannWhitneyU (map Fin xs) (map Fin ys) = Inr t \<and> mw_method t = Exact \<and>
    mw_nA t = length xs \<and> mw_nB t = length ys \<and>
    mw_pValue t = split_p (doubled_pool (xs @ ys)) (length xs) (length ys) {..<length xs} \<and>
    minAttainablePValue t = floor_p (doubled_pool (xs @ ys)) (length xs) (length ys)"
proof -
  have "exactMannWhitney (map (midrank (xs @ ys)) (xs @ ys)) (length xs) (length ys) =
      \<lparr>p_value = split_p (doubled_pool (xs @ ys)) (length xs) (length ys) {..<length xs},
       p_floor = floor_p (doubled_pool (xs @ ys)) (length xs) (length ys)\<rparr>"
    by (rule exactMannWhitney_closed) simp
  then show ?thesis
    using assms unfolding mannWhitneyU_def
    by (simp add: midranks_closed MAX_EXACT_N_def Let_def del: map_append)
qed

section \<open>Exchanging the sides\<close>

lemma rank_sum_complement:
  assumes "length d = n" "I \<subseteq> {..<n}"
  shows "rank_sum d ({..<n} - I) + rank_sum d I = sum_list d"
proof -
  have "rank_sum d ({..<n} - I) + rank_sum d I = rank_sum d {..<n}"
    unfolding rank_sum_def using assms(2) by (simp add: sum.subset_diff)
  then show ?thesis using rank_sum_first[of n d] assms(1) by simp
qed

lemma complement_deviation:
  assumes "length d = nA + nB" "sum_list d = (nA + nB) * (nA + nB + 1)" "I \<in> index_sets (nA + nB) nA"
  shows "split_deviation d nB nA ({..<nA + nB} - I) = split_deviation d nA nB I"
proof -
  have "rank_sum d ({..<nA + nB} - I) + rank_sum d I = (nA + nB) * (nA + nB + 1)"
    using rank_sum_complement[OF assms(1)] assms(2,3) by (simp add: index_sets_def)
  then have "int (rank_sum d ({..<nA + nB} - I)) = (int nA + int nB) * (int nA + int nB + 1) - int (rank_sum d I)"
    by (metis (no_types, lifting) add_diff_cancel_right' of_nat_1 of_nat_add of_nat_mult)
  then have "int (rank_sum d ({..<nA + nB} - I)) - int nB * (int nB + 1) - int nB * int nA =
      - (int (rank_sum d I) - int nA * (int nA + 1) - int nA * int nB)"
    by (simp add: algebra_simps)
  then show ?thesis
    unfolding split_deviation_def deviation_def
    by (metis (no_types, opaque_lifting) abs_minus_cancel of_nat_1 of_nat_add of_nat_mult)
qed

lemma complement_index_sets:
  "I \<in> index_sets (nA + nB) nA \<Longrightarrow> {..<nA + nB} - I \<in> index_sets (nA + nB) nB"
  by (auto simp: index_sets_def card_Diff_subset finite_subset)

text \<open>The position in \<open>ys @ xs\<close> of the element at position \<open>i\<close> of \<open>xs @ ys\<close>.\<close>

definition moved :: "nat \<Rightarrow> nat \<Rightarrow> nat \<Rightarrow> nat" where
  "moved nA nB i = (if i < nA then i + nB else i - nA)"

lemma moved_inj: "inj_on (moved nA nB) {..<nA + nB}"
  by (auto simp: inj_on_def moved_def split: if_splits)

lemma moved_range: "moved nA nB ` {..<nA + nB} \<subseteq> {..<nA + nB}"
  by (auto simp: moved_def)

lemma rank_sum_moved:
  assumes "length d = nA + nB" "J \<subseteq> {..<nA + nB}"
  shows "rank_sum (drop nA d @ take nA d) (moved nA nB ` J) = rank_sum d J"
proof -
  have inj: "inj_on (moved nA nB) J" using moved_inj assms(2) by (rule inj_on_subset)
  have "(drop nA d @ take nA d) ! moved nA nB i = d ! i" if "i \<in> J" for i
    using that assms by (auto simp: moved_def nth_append)
  then show ?thesis unfolding rank_sum_def by (simp add: sum.reindex[OF inj])
qed

definition mirror :: "nat \<Rightarrow> nat \<Rightarrow> nat set \<Rightarrow> nat set" where
  "mirror nA nB I = moved nA nB ` ({..<nA + nB} - I)"

lemma mirror_split:
  assumes "length d = nA + nB" "sum_list d = (nA + nB) * (nA + nB + 1)" "I \<in> index_sets (nA + nB) nA"
  shows "mirror nA nB I \<in> index_sets (nB + nA) nB"
    "split_deviation (drop nA d @ take nA d) nB nA (mirror nA nB I) = split_deviation d nA nB I"
proof -
  have sub: "{..<nA + nB} - I \<subseteq> {..<nA + nB}" by auto
  have "card (mirror nA nB I) = card ({..<nA + nB} - I)"
    unfolding mirror_def by (rule card_image) (rule inj_on_subset[OF moved_inj sub])
  then show "mirror nA nB I \<in> index_sets (nB + nA) nB"
    using complement_index_sets[OF assms(3)] moved_range[of nA nB]
    by (auto simp: index_sets_def mirror_def add.commute)
  show "split_deviation (drop nA d @ take nA d) nB nA (mirror nA nB I) = split_deviation d nA nB I"
    using complement_deviation[OF assms] rank_sum_moved[OF assms(1) sub]
    by (simp add: split_deviation_def mirror_def)
qed

lemma mirror_inj: "inj_on (mirror nA nB) (index_sets (nA + nB) nA)"
proof (rule inj_onI)
  fix I J assume I: "I \<in> index_sets (nA + nB) nA" and J: "J \<in> index_sets (nA + nB) nA"
    and eq: "mirror nA nB I = mirror nA nB J"
  have "{..<nA + nB} - I = {..<nA + nB} - J"
    using eq unfolding mirror_def by (subst (asm) inj_on_image_eq_iff[OF moved_inj]) auto
  then show "I = J" using I J by (auto simp: index_sets_def)
qed

lemma mirror_tail_card:
  assumes "length d = nA + nB" "sum_list d = (nA + nB) * (nA + nB + 1)"
  shows "card (tail_sets d nA nB dev) \<le> card (tail_sets (drop nA d @ take nA d) nB nA dev)"
proof (rule card_inj_on_le)
  show "inj_on (mirror nA nB) (tail_sets d nA nB dev)"
    by (rule inj_on_subset[OF mirror_inj tail_sets_subset])
  show "mirror nA nB ` tail_sets d nA nB dev \<subseteq> tail_sets (drop nA d @ take nA d) nB nA dev"
    using mirror_split[OF assms] by (auto simp: tail_sets_def)
qed simp

lemma mirror_back:
  assumes "length d = nA + nB"
  shows "drop nB (drop nA d @ take nA d) @ take nB (drop nA d @ take nA d) = d"
  using assms by simp

lemma mirror_equal:
  assumes "length d = nA + nB" "sum_list d = (nA + nB) * (nA + nB + 1)"
  shows "card (tail_sets (drop nA d @ take nA d) nB nA dev) = card (tail_sets d nA nB dev)"
    "largest_deviation (drop nA d @ take nA d) nB nA = largest_deviation d nA nB"
proof -
  let ?d = "drop nA d @ take nA d"
  have rev: "length ?d = nB + nA" "sum_list ?d = (nB + nA) * (nB + nA + 1)"
  proof -
    show "length ?d = nB + nA" using assms(1) by simp
    have "sum_list ?d = sum_list (take nA d @ drop nA d)" by (simp only: sum_list_append add.commute)
    then show "sum_list ?d = (nB + nA) * (nB + nA + 1)" using assms(2) by (simp add: add.commute)
  qed
  show "card (tail_sets ?d nB nA dev) = card (tail_sets d nA nB dev)"
    using mirror_tail_card[OF assms, of dev] mirror_tail_card[OF rev, of dev] mirror_back[OF assms(1)] by simp
  have sub: "split_deviation d nA nB ` index_sets (nA + nB) nA \<subseteq> split_deviation ?d nB nA ` index_sets (nB + nA) nB"
    using mirror_split[OF assms] by (force simp: image_iff)
  have "split_deviation ?d nB nA ` index_sets (nB + nA) nB \<subseteq> split_deviation d nA nB ` index_sets (nA + nB) nA"
    using mirror_split[OF rev] mirror_back[OF assms(1)] by (force simp: image_iff)
  with sub show "largest_deviation ?d nB nA = largest_deviation d nA nB"
    unfolding largest_deviation_def by (metis subset_antisym)
qed

lemma doubled_pool_swap: "doubled_pool (ys @ xs) = drop (length xs) (doubled_pool (xs @ ys)) @ take (length xs) (doubled_pool (xs @ ys))"
proof -
  have "midrank (ys @ xs) = midrank (xs @ ys)" by (rule midrank_mset) simp
  then show ?thesis by (simp add: doubled_pool_def)
qed

lemma observed_swap:
  assumes "length d = nA + nB" "sum_list d = (nA + nB) * (nA + nB + 1)"
  shows "split_deviation (drop nA d @ take nA d) nB nA {..<nB} = split_deviation d nA nB {..<nA}"
proof -
  have "mirror nA nB {..<nA} = {..<nB}"
  proof -
    have "{..<nA + nB} - {..<nA} = {nA..<nA + nB}" by auto
    moreover have "moved nA nB ` {nA..<nA + nB} = (\<lambda>i. i - nA) ` {nA..<nA + nB}"
      by (rule image_cong) (auto simp: moved_def)
    moreover have "(\<lambda>i. i - nA) ` {nA..<nA + nB} = {..<nB}"
      by (auto simp: image_iff intro!: bexI[where x = "_ + nA"])
    ultimately show ?thesis by (simp add: mirror_def)
  qed
  then show ?thesis using mirror_split(2)[OF assms first_split] by simp
qed

section \<open>Equal sides\<close>

text \<open>With \<open>nA = nB\<close> the complement of an extreme split is an extreme split too.\<close>

lemma equal_sides_two:
  assumes "length d = n + n" "sum_list d = (n + n) * (n + n + 1)" "0 < n"
  shows "2 \<le> card (tail_sets d n n (largest_deviation d n n))"
proof -
  obtain I where I: "I \<in> index_sets (n + n) n" "split_deviation d n n I = largest_deviation d n n"
    using largest_attained by blast
  let ?J = "{..<n + n} - I"
  have J: "?J \<in> index_sets (n + n) n" "split_deviation d n n ?J = largest_deviation d n n"
    using complement_index_sets[OF I(1)] complement_deviation[OF assms(1,2) I(1)] I(2) by simp_all
  have "I \<noteq> ?J"
  proof
    assume "I = ?J"
    then have "0 \<notin> {..<n + n}" using I(1) by (auto simp: index_sets_def)
    then show False using assms(3) by simp
  qed
  have "{I, ?J} \<subseteq> tail_sets d n n (largest_deviation d n n)"
    using I J by (simp add: tail_sets_def)
  then have "card {I, ?J} \<le> card (tail_sets d n n (largest_deviation d n n))"
    by (rule card_mono[OF finite_tail_sets])
  moreover have "card {I, ?J} = 2" using \<open>I \<noteq> ?J\<close> by simp
  ultimately show ?thesis by linarith
qed

lemma equal_sides_floor:
  assumes "length pooled = n + n" "0 < n"
  shows "2 / real ((n + n) choose n) \<le> floor_p (doubled_pool pooled) n n"
proof -
  have "2 \<le> card (tail_sets (doubled_pool pooled) n n (largest_deviation (doubled_pool pooled) n n))"
    by (rule equal_sides_two) (use assms sum_doubled_pool[of pooled] in simp_all)
  then have "(2::real) \<le> real (card (tail_sets (doubled_pool pooled) n n (largest_deviation (doubled_pool pooled) n n)))"
    by linarith
  then show ?thesis by (simp add: floor_p_def divide_right_mono)
qed

section \<open>The statistic counts pairs\<close>

text \<open>The pairs in which the first side is greater, ties counting one half.\<close>

definition wins :: "real list \<Rightarrow> real list \<Rightarrow> real" where
  "wins xs ys = (\<Sum>x\<leftarrow>xs. \<Sum>y\<leftarrow>ys. pair_share y x)"

lemma wins_self: "wins xs xs = real (length xs) * real (length xs) / 2"
proof -
  have "(\<Sum>x\<leftarrow>xs. midrank xs x) = wins xs xs + (\<Sum>x\<leftarrow>xs. 1 / 2)"
    unfolding wins_def by (simp only: midrank_pairs sum_list_addf)
  then show ?thesis using sum_midranks[of xs] by (simp add: sum_list_triv field_simps)
qed

lemma rank_sum_wins:
  "(\<Sum>x\<leftarrow>xs. midrank (xs @ ys) x) - real (length xs) * (real (length xs) + 1) / 2 = wins xs ys"
proof -
  have "(\<Sum>x\<leftarrow>xs. midrank (xs @ ys) x) = wins xs xs + wins xs ys + (\<Sum>x\<leftarrow>xs. 1 / 2)"
    unfolding wins_def by (simp add: midrank_pairs sum_list_addf)
  then show ?thesis by (simp add: wins_self sum_list_triv field_simps)
qed

lemma wins_swap: "wins ys xs = real (length xs) * real (length ys) - wins xs ys"
proof -
  have "wins ys xs = (\<Sum>x\<leftarrow>xs. \<Sum>y\<leftarrow>ys. pair_share x y)"
    unfolding wins_def by (rule sum_list_swap)
  then have "wins xs ys + wins ys xs = (\<Sum>x\<leftarrow>xs. \<Sum>y\<leftarrow>ys. pair_share y x + pair_share x y)"
    by (simp only: wins_def sum_list_addf)
  then show ?thesis by (simp add: pair_share_swap sum_list_triv)
qed

lemma mannWhitneyU_answers:
  assumes "xs \<noteq> []" "ys \<noteq> []"
  shows "\<exists>t. mannWhitneyU (map Fin xs) (map Fin ys) = Inr t \<and> mw_nA t = length xs \<and> mw_nB t = length ys \<and>
    mw_statistic t = min (wins xs ys) (wins ys xs)"
proof -
  have s: "sum_list (take (length xs) (map (midrank (xs @ ys)) (xs @ ys))) - real (length xs) * (real (length xs) + 1) / 2
      = wins xs ys"
    using rank_sum_wins[of xs ys] by simp
  show ?thesis
    using assms s unfolding mannWhitneyU_def wins_swap[of ys xs]
    by (simp add: midranks_closed Let_def del: map_append)
qed

lemma swap_sides:
  "split_p (doubled_pool (ys @ xs)) (length ys) (length xs) {..<length ys} =
     split_p (doubled_pool (xs @ ys)) (length xs) (length ys) {..<length xs}"
  "floor_p (doubled_pool (ys @ xs)) (length ys) (length xs) = floor_p (doubled_pool (xs @ ys)) (length xs) (length ys)"
proof -
  let ?d = "doubled_pool (xs @ ys)" and ?a = "length xs" and ?b = "length ys"
  have len: "length ?d = ?a + ?b" and sum: "sum_list ?d = (?a + ?b) * (?a + ?b + 1)"
    using sum_doubled_pool[of "xs @ ys"] by simp_all
  have choose: "(?b + ?a) choose ?b = (?a + ?b) choose ?a"
    using binomial_symmetric[of ?b "?b + ?a"] by (simp add: add.commute)
  show "split_p (doubled_pool (ys @ xs)) ?b ?a {..<?b} = split_p ?d ?a ?b {..<?a}"
    "floor_p (doubled_pool (ys @ xs)) ?b ?a = floor_p ?d ?a ?b"
    unfolding doubled_pool_swap[of ys xs] split_p_def floor_p_def observed_swap[OF len sum]
      mirror_equal[OF len sum] choose
    by (rule refl)+
qed

lemma small_choose:
  assumes "0 < n" "n < 4"
  shows "1 / 10 \<le> 2 / real ((n + n) choose n)"
proof -
  have "n = 1 \<or> n = 2 \<or> n = 3" using assms by linarith
  then show ?thesis by (auto simp: numeral_eq_Suc)
qed

lemma equal_sides_not_significant:
  assumes "xs \<noteq> []" "length ys = length xs" "length xs + length ys \<le> 50"
    and "mannWhitneyU (map Fin xs) (map Fin ys) = Inr t"
  shows "2 / real ((2 * length xs) choose length xs) \<le> minAttainablePValue t"
    "length xs < 4 \<Longrightarrow> \<not> minAttainablePValue t < 5 / 100 \<and> \<not> mw_pValue t < 5 / 100"
proof -
  have ne: "ys \<noteq> []" using assms(1,2) by auto
  have t: "mw_pValue t = split_p (doubled_pool (xs @ ys)) (length xs) (length xs) {..<length xs}"
    "minAttainablePValue t = floor_p (doubled_pool (xs @ ys)) (length xs) (length xs)"
    using mannWhitneyU_exact[OF assms(1) ne assms(3)] assms(2,4) by auto
  have fl: "2 / real ((length xs + length xs) choose length xs) \<le> minAttainablePValue t"
    unfolding t(2) by (rule equal_sides_floor) (use assms in simp_all)
  then show "2 / real ((2 * length xs) choose length xs) \<le> minAttainablePValue t" by (simp add: mult_2)
  assume "length xs < 4"
  moreover have "minAttainablePValue t \<le> mw_pValue t" unfolding t by (rule floor_p_le[OF first_split])
  ultimately show "\<not> minAttainablePValue t < 5 / 100 \<and> \<not> mw_pValue t < 5 / 100"
    using small_choose[of "length xs"] fl assms(1) length_greater_0_conv[of xs] by linarith
qed

section \<open>Properties\<close>

text \<open>
  Whatever the ties, \<open>midranks\<close> gives every sample the number of smaller samples plus
  half of one more than the number of equal ones, in the order of the input, and the ranks of \<open>N\<close>
  samples sum to \<open>N * (N + 1) / 2\<close>.
\<close>

theorem midranks_mean_ranks:
  "midranks pooled = (map (\<lambda>x. Some (midrank pooled x)) pooled, tie_sum pooled (set pooled)) \<and>
   (\<Sum>x\<leftarrow>pooled. midrank pooled x) = real (length pooled) * (real (length pooled) + 1) / 2"
  by (simp add: midranks_closed sum_midranks comp_def)

text \<open>
  Property C3. Up to fifty pooled samples the test is exact: it always answers non-empty finite sides,
  its statistic is the smaller of the two win counts, and its p-value is the share of the equally
  likely splits of the pooled ranks whose rank sum is at least as far from the mean as the observed
  one, ties included.
\<close>

theorem mannWhitneyU_is_exact:
  assumes "xs \<noteq> []" and "ys \<noteq> []" and "length xs + length ys \<le> 50"
  shows "\<exists>t. mannWhitneyU (map Fin xs) (map Fin ys) = Inr t \<and> mw_method t = Exact \<and>
    mw_statistic t = min (wins xs ys) (wins ys xs) \<and>
    mw_pValue t = real (card {I \<in> index_sets (length xs + length ys) (length xs).
        split_deviation (doubled_pool (xs @ ys)) (length xs) (length ys) {..<length xs}
          \<le> split_deviation (doubled_pool (xs @ ys)) (length xs) (length ys) I})
      / real ((length xs + length ys) choose length xs)"
  using mannWhitneyU_exact[OF assms] mannWhitneyU_answers[OF assms(1,2)]
  by (auto simp: split_p_def tail_sets_def)

theorem mannWhitneyU_is_exact_witness:
  "\<exists>t. mannWhitneyU [Fin 1, Fin 2] [Fin 3] = Inr t \<and> mw_method t = Exact \<and> mw_statistic t = 0"
  using mannWhitneyU_is_exact[of "[1, 2]" "[3]"] by (auto simp: wins_def pair_share_def)

text \<open>
  Property C4. For two sides of at most fifty trials together, where the exact test is used, the attainable
  floor is exactly the least p-value that any relabelling of the observed pool would get: it is positive, some relabelling attains it, none goes below it, and so a comparison
  that \<open>canSeparate\<close> rejects is not significant at that level.
\<close>

theorem floor_is_least_p_value:
  assumes "xs \<noteq> []" and "ys \<noteq> []" and "length xs + length ys \<le> 50"
  shows "\<exists>t. mannWhitneyU (map Fin xs) (map Fin ys) = Inr t \<and>
    0 < minAttainablePValue t \<and> minAttainablePValue t \<le> mw_pValue t \<and> mw_pValue t \<le> 1 \<and>
    (\<exists>I\<in>index_sets (length xs + length ys) (length xs).
       split_p (doubled_pool (xs @ ys)) (length xs) (length ys) I = minAttainablePValue t) \<and>
    (\<forall>I\<in>index_sets (length xs + length ys) (length xs).
       minAttainablePValue t \<le> split_p (doubled_pool (xs @ ys)) (length xs) (length ys) I) \<and>
    (\<not> canSeparate t alpha \<longrightarrow> \<not> mw_pValue t < alpha)"
proof -
  let ?d = "doubled_pool (xs @ ys)" and ?a = "length xs" and ?b = "length ys"
  obtain t where t: "mannWhitneyU (map Fin xs) (map Fin ys) = Inr t"
    "mw_pValue t = split_p ?d ?a ?b {..<?a}" "minAttainablePValue t = floor_p ?d ?a ?b"
    using mannWhitneyU_exact[OF assms] by blast
  have "floor_p ?d ?a ?b \<le> split_p ?d ?a ?b {..<?a}" by (rule floor_p_le[OF first_split])
  moreover have "split_p ?d ?a ?b {..<?a} \<le> 1" by (simp only: split_p_def tail_share_le_1)
  ultimately show ?thesis
    using t floor_p_pos floor_p_attained floor_p_le by (auto simp: canSeparate_def)
qed

theorem floor_is_least_p_value_witness:
  "\<exists>t. mannWhitneyU [Fin 1, Fin 2] [Fin 3] = Inr t \<and> 0 < minAttainablePValue t \<and> mw_pValue t \<le> 1"
  using floor_is_least_p_value[of "[1, 2]" "[3]"] by auto

text \<open>
  The exact test does not depend on the order of its arguments: exchanging the two sides
  keeps the statistic, the p-value and the floor.
\<close>

theorem mannWhitneyU_swap:
  assumes "xs \<noteq> []" and "ys \<noteq> []" and "length xs + length ys \<le> 50"
    and "mannWhitneyU (map Fin xs) (map Fin ys) = Inr t"
  shows "\<exists>u. mannWhitneyU (map Fin ys) (map Fin xs) = Inr u \<and> mw_statistic u = mw_statistic t \<and>
    mw_pValue u = mw_pValue t \<and> minAttainablePValue u = minAttainablePValue t"
proof -
  have le: "length ys + length xs \<le> 50" using assms(3) by simp
  obtain u where u: "mannWhitneyU (map Fin ys) (map Fin xs) = Inr u"
    "mw_pValue u = mw_pValue t" "minAttainablePValue u = minAttainablePValue t"
    using mannWhitneyU_exact[OF assms(1-3)] mannWhitneyU_exact[OF assms(2,1) le] assms(4) swap_sides[of ys xs]
    by auto
  then show ?thesis
    using mannWhitneyU_answers[OF assms(1,2)] mannWhitneyU_answers[OF assms(2,1)] assms(4)
    by (auto simp: min.commute)
qed

theorem mannWhitneyU_swap_witness:
  "\<exists>t u. mannWhitneyU [Fin 1, Fin 2] [Fin 3] = Inr t \<and> mannWhitneyU [Fin 3] [Fin 1, Fin 2] = Inr u \<and>
     mw_pValue u = mw_pValue t"
proof -
  obtain t where t: "mannWhitneyU (map Fin [1, 2]) (map Fin [3]) = Inr t"
    using mannWhitneyU_answers[of "[1, 2]" "[3]"] by auto
  show ?thesis using mannWhitneyU_swap[OF _ _ _ t] t by auto
qed

text \<open>
  With the same number \<open>n\<close> of samples on each side the floor is at least
  \<open>2 / C(2n, n)\<close> whatever the ties, so fewer than four a side are never separated at the five
  per cent level, however far apart the samples are.
\<close>

theorem three_a_side_never_separate:
  assumes "xs \<noteq> []" and "length ys = length xs" and "length xs + length ys \<le> 50"
  shows "\<exists>t. mannWhitneyU (map Fin xs) (map Fin ys) = Inr t \<and>
    2 / real ((2 * length xs) choose length xs) \<le> minAttainablePValue t \<and>
    (length xs < 4 \<longrightarrow> \<not> canSeparate t (5 / 100) \<and> \<not> mw_pValue t < 5 / 100)"
proof -
  have "ys \<noteq> []" using assms(1,2) by auto
  then obtain t where t: "mannWhitneyU (map Fin xs) (map Fin ys) = Inr t"
    using mannWhitneyU_exact[OF assms(1) _ assms(3)] by blast
  then show ?thesis using equal_sides_not_significant[OF assms t] by (simp add: canSeparate_def)
qed

theorem three_a_side_never_separate_witness:
  "\<exists>t. mannWhitneyU [Fin 1, Fin 1, Fin 1] [Fin 2, Fin 2, Fin 2] = Inr t \<and> \<not> mw_pValue t < 5 / 100"
  using three_a_side_never_separate[of "[1, 1, 1]" "[2, 2, 2]"] by auto

text \<open>
  Up to the ceiling of fifty samples no count of the dynamic program reaches
  \<open>2 ^ 53\<close>, so the doubles of the code hold every one of them exactly, at every cell of the table.
\<close>

theorem counts_exact_in_doubles:
  assumes "nA \<le> N" and "length d = N" and "N \<le> MAX_EXACT_N" and "k \<le> nA" and "s \<le> sum_list d"
  shows "rank_sum_counts d nA N ! k ! s = card {I. I \<subseteq> {..<N} \<and> card I = k \<and> (\<Sum>i\<in>I. d ! i) = s} \<and>
    rank_sum_counts d nA N ! k ! s < 2 ^ 53"
proof -
  have eq: "rank_sum_counts d nA N ! k ! s = card (with_sum d N k s)"
    using rank_sum_counts_ok[OF assms(1), of d] assms(2,4,5) by (simp add: table_ok_def)
  have "with_sum d N k s \<subseteq> Pow {..<N}" by (auto simp: with_sum_def index_sets_def)
  then have "card (with_sum d N k s) \<le> 2 ^ N"
    using card_mono[of "Pow {..<N}" "with_sum d N k s"] by (simp add: card_Pow)
  also have "(2::nat) ^ N \<le> 2 ^ 50" using assms(3) by (intro power_increasing) (simp_all add: MAX_EXACT_N_def)
  also have "(2::nat) ^ 50 < 2 ^ 53" by simp
  finally show ?thesis by (simp add: eq with_sum_def index_sets_def rank_sum_def conj_assoc)
qed

theorem counts_exact_in_doubles_witness:
  "rank_sum_counts [2, 4, 6] 1 3 ! 1 ! 4 < 2 ^ 53"
  using counts_exact_in_doubles[of 1 3 "[2, 4, 6]" 1 4] by (simp add: MAX_EXACT_N_def)

end
