(* ===== verification/Rng.thy ===== *)
theory Rng
  imports Prelude "HOL-Library.Word"
begin

unbundle bit_operations_syntax

text \<open>
  \<open>seededRng\<close> of \<open>packages/schema/src/analysis.ts\<close>: the FNV-1a variant that turns a seed into the
  32-bit state, and the mulberry32 closure as a function from a state to a number and the next
  state. \<open>Math.imul\<close>, \<open>>>> 0\<close> and the bit operators of the code are the operations of
  \<open>32 word\<close>; a seed is the list of its UTF-16 code units. What the bootstrap needs of a generator
  is the locale \<open>unit_rng\<close>, interpreted here on mulberry32.
\<close>

section \<open>Odd multipliers\<close>

lemma mult_word_cancel:
  fixes c d :: "'a::len word"
  assumes "c * d = 1"
  shows "x * c = y * c \<longleftrightarrow> x = y"
proof
  assume "x * c = y * c"
  then have "x * (c * d) = y * (c * d)" by (metis mult.assoc)
  then show "x = y" by (simp add: assms)
qed simp

lemma xor_word_cancel: "(h XOR x = h XOR y) \<longleftrightarrow> x = y" for h x y :: "'a::len word"
  by (metis xor.left_commute xor.right_neutral xor_self_eq)

section \<open>The seed\<close>

text \<open>\<open>h ^= seed.charCodeAt(i); h = Math.imul(h, 16777619)\<close>.\<close>

definition fnv_step :: "32 word \<Rightarrow> 16 word \<Rightarrow> 32 word" where
  "fnv_step h unit = (h XOR ucast unit) * 16777619"

definition seedHash :: "16 word list \<Rightarrow> 32 word" where
  "seedHash seed = foldl fnv_step 2166136261 seed"

lemma fnv_prime_inverse: "(16777619 :: 32 word) * 899433627 = 1"
  by simp

lemma fnv_step_unit: "fnv_step h c = fnv_step h d \<longleftrightarrow> c = d"
proof -
  have "ucast (ucast u :: 32 word) = u" for u :: "16 word"
    by (rule bit_word_eqI) (simp add: bit_unsigned_iff)
  then have "(ucast c = (ucast d :: 32 word)) \<longleftrightarrow> c = d" by metis
  then show ?thesis
    unfolding fnv_step_def by (simp add: mult_word_cancel[OF fnv_prime_inverse] xor_word_cancel)
qed

lemma fnv_step_state: "fnv_step g c = fnv_step h c \<longleftrightarrow> g = h"
  unfolding fnv_step_def mult_word_cancel[OF fnv_prime_inverse]
  by (metis xor.commute xor_word_cancel)

lemma foldl_fnv_step_state: "foldl fnv_step g cs = foldl fnv_step h cs \<longleftrightarrow> g = h"
  by (induction cs arbitrary: g h) (simp_all add: fnv_step_state)

section \<open>The generator\<close>

text \<open>One call of the closure \<open>seededRng\<close> returns: the 32-bit output and the state left behind.\<close>

definition mulberry_bits :: "32 word \<Rightarrow> 32 word \<times> 32 word" where
  "mulberry_bits s =
     (let state = s + 0x6d2b79f5;
          t1 = (state XOR drop_bit 15 state) * (state OR 1);
          t2 = t1 XOR (t1 + (t1 XOR drop_bit 7 t1) * (t1 OR 61))
      in (t2 XOR drop_bit 14 t2, state))"

definition mulberry32 :: "32 word \<Rightarrow> real \<times> 32 word" where
  "mulberry32 s = (let (bits, s') = mulberry_bits s in (real (unat bits) / 4294967296, s'))"

text \<open>The state after \<open>k\<close> calls.\<close>

definition rng_state :: "16 word list \<Rightarrow> nat \<Rightarrow> 32 word" where
  "rng_state seed k = ((\<lambda>s. snd (mulberry32 s)) ^^ k) (seedHash seed)"

lemma mulberry32_next: "snd (mulberry32 s) = s + 0x6d2b79f5"
  by (simp add: mulberry32_def mulberry_bits_def Let_def)

lemma mulberry32_range: "0 \<le> fst (mulberry32 s)" "fst (mulberry32 s) < 1"
proof -
  have "0 \<le> real (unat w) \<and> real (unat w) < 4294967296" for w :: "32 word"
  proof -
    have "unat w < 2 ^ 32" using unsigned_less[of w, where 'a = nat] by simp
    then have "real (unat w) < of_nat (2 ^ 32)" by (simp only: of_nat_less_iff)
    then show ?thesis using of_nat_0_le_iff[of "unat w"] by simp
  qed
  then show "0 \<le> fst (mulberry32 s)" "fst (mulberry32 s) < 1"
    by (simp_all add: mulberry32_def case_prod_unfold Let_def)
qed

lemma rng_state_closed: "rng_state seed k = seedHash seed + of_nat k * 0x6d2b79f5"
  by (induction k) (simp_all add: rng_state_def mulberry32_next algebra_simps)

lemma mulberry_inverse: "(0x6d2b79f5 :: 32 word) * 0xdc58aa5d = 1"
  by simp

section \<open>What a consumer relies on\<close>

text \<open>
  A generator of numbers in the half-open unit interval, threaded through the calls that draw from
  it. \<open>Math.floor(rng() * n)\<close> is then always an index of a list of length \<open>n\<close>.
\<close>

locale unit_rng =
  fixes next_number :: "'s \<Rightarrow> real \<times> 's"
  assumes next_nonneg: "0 \<le> fst (next_number s)"
    and next_below: "fst (next_number s) < 1"
begin

lemma draw_index:
  assumes "0 < n"
  shows "0 \<le> \<lfloor>fst (next_number s) * real n\<rfloor>" "\<lfloor>fst (next_number s) * real n\<rfloor> < int n"
proof -
  show "0 \<le> \<lfloor>fst (next_number s) * real n\<rfloor>" using next_nonneg[of s] by simp
  have "fst (next_number s) * real n < 1 * real n"
    using next_below[of s] assms by (intro mult_strict_right_mono) simp_all
  then show "\<lfloor>fst (next_number s) * real n\<rfloor> < int n" by (simp add: floor_less_iff)
qed

lemma draw_read:
  assumes "xs \<noteq> []"
  shows "\<exists>v\<in>set xs. rd xs \<lfloor>fst (next_number s) * real (length xs)\<rfloor> = Some v"
proof -
  let ?i = "\<lfloor>fst (next_number s) * real (length xs)\<rfloor>"
  have i: "0 \<le> ?i" "?i < int (length xs)" using draw_index[of "length xs" s] assms by auto
  then have "nat ?i < length xs" by linarith
  then show ?thesis using i by auto
qed

end

interpretation mulberry: unit_rng mulberry32
  by unfold_locales (rule mulberry32_range)+

section \<open>Properties\<close>

text \<open>
  The seed hash never confuses two seeds that differ in exactly one code unit: the
  mixing step is a bijection of the state for a fixed unit, and of the unit for a fixed state.
\<close>

theorem seedHash_one_unit:
  "seedHash (pre @ c # post) = seedHash (pre @ d # post) \<longleftrightarrow> c = d"
  by (simp add: seedHash_def foldl_fnv_step_state fnv_step_unit)

text \<open>
  The generator walks its whole period: whatever the seed, two calls leave the same
  state only when their numbers differ by a multiple of \<open>2 ^ 32\<close>, and every output is in \<open>[0, 1)\<close>.
\<close>

theorem rng_full_period:
  "(rng_state seed i = rng_state seed j \<longleftrightarrow> i mod 2 ^ 32 = j mod 2 ^ 32) \<and>
   0 \<le> fst (mulberry32 (rng_state seed i)) \<and> fst (mulberry32 (rng_state seed i)) < 1"
proof -
  have "rng_state seed i = rng_state seed j \<longleftrightarrow> (of_nat i :: 32 word) = of_nat j"
    by (simp add: rng_state_closed mult_word_cancel[OF mulberry_inverse])
  also have "\<dots> \<longleftrightarrow> i mod 2 ^ 32 = j mod 2 ^ 32"
    by (simp add: of_nat_eq_iff word_of_nat_eq_iff take_bit_eq_mod)
  finally show ?thesis using mulberry32_range by blast
qed

end
