(* ===== verification/Bootstrap.thy ===== *)
theory Bootstrap
  imports Aggregates Rng
begin

text \<open>
  The bootstrap intervals of \<open>packages/schema/src/analysis.ts\<close>. The resampling loops take the
  generator as an argument, as \<open>hierarchicalResampleMedian\<close> does in the code, and thread its state;
  every lemma about them is proved in the locale \<open>unit_rng\<close> and used through its interpretation on
  mulberry32.
\<close>

section \<open>Options\<close>

record interval_options =
  opt_resamples :: "jsnum option"
  opt_level :: "jsnum option"
  opt_seed :: "16 word list option"

definition DEFAULT_RESAMPLES :: nat where
  "DEFAULT_RESAMPLES = 10000"

text \<open>\<open>!(resolved > 0 && resolved < 1)\<close> rejects NaN and the infinities as well.\<close>

definition coverageLevel :: "string \<Rightarrow> jsnum option \<Rightarrow> analysis_error + real" where
  "coverageLevel fn level =
     (let resolved = (case level of None \<Rightarrow> Fin (95 / 100) | Some l \<Rightarrow> l)
      in case resolved of
           Fin l \<Rightarrow> if 0 < l \<and> l < 1 then Inr l else Inl (BadLevel fn resolved)
         | _ \<Rightarrow> Inl (BadLevel fn resolved))"

text \<open>\<open>!Number.isInteger(resamples) || resamples < 1\<close>.\<close>

definition resampleCount :: "string \<Rightarrow> jsnum option \<Rightarrow> analysis_error + nat" where
  "resampleCount fn given =
     (case given of
        None \<Rightarrow> Inr DEFAULT_RESAMPLES
      | Some (Fin c) \<Rightarrow>
          if c = of_int \<lfloor>c\<rfloor> \<and> \<not> c < 1 then Inr (nat \<lfloor>c\<rfloor>) else Inl (BadResamples fn (Fin c))
      | Some c \<Rightarrow> Inl (BadResamples fn c))"

definition code_units :: "string \<Rightarrow> 16 word list" where
  "code_units s = map of_char s"

definition optionSeed :: "interval_options \<Rightarrow> 16 word list" where
  "optionSeed options =
     (case opt_seed options of None \<Rightarrow> code_units ''sandbox-benchmarks'' | Some seed \<Rightarrow> seed)"

definition valid_options :: "interval_options \<Rightarrow> bool" where
  "valid_options options \<longleftrightarrow>
     \<not> isl (coverageLevel [] (opt_level options)) \<and> \<not> isl (resampleCount [] (opt_resamples options))"

lemma valid_options_iff:
  "valid_options options \<longleftrightarrow>
     (\<exists>l. coverageLevel [] (opt_level options) = Inr l) \<and>
     (\<exists>c. resampleCount [] (opt_resamples options) = Inr c)"
  unfolding valid_options_def by (metis isl_def sum.disc(2) sum.exhaust_sel)

lemma coverageLevel_range: "coverageLevel fn level = Inr l \<Longrightarrow> 0 < l \<and> l < 1"
  by (auto simp: coverageLevel_def Let_def split: option.splits jsnum.splits if_splits)

lemma coverageLevel_name: "coverageLevel fn level = Inr l \<longleftrightarrow> coverageLevel gn level = Inr l"
  by (auto simp: coverageLevel_def Let_def split: option.splits jsnum.splits if_splits)

lemma resampleCount_pos: "resampleCount fn given = Inr c \<Longrightarrow> 0 < c"
  by (auto simp: resampleCount_def DEFAULT_RESAMPLES_def split: option.splits jsnum.splits if_splits)

lemma resampleCount_name: "resampleCount fn given = Inr c \<longleftrightarrow> resampleCount gn given = Inr c"
  by (auto simp: resampleCount_def split: option.splits jsnum.splits if_splits)

lemma valid_options_obtain:
  assumes "valid_options options"
  obtains l c where "\<And>fn. coverageLevel fn (opt_level options) = Inr l"
    and "\<And>fn. resampleCount fn (opt_resamples options) = Inr c"
    and "0 < l" "l < 1" "0 < c"
  using assms unfolding valid_options_iff
  by (metis coverageLevel_name coverageLevel_range resampleCount_name resampleCount_pos)

section \<open>Intervals\<close>

record median_interval =
  iv_median :: jsnum
  iv_lo :: jsnum
  iv_hi :: jsnum
  iv_level :: real
  iv_resamples :: nat

text \<open>The two ends: \<open>medians.sort()\<close> and the percentiles at \<open>tail\<close> and \<open>1 - tail\<close>.\<close>

definition percentile_bounds :: "real list \<Rightarrow> real \<Rightarrow> jsnum \<times> jsnum" where
  "percentile_bounds medians level =
     (let sorted_medians = sort medians; tail = (1 - level) / 2
      in (percentile sorted_medians tail, percentile sorted_medians (1 - tail)))"

lemma percentile_bounds_between:
  assumes "ms \<noteq> []" "0 < level" "level < 1" and "\<And>m. m \<in> set ms \<Longrightarrow> a \<le> m \<and> m \<le> b"
  obtains lo hi where "percentile_bounds ms level = (Fin lo, Fin hi)" "a \<le> lo" "lo \<le> hi" "hi \<le> b"
proof -
  let ?t = "(1 - level) / 2"
  have t: "0 \<le> ?t" "?t \<le> 1 - ?t" "1 - ?t \<le> 1" "?t \<le> 1" "0 \<le> 1 - ?t" using assms by (simp_all add: field_simps)
  have "percentile_bounds ms level = (Fin (quantile (sort ms) ?t), Fin (quantile (sort ms) (1 - ?t)))"
    unfolding percentile_bounds_def Let_def using assms(1) t by (simp add: percentile_quantile)
  moreover have "a \<le> Min (set ms)" "Max (set ms) \<le> b" using assms by simp_all
  then have "a \<le> quantile (sort ms) ?t" "quantile (sort ms) (1 - ?t) \<le> b"
    using quantile_sort_bounds[OF assms(1), of ?t] quantile_sort_bounds[OF assms(1), of "1 - ?t"] t
    by linarith+
  moreover have "quantile (sort ms) ?t \<le> quantile (sort ms) (1 - ?t)"
    by (rule quantile_mono) (use assms(1) t in auto)
  ultimately show thesis using that by blast
qed

section \<open>The resampling loops\<close>

text \<open>\<open>buffer[pos++] = src[Math.floor(rng() * src.length)]\<close>, \<open>m\<close> times.\<close>

fun fill_draws :: "('s \<Rightarrow> real \<times> 's) \<Rightarrow> real list \<Rightarrow> nat \<Rightarrow> nat \<Rightarrow> real list \<Rightarrow> 's \<Rightarrow> (real list \<times> 's) option" where
  "fill_draws rng src 0 pos buffer s = Some (buffer, s)"
| "fill_draws rng src (Suc m) pos buffer s =
     (let (r, s') = rng s
      in case rd src \<lfloor>r * real (length src)\<rfloor> of
           None \<Rightarrow> None
         | Some v \<Rightarrow> fill_draws rng src m (Suc pos) (wr buffer (int pos) v) s')"

text \<open>\<open>b\<close> resamples of \<open>src\<close> into one scratch buffer, and their medians in order.\<close>

fun resample_medians :: "('s \<Rightarrow> real \<times> 's) \<Rightarrow> real list \<Rightarrow> nat \<Rightarrow> real list \<Rightarrow> 's \<Rightarrow> (real list \<times> 's) option" where
  "resample_medians rng src 0 draw s = Some ([], s)"
| "resample_medians rng src (Suc b) draw s =
     (case fill_draws rng src (length src) 0 draw s of
        None \<Rightarrow> None
      | Some (draw', s') \<Rightarrow>
          (case medianInPlace draw' (int (length src)) of
             None \<Rightarrow> None
           | Some (m, draw'') \<Rightarrow>
               (case resample_medians rng src b draw'' s' of
                  None \<Rightarrow> None
                | Some (ms, s'') \<Rightarrow> Some (m # ms, s''))))"

text \<open>The cluster draws of one hierarchical resample; \<open>used\<close> is the write position in the pool.\<close>

fun draw_replicates :: "('s \<Rightarrow> real \<times> 's) \<Rightarrow> real list list \<Rightarrow> nat \<Rightarrow> nat \<Rightarrow> real list \<Rightarrow> 's \<Rightarrow> (nat \<times> real list \<times> 's) option" where
  "draw_replicates rng reps 0 used pool s = Some (used, pool, s)"
| "draw_replicates rng reps (Suc r) used pool s =
     (let (x, s') = rng s
      in case rd reps \<lfloor>x * real (length reps)\<rfloor> of
           None \<Rightarrow> None
         | Some chosen \<Rightarrow>
             (case fill_draws rng chosen (length chosen) used pool s' of
                None \<Rightarrow> None
              | Some (pool', s'') \<Rightarrow> draw_replicates rng reps r (used + length chosen) pool' s''))"

definition hierarchicalResampleMedian :: "('s \<Rightarrow> real \<times> 's) \<Rightarrow> real list list \<Rightarrow> real list \<Rightarrow> 's \<Rightarrow> (real \<times> real list \<times> 's) option" where
  "hierarchicalResampleMedian rng reps pool s =
     (case draw_replicates rng reps (length reps) 0 pool s of
        None \<Rightarrow> None
      | Some (used, pool', s') \<Rightarrow>
          (case medianInPlace pool' (int used) of
             None \<Rightarrow> None
           | Some (m, pool'') \<Rightarrow> Some (m, pool'', s')))"

definition longest :: "'a list list \<Rightarrow> nat" where
  "longest reps = foldl (\<lambda>longest rep. max longest (length rep)) 0 reps"

definition resamplePool :: "real list list \<Rightarrow> real list" where
  "resamplePool reps = replicate (length reps * longest reps) 0"

fun hierarchical_medians :: "('s \<Rightarrow> real \<times> 's) \<Rightarrow> real list list \<Rightarrow> nat \<Rightarrow> real list \<Rightarrow> 's \<Rightarrow> (real list \<times> 's) option" where
  "hierarchical_medians rng reps 0 pool s = Some ([], s)"
| "hierarchical_medians rng reps (Suc b) pool s =
     (case hierarchicalResampleMedian rng reps pool s of
        None \<Rightarrow> None
      | Some (m, pool', s') \<Rightarrow>
          (case hierarchical_medians rng reps b pool' s' of
             None \<Rightarrow> None
           | Some (ms, s'') \<Rightarrow> Some (m # ms, s'')))"

section \<open>The loops draw from the samples only\<close>

definition drawn_from :: "'a list \<Rightarrow> nat \<Rightarrow> 'a set \<Rightarrow> bool" where
  "drawn_from buffer n A \<longleftrightarrow> (\<forall>j<n. buffer ! j \<in> A)"

lemma drawn_from_write:
  "drawn_from buffer pos A \<Longrightarrow> pos < length buffer \<Longrightarrow> v \<in> A \<Longrightarrow> drawn_from (wr buffer (int pos) v) (Suc pos) A"
  by (auto simp: drawn_from_def wr_def less_Suc_eq)

lemma drawn_from_take: "drawn_from buffer n A \<Longrightarrow> n \<le> length buffer \<Longrightarrow> set (take n buffer) \<subseteq> A"
  by (auto simp: drawn_from_def in_set_conv_nth)

lemma medianInPlace_between:
  assumes "0 < n" "n \<le> length buffer" "drawn_from buffer n {a..b}"
  shows "\<exists>m buffer'. medianInPlace buffer (int n) = Some (m, buffer') \<and> length buffer' = length buffer \<and>
    m \<in> {a..b}"
proof -
  have r: "1 \<le> int n" "int n \<le> int (length buffer)" using assms by simp_all
  obtain buffer' where m: "medianInPlace buffer (int n) = Some (quantile (sort (take n buffer)) (1 / 2), buffer')"
    and perm: "mset (take n buffer') = mset (take n buffer)" "drop n buffer' = drop n buffer"
    using medianInPlace_correct[OF r] by auto
  have "length buffer' = length (take n buffer' @ drop n buffer')" by simp
  also have "\<dots> = length (take n buffer @ drop n buffer)"
    using mset_eq_length[OF perm(1)] perm(2) by (simp only: length_append)
  finally have len: "length buffer' = length buffer" by simp
  have ne: "take n buffer \<noteq> []" using assms by auto
  have "set (take n buffer) \<subseteq> {a..b}" by (rule drawn_from_take) (use assms in auto)
  then have "a \<le> Min (set (take n buffer))" "Max (set (take n buffer)) \<le> b" using ne by auto
  then have "quantile (sort (take n buffer)) (1 / 2) \<in> {a..b}"
    using quantile_sort_bounds[OF ne, of "1 / 2"] by simp
  then show ?thesis using m len by blast
qed

lemma longest_foldl:
  "a \<le> foldl (\<lambda>l rep. max l (length rep)) a reps \<and>
   (\<forall>rep\<in>set reps. length rep \<le> foldl (\<lambda>l rep. max l (length rep)) a reps)"
proof (induction reps arbitrary: a)
  case (Cons rep reps)
  show ?case using Cons.IH[of "max a (length rep)"] by auto
qed simp

lemma longest_ge: "rep \<in> set reps \<Longrightarrow> length rep \<le> longest reps"
  unfolding longest_def using longest_foldl[where a = 0] by blast

lemma length_resamplePool [simp]: "length (resamplePool reps) = length reps * longest reps"
  by (simp add: resamplePool_def)

context unit_rng
begin

lemma fill_draws_from:
  assumes "src \<noteq> []" "set src \<subseteq> A" "pos + m \<le> length buffer" "drawn_from buffer pos A"
  shows "\<exists>buffer' s'. fill_draws next_number src m pos buffer s = Some (buffer', s') \<and>
    length buffer' = length buffer \<and> drawn_from buffer' (pos + m) A"
  using assms
proof (induction m arbitrary: pos buffer s)
  case (Suc m)
  obtain v where v: "v \<in> set src" "rd src \<lfloor>fst (next_number s) * real (length src)\<rfloor> = Some v"
    using draw_read[OF Suc.prems(1)] by blast
  have "drawn_from (wr buffer (int pos) v) (Suc pos) A"
    by (rule drawn_from_write) (use Suc.prems v in auto)
  then obtain buffer' s' where
    "fill_draws next_number src m (Suc pos) (wr buffer (int pos) v) (snd (next_number s)) = Some (buffer', s')"
    "length buffer' = length buffer" "drawn_from buffer' (Suc pos + m) A"
    using Suc.IH[of "Suc pos" "wr buffer (int pos) v" "snd (next_number s)"] Suc.prems by auto
  then show ?case using v by (simp add: case_prod_unfold)
qed simp

lemma resample_medians_between:
  assumes "src \<noteq> []" "set src \<subseteq> {a..b}" "length draw = length src"
  shows "\<exists>ms s'. resample_medians next_number src k draw s = Some (ms, s') \<and> length ms = k \<and> set ms \<subseteq> {a..b}"
  using assms
proof (induction k arbitrary: draw s)
  case (Suc k)
  obtain draw' s' where f: "fill_draws next_number src (length src) 0 draw s = Some (draw', s')"
    "length draw' = length draw" "drawn_from draw' (length src) {a..b}"
    using fill_draws_from[OF Suc.prems(1,2), of 0 "length src" draw s] Suc.prems(3)
    by (auto simp: drawn_from_def)
  obtain m draw'' where m: "medianInPlace draw' (int (length src)) = Some (m, draw'')"
    "length draw'' = length draw'" "m \<in> {a..b}"
    using medianInPlace_between[of "length src" draw' a b] f Suc.prems by auto
  obtain ms s'' where "resample_medians next_number src k draw'' s' = Some (ms, s'')" "length ms = k"
    "set ms \<subseteq> {a..b}"
    using Suc.IH[of draw'' s'] Suc.prems f(2) m(2) by auto
  then show ?case using f(1) m by simp
qed simp

lemma draw_replicates_from:
  assumes "reps \<noteq> []" "\<And>rep. rep \<in> set reps \<Longrightarrow> rep \<noteq> [] \<and> set rep \<subseteq> A"
    and "used + r * longest reps \<le> length pool" "drawn_from pool used A"
  shows "\<exists>used' pool' s'. draw_replicates next_number reps r used pool s = Some (used', pool', s') \<and>
    length pool' = length pool \<and> used + r \<le> used' \<and> used' \<le> used + r * longest reps \<and>
    drawn_from pool' used' A"
  using assms(3,4)
proof (induction r arbitrary: used pool s)
  case (Suc r)
  obtain chosen where c: "chosen \<in> set reps" "rd reps \<lfloor>fst (next_number s) * real (length reps)\<rfloor> = Some chosen"
    using draw_read[OF assms(1)] by blast
  note ne = assms(2)[OF c(1)] and long = longest_ge[OF c(1)]
  obtain pool' s' where f: "fill_draws next_number chosen (length chosen) used pool (snd (next_number s)) = Some (pool', s')"
    "length pool' = length pool" "drawn_from pool' (used + length chosen) A"
    using fill_draws_from[of chosen A used "length chosen" pool "snd (next_number s)"] ne long Suc.prems by auto
  obtain used' pool'' s'' where "draw_replicates next_number reps r (used + length chosen) pool' s' = Some (used', pool'', s'')"
    "length pool'' = length pool'" "used + length chosen + r \<le> used'"
    "used' \<le> used + length chosen + r * longest reps" "drawn_from pool'' used' A"
    using Suc.IH[of "used + length chosen" pool' s'] Suc.prems f long by auto
  moreover have "1 \<le> length chosen" using ne by (simp add: Suc_le_eq)
  ultimately show ?case using c(2) f long by (simp add: case_prod_unfold)
qed simp

lemma hierarchicalResampleMedian_between:
  assumes "valid_reps reps" "\<And>rep. rep \<in> set reps \<Longrightarrow> set rep \<subseteq> {a..b}"
    and "length pool = length reps * longest reps"
  shows "\<exists>m pool' s'. hierarchicalResampleMedian next_number reps pool s = Some (m, pool', s') \<and>
    length pool' = length pool \<and> m \<in> {a..b}"
proof -
  have ne: "reps \<noteq> []" "\<And>rep. rep \<in> set reps \<Longrightarrow> rep \<noteq> [] \<and> set rep \<subseteq> {a..b}"
    using assms(1,2) by (auto simp: valid_reps_def)
  obtain used pool' s' where d: "draw_replicates next_number reps (length reps) 0 pool s = Some (used, pool', s')"
    "length pool' = length pool" "length reps \<le> used" "used \<le> length reps * longest reps"
    "drawn_from pool' used {a..b}"
    using draw_replicates_from[OF ne, of 0 "length reps" pool s] assms(3) by (auto simp: drawn_from_def)
  have "0 < used" using d(3) ne(1) by (metis length_greater_0_conv less_le_trans)
  then show ?thesis
    using medianInPlace_between[of used pool' a b] d assms(3) by (auto simp: hierarchicalResampleMedian_def)
qed

lemma hierarchical_medians_between:
  assumes "valid_reps reps" "\<And>rep. rep \<in> set reps \<Longrightarrow> set rep \<subseteq> {a..b}"
    and "length pool = length reps * longest reps"
  shows "\<exists>ms s'. hierarchical_medians next_number reps k pool s = Some (ms, s') \<and> length ms = k \<and> set ms \<subseteq> {a..b}"
  using assms(3)
proof (induction k arbitrary: pool s)
  case (Suc k)
  obtain m pool' s' where m: "hierarchicalResampleMedian next_number reps pool s = Some (m, pool', s')"
    "length pool' = length pool" "m \<in> {a..b}"
    using hierarchicalResampleMedian_between[OF assms(1,2) Suc.prems] by blast
  obtain ms s'' where "hierarchical_medians next_number reps k pool' s' = Some (ms, s'')" "length ms = k"
    "set ms \<subseteq> {a..b}"
    using Suc.IH[of pool' s'] Suc.prems m(2) by auto
  then show ?case using m by simp
qed simp

end

section \<open>The intervals\<close>

definition drawn :: "'a option \<Rightarrow> analysis_error + 'a" where
  "drawn r = (case r of None \<Rightarrow> Inl UndefinedRead | Some x \<Rightarrow> Inr x)"

definition bootstrapMedianInterval :: "jsnum list \<Rightarrow> interval_options \<Rightarrow> analysis_error + median_interval" where
  "bootstrapMedianInterval raw options =
     and_then (assertFiniteSamples ''bootstrapMedianInterval'' raw) (\<lambda>xs.
     and_then (coverageLevel ''bootstrapMedianInterval'' (opt_level options)) (\<lambda>level.
     and_then (resampleCount ''bootstrapMedianInterval'' (opt_resamples options)) (\<lambda>resamples.
     and_then (percentileOf raw (Fin (1 / 2))) (\<lambda>median.
       if length raw = 1
       then Inr \<lparr>iv_median = median, iv_lo = median, iv_hi = median, iv_level = level, iv_resamples = 0\<rparr>
       else
         and_then (drawn (resample_medians mulberry32 xs resamples (replicate (length xs) 0)
             (seedHash (optionSeed options)))) (\<lambda>(medians, _).
         let (lo, hi) = percentile_bounds medians level
         in Inr \<lparr>iv_median = median, iv_lo = lo, iv_hi = hi, iv_level = level,
                iv_resamples = resamples\<rparr>)))))"

text \<open>The per-sandbox medians of finite samples are finite: \<open>the_reals\<close> reads them back as reals.\<close>

definition the_reals :: "jsnum list \<Rightarrow> real list" where
  "the_reals ms = (case finite_values ms of Inl _ \<Rightarrow> [] | Inr xs \<Rightarrow> xs)"

definition clusterMedianInterval :: "jsnum list list \<Rightarrow> interval_options \<Rightarrow> analysis_error + median_interval" where
  "clusterMedianInterval reps options =
     and_then (assertReplicates ''clusterMedianInterval'' reps) (\<lambda>_.
     and_then (coverageLevel ''clusterMedianInterval'' (opt_level options)) (\<lambda>level.
     and_then (resampleCount ''clusterMedianInterval'' (opt_resamples options)) (\<lambda>resamples.
     and_then (sandboxMedians reps) (\<lambda>summaries.
     and_then (percentileOf summaries (Fin (1 / 2))) (\<lambda>median.
       if length summaries = 1
       then Inr \<lparr>iv_median = median, iv_lo = median, iv_hi = median, iv_level = level, iv_resamples = 0\<rparr>
       else
         let xs = the_reals summaries
         in and_then (drawn (resample_medians mulberry32 xs resamples (replicate (length xs) 0)
             (seedHash (optionSeed options)))) (\<lambda>(medians, _).
         let (lo, hi) = percentile_bounds medians level
         in Inr \<lparr>iv_median = median, iv_lo = lo, iv_hi = hi, iv_level = level,
                iv_resamples = resamples\<rparr>))))))"

definition hierarchicalBootstrapMedianInterval :: "jsnum list list \<Rightarrow> interval_options \<Rightarrow> analysis_error + median_interval" where
  "hierarchicalBootstrapMedianInterval reps options =
     and_then (assertReplicates ''hierarchicalBootstrapMedianInterval'' reps) (\<lambda>rs.
     and_then (coverageLevel ''hierarchicalBootstrapMedianInterval'' (opt_level options)) (\<lambda>level.
     and_then (resampleCount ''hierarchicalBootstrapMedianInterval'' (opt_resamples options)) (\<lambda>resamples.
     let pooled = concat reps in
     and_then (percentileOf pooled (Fin (1 / 2))) (\<lambda>median.
       if length pooled = 1
       then Inr \<lparr>iv_median = median, iv_lo = median, iv_hi = median, iv_level = level, iv_resamples = 0\<rparr>
       else
         and_then (drawn (hierarchical_medians mulberry32 rs resamples (resamplePool rs)
             (seedHash (optionSeed options)))) (\<lambda>(medians, _).
         let (lo, hi) = percentile_bounds medians level
         in Inr \<lparr>iv_median = median, iv_lo = lo, iv_hi = hi, iv_level = level,
                iv_resamples = resamples\<rparr>)))))"

section \<open>What the intervals promise\<close>

text \<open>
  An interval of a value \<open>m\<close> inside \<open>[a, b]\<close> with \<open>n\<close> observations: ordered finite ends in
  range, and the point interval with no resamples when there is one observation.
\<close>

definition interval_ok :: "nat \<Rightarrow> real \<Rightarrow> real \<Rightarrow> real \<Rightarrow> median_interval \<Rightarrow> bool" where
  "interval_ok n m a b iv \<longleftrightarrow>
     iv_median iv = Fin m \<and>
     (\<exists>lo hi. iv_lo iv = Fin lo \<and> iv_hi iv = Fin hi \<and> a \<le> lo \<and> lo \<le> hi \<and> hi \<le> b) \<and>
     (n = 1 \<longrightarrow> iv_lo iv = Fin m \<and> iv_hi iv = Fin m) \<and>
     (iv_resamples iv = 0 \<longleftrightarrow> n = 1) \<and> 0 < iv_level iv \<and> iv_level iv < 1"

lemma interval_ok_point:
  "0 < l \<Longrightarrow> l < 1 \<Longrightarrow> a \<le> m \<Longrightarrow> m \<le> b \<Longrightarrow>
   interval_ok (Suc 0) m a b \<lparr>iv_median = Fin m, iv_lo = Fin m, iv_hi = Fin m, iv_level = l, iv_resamples = 0\<rparr>"
  by (simp add: interval_ok_def)

lemma interval_ok_bounds:
  assumes "n \<noteq> 1" "0 < l" "l < 1" "0 < c" "ms \<noteq> []" "set ms \<subseteq> {a..b}"
  shows "\<exists>lo hi. percentile_bounds ms l = (lo, hi) \<and>
    interval_ok n m a b \<lparr>iv_median = Fin m, iv_lo = lo, iv_hi = hi, iv_level = l, iv_resamples = c\<rparr>"
proof -
  have "x \<in> set ms \<Longrightarrow> a \<le> x \<and> x \<le> b" for x using assms(6) by auto
  then obtain lo hi where "percentile_bounds ms l = (Fin lo, Fin hi)" "a \<le> lo" "lo \<le> hi" "hi \<le> b"
    using percentile_bounds_between[of ms l a b] assms by metis
  then show ?thesis using assms by (simp add: interval_ok_def)
qed

lemma bootstrapMedianInterval_Fin:
  assumes "xs \<noteq> []" "valid_options options"
  shows "\<exists>iv. bootstrapMedianInterval (map Fin xs) options = Inr iv \<and>
    interval_ok (length xs) (median xs) (Min (set xs)) (Max (set xs)) iv"
proof -
  obtain l c where o: "\<And>fn. coverageLevel fn (opt_level options) = Inr l"
    "\<And>fn. resampleCount fn (opt_resamples options) = Inr c" and lc: "0 < l" "l < 1" "0 < c"
    using valid_options_obtain[OF assms(2)] by metis
  have sub: "set xs \<subseteq> {Min (set xs)..Max (set xs)}" by auto
  obtain ms s' where r: "resample_medians mulberry32 xs c (replicate (length xs) 0)
      (seedHash (optionSeed options)) = Some (ms, s')" "length ms = c" "set ms \<subseteq> {Min (set xs)..Max (set xs)}"
    using mulberry.resample_medians_between[of xs "Min (set xs)" "Max (set xs)"
        "replicate (length xs) 0" c "seedHash (optionSeed options)"] assms(1) sub by auto
  show ?thesis
  proof (cases "length xs = 1")
    case True
    then show ?thesis
      using assms(1) o lc median_bounds[OF assms(1)]
      by (simp add: bootstrapMedianInterval_def percentileOf_median interval_ok_point)
  next
    case False
    have "ms \<noteq> []" using r(2) lc(3) by auto
    then obtain lo hi where "percentile_bounds ms l = (lo, hi)"
      "interval_ok (length xs) (median xs) (Min (set xs)) (Max (set xs))
         \<lparr>iv_median = Fin (median xs), iv_lo = lo, iv_hi = hi, iv_level = l, iv_resamples = c\<rparr>"
      using interval_ok_bounds[OF False lc _ r(3)] by metis
    then show ?thesis
      using assms(1) o r(1) False
      by (simp add: bootstrapMedianInterval_def percentileOf_median drawn_def)
  qed
qed

lemma the_reals_Fin [simp]: "the_reals (map Fin xs) = xs"
  by (simp add: the_reals_def)

lemma clusterMedianInterval_medians:
  assumes "valid_reps reps" "valid_options options"
  shows "clusterMedianInterval (map (map Fin) reps) options =
    bootstrapMedianInterval (map Fin (map median reps)) options"
proof -
  obtain l c where o: "\<And>fn. coverageLevel fn (opt_level options) = Inr l"
    "\<And>fn. resampleCount fn (opt_resamples options) = Inr c"
    using valid_options_obtain[OF assms(2)] by metis
  have ne: "map median reps \<noteq> []" using assms(1) by (simp add: valid_reps_def)
  show ?thesis
    using o ne percentileOf_median[OF ne] the_reals_Fin[of "map median reps"]
      assertFiniteSamples_Fin[OF ne]
    unfolding clusterMedianInterval_def bootstrapMedianInterval_def
    by (simp add: Let_def sandboxMedians_Fin[OF assms(1)] assertReplicates_Fin[OF assms(1)] del: map_map the_reals_Fin)
qed

lemma percentileOf_concat:
  assumes "valid_reps reps"
  shows "percentileOf (concat (map (map Fin) reps)) (Fin (1 / 2)) = Inr (Fin (median (concat reps)))"
proof -
  have "concat reps \<noteq> []" using assms by (cases reps) (auto simp: valid_reps_def)
  then show ?thesis by (metis map_concat percentileOf_median)
qed

lemma hierarchical_Fin:
  assumes "valid_reps reps" "valid_options options"
  shows "\<exists>iv. hierarchicalBootstrapMedianInterval (map (map Fin) reps) options = Inr iv \<and>
    interval_ok (length (concat reps)) (median (concat reps)) (Min (set (concat reps))) (Max (set (concat reps))) iv"
proof -
  let ?all = "concat reps"
  let ?s = "seedHash (optionSeed options)"
  have ne: "?all \<noteq> []" using assms(1) by (cases reps) (auto simp: valid_reps_def)
  have len: "length (concat (map (map Fin) reps)) = length ?all" by (metis length_map map_concat)
  obtain l c where o: "\<And>fn. coverageLevel fn (opt_level options) = Inr l"
    "\<And>fn. resampleCount fn (opt_resamples options) = Inr c" and lc: "0 < l" "l < 1" "0 < c"
    using valid_options_obtain[OF assms(2)] by metis
  have sub: "set rep \<subseteq> {Min (set ?all)..Max (set ?all)}" if "rep \<in> set reps" for rep
    using that by (auto intro!: Min_le Max_ge)
  obtain ms s' where r: "hierarchical_medians mulberry32 reps c (resamplePool reps) ?s = Some (ms, s')"
    "length ms = c" "set ms \<subseteq> {Min (set ?all)..Max (set ?all)}"
    using mulberry.hierarchical_medians_between[OF assms(1) sub length_resamplePool] by metis
  note simps = hierarchicalBootstrapMedianInterval_def percentileOf_concat[OF assms(1)]
    assertReplicates_Fin[OF assms(1)] o Let_def
  show ?thesis
  proof (cases "length ?all = 1")
    case True
    then show ?thesis
      using median_bounds[OF ne] lc by (simp add: simps len interval_ok_point del: length_concat)
  next
    case False
    have "ms \<noteq> []" using r(2) lc(3) by auto
    then obtain lo hi where "percentile_bounds ms l = (lo, hi)"
      "interval_ok (length ?all) (median ?all) (Min (set ?all)) (Max (set ?all))
         \<lparr>iv_median = Fin (median ?all), iv_lo = lo, iv_hi = hi, iv_level = l, iv_resamples = c\<rparr>"
      using interval_ok_bounds[OF False lc _ r(3)] by metis
    then show ?thesis
      using r(1) False by (simp add: simps len drawn_def del: length_concat)
  qed
qed

lemma bootstrapMedianInterval_validates:
  "bootstrapMedianInterval raw options = Inr iv \<Longrightarrow>
   valid_options options \<and> raw \<noteq> [] \<and> (\<exists>xs. raw = map Fin xs)"
  unfolding bootstrapMedianInterval_def valid_options_iff
  by (auto simp: and_then_Inr_iff assertFiniteSamples_Inr_iff intro: coverageLevel_name[THEN iffD1]
      resampleCount_name[THEN iffD1])

section \<open>Properties\<close>

lemma bootstrapMedianInterval_facts:
  "(\<exists>iv. bootstrapMedianInterval raw options = Inr iv) \<longleftrightarrow>
     (\<exists>xs. xs \<noteq> [] \<and> raw = map Fin xs \<and> valid_options options)"
  "bootstrapMedianInterval (map Fin xs) options = Inr iv \<Longrightarrow>
     interval_ok (length xs) (median xs) (Min (set xs)) (Max (set xs)) iv"
proof -
  show "(\<exists>iv. bootstrapMedianInterval raw options = Inr iv) \<longleftrightarrow>
      (\<exists>xs. xs \<noteq> [] \<and> raw = map Fin xs \<and> valid_options options)"
    using bootstrapMedianInterval_validates[of raw options] bootstrapMedianInterval_Fin[of _ options]
    by fastforce
  assume iv: "bootstrapMedianInterval (map Fin xs) options = Inr iv"
  then have "xs \<noteq> []" "valid_options options" using bootstrapMedianInterval_validates[OF iv] by auto
  then show "interval_ok (length xs) (median xs) (Min (set xs)) (Max (set xs)) iv"
    using bootstrapMedianInterval_Fin[of xs options] iv by auto
qed

text \<open>
  \<open>bootstrapMedianInterval\<close> answers exactly the calls with a non-empty finite sample
  set and valid options, whatever the number of samples (a bad option is rejected for one sample
  too), and its answer brackets: finite ordered ends between the least and the greatest sample, the
  observed median, and the point interval with no resamples for a single sample.
\<close>

theorem bootstrapMedianInterval_sound:
  "((\<exists>iv. bootstrapMedianInterval raw options = Inr iv) \<longleftrightarrow>
     (\<exists>xs. xs \<noteq> [] \<and> raw = map Fin xs \<and> valid_options options)) \<and>
   (\<forall>xs iv. bootstrapMedianInterval (map Fin xs) options = Inr iv \<longrightarrow>
     interval_ok (length xs) (median xs) (Min (set xs)) (Max (set xs)) iv)"
  using bootstrapMedianInterval_facts(1)[of raw options] bootstrapMedianInterval_facts(2)[of _ options] by blast

theorem bootstrapMedianInterval_sound_witness:
  "(\<exists>iv. bootstrapMedianInterval [Fin 4, Fin 9] \<lparr>opt_resamples = Some (Fin 3), opt_level = None, opt_seed = None\<rparr>
      = Inr iv \<and> interval_ok 2 (median [4, 9]) 4 9 iv) \<and>
   \<not> (\<exists>iv. bootstrapMedianInterval [Fin 4] \<lparr>opt_resamples = Some (Fin (- 1)), opt_level = None, opt_seed = None\<rparr>
      = Inr iv)"
proof -
  let ?o = "\<lparr>opt_resamples = Some (Fin 3), opt_level = None, opt_seed = None\<rparr>"
  have "valid_options ?o" by (simp add: valid_options_def coverageLevel_def resampleCount_def)
  then have "\<exists>iv. bootstrapMedianInterval (map Fin [4, 9]) ?o = Inr iv"
    using bootstrapMedianInterval_sound[of "map Fin [4, 9]" ?o] by (metis list.distinct(1))
  then obtain iv where iv: "bootstrapMedianInterval (map Fin [4, 9]) ?o = Inr iv" by blast
  have "interval_ok (length [4, 9 :: real]) (median [4, 9]) (Min (set [4, 9])) (Max (set [4, 9])) iv"
    using bootstrapMedianInterval_sound[of _ ?o] iv by blast
  moreover have "\<not> valid_options \<lparr>opt_resamples = Some (Fin (- 1)), opt_level = None, opt_seed = None\<rparr>"
    by (simp add: valid_options_def resampleCount_def)
  ultimately show ?thesis
    using iv bootstrapMedianInterval_sound[of "[Fin 4]"] by (simp add: numeral_2_eq_2)
qed

text \<open>
  The cluster bootstrap is the flat bootstrap of the per-sandbox medians, so a suite with
  one trial per sandbox gets the very interval the pooled samples get, and its interval brackets the
  reported value between the least and the greatest sandbox median.
\<close>

theorem clusterMedianInterval_sound:
  assumes "valid_reps reps" and "valid_options options"
  shows "clusterMedianInterval (map (map Fin) reps) options =
      bootstrapMedianInterval (map Fin (map median reps)) options \<and>
    (\<exists>iv. clusterMedianInterval (map (map Fin) reps) options = Inr iv \<and>
      sandboxMedianOf (map (map Fin) reps) = Inr (iv_median iv) \<and>
      interval_ok (length reps) (median (map median reps)) (Min (median ` set reps)) (Max (median ` set reps)) iv)"
proof -
  have eq: "clusterMedianInterval (map (map Fin) reps) options =
      bootstrapMedianInterval (map Fin (map median reps)) options"
    by (rule clusterMedianInterval_medians[OF assms])
  have ne: "map median reps \<noteq> []" using assms(1) by (simp add: valid_reps_def)
  show ?thesis
    using bootstrapMedianInterval_Fin[OF ne assms(2)] sandboxMedianOf_Fin[OF assms(1)]
    unfolding eq by (auto simp: interval_ok_def)
qed

theorem clusterMedianInterval_sound_witness:
  "\<exists>iv. clusterMedianInterval [[Fin 4], [Fin 9]] \<lparr>opt_resamples = None, opt_level = None, opt_seed = None\<rparr>
     = Inr iv \<and> iv_resamples iv \<noteq> 0"
proof -
  have "valid_reps [[4], [9]]"
    "valid_options \<lparr>opt_resamples = None, opt_level = None, opt_seed = None\<rparr>"
    by (simp_all add: valid_reps_def valid_options_def coverageLevel_def resampleCount_def)
  then show ?thesis using clusterMedianInterval_sound by (fastforce simp: interval_ok_def)
qed

text \<open>
  The two-level bootstrap never reads or writes outside its scratch pool, which is sized
  for the worst draw (the longest replicate every time), so it always answers valid input, with finite
  ordered ends between the least and the greatest pooled sample.
\<close>

theorem hierarchicalBootstrapMedianInterval_sound:
  assumes "valid_reps reps" and "valid_options options"
  shows "\<exists>iv. hierarchicalBootstrapMedianInterval (map (map Fin) reps) options = Inr iv \<and>
    interval_ok (length (concat reps)) (median (concat reps)) (Min (set (concat reps))) (Max (set (concat reps))) iv"
  by (rule hierarchical_Fin[OF assms])

theorem hierarchicalBootstrapMedianInterval_sound_witness:
  "\<exists>iv. hierarchicalBootstrapMedianInterval [[Fin 4], [Fin 9, Fin 1]]
     \<lparr>opt_resamples = None, opt_level = None, opt_seed = None\<rparr> = Inr iv \<and> iv_resamples iv \<noteq> 0"
proof -
  have "valid_reps [[4], [9, 1]]"
    "valid_options \<lparr>opt_resamples = None, opt_level = None, opt_seed = None\<rparr>"
    by (simp_all add: valid_reps_def valid_options_def coverageLevel_def resampleCount_def)
  then show ?thesis using hierarchicalBootstrapMedianInterval_sound by (fastforce simp: interval_ok_def)
qed

end
