(* ===== verification/Separation.thy ===== *)
theory Separation
  imports RankTests Bootstrap
begin

text \<open>
  \<open>clusterSeparation\<close> and \<open>bootstrapMedianDifferenceInterval\<close> of
  \<open>packages/schema/src/analysis.ts\<close>: the verdict of a ranking, the exact rank test on the per-sandbox
  medians, and the displayed interval that carries it.
\<close>

section \<open>The verdict\<close>

record cluster_separation =
  cs_level :: real
  cs_method :: p_value_method
  cs_pValue :: real
  cs_minAttainable :: real
  separated :: bool

definition clusterSeparation :: "jsnum list list \<Rightarrow> jsnum list list \<Rightarrow> jsnum option \<Rightarrow> analysis_error + cluster_separation" where
  "clusterSeparation a b level =
     and_then (assertReplicates ''clusterSeparation'' a) (\<lambda>_.
     and_then (assertReplicates ''clusterSeparation'' b) (\<lambda>_.
     and_then (coverageLevel ''clusterSeparation'' level) (\<lambda>l.
     and_then (sandboxMedians a) (\<lambda>ma.
     and_then (sandboxMedians b) (\<lambda>mb.
     and_then (mannWhitneyU ma mb) (\<lambda>t.
       Inr \<lparr>cs_level = l, cs_method = mw_method t, cs_pValue = mw_pValue t,
            cs_minAttainable = minAttainablePValue t, separated = (mw_pValue t < 1 - l)\<rparr>))))))"

section \<open>The interval of the difference\<close>

text \<open>The numeric fields \<open>MedianDifferenceInterval\<close> adds to the verdict it extends.\<close>

record median_difference_interval = cluster_separation +
  difference :: jsnum
  diff_lo :: jsnum
  diff_hi :: jsnum
  diff_resamples :: nat

fun js_minus :: "jsnum \<Rightarrow> jsnum \<Rightarrow> jsnum" where
  "js_minus (Fin x) (Fin y) = Fin (x - y)"
| "js_minus NaN _ = NaN"
| "js_minus _ NaN = NaN"
| "js_minus (Infinite s) (Fin _) = Infinite s"
| "js_minus (Fin _) (Infinite s) = Infinite (\<not> s)"
| "js_minus (Infinite s) (Infinite t) = (if s = t then NaN else Infinite s)"

text \<open>One draw of each side per resample, the first side first, from one generator.\<close>

fun difference_draws :: "('s \<Rightarrow> real \<times> 's) \<Rightarrow> real list list \<Rightarrow> real list list \<Rightarrow> nat \<Rightarrow> real list \<Rightarrow> real list \<Rightarrow> 's \<Rightarrow> (real list \<times> 's) option" where
  "difference_draws rng a b 0 poolA poolB s = Some ([], s)"
| "difference_draws rng a b (Suc n) poolA poolB s =
     (case hierarchicalResampleMedian rng a poolA s of
        None \<Rightarrow> None
      | Some (ma, poolA', s1) \<Rightarrow>
          (case hierarchicalResampleMedian rng b poolB s1 of
             None \<Rightarrow> None
           | Some (mb, poolB', s2) \<Rightarrow>
               (case difference_draws rng a b n poolA' poolB' s2 of
                  None \<Rightarrow> None
                | Some (ds, s3) \<Rightarrow> Some ((ma - mb) # ds, s3))))"

definition bootstrapMedianDifferenceInterval ::
  "jsnum list list \<Rightarrow> jsnum list list \<Rightarrow> interval_options \<Rightarrow> analysis_error + median_difference_interval" where
  "bootstrapMedianDifferenceInterval a b options =
     and_then (assertReplicates ''bootstrapMedianDifferenceInterval'' a) (\<lambda>ra.
     and_then (assertReplicates ''bootstrapMedianDifferenceInterval'' b) (\<lambda>rb.
     and_then (coverageLevel ''bootstrapMedianDifferenceInterval'' (opt_level options)) (\<lambda>level.
     and_then (resampleCount ''bootstrapMedianDifferenceInterval'' (opt_resamples options)) (\<lambda>resamples.
     let pooledA = concat a; pooledB = concat b in
     and_then (percentileOf pooledA (Fin (1 / 2))) (\<lambda>mA.
     and_then (percentileOf pooledB (Fin (1 / 2))) (\<lambda>mB.
     let diff = js_minus mA mB in
     and_then (clusterSeparation a b (Some (Fin level))) (\<lambda>verdict.
       if length pooledA = 1 \<and> length pooledB = 1
       then Inr (cluster_separation.extend verdict
              \<lparr>difference = diff, diff_lo = diff, diff_hi = diff, diff_resamples = 0\<rparr>)
       else
         and_then (drawn (difference_draws mulberry32 ra rb resamples (resamplePool ra) (resamplePool rb)
             (seedHash (optionSeed options)))) (\<lambda>(diffs, _).
         let (lo, hi) = percentile_bounds diffs level
         in Inr (cluster_separation.extend verdict
              \<lparr>difference = diff, diff_lo = lo, diff_hi = hi, diff_resamples = resamples\<rparr>)))))))))"

section \<open>Lemmas\<close>

lemma clusterSeparation_Fin:
  assumes "valid_reps a" "valid_reps b" "coverageLevel ''clusterSeparation'' level = Inr l"
    and "mannWhitneyU (map Fin (map median a)) (map Fin (map median b)) = Inr t"
  shows "clusterSeparation (map (map Fin) a) (map (map Fin) b) level = Inr
    \<lparr>cs_level = l, cs_method = mw_method t, cs_pValue = mw_pValue t,
     cs_minAttainable = minAttainablePValue t, separated = (mw_pValue t < 1 - l)\<rparr>"
  using assms by (simp add: clusterSeparation_def sandboxMedians_Fin del: map_map)

lemma clusterSeparation_answers:
  assumes "valid_reps a" "valid_reps b" "coverageLevel ''clusterSeparation'' level = Inr l"
  shows "\<exists>v. clusterSeparation (map (map Fin) a) (map (map Fin) b) level = Inr v"
proof -
  have "map median a \<noteq> []" "map median b \<noteq> []" using assms by (simp_all add: valid_reps_def)
  then show ?thesis using mannWhitneyU_answers clusterSeparation_Fin[OF assms] by blast
qed

context unit_rng
begin

lemma difference_draws_between:
  assumes "valid_reps a" "\<And>rep. rep \<in> set a \<Longrightarrow> set rep \<subseteq> {la..ha}" "length poolA = length a * longest a"
    and "valid_reps b" "\<And>rep. rep \<in> set b \<Longrightarrow> set rep \<subseteq> {lb..hb}" "length poolB = length b * longest b"
  shows "\<exists>ds s'. difference_draws next_number a b k poolA poolB s = Some (ds, s') \<and> length ds = k \<and>
    set ds \<subseteq> {la - hb..ha - lb}"
  using assms(3,6)
proof (induction k arbitrary: poolA poolB s)
  case (Suc k)
  obtain ma poolA' s1 where a: "hierarchicalResampleMedian next_number a poolA s = Some (ma, poolA', s1)"
    "length poolA' = length poolA" "ma \<in> {la..ha}"
    using hierarchicalResampleMedian_between[OF assms(1,2) Suc.prems(1)] by blast
  obtain mb poolB' s2 where b: "hierarchicalResampleMedian next_number b poolB s1 = Some (mb, poolB', s2)"
    "length poolB' = length poolB" "mb \<in> {lb..hb}"
    using hierarchicalResampleMedian_between[OF assms(4,5) Suc.prems(2)] by blast
  obtain ds s' where "difference_draws next_number a b k poolA' poolB' s2 = Some (ds, s')" "length ds = k"
    "set ds \<subseteq> {la - hb..ha - lb}"
    using Suc.IH[of poolA' poolB' s2] Suc.prems a(2) b(2) by auto
  then show ?case using a b by (simp add: add_mono diff_mono)
qed simp

end

lemma within_range:
  "rep \<in> set reps \<Longrightarrow> set rep \<subseteq> {Min (set (concat reps))..Max (set (concat reps))}" for reps :: "real list list"
  by (auto intro!: Min_le Max_ge)

lemma difference_Fin:
  assumes "valid_reps a" "valid_reps b" "valid_options options"
  shows "\<exists>iv lo hi. bootstrapMedianDifferenceInterval (map (map Fin) a) (map (map Fin) b) options = Inr iv \<and>
    difference iv = Fin (median (concat a) - median (concat b)) \<and> diff_lo iv = Fin lo \<and> diff_hi iv = Fin hi \<and>
    lo \<le> hi \<and> Min (set (concat a)) - Max (set (concat b)) \<le> lo \<and> hi \<le> Max (set (concat a)) - Min (set (concat b)) \<and>
    (diff_resamples iv = 0 \<longleftrightarrow> length (concat a) = 1 \<and> length (concat b) = 1) \<and>
    clusterSeparation (map (map Fin) a) (map (map Fin) b) (opt_level options) =
      Inr (cluster_separation.truncate iv)"
proof -
  let ?A = "concat a" and ?B = "concat b" and ?s = "seedHash (optionSeed options)"
  obtain l c where o: "\<And>fn. coverageLevel fn (opt_level options) = Inr l"
    "\<And>fn. resampleCount fn (opt_resamples options) = Inr c" and lc: "0 < l" "l < 1" "0 < c"
    using valid_options_obtain[OF assms(3)] by metis
  have lev: "coverageLevel fn (Some (Fin l)) = Inr l" for fn using lc by (simp add: coverageLevel_def)
  obtain v where v: "clusterSeparation (map (map Fin) a) (map (map Fin) b) (Some (Fin l)) = Inr v"
    using clusterSeparation_answers[OF assms(1,2) lev] by blast
  have v': "clusterSeparation (map (map Fin) a) (map (map Fin) b) (opt_level options) = Inr v"
    using v by (simp add: clusterSeparation_def o lev)
  have len: "length (concat (map (map Fin) xs)) = length (concat xs)" for xs by (metis length_map map_concat)
  have ne: "?A \<noteq> []" "?B \<noteq> []" using assms by (cases a; cases b; auto simp: valid_reps_def)+
  obtain ds s' where d: "difference_draws mulberry32 a b c (resamplePool a) (resamplePool b) ?s = Some (ds, s')"
    "length ds = c" "set ds \<subseteq> {Min (set ?A) - Max (set ?B)..Max (set ?A) - Min (set ?B)}"
    using mulberry.difference_draws_between[OF assms(1) within_range length_resamplePool assms(2) within_range
        length_resamplePool] by metis
  have "ds \<noteq> []" using d(2) lc(3) by auto
  moreover have "x \<in> set ds \<Longrightarrow> Min (set ?A) - Max (set ?B) \<le> x \<and> x \<le> Max (set ?A) - Min (set ?B)" for x
    using d(3) by auto
  ultimately obtain lo hi where b: "percentile_bounds ds l = (Fin lo, Fin hi)"
    "Min (set ?A) - Max (set ?B) \<le> lo" "lo \<le> hi" "hi \<le> Max (set ?A) - Min (set ?B)"
    using percentile_bounds_between[of ds l] lc(1,2) by metis
  note simps = bootstrapMedianDifferenceInterval_def o Let_def v v' len percentileOf_concat[OF assms(1)]
    percentileOf_concat[OF assms(2)] cluster_separation.defs
  show ?thesis
  proof (cases "length ?A = 1 \<and> length ?B = 1")
    case True
    then show ?thesis
      using assms(1,2) median_bounds[OF ne(1)] median_bounds[OF ne(2)]
      by (simp add: simps diff_mono del: length_concat set_concat)
  next
    case False
    then show ?thesis
      using assms(1,2) d(1) b lc(3) median_bounds[OF ne(1)] median_bounds[OF ne(2)]
      by (simp add: simps drawn_def diff_mono del: length_concat set_concat)
  qed
qed

section \<open>Two sandboxes against five\<close>

lemma two_five_pool: "doubled_pool [9, 9, 1, 1, 1, 1, 1] = [13, 13, 6, 6, 6, 6, 6]"
  by (simp add: doubled_pool_def doubled_midrank below_def ties_def)

lemma two_five_sum:
  assumes "I \<subseteq> {..<7}"
  shows "rank_sum [13, 13, 6, 6, 6, 6, 6] I = 6 * card I + 7 * card (I \<inter> {0, 1})"
proof -
  have fin: "finite I" using assms by (rule finite_subset) simp
  have "[13, 13, 6, 6, 6, 6, 6] ! i = 6 + 7 * (if i \<in> {0, 1} then 1 else 0 :: nat)" if "i \<in> I" for i
  proof -
    have "i < 7" using that assms by auto
    then have "i = 0 \<or> i = 1 \<or> i = 2 \<or> i = 3 \<or> i = 4 \<or> i = 5 \<or> i = 6" by linarith
    then show ?thesis by (elim disjE) (simp_all add: nth_Cons')
  qed
  then have "rank_sum [13, 13, 6, 6, 6, 6, 6] I = (\<Sum>i\<in>I. 6 + 7 * (if i \<in> {0, 1} then 1 else 0))"
    unfolding rank_sum_def by (rule sum.cong[OF refl])
  also have "\<dots> = 6 * card I + 7 * (\<Sum>i\<in>I. if i \<in> {0, 1} then 1 else 0)"
    by (simp only: sum.distrib sum_distrib_left[symmetric]) simp
  also have "(\<Sum>i\<in>I. if i \<in> {0, 1 :: nat} then 1 else 0 :: nat) = card (I \<inter> {0, 1})"
    using fin by (simp add: sum.If_cases Int_def)
  finally show ?thesis .
qed

lemma two_five_tail: "tail_sets [13, 13, 6, 6, 6, 6, 6] 2 5 (split_deviation [13, 13, 6, 6, 6, 6, 6] 2 5 {..<2}) = {{0, 1}}"
proof -
  let ?d = "[13, 13, 6, 6, 6, 6, 6] :: nat list"
  have dev: "split_deviation ?d 2 5 I = \<bar>7 * int (card (I \<inter> {0, 1})) - 4\<bar>" if "I \<in> index_sets 7 2" for I
    using two_five_sum[of I] that by (simp add: split_deviation_def deviation_def index_sets_def)
  have two: "{..<2} = {0, 1 :: nat}" by auto
  have obs: "split_deviation ?d 2 5 {..<2} = 10"
    unfolding two by (subst dev) (simp_all add: index_sets_def)
  have "10 \<le> split_deviation ?d 2 5 I \<longleftrightarrow> I = {0, 1}" if I: "I \<in> index_sets 7 2" for I
  proof -
    have fin: "finite I" and c2: "card I = 2" using I by (auto simp: index_sets_def intro: finite_subset)
    have le: "card (I \<inter> {0, 1}) \<le> card {0, 1 :: nat}" by (rule card_mono) auto
    have "10 \<le> split_deviation ?d 2 5 I \<longleftrightarrow> card (I \<inter> {0, 1}) = 2" using dev[OF I] le by (simp split: abs_split) linarith
    also have "\<dots> \<longleftrightarrow> I = {0, 1}"
    proof
      assume "card (I \<inter> {0, 1}) = 2"
      then have "I \<inter> {0, 1} = I" using card_subset_eq[OF fin, of "I \<inter> {0, 1}"] c2 by simp
      moreover have "I \<inter> {0, 1} = {0, 1}"
        using card_subset_eq[of "{0, 1 :: nat}" "I \<inter> {0, 1}"] \<open>card (I \<inter> {0, 1}) = 2\<close> by simp
      ultimately show "I = {0, 1}" by simp
    qed simp
    finally show ?thesis .
  qed
  moreover have "{0, 1} \<in> index_sets 7 2" by (simp add: index_sets_def)
  ultimately show ?thesis unfolding tail_sets_def obs by auto
qed

section \<open>Properties\<close>

text \<open>
  A verdict at the default level never separates two providers that ran the same number
  of sandboxes when that number is below four, whatever was measured inside them; the verdict's
  p-value and floor do not depend on which provider is named first.
\<close>

theorem clusterSeparation_needs_four:
  assumes "valid_reps a" and "valid_reps b" and "length a + length b \<le> 50"
  shows "\<exists>v w. clusterSeparation (map (map Fin) a) (map (map Fin) b) None = Inr v \<and>
    clusterSeparation (map (map Fin) b) (map (map Fin) a) None = Inr w \<and>
    cs_pValue w = cs_pValue v \<and> cs_minAttainable w = cs_minAttainable v \<and> separated w = separated v \<and>
    cs_method v = Exact \<and> (length a = length b \<and> length a < 4 \<longrightarrow> \<not> separated v)"
proof -
  let ?a = "map median a" and ?b = "map median b"
  have ne: "?a \<noteq> []" "?b \<noteq> []" using assms by (simp_all add: valid_reps_def)
  have n: "length ?a + length ?b \<le> 50" using assms(3) by simp
  obtain t where t: "mannWhitneyU (map Fin ?a) (map Fin ?b) = Inr t" "mw_method t = Exact"
    using mannWhitneyU_exact[OF ne n] by blast
  have n': "length ?b + length ?a \<le> 50" using n by simp
  have swap: "split_p (doubled_pool (?b @ ?a)) (length ?b) (length ?a) {..<length ?b} =
      split_p (doubled_pool (?a @ ?b)) (length ?a) (length ?b) {..<length ?a}"
    "floor_p (doubled_pool (?b @ ?a)) (length ?b) (length ?a) = floor_p (doubled_pool (?a @ ?b)) (length ?a) (length ?b)"
    by (rule swap_sides)+
  obtain u where u: "mannWhitneyU (map Fin ?b) (map Fin ?a) = Inr u" "mw_pValue u = mw_pValue t"
    "minAttainablePValue u = minAttainablePValue t"
    using mannWhitneyU_exact[OF ne n] mannWhitneyU_exact[OF ne(2,1) n'] t(1) swap by auto
  have lev: "coverageLevel ''clusterSeparation'' None = Inr (95 / 100)" by (simp add: coverageLevel_def)
  have small: "\<not> mw_pValue t < 1 - 95 / 100" if "length a = length b" "length a < 4"
    using equal_sides_not_significant[OF ne(1) _ n t(1)] that by simp
  show ?thesis
    using clusterSeparation_Fin[OF assms(1,2) lev t(1)] clusterSeparation_Fin[OF assms(2,1) lev u(1)] t(2) u small
    by simp
qed

theorem clusterSeparation_needs_four_witness:
  "\<exists>v. clusterSeparation [[Fin 1], [Fin 2, Fin 2]] [[Fin 8], [Fin 9]] None = Inr v \<and> \<not> separated v"
  using clusterSeparation_needs_four[of "[[1], [2, 2]]" "[[8], [9]]"] by (auto simp: valid_reps_def)

text \<open>
  The bound of four sandboxes is a bound for equal sides only. Ties break the mirror
  symmetry of the ranks, and two sandboxes against five with tied medians are declared separated at
  the default level: the p-value and the floor are both one in twenty-one.
\<close>

theorem clusterSeparation_two_against_five:
  "\<exists>v. clusterSeparation [[Fin 9], [Fin 9]] [[Fin 1], [Fin 1], [Fin 1], [Fin 1], [Fin 1]] None = Inr v \<and>
     separated v \<and> cs_pValue v = 1 / 21"
proof -
  let ?a = "[9, 9] :: real list" and ?b = "[1, 1, 1, 1, 1] :: real list"
  have lev: "coverageLevel ''clusterSeparation'' None = Inr (95 / 100)" by (simp add: coverageLevel_def)
  have c21: "(7 :: nat) choose 2 = 21" by (simp add: numeral_eq_Suc)
  have l: "length ?a = 2" "length ?b = 5" by simp_all
  have p: "split_p (doubled_pool (?a @ ?b)) 2 5 {..<2} = 1 / 21"
    by (simp add: two_five_pool two_five_tail split_p_def c21)
  obtain t where t: "mannWhitneyU (map Fin ?a) (map Fin ?b) = Inr t" "mw_pValue t = 1 / 21"
    using mannWhitneyU_exact[of ?a ?b, unfolded l p] by auto
  have "valid_reps [[9], [9 :: real]]" "valid_reps [[1], [1], [1], [1], [1 :: real]]"
    by (simp_all add: valid_reps_def)
  then show ?thesis
    using clusterSeparation_Fin[of "[[9], [9]]" "[[1], [1], [1], [1], [1]]" None "95 / 100" t] lev t
    by (simp add: median_singleton)
qed

text \<open>
  The difference interval answers every valid call with finite ordered ends inside the
  widest possible difference, it degenerates to the observed difference only for one sample a side,
  and the verdict it carries is field by field the one \<open>clusterSeparation\<close> gives.
\<close>

theorem bootstrapMedianDifferenceInterval_sound:
  assumes "valid_reps a" and "valid_reps b" and "valid_options options"
  shows "\<exists>iv lo hi. bootstrapMedianDifferenceInterval (map (map Fin) a) (map (map Fin) b) options = Inr iv \<and>
    difference iv = Fin (median (concat a) - median (concat b)) \<and> diff_lo iv = Fin lo \<and> diff_hi iv = Fin hi \<and>
    lo \<le> hi \<and> Min (set (concat a)) - Max (set (concat b)) \<le> lo \<and> hi \<le> Max (set (concat a)) - Min (set (concat b)) \<and>
    (diff_resamples iv = 0 \<longleftrightarrow> length (concat a) = 1 \<and> length (concat b) = 1) \<and>
    clusterSeparation (map (map Fin) a) (map (map Fin) b) (opt_level options) =
      Inr (cluster_separation.truncate iv)"
  by (rule difference_Fin[OF assms])

theorem bootstrapMedianDifferenceInterval_sound_witness:
  "\<exists>iv lo hi. bootstrapMedianDifferenceInterval [[Fin 4], [Fin 5]] [[Fin 1]]
     \<lparr>opt_resamples = Some (Fin 2), opt_level = None, opt_seed = None\<rparr> = Inr iv \<and>
     diff_lo iv = Fin lo \<and> diff_hi iv = Fin hi \<and> 3 \<le> lo \<and> lo \<le> hi \<and> hi \<le> 4"
proof -
  have "valid_reps [[4], [5 :: real]]" "valid_reps [[1 :: real]]"
    "valid_options \<lparr>opt_resamples = Some (Fin 2), opt_level = None, opt_seed = None\<rparr>"
    by (simp_all add: valid_reps_def valid_options_def coverageLevel_def resampleCount_def)
  from bootstrapMedianDifferenceInterval_sound[OF this] show ?thesis by auto
qed

end
