(* ===== verification/Kolmogorov.thy ===== *)
theory Kolmogorov
  imports RankTests
begin

text \<open>
  \<open>kolmogorovSmirnov\<close> and \<open>kolmogorovQ\<close> of \<open>packages/schema/src/analysis.ts\<close>: the two-pointer
  sweep over the sorted samples, with its termination, and the alternating series of the tail. The
  lemmas show that the sweep measures every gap between the two empirical distribution functions
  that can be the largest.
\<close>

section \<open>The sweep\<close>

text \<open>\<open>while (i < nA && sortedA[i] === x) i++\<close>.\<close>

function skip_copies :: "real list \<Rightarrow> real \<Rightarrow> nat \<Rightarrow> nat" where
  "skip_copies vs x i = (if i < length vs \<and> vs ! i = x then skip_copies vs x (i + 1) else i)"
  by pat_completeness auto
termination by (relation "measure (\<lambda>(vs, x, i). length vs - i)") auto

declare skip_copies.simps [simp del]

lemma skip_copies_ge: "i \<le> skip_copies vs x i"
proof (induction vs x i rule: skip_copies.induct)
  case (1 vs x i)
  then show ?case by (subst skip_copies.simps) auto
qed

lemma skip_copies_gt: "i < length vs \<Longrightarrow> i < skip_copies vs (vs ! i) i"
  using skip_copies_ge[of "i + 1" vs "vs ! i"] by (subst skip_copies.simps) simp

function ks_sweep :: "real list \<Rightarrow> real list \<Rightarrow> nat \<Rightarrow> nat \<Rightarrow> real \<Rightarrow> real" where
  "ks_sweep sortedA sortedB i j stat =
     (if i < length sortedA \<and> j < length sortedB then
        (let x = sortedA ! i; y = sortedB ! j;
             i' = (if x \<le> y then skip_copies sortedA x i else i);
             j' = (if y \<le> x then skip_copies sortedB y j else j)
         in ks_sweep sortedA sortedB i' j'
              (max stat \<bar>real i' / real (length sortedA) - real j' / real (length sortedB)\<bar>))
      else stat)"
  by pat_completeness auto
termination
proof (relation "measure (\<lambda>(a, b, i, j, s). (length a - i) + (length b - j))", goal_cases)
  case (2 a b i j s x y i' j')
  have "i \<le> i'" "j \<le> j'" using 2 skip_copies_ge by auto
  moreover have "i < i' \<or> j < j'" using 2 skip_copies_gt by (cases "x \<le> y") auto
  ultimately show ?case using 2 by auto
qed simp

declare ks_sweep.simps [simp del]

section \<open>The tail\<close>

fun kolmogorov_terms :: "real \<Rightarrow> nat list \<Rightarrow> real \<Rightarrow> real \<Rightarrow> real \<Rightarrow> real" where
  "kolmogorov_terms a2 [] fac acc termPrev = 1"
| "kolmogorov_terms a2 (j # js) fac acc termPrev =
     (let term = fac * exp (a2 * real j * real j);
          acc' = acc + term
      in if \<bar>term\<bar> \<le> termPrev / 10 ^ 6 \<or> \<bar>term\<bar> \<le> acc' / 10 ^ 16 then max 0 (min 1 acc')
         else kolmogorov_terms a2 js (- fac) acc' \<bar>term\<bar>)"

definition kolmogorovQ :: "real \<Rightarrow> real" where
  "kolmogorovQ lambda = kolmogorov_terms (- 2 * lambda * lambda) [1..<101] 2 0 0"

record distribution_test =
  dt_statistic :: real
  dt_pValue :: real
  dt_method :: p_value_method
  dt_nA :: nat
  dt_nB :: nat

definition kolmogorovSmirnov :: "jsnum list \<Rightarrow> jsnum list \<Rightarrow> analysis_error + distribution_test" where
  "kolmogorovSmirnov a b =
     (if a = [] \<or> b = [] then Inl (EmptySide ''kolmogorovSmirnov'')
      else
        and_then (assertFiniteSamples ''kolmogorovSmirnov'' a) (\<lambda>xs.
        and_then (assertFiniteSamples ''kolmogorovSmirnov'' b) (\<lambda>ys.
        let nA = length xs; nB = length ys;
            stat = ks_sweep (sort xs) (sort ys) 0 0 0;
            en = sqrt (real nA * real nB / (real nA + real nB))
        in Inr \<lparr>dt_statistic = stat, dt_pValue = kolmogorovQ ((en + 12 / 100 + 11 / 100 / en) * stat),
               dt_method = Asymptotic, dt_nA = nA, dt_nB = nB\<rparr>)))"

section \<open>The gap between the empirical distribution functions\<close>

definition ecdf :: "real list \<Rightarrow> real \<Rightarrow> real" where
  "ecdf xs v = real (length (filter (\<lambda>x. x \<le> v) xs)) / real (length xs)"

definition gap :: "real list \<Rightarrow> real list \<Rightarrow> real \<Rightarrow> real" where
  "gap xs ys v = \<bar>ecdf xs v - ecdf ys v\<bar>"

lemma ecdf_cut:
  assumes "i \<le> length xs" "\<And>v. v \<in> set (take i xs) \<Longrightarrow> v \<le> m" "\<And>v. v \<in> set (drop i xs) \<Longrightarrow> m < v"
  shows "ecdf xs m = real i / real (length xs)"
proof -
  have "filter (\<lambda>x. x \<le> m) (take i xs) = take i xs" using assms(2) by (simp add: filter_id_conv)
  moreover have "filter (\<lambda>x. x \<le> m) (drop i xs) = []" using assms(3) by (fastforce simp: filter_empty_conv)
  ultimately have "filter (\<lambda>x. x \<le> m) (take i xs @ drop i xs) = take i xs" by (simp only: filter_append append_Nil2)
  then show ?thesis using assms(1) by (simp add: ecdf_def)
qed

lemma ecdf_le_1: "ecdf xs v \<le> 1"
  unfolding ecdf_def by (cases "xs = []") (simp_all add: divide_le_eq_1 length_filter_le)

lemma ecdf_mset: "mset xs = mset ys \<Longrightarrow> ecdf xs = ecdf ys"
  by (simp add: ecdf_def fun_eq_iff filter_mset_length[of xs ys] mset_eq_length[of xs ys])

lemma ecdf_mono: "v \<le> w \<Longrightarrow> ecdf xs v \<le> ecdf xs w"
proof -
  assume "v \<le> w"
  then have "length (filter (\<lambda>x. x \<le> v) xs) \<le> length (filter (\<lambda>x. x \<le> w) xs)"
    by (induction xs) auto
  then show ?thesis by (simp add: ecdf_def divide_right_mono)
qed

text \<open>A cut: what the sweep has passed on either side is below everything it has not.\<close>

definition taken :: "real list \<Rightarrow> real list \<Rightarrow> nat \<Rightarrow> nat \<Rightarrow> real set" where
  "taken xs ys i j = set (take i xs) \<union> set (take j ys)"

definition left_over :: "real list \<Rightarrow> real list \<Rightarrow> nat \<Rightarrow> nat \<Rightarrow> real set" where
  "left_over xs ys i j = set (drop i xs) \<union> set (drop j ys)"

definition cut :: "real list \<Rightarrow> real list \<Rightarrow> nat \<Rightarrow> nat \<Rightarrow> bool" where
  "cut xs ys i j \<longleftrightarrow> i \<le> length xs \<and> j \<le> length ys \<and>
     (\<forall>v\<in>taken xs ys i j. \<forall>w\<in>left_over xs ys i j. v < w)"

lemma gap_cut:
  assumes "i \<le> length xs" "j \<le> length ys" "\<forall>v\<in>taken xs ys i j. v \<le> m" "\<forall>w\<in>left_over xs ys i j. m < w"
  shows "gap xs ys m = \<bar>real i / real (length xs) - real j / real (length ys)\<bar>"
  using ecdf_cut[of i xs m] ecdf_cut[of j ys m] assms by (simp add: gap_def taken_def left_over_def)

lemma skip_copies_spec:
  assumes "sorted vs" "i \<le> length vs" "\<And>v. v \<in> set (drop i vs) \<Longrightarrow> x \<le> v"
  shows "skip_copies vs x i \<le> length vs \<and>
    set (take (skip_copies vs x i) vs) \<subseteq> insert x (set (take i vs)) \<and>
    (\<forall>w\<in>set (drop (skip_copies vs x i) vs). x < w)"
  using assms
proof (induction vs x i rule: skip_copies.induct)
  case (1 vs x i)
  show ?case
  proof (cases "i < length vs \<and> vs ! i = x")
    case True
    then have s: "skip_copies vs x i = skip_copies vs x (i + 1)" by (subst skip_copies.simps) simp
    have "set (drop (i + 1) vs) \<subseteq> set (drop i vs)" by (rule set_drop_subset_set_drop) simp
    then have "v \<in> set (drop (i + 1) vs) \<Longrightarrow> x \<le> v" for v using "1.prems"(3) by blast
    moreover have "set (take (i + 1) vs) = insert x (set (take i vs))"
      using True by (simp add: take_Suc_conv_app_nth)
    ultimately show ?thesis using "1.IH"[OF True] "1.prems" True s by auto
  next
    case False
    then have s: "skip_copies vs x i = i" by (subst skip_copies.simps) auto
    have "x < w" if w: "w \<in> set (drop i vs)" for w
    proof -
      have i: "i < length vs" using w by (cases "i < length vs") auto
      then have e: "drop i vs = vs ! i # drop (Suc i) vs" by (simp add: Cons_nth_drop_Suc)
      have "x < vs ! i" using "1.prems"(3)[of "vs ! i"] False i e by (simp add: less_le)
      moreover have "sorted (vs ! i # drop (Suc i) vs)" using sorted_wrt_drop[OF "1.prems"(1), of i] e by simp
      ultimately show ?thesis using w e by auto
    qed
    then show ?thesis using s "1.prems"(2) by auto
  qed
qed

lemma advance_spec:
  assumes "sorted vs" "i < length vs" "m \<le> vs ! i"
  defines "i' \<equiv> if vs ! i \<le> m then skip_copies vs (vs ! i) i else i"
  shows "i' \<le> length vs" "set (take i' vs) \<subseteq> insert m (set (take i vs))" "\<And>w. w \<in> set (drop i' vs) \<Longrightarrow> m < w"
    "vs ! i = m \<Longrightarrow> m \<in> set (take i' vs)" "set (take i vs) \<subseteq> set (take i' vs)"
proof -
  have e: "drop i vs = vs ! i # drop (Suc i) vs" using assms(2) by (simp add: Cons_nth_drop_Suc)
  have "sorted (vs ! i # drop (Suc i) vs)" using sorted_wrt_drop[OF assms(1), of i] e by simp
  then have ge: "v \<in> set (drop i vs) \<Longrightarrow> vs ! i \<le> v" for v using e by auto
  note s = skip_copies_spec[OF assms(1) less_imp_le[OF assms(2)] ge]
  have gt: "i < skip_copies vs (vs ! i) i" by (rule skip_copies_gt[OF assms(2)])
  have le: "i \<le> i'" using gt by (simp add: i'_def)
  show "set (take i vs) \<subseteq> set (take i' vs)" by (rule set_take_subset_set_take[OF le])
  show "i' \<le> length vs" "set (take i' vs) \<subseteq> insert m (set (take i vs))" "\<And>w. w \<in> set (drop i' vs) \<Longrightarrow> m < w"
  proof -
    show "i' \<le> length vs" using s assms(2) by (simp add: i'_def)
    show "set (take i' vs) \<subseteq> insert m (set (take i vs))"
      using s assms(3) by (auto simp: i'_def)
    show "m < w" if "w \<in> set (drop i' vs)" for w
      using s assms(3) that ge[of w] by (auto simp: i'_def split: if_splits)
  qed
  show "m \<in> set (take i' vs)" if "vs ! i = m"
  proof -
    have "i < i'" using gt that by (simp add: i'_def)
    then show ?thesis using assms(2) that by (auto simp: in_set_conv_nth intro!: exI[of _ i])
  qed
qed

definition measured :: "real list \<Rightarrow> real list \<Rightarrow> nat \<Rightarrow> nat \<Rightarrow> real" where
  "measured xs ys i j = Max (insert 0 (gap xs ys ` taken xs ys i j))"

lemma sweep_step:
  assumes "sorted xs" "sorted ys" "cut xs ys i j" "i < length xs" "j < length ys"
  defines "i' \<equiv> if xs ! i \<le> ys ! j then skip_copies xs (xs ! i) i else i"
    and "j' \<equiv> if ys ! j \<le> xs ! i then skip_copies ys (ys ! j) j else j"
  shows "cut xs ys i' j'"
    "measured xs ys i' j' = max (measured xs ys i j) \<bar>real i' / real (length xs) - real j' / real (length ys)\<bar>"
proof -
  define m where "m = min (xs ! i) (ys ! j)"
  have i': "i' = (if xs ! i \<le> m then skip_copies xs (xs ! i) i else i)" by (simp add: i'_def m_def)
  have j': "j' = (if ys ! j \<le> m then skip_copies ys (ys ! j) j else j)" by (simp add: j'_def m_def)
  have mle: "m \<le> xs ! i" "m \<le> ys ! j" by (simp_all add: m_def)
  note a = advance_spec[OF assms(1,4) mle(1), folded i'] and b = advance_spec[OF assms(2,5) mle(2), folded j']
  have mleft: "m \<in> left_over xs ys i j"
    using assms(4,5) by (auto simp: m_def left_over_def min_def Cons_nth_drop_Suc[symmetric])
  have below: "v < m" if "v \<in> taken xs ys i j" for v using assms(3) mleft that by (auto simp: cut_def)
  have "m \<in> taken xs ys i' j'" using a(4) b(4) by (auto simp: taken_def m_def min_def split: if_splits)
  then have t: "taken xs ys i' j' = insert m (taken xs ys i j)"
    using a(2,5) b(2,5) by (auto simp: taken_def)
  have above: "m < w" if "w \<in> left_over xs ys i' j'" for w using that a(3) b(3) by (auto simp: left_over_def)
  show "cut xs ys i' j'"
    unfolding cut_def t using a(1) b(1) below above by (fastforce intro: less_trans)
  have fin: "finite (insert 0 (gap xs ys ` taken xs ys i j))" "insert 0 (gap xs ys ` taken xs ys i j) \<noteq> {}"
    by (simp_all add: taken_def)
  have "gap xs ys m = \<bar>real i' / real (length xs) - real j' / real (length ys)\<bar>"
    by (rule gap_cut) (use a(1) b(1) below above in \<open>auto simp: t less_imp_le\<close>)
  then show "measured xs ys i' j' = max (measured xs ys i j) \<bar>real i' / real (length xs) - real j' / real (length ys)\<bar>"
    by (simp add: measured_def t insert_commute[of 0] max.commute Max_insert[OF fin] del: Max_insert)
qed

lemma sweep_measures:
  assumes "sorted xs" "sorted ys" "cut xs ys i j" "stat = measured xs ys i j"
  shows "\<exists>i' j'. ks_sweep xs ys i j stat = measured xs ys i' j' \<and> cut xs ys i' j' \<and>
    (i' = length xs \<or> j' = length ys)"
  using assms
proof (induction xs ys i j stat rule: ks_sweep.induct)
  case (1 xs ys i j stat)
  show ?case
  proof (cases "i < length xs \<and> j < length ys")
    case True
    note step = sweep_step[OF "1.prems"(1-3)]
    show ?thesis
      using "1.IH"[OF True refl refl refl refl] step "1.prems" True
      by (subst ks_sweep.simps) (simp add: Let_def)
  next
    case False
    then have "ks_sweep xs ys i j stat = stat" by (subst ks_sweep.simps) auto
    moreover have "i = length xs \<or> j = length ys" using False "1.prems"(3) by (auto simp: cut_def)
    ultimately show ?thesis using "1.prems" by blast
  qed
qed

lemma gap_swap: "gap xs ys = gap ys xs"
  by (simp add: gap_def fun_eq_iff abs_minus_commute)

text \<open>Once one side is exhausted the remaining gaps only close.\<close>

lemma exhausted_gap:
  assumes "cut xs ys (length xs) j" "xs \<noteq> []" "w \<in> set (drop j ys)"
  shows "\<exists>v\<in>taken xs ys (length xs) j. gap xs ys w \<le> gap xs ys v"
proof -
  let ?T = "taken xs ys (length xs) j"
  have T: "finite ?T" "?T \<noteq> {}" using assms(2) by (auto simp: taken_def)
  let ?v = "Max ?T"
  have v: "?v \<in> ?T" using T by (rule Max_in)
  have vw: "?v < w" using assms(1,3) v by (auto simp: cut_def left_over_def)
  have all: "x \<le> ?v" if "x \<in> set xs" for x using that T by (intro Max_ge) (auto simp: taken_def)
  have one: "ecdf xs u = 1" if "?v \<le> u" for u
  proof -
    have "x \<le> u" if "x \<in> set xs" for x using all[OF that] \<open>?v \<le> u\<close> by (rule order_trans)
    then have "ecdf xs u = real (length xs) / real (length xs)" by (intro ecdf_cut) auto
    then show ?thesis using assms(2) by simp
  qed
  have "gap xs ys w = 1 - ecdf ys w" "gap xs ys ?v = 1 - ecdf ys ?v"
    using one[of w] one[of ?v] vw ecdf_le_1[of ys] by (simp_all add: gap_def)
  then have "gap xs ys w \<le> gap xs ys ?v" using ecdf_mono[OF less_imp_le[OF vw], of ys] by simp
  then show ?thesis using v by blast
qed

lemma cut_swap: "cut xs ys i j \<Longrightarrow> cut ys xs j i"
  by (auto simp: cut_def taken_def left_over_def)

lemma measured_all:
  assumes "cut xs ys i j" "i = length xs \<or> j = length ys" "xs \<noteq> []" "ys \<noteq> []"
  shows "measured xs ys i j = Max (gap xs ys ` (set xs \<union> set ys))"
proof -
  let ?all = "set xs \<union> set ys"
  have sub: "taken xs ys i j \<subseteq> ?all" by (auto simp: taken_def dest: in_set_takeD)
  have bound: "\<exists>v\<in>taken xs ys i j. gap xs ys w \<le> gap xs ys v" if "w \<in> ?all" for w
  proof (cases "w \<in> taken xs ys i j")
    case False
    have split: "set zs = set (take k zs) \<union> set (drop k zs)" for zs :: "real list" and k
      by (metis append_take_drop_id set_append)
    from assms(2) show ?thesis
    proof
      assume i: "i = length xs"
      then have "w \<in> set (drop j ys)" using False that split[of ys j] by (auto simp: taken_def)
      then show ?thesis using exhausted_gap[of xs ys j w] assms(1,3) i by simp
    next
      assume j: "j = length ys"
      then have "w \<in> set (drop i xs)" using False that split[of xs i] by (auto simp: taken_def)
      then show ?thesis
        using exhausted_gap[of ys xs i w] cut_swap[OF assms(1)] assms(4) j gap_swap[of xs ys]
        by (simp add: taken_def Un_commute)
    qed
  qed blast
  have ne: "?all \<noteq> {}" "finite (gap xs ys ` ?all)" using assms(3) by auto
  have fin: "finite (insert 0 (gap xs ys ` taken xs ys i j))" by (simp add: taken_def)
  show ?thesis unfolding measured_def
  proof (rule antisym)
    have "0 \<le> gap xs ys u" for u by (simp add: gap_def)
    moreover have "hd xs \<in> ?all" using assms(3) by simp
    ultimately have "0 \<le> Max (gap xs ys ` ?all)" using ne by (meson Max_ge imageI order_trans)
    then show "Max (insert 0 (gap xs ys ` taken xs ys i j)) \<le> Max (gap xs ys ` ?all)"
      using fin ne sub by (subst Max_le_iff) (auto intro!: Max_ge)
    show "Max (gap xs ys ` ?all) \<le> Max (insert 0 (gap xs ys ` taken xs ys i j))"
    proof (subst Max_le_iff)
      show "\<forall>g\<in>gap xs ys ` ?all. g \<le> Max (insert 0 (gap xs ys ` taken xs ys i j))"
        using bound fin by (auto simp: Max_ge_iff simp del: Max_insert)
    qed (use ne in auto)
  qed
qed

lemma ks_sweep_sup:
  assumes "xs \<noteq> []" "ys \<noteq> []"
  shows "ks_sweep (sort xs) (sort ys) 0 0 0 = Max (gap xs ys ` (set xs \<union> set ys))"
proof -
  have c: "cut (sort xs) (sort ys) 0 0" by (simp add: cut_def taken_def)
  have m: "0 = measured (sort xs) (sort ys) 0 0" by (simp add: measured_def taken_def)
  have g: "gap (sort xs) (sort ys) = gap xs ys"
    unfolding gap_def by (simp add: ecdf_mset[of "sort xs" xs] ecdf_mset[of "sort ys" ys])
  show ?thesis
    using sweep_measures[OF sorted_sort sorted_sort c m] measured_all[of "sort xs" "sort ys"] assms g by auto
qed

lemma kolmogorov_terms_range: "0 \<le> kolmogorov_terms a2 js fac acc p \<and> kolmogorov_terms a2 js fac acc p \<le> 1"
  by (induction js arbitrary: fac acc p) (simp_all add: Let_def)

lemma kolmogorov_terms_zero:
  assumes "(acc = 0 \<and> fac = 2) \<or> (acc = 2 \<and> fac = - 2)" "p = 0 \<or> p = 2"
  shows "kolmogorov_terms 0 js fac acc p = 1"
  using assms by (induction js arbitrary: fac acc p) (auto simp: Let_def)

section \<open>Properties\<close>

text \<open>
  On non-empty finite samples the two-pointer sweep terminates with the largest gap
  between the two empirical distribution functions over every sample value, and the p-value is a
  probability.
\<close>

theorem kolmogorovSmirnov_largest_gap:
  assumes "xs \<noteq> []" and "ys \<noteq> []"
  shows "\<exists>t. kolmogorovSmirnov (map Fin xs) (map Fin ys) = Inr t \<and>
    dt_statistic t = Max ((\<lambda>v. \<bar>ecdf xs v - ecdf ys v\<bar>) ` (set xs \<union> set ys)) \<and>
    0 \<le> dt_pValue t \<and> dt_pValue t \<le> 1 \<and>
    (mset xs = mset ys \<longrightarrow> dt_statistic t = 0 \<and> dt_pValue t = 1)"
proof -
  have s: "ks_sweep (sort xs) (sort ys) 0 0 0 = Max (gap xs ys ` (set xs \<union> set ys))"
    by (rule ks_sweep_sup[OF assms])
  have z: "Max (gap xs ys ` (set xs \<union> set ys)) = 0" if "mset xs = mset ys"
  proof -
    have "gap xs ys ` (set xs \<union> set ys) = {0}"
      using ecdf_mset[OF that] assms by (auto simp: gap_def image_iff intro: hd_in_set)
    then show ?thesis by simp
  qed
  show ?thesis
    using assms s z kolmogorov_terms_range kolmogorov_terms_zero
    by (auto simp: kolmogorovSmirnov_def kolmogorovQ_def Let_def gap_def[abs_def])
qed

theorem kolmogorovSmirnov_largest_gap_witness:
  "\<exists>t. kolmogorovSmirnov [Fin 1, Fin 2] [Fin 2, Fin 1] = Inr t \<and> dt_statistic t = 0 \<and> dt_pValue t = 1"
  using kolmogorovSmirnov_largest_gap[of "[1, 2]" "[2, 1]"] by (auto simp: add_mset_commute)

end
