(* ===== verification/Ranking.thy ===== *)
theory Ranking
  imports Pooling Separation Kolmogorov
begin

text \<open>
  The ranking of one metric (\<open>rankMetric\<close> of \<open>packages/results/src/lib/leaderboard.ts\<close>): a candidate for
  every provider that produced it, ordered by the metric's direction, each compared with the one above.
  The lemmas show that the ranks follow the verdicts, that every shared rank has its reason, and what
  few sandboxes cannot decide.
\<close>

section \<open>Rows\<close>

text \<open>What the board takes from outside: the provider registry and the metric catalog.\<close>

record board_services = merge_services +
  displayNameOf :: "string \<Rightarrow> string option"
  isolationOf :: "string \<Rightarrow> string option"
  metricCatalog :: "metric_def list"

text \<open>The comparison of a row with the one above: the descriptive tests, and the sandbox-level test where it decided.\<close>

record cluster_comparison =
  cx_p :: real
  cx_floor :: real
  cx_sandboxesA :: nat
  cx_sandboxesB :: nat

record comparison =
  cmp_mannWhitney :: real
  cmp_ks :: real
  cmp_floor :: real
  cmp_cluster :: "cluster_comparison option"

datatype comparison_verdict = SeparatedRows | TiedRows | Underpowered | Untested

datatype tie_basis = Statistical | IdenticalValue

record leaderboard_row =
  lr_providerId :: string
  lr_displayName :: string
  lr_value :: real
  lr_rank :: nat
  lr_interval :: median_interval
  lr_n :: nat
  lr_sandboxes :: "nat option"
  lr_stdev :: real
  lr_pVsPrevious :: "comparison option"
  lr_verdict :: "comparison_verdict option"
  lr_tiedWithAbove :: "tie_basis option"

record candidate =
  cd_samples :: "jsnum list"
  cd_replicates :: "jsnum list list option"
  cd_row :: leaderboard_row

text \<open>
  A statistic that throws, or a value that is not finite: such a value makes the comparator of the sort
  inconsistent, and the order is then the engine's choice.
\<close>

datatype board_error = RowStatistics analysis_error | UnorderedValue string jsnum

definition DEFAULT_ALPHA :: real where
  "DEFAULT_ALPHA = 5 / 100"

section \<open>Candidates\<close>

definition display_name :: "('m) board_services_scheme \<Rightarrow> string \<Rightarrow> string" where
  "display_name S provider = (case displayNameOf S provider of None \<Rightarrow> provider | Some d \<Rightarrow> d)"

text \<open>In a pooled view the seed names the sources that measured the metric for the provider.\<close>

definition contributing_ids :: "dataset \<Rightarrow> string \<Rightarrow> string \<Rightarrow> string option" where
  "contributing_ids ds provider metric =
     map_option (\<lambda>pf. join_with ''+'' (map run_id
         (filter (\<lambda>run. list_ex (\<lambda>p. pv_id p = provider \<and> list_ex (\<lambda>m. metricId m = metric) (pv_metrics p)) (run_providers run))
           (pf_sources pf))))
       (ds_pooled ds)"

definition row_seed :: "dataset \<Rightarrow> string \<Rightarrow> string \<Rightarrow> string" where
  "row_seed ds provider metric =
     (case contributing_ids ds provider metric of None \<Rightarrow> ds_runId ds | Some ids \<Rightarrow> ids) @ '':'' @ metric @ '':'' @ provider"

definition row_options :: "string \<Rightarrow> interval_options" where
  "row_options seed = \<lparr>opt_resamples = None, opt_level = None, opt_seed = Some (code_units seed)\<rparr>"

definition row_interval :: "metric_result \<Rightarrow> interval_options \<Rightarrow> analysis_error + median_interval" where
  "row_interval result options =
     (case replicates result of
        Some reps \<Rightarrow> clusterMedianInterval (map rep_samples reps) options
      | None \<Rightarrow> bootstrapMedianInterval (samples result) options)"

definition candidate_of :: "('m) board_services_scheme \<Rightarrow> dataset \<Rightarrow> string \<Rightarrow> provider_run \<Rightarrow> board_error + candidate option" where
  "candidate_of S ds metric p =
     (case find (\<lambda>m. metricId m = metric) (pv_metrics p) of
        None \<Rightarrow> Inr None
      | Some result \<Rightarrow>
          and_then (wrap_error RowStatistics (reportedMedianOf result)) (\<lambda>v.
          and_then (wrap_error RowStatistics (row_interval result (row_options (row_seed ds (pv_id p) metric)))) (\<lambda>iv.
            case v of
              Fin x \<Rightarrow>
                Inr (Some \<lparr>cd_samples = samples result, cd_replicates = map_option (map rep_samples) (replicates result),
                  cd_row = \<lparr>lr_providerId = pv_id p, lr_displayName = display_name S (pv_id p), lr_value = x, lr_rank = 0,
                    lr_interval = iv, lr_n = agg_n (aggregates_of result), lr_sandboxes = map_option length (replicates result),
                    lr_stdev = stdev (aggregates_of result), lr_pVsPrevious = None, lr_verdict = None, lr_tiedWithAbove = None\<rparr>\<rparr>)
            | _ \<Rightarrow> Inl (UnorderedValue (pv_id p) v))))"

text \<open>By value, the better first, then by provider.\<close>

definition order_candidates :: "('m) board_services_scheme \<Rightarrow> direction \<Rightarrow> candidate list \<Rightarrow> candidate list" where
  "order_candidates S d cs =
     sort_key (\<lambda>c. if d = HIB then - lr_value (cd_row c) else lr_value (cd_row c))
       (locale_sort S (\<lambda>c. lr_providerId (cd_row c)) cs)"

section \<open>Comparing a row with the one above\<close>

text \<open>The sandboxes of a candidate; without a breakdown it is one sandbox.\<close>

definition candidate_clusters :: "candidate \<Rightarrow> jsnum list list" where
  "candidate_clusters c = (case cd_replicates c of None \<Rightarrow> [cd_samples c] | Some reps \<Rightarrow> reps)"

definition identical_basis :: "candidate \<Rightarrow> candidate \<Rightarrow> tie_basis option" where
  "identical_basis previous c =
     (if lr_value (cd_row c) = lr_value (cd_row previous) then Some IdenticalValue else None)"

definition compare_rows :: "candidate \<Rightarrow> candidate \<Rightarrow> board_error + (comparison option \<times> comparison_verdict \<times> tie_basis option)" where
  "compare_rows previous c =
     (if length (cd_samples previous) < 2 \<or> length (cd_samples c) < 2
      then Inr (None, Untested, identical_basis previous c)
      else
        and_then (wrap_error RowStatistics (mannWhitneyU (cd_samples previous) (cd_samples c))) (\<lambda>mw.
        and_then (wrap_error RowStatistics (kolmogorovSmirnov (cd_samples previous) (cd_samples c))) (\<lambda>ks.
          let tests = \<lparr>cmp_mannWhitney = mw_pValue mw, cmp_ks = dt_pValue ks, cmp_floor = minAttainablePValue mw, cmp_cluster = None\<rparr>
          in if cd_replicates previous \<noteq> None \<or> cd_replicates c \<noteq> None
             then
               (let a = candidate_clusters previous; b = candidate_clusters c
                in and_then (wrap_error RowStatistics (clusterSeparation a b None)) (\<lambda>cluster.
                     let decided = Some (tests\<lparr>cmp_cluster := Some \<lparr>cx_p = cs_pValue cluster, cx_floor = cs_minAttainable cluster,
                       cx_sandboxesA = length a, cx_sandboxesB = length b\<rparr>\<rparr>)
                     in if DEFAULT_ALPHA \<le> cs_minAttainable cluster then Inr (decided, Underpowered, identical_basis previous c)
                        else if separated cluster then Inr (decided, SeparatedRows, None)
                        else Inr (decided, TiedRows, Some Statistical)))
             else if \<not> canSeparate mw DEFAULT_ALPHA then Inr (Some tests, Underpowered, identical_basis previous c)
             else if mw_pValue mw < DEFAULT_ALPHA then Inr (Some tests, SeparatedRows, None)
             else Inr (Some tests, TiedRows, Some Statistical))))"

fun rank_rows :: "nat \<Rightarrow> candidate option \<Rightarrow> candidate list \<Rightarrow> board_error + leaderboard_row list" where
  "rank_rows i previous [] = Inr []"
| "rank_rows i None (c # cs) =
     (let row = (cd_row c)\<lparr>lr_rank := 1\<rparr>
      in and_then (rank_rows (Suc i) (Some (c\<lparr>cd_row := row\<rparr>)) cs) (\<lambda>rows. Inr (row # rows)))"
| "rank_rows i (Some previous) (c # cs) =
     and_then (compare_rows previous c) (\<lambda>(tests, verdict, basis).
       let row = (cd_row c)\<lparr>lr_rank := (case basis of None \<Rightarrow> i + 1 | Some b \<Rightarrow> lr_rank (cd_row previous)),
                   lr_pVsPrevious := tests, lr_verdict := Some verdict, lr_tiedWithAbove := basis\<rparr>
       in and_then (rank_rows (Suc i) (Some (c\<lparr>cd_row := row\<rparr>)) cs) (\<lambda>rows. Inr (row # rows)))"

definition rankMetric :: "('m) board_services_scheme \<Rightarrow> dataset \<Rightarrow> metric_def \<Rightarrow> board_error + leaderboard_row list" where
  "rankMetric S ds metric =
     and_then (sequence (map (candidate_of S ds (md_id metric)) (ds_providers ds))) (\<lambda>cs.
       rank_rows 0 None (order_candidates S (md_direction metric) (List.map_filter (\<lambda>c. c) cs)))"

text \<open>The p-value and the floor of the test that decided.\<close>

definition deciding_p :: "comparison \<Rightarrow> real" where
  "deciding_p t = (case cmp_cluster t of None \<Rightarrow> cmp_mannWhitney t | Some x \<Rightarrow> cx_p x)"

definition deciding_floor :: "comparison \<Rightarrow> real" where
  "deciding_floor t = (case cmp_cluster t of None \<Rightarrow> cmp_floor t | Some x \<Rightarrow> cx_floor x)"

section \<open>Lemmas: ranks\<close>

lemma competition_bound:
  fixes f :: "nat \<Rightarrow> nat"
  assumes start: "f 0 = 1" and step: "\<And>i. Suc i < n \<Longrightarrow> f (Suc i) = i + 2 \<or> f (Suc i) = f i"
  shows "k < n \<Longrightarrow> f k \<le> Suc k"
proof (induction k)
  case (Suc k)
  then show ?case using step[of k] by auto
qed (simp add: start)

lemma competition_ranks:
  fixes f :: "nat \<Rightarrow> nat"
  assumes start: "f 0 = 1" and step: "\<And>i. Suc i < n \<Longrightarrow> f (Suc i) = i + 2 \<or> f (Suc i) = f i" and i: "i < n"
  shows "f i = Suc (card {j. j < n \<and> f j < f i})"
proof -
  have bound: "f k \<le> Suc k" if "k < n" for k
    using competition_bound[of f n k] start step that by blast
  have leader: "0 < f k \<and> f k - 1 \<le> k \<and> f (f k - 1) = f k" if "k < n" for k
    using that
  proof (induction k)
    case (Suc k)
    then show ?case using step[of k] by auto
  qed (simp add: start)
  have climb: "f j \<le> f (j + d)" if "j + d < n" for j d
    using that
  proof (induction d)
    case (Suc d)
    then show ?case using step[of "j + d"] bound[of "j + d"] by auto
  qed simp
  have "{j. j < n \<and> f j < f i} = {..<f i - 1}"
  proof (intro set_eqI iffI)
    fix j assume j: "j \<in> {j. j < n \<and> f j < f i}"
    show "j \<in> {..<f i - 1}"
    proof (rule ccontr)
      assume "j \<notin> {..<f i - 1}"
      then have "f (f i - 1) \<le> f j" using climb[of "f i - 1" "j - (f i - 1)"] j by simp
      then show False using leader[OF i] j by simp
    qed
  next
    fix j assume j: "j \<in> {..<f i - 1}"
    then have "j < n" using leader[OF i] i by simp
    then show "j \<in> {j. j < n \<and> f j < f i}" using bound[of j] j by auto
  qed
  then show ?thesis using leader[OF i] by simp
qed

text \<open>A row keeps what its candidate says of the provider; the place decides the rest.\<close>

definition row_of :: "candidate \<Rightarrow> leaderboard_row \<Rightarrow> bool" where
  "row_of c row \<longleftrightarrow> lr_providerId row = lr_providerId (cd_row c) \<and> lr_value row = lr_value (cd_row c) \<and>
     lr_sandboxes row = lr_sandboxes (cd_row c) \<and> lr_interval row = lr_interval (cd_row c) \<and> lr_n row = lr_n (cd_row c)"

definition placed_below :: "nat \<Rightarrow> candidate \<Rightarrow> leaderboard_row \<Rightarrow> candidate \<Rightarrow> leaderboard_row \<Rightarrow> bool" where
  "placed_below i previous upper c row \<longleftrightarrow>
     (\<exists>tests verdict basis. compare_rows previous c = Inr (tests, verdict, basis) \<and> lr_pVsPrevious row = tests \<and>
        lr_verdict row = Some verdict \<and> lr_tiedWithAbove row = basis \<and>
        lr_rank row = (case basis of None \<Rightarrow> i + 1 | Some b \<Rightarrow> lr_rank upper))"

lemma compare_rows_frame:
  assumes "lr_value r = lr_value (cd_row previous)"
  shows "compare_rows (previous\<lparr>cd_row := r\<rparr>) c = compare_rows previous c"
proof -
  have parts: "candidate_clusters (previous\<lparr>cd_row := r\<rparr>) = candidate_clusters previous"
    "identical_basis (previous\<lparr>cd_row := r\<rparr>) c = identical_basis previous c"
    "cd_samples (previous\<lparr>cd_row := r\<rparr>) = cd_samples previous"
    "cd_replicates (previous\<lparr>cd_row := r\<rparr>) = cd_replicates previous"
    using assms by (simp_all add: candidate_clusters_def identical_basis_def cong: option.case_cong)
  show ?thesis unfolding compare_rows_def parts ..
qed

lemma placed_below_frame:
  "lr_value r = lr_value (cd_row previous) \<Longrightarrow>
   placed_below i (previous\<lparr>cd_row := r\<rparr>) upper c row = placed_below i previous upper c row"
  by (simp add: placed_below_def compare_rows_frame)

lemma rank_rows_below:
  "rank_rows i (Some previous) cs = Inr rows \<Longrightarrow>
   list_all2 row_of cs rows \<and>
   (\<forall>k<length rows. placed_below (i + k) ((previous # cs) ! k) ((cd_row previous # rows) ! k) (cs ! k) (rows ! k))"
proof (induction cs arbitrary: i previous rows)
  case (Cons c cs)
  obtain tests verdict basis rest row where step: "compare_rows previous c = Inr (tests, verdict, basis)"
    "rank_rows (Suc i) (Some (c\<lparr>cd_row := row\<rparr>)) cs = Inr rest" "rows = row # rest"
    and row: "row = (cd_row c)\<lparr>lr_rank := (case basis of None \<Rightarrow> i + 1 | Some b \<Rightarrow> lr_rank (cd_row previous)),
       lr_pVsPrevious := tests, lr_verdict := Some verdict, lr_tiedWithAbove := basis\<rparr>"
    using Cons.prems by (auto simp: and_then_Inr_iff Let_def)
  note below = Cons.IH[OF step(2)]
  have kept: "lr_value row = lr_value (cd_row c)" "row_of c row" by (simp_all add: row row_of_def)
  have "placed_below (i + k) ((previous # c # cs) ! k) ((cd_row previous # rows) ! k) ((c # cs) ! k) (rows ! k)"
    if k: "k < length rows" for k
  proof (cases k)
    case 0
    then show ?thesis using step(1,3) row by (auto simp: placed_below_def)
  next
    case (Suc j)
    then have "placed_below (Suc i + j) ((c\<lparr>cd_row := row\<rparr> # cs) ! j) ((row # rest) ! j) (cs ! j) (rest ! j)"
      using conjunct2[OF below] k step(3) by simp
    then show ?thesis using Suc step(3) kept(1) by (cases j) (simp_all add: placed_below_frame)
  qed
  then show ?case using below step(3) kept(2) by simp
qed simp

lemma rank_rows_top:
  assumes "rank_rows 0 None cs = Inr rows"
  shows "list_all2 row_of cs rows" "rows \<noteq> [] \<Longrightarrow> lr_rank (rows ! 0) = 1 \<and> lr_verdict (rows ! 0) = lr_verdict (cd_row (cs ! 0)) \<and>
      lr_tiedWithAbove (rows ! 0) = lr_tiedWithAbove (cd_row (cs ! 0)) \<and> lr_pVsPrevious (rows ! 0) = lr_pVsPrevious (cd_row (cs ! 0))"
    "Suc k < length rows \<Longrightarrow> placed_below (Suc k) (cs ! k) (rows ! k) (cs ! Suc k) (rows ! Suc k)"
proof -
  have facts: "list_all2 row_of cs rows \<and>
      (rows \<noteq> [] \<longrightarrow> lr_rank (rows ! 0) = 1 \<and> lr_verdict (rows ! 0) = lr_verdict (cd_row (cs ! 0)) \<and>
        lr_tiedWithAbove (rows ! 0) = lr_tiedWithAbove (cd_row (cs ! 0)) \<and> lr_pVsPrevious (rows ! 0) = lr_pVsPrevious (cd_row (cs ! 0))) \<and>
      (Suc k < length rows \<longrightarrow> placed_below (Suc k) (cs ! k) (rows ! k) (cs ! Suc k) (rows ! Suc k))"
  proof (cases cs)
    case (Cons c rest)
    obtain more where more: "rank_rows (Suc 0) (Some (c\<lparr>cd_row := (cd_row c)\<lparr>lr_rank := 1\<rparr>\<rparr>)) rest = Inr more"
      "rows = (cd_row c)\<lparr>lr_rank := 1\<rparr> # more"
      using assms Cons by (auto simp: and_then_Inr_iff Let_def)
    note below = rank_rows_below[OF more(1)]
    have "placed_below (Suc k) (cs ! k) (rows ! k) (cs ! Suc k) (rows ! Suc k)" if k: "Suc k < length rows"
    proof -
      have "placed_below (Suc 0 + k) ((c\<lparr>cd_row := (cd_row c)\<lparr>lr_rank := 1\<rparr>\<rparr> # rest) ! k) (((cd_row c)\<lparr>lr_rank := 1\<rparr> # more) ! k)
          (rest ! k) (more ! k)"
        using conjunct2[OF below] k more(2) by simp
      then show ?thesis using more(2) Cons by (cases k) (simp_all add: placed_below_frame)
    qed
    then show ?thesis using conjunct1[OF below] more(2) Cons by (simp add: row_of_def)
  qed (use assms in simp)
  then show "list_all2 row_of cs rows" by simp
  show "rows \<noteq> [] \<Longrightarrow> lr_rank (rows ! 0) = 1 \<and> lr_verdict (rows ! 0) = lr_verdict (cd_row (cs ! 0)) \<and>
      lr_tiedWithAbove (rows ! 0) = lr_tiedWithAbove (cd_row (cs ! 0)) \<and> lr_pVsPrevious (rows ! 0) = lr_pVsPrevious (cd_row (cs ! 0))"
    "Suc k < length rows \<Longrightarrow> placed_below (Suc k) (cs ! k) (rows ! k) (cs ! Suc k) (rows ! Suc k)"
    using facts by simp_all
qed

section \<open>Lemmas: candidates\<close>

lemma candidate_of_found:
  "find (\<lambda>m. metricId m = metric) (pv_metrics p) = Some result \<Longrightarrow>
   candidate_of S ds metric p = Inr r \<longleftrightarrow>
   (\<exists>x iv. reportedMedianOf result = Inr (Fin x) \<and> row_interval result (row_options (row_seed ds (pv_id p) metric)) = Inr iv \<and>
     r = Some \<lparr>cd_samples = samples result, cd_replicates = map_option (map rep_samples) (replicates result),
       cd_row = \<lparr>lr_providerId = pv_id p, lr_displayName = display_name S (pv_id p), lr_value = x, lr_rank = 0,
         lr_interval = iv, lr_n = agg_n (aggregates_of result), lr_sandboxes = map_option length (replicates result),
         lr_stdev = stdev (aggregates_of result), lr_pVsPrevious = None, lr_verdict = None, lr_tiedWithAbove = None\<rparr>\<rparr>)"
proof -
  assume found: "find (\<lambda>m. metricId m = metric) (pv_metrics p) = Some result"
  show ?thesis
  proof (cases "reportedMedianOf result")
    case (Inr v)
    then show ?thesis using found by (cases v) (auto simp: candidate_of_def and_then_Inr_iff)
  qed (simp add: candidate_of_def found)
qed

lemma candidate_of_None: "candidate_of S ds metric p = Inr None \<longleftrightarrow> metric \<notin> metricId ` set (pv_metrics p)"
proof (cases "find (\<lambda>m. metricId m = metric) (pv_metrics p)")
  case None
  then have "metric \<notin> metricId ` set (pv_metrics p)" by (auto simp: find_None_iff)
  then show ?thesis using None by (simp add: candidate_of_def)
next
  case (Some result)
  then have "metric \<in> metricId ` set (pv_metrics p)" by (auto simp: find_Some_iff)
  then show ?thesis using candidate_of_found[OF Some, of S ds None] by simp
qed

lemma candidate_of_Some:
  assumes "candidate_of S ds metric p = Inr (Some c)"
  obtains result where "find (\<lambda>m. metricId m = metric) (pv_metrics p) = Some result"
    "result \<in> set (pv_metrics p)" "metricId result = metric" "lr_providerId (cd_row c) = pv_id p"
    "reportedMedianOf result = Inr (Fin (lr_value (cd_row c)))"
    "row_interval result (row_options (row_seed ds (pv_id p) metric)) = Inr (lr_interval (cd_row c))"
    "cd_samples c = samples result" "cd_replicates c = map_option (map rep_samples) (replicates result)"
    "lr_sandboxes (cd_row c) = map_option length (cd_replicates c)"
    "lr_verdict (cd_row c) = None" "lr_tiedWithAbove (cd_row c) = None" "lr_pVsPrevious (cd_row c) = None"
proof -
  obtain result where found: "find (\<lambda>m. metricId m = metric) (pv_metrics p) = Some result"
    using assms by (auto simp: candidate_of_def split: option.split_asm)
  then have "result \<in> set (pv_metrics p)" "metricId result = metric" by (auto simp: find_Some_iff)
  from found this show ?thesis
    by (rule that)
      (use candidate_of_found[OF found, of S ds "Some c"] assms in \<open>auto simp: option.map_comp comp_def\<close>)
qed

lemma map_filter_ids:
  assumes "list_all2 (\<lambda>p c. candidate_of S ds metric p = Inr c) ps found"
  shows "map (\<lambda>c. lr_providerId (cd_row c)) (List.map_filter (\<lambda>c. c) found) =
    map pv_id (filter (\<lambda>p. metric \<in> metricId ` set (pv_metrics p)) ps)"
  using assms
proof (induction rule: list_all2_induct)
  case (Cons p ps c found)
  show ?case
  proof (cases c)
    case None
    then have "metric \<notin> metricId ` set (pv_metrics p)" using Cons.hyps(1) candidate_of_None by blast
    then show ?thesis using None Cons.IH by (simp add: List.map_filter_def)
  next
    case (Some cand)
    then have "metric \<in> metricId ` set (pv_metrics p)" "lr_providerId (cd_row cand) = pv_id p"
      using Cons.hyps(1) candidate_of_None[of S ds metric p] by (auto elim: candidate_of_Some)
    then show ?thesis using Some Cons.IH by (simp add: List.map_filter_def)
  qed
qed (simp add: List.map_filter_def)

lemma rankMetric_Inr:
  assumes "rankMetric S ds metric = Inr rows"
  obtains found cs where
    "list_all2 (\<lambda>p c. candidate_of S ds (md_id metric) p = Inr c) (ds_providers ds) found"
    "cs = order_candidates S (md_direction metric) (List.map_filter (\<lambda>c. c) found)"
    "\<And>c. c \<in> set cs \<Longrightarrow> \<exists>p\<in>set (ds_providers ds). candidate_of S ds (md_id metric) p = Inr (Some c)"
    "rank_rows 0 None cs = Inr rows"
proof -
  obtain found where found: "sequence (map (candidate_of S ds (md_id metric)) (ds_providers ds)) = Inr found"
    "rank_rows 0 None (order_candidates S (md_direction metric) (List.map_filter (\<lambda>c. c) found)) = Inr rows"
    using assms by (auto simp: rankMetric_def and_then_Inr_iff)
  have each: "list_all2 (\<lambda>p c. candidate_of S ds (md_id metric) p = Inr c) (ds_providers ds) found"
    using found(1) unfolding sequence_Inr_iff list_all2_map1[symmetric] list_all2_map2[symmetric]
    by (simp add: list_all2_conv_all_nth list_eq_iff_nth_eq)
  have "\<exists>p\<in>set (ds_providers ds). candidate_of S ds (md_id metric) p = Inr (Some c)"
    if "c \<in> set (order_candidates S (md_direction metric) (List.map_filter (\<lambda>c. c) found))" for c
  proof -
    have "Some c \<in> set found" using that by (auto simp: order_candidates_def locale_sort_def List.map_filter_def)
    then obtain k where "k < length found" "found ! k = Some c" by (auto simp: in_set_conv_nth)
    then show ?thesis using each by (intro bexI[of _ "ds_providers ds ! k"]) (auto simp: list_all2_conv_all_nth)
  qed
  then show ?thesis using that[OF each refl _ found(2)] by blast
qed

lemma row_of_nth: "list_all2 row_of cs rows \<Longrightarrow> k < length rows \<Longrightarrow> row_of (cs ! k) (rows ! k)"
  by (simp add: list_all2_conv_all_nth)

lemma ranked_ids:
  assumes "rankMetric S ds metric = Inr rows"
  shows "mset (map lr_providerId rows) =
    mset (map pv_id (filter (\<lambda>p. md_id metric \<in> metricId ` set (pv_metrics p)) (ds_providers ds)))"
proof -
  obtain found cs where f: "list_all2 (\<lambda>p c. candidate_of S ds (md_id metric) p = Inr c) (ds_providers ds) found"
    "cs = order_candidates S (md_direction metric) (List.map_filter (\<lambda>c. c) found)"
    "rank_rows 0 None cs = Inr rows" using rankMetric_Inr[OF assms] by metis
  have "map lr_providerId rows = map (\<lambda>c. lr_providerId (cd_row c)) cs"
    using rank_rows_top(1)[OF f(3)] by (auto simp: list_all2_conv_all_nth row_of_def intro!: nth_equalityI)
  then have "mset (map lr_providerId rows) = mset (map (\<lambda>c. lr_providerId (cd_row c)) (List.map_filter (\<lambda>c. c) found))"
    unfolding f(2) by (simp add: order_candidates_def locale_sort_def)
  then show ?thesis using map_filter_ids[OF f(1)] by simp
qed

section \<open>Lemmas: verdicts\<close>

lemma clusterSeparation_default:
  "clusterSeparation a b None = Inr v \<Longrightarrow> separated v \<longleftrightarrow> cs_pValue v < DEFAULT_ALPHA"
  by (auto simp: clusterSeparation_def and_then_Inr_iff coverageLevel_def DEFAULT_ALPHA_def)

lemma identical_basis_simps [simp]:
  "identical_basis previous c \<noteq> Some Statistical"
  "identical_basis previous c = Some IdenticalValue \<longleftrightarrow> lr_value (cd_row c) = lr_value (cd_row previous)"
  by (simp_all add: identical_basis_def)

text \<open>What each verdict of a comparison means.\<close>

lemma compare_rows_verdict:
  assumes "compare_rows previous c = Inr (tests, verdict, basis)"
  shows "basis = Some Statistical \<longleftrightarrow> verdict = TiedRows"
    "basis = Some IdenticalValue \<Longrightarrow> lr_value (cd_row c) = lr_value (cd_row previous) \<and> verdict \<in> {Underpowered, Untested}"
    "verdict \<in> {SeparatedRows, TiedRows} \<Longrightarrow>
       \<exists>t. tests = Some t \<and> deciding_floor t < DEFAULT_ALPHA \<and> (verdict = SeparatedRows \<longleftrightarrow> deciding_p t < DEFAULT_ALPHA)"
proof -
  have facts: "(basis = Some Statistical \<longleftrightarrow> verdict = TiedRows) \<and>
      (basis = Some IdenticalValue \<longrightarrow> lr_value (cd_row c) = lr_value (cd_row previous) \<and> verdict \<in> {Underpowered, Untested}) \<and>
      (verdict \<in> {SeparatedRows, TiedRows} \<longrightarrow>
         (\<exists>t. tests = Some t \<and> deciding_floor t < DEFAULT_ALPHA \<and> (verdict = SeparatedRows \<longleftrightarrow> deciding_p t < DEFAULT_ALPHA)))"
    using assms
    by (auto simp: compare_rows_def and_then_Inr_iff Let_def deciding_p_def deciding_floor_def canSeparate_def
        clusterSeparation_default split: if_split_asm)
  then show "basis = Some Statistical \<longleftrightarrow> verdict = TiedRows"
    "basis = Some IdenticalValue \<Longrightarrow> lr_value (cd_row c) = lr_value (cd_row previous) \<and> verdict \<in> {Underpowered, Untested}"
    "verdict \<in> {SeparatedRows, TiedRows} \<Longrightarrow>
       \<exists>t. tests = Some t \<and> deciding_floor t < DEFAULT_ALPHA \<and> (verdict = SeparatedRows \<longleftrightarrow> deciding_p t < DEFAULT_ALPHA)"
    by blast+
qed

text \<open>
  The test between two results, spelled out: the descriptive tests compare the pooled trials; where either
  has a breakdown by sandbox, the test of the sandboxes' medians is run beside them, and it decides.
\<close>

definition result_clusters :: "metric_result \<Rightarrow> jsnum list list" where
  "result_clusters m = (case replicates m of None \<Rightarrow> [samples m] | Some reps \<Rightarrow> map rep_samples reps)"

definition decided_by :: "metric_result \<Rightarrow> metric_result \<Rightarrow> comparison \<Rightarrow> bool" where
  "decided_by a b t \<longleftrightarrow>
     (\<exists>mw ks. mannWhitneyU (samples a) (samples b) = Inr mw \<and> kolmogorovSmirnov (samples a) (samples b) = Inr ks \<and>
        cmp_mannWhitney t = mw_pValue mw \<and> cmp_floor t = minAttainablePValue mw \<and> cmp_ks t = dt_pValue ks) \<and>
     (if replicates a = None \<and> replicates b = None then cmp_cluster t = None
      else \<exists>v. clusterSeparation (result_clusters a) (result_clusters b) None = Inr v \<and>
        cmp_cluster t = Some \<lparr>cx_p = cs_pValue v, cx_floor = cs_minAttainable v,
          cx_sandboxesA = length (result_clusters a), cx_sandboxesB = length (result_clusters b)\<rparr>)"

text \<open>The verdict of the deciding test: its floor says whether it could separate at all.\<close>

definition deciding_verdict :: "comparison \<Rightarrow> comparison_verdict" where
  "deciding_verdict t =
     (if DEFAULT_ALPHA \<le> deciding_floor t then Underpowered
      else if deciding_p t < DEFAULT_ALPHA then SeparatedRows else TiedRows)"

lemma compare_rows_decided:
  assumes "compare_rows previous c = Inr (tests, verdict, basis)"
    and "cd_samples previous = samples a" "cd_replicates previous = map_option (map rep_samples) (replicates a)"
    and "cd_samples c = samples b" "cd_replicates c = map_option (map rep_samples) (replicates b)"
  shows "if length (samples a) < 2 \<or> length (samples b) < 2 then verdict = Untested \<and> tests = None
    else \<exists>t. tests = Some t \<and> decided_by a b t \<and> verdict = deciding_verdict t"
proof -
  have clusters: "candidate_clusters previous = result_clusters a" "candidate_clusters c = result_clusters b"
    using assms(2-5) by (auto simp: candidate_clusters_def result_clusters_def split: option.splits)
  show ?thesis
  proof (cases "length (samples a) < 2 \<or> length (samples b) < 2")
    case True
    then show ?thesis using assms by (auto simp: compare_rows_def)
  next
    case False
    then have long: "\<not> (length (cd_samples previous) < 2 \<or> length (cd_samples c) < 2)" using assms by simp
    have none: "cd_replicates previous = None \<longleftrightarrow> replicates a = None" "cd_replicates c = None \<longleftrightarrow> replicates b = None"
      using assms by simp_all
    obtain mw ks where tests: "mannWhitneyU (samples a) (samples b) = Inr mw" "kolmogorovSmirnov (samples a) (samples b) = Inr ks"
      using assms long by (auto simp: compare_rows_def and_then_Inr_iff)
    show ?thesis
    proof (cases "replicates a = None \<and> replicates b = None")
      case True
      let ?t = "\<lparr>cmp_mannWhitney = mw_pValue mw, cmp_ks = dt_pValue ks, cmp_floor = minAttainablePValue mw, cmp_cluster = None\<rparr>"
      have "tests = Some ?t \<and> verdict = deciding_verdict ?t"
        using assms(1) long tests none assms(2,4) True unfolding compare_rows_def
        by (auto simp: Let_def deciding_verdict_def deciding_p_def deciding_floor_def canSeparate_def split: if_split_asm)
      moreover have "decided_by a b ?t" using tests True by (simp add: decided_by_def)
      ultimately show ?thesis using False by simp
    next
      case replicated: False
      then obtain v where v: "clusterSeparation (result_clusters a) (result_clusters b) None = Inr v"
        using assms(1) long tests none assms(2,4) unfolding compare_rows_def clusters by (auto simp: and_then_Inr_iff Let_def)
      let ?t = "\<lparr>cmp_mannWhitney = mw_pValue mw, cmp_ks = dt_pValue ks, cmp_floor = minAttainablePValue mw,
          cmp_cluster = Some \<lparr>cx_p = cs_pValue v, cx_floor = cs_minAttainable v,
            cx_sandboxesA = length (result_clusters a), cx_sandboxesB = length (result_clusters b)\<rparr>\<rparr>"
      have "tests = Some ?t \<and> verdict = deciding_verdict ?t"
        using assms(1) long tests none assms(2,4) replicated v clusterSeparation_default[OF v] unfolding compare_rows_def clusters
        by (auto simp: Let_def deciding_verdict_def deciding_p_def deciding_floor_def split: if_split_asm)
      moreover have "decided_by a b ?t" using tests replicated v by (simp add: decided_by_def)
      ultimately show ?thesis using False by simp
    qed
  qed
qed

lemma compare_rows_identical:
  assumes "compare_rows previous c = Inr (tests, verdict, basis)"
  shows "basis = Some IdenticalValue \<longleftrightarrow>
    lr_value (cd_row c) = lr_value (cd_row previous) \<and> verdict \<in> {Underpowered, Untested}"
  using assms by (auto simp: compare_rows_def and_then_Inr_iff Let_def split: if_split_asm)

section \<open>Properties of a ranking\<close>

text \<open>
  Property C23. A metric's table has one row for every provider that produced the metric and no other,
  ordered by the metric's direction, and each row shows the reported median of that provider's result
  with the interval and the sandboxes of the same result.
\<close>

theorem ranked_rows_are_measured:
  assumes "rankMetric S ds metric = Inr rows"
  shows "mset (map lr_providerId rows) =
      mset (map pv_id (filter (\<lambda>p. md_id metric \<in> metricId ` set (pv_metrics p)) (ds_providers ds))) \<and>
    sorted_wrt (\<lambda>a b. if md_direction metric = HIB then lr_value b \<le> lr_value a else lr_value a \<le> lr_value b) rows \<and>
    (\<forall>row\<in>set rows. \<exists>p\<in>set (ds_providers ds). \<exists>m\<in>set (pv_metrics p). pv_id p = lr_providerId row \<and> metricId m = md_id metric \<and>
       reportedMedianOf m = Inr (Fin (lr_value row)) \<and>
       row_interval m (row_options (row_seed ds (pv_id p) (md_id metric))) = Inr (lr_interval row) \<and>
       lr_sandboxes row = map_option length (replicates m))"
proof -
  obtain found cs where f: "list_all2 (\<lambda>p c. candidate_of S ds (md_id metric) p = Inr c) (ds_providers ds) found"
    "cs = order_candidates S (md_direction metric) (List.map_filter (\<lambda>c. c) found)"
    "\<And>c. c \<in> set cs \<Longrightarrow> \<exists>p\<in>set (ds_providers ds). candidate_of S ds (md_id metric) p = Inr (Some c)"
    "rank_rows 0 None cs = Inr rows" using rankMetric_Inr[OF assms] by metis
  note rows = rank_rows_top(1)[OF f(4)]
  have vals: "map lr_value rows = map (\<lambda>c. lr_value (cd_row c)) cs"
    using rows by (auto simp: list_all2_conv_all_nth row_of_def intro!: nth_equalityI)
  have "sorted_wrt (\<lambda>v w. if md_direction metric = HIB then w \<le> v else v \<le> w) (map lr_value rows)"
    unfolding vals f(2) order_candidates_def
    using sorted_sort_key[of "\<lambda>c. if md_direction metric = HIB then - lr_value (cd_row c) else lr_value (cd_row c)"
        "locale_sort S (\<lambda>c. lr_providerId (cd_row c)) (List.map_filter (\<lambda>c. c) found)"]
    by (cases "md_direction metric") (simp_all add: sorted_wrt_map)
  moreover have "\<exists>p\<in>set (ds_providers ds). \<exists>m\<in>set (pv_metrics p). pv_id p = lr_providerId row \<and> metricId m = md_id metric \<and>
      reportedMedianOf m = Inr (Fin (lr_value row)) \<and>
      row_interval m (row_options (row_seed ds (pv_id p) (md_id metric))) = Inr (lr_interval row) \<and>
      lr_sandboxes row = map_option length (replicates m)"
    if row: "row \<in> set rows" for row
  proof -
    obtain k where k: "k < length rows" "row = rows ! k" using row by (auto simp: in_set_conv_nth)
    then have "cs ! k \<in> set cs" using list_all2_lengthD[OF rows] by simp
    then obtain c where c: "c \<in> set cs" "row_of c row" using row_of_nth[OF rows k(1)] k(2) by blast
    then obtain p where p: "p \<in> set (ds_providers ds)" "candidate_of S ds (md_id metric) p = Inr (Some c)" using f(3) by blast
    show ?thesis using p(1) c(2) by (intro bexI[of _ p]) (rule candidate_of_Some[OF p(2)], auto simp: row_of_def option.map_comp comp_def)
  qed
  ultimately show ?thesis using ranked_ids[OF assms] by (simp add: sorted_wrt_map)
qed

text \<open>The result a row stands for: the first of the metric that its provider reported.\<close>

definition row_result :: "dataset \<Rightarrow> metric_def \<Rightarrow> leaderboard_row \<Rightarrow> metric_result \<Rightarrow> bool" where
  "row_result ds metric row m \<longleftrightarrow>
     (\<exists>p\<in>set (ds_providers ds). pv_id p = lr_providerId row \<and> find (\<lambda>m. metricId m = md_id metric) (pv_metrics p) = Some m)"

lemma ranked_results:
  assumes "rankMetric S ds metric = Inr rows"
  obtains results where "list_all2 (row_result ds metric) rows results"
    "\<forall>k. Suc k < length rows \<longrightarrow> (\<exists>tests verdict basis.
       lr_pVsPrevious (rows ! Suc k) = tests \<and> lr_verdict (rows ! Suc k) = Some verdict \<and> lr_tiedWithAbove (rows ! Suc k) = basis \<and>
       lr_rank (rows ! Suc k) = (case basis of None \<Rightarrow> k + 2 | Some b \<Rightarrow> lr_rank (rows ! k)) \<and>
       (basis = Some Statistical \<longleftrightarrow> verdict = TiedRows) \<and>
       (basis = Some IdenticalValue \<longleftrightarrow> lr_value (rows ! Suc k) = lr_value (rows ! k) \<and> verdict \<in> {Underpowered, Untested}) \<and>
       (if length (samples (results ! k)) < 2 \<or> length (samples (results ! Suc k)) < 2 then verdict = Untested \<and> tests = None
        else \<exists>t. tests = Some t \<and> decided_by (results ! k) (results ! Suc k) t \<and>
          verdict = deciding_verdict t))"
    "rows \<noteq> [] \<longrightarrow> lr_rank (rows ! 0) = 1 \<and> lr_verdict (rows ! 0) = None \<and> lr_tiedWithAbove (rows ! 0) = None \<and>
       lr_pVsPrevious (rows ! 0) = None"
proof -
  obtain cs where cs: "\<And>c. c \<in> set cs \<Longrightarrow> \<exists>p\<in>set (ds_providers ds). candidate_of S ds (md_id metric) p = Inr (Some c)"
    "rank_rows 0 None cs = Inr rows" using rankMetric_Inr[OF assms] by metis
  note rows = rank_rows_top(1)[OF cs(2)] and first = rank_rows_top(2)[OF cs(2)] and below = rank_rows_top(3)[OF cs(2)]
  have len: "length cs = length rows" by (rule list_all2_lengthD[OF rows])
  have "\<exists>m. (\<exists>p\<in>set (ds_providers ds). pv_id p = lr_providerId (cd_row c) \<and>
        find (\<lambda>m. metricId m = md_id metric) (pv_metrics p) = Some m) \<and>
      cd_samples c = samples m \<and> cd_replicates c = map_option (map rep_samples) (replicates m)" if c: "c \<in> set cs" for c
  proof -
    obtain p where p: "p \<in> set (ds_providers ds)" "candidate_of S ds (md_id metric) p = Inr (Some c)" using cs(1)[OF c] by blast
    obtain m where "find (\<lambda>m. metricId m = md_id metric) (pv_metrics p) = Some m" "lr_providerId (cd_row c) = pv_id p"
      "cd_samples c = samples m" "cd_replicates c = map_option (map rep_samples) (replicates m)"
      by (rule candidate_of_Some[OF p(2)])
    then show ?thesis using p(1) by (intro exI[of _ m]) auto
  qed
  then obtain f where f: "\<And>c. c \<in> set cs \<Longrightarrow> (\<exists>p\<in>set (ds_providers ds). pv_id p = lr_providerId (cd_row c) \<and>
        find (\<lambda>m. metricId m = md_id metric) (pv_metrics p) = Some (f c)) \<and>
      cd_samples c = samples (f c) \<and> cd_replicates c = map_option (map rep_samples) (replicates (f c))" by metis
  have results: "list_all2 (row_result ds metric) rows (map f cs)"
    using f rows len by (fastforce simp: list_all2_conv_all_nth row_result_def row_of_def)
  have step: "\<exists>tests verdict basis.
       lr_pVsPrevious (rows ! Suc k) = tests \<and> lr_verdict (rows ! Suc k) = Some verdict \<and> lr_tiedWithAbove (rows ! Suc k) = basis \<and>
       lr_rank (rows ! Suc k) = (case basis of None \<Rightarrow> k + 2 | Some b \<Rightarrow> lr_rank (rows ! k)) \<and>
       (basis = Some Statistical \<longleftrightarrow> verdict = TiedRows) \<and>
       (basis = Some IdenticalValue \<longleftrightarrow> lr_value (rows ! Suc k) = lr_value (rows ! k) \<and> verdict \<in> {Underpowered, Untested}) \<and>
       (if length (samples (map f cs ! k)) < 2 \<or> length (samples (map f cs ! Suc k)) < 2 then verdict = Untested \<and> tests = None
        else \<exists>t. tests = Some t \<and> decided_by (map f cs ! k) (map f cs ! Suc k) t \<and>
          verdict = deciding_verdict t)" if k: "Suc k < length rows" for k
  proof -
    have same: "lr_value (rows ! k) = lr_value (cd_row (cs ! k))" "lr_value (rows ! Suc k) = lr_value (cd_row (cs ! Suc k))"
      using row_of_nth[OF rows] k by (simp_all add: row_of_def)
    have at: "map f cs ! k = f (cs ! k)" "map f cs ! Suc k = f (cs ! Suc k)" "cs ! k \<in> set cs" "cs ! Suc k \<in> set cs"
      using k len by simp_all
    obtain tests verdict basis where c: "compare_rows (cs ! k) (cs ! Suc k) = Inr (tests, verdict, basis)"
      "lr_pVsPrevious (rows ! Suc k) = tests" "lr_verdict (rows ! Suc k) = Some verdict" "lr_tiedWithAbove (rows ! Suc k) = basis"
      "lr_rank (rows ! Suc k) = (case basis of None \<Rightarrow> Suc k + 1 | Some b \<Rightarrow> lr_rank (rows ! k))"
      using below[OF k] by (auto simp: placed_below_def)
    have rank: "lr_rank (rows ! Suc k) = (case basis of None \<Rightarrow> k + 2 | Some b \<Rightarrow> lr_rank (rows ! k))"
      using c(5) by (cases basis) simp_all
    note decided = compare_rows_decided[OF c(1), of "f (cs ! k)" "f (cs ! Suc k)"]
    show ?thesis
      using c(2-4) rank compare_rows_verdict(1)[OF c(1)] compare_rows_identical[OF c(1)] same decided f[OF at(3)] f[OF at(4)]
      unfolding at(1,2) by (intro exI[of _ tests] exI[of _ verdict] exI[of _ basis]) simp
  qed
  have top: "lr_rank (rows ! 0) = 1 \<and> lr_verdict (rows ! 0) = None \<and> lr_tiedWithAbove (rows ! 0) = None \<and>
       lr_pVsPrevious (rows ! 0) = None" if "rows \<noteq> []"
  proof -
    have "\<exists>p. candidate_of S ds (md_id metric) p = Inr (Some (cs ! 0))" using cs(1)[of "cs ! 0"] that len by auto
    then show ?thesis using first[OF that] by (auto elim: candidate_of_Some)
  qed
  show ?thesis by (rule that[OF results]) (use step top in blast)+
qed

text \<open>
  Property C24. Ranks are competition ranks earned by verdicts. A row's rank is one more than the number of
  rows ranked better, and it shares the rank above exactly when it states a reason: \<open>statistical\<close>
  exactly for a tie of the test, \<open>identical value\<close> exactly when the values agree and nothing was decided.
  The verdict is \<open>untested\<close> exactly when a side has a single trial; otherwise the tests of the two
  neighbouring results are reported, the sandbox-level test decides as soon as either has a breakdown by
  sandbox (the pooled trials decide otherwise), and the verdict is \<open>underpowered\<close> when that test's floor
  does not go below the threshold, else \<open>separated\<close> when its p-value does, else \<open>tied\<close>.
\<close>

theorem ranks_follow_verdicts:
  assumes "rankMetric S ds metric = Inr rows"
  shows "\<exists>results. list_all2 (row_result ds metric) rows results \<and>
    (\<forall>i<length rows. lr_rank (rows ! i) = Suc (card {j. j < length rows \<and> lr_rank (rows ! j) < lr_rank (rows ! i)})) \<and>
    (rows \<noteq> [] \<longrightarrow> lr_verdict (rows ! 0) = None \<and> lr_tiedWithAbove (rows ! 0) = None \<and> lr_pVsPrevious (rows ! 0) = None) \<and>
    (\<forall>k. Suc k < length rows \<longrightarrow>
      (let row = rows ! Suc k; a = results ! k; b = results ! Suc k in
       (lr_rank row = lr_rank (rows ! k) \<longleftrightarrow> lr_tiedWithAbove row \<noteq> None) \<and>
       (lr_tiedWithAbove row = Some Statistical \<longleftrightarrow> lr_verdict row = Some TiedRows) \<and>
       (lr_tiedWithAbove row = Some IdenticalValue \<longleftrightarrow>
          lr_value row = lr_value (rows ! k) \<and> lr_verdict row \<in> {Some Underpowered, Some Untested}) \<and>
       (if length (samples a) < 2 \<or> length (samples b) < 2 then lr_verdict row = Some Untested \<and> lr_pVsPrevious row = None
        else \<exists>t. lr_pVsPrevious row = Some t \<and> decided_by a b t \<and>
          lr_verdict row = Some (deciding_verdict t))))"
proof -
  obtain results where results: "list_all2 (row_result ds metric) rows results"
    and below: "\<forall>k. Suc k < length rows \<longrightarrow> (\<exists>tests verdict basis.
       lr_pVsPrevious (rows ! Suc k) = tests \<and> lr_verdict (rows ! Suc k) = Some verdict \<and> lr_tiedWithAbove (rows ! Suc k) = basis \<and>
       lr_rank (rows ! Suc k) = (case basis of None \<Rightarrow> k + 2 | Some b \<Rightarrow> lr_rank (rows ! k)) \<and>
       (basis = Some Statistical \<longleftrightarrow> verdict = TiedRows) \<and>
       (basis = Some IdenticalValue \<longleftrightarrow> lr_value (rows ! Suc k) = lr_value (rows ! k) \<and> verdict \<in> {Underpowered, Untested}) \<and>
       (if length (samples (results ! k)) < 2 \<or> length (samples (results ! Suc k)) < 2 then verdict = Untested \<and> tests = None
        else \<exists>t. tests = Some t \<and> decided_by (results ! k) (results ! Suc k) t \<and>
          verdict = deciding_verdict t))"
    and first: "rows \<noteq> [] \<longrightarrow> lr_rank (rows ! 0) = 1 \<and> lr_verdict (rows ! 0) = None \<and> lr_tiedWithAbove (rows ! 0) = None \<and>
       lr_pVsPrevious (rows ! 0) = None"
    by (rule ranked_results[OF assms])
  show ?thesis
  proof (cases "rows = []")
    case False
    have step: "lr_rank (rows ! Suc k) = k + 2 \<or> lr_rank (rows ! Suc k) = lr_rank (rows ! k)" if "Suc k < length rows" for k
      using below[rule_format, OF that] by (auto split: option.split_asm)
    note top = conjunct1[OF first[rule_format, OF False]]
    have rank: "lr_rank (rows ! i) = Suc (card {j. j < length rows \<and> lr_rank (rows ! j) < lr_rank (rows ! i)})" if "i < length rows" for i
      by (rule competition_ranks[of "\<lambda>k. lr_rank (rows ! k)", OF top step that])
    have bound: "lr_rank (rows ! k) \<le> Suc k" if "k < length rows" for k
      by (rule competition_bound[of "\<lambda>k. lr_rank (rows ! k)", OF top step that])
    show ?thesis
    proof (rule exI[of _ results], intro conjI allI impI results)
      fix k assume k: "Suc k < length rows"
      then have "lr_rank (rows ! k) \<le> Suc k" using bound by simp
      then show "let row = rows ! Suc k; a = results ! k; b = results ! Suc k in
       (lr_rank row = lr_rank (rows ! k) \<longleftrightarrow> lr_tiedWithAbove row \<noteq> None) \<and>
       (lr_tiedWithAbove row = Some Statistical \<longleftrightarrow> lr_verdict row = Some TiedRows) \<and>
       (lr_tiedWithAbove row = Some IdenticalValue \<longleftrightarrow>
          lr_value row = lr_value (rows ! k) \<and> lr_verdict row \<in> {Some Underpowered, Some Untested}) \<and>
       (if length (samples a) < 2 \<or> length (samples b) < 2 then lr_verdict row = Some Untested \<and> lr_pVsPrevious row = None
        else \<exists>t. lr_pVsPrevious row = Some t \<and> decided_by a b t \<and>
          lr_verdict row = Some (deciding_verdict t))"
        using below[rule_format, OF k] unfolding Let_def by (auto split: option.splits)
    qed (use rank first[rule_format, OF False] in auto)
  qed (use results in auto)
qed

section \<open>Lemmas: what the tests accept\<close>

lemma assertReplicates_Inr:
  assumes "assertReplicates fn reps = Inr xs"
  shows "valid_reps xs \<and> reps = map (map Fin) xs"
proof -
  have seq: "map (assertFiniteSamples fn) reps = map Inr xs" and ne: "reps \<noteq> []"
    using assms by (auto simp: assertReplicates_def sequence_Inr_iff split: if_split_asm)
  then have len: "length reps = length xs" by (metis length_map)
  have each: "xs ! i \<noteq> [] \<and> reps ! i = map Fin (xs ! i)" if "i < length xs" for i
  proof -
    have "map (assertFiniteSamples fn) reps ! i = map Inr xs ! i" by (simp only: seq)
    then show ?thesis using that len by (simp add: assertFiniteSamples_Inr_iff)
  qed
  then have "reps = map (map Fin) xs" using len by (auto intro: nth_equalityI)
  moreover have "valid_reps xs" using each ne len by (auto simp: valid_reps_def in_set_conv_nth)
  ultimately show ?thesis by blast
qed

lemma clusterSeparation_inputs:
  assumes "clusterSeparation a b None = Inr v"
  obtains xa xb where "valid_reps xa" "a = map (map Fin) xa" "valid_reps xb" "b = map (map Fin) xb"
proof -
  obtain xa xb where "assertReplicates ''clusterSeparation'' a = Inr xa" "assertReplicates ''clusterSeparation'' b = Inr xb"
    using assms by (auto simp: clusterSeparation_def and_then_Inr_iff)
  then show ?thesis using that assertReplicates_Inr by blast
qed

text \<open>Equal counts of fewer than four sandboxes leave the floor above the threshold.\<close>

lemma few_clusters_floor:
  assumes "clusterSeparation a b None = Inr v" "length a = length b" "length a < 4"
  shows "DEFAULT_ALPHA \<le> cs_minAttainable v"
proof -
  obtain xa xb where x: "valid_reps xa" "a = map (map Fin) xa" "valid_reps xb" "b = map (map Fin) xb"
    by (rule clusterSeparation_inputs[OF assms(1)])
  have ne: "map median xa \<noteq> []" "map median xb \<noteq> []" using x by (simp_all add: valid_reps_def)
  have len: "length (map median xb) = length (map median xa)" "length (map median xa) + length (map median xb) \<le> 50"
    "length (map median xa) < 4" using x(2,4) assms(2,3) by simp_all
  obtain t where t: "mannWhitneyU (map Fin (map median xa)) (map Fin (map median xb)) = Inr t"
    using mannWhitneyU_answers[OF ne] by blast
  have "coverageLevel ''clusterSeparation'' None = Inr (95 / 100)" by (simp add: coverageLevel_def)
  from clusterSeparation_Fin[OF x(1,3) this t] have "cs_minAttainable v = minAttainablePValue t"
    using assms(1) unfolding x(2,4) by auto
  then show ?thesis using equal_sides_not_significant(2)[OF ne(1) len(1,2) t len(3)] by (simp add: DEFAULT_ALPHA_def)
qed

lemma compare_few_clusters:
  assumes "compare_rows previous c = Inr (tests, verdict, basis)" "cd_replicates previous = Some a" "cd_replicates c = Some b"
    "length a = length b" "length a < 4"
  shows "verdict \<in> {Underpowered, Untested}"
  using assms few_clusters_floor
  by (fastforce simp: compare_rows_def and_then_Inr_iff Let_def candidate_clusters_def split: if_split_asm)

text \<open>Candidates whose samples the tests accept: finite, and at least one in every sandbox.\<close>

definition testable :: "candidate \<Rightarrow> bool" where
  "testable c \<longleftrightarrow> (\<exists>xs. xs \<noteq> [] \<and> cd_samples c = map Fin xs) \<and>
     (case cd_replicates c of None \<Rightarrow> True | Some reps \<Rightarrow> \<exists>vs. valid_reps vs \<and> reps = map (map Fin) vs)"

lemma testable_clusters: "testable c \<Longrightarrow> \<exists>vs. valid_reps vs \<and> candidate_clusters c = map (map Fin) vs"
proof (cases "cd_replicates c")
  case None
  assume "testable c"
  then obtain xs where "xs \<noteq> []" "cd_samples c = map Fin xs" by (auto simp: testable_def)
  then show ?thesis using None by (intro exI[of _ "[xs]"]) (simp add: candidate_clusters_def valid_reps_def)
qed (simp add: testable_def candidate_clusters_def)

lemma compare_rows_total:
  assumes "testable previous" "testable c"
  shows "\<exists>r. compare_rows previous c = Inr r"
proof -
  obtain xs ys where xs: "xs \<noteq> []" "cd_samples previous = map Fin xs" "ys \<noteq> []" "cd_samples c = map Fin ys"
    using assms by (auto simp: testable_def)
  obtain va vb where v: "valid_reps va" "candidate_clusters previous = map (map Fin) va" "valid_reps vb" "candidate_clusters c = map (map Fin) vb"
    using testable_clusters[OF assms(1)] testable_clusters[OF assms(2)] by blast
  obtain mw where "mannWhitneyU (map Fin xs) (map Fin ys) = Inr mw" using mannWhitneyU_answers[OF xs(1,3)] by blast
  moreover obtain ks where "kolmogorovSmirnov (map Fin xs) (map Fin ys) = Inr ks"
    using xs by (auto simp: kolmogorovSmirnov_def Let_def)
  moreover obtain cl where "clusterSeparation (map (map Fin) va) (map (map Fin) vb) None = Inr cl"
    using clusterSeparation_answers[OF v(1,3), of None "95 / 100"] by (auto simp: coverageLevel_def)
  ultimately show ?thesis using xs v by (simp add: compare_rows_def Let_def)
qed

lemma testable_row [simp]: "testable (c\<lparr>cd_row := r\<rparr>) \<longleftrightarrow> testable c"
  by (simp add: testable_def)

lemma rank_rows_total:
  "\<forall>c\<in>set cs. testable c \<Longrightarrow> pred_option testable previous \<Longrightarrow> \<exists>rows. rank_rows i previous cs = Inr rows"
proof (induction cs arbitrary: i previous)
  case (Cons c cs)
  have rest: "\<exists>rows. rank_rows (Suc i) (Some (c\<lparr>cd_row := r\<rparr>)) cs = Inr rows" for r
    by (rule Cons.IH) (use Cons.prems in simp_all)
  show ?case
  proof (cases previous)
    case None
    then show ?thesis using rest[of "(cd_row c)\<lparr>lr_rank := 1\<rparr>"] by auto
  next
    case (Some p)
    then obtain tests verdict basis where "compare_rows p c = Inr (tests, verdict, basis)"
      using compare_rows_total[of p c] Cons.prems by auto
    then show ?thesis
      using Some rest[of "(cd_row c)\<lparr>lr_rank := (case basis of None \<Rightarrow> i + 1 | Some b \<Rightarrow> lr_rank (cd_row p)),
        lr_pVsPrevious := tests, lr_verdict := Some verdict, lr_tiedWithAbove := basis\<rparr>"] by (auto simp: Let_def)
  qed
qed simp

lemma finite_samples: "list_all is_finite xs \<Longrightarrow> \<exists>vs. xs = map Fin vs"
proof (induction xs)
  case (Cons x xs)
  then obtain vs v where "xs = map Fin vs" "x = Fin v" by (cases x) auto
  then show ?case by (metis list.simps(9))
qed simp

lemma finite_replicates:
  "\<forall>r\<in>set reps. rep_samples r \<noteq> [] \<and> list_all is_finite (rep_samples r) \<Longrightarrow> reps \<noteq> [] \<Longrightarrow>
   \<exists>vs. valid_reps vs \<and> map rep_samples reps = map (map Fin) vs"
proof (induction reps)
  case (Cons r reps)
  obtain v where v: "rep_samples r = map Fin v" "v \<noteq> []" using Cons.prems finite_samples[of "rep_samples r"] by auto
  show ?case
  proof (cases reps)
    case Nil
    then show ?thesis using v by (intro exI[of _ "[v]"]) (simp add: valid_reps_def)
  next
    case (Cons r' reps')
    then obtain vs where "valid_reps vs" "map rep_samples reps = map (map Fin) vs" using Cons.IH Cons.prems by auto
    then show ?thesis using v by (intro exI[of _ "v # vs"]) (simp add: valid_reps_def)
  qed
qed simp

lemma row_options_valid: "valid_options (row_options seed)"
  by (simp add: valid_options_def row_options_def coverageLevel_def resampleCount_def)

lemma candidate_of_total:
  assumes "\<And>m. m \<in> set (pv_metrics p) \<Longrightarrow> metric_narrow m = Inr ()"
  shows "\<exists>c. candidate_of S ds metric p = Inr c \<and> pred_option testable c"
proof (cases "find (\<lambda>m. metricId m = metric) (pv_metrics p)")
  case (Some result)
  then have mem: "result \<in> set (pv_metrics p)" by (auto simp: find_Some_iff)
  note narrow = assms[OF mem, unfolded metric_narrow_Inr]
  obtain xs where xs: "samples result = map Fin xs" "xs \<noteq> []" using narrow finite_samples[of "samples result"] by auto
  let ?options = "row_options (row_seed ds (pv_id p) metric)"
  have "\<exists>x iv. reportedMedianOf result = Inr (Fin x) \<and> row_interval result ?options = Inr iv \<and>
      (case replicates result of None \<Rightarrow> True | Some reps \<Rightarrow> \<exists>vs. valid_reps vs \<and> map rep_samples reps = map (map Fin) vs)"
  proof (cases "replicates result")
    case None
    obtain x where "p50 (aggregates_of result) = Fin x" using narrow by (cases "p50 (aggregates_of result)") (auto simp: aggregatesSchema_def)
    then show ?thesis
      using None xs bootstrapMedianInterval_facts(1)[of "samples result" ?options] row_options_valid
      by (auto simp: reportedMedianOf_def row_interval_def)
  next
    case (Some reps)
    then have "\<forall>r\<in>set reps. rep_samples r \<noteq> [] \<and> list_all is_finite (rep_samples r)" "reps \<noteq> []" using narrow by auto
    then obtain vs where vs: "valid_reps vs" "map rep_samples reps = map (map Fin) vs" using finite_replicates by blast
    obtain iv where "clusterMedianInterval (map (map Fin) vs) ?options = Inr iv"
      using clusterMedianInterval_medians[OF vs(1) row_options_valid] vs(1)
        bootstrapMedianInterval_facts(1)[of "map Fin (map median vs)" ?options] row_options_valid
      by (auto simp: valid_reps_def simp del: map_map)
    then show ?thesis using Some vs sandboxMedianOf_Fin[OF vs(1)] by (auto simp: reportedMedianOf_def row_interval_def)
  qed
  then obtain x iv where r: "reportedMedianOf result = Inr (Fin x)" "row_interval result ?options = Inr iv"
    "case replicates result of None \<Rightarrow> True | Some reps \<Rightarrow> \<exists>vs. valid_reps vs \<and> map rep_samples reps = map (map Fin) vs" by blast
  show ?thesis
    unfolding candidate_of_found[OF Some] using r xs by (auto simp: testable_def split: option.splits)
qed (simp add: candidate_of_def)

section \<open>What few sandboxes cannot decide, and what always ranks\<close>

lemma accepted_rankings:
  assumes "parseRun run = Inr run'"
  shows "\<exists>rows. rankMetric S (published_dataset run') metric = Inr rows"
proof -
  have run: "run' = run" and rejected: "\<And>p v. p \<in> set (run_providers run) \<Longrightarrow> provider_narrow p \<noteq> Inl v"
    using assms(1) unfolding parseRun_def run_narrow_def
    by (auto simp: and_then_Inr_iff reject_each_Inr split: sum.split_asm)
  have narrow: "provider_narrow p = Inr ()" if "p \<in> set (run_providers run)" for p
    using rejected[OF that] by (cases "provider_narrow p") auto
  have each: "\<exists>c. candidate_of S (published_dataset run) (md_id metric) p = Inr c \<and> pred_option testable c"
    if "p \<in> set (run_providers run)" for p
    by (rule candidate_of_total) (use provider_narrow_parts(1)[OF narrow[OF that]] in blast)
  then obtain f where f: "\<And>p. p \<in> set (run_providers run) \<Longrightarrow> candidate_of S (published_dataset run) (md_id metric) p = Inr (f p) \<and>
      pred_option testable (f p)" by metis
  then have found: "sequence (map (candidate_of S (published_dataset run) (md_id metric)) (run_providers run)) = Inr (map f (run_providers run))"
    by (intro sequence_map_Inr) blast
  have "\<forall>c\<in>set (order_candidates S (md_direction metric) (List.map_filter (\<lambda>c. c) (map f (run_providers run)))). testable c"
    using f by (fastforce simp: order_candidates_def locale_sort_def List.map_filter_def)
  then show ?thesis
    using rank_rows_total[of _ None 0] found by (simp add: rankMetric_def run published_dataset_def)
qed

text \<open>
  No ranking separates, or calls tied, two neighbouring providers that ran the same number of
  sandboxes when that number is below four: the row is marked as underpowered, or as untested where a side
  has a single sample.
\<close>

theorem few_sandboxes_undecided:
  assumes "rankMetric S ds metric = Inr rows" "Suc i < length rows"
    and "lr_sandboxes (rows ! i) = Some n" "lr_sandboxes (rows ! Suc i) = Some n" "n < 4"
  shows "lr_verdict (rows ! Suc i) \<in> {Some Underpowered, Some Untested}"
proof -
  obtain cs where cs: "\<And>c. c \<in> set cs \<Longrightarrow> \<exists>p\<in>set (ds_providers ds). candidate_of S ds (md_id metric) p = Inr (Some c)"
    "rank_rows 0 None cs = Inr rows" using rankMetric_Inr[OF assms(1)] by metis
  note rows = rank_rows_top(1)[OF cs(2)]
  have count: "lr_sandboxes (rows ! k) = map_option length (cd_replicates (cs ! k))" if "k < length rows" for k
  proof -
    have "\<exists>p. candidate_of S ds (md_id metric) p = Inr (Some (cs ! k))"
      using cs(1)[of "cs ! k"] that list_all2_lengthD[OF rows] by auto
    then show ?thesis using row_of_nth[OF rows that] by (auto simp: row_of_def elim: candidate_of_Some)
  qed
  have "map_option length (cd_replicates (cs ! i)) = Some n" "map_option length (cd_replicates (cs ! Suc i)) = Some n"
    using count[of i] count[of "Suc i"] assms(2-4) by simp_all
  then obtain a b where "cd_replicates (cs ! i) = Some a" "length a = n" "cd_replicates (cs ! Suc i) = Some b" "length b = n"
    by (auto simp: map_option_eq_Some)
  moreover obtain tests verdict basis where "compare_rows (cs ! i) (cs ! Suc i) = Inr (tests, verdict, basis)"
    "lr_verdict (rows ! Suc i) = Some verdict"
    using rank_rows_top(3)[OF cs(2) assms(2)] by (auto simp: placed_below_def)
  ultimately show ?thesis using compare_few_clusters assms(5) by fastforce
qed

text \<open>
  Ranking a Run that the schema accepts never throws, whatever the metric:
  every statistic of every row and of every comparison is computed.
\<close>

theorem accepted_runs_rank:
  assumes "parseRun run = Inr run'"
  shows "\<exists>rows. rankMetric S (published_dataset run') metric = Inr rows"
  using assms by (rule accepted_rankings)

section \<open>Two providers of two sandboxes\<close>

definition ranked_metric :: metric_result where
  "ranked_metric = plain_metric ''m'' [Fin 1, Fin 2]
     \<lparr>p50 = Fin 1, p95 = Fin 2, agg_mean = 1, stdev = 0, agg_min = Fin 1, agg_max = Fin 2, agg_n = 2\<rparr>
     (Some [plain_slice 0 [Fin 1], plain_slice 1 [Fin 2]])"

definition ranked_provider :: "string \<Rightarrow> provider_run" where
  "ranked_provider i = (pooling_provider 1)\<lparr>pv_id := i, pv_metrics := [ranked_metric]\<rparr>"

definition ranked_run :: run_doc where
  "ranked_run = (pooling_run ''x'' 1)\<lparr>run_providers := [ranked_provider ''p'', ranked_provider ''q'']\<rparr>"

definition ranked_def :: metric_def where
  "ranked_def = \<lparr>md_id = ''m'', md_dimension = Memory, md_unit = ''ms'', md_direction = LIB, md_headline = False,
     md_pts = None, md_derived = False\<rparr>"

definition ranking_services :: board_services where
  "ranking_services = merge_services.extend example_merge_services
     \<lparr>displayNameOf = \<lambda>p. None, isolationOf = \<lambda>p. None, metricCatalog = [ranked_def]\<rparr>"

lemma ranked_run_parses: "parseRun ranked_run = Inr ranked_run"
  by (simp add: parseRun_def run_narrow_def experiment_narrow_def ranked_run_def pooling_run_def has_replicates_def provider_narrow_def
      provider_versions_def ranked_provider_def pooling_provider_def ranked_metric_def metric_narrow_def aggregatesSchema_def replicates_narrow_def
      pooled_check_def plain_metric_def plain_slice_def metric_ids_resolve_def resolves_def described_by_v4_def js_real_def)

lemma ranked_run_ranks:
  obtains rows where "rankMetric ranking_services (published_dataset ranked_run) ranked_def = Inr rows"
  using accepted_rankings[OF ranked_run_parses, of ranking_services ranked_def] by blast

lemma ranked_providers: "ds_providers (published_dataset ranked_run) = [ranked_provider ''p'', ranked_provider ''q'']"
  "pv_id (ranked_provider i) = i" "pv_metrics (ranked_provider i) = [ranked_metric]" "metricId ranked_metric = ''m''" "md_id ranked_def = ''m''"
  by (simp_all add: published_dataset_def ranked_run_def ranked_provider_def ranked_metric_def plain_metric_def ranked_def_def)

theorem accepted_runs_rank_witness:
  "\<exists>rows. rankMetric ranking_services (published_dataset ranked_run) ranked_def = Inr rows"
  by (rule accepted_runs_rank[OF ranked_run_parses])

theorem ranked_rows_are_measured_witness:
  "\<exists>rows. rankMetric ranking_services (published_dataset ranked_run) ranked_def = Inr rows \<and>
     mset (map lr_providerId rows) = {#''p'', ''q''#}"
proof -
  obtain rows where "rankMetric ranking_services (published_dataset ranked_run) ranked_def = Inr rows" by (rule ranked_run_ranks)
  then show ?thesis using ranked_rows_are_measured[of ranking_services "published_dataset ranked_run" ranked_def rows]
    by (simp add: ranked_providers)
qed

text \<open>The rows of the example, read off the candidates.\<close>

lemma ranked_rows_shape:
  assumes "rankMetric ranking_services (published_dataset ranked_run) ranked_def = Inr rows"
  shows "length rows = 2" "k < 2 \<Longrightarrow> lr_sandboxes (rows ! k) = Some 2"
proof -
  obtain found cs where f: "list_all2 (\<lambda>p c. candidate_of ranking_services (published_dataset ranked_run) (md_id ranked_def) p = Inr c)
      (ds_providers (published_dataset ranked_run)) found"
    "cs = order_candidates ranking_services (md_direction ranked_def) (List.map_filter (\<lambda>c. c) found)"
    "\<And>c. c \<in> set cs \<Longrightarrow> \<exists>p\<in>set (ds_providers (published_dataset ranked_run)).
       candidate_of ranking_services (published_dataset ranked_run) (md_id ranked_def) p = Inr (Some c)"
    "rank_rows 0 None cs = Inr rows" using rankMetric_Inr[OF assms] by metis
  note rows = rank_rows_top(1)[OF f(4)]
  have "length (List.map_filter (\<lambda>c. c) found) = 2"
    using arg_cong[OF map_filter_ids[OF f(1)], of length] by (simp add: ranked_providers)
  then show len: "length rows = 2"
    using list_all2_lengthD[OF rows] f(2) by (simp add: order_candidates_def locale_sort_def)
  assume k: "k < 2"
  then obtain p where p: "p \<in> set (ds_providers (published_dataset ranked_run))"
    "candidate_of ranking_services (published_dataset ranked_run) (md_id ranked_def) p = Inr (Some (cs ! k))"
    using f(3)[of "cs ! k"] len list_all2_lengthD[OF rows] by auto
  obtain result where "result \<in> set (pv_metrics p)" "cd_replicates (cs ! k) = map_option (map rep_samples) (replicates result)"
    "lr_sandboxes (cd_row (cs ! k)) = map_option length (cd_replicates (cs ! k))" by (rule candidate_of_Some[OF p(2)])
  moreover have "pv_metrics p = [ranked_metric]" using p(1) by (auto simp: ranked_providers)
  ultimately show "lr_sandboxes (rows ! k) = Some 2"
    using row_of_nth[OF rows, of k] len k by (auto simp: row_of_def ranked_metric_def plain_metric_def)
qed

theorem ranks_follow_verdicts_witness:
  "\<exists>rows t v. rankMetric ranking_services (published_dataset ranked_run) ranked_def = Inr rows \<and>
     lr_pVsPrevious (rows ! 1) = Some t \<and>
     clusterSeparation [[Fin 1], [Fin 2]] [[Fin 1], [Fin 2]] None = Inr v \<and>
     deciding_p t = cs_pValue v \<and> deciding_floor t = cs_minAttainable v"
proof -
  obtain rows where rows: "rankMetric ranking_services (published_dataset ranked_run) ranked_def = Inr rows" by (rule ranked_run_ranks)
  note len = ranked_rows_shape(1)[OF rows]
  obtain results where results: "list_all2 (row_result (published_dataset ranked_run) ranked_def) rows results"
    and "\<forall>k. Suc k < length rows \<longrightarrow>
      (let row = rows ! Suc k; a = results ! k; b = results ! Suc k in
       (lr_rank row = lr_rank (rows ! k) \<longleftrightarrow> lr_tiedWithAbove row \<noteq> None) \<and>
       (lr_tiedWithAbove row = Some Statistical \<longleftrightarrow> lr_verdict row = Some TiedRows) \<and>
       (lr_tiedWithAbove row = Some IdenticalValue \<longleftrightarrow>
          lr_value row = lr_value (rows ! k) \<and> lr_verdict row \<in> {Some Underpowered, Some Untested}) \<and>
       (if length (samples a) < 2 \<or> length (samples b) < 2 then lr_verdict row = Some Untested \<and> lr_pVsPrevious row = None
        else \<exists>t. lr_pVsPrevious row = Some t \<and> decided_by a b t \<and> lr_verdict row = Some (deciding_verdict t)))"
    using ranks_follow_verdicts[OF rows] by blast
  then have second: "if length (samples (results ! 0)) < 2 \<or> length (samples (results ! 1)) < 2 then lr_pVsPrevious (rows ! 1) = None
      else \<exists>t. lr_pVsPrevious (rows ! 1) = Some t \<and> decided_by (results ! 0) (results ! 1) t"
    using len by (auto simp: Let_def split: if_split_asm dest!: spec[of _ "0::nat"])
  have "results ! k = ranked_metric" if "k < 2" for k
    using results that len by (auto simp: list_all2_conv_all_nth row_result_def ranked_providers)
  then have both: "results ! 0 = ranked_metric" "results ! 1 = ranked_metric" by simp_all
  have facts: "length (samples ranked_metric) = 2" "replicates ranked_metric \<noteq> None"
    "result_clusters ranked_metric = [[Fin 1], [Fin 2]]"
    by (simp_all add: ranked_metric_def plain_metric_def plain_slice_def result_clusters_def)
  then show ?thesis using second rows unfolding both
    by (auto simp: decided_by_def deciding_p_def deciding_floor_def)
qed

theorem few_sandboxes_undecided_witness:
  "\<exists>rows. rankMetric ranking_services (published_dataset ranked_run) ranked_def = Inr rows \<and>
     lr_verdict (rows ! 1) \<in> {Some Underpowered, Some Untested}"
proof -
  obtain rows where rows: "rankMetric ranking_services (published_dataset ranked_run) ranked_def = Inr rows" by (rule ranked_run_ranks)
  then show ?thesis using few_sandboxes_undecided[OF rows, of 0 2] ranked_rows_shape[OF rows] by auto
qed

end
