(* ===== verification/Board.thy ===== *)
theory Board
  imports Ranking
begin

text \<open>
  The comparison surface of a dataset (\<open>packages/results/src/lib/leaderboard.ts\<close>): every catalogued
  metric ranked, the coverage holes, the roster with its isolation cross-check, and the text that goes
  into the cells of the Markdown tables. The lemmas show that nothing measured is left out, that every
  hole is accounted for, and that no recorded text can break a table.
\<close>

section \<open>Coverage gaps\<close>

datatype coverage_outcome = SkippedOutcome | FailedOutcome | MissingOutcome

text \<open>A reason is the producer's, or the one sentence for a suite that never reported.\<close>

datatype coverage_reason = Recorded string | NeverReported

record coverage_gap =
  cg_providerId :: string
  cg_displayName :: string
  cg_scope :: gap_scope
  cg_id :: string
  cg_outcome :: coverage_outcome
  cg_reason :: coverage_reason
  cg_disk :: bool

fun coverage_outcome_of :: "gap_outcome \<Rightarrow> coverage_outcome" where
  "coverage_outcome_of Skipped = SkippedOutcome"
| "coverage_outcome_of FailedGap = FailedOutcome"

definition producerClassifiesGaps :: "dataset \<Rightarrow> bool" where
  "producerClassifiesGaps ds \<longleftrightarrow> list_ex (\<lambda>p. list_ex (\<lambda>g. gap_cause_of g \<noteq> None) (pv_gaps p)) (ds_providers ds)"

definition isDiskGap :: "result_gap \<Rightarrow> bool \<Rightarrow> bool" where
  "isDiskGap g classified \<longleftrightarrow>
     (case gap_cause_of g of
        Some c \<Rightarrow> (case c of DiskShortfall f r \<Rightarrow> True | _ \<Rightarrow> False)
      | None \<Rightarrow> \<not> classified \<and> starts_with (toLowerCase (js_trim (gap_reason g))) ''insufficient disk'')"

fun outcome_order :: "coverage_outcome \<Rightarrow> nat" where
  "outcome_order SkippedOutcome = 0"
| "outcome_order FailedOutcome = 1"
| "outcome_order MissingOutcome = 2"

definition REGISTERED_SUITES :: "string list" where
  "REGISTERED_SUITES = map fst SUITES"

definition suite_gap_ids :: "provider_run \<Rightarrow> string list" where
  "suite_gap_ids p = map gap_id (filter (\<lambda>g. gap_scope_of g = SuiteGap) (pv_gaps p))"

definition suitesExercised :: "('m) services_scheme \<Rightarrow> dataset \<Rightarrow> string list" where
  "suitesExercised S ds =
     locale_sort S (\<lambda>s. s) (insertion_order (concat (map (\<lambda>p.
       filter (\<lambda>s. s \<in> set REGISTERED_SUITES) (pv_suitesCovered p @ suite_gap_ids p)) (ds_providers ds))))"

definition recorded_gap :: "('m) board_services_scheme \<Rightarrow> bool \<Rightarrow> provider_run \<Rightarrow> result_gap \<Rightarrow> coverage_gap" where
  "recorded_gap S classified p g =
     \<lparr>cg_providerId = pv_id p, cg_displayName = display_name S (pv_id p), cg_scope = gap_scope_of g, cg_id = gap_id g,
      cg_outcome = coverage_outcome_of (gap_outcome_of g), cg_reason = Recorded (gap_reason g),
      cg_disk = (gap_outcome_of g = Skipped \<and> isDiskGap g classified)\<rparr>"

definition missing_gap :: "('m) board_services_scheme \<Rightarrow> provider_run \<Rightarrow> string \<Rightarrow> coverage_gap" where
  "missing_gap S p suite =
     \<lparr>cg_providerId = pv_id p, cg_displayName = display_name S (pv_id p), cg_scope = SuiteGap, cg_id = suite,
      cg_outcome = MissingOutcome, cg_reason = NeverReported, cg_disk = False\<rparr>"

definition provider_gaps :: "('m) board_services_scheme \<Rightarrow> string list \<Rightarrow> bool \<Rightarrow> provider_run \<Rightarrow> coverage_gap list" where
  "provider_gaps S exercised classified p =
     (if providerReportedNothing p then []
      else map (recorded_gap S classified p) (pv_gaps p) @
           map (missing_gap S p) (filter (\<lambda>s. s \<notin> set (pv_suitesCovered p @ suite_gap_ids p)) exercised))"

text \<open>Disk gaps first, then by outcome, provider and benchmark.\<close>

definition coverageGapsOf :: "('m) board_services_scheme \<Rightarrow> dataset \<Rightarrow> coverage_gap list" where
  "coverageGapsOf S ds =
     sort_key (\<lambda>g. if cg_disk g then 0 else 1 :: nat) (sort_key (\<lambda>g. outcome_order (cg_outcome g))
       (locale_sort S cg_displayName (locale_sort S cg_id
         (concat (map (provider_gaps S (suitesExercised S ds) (producerClassifiesGaps ds)) (ds_providers ds))))))"

section \<open>Isolation\<close>

datatype isolation_class = GVisorClass | VmClass | ContainerClass

definition isolationClass :: "string option \<Rightarrow> isolation_class option" where
  "isolationClass declared =
     (case declared of
        None \<Rightarrow> None
      | Some d \<Rightarrow>
          let lower = toLowerCase d
          in if contains_sub lower ''gvisor'' then Some GVisorClass
             else if contains_sub lower ''vm'' then Some VmClass
             else if contains_sub lower ''container'' then Some ContainerClass
             else None)"

text \<open>A string field that is present and not empty.\<close>

definition truthy :: "string option \<Rightarrow> bool" where
  "truthy s \<longleftrightarrow> (case s of None \<Rightarrow> False | Some t \<Rightarrow> t \<noteq> [])"

definition formatIsolation :: "string option \<Rightarrow> string option \<Rightarrow> string option \<Rightarrow> string option \<Rightarrow> string option" where
  "formatIsolation runtime boundaryClass confidence machine =
     (if \<not> truthy runtime \<or> runtime = Some ''unknown'' \<or> \<not> truthy boundaryClass \<or> boundaryClass = Some ''unknown'' then None
      else
        let underlying = (case machine of
              Some m \<Rightarrow> if m \<noteq> [] \<and> m \<noteq> ''unknown'' \<and> m \<noteq> ''not-observable'' \<and> Some m \<noteq> runtime then '' on '' @ m else []
            | None \<Rightarrow> []);
            qualifier = (case confidence of
              Some c \<Rightarrow> if c \<in> {''likely'', ''strong'', ''confirmed''} then '', '' @ c else []
            | None \<Rightarrow> [])
        in Some (the runtime @ '' ('' @ (if boundaryClass = Some ''microvm'' then ''microVM'' else the boundaryClass) @
             qualifier @ '')'' @ underlying))"

definition record_isolation :: "host_metadata \<Rightarrow> string option" where
  "record_isolation record =
     (if hm_source record \<noteq> SystemProvider \<or> \<not> ends_with (hm_sourceFile record) ''system-provider.json'' then None
      else formatIsolation (map_of (hm_fields record) ''isolation_runtime'') (map_of (hm_fields record) ''isolation_class'')
             (map_of (hm_fields record) ''isolation_confidence'') (map_of (hm_fields record) ''machine_vmm''))"

definition detailedIsolation :: "provider_run \<Rightarrow> string option" where
  "detailedIsolation p =
     (let verdicts = sort (remdups (List.map_filter record_isolation (case pv_hostMetadata p of None \<Rightarrow> [] | Some hs \<Rightarrow> hs)))
      in case verdicts of
           [] \<Rightarrow> None
         | [v] \<Rightarrow> Some v
         | _ \<Rightarrow> Some (''mixed: '' @ join_with '', '' verdicts))"

definition text_spec :: "specs \<Rightarrow> string \<Rightarrow> string option" where
  "text_spec s key = (case map_of s key of Some (SpecText t) \<Rightarrow> Some t | _ \<Rightarrow> None)"

record roster_entry =
  ro_providerId :: string
  ro_displayName :: string
  ro_declared :: "string option"
  ro_detected :: "string option"
  ro_mismatch :: bool

definition first_some :: "'a option \<Rightarrow> 'a option \<Rightarrow> 'a option" where
  "first_some a b = (case a of None \<Rightarrow> b | Some x \<Rightarrow> Some x)"

definition isolation_mismatch :: "isolation_class option \<Rightarrow> string option \<Rightarrow> bool" where
  "isolation_mismatch declared detected \<longleftrightarrow>
     declared = Some GVisorClass \<and> detected \<in> {Some ''vm'', Some ''microvm''} \<or>
     declared = Some VmClass \<and> detected = Some ''gvisor''"

definition roster_entry_of :: "('m) board_services_scheme \<Rightarrow> provider_run \<Rightarrow> roster_entry" where
  "roster_entry_of S p =
     (let observed = pv_observedSpecs p; declared = isolationOf S (pv_id p)
      in \<lparr>ro_providerId = pv_id p, ro_displayName = display_name S (pv_id p), ro_declared = declared,
          ro_detected = first_some (detailedIsolation p)
            (first_some (formatIsolation (text_spec observed ''detectedIsolation'') (text_spec observed ''isolationClass'')
               (text_spec observed ''isolationConfidence'') (text_spec observed ''machineVmm''))
             (text_spec observed ''detectedIsolation'')),
          ro_mismatch = isolation_mismatch (isolationClass declared)
            (first_some (text_spec observed ''isolationClass'') (text_spec observed ''detectedIsolation''))\<rparr>)"

definition buildRoster :: "('m) board_services_scheme \<Rightarrow> dataset \<Rightarrow> roster_entry list" where
  "buildRoster S ds = map (roster_entry_of S) (filter (\<lambda>p. \<not> providerReportedNothing p) (ds_providers ds))"

section \<open>The board\<close>

definition DIMENSIONS :: "dimension list" where
  "DIMENSIONS = [Lifecycle, ControlPlane, Cpu, Disk, Memory, Network, System, RealworldDimension, Economics]"

definition LEADERBOARD_DIMENSION_ORDER :: "dimension list" where
  "LEADERBOARD_DIMENSION_ORDER = RealworldDimension # filter (\<lambda>d. d \<noteq> RealworldDimension) DIMENSIONS"

definition runHeadlineIds :: "metric_def list \<Rightarrow> string set \<Rightarrow> string set" where
  "runHeadlineIds catalog emitted =
     set (map (\<lambda>m. case fioModeTwin (md_id m) of
                     Some twin \<Rightarrow> if md_id m \<notin> emitted \<and> twin \<in> emitted then twin else md_id m
                   | None \<Rightarrow> md_id m)
       (filter md_headline catalog))"

record leaderboard_dimension =
  ld_dimension :: dimension
  ld_metrics :: "(metric_def \<times> leaderboard_row list) list"

record comparability_caveat =
  ca_providerId :: string
  ca_displayName :: string
  ca_observedSpecs :: specs

record leaderboard =
  lb_runId :: string
  lb_cohort :: "string option"
  lb_partial :: "partial_coverage option"
  lb_repair :: "experiment_repair option"
  lb_unstartedCells :: "nat option"
  lb_sha :: string
  lb_generatedAt :: string
  lb_targetSpec :: target_spec
  lb_dimensions :: "leaderboard_dimension list"
  lb_roster :: "roster_entry list"
  lb_caveats :: "comparability_caveat list"
  lb_gaps :: "coverage_gap list"
  lb_absent :: "(string \<times> string) list"
  lb_pooled :: "(run_doc list \<times> string list) option"

definition emitted_ids :: "dataset \<Rightarrow> string set" where
  "emitted_ids ds = set (concat (map (\<lambda>p. map metricId (pv_metrics p)) (ds_providers ds)))"

text \<open>The catalog's metrics of a dimension, the headline first.\<close>

definition catalogued_metrics :: "('m) board_services_scheme \<Rightarrow> dataset \<Rightarrow> dimension \<Rightarrow> metric_def list" where
  "catalogued_metrics S ds d =
     (let headlines = runHeadlineIds (metricCatalog S) (emitted_ids ds)
      in sort_key (\<lambda>m. if md_headline m then 0 else 1 :: nat)
           (map (\<lambda>m. m\<lparr>md_headline := (md_id m \<in> headlines)\<rparr>) (filter (\<lambda>m. md_dimension m = d) (metricCatalog S))))"

definition rank_dimension :: "('m) board_services_scheme \<Rightarrow> dataset \<Rightarrow> dimension \<Rightarrow> board_error + leaderboard_dimension option" where
  "rank_dimension S ds d =
     and_then (sequence (map (\<lambda>m. and_then (rankMetric S ds m) (\<lambda>rows. Inr (m, rows))) (catalogued_metrics S ds d))) (\<lambda>ranked.
       let metrics = filter (\<lambda>(m, rows). rows \<noteq> []) ranked
       in Inr (if metrics = [] then None else Some \<lparr>ld_dimension = d, ld_metrics = metrics\<rparr>))"

definition buildLeaderboard :: "('m) board_services_scheme \<Rightarrow> dataset \<Rightarrow> board_error + leaderboard" where
  "buildLeaderboard S ds =
     and_then (sequence (map (rank_dimension S ds) LEADERBOARD_DIMENSION_ORDER)) (\<lambda>dims.
       Inr \<lparr>lb_runId = ds_runId ds,
            lb_cohort = Option.bind (ds_experiment ds) ex_cohortDigest,
            lb_partial = Option.bind (ds_experiment ds) ex_partial,
            lb_repair = Option.bind (ds_experiment ds) ex_repair,
            lb_unstartedCells = map_option (\<lambda>bs. length (concat (map ub_cellIds bs))) (Option.bind (ds_experiment ds) ex_unstartedBatches),
            lb_sha = ds_sha ds, lb_generatedAt = ds_generatedAt ds, lb_targetSpec = ds_targetSpec ds,
            lb_dimensions = List.map_filter (\<lambda>d. d) dims,
            lb_roster = buildRoster S ds,
            lb_caveats = map (\<lambda>p. \<lparr>ca_providerId = pv_id p, ca_displayName = display_name S (pv_id p), ca_observedSpecs = pv_observedSpecs p\<rparr>)
              (filter (\<lambda>p. pv_specMatched p = Some False) (ds_providers ds)),
            lb_gaps = coverageGapsOf S ds,
            lb_absent = map (\<lambda>p. (pv_id p, display_name S (pv_id p))) (filter providerReportedNothing (ds_providers ds)),
            lb_pooled = map_option (\<lambda>pf. (pf_sources pf, pf_notes pf)) (ds_pooled ds)\<rparr>)"

section \<open>Text in the tables\<close>

definition escapeHtml :: "string \<Rightarrow> string" where
  "escapeHtml text = replace_char CHR ''>'' ''&gt;'' (replace_char CHR ''<'' ''&lt;'' (replace_char CHR ''&'' ''&amp;'' text))"

text \<open>\<open>.replace(/\s+/g, (ws) => (ws.includes("\n") ? " " : ws))\<close>.\<close>

definition fold_run :: "string \<Rightarrow> string" where
  "fold_run ws = (if CHR 0x0A \<in> set ws then '' '' else ws)"

fun fold_spaces :: "string \<Rightarrow> string \<Rightarrow> string" where
  "fold_spaces run [] = fold_run run"
| "fold_spaces run (c # cs) = (if js_space c then fold_spaces (run @ [c]) cs else fold_run run @ c # fold_spaces [] cs)"

definition backslash :: char where
  "backslash = CHR 0x5C"

definition escapeCell :: "string \<Rightarrow> string" where
  "escapeCell text =
     fold_spaces [] (replace_char CHR ''|'' [backslash, CHR ''|''] (replace_char backslash [backslash, backslash] (escapeHtml text)))"

datatype row_note = NoNote | EqualValues | TooFewSandboxes bool | TrialsTooFew bool | TiedNote

definition rowNote :: "leaderboard_row \<Rightarrow> row_note" where
  "rowNote r =
     (let equalValues = (lr_tiedWithAbove r = Some IdenticalValue)
      in case lr_pVsPrevious r of
           None \<Rightarrow> if equalValues then EqualValues else NoNote
         | Some t \<Rightarrow>
             if lr_verdict r = Some Underpowered
             then (if cmp_cluster t \<noteq> None then TooFewSandboxes equalValues else TrialsTooFew equalValues)
             else if lr_verdict r = Some TiedRows then TiedNote else NoNote)"

text \<open>The p-value printed beside a row, the deciding one.\<close>

definition pairwise_p :: "leaderboard_row \<Rightarrow> real option" where
  "pairwise_p r = map_option (\<lambda>t. case cmp_cluster t of Some x \<Rightarrow> cx_p x | None \<Rightarrow> cmp_mannWhitney t) (lr_pVsPrevious r)"

text \<open>What the line above a table claims; the ratio is printed with one decimal.\<close>

datatype takeaway =
    NothingRanked
  | OnlyRanked string real
  | SharedTop "string list"
  | LeadsTimes string real string
  | LowerLeads string bool string real
  | LeadsOnMedian string

definition js_divide :: "real \<Rightarrow> real \<Rightarrow> jsnum" where
  "js_divide a b = (if b = 0 then if a = 0 then NaN else Infinite (0 < a) else Fin (a / b))"

definition clear_lead :: "real \<Rightarrow> real \<Rightarrow> real option" where
  "clear_lead a b = (case js_divide a b of Fin ratio \<Rightarrow> if 105 / 100 \<le> ratio then Some ratio else None | _ \<Rightarrow> None)"

definition metricTakeaway :: "dimension \<Rightarrow> metric_def \<Rightarrow> leaderboard_row list \<Rightarrow> takeaway" where
  "metricTakeaway d metric rows =
     (case rows of
        [] \<Rightarrow> NothingRanked
      | [leader] \<Rightarrow> OnlyRanked (lr_displayName leader) (lr_value leader)
      | leader # following # _ \<Rightarrow>
          let coLeaders = filter (\<lambda>r. lr_rank r = lr_rank leader) rows
          in if 1 < length coLeaders then SharedTop (map lr_displayName coLeaders)
             else if md_direction metric = HIB
             then (case clear_lead (lr_value leader) (lr_value following) of
                     Some ratio \<Rightarrow> LeadsTimes (lr_displayName leader) ratio (lr_displayName following)
                   | None \<Rightarrow> LeadsOnMedian (lr_displayName leader))
             else (case clear_lead (lr_value following) (lr_value leader) of
                     Some ratio \<Rightarrow> LowerLeads (lr_displayName leader) (d = Economics) (lr_displayName following) ratio
                   | None \<Rightarrow> LeadsOnMedian (lr_displayName leader)))"

text \<open>The summary counts the gaps of each display name.\<close>

definition coverageSummary :: "('m) services_scheme \<Rightarrow> coverage_gap list \<Rightarrow> (string \<times> nat) list" where
  "coverageSummary S gaps =
     map (\<lambda>name. (name, length (filter (\<lambda>g. cg_displayName g = name) gaps)))
       (locale_sort S (\<lambda>n. n) (insertion_order (map cg_displayName gaps)))"

section \<open>Links\<close>

definition REPO_URL :: string where
  "REPO_URL = ''https://github.com/starslingdev/hpc-sandbox-benchmarks''"

definition code_span :: "string \<Rightarrow> string" where
  "code_span s = [CHR 0x60] @ s @ [CHR 0x60]"

definition markdown_link :: "string \<Rightarrow> string \<Rightarrow> string" where
  "markdown_link text url = ''['' @ code_span text @ '']('' @ url @ '')''"

definition runSourceLinks :: "string \<Rightarrow> string" where
  "runSourceLinks runId =
     join_with '' + ''
       (map (\<lambda>i. if i \<noteq> [] \<and> list_all is_digit i then markdown_link i (REPO_URL @ ''/actions/runs/'' @ i) else code_span i)
         (split_on CHR ''+'' runId))"

definition commitSourceLink :: "string \<Rightarrow> string" where
  "commitSourceLink sha =
     (if 7 \<le> length sha \<and> length sha \<le> 40 \<and> list_all is_hex sha then markdown_link sha (REPO_URL @ ''/commit/'' @ sha)
      else code_span sha)"

definition DATASET_RUNS_DIR :: string where
  "DATASET_RUNS_DIR = ''data/dataset/runs''"

definition datasetSourceLink :: "string \<Rightarrow> string" where
  "datasetSourceLink runId =
     (let path = DATASET_RUNS_DIR @ ''/'' @ runId @ ''.json'' in markdown_link path (replace_char CHR ''+'' ''%2B'' path))"

section \<open>Lemmas: coverage\<close>

lemma set_coverageGapsOf:
  "set (coverageGapsOf S ds) = (\<Union>p\<in>set (ds_providers ds). set (provider_gaps S (suitesExercised S ds) (producerClassifiesGaps ds) p))"
  by (simp add: coverageGapsOf_def locale_sort_def)

lemma set_suitesExercised:
  "set (suitesExercised S ds) = {s \<in> set REGISTERED_SUITES. \<exists>q\<in>set (ds_providers ds). s \<in> set (pv_suitesCovered q @ suite_gap_ids q)}"
  by (auto simp: suitesExercised_def locale_sort_def)

lemma coverage_outcome_recorded [simp]: "coverage_outcome_of oc \<noteq> MissingOutcome"
  by (cases oc) simp_all

text \<open>
  Property C25. Coverage is accounted for: when any provider of a dataset exercised a registered suite, every
  provider that reported anything either covered the suite or has a gap row for it, which says missing
  exactly when the provider left no marker of its own; and no provider is accused without ground, since a
  missing row names a reporting provider without result or marker and a suite that another one exercised.
\<close>

theorem coverage_holes_accounted:
  assumes "p \<in> set (ds_providers ds)" "\<not> providerReportedNothing p"
    and "q \<in> set (ds_providers ds)" "suite \<in> set (pv_suitesCovered q @ suite_gap_ids q)" "suite \<in> set REGISTERED_SUITES"
  shows "(suite \<in> set (pv_suitesCovered p) \<or>
      (\<exists>g\<in>set (coverageGapsOf S ds). cg_providerId g = pv_id p \<and> cg_scope g = SuiteGap \<and> cg_id g = suite \<and>
         (cg_outcome g = MissingOutcome \<longleftrightarrow> suite \<notin> set (suite_gap_ids p)))) \<and>
    (\<forall>g\<in>set (coverageGapsOf S ds). cg_outcome g = MissingOutcome \<longrightarrow>
       (\<exists>r\<in>set (ds_providers ds). pv_id r = cg_providerId g \<and> \<not> providerReportedNothing r \<and>
          cg_id g \<notin> set (pv_suitesCovered r @ suite_gap_ids r) \<and>
          (\<exists>r'\<in>set (ds_providers ds). cg_id g \<in> set (pv_suitesCovered r' @ suite_gap_ids r'))))"
proof (intro conjI ballI impI)
  have exercised: "suite \<in> set (suitesExercised S ds)" using assms by (auto simp: set_suitesExercised)
  let ?gaps = "provider_gaps S (suitesExercised S ds) (producerClassifiesGaps ds) p"
  have mine: "set ?gaps \<subseteq> set (coverageGapsOf S ds)" using assms(1) by (auto simp: set_coverageGapsOf)
  show "suite \<in> set (pv_suitesCovered p) \<or>
      (\<exists>g\<in>set (coverageGapsOf S ds). cg_providerId g = pv_id p \<and> cg_scope g = SuiteGap \<and> cg_id g = suite \<and>
         (cg_outcome g = MissingOutcome \<longleftrightarrow> suite \<notin> set (suite_gap_ids p)))"
  proof (cases "suite \<in> set (suite_gap_ids p)")
    case True
    then obtain g where g: "g \<in> set (pv_gaps p)" "gap_scope_of g = SuiteGap" "gap_id g = suite" by (auto simp: suite_gap_ids_def)
    then have "recorded_gap S (producerClassifiesGaps ds) p g \<in> set (coverageGapsOf S ds)"
      using mine assms(2) by (auto simp: provider_gaps_def)
    then show ?thesis using True g(2,3)
      by (intro disjI2 bexI[of _ "recorded_gap S (producerClassifiesGaps ds) p g"]) (simp_all add: recorded_gap_def)
  next
    case False
    then have "missing_gap S p suite \<in> set (coverageGapsOf S ds)" if "suite \<notin> set (pv_suitesCovered p)"
      using that mine assms(2) exercised by (auto simp: provider_gaps_def)
    then show ?thesis using False
      by (cases "suite \<in> set (pv_suitesCovered p)") (auto simp: missing_gap_def intro!: bexI[of _ "missing_gap S p suite"])
  qed
  fix g assume g: "g \<in> set (coverageGapsOf S ds)" "cg_outcome g = MissingOutcome"
  then obtain r where r: "r \<in> set (ds_providers ds)" "g \<in> set (provider_gaps S (suitesExercised S ds) (producerClassifiesGaps ds) r)"
    by (auto simp: set_coverageGapsOf)
  then obtain s where "g = missing_gap S r s" "s \<in> set (suitesExercised S ds)" "s \<notin> set (pv_suitesCovered r @ suite_gap_ids r)"
    "\<not> providerReportedNothing r"
    using g(2) by (auto simp: provider_gaps_def recorded_gap_def split: if_split_asm)
  then show "\<exists>r\<in>set (ds_providers ds). pv_id r = cg_providerId g \<and> \<not> providerReportedNothing r \<and>
      cg_id g \<notin> set (pv_suitesCovered r @ suite_gap_ids r) \<and>
      (\<exists>r'\<in>set (ds_providers ds). cg_id g \<in> set (pv_suitesCovered r' @ suite_gap_ids r'))"
    using r(1) by (intro bexI[of _ r]) (auto simp: missing_gap_def set_suitesExercised)
qed

section \<open>Lemmas: every metric is on the board\<close>

lemma dimension_listed: "d \<in> set LEADERBOARD_DIMENSION_ORDER"
  by (cases d) (simp_all add: LEADERBOARD_DIMENSION_ORDER_def DIMENSIONS_def)

lemma dimension_order_distinct: "distinct LEADERBOARD_DIMENSION_ORDER"
  by (simp add: LEADERBOARD_DIMENSION_ORDER_def DIMENSIONS_def)

lemma sequence_map_mem:
  assumes "sequence (map f xs) = Inr ys" "x \<in> set xs"
  shows "\<exists>y\<in>set ys. f x = Inr y"
proof -
  have eq: "map f xs = map Inr ys" using assms(1) by (simp add: sequence_Inr_iff)
  have "f x \<in> set (map f xs)" using assms(2) by simp
  then show ?thesis unfolding eq by auto
qed

lemma rank_dimension_Inr:
  assumes "rank_dimension S ds d = Inr result"
  shows "m \<in> set (catalogued_metrics S ds d) \<Longrightarrow> \<exists>rows. rankMetric S ds m = Inr rows \<and>
      (rows \<noteq> [] \<longrightarrow> (\<exists>part. result = Some part \<and> (m, rows) \<in> set (ld_metrics part)))"
    "result = Some part \<Longrightarrow> ld_dimension part = d"
proof -
  let ?f = "\<lambda>m. and_then (rankMetric S ds m) (\<lambda>rows. Inr (m, rows))"
  obtain ranked where ranked: "sequence (map ?f (catalogued_metrics S ds d)) = Inr ranked"
    "result = (if filter (\<lambda>(m, rows). rows \<noteq> []) ranked = [] then None
       else Some \<lparr>ld_dimension = d, ld_metrics = filter (\<lambda>(m, rows). rows \<noteq> []) ranked\<rparr>)"
    using assms by (auto simp: rank_dimension_def and_then_Inr_iff Let_def)
  show "ld_dimension part = d" if "result = Some part" using ranked(2) that by (simp split: if_split_asm)
  assume "m \<in> set (catalogued_metrics S ds d)"
  then obtain entry where entry: "entry \<in> set ranked" "?f m = Inr entry" using sequence_map_mem[OF ranked(1)] by blast
  then obtain rows where rows: "rankMetric S ds m = Inr rows" "entry = (m, rows)" by (auto simp: and_then_Inr_iff)
  have "filter (\<lambda>(m, rows). rows \<noteq> []) ranked \<noteq> [] \<and> (m, rows) \<in> set (filter (\<lambda>(m, rows). rows \<noteq> []) ranked)" if "rows \<noteq> []"
    using that entry(1) rows(2) by (auto simp: filter_empty_conv)
  then show "\<exists>rows. rankMetric S ds m = Inr rows \<and>
      (rows \<noteq> [] \<longrightarrow> (\<exists>part. result = Some part \<and> (m, rows) \<in> set (ld_metrics part)))"
    using rows(1) ranked(2) by auto
qed

lemma board_dimensions:
  assumes "buildLeaderboard S ds = Inr b"
  obtains dims where "sequence (map (rank_dimension S ds) LEADERBOARD_DIMENSION_ORDER) = Inr dims"
    "lb_dimensions b = List.map_filter (\<lambda>d. d) dims"
  using assms by (auto simp: buildLeaderboard_def and_then_Inr_iff)

lemma dims_in_order:
  "list_all2 (\<lambda>d result. rank_dimension S ds d = Inr result) order dims \<Longrightarrow> distinct order \<Longrightarrow>
   distinct (map ld_dimension (List.map_filter (\<lambda>d. d) dims)) \<and> set (map ld_dimension (List.map_filter (\<lambda>d. d) dims)) \<subseteq> set order"
proof (induction rule: list_all2_induct)
  case (Cons d order result dims)
  then show ?case using rank_dimension_Inr(2)[OF Cons.hyps(1)] by (cases result) (auto simp: List.map_filter_def)
qed (simp add: List.map_filter_def)

lemma catalogued_mem:
  "m \<in> set (metricCatalog S) \<Longrightarrow> \<exists>m'\<in>set (catalogued_metrics S ds (md_dimension m)). md_id m' = md_id m"
  by (auto simp: catalogued_metrics_def Let_def)

text \<open>
  Nothing measured is left off the board: every result of a provider for a catalogued metric is
  a row of that metric's table, in the section of the metric's dimension, and every dimension has at most
  one section.
\<close>

theorem board_ranks_everything_measured:
  assumes "buildLeaderboard S ds = Inr b" "p \<in> set (ds_providers ds)" "m \<in> set (pv_metrics p)"
    and "metric \<in> set (metricCatalog S)" "md_id metric = metricId m"
  shows "distinct (map ld_dimension (lb_dimensions b)) \<and>
    (\<exists>part\<in>set (lb_dimensions b). ld_dimension part = md_dimension metric \<and>
      (\<exists>(shown, rows)\<in>set (ld_metrics part). md_id shown = md_id metric \<and> pv_id p \<in> lr_providerId ` set rows))"
proof -
  obtain dims where dims: "sequence (map (rank_dimension S ds) LEADERBOARD_DIMENSION_ORDER) = Inr dims"
    "lb_dimensions b = List.map_filter (\<lambda>d. d) dims" by (rule board_dimensions[OF assms(1)])
  have "list_all2 (\<lambda>d result. rank_dimension S ds d = Inr result) LEADERBOARD_DIMENSION_ORDER dims"
    using dims(1) by (auto simp: sequence_Inr_iff list_all2_conv_all_nth list_eq_iff_nth_eq)
  from dims_in_order[OF this dimension_order_distinct] have "distinct (map ld_dimension (lb_dimensions b))" using dims(2) by simp
  moreover obtain result where result: "result \<in> set dims" "rank_dimension S ds (md_dimension metric) = Inr result"
    using sequence_map_mem[OF dims(1) dimension_listed] by blast
  moreover obtain shown where shown: "shown \<in> set (catalogued_metrics S ds (md_dimension metric))" "md_id shown = md_id metric"
    using catalogued_mem[OF assms(4)] by blast
  moreover obtain rows where rows: "rankMetric S ds shown = Inr rows"
    "rows \<noteq> [] \<longrightarrow> (\<exists>part. result = Some part \<and> (shown, rows) \<in> set (ld_metrics part))"
    using rank_dimension_Inr(1)[OF result(2) shown(1)] by blast
  moreover have "pv_id p \<in> lr_providerId ` set rows"
    using arg_cong[OF ranked_ids[OF rows(1)], of set_mset] assms(2,3,5) shown(2) by auto
  ultimately show ?thesis
    using dims(2) rank_dimension_Inr(2)[OF result(2)]
    by (force simp: List.map_filter_def intro!: rev_image_eqI[of "Some _"])
qed

section \<open>Lemmas: text that cannot leave its cell\<close>

text \<open>
  A scan of a table cell: a backslash escapes the next character, an unescaped bar would end the cell, and
  a pending backslash would escape what follows the cell.
\<close>

fun cell_scan :: "bool \<Rightarrow> string \<Rightarrow> bool" where
  "cell_scan escaped [] = (\<not> escaped)"
| "cell_scan True (c # cs) = cell_scan False cs"
| "cell_scan False (c # cs) = (if c = backslash then cell_scan True cs else c \<noteq> CHR ''|'' \<and> cell_scan False cs)"

lemma escaped_scan:
  "cell_scan False (replace_char CHR ''|'' [backslash, CHR ''|''] (replace_char backslash [backslash, backslash] s))"
  by (induction s) (auto simp: backslash_def)

lemma scan_spaces: "list_all js_space ws \<Longrightarrow> cell_scan False (ws @ s) = cell_scan False s"
  by (induction ws) (auto simp: js_space_def backslash_def)

lemma scan_run:
  assumes "list_all js_space ws" "ws \<noteq> []"
  shows "cell_scan escaped (ws @ s) = cell_scan False s"
proof (cases escaped)
  case True
  then show ?thesis using assms scan_spaces[of "tl ws" s] by (cases ws) auto
next
  case False
  then show ?thesis using scan_spaces[OF assms(1)] by simp
qed

lemma fold_run_spaces: "list_all js_space ws \<Longrightarrow> list_all js_space (fold_run ws)" "fold_run ws = [] \<longleftrightarrow> ws = []"
  by (auto simp: fold_run_def js_space_def)

lemma scan_fold_run:
  "list_all js_space ws \<Longrightarrow> cell_scan escaped (fold_run ws @ s) = cell_scan escaped (ws @ s)"
  using scan_run fold_run_spaces by (cases "ws = []") (simp_all add: fold_run_def)

lemma scan_fold_spaces:
  "list_all js_space run \<Longrightarrow> cell_scan escaped (run @ s) \<Longrightarrow> cell_scan escaped (fold_spaces run s)"
proof (induction s arbitrary: run escaped)
  case Nil
  then show ?case using scan_fold_run[OF Nil.prems(1), of escaped "[]"] by simp
next
  case (Cons c cs)
  show ?case
  proof (cases "js_space c")
    case True
    then show ?thesis using Cons.IH[of "run @ [c]" escaped] Cons.prems by simp
  next
    case False
    define state where "state = (if run = [] then escaped else False)"
    have state: "cell_scan escaped (run @ t) = cell_scan state t" for t
      using scan_run[OF Cons.prems(1), of escaped t] by (simp add: state_def)
    have here: "cell_scan state (c # cs)" using Cons.prems(2) state by simp
    have rest: "cell_scan e (fold_spaces [] cs)" if "cell_scan e cs" for e using Cons.IH[of "[]" e] that by simp
    have "cell_scan state (c # fold_spaces [] cs)" using here rest by (cases state) (auto split: if_split_asm)
    then show ?thesis using False scan_fold_run[OF Cons.prems(1), of escaped "c # fold_spaces [] cs"] state by simp
  qed
qed

lemma set_fold_spaces: "set (fold_spaces run s) \<subseteq> set run \<union> set s \<union> {CHR '' ''}"
proof (induction s arbitrary: run)
  case (Cons c cs)
  then show ?case using Cons.IH[of "run @ [c]"] Cons.IH[of "[]"] by (auto simp: fold_run_def split: if_split_asm)
qed (auto simp: fold_run_def)

lemma fold_spaces_newline: "list_all js_space run \<Longrightarrow> CHR 0x0A \<notin> set (fold_spaces run s)"
proof (induction s arbitrary: run)
  case (Cons c cs)
  have "c \<noteq> CHR 0x0A" if "\<not> js_space c" using that by (auto simp: js_space_def)
  then show ?case using Cons.IH[of "run @ [c]"] Cons.IH[of "[]"] Cons.prems by (auto simp: fold_run_def)
qed (auto simp: fold_run_def)

lemma escapeHtml_simps [simp]:
  "escapeHtml [] = []"
  "escapeHtml (c # cs) = (if c = CHR ''&'' then ''&amp;'' else if c = CHR ''<'' then ''&lt;'' else if c = CHR ''>'' then ''&gt;'' else [c]) @ escapeHtml cs"
  by (simp_all add: escapeHtml_def)

lemma escapeHtml_no_tags: "CHR ''<'' \<notin> set (escapeHtml s)" "CHR ''>'' \<notin> set (escapeHtml s)"
  by (induction s) auto

text \<open>
  Property C26. Whatever text a producer recorded, its cell holds no line feed, no angle bracket (so no HTML
  tag), no bar that is not escaped, and no backslash at its end that would escape the bar of the table. It
  does not say that no text can end its row: a carriage return without a line feed passes unchanged (below),
  and neither are the brackets and parentheses of a Markdown link escaped.
\<close>

theorem escaped_cell_safe:
  "CHR ''<'' \<notin> set (escapeCell t) \<and> CHR ''>'' \<notin> set (escapeCell t) \<and> CHR 0x0A \<notin> set (escapeCell t) \<and>
   cell_scan False (escapeCell t)"
proof -
  let ?bars = "replace_char CHR ''|'' [backslash, CHR ''|''] (replace_char backslash [backslash, backslash] (escapeHtml t))"
  have "set ?bars \<subseteq> set (escapeHtml t) \<union> {backslash, CHR ''|''}"
    using set_replace_char[of "CHR ''|''" "[backslash, CHR ''|'']" "replace_char backslash [backslash, backslash] (escapeHtml t)"]
      set_replace_char[of backslash "[backslash, backslash]" "escapeHtml t"] by auto
  then have "CHR ''<'' \<notin> set ?bars" "CHR ''>'' \<notin> set ?bars" using escapeHtml_no_tags by (auto simp: backslash_def)
  then have "CHR ''<'' \<notin> set (escapeCell t)" "CHR ''>'' \<notin> set (escapeCell t)"
    using set_fold_spaces[of "[]" ?bars] by (auto simp: escapeCell_def)
  then show ?thesis
    using fold_spaces_newline[of "[]" ?bars] scan_fold_spaces[of "[]" False ?bars] escaped_scan[of "escapeHtml t"]
    by (simp add: escapeCell_def)
qed

text \<open>A carriage return alone passes, although Markdown ends a line at it.\<close>

theorem carriage_return_passes: "escapeCell [CHR 0x0D] = [CHR 0x0D]"
  by (simp add: escapeCell_def escapeHtml_def fold_run_def js_space_def backslash_def)

text \<open>How a browser reads the three entities.\<close>

function decode_entities :: "string \<Rightarrow> string" where
  "decode_entities s =
     (case s of
        [] \<Rightarrow> []
      | c # cs \<Rightarrow>
          if starts_with s ''&amp;'' then CHR ''&'' # decode_entities (drop 5 s)
          else if starts_with s ''&lt;'' then CHR ''<'' # decode_entities (drop 4 s)
          else if starts_with s ''&gt;'' then CHR ''>'' # decode_entities (drop 4 s)
          else c # decode_entities cs)"
  by pat_completeness auto
termination
  by (relation "measure length") auto

declare decode_entities.simps [simp del]

lemma decode_one [simp]:
  "decode_entities [] = []"
  "decode_entities (''&amp;'' @ s) = CHR ''&'' # decode_entities s"
  "decode_entities (''&lt;'' @ s) = CHR ''<'' # decode_entities s"
  "decode_entities (''&gt;'' @ s) = CHR ''>'' # decode_entities s"
  "c \<noteq> CHR ''&'' \<Longrightarrow> decode_entities (c # s) = c # decode_entities s"
  by (subst decode_entities.simps, simp)+

text \<open>
  Escaping loses nothing: a browser that decodes the entities shows the recorded text, also
  when the text itself holds entities.
\<close>

theorem escaped_html_roundtrip: "decode_entities (escapeHtml t) = t"
proof (induction t)
  case (Cons c t)
  then show ?case
    using decode_one(2)[of "escapeHtml t"] decode_one(3)[of "escapeHtml t"] decode_one(4)[of "escapeHtml t"] by auto
qed simp

section \<open>The example board\<close>

lemma ranked_board: "\<exists>b. buildLeaderboard ranking_services (published_dataset ranked_run) = Inr b"
proof -
  let ?S = ranking_services and ?ds = "published_dataset ranked_run"
  obtain rows where rows: "rankMetric ?S ?ds ranked_def = Inr rows" by (rule ranked_run_ranks)
  have catalog: "metricCatalog ?S = [ranked_def]" by (simp add: ranking_services_def merge_services.defs)
  have shown: "catalogued_metrics ?S ?ds d = (if d = Memory then [ranked_def] else [])" for d
    by (simp add: catalogued_metrics_def catalog runHeadlineIds_def Let_def) (simp add: ranked_def_def)
  have "\<exists>r. rank_dimension ?S ?ds d = Inr r" for d
    using rows by (simp add: rank_dimension_def shown Let_def)
  then obtain f where "\<And>d. rank_dimension ?S ?ds d = Inr (f d)" by metis
  then show ?thesis by (simp add: buildLeaderboard_def sequence_map_Inr[where g = f])
qed

theorem board_ranks_everything_measured_witness:
  "\<exists>b part. buildLeaderboard ranking_services (published_dataset ranked_run) = Inr b \<and> part \<in> set (lb_dimensions b) \<and> ld_dimension part = Memory"
proof -
  obtain b where b: "buildLeaderboard ranking_services (published_dataset ranked_run) = Inr b" using ranked_board by blast
  have mem: "ranked_provider ''p'' \<in> set (ds_providers (published_dataset ranked_run))" "ranked_metric \<in> set (pv_metrics (ranked_provider ''p''))"
    "ranked_def \<in> set (metricCatalog ranking_services)" "md_id ranked_def = metricId ranked_metric"
    by (simp_all add: ranked_providers) (simp add: ranking_services_def merge_services.defs)
  from board_ranks_everything_measured[OF b mem] show ?thesis using b by (auto simp: ranked_def_def)
qed

theorem coverage_holes_accounted_witness:
  "\<exists>g\<in>set (coverageGapsOf ranking_services
      (published_dataset (ranked_run\<lparr>run_providers := [ranked_provider ''p'', (ranked_provider ''q'')\<lparr>pv_suitesCovered := []\<rparr>]\<rparr>))).
     cg_providerId g = ''q'' \<and> cg_id g = ''memory''"
proof -
  let ?q = "(ranked_provider ''q'')\<lparr>pv_suitesCovered := []\<rparr>"
  let ?ds = "published_dataset (ranked_run\<lparr>run_providers := [ranked_provider ''p'', ?q]\<rparr>)"
  have "?q \<in> set (ds_providers ?ds)" "ranked_provider ''p'' \<in> set (ds_providers ?ds)" by (simp_all add: published_dataset_def)
  moreover have "\<not> providerReportedNothing ?q" by (simp add: providerReportedNothing_def ranked_provider_def)
  moreover have "''memory'' \<in> set (pv_suitesCovered (ranked_provider ''p'') @ suite_gap_ids (ranked_provider ''p''))"
    by (simp add: ranked_provider_def pooling_provider_def)
  moreover have "''memory'' \<in> set REGISTERED_SUITES" by (simp add: REGISTERED_SUITES_def SUITES_def)
  moreover have "pv_suitesCovered ?q = []" "pv_id ?q = ''q''" by (simp_all add: ranked_provider_def)
  ultimately show ?thesis using coverage_holes_accounted[of ?q ?ds "ranked_provider ''p''" "''memory''" ranking_services] by auto
qed

end
