(* ===== verification/Spec2Isabelle.thy ===== *)
theory Spec2Isabelle
  imports Planner Publication Owner BatchSafety StepSafety Lifecycle Board
begin

text \<open>
  \<^bold>\<open>A verification development of the sandbox benchmark tooling.\<close>

  The repository measures what rented sandboxes of many providers deliver. An experiment is
  planned into cells, one sandbox each; the cells run, each leaving raw output and receipts; the
  evidence is judged against the plan; what is measured is merged into one document, a Run; several
  Runs are pooled, and every metric is ranked with a statistical test. These theories model the
  path from the plan to the ranking, with the bookkeeping that keeps a sandbox from being forgotten
  on the way. The path is followed into the batch that creates the sandboxes and into the sandbox
  itself, where a step of a suite is started, awaited and read back. Paths below are relative to \<open>src/\<close>.

  \<^bold>\<open>Theories, in the order of the data.\<close>

  \<^item> \<open>Prelude\<close>: JavaScript numbers, checked array reads, thrown errors as \<open>Inl\<close>, generic lemmas, the
    locale \<open>step_system\<close> of transition systems with an invariant. \<open>Texts\<close>: the string operations.
  \<^item> Statistics, \<open>packages/schema/src/analysis.ts\<close>: \<open>OrderStats\<close> (\<open>percentile\<close>, \<open>selectNth\<close>,
    \<open>medianInPlace\<close>), \<open>Aggregates\<close> (\<open>aggregate\<close>, the reported medians), \<open>Rng\<close> (\<open>seededRng\<close>), \<open>Bootstrap\<close>
    (the resampling intervals), \<open>Midranks\<close>, \<open>ExactTest\<close>, \<open>RankTests\<close> (the rank-sum test), \<open>Kolmogorov\<close>
    (the two-sample distance) and \<open>Separation\<close> (the verdict of a comparison).
  \<^item> Planning: \<open>Suites\<close> (\<open>suites.ts\<close>, \<open>suite-contract.ts\<close> of \<open>packages/schema/src\<close>), \<open>PlanModel\<close> (the
    plan as data, \<open>packages/schema/src/experiment.ts\<close>), \<open>PlanVerifier\<close> (\<open>verifyExperimentPlan\<close> of
    \<open>packages/results/src/lib/experiment.ts\<close>), \<open>Planner\<close> (\<open>apps/cli/src/lib/experiment-plan.ts\<close>).
  \<^item> Documents: \<open>RunModel\<close> (\<open>run.ts\<close>, \<open>artifact-evidence.ts\<close>), \<open>Evidence\<close> (attempts, receipts, repairs
    and recoveries), \<open>Economics\<close> (pricing and the metrics derived from it).
  \<^item> Judging and publishing: \<open>Coverage\<close> (\<open>evaluateExperiment\<close>), \<open>Mixtures\<close> (\<open>observed-mixtures.ts\<close>),
    \<open>Merge\<close> (\<open>aggregateRuns\<close> of \<open>aggregate.ts\<close>), \<open>Publication\<close> (the second half of \<open>experiment.ts\<close>).
  \<^item> Reading: \<open>Pooling\<close> (\<open>leaderboard-datasets.ts\<close>), \<open>Ranking\<close> and \<open>Board\<close> (\<open>leaderboard.ts\<close>).
  \<^item> Ownership of sandboxes: \<open>Owner\<close> (\<open>packages/harness/src/lib/sandbox-owner.ts\<close>) within a process,
  \<open>Journal\<close> (\<open>apps/cli/src/lib/account-journal.ts\<close>) across processes.
  \<^item> Running a batch: \<open>Admission\<close> (who may use an account: \<open>account-reconciliation.ts\<close>,
    \<open>admission-capacity.ts\<close>, the first half of \<open>execute-experiment.ts\<close>, all of \<open>apps/cli/src/lib\<close>), \<open>Batch\<close>
    (the cells of one wave as a transition system over the events that answer them) and \<open>BatchSafety\<close>
    (what every reachable batch satisfies).
  \<^item> Inside a sandbox, all of \<open>packages/harness/src\<close>: \<open>Waits\<close> (replies of the outside world, clock,
    \<open>withTimeout\<close>, the readiness loop of \<open>lib/readiness.ts\<close>), \<open>Lifecycle\<close> (\<open>measureCycle\<close> and the two
    benchmark bodies of \<open>lib/lifecycle.ts\<close>, \<open>benchmarkCycles\<close> of \<open>index.ts\<close>), \<open>Encodings\<close> (shell quoting, the
    completion receipt of \<open>lib/completion.ts\<close>, base64), \<open>Steps\<close> (the step runner of \<open>lib/execute.ts\<close>:
    streamed, inline and detached steps, the poll loop, the chunked log) and \<open>StepSafety\<close>.

  \<^bold>\<open>How the model corresponds to the code.\<close> An interface or parsed object is a \<open>record\<close> with the
  fields the verifiers read, a tagged union a \<open>datatype\<close>. A function that throws returns
  \<open>error + 'a\<close>, with one error value for each \<open>throw\<close> in the order of the code. A loop is a
  \<open>fun\<close> or a \<open>function\<close> with a termination proof; an array that is written in place is an explicit
  buffer whose reads are checked. A \<open>Map\<close> is a partial map, or an association list where the code
  depends on insertion order. Objects with handlers (\<open>Owner\<close>) are transitions of a state record,
  with reachability and invariants; so is a batch (\<open>Batch\<close>), whose promises are settled by events
  in any order. Awaited operations of the outside world are answered by a parameter (\<open>Journal\<close>, \<open>Admission\<close>)
  that may also never answer, or by a stream of replies indexed by the number of waits already made
  (\<open>Waits\<close>, with the time each takes), so that the code's own deadlines decide what it sees. A wait without a bound is a
  \<open>partial_function (option)\<close> or a reply that may be missing, and its value \<open>None\<close> is not returning.

  \<^bold>\<open>Parameters.\<close> Code that is not in the repository or is opaque is a field of a service record:
  the content digests (SHA-256), \<open>localeCompare\<close>, \<open>Date.parse\<close>, canonical JSON texts, and the two
  registries generated from the provider packages and from the Phoronix profiles (providers and
  metrics). Theorems assume of them only what they state as hypotheses, and every hypothesis has a
  witness with concrete functions. The isolation probe vocabulary, the provider drivers, the text decoder of
  a log, the redaction of secrets, the shell preamble of a step and the lateness of timers are
  parameters in the same way.

  \<^bold>\<open>Interfaces.\<close> Locales state what one part needs of another and are interpreted on the model:
  \<open>step_system\<close> on the sandbox registry and on the batch, \<open>unit_rng\<close> on mulberry32. The remaining locales are declared
  and interpreted in the theory of the component that provides them.

  \<^bold>\<open>What the properties show.\<close>

  \<^item> Statistics: selection computes the order statistic and equals the sorted path, with no read out
    of range; Welford's recurrence is the mean and the deviation; the dynamic program counts the
    permutation distribution, so the p-value is exact up to the pool bound of the code and its floor is
    the least any relabelling attains there; bootstrap intervals contain what they must and are ordered; the two-pointer sweep finds
    the largest distance of the distribution functions.
  \<^item> Plan: what the planner schedules is accepted by the verifier, which accepts only schedules that
    run every eligible cell exactly once within the limits of its account, and planning fails exactly on
    the conditions stated.
  \<^item> Evidence: a complete cell rests on one attempt of the plan's provenance with confirmed receipts
    and all its metrics; the order of the attempts does not matter; what is published was verified,
    carries the measured samples and no others, and a repair replaces only what was not settled.
  \<^item> Merge and pooling: a replicate slot of a merged metric holds exactly the samples of the first
    sandbox with that index, and pooling keeps every cluster once; verdicts fold so that a failure
    sticks; counts of machines and networks are the counts of the readings, most frequent first.
  \<^item> Ranking: every provider measured is ranked, ranks follow the verdicts of the rank test, every
    hole is accounted for, and no recorded text adds a column, a line feed or an HTML tag to its row.
  \<^item> Ownership: no reachable state of the registry has forgotten a sandbox, the drain leaves exactly
    what no round released, a finished recovery leaves nothing of its attempt open, and the wait for
    an absence goes on for ever exactly on the conditions stated.
  \<^item> Batches: in every reachable state a sandbox that stands is in the journal, an account never holds
    more than its limit, settled evidence says what happened, what a dead process leaves is
    recoverable, every run of a batch ends within ten steps per cell, and an account is admitted
    only after an inventory taken past the last removal was empty.
  \<^item> Sandboxes: a lifecycle cycle reports each metric as samples or as a gap with its cause; a
    cold start is the wait from the request of the sandbox to the end of its first answering probe; a detached step succeeds only when its
    receipt was read, is accounted for on every path past its start, gives a dead sandbox up after a bounded number
    of polls, and a log read in chunks is the whole log.

  \<^bold>\<open>Bounds and fuel.\<close> No model of a loop of the code uses fuel. Loops whose end is not structural have
  a measure: the window of the selection loop, the unread suffix of the two-pointer sweep and of
  the tie groups, the time left before the deadline of the readiness and poll loops (every turn
  waits at least the poll interval), the unread bytes of a chunked log. The only loops without a
  bound are the waits of the journal; when they end is a property. Numbers are exact reals, integers unbounded, except the generator's 32-bit arithmetic, which is
  kept as \<open>32 word\<close>.

  \<^bold>\<open>Not modelled.\<close>

  \<^item> The rounding of IEEE doubles: a finite number is an exact real.
  \<^item> The provider packages, the driver kit and their command lines: HTTP and vendor SDK calls.
  \<^item> The rest of the harness: \<open>setup.ts\<close> and \<open>collect.ts\<close> (shell scripts sent to a sandbox and files
    fetched from it), the job of a whole suite in \<open>index.ts\<close>, and of \<open>execute.ts\<close> the heartbeat, the
    echo on the console and the text of the shell preamble.
  \<^item> Of a batch, the writing of its files and what fails there.
  \<^item> Parsing of Phoronix results into Runs (\<open>normalize-tree.ts\<close>, \<open>pts.ts\<close>): XML and file trees.
  \<^item> The Markdown assembly of the leaderboard beyond its cells, and the drawing of the figures.
  \<^item> String patterns of the schemas (identifiers, dates, digests, URLs): a value of the model is one
    that its parser admits.
  \<^item> \<open>packages/schema/src/pts-generated.ts\<close> and the wiring written by \<open>packages/schema/scripts\<close>:
    generated tables.
\<close>

end
